(* ===== verification/Prelude.thy ===== *)
theory Prelude
  imports Main "HOL-Library.Word"
begin

unbundle bit_operations_syntax

text \<open>
  Shared vocabulary of the development: the machine integers of the Raspberry Pi code, the
  ways a C function of the kernel can fail, the result type that carries such a failure, checked
  array accesses, NUL-terminated strings and little-endian integers in byte buffers.

  Every component returns \<open>fault + 'a\<close>: a value of \<open>fault\<close> on the left is the run that
  ends in \<open>panic\<close>, \<open>assert\<close>, \<open>demand\<close> (all of which reboot the Pi), the run that leaves the bounds
  of an array, or the run that never returns.
\<close>

section \<open>Machine integers and faults\<close>

type_synonym u8 = "8 word"
type_synonym u16 = "16 word"
type_synonym u32 = "32 word"

datatype fault =
    Panic string    \<comment> \<open>\<open>panic\<close> and \<open>demand\<close> with their message\<close>
  | AssertFail      \<comment> \<open>\<open>assert\<close>\<close>
  | OutOfBounds     \<comment> \<open>an access outside the array (undefined behaviour in C)\<close>
  | DivZero         \<comment> \<open>a division by zero\<close>
  | Diverges        \<comment> \<open>the loop never ends, or waits for input that never comes\<close>

type_synonym 'a res = "fault + 'a"

named_theorems res_simps \<open>unfolding rules for the result type\<close>

definition bind_r :: "'a res \<Rightarrow> ('a \<Rightarrow> 'b res) \<Rightarrow> 'b res" where
  "bind_r m k = (case m of Inl e \<Rightarrow> Inl e | Inr x \<Rightarrow> k x)"

definition assert_r :: "bool \<Rightarrow> unit res" where
  "assert_r b = (if b then Inr () else Inl AssertFail)"

definition demand_r :: "bool \<Rightarrow> string \<Rightarrow> unit res" where
  "demand_r b msg = (if b then Inr () else Inl (Panic msg))"

definition arr_get :: "'a list \<Rightarrow> nat \<Rightarrow> 'a res" where
  "arr_get xs i = (if i < length xs then Inr (xs ! i) else Inl OutOfBounds)"

definition arr_set :: "'a list \<Rightarrow> nat \<Rightarrow> 'a \<Rightarrow> 'a list res" where
  "arr_set xs i v = (if i < length xs then Inr (xs[i := v]) else Inl OutOfBounds)"

definition udiv_r :: "u32 \<Rightarrow> u32 \<Rightarrow> u32 res" where
  "udiv_r x y = (if y = 0 then Inl DivZero else Inr (x div y))"

lemma bind_r_Inl [simp]: "bind_r (Inl e) k = Inl e"
  by (simp add: bind_r_def)

lemma bind_r_Inr [simp]: "bind_r (Inr x) k = k x"
  by (simp add: bind_r_def)

lemma bind_r_eq_Inr [res_simps]:
  "bind_r m k = Inr y \<longleftrightarrow> (\<exists>x. m = Inr x \<and> k x = Inr y)"
  by (cases m) auto

lemma bind_r_eq_Inl [res_simps]:
  "bind_r m k = Inl e \<longleftrightarrow> m = Inl e \<or> (\<exists>x. m = Inr x \<and> k x = Inl e)"
  by (cases m) auto

lemma bind_r_assoc: "bind_r (bind_r m f) g = bind_r m (\<lambda>x. bind_r (f x) g)"
  by (cases m) auto

lemma bind_r_cong [fundef_cong]:
  "m = m' \<Longrightarrow> (\<And>x. m' = Inr x \<Longrightarrow> k x = k' x) \<Longrightarrow> bind_r m k = bind_r m' k'"
  by (cases m') auto

lemma bind_r_if: "bind_r (if b then m else m') k = (if b then bind_r m k else bind_r m' k)"
  by simp

lemma assert_r_simps [simp]:
  "assert_r True = Inr ()" "assert_r False = Inl AssertFail"
  by (simp_all add: assert_r_def)

lemma assert_r_eq_Inr [res_simps]: "assert_r b = Inr u \<longleftrightarrow> b"
  by (simp add: assert_r_def)

lemma demand_r_simps [simp]:
  "demand_r True msg = Inr ()" "demand_r False msg = Inl (Panic msg)"
  by (simp_all add: demand_r_def)

lemma demand_r_eq_Inr [res_simps]: "demand_r b msg = Inr u \<longleftrightarrow> b"
  by (simp add: demand_r_def)

lemma arr_get_in [simp]: "i < length xs \<Longrightarrow> arr_get xs i = Inr (xs ! i)"
  by (simp add: arr_get_def)

lemma arr_get_out [simp]: "length xs \<le> i \<Longrightarrow> arr_get xs i = Inl OutOfBounds"
  by (simp add: arr_get_def)

lemma arr_set_in [simp]: "i < length xs \<Longrightarrow> arr_set xs i v = Inr (xs[i := v])"
  by (simp add: arr_set_def)

lemma arr_set_out [simp]: "length xs \<le> i \<Longrightarrow> arr_set xs i v = Inl OutOfBounds"
  by (simp add: arr_set_def)

lemma arr_get_eq_Inr [res_simps]: "arr_get xs i = Inr v \<longleftrightarrow> i < length xs \<and> v = xs ! i"
  by (auto simp: arr_get_def)

lemma arr_set_eq_Inr [res_simps]: "arr_set xs i v = Inr ys \<longleftrightarrow> i < length xs \<and> ys = xs[i := v]"
  by (auto simp: arr_set_def)

lemma udiv_r_ok [simp]: "y \<noteq> 0 \<Longrightarrow> udiv_r x y = Inr (x div y)"
  by (simp add: udiv_r_def)

lemma udiv_r_eq_Inr [res_simps]: "udiv_r x y = Inr z \<longleftrightarrow> y \<noteq> 0 \<and> z = x div y"
  by (auto simp: udiv_r_def)

section \<open>Unsigned arithmetic\<close>

lemma unat_u32_less [simp]: "unat (x :: u32) < 4294967296"
  using unsigned_less [of x] by simp

lemma unat_u8_less [simp]: "unat (x :: u8) < 256"
  using unsigned_less [of x] by simp

lemma unat_of_nat_u32: "n < 4294967296 \<Longrightarrow> unat (of_nat n :: u32) = n"
  by (simp add: unat_of_nat take_bit_eq_mod)

lemma unat_add_u32: "unat (x + y :: u32) = (unat x + unat y) mod 4294967296"
  by (simp add: unat_word_ariths)

lemma unat_add_small: "unat x + unat y < 4294967296 \<Longrightarrow> unat (x + y :: u32) = unat x + unat y"
  by (simp add: unat_add_u32)

lemma unat_mult_small: "unat x * unat y < 4294967296 \<Longrightarrow> unat (x * y :: u32) = unat x * unat y"
  by (simp add: unat_word_ariths)

lemma unat_plus_one: "x < y \<Longrightarrow> unat (x + 1 :: u32) = unat x + 1"
proof -
  assume "x < y"
  then have "unat x + unat (1 :: u32) < 4294967296"
    using unat_u32_less [of y] unfolding word_less_nat_alt unat_1 by linarith
  then show ?thesis using unat_add_small [of x 1] by simp
qed

lemma unat_sub_u32:
  "unat (x - y :: u32) = (if unat y \<le> unat x then unat x - unat y
                          else 4294967296 + unat x - unat y)"
  using unat_u32_less [of x] unat_u32_less [of y]
  by (auto simp: unat_sub_if' )

lemma unat_mod_u32: "unat (x mod y :: u32) = unat x mod unat y"
  by (simp add: unat_mod)

lemma unat_eq_iff: "(x :: 'a :: len word) = y \<longleftrightarrow> unat x = unat y"
  by (rule word_unat_eq_iff)

section \<open>NUL-terminated strings\<close>

text \<open>
  A C string is the list of its bytes before the terminating NUL. Indexing it as the code does,
  up to and including the terminator, is \<open>cs_at\<close>. The code is compiled for ARM, where \<open>char\<close> is
  unsigned, so comparisons of characters are comparisons of bytes.
\<close>

type_synonym cstr = "u8 list"

definition cs_at :: "cstr \<Rightarrow> nat \<Rightarrow> u8" where
  "cs_at s i = (if i < length s then s ! i else 0)"

definition str :: "string \<Rightarrow> cstr" where
  "str s = map of_char s"

definition is_cstr :: "cstr \<Rightarrow> bool" where
  "is_cstr s \<longleftrightarrow> 0 \<notin> set s"

text \<open>The C string at the start of a buffer; without a NUL the code reads past its end.\<close>

definition cstr_of :: "u8 list \<Rightarrow> cstr res" where
  "cstr_of b = (if 0 \<in> set b then Inr (takeWhile (\<lambda>c. c \<noteq> 0) b) else Inl OutOfBounds)"

lemma takeWhile_nonzero_app:
  "0 \<notin> set s \<Longrightarrow> takeWhile (\<lambda>c :: u8. c \<noteq> 0) (s @ 0 # t) = s"
  by (induction s) auto

lemma cstr_of_app [simp]: "is_cstr s \<Longrightarrow> cstr_of (s @ 0 # t) = Inr s"
  by (simp add: cstr_of_def is_cstr_def takeWhile_nonzero_app)

lemma is_cstr_takeWhile [simp]: "is_cstr (takeWhile (\<lambda>c. c \<noteq> 0) b)"
  by (auto simp: is_cstr_def dest: set_takeWhileD)

section \<open>Little-endian integers in buffers\<close>

definition le16_bytes :: "u16 \<Rightarrow> u8 list" where
  "le16_bytes x = [ucast x, ucast (drop_bit 8 x)]"

definition le32_bytes :: "u32 \<Rightarrow> u8 list" where
  "le32_bytes x = [ucast x, ucast (drop_bit 8 x), ucast (drop_bit 16 x), ucast (drop_bit 24 x)]"

definition le16_at :: "u8 list \<Rightarrow> nat \<Rightarrow> u16" where
  "le16_at b i = ucast (b ! i) OR push_bit 8 (ucast (b ! Suc i))"

definition le32_at :: "u8 list \<Rightarrow> nat \<Rightarrow> u32" where
  "le32_at b i = ucast (b ! i) OR push_bit 8 (ucast (b ! (i + 1)))
     OR push_bit 16 (ucast (b ! (i + 2))) OR push_bit 24 (ucast (b ! (i + 3)))"

text \<open>Overwriting the bytes of a buffer from an offset on, as a store of a field or \<open>memcpy\<close> does.\<close>

definition put_at :: "'a list \<Rightarrow> nat \<Rightarrow> 'a list \<Rightarrow> 'a list" where
  "put_at b i xs = take i b @ xs @ drop (i + length xs) b"

lemma length_le16_bytes [simp]: "length (le16_bytes x) = 2"
  by (simp add: le16_bytes_def)

lemma length_le32_bytes [simp]: "length (le32_bytes x) = 4"
  by (simp add: le32_bytes_def)

lemma le16_join: "ucast (ucast x :: u8) OR push_bit 8 (ucast (ucast (drop_bit 8 x) :: u8)) = (x :: u16)"
  by (rule bit_word_eqI) (auto simp: bit_simps)

lemma le32_join:
  "ucast (ucast x :: u8) OR push_bit 8 (ucast (ucast (drop_bit 8 x) :: u8))
     OR push_bit 16 (ucast (ucast (drop_bit 16 x) :: u8))
     OR push_bit 24 (ucast (ucast (drop_bit 24 x) :: u8)) = (x :: u32)"
proof (rule bit_word_eqI)
  fix n
  assume "n < LENGTH(32)"
  then consider "n < 8" | "8 \<le> n" "n < 16" | "16 \<le> n" "n < 24" | "24 \<le> n" "n < 32"
    by fastforce
  then show "bit ((ucast (ucast x :: u8) :: u32) OR push_bit 8 (ucast (ucast (drop_bit 8 x) :: u8))
     OR push_bit 16 (ucast (ucast (drop_bit 16 x) :: u8))
     OR push_bit 24 (ucast (ucast (drop_bit 24 x) :: u8))) n = bit x n"
    by cases (auto simp: bit_simps)
qed

lemma length_put_at [simp]: "i + length xs \<le> length b \<Longrightarrow> length (put_at b i xs) = length b"
  by (simp add: put_at_def)

lemma nth_put_at:
  "i + length xs \<le> length b \<Longrightarrow> j < length b \<Longrightarrow>
   put_at b i xs ! j = (if i \<le> j \<and> j < i + length xs then xs ! (j - i) else b ! j)"
  by (auto simp: put_at_def nth_append min_def)

lemma le16_at_put_at [simp]:
  "i + 2 \<le> length b \<Longrightarrow> le16_at (put_at b i (le16_bytes x)) i = x"
  using le16_join [of x] by (simp add: le16_at_def nth_put_at le16_bytes_def)

lemma le32_at_put_at [simp]:
  "i + 4 \<le> length b \<Longrightarrow> le32_at (put_at b i (le32_bytes x)) i = x"
  using le32_join [of x] by (simp add: le32_at_def nth_put_at le32_bytes_def)

lemma le32_at_put_other:
  "i + length xs \<le> length b \<Longrightarrow> j + 4 \<le> i \<or> i + length xs \<le> j \<Longrightarrow> j + 4 \<le> length b \<Longrightarrow>
   le32_at (put_at b i xs) j = le32_at b j"
  by (auto simp: le32_at_def nth_put_at)

end
