(* ===== verification/Fifo.thy ===== *)
theory Fifo
  imports Prelude
begin

text \<open>
  The contract of a first-in-first-out queue. The kernel has two of them: the lock-free byte ring
  of \<open>libpi/libc/circular.h\<close> that carries console and radio bytes from interrupt handlers to
  threads, and the linked list of \<open>libpi/libc/Q.h\<close> that holds threads. Their clients are proved
  against the locale \<open>fifo\<close>; theories \<open>Circular\<close> and \<open>LinkedQ\<close> interpret it.
\<close>

section \<open>Runs of queue operations\<close>

datatype 'a fifo_op = Enq 'a | Deq

datatype 'a fifo_res = Took bool | Gave "'a option"

text \<open>A run of operations returns the result of each operation and the final queue.\<close>

fun fifo_run ::
  "('q \<Rightarrow> 'a \<Rightarrow> (bool \<times> 'q) res) \<Rightarrow> ('q \<Rightarrow> ('a option \<times> 'q) res) \<Rightarrow>
   'a fifo_op list \<Rightarrow> 'q \<Rightarrow> ('a fifo_res list \<times> 'q) res" where
  "fifo_run enq deq [] q = Inr ([], q)"
| "fifo_run enq deq (Enq x # ops) q =
     bind_r (enq q x) (\<lambda>(ok, q').
     bind_r (fifo_run enq deq ops q') (\<lambda>(rs, r). Inr (Took ok # rs, r)))"
| "fifo_run enq deq (Deq # ops) q =
     bind_r (deq q) (\<lambda>(v, q').
     bind_r (fifo_run enq deq ops q') (\<lambda>(rs, r). Inr (Gave v # rs, r)))"

text \<open>
  The queue as a list of at most \<open>cap\<close> elements: an element is appended when there is room, and the head is
  delivered when there is one.
\<close>

fun list_run :: "nat \<Rightarrow> 'a fifo_op list \<Rightarrow> 'a list \<Rightarrow> 'a fifo_res list \<times> 'a list" where
  "list_run cap [] xs = ([], xs)"
| "list_run cap (Enq x # ops) xs =
     (let (rs, ys) = list_run cap ops (if length xs < cap then xs @ [x] else xs) in (Took (length xs < cap) # rs, ys))"
| "list_run cap (Deq # ops) [] = (let (rs, ys) = list_run cap ops [] in (Gave None # rs, ys))"
| "list_run cap (Deq # ops) (x # xs) = (let (rs, ys) = list_run cap ops xs in (Gave (Some x) # rs, ys))"

section \<open>The queue contract\<close>

locale fifo =
  fixes inv :: "'q \<Rightarrow> bool"
    and elems :: "'q \<Rightarrow> 'a list"
    and fits :: "'q \<Rightarrow> bool"
    and ok :: "'q \<Rightarrow> 'a \<Rightarrow> bool"
    and enq :: "'q \<Rightarrow> 'a \<Rightarrow> (bool \<times> 'q) res"
    and deq :: "'q \<Rightarrow> ('a option \<times> 'q) res"
  assumes enq_fits: "inv q \<Longrightarrow> ok q x \<Longrightarrow> fits q \<Longrightarrow>
      \<exists>q'. enq q x = Inr (True, q') \<and> inv q' \<and> elems q' = elems q @ [x]"
    and enq_full: "inv q \<Longrightarrow> ok q x \<Longrightarrow> \<not> fits q \<Longrightarrow> enq q x = Inr (False, q)"
    and deq_empty: "inv q \<Longrightarrow> elems q = [] \<Longrightarrow> deq q = Inr (None, q)"
    and deq_cons: "inv q \<Longrightarrow> elems q = x # xs \<Longrightarrow>
      \<exists>q'. deq q = Inr (Some x, q') \<and> inv q' \<and> elems q' = xs"
begin

lemma enq_cases:
  assumes "inv q" "ok q x"
  obtains q' where "enq q x = Inr (fits q, q')" "inv q'"
    "elems q' = elems q @ (if fits q then [x] else [])"
proof (cases "fits q")
  case True
  with enq_fits [OF assms True] that show ?thesis by fastforce
next
  case False
  with enq_full [OF assms False] assms(1) that show ?thesis by simp
qed

text \<open>
  A queue that takes every element while it holds less than \<open>cap\<close> behaves as the list: every operation returns,
  with the result that it has on the list.
\<close>

lemma run_fifo:
  assumes "inv q" and "\<And>q x. inv q \<Longrightarrow> ok q x" and "\<And>q. inv q \<Longrightarrow> fits q \<longleftrightarrow> length (elems q) < cap"
  shows "\<exists>rs q'. fifo_run enq deq ops q = Inr (rs, q') \<and> inv q' \<and> list_run cap ops (elems q) = (rs, elems q')"
  using assms(1)
proof (induction ops arbitrary: q)
  case Nil
  then show ?case by simp
next
  case (Cons op ops)
  show ?case
  proof (cases op)
    case (Enq x)
    obtain q1 where q1: "enq q x = Inr (fits q, q1)" "inv q1"
      "elems q1 = elems q @ (if fits q then [x] else [])"
      using enq_cases [OF Cons.prems assms(2) [OF Cons.prems]] .
    obtain rs q' where "fifo_run enq deq ops q1 = Inr (rs, q')" "inv q'" "list_run cap ops (elems q1) = (rs, elems q')"
      using Cons.IH [OF q1(2)] by blast
    then show ?thesis using q1 Enq assms(3) [OF Cons.prems] by (cases "fits q") auto
  next
    case Deq
    show ?thesis
    proof (cases "elems q")
      case Nil
      then show ?thesis using Cons.IH [OF Cons.prems] deq_empty [OF Cons.prems Nil] Deq by auto
    next
      case el: (Cons x xs)
      obtain q1 where "deq q = Inr (Some x, q1)" "inv q1" "elems q1 = xs" using deq_cons [OF Cons.prems el] by blast
      then show ?thesis using Cons.IH [of q1] Deq el by auto
    qed
  qed
qed

end

end
