(* ===== verification/Circular.thy ===== *)
theory Circular
  imports Fifo
begin

text \<open>
  The circular byte queue of \<open>libpi/libc/circular.h\<close> (\<open>cq_t\<close>): a ring of \<open>CQ_N\<close> bytes with a
  \<open>head\<close> that only the producer moves and a \<open>tail\<close> that only the consumer moves. The indices are
  32-bit unsigned words reduced modulo \<open>CQ_N\<close>; one slot stays free, so a full queue holds
  \<open>CQ_N - 1\<close> bytes. Memory barriers have no counterpart here: an operation is one step.
\<close>

section \<open>State and operations\<close>

definition CQ_N :: u32 where
  "CQ_N = 8192"

record cq =
  c_buf :: "u8 list"
  cq_fence :: u32
  cq_head :: u32
  cq_tail :: u32
  cq_overflow :: u32
  cq_errors_fatal_p :: bool

definition cq_empty :: "cq \<Rightarrow> bool" where
  "cq_empty q \<longleftrightarrow> cq_head q = cq_tail q"

definition cq_full :: "cq \<Rightarrow> bool" where
  "cq_full q \<longleftrightarrow> (cq_head q + 1) mod CQ_N = cq_tail q"

definition cq_nelem :: "cq \<Rightarrow> u32" where
  "cq_nelem q = (cq_head q - cq_tail q) mod CQ_N"

definition cq_nspace :: "cq \<Rightarrow> u32" where
  "cq_nspace q = (CQ_N - 1) - cq_nelem q"

text \<open>\<open>e\<close> is the value of the caller's variable, which an empty queue leaves unchanged.\<close>

definition cq_pop_nonblock :: "cq \<Rightarrow> u8 \<Rightarrow> (bool \<times> u8 \<times> cq) res" where
  "cq_pop_nonblock c e =
     (if cq_empty c then Inr (False, e, c)
      else bind_r (arr_get (c_buf c) (unat (cq_tail c))) (\<lambda>v.
             Inr (True, v, c\<lparr>cq_tail := (cq_tail c + 1) mod CQ_N\<rparr>)))"

text \<open>
  The blocking pop spins until an interrupt handler pushes a byte. The list \<open>irqs\<close> is what the
  handlers do to the queue between one poll and the next; when it is used up and the queue is
  still empty the caller is still spinning.
\<close>

fun cq_pop :: "bool \<Rightarrow> (cq \<Rightarrow> cq) list \<Rightarrow> cq \<Rightarrow> (u8 \<times> (cq \<Rightarrow> cq) list \<times> cq) res" where
  "cq_pop int_enabled irqs c =
     bind_r (cq_pop_nonblock c 0) (\<lambda>(ok, e, c').
       if ok then Inr (e, irqs, c')
       else if \<not> int_enabled then Inl (Panic ''will deadlock: interrupts not enabled'')
       else (case irqs of [] \<Rightarrow> Inl Diverges | f # fs \<Rightarrow> cq_pop int_enabled fs (f c')))"

declare cq_pop.simps [simp del]

definition cq_push :: "cq \<Rightarrow> u8 \<Rightarrow> (bool \<times> cq) res" where
  "cq_push c x =
     (if cq_full c then Inr (False, c)
      else bind_r (assert_r (cq_nspace c > 0)) (\<lambda>_.
           bind_r (arr_set (c_buf c) (unat (cq_head c)) x) (\<lambda>b.
             Inr (True, c\<lparr>c_buf := b, cq_head := (cq_head c + 1) mod CQ_N\<rparr>))))"

definition cq_peek :: "cq \<Rightarrow> u8 \<Rightarrow> (bool \<times> u8) res" where
  "cq_peek c e =
     (if cq_empty c then Inr (False, e)
      else bind_r (arr_get (c_buf c) (unat (cq_tail c))) (\<lambda>v. Inr (True, v)))"

fun cq_pop_n :: "bool \<Rightarrow> (cq \<Rightarrow> cq) list \<Rightarrow> cq \<Rightarrow> nat \<Rightarrow> (u8 list \<times> (cq \<Rightarrow> cq) list \<times> cq) res" where
  "cq_pop_n ie irqs c 0 = Inr ([], irqs, c)"
| "cq_pop_n ie irqs c (Suc n) =
     bind_r (cq_pop ie irqs c) (\<lambda>(e, irqs', c').
     bind_r (cq_pop_n ie irqs' c' n) (\<lambda>(es, irqs'', c''). Inr (e # es, irqs'', c'')))"

text \<open>\<open>None\<close> is the return value 0, on which the destination is not written.\<close>

definition cq_pop_n_noblk ::
  "bool \<Rightarrow> (cq \<Rightarrow> cq) list \<Rightarrow> cq \<Rightarrow> u32 \<Rightarrow> (u8 list option \<times> cq) res" where
  "cq_pop_n_noblk ie irqs q n =
     (if cq_nelem q < n then Inr (None, q)
      else bind_r (cq_pop_n ie irqs q (unat n)) (\<lambda>(es, _, q'). Inr (Some es, q')))"

definition cq_peek_n ::
  "bool \<Rightarrow> (cq \<Rightarrow> cq) list \<Rightarrow> cq \<Rightarrow> u32 \<Rightarrow> (u8 list option \<times> cq) res" where
  "cq_peek_n ie irqs c n =
     (let sz = cq_nelem c in
      if n > sz then Inr (None, c)
      else let tl = cq_tail c in
        bind_r (cq_pop_n_noblk ie irqs c n) (\<lambda>(r, c').
          case r of None \<Rightarrow> Inr (None, c')
          | Some es \<Rightarrow> (let c'' = c'\<lparr>cq_tail := tl\<rparr> in
              bind_r (assert_r (sz = cq_nelem c'')) (\<lambda>_. Inr (Some es, c'')))))"

fun cq_push_all :: "cq \<Rightarrow> u8 list \<Rightarrow> cq res" where
  "cq_push_all c [] = Inr c"
| "cq_push_all c (x # xs) =
     bind_r (cq_push c x) (\<lambda>(ok, c').
       if ok then cq_push_all c' xs else Inl (Panic ''impossible: buffer should have space''))"

definition cq_push_n :: "cq \<Rightarrow> u8 list \<Rightarrow> (bool \<times> cq) res" where
  "cq_push_n c data =
     bind_r (assert_r (data \<noteq> [])) (\<lambda>_.
       if unat (cq_nspace c) < length data then Inr (False, c)
       else bind_r (cq_push_all c data) (\<lambda>c'. Inr (True, c')))"

definition cq_push32 :: "cq \<Rightarrow> u32 \<Rightarrow> (bool \<times> cq) res" where
  "cq_push32 c x = cq_push_n c (le32_bytes x)"

definition cq_pop32_noblk :: "bool \<Rightarrow> (cq \<Rightarrow> cq) list \<Rightarrow> cq \<Rightarrow> (u32 option \<times> cq) res" where
  "cq_pop32_noblk ie irqs c =
     bind_r (cq_pop_n_noblk ie irqs c 4) (\<lambda>(r, c').
       Inr (map_option (\<lambda>es. le32_at es 0) r, c'))"

definition cq_pop32 :: "bool \<Rightarrow> (cq \<Rightarrow> cq) list \<Rightarrow> cq \<Rightarrow> (u32 \<times> cq) res" where
  "cq_pop32 ie irqs c =
     bind_r (cq_pop_n ie irqs c 4) (\<lambda>(es, _, c'). Inr (le32_at es 0, c'))"

definition cq_ok :: "cq \<Rightarrow> unit res" where
  "cq_ok c = (if cq_fence c \<noteq> 0x12345678 then Inl (Panic ''fence is corrupted'') else Inr ())"

definition cq_ckpt :: "cq \<Rightarrow> u32" where
  "cq_ckpt c = cq_tail c"

definition cq_restore :: "cq \<Rightarrow> u32 \<Rightarrow> cq" where
  "cq_restore c ckpt = c\<lparr>cq_tail := ckpt\<rparr>"

text \<open>\<open>memset\<close> clears the whole structure, then the fields are set and the result is self-tested.\<close>

definition cq_init :: "bool \<Rightarrow> cq res" where
  "cq_init errors_fatal_p =
     (let c = \<lparr>c_buf = replicate (unat CQ_N) 0, cq_fence = 0x12345678, cq_head = 0, cq_tail = 0,
               cq_overflow = 0, cq_errors_fatal_p = errors_fatal_p\<rparr> in
      bind_r (assert_r (cq_empty c)) (\<lambda>_.
      bind_r (assert_r (\<not> cq_full c)) (\<lambda>_.
      bind_r (assert_r (cq_nelem c = 0)) (\<lambda>_.
      bind_r (cq_pop_nonblock c 0x12) (\<lambda>(ok, e, c').
      bind_r (assert_r (\<not> ok \<and> e = 0x12)) (\<lambda>_. Inr c'))))))"

section \<open>Invariant and the list a ring holds\<close>

definition cq_inv :: "cq \<Rightarrow> bool" where
  "cq_inv c \<longleftrightarrow> length (c_buf c) = 8192 \<and> unat (cq_head c) < 8192 \<and> unat (cq_tail c) < 8192"

definition ring_list :: "'a list \<Rightarrow> nat \<Rightarrow> nat \<Rightarrow> 'a list" where
  "ring_list b t n = map (\<lambda>i. b ! ((t + i) mod length b)) [0..<n]"

definition cq_list :: "cq \<Rightarrow> u8 list" where
  "cq_list c = ring_list (c_buf c) (unat (cq_tail c)) (unat (cq_nelem c))"

lemma length_ring_list [simp]: "length (ring_list b t n) = n"
  by (simp add: ring_list_def)

lemma ring_list_snoc: "ring_list b t (Suc n) = ring_list b t n @ [b ! ((t + n) mod length b)]"
  by (simp add: ring_list_def)

lemma ring_list_Cons:
  "ring_list b t (Suc n) = b ! (t mod length b) # ring_list b (Suc t mod length b) n"
proof -
  have "[0..<Suc n] = 0 # map Suc [0..<n]"
    by (metis map_Suc_upt upt_conv_Cons zero_less_Suc)
  then show ?thesis
    by (simp add: ring_list_def del: upt_Suc) (simp add: mod_add_left_eq mod_Suc_eq flip: add_Suc)
qed

lemma mod_shift_neq:
  fixes t i n N :: nat
  assumes "i < n" "n < N"
  shows "(t + n) mod N \<noteq> (t + i) mod N"
proof
  assume "(t + n) mod N = (t + i) mod N"
  then have "N dvd (t + n) - (t + i)"
    using assms by (intro mod_eq_dvd_iff_nat [THEN iffD1]) auto
  moreover have "(t + n) - (t + i) = n - i" using assms by simp
  ultimately have "N \<le> n - i" using assms by (simp add: dvd_imp_le)
  with assms show False by simp
qed

lemma ring_list_update:
  "n < length b \<Longrightarrow> ring_list (b[(t + n) mod length b := x]) t n = ring_list b t n"
  by (auto simp: ring_list_def mod_shift_neq)

text \<open>The unsigned index arithmetic, read as natural numbers.\<close>

lemma unat_CQ_N [simp]: "unat CQ_N = 8192"
  by (simp add: CQ_N_def)

lemma unat_succ_CQ: "unat x < 8192 \<Longrightarrow> unat ((x + 1) mod CQ_N) = Suc (unat x) mod 8192"
  by (simp add: unat_mod_u32 unat_add_u32)

lemma unat_cq_nelem:
  assumes "cq_inv c"
  shows "unat (cq_nelem c) = (if unat (cq_tail c) \<le> unat (cq_head c)
           then unat (cq_head c) - unat (cq_tail c)
           else 8192 + unat (cq_head c) - unat (cq_tail c))"
proof (cases "unat (cq_tail c) \<le> unat (cq_head c)")
  case True
  with assms have "unat (cq_head c) - unat (cq_tail c) < 8192"
    by (simp add: cq_inv_def less_imp_diff_less)
  with True show ?thesis
    by (simp add: cq_nelem_def unat_mod_u32 unat_sub_u32)
next
  case False
  have "4294967296 + unat (cq_head c) - unat (cq_tail c)
        = (8192 + unat (cq_head c) - unat (cq_tail c)) + 524287 * 8192"
    using False assms by (simp add: cq_inv_def)
  then have "(4294967296 + unat (cq_head c) - unat (cq_tail c)) mod 8192
        = (8192 + unat (cq_head c) - unat (cq_tail c)) mod 8192"
    by (simp only: mod_mult_self1)
  also have "\<dots> = 8192 + unat (cq_head c) - unat (cq_tail c)"
    using False assms by (simp add: cq_inv_def)
  finally show ?thesis
    using False by (simp add: cq_nelem_def unat_mod_u32 unat_sub_u32)
qed

lemma cq_nelem_bound: "unat (cq_nelem c) < 8192"
  by (simp add: cq_nelem_def unat_mod_u32)

lemma unat_cq_nspace: "unat (cq_nspace c) = 8191 - unat (cq_nelem c)"
  using cq_nelem_bound [of c] by (simp add: cq_nspace_def unat_sub_u32 CQ_N_def)

lemma cq_empty_iff: "cq_inv c \<Longrightarrow> cq_empty c \<longleftrightarrow> unat (cq_nelem c) = 0"
  by (auto simp: cq_empty_def unat_cq_nelem cq_inv_def unat_eq_iff)

lemma Suc_mod_8192: "n < 8192 \<Longrightarrow> Suc n mod 8192 = (if n = 8191 then 0 else Suc n)"
  by (cases "n = 8191") auto

lemma cq_full_iff: "cq_inv c \<Longrightarrow> cq_full c \<longleftrightarrow> unat (cq_nelem c) = 8191"
  by (auto simp: cq_full_def unat_cq_nelem cq_inv_def unat_eq_iff unat_succ_CQ Suc_mod_8192)

lemma cq_head_tail: "cq_inv c \<Longrightarrow> (unat (cq_tail c) + unat (cq_nelem c)) mod 8192 = unat (cq_head c)"
  by (auto simp: unat_cq_nelem cq_inv_def)

section \<open>Every operation keeps the invariant and acts on the list\<close>

lemma cq_empty_list: "cq_inv c \<Longrightarrow> cq_empty c \<longleftrightarrow> cq_list c = []"
  by (simp add: cq_empty_iff cq_list_def flip: length_0_conv)

lemma length_cq_list: "length (cq_list c) = unat (cq_nelem c)"
  by (simp add: cq_list_def)

lemma cq_push_full: "cq_full c \<Longrightarrow> cq_push c x = Inr (False, c)"
  by (simp add: cq_push_def)

lemma nelem_after_push:
  assumes "cq_inv c" "\<not> cq_full c"
  shows "unat (cq_nelem (c\<lparr>c_buf := b, cq_head := (cq_head c + 1) mod CQ_N\<rparr>)) = Suc (unat (cq_nelem c))"
proof -
  let ?c = "c\<lparr>c_buf := c_buf c, cq_head := (cq_head c + 1) mod CQ_N\<rparr>"
  have inv: "cq_inv ?c" using assms(1) by (simp add: cq_inv_def unat_mod_u32)
  have "unat (cq_nelem ?c) = Suc (unat (cq_nelem c))"
    using assms unfolding cq_full_iff [OF assms(1)] unat_cq_nelem [OF assms(1)] unat_cq_nelem [OF inv]
    by (auto simp: cq_inv_def unat_succ_CQ Suc_mod_8192)
  then show ?thesis by (simp add: cq_nelem_def)
qed

lemma cq_push_ok:
  assumes "cq_inv c" "\<not> cq_full c"
  shows "\<exists>c'. cq_push c x = Inr (True, c') \<and> cq_inv c' \<and> cq_list c' = cq_list c @ [x]"
proof -
  let ?n = "unat (cq_nelem c)" and ?h = "unat (cq_head c)" and ?t = "unat (cq_tail c)"
  let ?c = "c\<lparr>c_buf := (c_buf c)[?h := x], cq_head := (cq_head c + 1) mod CQ_N\<rparr>"
  from assms have n: "?n < 8191" using cq_nelem_bound [of c] by (simp add: cq_full_iff)
  have space: "cq_nspace c > 0"
    using n unat_cq_nspace [of c] by (metis zero_less_diff unat_gt_0 word_neq_0_conv)
  have hd: "(?t + ?n) mod length (c_buf c) = ?h"
    using cq_head_tail [OF assms(1)] assms(1) by (simp add: cq_inv_def)
  have len: "?h < length (c_buf c)" "?n < length (c_buf c)"
    using assms(1) n by (simp_all add: cq_inv_def)
  have "ring_list ((c_buf c)[?h := x]) ?t (Suc ?n) = cq_list c @ [x]"
    using ring_list_update [OF len(2), of ?t x] hd len(1)
    by (simp add: ring_list_snoc cq_list_def)
  moreover have "cq_push c x = Inr (True, ?c)"
    using assms space len by (simp add: cq_push_def)
  moreover have "cq_inv ?c" using assms(1) by (simp add: cq_inv_def unat_mod_u32)
  ultimately show ?thesis
    using nelem_after_push [OF assms, of "(c_buf c)[?h := x]"] by (simp add: cq_list_def [of ?c])
qed

lemma cq_pop_empty: "cq_inv c \<Longrightarrow> cq_list c = [] \<Longrightarrow> cq_pop_nonblock c e = Inr (False, e, c)"
  by (simp add: cq_pop_nonblock_def cq_empty_list)

lemma nelem_after_pop:
  assumes "cq_inv c" "\<not> cq_empty c"
  shows "unat (cq_nelem c) = Suc (unat (cq_nelem (c\<lparr>cq_tail := (cq_tail c + 1) mod CQ_N\<rparr>)))"
proof -
  let ?c = "c\<lparr>cq_tail := (cq_tail c + 1) mod CQ_N\<rparr>"
  have inv: "cq_inv ?c" using assms(1) by (simp add: cq_inv_def unat_mod_u32)
  show ?thesis
    using assms unfolding cq_empty_iff [OF assms(1)] unat_cq_nelem [OF assms(1)] unat_cq_nelem [OF inv]
    by (auto simp: cq_inv_def unat_succ_CQ Suc_mod_8192 split: if_splits)
qed

lemma cq_pop_cons:
  assumes "cq_inv c" "cq_list c = x # xs"
  shows "\<exists>c'. cq_pop_nonblock c e = Inr (True, x, c') \<and> cq_inv c' \<and> cq_list c' = xs"
proof -
  let ?t = "unat (cq_tail c)"
  let ?c = "c\<lparr>cq_tail := (cq_tail c + 1) mod CQ_N\<rparr>"
  have ne: "\<not> cq_empty c" using assms by (simp add: cq_empty_list)
  have t: "?t < length (c_buf c)" "length (c_buf c) = 8192" "?t < 8192"
    using assms(1) by (simp_all add: cq_inv_def)
  have "x # xs = c_buf c ! ?t # cq_list ?c"
    using assms(2) nelem_after_pop [OF assms(1) ne] t
    by (simp add: cq_list_def ring_list_Cons unat_succ_CQ)
  moreover have "cq_inv ?c" using assms(1) by (simp add: cq_inv_def unat_mod_u32)
  ultimately show ?thesis
    using ne t by (simp add: cq_pop_nonblock_def)
qed

text \<open>The contract of \<open>fifo\<close>, with the two outcomes of the non-blocking pop as an option.\<close>

definition cq_deq :: "cq \<Rightarrow> (u8 option \<times> cq) res" where
  "cq_deq c = bind_r (cq_pop_nonblock c 0) (\<lambda>(ok, e, c'). Inr (if ok then Some e else None, c'))"

interpretation ring: fifo cq_inv cq_list "\<lambda>c. \<not> cq_full c" "\<lambda>_ _. True" cq_push cq_deq
proof unfold_locales
  show "cq_inv q \<Longrightarrow> cq_list q = [] \<Longrightarrow> cq_deq q = Inr (None, q)" for q
    by (simp add: cq_deq_def cq_pop_empty)
  show "cq_inv q \<Longrightarrow> cq_list q = x # xs \<Longrightarrow>
      \<exists>q'. cq_deq q = Inr (Some x, q') \<and> cq_inv q' \<and> cq_list q' = xs" for q x xs
    using cq_pop_cons [of q x xs 0] by (auto simp: cq_deq_def)
qed (auto simp: cq_push_full intro: cq_push_ok)

section \<open>Bulk operations\<close>

lemma cq_full_length: "cq_inv c \<Longrightarrow> cq_full c \<longleftrightarrow> length (cq_list c) = 8191"
  by (simp add: cq_full_iff length_cq_list)

lemma cq_push_all_ok:
  "cq_inv c \<Longrightarrow> length (cq_list c) + length xs \<le> 8191 \<Longrightarrow>
   \<exists>c'. cq_push_all c xs = Inr c' \<and> cq_inv c' \<and> cq_list c' = cq_list c @ xs"
proof (induction xs arbitrary: c)
  case Nil
  then show ?case by simp
next
  case (Cons x xs)
  then have "\<not> cq_full c" by (simp add: cq_full_length)
  from cq_push_ok [OF Cons.prems(1) this, of x] obtain c1 where
    c1: "cq_push c x = Inr (True, c1)" "cq_inv c1" "cq_list c1 = cq_list c @ [x]" by blast
  from Cons.IH [OF c1(2)] Cons.prems(2) c1 show ?case by auto
qed

lemma cq_push_n_ok:
  assumes "cq_inv c" "xs \<noteq> []" "length (cq_list c) + length xs \<le> 8191"
  shows "\<exists>c'. cq_push_n c xs = Inr (True, c') \<and> cq_inv c' \<and> cq_list c' = cq_list c @ xs"
  using cq_push_all_ok [OF assms(1,3)] assms
  by (auto simp: cq_push_n_def unat_cq_nspace length_cq_list)

lemma cq_push_n_full:
  assumes "xs \<noteq> []" "8191 < length (cq_list c) + length xs"
  shows "cq_push_n c xs = Inr (False, c)"
  using assms cq_nelem_bound [of c] by (auto simp: cq_push_n_def unat_cq_nspace length_cq_list)

lemma cq_pop_nonempty:
  assumes "cq_inv c" "cq_list c = x # xs"
  shows "\<exists>c'. cq_pop ie irqs c = Inr (x, irqs, c') \<and> cq_inv c' \<and> cq_list c' = xs"
  using cq_pop_cons [OF assms, of 0] by (auto simp: cq_pop.simps [of ie irqs c])

lemma cq_pop_n_ok:
  "cq_inv c \<Longrightarrow> n \<le> length (cq_list c) \<Longrightarrow>
   \<exists>c'. cq_pop_n ie irqs c n = Inr (take n (cq_list c), irqs, c') \<and> cq_inv c'
      \<and> cq_list c' = drop n (cq_list c)"
proof (induction n arbitrary: c)
  case 0
  then show ?case by simp
next
  case (Suc n)
  then obtain x xs where xs: "cq_list c = x # xs" by (cases "cq_list c") auto
  from cq_pop_nonempty [OF Suc.prems(1) xs] obtain c1 where
    c1: "cq_pop ie irqs c = Inr (x, irqs, c1)" "cq_inv c1" "cq_list c1 = xs" by blast
  from Suc.IH [OF c1(2)] Suc.prems(2) xs c1 show ?case by auto
qed

lemma cq_pop_frame:
  "cq_inv c \<Longrightarrow> \<not> cq_empty c \<Longrightarrow> cq_pop ie irqs c = Inr (e, irqs', c') \<Longrightarrow> c'\<lparr>cq_tail := t\<rparr> = c\<lparr>cq_tail := t\<rparr>"
  by (auto simp: cq_pop.simps [of ie irqs c] cq_pop_nonblock_def res_simps)

lemma cq_pop_n_frame:
  "cq_inv c \<Longrightarrow> n \<le> length (cq_list c) \<Longrightarrow> cq_pop_n ie irqs c n = Inr (es, irqs', c') \<Longrightarrow>
   c'\<lparr>cq_tail := t\<rparr> = c\<lparr>cq_tail := t\<rparr>"
proof (induction n arbitrary: c es irqs')
  case 0
  then show ?case by simp
next
  case (Suc n)
  then obtain x xs where xs: "cq_list c = x # xs" by (cases "cq_list c") auto
  from cq_pop_nonempty [OF Suc.prems(1) xs] obtain c1 where
    c1: "cq_pop ie irqs c = Inr (x, irqs, c1)" "cq_inv c1" "cq_list c1 = xs" by blast
  from Suc.prems(3) c1 obtain es1 irqs1 where "cq_pop_n ie irqs c1 n = Inr (es1, irqs1, c')"
    by (auto simp: res_simps)
  from Suc.IH [OF c1(2) _ this] Suc.prems(2) xs c1 cq_pop_frame [OF Suc.prems(1) _ c1(1)]
  show ?case by (simp add: cq_empty_list Suc.prems(1))
qed

lemma word_less_iff_length: "cq_nelem c < n \<longleftrightarrow> length (cq_list c) < unat n"
  by (simp add: word_less_nat_alt length_cq_list)

lemma cq_pop_n_noblk_ok:
  assumes "cq_inv c" "unat n \<le> length (cq_list c)"
  shows "\<exists>c'. cq_pop_n_noblk ie irqs c n = Inr (Some (take (unat n) (cq_list c)), c') \<and> cq_inv c'
           \<and> cq_list c' = drop (unat n) (cq_list c) \<and> (\<forall>t. c'\<lparr>cq_tail := t\<rparr> = c\<lparr>cq_tail := t\<rparr>)"
  using cq_pop_n_ok [OF assms, of ie irqs] cq_pop_n_frame [OF assms, of ie irqs] assms(2)
  by (fastforce simp: cq_pop_n_noblk_def word_less_iff_length)

lemma cq_peek_n_ok:
  assumes "cq_inv c" "unat n \<le> length (cq_list c)"
  shows "cq_peek_n ie irqs c n = Inr (Some (take (unat n) (cq_list c)), c)"
proof -
  from cq_pop_n_noblk_ok [OF assms, of ie irqs] obtain c' where
    c': "cq_pop_n_noblk ie irqs c n = Inr (Some (take (unat n) (cq_list c)), c')"
    "c'\<lparr>cq_tail := cq_tail c\<rparr> = c\<lparr>cq_tail := cq_tail c\<rparr>" by blast
  moreover have "\<not> n > cq_nelem c" using assms(2) by (simp add: word_less_iff_length)
  ultimately show ?thesis by (simp add: cq_peek_n_def)
qed

lemma cq_init_ok: "\<exists>c. cq_init p = Inr c \<and> cq_inv c \<and> cq_list c = []"
  by (simp add: cq_init_def cq_empty_def cq_full_def cq_nelem_def CQ_N_def cq_pop_nonblock_def
      cq_inv_def cq_list_def ring_list_def)

end
