(* ===== verification/LinkedQ.thy ===== *)
theory LinkedQ
  imports Fifo
begin

text \<open>
  The intrusive linked queue of \<open>libpi/libc/Q.h\<close>, which the thread packages instantiate with
  thread blocks. A pointer is a 32-bit address with 0 for \<open>NULL\<close>; the \<open>next\<close> fields of all
  elements are a function from addresses to addresses, shared by every queue of the program.
\<close>

section \<open>State and operations\<close>

type_synonym ptr = u32
type_synonym links = "ptr \<Rightarrow> ptr"

record Q =
  Q_head :: ptr
  Q_tail :: ptr
  Q_cnt :: u32

definition Q_start :: "Q \<Rightarrow> ptr" where
  "Q_start q = Q_head q"

definition Q_next :: "links \<Rightarrow> ptr \<Rightarrow> ptr" where
  "Q_next nx e = nx e"

definition Q_nelem :: "Q \<Rightarrow> u32" where
  "Q_nelem q = Q_cnt q"

definition Q_empty :: "Q \<Rightarrow> bool res" where
  "Q_empty q =
     (if Q_head q \<noteq> 0 then Inr False
      else bind_r (assert_r (Q_nelem q = 0)) (\<lambda>_.
           bind_r (demand_r (Q_tail q = 0) ''invalid Q'') (\<lambda>_. Inr True)))"

definition Q_pop :: "Q \<Rightarrow> links \<Rightarrow> (ptr \<times> Q) res" where
  "Q_pop q nx =
     (let e = Q_head q in
      if e = 0 then
        bind_r (Q_empty q) (\<lambda>b. bind_r (assert_r b) (\<lambda>_. Inr (0, q)))
      else
        let q1 = q\<lparr>Q_cnt := Q_cnt q - 1, Q_head := nx e\<rparr> in
        Inr (e, if Q_head q1 = 0 then q1\<lparr>Q_tail := 0\<rparr> else q1))"

definition Q_append :: "Q \<Rightarrow> ptr \<Rightarrow> links \<Rightarrow> Q \<times> links" where
  "Q_append q e nx =
     (let nx1 = nx(e := 0); q1 = q\<lparr>Q_cnt := Q_cnt q + 1\<rparr> in
      if Q_tail q1 = 0 then (q1\<lparr>Q_head := e, Q_tail := e\<rparr>, nx1)
      else (q1\<lparr>Q_tail := e\<rparr>, nx1(Q_tail q1 := e)))"

definition Q_push :: "Q \<Rightarrow> ptr \<Rightarrow> links \<Rightarrow> Q \<times> links" where
  "Q_push q e nx =
     (let q1 = q\<lparr>Q_cnt := Q_cnt q + 1\<rparr>; nx1 = nx(e := Q_head q1); q2 = q1\<lparr>Q_head := e\<rparr> in
      (if Q_tail q2 = 0 then q2\<lparr>Q_tail := e\<rparr> else q2, nx1))"

definition Q_mk :: Q where
  "Q_mk = \<lparr>Q_head = 0, Q_tail = 0, Q_cnt = 0\<rparr>"

definition Q_insert_after :: "Q \<Rightarrow> ptr \<Rightarrow> ptr \<Rightarrow> links \<Rightarrow> Q \<times> links" where
  "Q_insert_after q e e_new nx =
     (if e = 0 then Q_push q e_new nx
      else if Q_tail q = e then Q_append q e_new nx
      else (q\<lparr>Q_cnt := Q_cnt q + 1\<rparr>, nx(e_new := nx e, e := e_new)))"

section \<open>The elements of a queue\<close>

fun chain :: "links \<Rightarrow> ptr \<Rightarrow> ptr list \<Rightarrow> bool" where
  "chain nx p [] \<longleftrightarrow> p = 0"
| "chain nx p (x # xs) \<longleftrightarrow> p = x \<and> x \<noteq> 0 \<and> chain nx (nx x) xs"

text \<open>\<open>Q_rep nx q xs\<close>: in the heap \<open>nx\<close>, the queue \<open>q\<close> holds exactly the elements \<open>xs\<close>, in this order.\<close>

definition Q_rep :: "links \<Rightarrow> Q \<Rightarrow> ptr list \<Rightarrow> bool" where
  "Q_rep nx q xs \<longleftrightarrow> chain nx (Q_head q) xs \<and> distinct xs
     \<and> Q_tail q = (if xs = [] then 0 else last xs) \<and> Q_cnt q = of_nat (length xs)"

fun Q_walk :: "links \<Rightarrow> nat \<Rightarrow> ptr \<Rightarrow> ptr list" where
  "Q_walk nx 0 p = []"
| "Q_walk nx (Suc n) p = (if p = 0 then [] else p # Q_walk nx n (nx p))"

definition Q_elems :: "Q \<times> links \<Rightarrow> ptr list" where
  "Q_elems qn = Q_walk (snd qn) (unat (Q_cnt (fst qn))) (Q_head (fst qn))"

definition Q_inv :: "Q \<times> links \<Rightarrow> bool" where
  "Q_inv qn \<longleftrightarrow> Q_rep (snd qn) (fst qn) (Q_elems qn)"

lemma chain_nonzero: "chain nx p xs \<Longrightarrow> 0 \<notin> set xs"
  by (induction xs arbitrary: p) auto

lemma chain_upd [simp]: "a \<notin> set xs \<Longrightarrow> chain (nx(a := b)) p xs \<longleftrightarrow> chain nx p xs"
  by (induction xs arbitrary: p) auto

lemma chain_snoc:
  "chain nx p xs \<Longrightarrow> distinct (xs @ [e]) \<Longrightarrow> e \<noteq> 0 \<Longrightarrow> xs \<noteq> [] \<Longrightarrow>
   chain (nx(e := 0, last xs := e)) p (xs @ [e])"
proof (induction xs arbitrary: p)
  case Nil
  then show ?case by simp
next
  case (Cons x xs)
  show ?case
  proof (cases "xs = []")
    case True
    with Cons.prems show ?thesis by auto
  next
    case False
    then have "last xs \<in> set xs" by simp
    with Cons.prems have "x \<noteq> last xs" "x \<noteq> e" by auto
    with Cons.IH [of "nx x"] Cons.prems False show ?thesis by auto
  qed
qed

lemma Q_walk_chain: "chain nx p xs \<Longrightarrow> length xs \<le> n \<Longrightarrow> Q_walk nx n p = xs"
proof (induction xs arbitrary: p n)
  case Nil
  then show ?case by (cases n) auto
next
  case (Cons x xs)
  then show ?case by (cases n) auto
qed

text \<open>A queue of distinct non-null addresses is shorter than the address space, so \<open>cnt\<close> never wraps.\<close>

lemma distinct_ptrs_length:
  assumes "distinct xs" "(0 :: ptr) \<notin> set xs"
  shows "length xs < 4294967296"
proof -
  have "card (insert 0 (set xs)) \<le> card (UNIV :: ptr set)"
    by (rule card_mono) auto
  then show ?thesis
    using assms by (simp add: card_word distinct_card)
qed

lemma Q_rep_length: "Q_rep nx q xs \<Longrightarrow> unat (Q_cnt q) = length xs"
  using distinct_ptrs_length [of xs] chain_nonzero [of nx "Q_head q" xs]
  by (simp add: Q_rep_def unat_of_nat_u32)

lemma Q_rep_elems: "Q_rep nx q xs \<Longrightarrow> Q_elems (q, nx) = xs"
  using Q_rep_length [of nx q xs] by (auto simp: Q_elems_def Q_rep_def intro!: Q_walk_chain)

lemma Q_rep_inv: "Q_rep nx q xs \<Longrightarrow> Q_inv (q, nx)"
  by (simp add: Q_inv_def Q_rep_elems)

lemma Q_rep_frame: "a \<notin> set xs \<Longrightarrow> Q_rep (nx(a := b)) q xs \<longleftrightarrow> Q_rep nx q xs"
  by (simp add: Q_rep_def)

section \<open>The operations on the list of elements\<close>

lemma Q_mk_rep: "Q_rep nx Q_mk []"
  by (simp add: Q_rep_def Q_mk_def)

lemma Q_empty_rep: "Q_rep nx q xs \<Longrightarrow> Q_empty q = Inr (xs = [])"
  by (cases xs) (auto simp: Q_rep_def Q_empty_def Q_nelem_def)

lemma Q_pop_nil: "Q_rep nx q [] \<Longrightarrow> Q_pop q nx = Inr (0, q)"
  by (simp add: Q_rep_def Q_pop_def Q_empty_def Q_nelem_def)

lemma Q_pop_cons:
  "Q_rep nx q (x # xs) \<Longrightarrow> \<exists>q'. Q_pop q nx = Inr (x, q') \<and> Q_rep nx q' xs"
  by (cases xs) (auto simp: Q_rep_def Q_pop_def)

lemma Q_append_rep:
  assumes "Q_rep nx q xs" "e \<noteq> 0" "e \<notin> set xs"
  shows "\<exists>q' nx'. Q_append q e nx = (q', nx') \<and> Q_rep nx' q' (xs @ [e])
           \<and> (\<forall>a. a \<noteq> e \<longrightarrow> a \<notin> set xs \<longrightarrow> nx' a = nx a)"
proof (cases "xs = []")
  case True
  with assms show ?thesis by (auto simp: Q_rep_def Q_append_def)
next
  case False
  have nz: "last xs \<noteq> 0"
    using False assms(1) chain_nonzero [of nx "Q_head q" xs] last_in_set [OF False]
    by (metis Q_rep_def)
  have "chain (nx(e := 0, last xs := e)) (Q_head q) (xs @ [e])"
    using assms False by (intro chain_snoc) (auto simp: Q_rep_def)
  with False nz assms show ?thesis
    by (auto simp: Q_rep_def Q_append_def)
qed

lemma Q_push_rep:
  assumes "Q_rep nx q xs" "e \<noteq> 0" "e \<notin> set xs"
  shows "\<exists>q' nx'. Q_push q e nx = (q', nx') \<and> Q_rep nx' q' (e # xs)
           \<and> (\<forall>a. a \<noteq> e \<longrightarrow> nx' a = nx a)"
proof (cases "xs = []")
  case True
  with assms show ?thesis by (auto simp: Q_rep_def Q_push_def)
next
  case False
  have "last xs \<noteq> 0"
    using False assms(1) chain_nonzero [of nx "Q_head q" xs] last_in_set [OF False]
    by (metis Q_rep_def)
  with False assms show ?thesis by (auto simp: Q_rep_def Q_push_def)
qed

text \<open>The contract of \<open>fifo\<close>: \<open>Q_append\<close> enqueues, \<open>Q_pop\<close> dequeues.\<close>

definition Q_enq :: "Q \<times> links \<Rightarrow> ptr \<Rightarrow> (bool \<times> Q \<times> links) res" where
  "Q_enq qn e = Inr (True, Q_append (fst qn) e (snd qn))"

definition Q_deq :: "Q \<times> links \<Rightarrow> (ptr option \<times> Q \<times> links) res" where
  "Q_deq qn = bind_r (Q_pop (fst qn) (snd qn)) (\<lambda>(e, q').
     Inr (if e = 0 then None else Some e, q', snd qn))"

interpretation linked: fifo Q_inv Q_elems "\<lambda>_. True" "\<lambda>qn e. e \<noteq> 0 \<and> e \<notin> set (Q_elems qn)" Q_enq Q_deq
proof unfold_locales
  show "\<exists>q'. Q_enq q x = Inr (True, q') \<and> Q_inv q' \<and> Q_elems q' = Q_elems q @ [x]"
    if "Q_inv q" "x \<noteq> 0 \<and> x \<notin> set (Q_elems q)" for q x
    using that Q_append_rep [of "snd q" "fst q" "Q_elems q" x]
    by (auto simp: Q_inv_def [of q] Q_enq_def Q_rep_elems Q_rep_inv)
  show "Q_deq q = Inr (None, q)" if "Q_inv q" "Q_elems q = []" for q
    using that Q_pop_nil [of "snd q" "fst q"] by (simp add: Q_inv_def Q_deq_def)
  show "\<exists>q'. Q_deq q = Inr (Some x, q') \<and> Q_inv q' \<and> Q_elems q' = xs"
    if "Q_inv q" "Q_elems q = x # xs" for q x xs
  proof -
    have rep: "Q_rep (snd q) (fst q) (x # xs)" using that by (simp add: Q_inv_def)
    then have "x \<noteq> 0" by (simp add: Q_rep_def)
    with Q_pop_cons [OF rep] show ?thesis
      by (auto simp: Q_deq_def Q_rep_elems Q_rep_inv)
  qed
qed auto

lemma Q_insert_after_rep:
  assumes "Q_rep nx q (xs @ e # ys)" "e_new \<noteq> 0" "e_new \<notin> set (xs @ e # ys)"
  shows "\<exists>q' nx'. Q_insert_after q e e_new nx = (q', nx') \<and> Q_rep nx' q' (xs @ e # e_new # ys)"
proof (cases "ys = []")
  case True
  with assms Q_append_rep [OF assms] chain_nonzero [of nx "Q_head q" "xs @ e # ys"]
  show ?thesis by (auto simp: Q_insert_after_def Q_rep_def)
next
  case False
  have ne: "e \<noteq> 0" "Q_tail q \<noteq> e"
    using assms False chain_nonzero [of nx "Q_head q" "xs @ e # ys"] last_in_set [OF False]
    by (auto simp: Q_rep_def)
  have "chain nx p (as @ e # ys) \<Longrightarrow> e_new \<notin> set (as @ e # ys) \<Longrightarrow> distinct (as @ e # ys) \<Longrightarrow>
        chain (nx(e_new := nx e, e := e_new)) p (as @ e # e_new # ys)" for p as
    using assms(2) by (induction as arbitrary: p) auto
  with assms False ne show ?thesis
    by (auto simp: Q_insert_after_def Q_rep_def)
qed

end
