(* ===== verification/Queue_Props.thy ===== *)
theory Queue_Props
  imports Circular LinkedQ
begin

text \<open>
  The properties of the two queues: the byte ring of \<open>libpi/libc/circular.h\<close> and the linked list of
  \<open>libpi/libc/Q.h\<close>.
\<close>

text \<open>C24: the circular queue is a FIFO of 8191 bytes. Any sequence of pushes and non-blocking pops on a well-formed
  ring runs without fault, keeps the ring well formed, and has operation by operation the results of a list of at most
  8191 bytes: a push succeeds and appends exactly when there is room, a pop delivers and removes the head
  exactly when there is one.\<close>

theorem cq_is_fifo:
  assumes "cq_inv c"
  shows "\<exists>rs c'. fifo_run cq_push cq_deq ops c = Inr (rs, c') \<and> cq_inv c' \<and> list_run 8191 ops (cq_list c) = (rs, cq_list c')"
proof (rule ring.run_fifo [OF assms TrueI])
  fix q assume inv: "cq_inv q"
  have "length (cq_list q) \<le> 8191" using cq_nelem_bound [of q] length_cq_list [of q] by simp
  then show "\<not> cq_full q \<longleftrightarrow> length (cq_list q) < 8191" using cq_full_length [OF inv] by auto
qed

theorem cq_is_fifo_witness:
  "\<exists>c c'. cq_init True = Inr c
    \<and> fifo_run cq_push cq_deq [Enq 7, Enq 9, Deq, Deq, Deq] c = Inr ([Took True, Took True, Gave (Some 7), Gave (Some 9), Gave None], c')"
proof -
  obtain c where "cq_init True = Inr c" "cq_inv c" "cq_list c = []" using cq_init_ok [of True] by blast
  with cq_is_fifo [of c "[Enq 7, Enq 9, Deq, Deq, Deq]"] show ?thesis by auto
qed

text \<open>\<open>cq_push32\<close> and \<open>cq_pop32_noblk\<close> are inverse: a word pushed on a ring that has room comes out
  unchanged after the bytes that were in the ring before it.\<close>

lemma cq_word_roundtrip:
  assumes "cq_inv c" "length (cq_list c) \<le> 8187"
  shows "\<exists>c1 c2 c3. cq_push32 c x = Inr (True, c1)
    \<and> cq_pop_n_noblk ie irqs c1 (of_nat (length (cq_list c))) = Inr (Some (cq_list c), c2)
    \<and> cq_pop32_noblk ie irqs c2 = Inr (Some x, c3) \<and> cq_inv c3 \<and> cq_list c3 = []"
proof -
  let ?n = "of_nat (length (cq_list c)) :: u32"
  have n: "unat ?n = length (cq_list c)" using assms(2) by (intro unat_of_nat_u32) simp
  obtain c1 where c1: "cq_push_n c (le32_bytes x) = Inr (True, c1)" "cq_inv c1"
    "cq_list c1 = cq_list c @ le32_bytes x"
    using cq_push_n_ok [of c "le32_bytes x"] assms by (auto simp: le32_bytes_def)
  obtain c2 where c2: "cq_pop_n_noblk ie irqs c1 ?n = Inr (Some (cq_list c), c2)" "cq_inv c2"
    "cq_list c2 = le32_bytes x"
    using cq_pop_n_noblk_ok [OF c1(2), of ?n ie irqs] c1(3) n by auto
  obtain c3 where "cq_pop_n_noblk ie irqs c2 4 = Inr (Some (le32_bytes x), c3)" "cq_inv c3" "cq_list c3 = []"
    using cq_pop_n_noblk_ok [OF c2(2), of 4 ie irqs] c2(3) by auto
  moreover have "le32_at (le32_bytes x) 0 = x" using le32_join [of x] by (simp add: le32_at_def le32_bytes_def)
  ultimately show ?thesis using c1(1) c2(1) by (auto simp: cq_push32_def cq_pop32_noblk_def)
qed

text \<open>\<open>cq_peek_n\<close> shows the first \<open>n\<close> bytes of the ring and leaves it exactly as it was, and refuses
  when fewer are there.\<close>

lemma cq_peek_n_pure:
  assumes "cq_inv c"
  shows "cq_peek_n ie irqs c n =
    Inr (if unat n \<le> length (cq_list c) then Some (take (unat n) (cq_list c)) else None, c)"
proof (cases "unat n \<le> length (cq_list c)")
  case True
  then show ?thesis using cq_peek_n_ok [OF assms True] by simp
next
  case False
  then have "n > cq_nelem c" by (simp add: word_less_iff_length)
  with False show ?thesis by (simp add: cq_peek_n_def)
qed

text \<open>C25: the linked queue represents a list. On a queue that holds \<open>xs\<close>, \<open>Q_append\<close> of a new element gives
  \<open>xs @ [e]\<close>, \<open>Q_push\<close> gives \<open>e # xs\<close>, \<open>Q_insert_after\<close> puts it behind the given element, and \<open>Q_pop\<close>
  takes the head or returns \<open>NULL\<close>; append and push change no link outside the queue.\<close>

theorem linked_queue_refines_list:
  assumes "Q_rep nx q xs" "e \<noteq> 0" "e \<notin> set xs"
  shows "(\<exists>q' nx'. Q_append q e nx = (q', nx') \<and> Q_rep nx' q' (xs @ [e])
      \<and> (\<forall>a. a \<noteq> e \<longrightarrow> a \<notin> set xs \<longrightarrow> nx' a = nx a))
    \<and> (\<exists>q' nx'. Q_push q e nx = (q', nx') \<and> Q_rep nx' q' (e # xs) \<and> (\<forall>a. a \<noteq> e \<longrightarrow> nx' a = nx a))
    \<and> (\<forall>as a bs. xs = as @ a # bs \<longrightarrow>
        (\<exists>q' nx'. Q_insert_after q a e nx = (q', nx') \<and> Q_rep nx' q' (as @ a # e # bs)))
    \<and> (case xs of [] \<Rightarrow> Q_pop q nx = Inr (0, q)
       | y # ys \<Rightarrow> (\<exists>q'. Q_pop q nx = Inr (y, q') \<and> Q_rep nx q' ys))"
proof -
  have "case xs of [] \<Rightarrow> Q_pop q nx = Inr (0, q)
      | y # ys \<Rightarrow> (\<exists>q'. Q_pop q nx = Inr (y, q') \<and> Q_rep nx q' ys)"
    using assms(1) Q_pop_nil Q_pop_cons by (auto split: list.split)
  moreover have "\<exists>q' nx'. Q_insert_after q a e nx = (q', nx') \<and> Q_rep nx' q' (as @ a # e # bs)"
    if "xs = as @ a # bs" for as a bs
    using Q_insert_after_rep [of nx q as a bs e] assms that by simp
  ultimately show ?thesis using Q_append_rep [OF assms] Q_push_rep [OF assms] by blast
qed

theorem linked_queue_refines_list_witness:
  "\<exists>q' nx'. Q_append Q_mk 0x8000 (\<lambda>_. 0) = (q', nx') \<and> Q_rep nx' q' [0x8000]"
  using linked_queue_refines_list [OF Q_mk_rep, of "0x8000" "\<lambda>_. 0"] by auto

end
