(* ===== verification/SdCard.thy ===== *)
theory SdCard
  imports Prelude
begin

text \<open>
  The block layer of \<open>fat32/pi-sd.c\<close> over the SD card. The card itself (the controller that
  \<open>external-code/emmc.c\<close> drives) is the record \<open>sd\<close>: what each 512-byte sector holds, whether the
  controller can be brought up, and which transfers it refuses. \<open>kmalloc\<close>, which the repository
  ships as an object file only, is documented in \<open>rpi.h\<close> to return zero-filled memory; a fresh
  buffer is a list of zero bytes.
\<close>

record sd =
  sectors :: "u32 \<Rightarrow> u8 list"   \<comment> \<open>the contents of the card\<close>
  sd_dead :: bool               \<comment> \<open>the controller does not come up\<close>
  sd_bad :: "u32 \<Rightarrow> bool"       \<comment> \<open>transfers that start at this sector fail\<close>
  sd_init_p :: bool             \<comment> \<open>\<open>init_p\<close> of \<open>pi-sd.c\<close>\<close>
  sd_trace_p :: bool            \<comment> \<open>\<open>trace_p\<close> of \<open>pi-sd.c\<close>\<close>

section \<open>The card\<close>

text \<open>
  \<open>emmc_read\<close> and \<open>emmc_write\<close> transfer \<open>size / 512\<close> blocks, refuse a size below one block or more than 65535 blocks, and return
  the size, or -1 when the controller gives up after its retries.
\<close>

definition emmc_read :: "sd \<Rightarrow> u32 \<Rightarrow> u32 \<Rightarrow> (u32 \<times> u8 list) res" where
  "emmc_read d sector sz =
     bind_r (assert_r (sz mod 512 = 0)) (\<lambda>_.
       if sz < 512 \<or> sz div 512 > 0xFFFF \<or> sd_bad d sector then Inr (- 1, [])
       else Inr (sz, concat (map (\<lambda>i. sectors d (sector + of_nat i)) [0..<unat (sz div 512)])))"

definition emmc_write :: "sd \<Rightarrow> u32 \<Rightarrow> (nat \<Rightarrow> u8) \<Rightarrow> u32 \<Rightarrow> (u32 \<times> sd) res" where
  "emmc_write d sector data sz =
     bind_r (assert_r (sz mod 512 = 0)) (\<lambda>_.
       if sz < 512 \<or> sz div 512 > 0xFFFF \<or> sd_bad d sector then Inr (- 1, d)
       else Inr (sz, d\<lparr>sectors := (\<lambda>s. let k = unat (s - sector) in
              if k < unat (sz div 512) then map data [512 * k..<512 * k + 512] else sectors d s)\<rparr>))"

definition sd_readblock :: "sd \<Rightarrow> u32 \<Rightarrow> u32 \<Rightarrow> (u32 \<times> u8 list) res" where
  "sd_readblock d sec nsec = emmc_read d sec (nsec * 512)"

definition sd_writeblock :: "sd \<Rightarrow> (nat \<Rightarrow> u8) \<Rightarrow> u32 \<Rightarrow> u32 \<Rightarrow> (u32 \<times> sd) res" where
  "sd_writeblock d data sec nsec = emmc_write d sec data (nsec * 512)"

section \<open>pi-sd.c\<close>

definition pi_sd_trace :: "sd \<Rightarrow> bool \<Rightarrow> bool \<times> sd" where
  "pi_sd_trace d on_p = (let old = on_p in (old, d\<lparr>sd_trace_p := on_p\<rparr>))"

definition pi_sd_init :: "sd \<Rightarrow> sd res" where
  "pi_sd_init d = (if sd_dead d then Inl (Panic ''sd_init failed'') else Inr (d\<lparr>sd_init_p := True\<rparr>))"

definition pi_sd_read :: "sd \<Rightarrow> u32 \<Rightarrow> u32 \<Rightarrow> u8 list res" where
  "pi_sd_read d lba nsec =
     bind_r (demand_r (sd_init_p d) ''SD card not initialized!'') (\<lambda>_.
     bind_r (sd_readblock d lba nsec) (\<lambda>(r, data).
       if r \<noteq> 512 * nsec then Inl (Panic ''could not read from sd card'') else Inr data))"

definition pi_sec_read :: "sd \<Rightarrow> u32 \<Rightarrow> u32 \<Rightarrow> u8 list res" where
  "pi_sec_read d lba nsec =
     bind_r (demand_r (sd_init_p d) ''SD card not initialized!'') (\<lambda>_. pi_sd_read d lba nsec)"

text \<open>\<open>data\<close> is the memory from the source pointer on, so that a short buffer is read past its end.\<close>

definition pi_sd_write :: "sd \<Rightarrow> (nat \<Rightarrow> u8) \<Rightarrow> u32 \<Rightarrow> u32 \<Rightarrow> sd res" where
  "pi_sd_write d data lba nsec =
     bind_r (demand_r (sd_init_p d) ''SD card not initialized!'') (\<lambda>_.
     bind_r (sd_writeblock d data lba nsec) (\<lambda>(r, d').
       if r \<noteq> 512 * nsec then Inl (Panic ''could not write to sd card'') else Inr d'))"

section \<open>Reading what was written\<close>

definition sd_ready :: "sd \<Rightarrow> bool" where
  "sd_ready d \<longleftrightarrow> sd_init_p d \<and> (\<forall>s. \<not> sd_bad d s) \<and> (\<forall>s. length (sectors d s) = 512)"

definition read_secs :: "sd \<Rightarrow> u32 \<Rightarrow> nat \<Rightarrow> u8 list" where
  "read_secs d lba n = concat (map (\<lambda>i. sectors d (lba + of_nat i)) [0..<n])"

definition write_secs :: "sd \<Rightarrow> (nat \<Rightarrow> u8) \<Rightarrow> u32 \<Rightarrow> nat \<Rightarrow> sd" where
  "write_secs d data lba n = d\<lparr>sectors := (\<lambda>s. let k = unat (s - lba) in
      if k < n then map data [512 * k..<512 * k + 512] else sectors d s)\<rparr>"

definition nsec_ok :: "u32 \<Rightarrow> bool" where
  "nsec_ok n \<longleftrightarrow> 0 < unat n \<and> unat n \<le> 0xFFFF"

lemma nsec_bytes:
  assumes "nsec_ok n"
  shows "n * 512 mod 512 = 0" "\<not> n * 512 < 512" "n * 512 div 512 = n" "\<not> 0xFFFF < n"
proof -
  have b: "unat (n * 512) = unat n * 512"
    using assms by (subst unat_mult_small) (auto simp: nsec_ok_def)
  then show "n * 512 mod 512 = 0" "n * 512 div 512 = n"
    by (simp_all add: unat_eq_iff unat_div unat_mod)
  show "\<not> n * 512 < 512" "\<not> 0xFFFF < n" using b assms by (simp_all add: word_less_nat_alt nsec_ok_def)
qed

lemma pi_sec_read_ok:
  "sd_ready d \<Longrightarrow> nsec_ok nsec \<Longrightarrow> pi_sec_read d lba nsec = Inr (read_secs d lba (unat nsec))"
  using nsec_bytes [of nsec]
  by (simp add: pi_sec_read_def pi_sd_read_def sd_readblock_def emmc_read_def sd_ready_def read_secs_def mult.commute)

lemma pi_sd_write_ok:
  "sd_ready d \<Longrightarrow> nsec_ok nsec \<Longrightarrow> pi_sd_write d data lba nsec = Inr (write_secs d data lba (unat nsec))"
  using nsec_bytes [of nsec]
  by (simp add: pi_sd_write_def sd_writeblock_def emmc_write_def sd_ready_def write_secs_def mult.commute)

lemma sd_ready_write [simp]: "sd_ready d \<Longrightarrow> sd_ready (write_secs d data lba n)"
  by (simp add: sd_ready_def write_secs_def Let_def)

lemma length_read_secs [simp]: "sd_ready d \<Longrightarrow> length (read_secs d lba n) = 512 * n"
  by (induction n) (simp_all add: read_secs_def sd_ready_def)

lemma concat_slices: "concat (map (\<lambda>i. map f [512 * i..<512 * i + 512]) [0..<n]) = map f [0..<512 * n]"
proof (induction n)
  case (Suc n)
  have "[0..<512 * Suc n] = [0..<512 * n] @ [512 * n..<512 * n + 512]"
    by (subst upt_add_eq_append [symmetric]) (auto simp: add.commute)
  with Suc show ?case by simp
qed simp

lemma read_write_same:
  assumes "n \<le> 4294967296"
  shows "read_secs (write_secs d data lba n) lba n = map data [0..<512 * n]"
proof -
  have "sectors (write_secs d data lba n) (lba + of_nat i) = map data [512 * i..<512 * i + 512]"
    if "i < n" for i
    using that assms by (simp add: write_secs_def unat_of_nat_u32)
  then have "read_secs (write_secs d data lba n) lba n
      = concat (map (\<lambda>i. map data [512 * i..<512 * i + 512]) [0..<n])"
    unfolding read_secs_def by (intro arg_cong [where f = concat] map_cong) auto
  then show ?thesis by (simp only: concat_slices)
qed

lemma read_write_other:
  assumes "\<And>i j. i < m \<Longrightarrow> j < n \<Longrightarrow> lba' + of_nat i \<noteq> lba + of_nat j"
  shows "read_secs (write_secs d data lba n) lba' m = read_secs d lba' m"
proof -
  have "\<not> unat (lba' + of_nat i - lba) < n" if "i < m" for i
  proof
    assume less: "unat (lba' + of_nat i - lba) < n"
    have "lba' + of_nat i = lba + of_nat (unat (lba' + of_nat i - lba))" by simp
    with assms [OF that less] show False by simp
  qed
  then show ?thesis
    unfolding read_secs_def by (intro arg_cong [where f = concat] map_cong) (auto simp: write_secs_def Let_def)
qed

end
