(* ===== verification/Mbr.thy ===== *)
theory Mbr
  imports SdCard
begin

text \<open>
  The master boot record of \<open>fat32/mbr.c\<close> and \<open>fat32/mbr-helpers.c\<close>: which sector-0 images the
  driver accepts and how a partition entry is decoded from its 16 bytes.
\<close>

unbundle bit_operations_syntax

record partition_entry =
  bootable_p :: u8
  chs_start :: u32
  part_type :: u8
  chs_end :: u32
  p_lba_start :: u32
  p_nsec :: u32

definition le24_at :: "u8 list \<Rightarrow> nat \<Rightarrow> u32" where
  "le24_at b i = ucast (b ! i) OR push_bit 8 (ucast (b ! (i + 1))) OR push_bit 16 (ucast (b ! (i + 2)))"

definition partition_of :: "u8 list \<Rightarrow> partition_entry" where
  "partition_of b = \<lparr>bootable_p = b ! 0, chs_start = le24_at b 1, part_type = b ! 4,
     chs_end = le24_at b 5, p_lba_start = le32_at b 8, p_nsec = le32_at b 12\<rparr>"

definition memiszero :: "u8 list \<Rightarrow> bool" where
  "memiszero b \<longleftrightarrow> list_all (\<lambda>x. x = 0) b"

text \<open>The four tables start at byte 446 of the sector.\<close>

definition part_tab :: "u8 list \<Rightarrow> nat \<Rightarrow> u8 list" where
  "part_tab mbr k = take 16 (drop (446 + 16 * k) mbr)"

definition mbr_part_is_fat32 :: "u8 \<Rightarrow> bool" where
  "mbr_part_is_fat32 t \<longleftrightarrow> t = 0xb \<or> t = 0xc"

definition mbr_partition_empty_raw :: "u8 list \<Rightarrow> bool" where
  "mbr_partition_empty_raw part = memiszero (take 16 part)"

definition mbr_check :: "u8 list \<Rightarrow> unit res" where
  "mbr_check mbr =
     bind_r (assert_r (le16_at mbr 510 = 0xAA55)) (\<lambda>_.
     let p = partition_of (part_tab mbr 0) in
     bind_r (assert_r (mbr_part_is_fat32 (part_type p))) (\<lambda>_.
     bind_r (assert_r (\<not> mbr_partition_empty_raw (part_tab mbr 0))) (\<lambda>_.
     bind_r (assert_r (mbr_partition_empty_raw (part_tab mbr 1))) (\<lambda>_.
     bind_r (assert_r (mbr_partition_empty_raw (part_tab mbr 2))) (\<lambda>_.
     assert_r (mbr_partition_empty_raw (part_tab mbr 3)))))))"

definition mbr_get_partition :: "u8 list \<Rightarrow> u32 \<Rightarrow> partition_entry res" where
  "mbr_get_partition mbr partno =
     bind_r (assert_r (partno < 4)) (\<lambda>_. Inr (partition_of (part_tab mbr (unat partno))))"

definition mbr_read :: "sd \<Rightarrow> u8 list res" where
  "mbr_read d = bind_r (pi_sec_read d 0 1) (\<lambda>mbr. bind_r (mbr_check mbr) (\<lambda>_. Inr mbr))"

text \<open>An accepted record has a non-empty FAT32 partition in slot 0, and nothing else.\<close>

lemma mbr_read_ok:
  assumes "mbr_read d = Inr mbr"
  shows "\<exists>p. mbr_get_partition mbr 0 = Inr p \<and> (part_type p = 0xb \<or> part_type p = 0xc)"
    and "0 < (partno :: u32) \<Longrightarrow> partno < 4 \<Longrightarrow> mbr_partition_empty_raw (part_tab mbr (unat partno))"
proof -
  have c: "mbr_check mbr = Inr ()" using assms by (auto simp: mbr_read_def res_simps)
  then show "\<exists>p. mbr_get_partition mbr 0 = Inr p \<and> (part_type p = 0xb \<or> part_type p = 0xc)"
    by (auto simp: mbr_check_def mbr_get_partition_def mbr_part_is_fat32_def res_simps Let_def)
  assume "0 < partno" "partno < 4"
  then have "unat partno = 1 \<or> unat partno = 2 \<or> unat partno = 3"
    by (auto simp: word_less_nat_alt)
  then show "mbr_partition_empty_raw (part_tab mbr (unat partno))"
    using c by (auto simp: mbr_check_def res_simps Let_def)
qed

end
