(* ===== verification/Fat32_Layout.thy ===== *)
theory Fat32_Layout
  imports Prelude
begin

unbundle bit_operations_syntax

text \<open>
  The on-disk structures of \<open>fat32/fat32-helpers.h\<close> and the helpers of \<open>fat32/fat32-helpers.c\<close>:
  boot sector and FS-info checks, classification of FAT entries, directory entries and their
  32-byte encoding, 8.3 names, and the name search \<open>find_dirent_with_name\<close> of \<open>fat32/fat32.c\<close>.
\<close>

section \<open>Boot sector and FS info\<close>

record fat32_boot_sec =
  bytes_per_sec :: u16
  sec_per_cluster :: u8
  reserved_area_nsec :: u16
  nfats :: u8
  max_files :: u16
  fs_nsec :: u16
  bs_zero :: u16
  nsec_in_fs :: u32
  nsec_per_fat :: u32
  first_cluster :: u32
  info_sec_num :: u16
  backup_boot_loc :: u16
  extended_sig :: u8
  bs_sig :: u16

text \<open>The fields the driver uses, at the offsets of the packed struct.\<close>

definition boot_sec_of :: "u8 list \<Rightarrow> fat32_boot_sec" where
  "boot_sec_of b = \<lparr>bytes_per_sec = le16_at b 11, sec_per_cluster = b ! 13,
     reserved_area_nsec = le16_at b 14, nfats = b ! 16, max_files = le16_at b 17,
     fs_nsec = le16_at b 19, bs_zero = le16_at b 22, nsec_in_fs = le32_at b 32,
     nsec_per_fat = le32_at b 36, first_cluster = le32_at b 44, info_sec_num = le16_at b 48,
     backup_boot_loc = le16_at b 50, extended_sig = b ! 66, bs_sig = le16_at b 510\<rparr>"

record fsinfo =
  sig1 :: u32
  sig2 :: u32
  free_cluster_count :: u32
  next_free_cluster :: u32
  sig3 :: u32

definition fsinfo_of :: "u8 list \<Rightarrow> fsinfo" where
  "fsinfo_of b = \<lparr>sig1 = le32_at b 0, sig2 = le32_at b 484, free_cluster_count = le32_at b 488,
     next_free_cluster = le32_at b 492, sig3 = le32_at b 508\<rparr>"

text \<open>The operand is promoted to \<open>int\<close> before it is negated.\<close>

definition is_pow2 :: "u32 \<Rightarrow> bool" where
  "is_pow2 x \<longleftrightarrow> (x AND - x) = x"

definition fat32_volume_id_check :: "fat32_boot_sec \<Rightarrow> unit res" where
  "fat32_volume_id_check b =
     bind_r (assert_r (bytes_per_sec b = 512)) (\<lambda>_.
     bind_r (assert_r (nfats b = 2)) (\<lambda>_.
     bind_r (assert_r (bs_sig b = 0xAA55)) (\<lambda>_.
     bind_r (assert_r (is_pow2 (ucast (sec_per_cluster b)))) (\<lambda>_.
     let n = ucast (bytes_per_sec b) :: u32 in
     bind_r (assert_r (n = 512 \<or> n = 1024 \<or> n = 2048 \<or> n = 4096)) (\<lambda>_.
     bind_r (assert_r (max_files b = 0)) (\<lambda>_.
     bind_r (assert_r (fs_nsec b = 0)) (\<lambda>_.
     bind_r (assert_r (bs_zero b = 0)) (\<lambda>_.
     bind_r (assert_r (nsec_in_fs b \<noteq> 0)) (\<lambda>_.
     bind_r (assert_r (info_sec_num b = 1)) (\<lambda>_.
     bind_r (assert_r (backup_boot_loc b = 6)) (\<lambda>_.
     assert_r (extended_sig b = 0x29))))))))))))"

definition fat32_fsinfo_check :: "fsinfo \<Rightarrow> unit res" where
  "fat32_fsinfo_check info =
     bind_r (assert_r (sig1 info = 0x41615252)) (\<lambda>_.
     bind_r (assert_r (sig2 info = 0x61417272)) (\<lambda>_.
     assert_r (sig3 info = 0xaa550000)))"

section \<open>FAT entries\<close>

datatype fat32_cluster = FREE_CLUSTER | RESERVED_CLUSTER | BAD_CLUSTER | LAST_CLUSTER | USED_CLUSTER

definition fat32_fat_entry_type :: "u32 \<Rightarrow> fat32_cluster res" where
  "fat32_fat_entry_type x0 =
     (let x = drop_bit 4 (push_bit 4 x0) in
      if x = 0 then Inr FREE_CLUSTER
      else if x = 1 then Inr RESERVED_CLUSTER
      else if x = 0xFFFFFF7 then Inr BAD_CLUSTER
      else if x \<ge> 2 \<and> x \<le> 0xFFFFFEF then Inr USED_CLUSTER
      else if x \<ge> 0xFFFFFF0 \<and> x \<le> 0xFFFFFF6 then Inl (Panic ''reserved value'')
      else if x \<ge> 0xFFFFFF8 \<and> x \<le> 0xFFFFFFF then Inr LAST_CLUSTER
      else Inl (Panic ''impossible type value''))"

definition fat32_fat_entry_type_str :: "fat32_cluster \<Rightarrow> string" where
  "fat32_fat_entry_type_str t = (case t of
       FREE_CLUSTER \<Rightarrow> ''FREE_CLUSTER'' | RESERVED_CLUSTER \<Rightarrow> ''RESERVED_CLUSTER''
     | BAD_CLUSTER \<Rightarrow> ''BAD_CLUSTER'' | LAST_CLUSTER \<Rightarrow> ''LAST_CLUSTER''
     | USED_CLUSTER \<Rightarrow> ''USED_CLUSTER'')"

section \<open>Directory entries\<close>

record fat32_dirent =
  filename :: "u8 list"
  d_attr :: u8
  reserved0 :: u8
  ctime_tenths :: u8
  ctime :: u16
  create_date :: u16
  access_date :: u16
  hi_start :: u16
  mod_time :: u16
  mod_date :: u16
  lo_start :: u16
  file_nbytes :: u32

definition dirent_bytes :: "fat32_dirent \<Rightarrow> u8 list" where
  "dirent_bytes d = filename d @ [d_attr d, reserved0 d, ctime_tenths d] @ le16_bytes (ctime d)
     @ le16_bytes (create_date d) @ le16_bytes (access_date d) @ le16_bytes (hi_start d)
     @ le16_bytes (mod_time d) @ le16_bytes (mod_date d) @ le16_bytes (lo_start d)
     @ le32_bytes (file_nbytes d)"

definition dirent_of :: "u8 list \<Rightarrow> fat32_dirent" where
  "dirent_of b = \<lparr>filename = take 11 b, d_attr = b ! 11, reserved0 = b ! 12, ctime_tenths = b ! 13,
     ctime = le16_at b 14, create_date = le16_at b 16, access_date = le16_at b 18,
     hi_start = le16_at b 20, mod_time = le16_at b 22, mod_date = le16_at b 24,
     lo_start = le16_at b 26, file_nbytes = le32_at b 28\<rparr>"

text \<open>A buffer read as an array of directory entries.\<close>

definition dirents_of :: "u8 list \<Rightarrow> fat32_dirent list" where
  "dirents_of b = map (\<lambda>i. dirent_of (take 32 (drop (32 * i) b))) [0..<length b div 32]"

definition fat32_cluster_id :: "fat32_dirent \<Rightarrow> u32" where
  "fat32_cluster_id d = push_bit 16 (ucast (hi_start d)) OR ucast (lo_start d)"

definition fat32_is_dir :: "fat32_dirent \<Rightarrow> bool" where
  "fat32_is_dir d \<longleftrightarrow> d_attr d = 0x10"

definition fat32_is_attr :: "u32 \<Rightarrow> u32 \<Rightarrow> bool" where
  "fat32_is_attr x flag = (if x = 0x0f then x = flag else (x AND flag) = flag)"

definition fat32_dirent_is_lfn :: "fat32_dirent \<Rightarrow> bool" where
  "fat32_dirent_is_lfn d \<longleftrightarrow> d_attr d = 0x0f"

definition lfn_is_deleted :: "u8 \<Rightarrow> bool" where
  "lfn_is_deleted seqno \<longleftrightarrow> (seqno AND 0xe5) = 0xe5"

definition fat32_dirent_free :: "fat32_dirent \<Rightarrow> bool" where
  "fat32_dirent_free d =
     (let x = filename d ! 0 in
      if d_attr d = 0x0f then lfn_is_deleted x else x = 0 \<or> x = 0xe5)"

fun fat32_dir_lookup :: "u8 list \<Rightarrow> fat32_dirent list \<Rightarrow> nat \<Rightarrow> nat option" where
  "fat32_dir_lookup name [] i = None"
| "fat32_dir_lookup name (d # ds) i =
     (if fat32_dirent_free d \<or> fat32_dirent_is_lfn d then fat32_dir_lookup name ds (Suc i)
      else if take 11 name = filename d then Some i
      else fat32_dir_lookup name ds (Suc i))"

section \<open>8.3 names\<close>

text \<open>The countdown of \<open>to_8dot3\<close>: one past the last non-space, or none.\<close>

fun trim_idx :: "u8 list \<Rightarrow> nat \<Rightarrow> nat option" where
  "trim_idx s 0 = None"
| "trim_idx s (Suc i) = (if s ! i \<noteq> 32 then Some (Suc i) else trim_idx s i)"

text \<open>With eight spaces the loop ends at -1 and the dot is stored before the buffer.\<close>

definition to_8dot3 :: "u8 list \<Rightarrow> cstr res" where
  "to_8dot3 p = (case trim_idx p 8 of
       None \<Rightarrow> Inl OutOfBounds
     | Some i \<Rightarrow> Inr (takeWhile (\<lambda>c. c \<noteq> 0) (take i p @ [46] @ take 3 (drop 8 p))))"

definition fat32_dirent_name :: "fat32_dirent \<Rightarrow> cstr res" where
  "fat32_dirent_name d = to_8dot3 (filename d)"

definition has_dot :: "cstr \<Rightarrow> bool" where
  "has_dot s \<longleftrightarrow> list_ex (\<lambda>c. c = 46) s"

definition name_char :: "u8 \<Rightarrow> bool" where
  "name_char c \<longleftrightarrow> \<not> ((c < 65 \<or> c > 90) \<and> (c < 48 \<or> c > 57))"

definition fat32_is_valid_name :: "cstr \<Rightarrow> bool" where
  "fat32_is_valid_name s =
     (let n = length s in
      if has_dot s then
        (if n > 12 then False else if n < 5 then False else if s ! (n - 4) \<noteq> 46 then False
         else list_all (\<lambda>i. name_char (s ! i) \<or> i = n - 4) [0..<n])
      else
        (if n > 8 then False else if n < 1 then False else list_all name_char s))"

definition fat32_dirent_set_name :: "fat32_dirent \<Rightarrow> cstr \<Rightarrow> fat32_dirent res" where
  "fat32_dirent_set_name d s =
     bind_r (assert_r (fat32_is_valid_name s)) (\<lambda>_.
       let n = length s; f = replicate 11 32 in
       if has_dot s then Inr (d\<lparr>filename := put_at (put_at f 0 (take (n - 4) s)) 8 (take 3 (drop (n - 3) s))\<rparr>)
       else Inr (d\<lparr>filename := put_at f 0 s\<rparr>))"

section \<open>Searching a directory\<close>

text \<open>
  The comparison loop of \<open>find_dirent_with_name\<close>: whether it reached the end of the name, where it
  stopped, and whether it saw a dot.
\<close>

fun name_scan :: "cstr \<Rightarrow> cstr \<Rightarrow> nat \<Rightarrow> bool \<Rightarrow> bool \<times> nat \<times> bool" where
  "name_scan [] tmp idx dot = (True, idx, dot)"
| "name_scan (c # cs) tmp idx dot =
     (let dot' = (dot \<or> c = 46) in
      if c \<noteq> cs_at tmp idx then (False, idx, dot') else name_scan cs tmp (Suc idx) dot')"

definition name_matches :: "cstr \<Rightarrow> cstr \<Rightarrow> bool" where
  "name_matches fname tmp =
     (let (fin, idx, dot) = name_scan fname tmp 0 False in
      fin \<and>
      (if dot then cs_at tmp idx = 32 \<or> cs_at tmp idx = 0 \<or> idx = 11
       else idx \<ge> 10 \<or> (cs_at tmp idx = 46 \<and> (cs_at tmp (idx + 1) = 32 \<or> cs_at tmp (idx + 1) = 0))))"

definition dirent_skipped :: "fat32_dirent \<Rightarrow> bool" where
  "dirent_skipped d \<longleftrightarrow>
     filename d ! 0 = 0 \<or> filename d ! 0 = 0xE5 \<or> (d_attr d AND 0xF) > 0"

text \<open>The index found, \<open>None\<close> for the code's -1.\<close>

fun find_dirent_with_name :: "fat32_dirent list \<Rightarrow> cstr \<Rightarrow> nat \<Rightarrow> nat option res" where
  "find_dirent_with_name [] fname i = Inr None"
| "find_dirent_with_name (d # ds) fname i =
     (if dirent_skipped d then find_dirent_with_name ds fname (Suc i)
      else bind_r (fat32_dirent_name d) (\<lambda>tmp.
        if name_matches fname tmp then Inr (Some i) else find_dirent_with_name ds fname (Suc i)))"

section \<open>Classification of FAT entries\<close>

lemma shift4_take_bit: "drop_bit 4 (push_bit 4 x) = take_bit 28 (x :: u32)"
  by (rule bit_word_eqI) (auto simp: bit_simps)

lemma unat_shift4: "unat (drop_bit 4 (push_bit 4 x) :: u32) = unat x mod 0x10000000"
  by (simp add: shift4_take_bit take_bit_eq_mod unat_mod)

lemma entry_type_nat:
  "fat32_fat_entry_type x =
     (let k = unat x mod 0x10000000 in
      if k = 0 then Inr FREE_CLUSTER else if k = 1 then Inr RESERVED_CLUSTER
      else if k \<le> 0xFFFFFEF then Inr USED_CLUSTER
      else if k \<le> 0xFFFFFF6 then Inl (Panic ''reserved value'')
      else if k = 0xFFFFFF7 then Inr BAD_CLUSTER
      else Inr LAST_CLUSTER)"
proof -
  have "unat x mod 0x10000000 < 0x10000000" by simp
  then show ?thesis
    unfolding fat32_fat_entry_type_def Let_def word_le_nat_alt unat_eq_iff unat_shift4
    by simp
qed

lemma entry_type_small:
  assumes "2 \<le> unat x" "unat x \<le> 0xFFFFFEF"
  shows "fat32_fat_entry_type x = Inr USED_CLUSTER"
  using assms by (simp add: entry_type_nat)

lemma entry_type_consts [simp]:
  "fat32_fat_entry_type 0 = Inr FREE_CLUSTER"
  "fat32_fat_entry_type 0xFFFFFFFF = Inr LAST_CLUSTER"
  by (simp_all add: entry_type_nat)

section \<open>Encoding of directory entries\<close>

lemma length_dirent_bytes: "length (filename d) = 11 \<Longrightarrow> length (dirent_bytes d) = 32"
  by (simp add: dirent_bytes_def)

lemma le16_split: "le16_bytes (le16_at b i) = [b ! i, b ! Suc i]"
proof -
  have "ucast (ucast (x :: u8) OR push_bit 8 (ucast (y :: u8)) :: u16) = x" for x y
    by (rule bit_word_eqI) (auto simp: bit_simps dest: bit_imp_le_length)
  moreover have "ucast (drop_bit 8 (ucast (x :: u8) OR push_bit 8 (ucast (y :: u8)) :: u16)) = y" for x y
    by (rule bit_word_eqI) (auto simp: bit_simps dest: bit_imp_le_length)
  ultimately show ?thesis by (simp only: le16_bytes_def le16_at_def)
qed

lemma le32_split: "le32_bytes (le32_at b i) = [b ! i, b ! (i + 1), b ! (i + 2), b ! (i + 3)]"
proof -
  let ?w = "\<lambda>a c d e. ucast (a :: u8) OR push_bit 8 (ucast (c :: u8)) OR push_bit 16 (ucast (d :: u8))
              OR push_bit 24 (ucast (e :: u8)) :: u32"
  have "ucast (?w a c d e) = a" "ucast (drop_bit 8 (?w a c d e)) = c"
    "ucast (drop_bit 16 (?w a c d e)) = d" "ucast (drop_bit 24 (?w a c d e)) = e" for a c d e
    by (rule bit_word_eqI, auto simp: bit_simps dest: bit_imp_le_length)+
  then show ?thesis by (simp only: le32_bytes_def le32_at_def)
qed

lemma dirent_of_bytes [simp]:
  assumes "length (filename d) = 11"
  shows "dirent_of (dirent_bytes d) = d"
  using assms
  by (simp add: dirent_of_def dirent_bytes_def nth_append le16_at_def le16_bytes_def le32_at_def
      le32_bytes_def le16_join le32_join)

lemma dirent_bytes_of:
  assumes "length b = 32"
  shows "dirent_bytes (dirent_of b) = b"
proof (rule nth_equalityI)
  show "length (dirent_bytes (dirent_of b)) = length b"
    using assms by (simp add: dirent_of_def dirent_bytes_def)
next
  fix i assume "i < length (dirent_bytes (dirent_of b))"
  then have "i \<in> set [0..<32]" using assms by (simp add: dirent_of_def dirent_bytes_def)
  moreover have "\<forall>i \<in> set [0..<32]. dirent_bytes (dirent_of b) ! i = b ! i"
    using assms by (simp add: dirent_of_def dirent_bytes_def le16_split le32_split nth_append upt_rec)
      (simp add: numeral_eq_Suc)
  ultimately show "dirent_bytes (dirent_of b) ! i = b ! i" by blast
qed

lemma length_dirents_of [simp]: "length (dirents_of b) = length b div 32"
  by (simp add: dirents_of_def)

lemma nth_dirents_of:
  "i < length b div 32 \<Longrightarrow> dirents_of b ! i = dirent_of (take 32 (drop (32 * i) b))"
  by (simp add: dirents_of_def)

lemma filename_dirents_of: "d \<in> set (dirents_of b) \<Longrightarrow> length (filename d) = 11"
  by (auto simp: dirents_of_def dirent_of_def)

lemma take_drop_put_at_other:
  assumes "32 * i + 32 \<le> length b" "32 * j + 32 \<le> length b" "length xs = 32" "i \<noteq> j"
  shows "take 32 (drop (32 * j) (put_at b (32 * i) xs)) = take 32 (drop (32 * j) b)"
proof (rule nth_equalityI)
  fix k assume "k < length (take 32 (drop (32 * j) (put_at b (32 * i) xs)))"
  moreover have "32 * i \<noteq> 32 * j" using assms(4) by simp
  then have "32 * i + 32 \<le> 32 * j \<or> 32 * j + 32 \<le> 32 * i" using assms(4) by linarith
  ultimately show "take 32 (drop (32 * j) (put_at b (32 * i) xs)) ! k = take 32 (drop (32 * j) b) ! k"
    using assms by (auto simp: nth_put_at)
qed (use assms in simp)

lemma dirents_of_put_at:
  assumes "i < length b div 32" "length (filename d) = 11"
  shows "dirents_of (put_at b (32 * i) (dirent_bytes d)) = (dirents_of b)[i := d]"
proof (rule nth_equalityI)
  have bound: "32 * j + 32 \<le> length b" if "j < length b div 32" for j
    using that by (simp add: less_eq_div_iff_mult_less_eq Suc_leI [THEN less_eq_div_iff_mult_less_eq [THEN iffD1, rotated]] mult.commute)
  note len = length_dirent_bytes [OF assms(2)]
  have same: "take 32 (drop (32 * i) (put_at b (32 * i) (dirent_bytes d))) = dirent_bytes d"
    using bound [OF assms(1)] len by (simp add: put_at_def)
  show "length (dirents_of (put_at b (32 * i) (dirent_bytes d))) = length ((dirents_of b)[i := d])"
    using bound [OF assms(1)] len by simp
  fix j assume "j < length (dirents_of (put_at b (32 * i) (dirent_bytes d)))"
  then have j: "j < length b div 32" using bound [OF assms(1)] len by simp
  then show "dirents_of (put_at b (32 * i) (dirent_bytes d)) ! j = (dirents_of b)[i := d] ! j"
    using bound [OF assms(1)] bound [OF j] len same assms(2)
    by (cases "j = i") (simp_all add: nth_dirents_of take_drop_put_at_other)
qed

section \<open>Valid names and their 8.3 form\<close>

text \<open>The eleven bytes a valid name is stored as.\<close>

definition raw83 :: "cstr \<Rightarrow> u8 list" where
  "raw83 s = (if has_dot s
     then take (length s - 4) s @ replicate (12 - length s) 32 @ drop (length s - 3) s
     else s @ replicate (11 - length s) 32)"

lemma name_char_bounds: "name_char c \<Longrightarrow> c \<noteq> 0 \<and> c \<noteq> 32 \<and> c \<noteq> 46 \<and> c \<noteq> 0xE5"
  by (auto simp: name_char_def word_less_nat_alt)

lemma valid_name_cases:
  assumes "fat32_is_valid_name s"
  obtains
    (dotted) base ext where "s = base @ 46 # ext" "length ext = 3" "base \<noteq> []" "length base \<le> 8"
      "\<forall>c \<in> set base \<union> set ext. name_char c"
  | (plain) "s \<noteq> []" "length s \<le> 8" "\<forall>c \<in> set s. name_char c"
proof (cases "has_dot s")
  case True
  let ?n = "length s"
  have n: "5 \<le> ?n" "?n \<le> 12" "s ! (?n - 4) = 46"
    and all: "\<And>i. i < ?n \<Longrightarrow> i \<noteq> ?n - 4 \<Longrightarrow> name_char (s ! i)"
    using assms True by (auto simp: fat32_is_valid_name_def Let_def list_all_iff split: if_splits)
  have split: "s = take (?n - 4) s @ 46 # drop (?n - 3) s"
    using n id_take_nth_drop [of "?n - 4" s] Suc_diff_le [of 4 ?n] by simp
  have "name_char c" if "c \<in> set (take (?n - 4) s)" for c
    using that all by (auto simp: in_set_conv_nth)
  moreover have "name_char c" if c: "c \<in> set (drop (?n - 3) s)" for c
  proof -
    from c n obtain k where "k < 3" "c = s ! (?n - 3 + k)" by (auto simp: in_set_conv_nth)
    then show ?thesis using all [of "?n - 3 + k"] n by simp
  qed
  ultimately show ?thesis using n by (intro dotted [OF split]) auto
next
  case False
  then show ?thesis
    using plain assms by (auto simp: fat32_is_valid_name_def Let_def list_all_iff split: if_splits)
qed

lemma has_dot_iff: "has_dot s \<longleftrightarrow> 46 \<in> set s"
  by (auto simp: has_dot_def list_ex_iff)

lemma raw83_dotted:
  "length ext = 3 \<Longrightarrow> length base \<le> 8 \<Longrightarrow>
   raw83 (base @ 46 # ext) = base @ replicate (8 - length base) 32 @ ext"
  by (simp add: raw83_def has_dot_iff)

lemma raw83_plain: "\<not> has_dot s \<Longrightarrow> raw83 s = s @ replicate (11 - length s) 32"
  by (simp add: raw83_def)

lemma valid_is_cstr: "fat32_is_valid_name s \<Longrightarrow> is_cstr s"
  by (erule valid_name_cases) (auto simp: is_cstr_def dest!: name_char_bounds)

lemma length_raw83 [simp]: "fat32_is_valid_name s \<Longrightarrow> length (raw83 s) = 11"
proof (erule valid_name_cases)
  assume "s \<noteq> []" "length s \<le> 8" "\<forall>c \<in> set s. name_char c"
  then show "length (raw83 s) = 11"
    using name_char_bounds by (subst raw83_plain) (auto simp: has_dot_iff)
qed (simp add: raw83_dotted)

lemma raw83_first: "fat32_is_valid_name s \<Longrightarrow> raw83 s ! 0 \<noteq> 0 \<and> raw83 s ! 0 \<noteq> 0xE5"
proof (erule valid_name_cases)
  fix base ext
  assume "s = base @ 46 # ext" "length ext = 3" "base \<noteq> []" "length base \<le> 8"
    "\<forall>c \<in> set base \<union> set ext. name_char c"
  then show "raw83 s ! 0 \<noteq> 0 \<and> raw83 s ! 0 \<noteq> 0xE5"
    using name_char_bounds [of "base ! 0"] by (simp add: raw83_dotted nth_append)
next
  assume s: "s \<noteq> []" "length s \<le> 8" "\<forall>c \<in> set s. name_char c"
  then have "\<not> has_dot s" using name_char_bounds by (auto simp: has_dot_iff)
  then show "raw83 s ! 0 \<noteq> 0 \<and> raw83 s ! 0 \<noteq> 0xE5"
    using s name_char_bounds [of "s ! 0"] by (simp add: raw83_plain nth_append)
qed

lemma set_name_ok:
  assumes "fat32_is_valid_name s"
  shows "fat32_dirent_set_name d s = Inr (d\<lparr>filename := raw83 s\<rparr>)"
  using assms
proof (cases rule: valid_name_cases)
  case (dotted base ext)
  then have "put_at (put_at (replicate 11 32) 0 base) 8 ext = base @ replicate (8 - length base) 32 @ ext"
    by (simp add: put_at_def)
  with dotted assms show ?thesis
    by (simp add: fat32_dirent_set_name_def Let_def has_dot_iff raw83_dotted)
next
  case plain
  then have "\<not> has_dot s" using name_char_bounds by (auto simp: has_dot_iff)
  with plain assms show ?thesis
    by (simp add: fat32_dirent_set_name_def Let_def raw83_plain put_at_def)
qed

lemma set_name_bad: "\<not> fat32_is_valid_name s \<Longrightarrow> fat32_dirent_set_name d s = Inl AssertFail"
  by (simp add: fat32_dirent_set_name_def)

lemma trim_idx_Some:
  "trim_idx s n = Some k \<longleftrightarrow> 0 < k \<and> k \<le> n \<and> s ! (k - 1) \<noteq> 32 \<and> (\<forall>i. k \<le> i \<and> i < n \<longrightarrow> s ! i = 32)"
proof (induction n)
  case (Suc n)
  show ?case
  proof (cases "s ! n = 32")
    case True
    then show ?thesis using Suc by (auto simp: le_Suc_eq less_Suc_eq)
  next
    case False
    then show ?thesis by (auto simp: le_Suc_eq less_Suc_eq)
  qed
qed auto

lemma trim_idx_None: "trim_idx s n = None \<longleftrightarrow> (\<forall>i<n. s ! i = 32)"
  by (induction n) (auto simp: less_Suc_eq)

text \<open>
  What the driver needs of the stored names of a directory: eleven bytes, no NUL and no dot among
  them, a base that is not all spaces, and an extension that is not \<open>space, letter\<close>.
\<close>

definition wf_raw :: "u8 list \<Rightarrow> bool" where
  "wf_raw r \<longleftrightarrow> length r = 11 \<and> 0 \<notin> set r \<and> 46 \<notin> set r \<and> (\<exists>i<8. r ! i \<noteq> 32)
     \<and> (r ! 8 = 32 \<longrightarrow> r ! 9 = 32 \<and> r ! 10 = 32)"

definition base_len :: "u8 list \<Rightarrow> nat" where
  "base_len r = the (trim_idx r 8)"

lemma base_len:
  assumes "wf_raw r"
  shows "trim_idx r 8 = Some (base_len r)" "0 < base_len r" "base_len r \<le> 8"
    "r ! (base_len r - 1) \<noteq> 32" "\<And>i. base_len r \<le> i \<Longrightarrow> i < 8 \<Longrightarrow> r ! i = 32"
proof -
  have "trim_idx r 8 \<noteq> None" using assms by (auto simp: wf_raw_def trim_idx_None)
  then show *: "trim_idx r 8 = Some (base_len r)" by (auto simp: base_len_def)
  show "0 < base_len r" "base_len r \<le> 8" "r ! (base_len r - 1) \<noteq> 32"
    "\<And>i. base_len r \<le> i \<Longrightarrow> i < 8 \<Longrightarrow> r ! i = 32"
    using * by (auto simp: trim_idx_Some)
qed

lemma takeWhile_no_nul: "0 \<notin> set s \<Longrightarrow> takeWhile (\<lambda>c :: u8. c \<noteq> 0) s = s"
  by auto

lemma to_8dot3_wf:
  assumes "wf_raw r"
  shows "to_8dot3 r = Inr (take (base_len r) r @ 46 # drop 8 r)"
proof -
  have "0 \<notin> set (take (base_len r) r @ 46 # drop 8 r)" "length r = 11"
    using assms by (auto simp: wf_raw_def dest: in_set_takeD in_set_dropD)
  then show ?thesis
    using base_len(1) [OF assms] by (simp add: to_8dot3_def takeWhile_no_nul)
qed

lemma raw_eqI:
  assumes "wf_raw r" "length base = base_len r" "take (base_len r) r = base" "drop 8 r = ext"
  shows "r = base @ replicate (8 - length base) 32 @ ext"
proof (rule nth_equalityI)
  note b = base_len [OF assms(1)]
  have len: "length r = 11" using assms(1) by (simp add: wf_raw_def)
  show "length r = length (base @ replicate (8 - length base) 32 @ ext)"
    using len assms b by auto
  fix i assume i: "i < length r"
  consider "i < base_len r" | "base_len r \<le> i" "i < 8" | "8 \<le> i" by linarith
  then show "r ! i = (base @ replicate (8 - length base) 32 @ ext) ! i"
    using assms b(3) b(5) [of i] len i by cases (auto simp: nth_append)
qed

text \<open>Both shapes of a valid name at once: a base, and an extension that may be three spaces.\<close>

lemma valid_name_parts:
  assumes "fat32_is_valid_name s"
  obtains base ext where "raw83 s = base @ replicate (8 - length base) 32 @ ext" "length ext = 3"
    "base \<noteq> []" "length base \<le> 8" "\<forall>c \<in> set base. name_char c"
    "if has_dot s then s = base @ 46 # ext else s = base"
    "if has_dot s then \<forall>c \<in> set ext. name_char c else ext = [32, 32, 32]"
  using assms
proof (cases rule: valid_name_cases)
  case (dotted base ext)
  then show ?thesis by (intro that [of base ext]) (auto simp: raw83_dotted has_dot_iff)
next
  case plain
  then have nodot: "\<not> has_dot s" using name_char_bounds by (auto simp: has_dot_iff)
  have "replicate (11 - length s) (32 :: u8) = replicate (8 - length s) 32 @ replicate 3 32"
    using plain by (subst replicate_add [symmetric]) simp
  then have "raw83 s = s @ replicate (8 - length s) 32 @ [32, 32, 32]"
    using nodot by (simp add: raw83_plain numeral_eq_Suc)
  then show ?thesis using plain nodot by (intro that [of s "[32, 32, 32]"]) auto
qed

lemma base_len_raw:
  assumes "base \<noteq> []" "length base \<le> 8" "\<forall>c \<in> set base. name_char c"
  shows "trim_idx (base @ replicate (8 - length base) 32 @ ext) 8 = Some (length base)"
  using assms name_char_bounds [of "last base"]
  by (auto simp: trim_idx_Some nth_append last_conv_nth)

lemma wf_raw83:
  assumes "fat32_is_valid_name s"
  shows "wf_raw (raw83 s)"
  using assms
proof (rule valid_name_parts)
  fix base ext
  assume a: "raw83 s = base @ replicate (8 - length base) 32 @ ext" "length ext = 3"
    "base \<noteq> []" "length base \<le> 8" "\<forall>c \<in> set base. name_char c"
    "if has_dot s then \<forall>c \<in> set ext. name_char c else ext = [32, 32, 32]"
  have ext: "raw83 s ! (8 + i) = ext ! i" for i using a(1,4) by (auto simp: nth_append)
  have "0 \<notin> set (raw83 s)" "46 \<notin> set (raw83 s)"
    using a name_char_bounds by (auto split: if_splits)
  moreover have "\<exists>i<8. raw83 s ! i \<noteq> 32"
    using a name_char_bounds [of "base ! 0"] by (intro exI [of _ 0]) (simp add: nth_append)
  moreover have "raw83 s ! 8 = 32 \<longrightarrow> raw83 s ! 9 = 32 \<and> raw83 s ! 10 = 32"
    using a(2,6) ext [of 0] ext [of 1] ext [of 2] name_char_bounds [of "ext ! 0"]
    by (auto split: if_splits)
  ultimately show ?thesis using assms by (simp add: wf_raw_def)
qed

lemma base_len_raw83:
  "raw83 s = base @ replicate (8 - length base) 32 @ ext \<Longrightarrow> base \<noteq> [] \<Longrightarrow> length base \<le> 8 \<Longrightarrow>
   \<forall>c \<in> set base. name_char c \<Longrightarrow> base_len (raw83 s) = length base"
  by (simp add: base_len_def base_len_raw)

lemma to_8dot3_raw83:
  assumes "fat32_is_valid_name s"
  shows "to_8dot3 (raw83 s) = Inr (if has_dot s then s else s @ [46, 32, 32, 32])"
  using assms
proof (rule valid_name_parts)
  fix base ext
  assume a: "raw83 s = base @ replicate (8 - length base) 32 @ ext" "length ext = 3"
    "base \<noteq> []" "length base \<le> 8" "\<forall>c \<in> set base. name_char c"
    and s: "if has_dot s then s = base @ 46 # ext else s = base"
    and e: "if has_dot s then \<forall>c \<in> set ext. name_char c else ext = [32, 32, 32]"
  have "to_8dot3 (raw83 s) = Inr (base @ 46 # ext)"
    using base_len_raw83 [OF a(1,3,4,5)] a(4) by (simp add: to_8dot3_wf wf_raw83 assms) (simp add: a(1))
  then show ?thesis using s e by (simp split: if_splits)
qed

section \<open>Correctness of the name search\<close>

lemma name_scan_True:
  "name_scan f t idx dot = (True, idx', dot') \<longleftrightarrow>
     idx' = idx + length f \<and> dot' = (dot \<or> 46 \<in> set f) \<and> (\<forall>i<length f. cs_at t (idx + i) = f ! i)"
proof (induction f arbitrary: idx dot)
  case (Cons c cs)
  have "(\<forall>i<length (c # cs). cs_at t (idx + i) = (c # cs) ! i) \<longleftrightarrow>
      cs_at t idx = c \<and> (\<forall>i<length cs. cs_at t (Suc idx + i) = cs ! i)"
    by (auto simp: less_Suc_eq_0_disj)
  then show ?case using Cons.IH by (auto simp: Let_def)
qed auto

lemma name_matches_iff:
  "name_matches f t \<longleftrightarrow> (\<forall>i<length f. cs_at t i = f ! i) \<and>
     (let n = length f in
      if has_dot f then cs_at t n = 32 \<or> cs_at t n = 0 \<or> n = 11
      else n \<ge> 10 \<or> (cs_at t n = 46 \<and> (cs_at t (n + 1) = 32 \<or> cs_at t (n + 1) = 0)))"
proof -
  obtain fin idx dot where scan: "name_scan f t 0 False = (fin, idx, dot)" by (metis prod_cases3)
  show ?thesis
  proof (cases fin)
    case True
    then show ?thesis using scan name_scan_True [of f t 0 False idx dot]
      by (simp add: name_matches_def has_dot_iff Let_def)
  next
    case False
    then have "\<not> (\<forall>i<length f. cs_at t i = f ! i)"
      using scan name_scan_True [of f t 0 False "length f" "46 \<in> set f"] by auto
    then show ?thesis using scan False by (simp add: name_matches_def)
  qed
qed

lemma cs_at_nonzero: "cs_at t i = c \<Longrightarrow> c \<noteq> 0 \<Longrightarrow> i < length t \<and> t ! i = c"
  by (simp add: cs_at_def split: if_splits)

lemma display_dot:
  assumes "wf_raw r" "cs_at (take (base_len r) r @ 46 # drop 8 r) m = 46"
  shows "m = base_len r"
proof (rule ccontr)
  let ?t = "take (base_len r) r @ 46 # drop 8 r"
  assume "m \<noteq> base_len r"
  moreover have "m < length ?t" "?t ! m = 46" using cs_at_nonzero [OF assms(2)] by simp_all
  moreover have "length r = 11" "46 \<notin> set r" "base_len r \<le> 8"
    using assms(1) base_len [OF assms(1)] by (auto simp: wf_raw_def)
  ultimately have "46 \<in> set r"
    by (cases "m < base_len r") (auto simp: nth_append nth_Cons' in_set_conv_nth)
  with \<open>46 \<notin> set r\<close> show False by simp
qed

lemma wf_raw_blank_ext:
  assumes "wf_raw r" "r ! 8 = 32"
  shows "drop 8 r = [32, 32, 32]"
proof (rule nth_equalityI)
  fix i assume "i < length (drop 8 r)"
  then have "i = 0 \<or> i = 1 \<or> i = 2" using assms(1) by (auto simp: wf_raw_def)
  then show "drop 8 r ! i = [32, 32, 32] ! i" using assms by (auto simp: wf_raw_def)
qed (use assms in \<open>simp add: wf_raw_def\<close>)

lemma name_matches_raw:
  assumes "wf_raw r" "fat32_is_valid_name f" "name_matches f (take (base_len r) r @ 46 # drop 8 r)"
  shows "r = raw83 f"
proof -
  let ?k = "base_len r" and ?t = "take (base_len r) r @ 46 # drop 8 r"
  have len: "length r = 11" using assms(1) by (simp add: wf_raw_def)
  note b = base_len [OF assms(1)]
  have eq: "cs_at ?t i = f ! i" if "i < length f" for i
    using assms(3) that by (simp add: name_matches_iff)
  obtain base ext where p: "raw83 f = base @ replicate (8 - length base) 32 @ ext" "length ext = 3"
    "base \<noteq> []" "length base \<le> 8" "\<forall>c \<in> set base. name_char c"
    "if has_dot f then f = base @ 46 # ext else f = base"
    "if has_dot f then \<forall>c \<in> set ext. name_char c else ext = [32, 32, 32]"
    using assms(2) by (rule valid_name_parts)
  have dot: "cs_at ?t (length base) = 46"
  proof (cases "has_dot f")
    case True
    then show ?thesis using eq [of "length base"] p by simp
  next
    case False
    then show ?thesis using assms(3) p by (simp add: name_matches_iff Let_def)
  qed
  then have k: "?k = length base" by (rule display_dot [OF assms(1), symmetric])
  have "take ?k r = base"
  proof (rule nth_equalityI)
    fix i assume "i < length (take ?k r)"
    then show "take ?k r ! i = base ! i"
      using eq [of i] p k b len by (auto simp: cs_at_def nth_append split: if_splits)
  qed (use k b len in simp)
  moreover have "drop 8 r = ext"
  proof (cases "has_dot f")
    case True
    show ?thesis
    proof (rule nth_equalityI)
      fix i assume "i < length (drop 8 r)"
      then show "drop 8 r ! i = ext ! i"
        using eq [of "Suc (length base + i)"] p k b len True by (simp add: cs_at_def nth_append)
    qed (use len p in simp)
  next
    case False
    then have "cs_at ?t (Suc ?k) = 32 \<or> cs_at ?t (Suc ?k) = 0"
      using assms(3) p k by (simp add: name_matches_iff Let_def)
    moreover have "r ! 8 \<noteq> 0" using assms(1) len by (auto simp: wf_raw_def in_set_conv_nth)
    ultimately have "r ! 8 = 32" using len b by (auto simp: cs_at_def nth_append)
    with p(7) False show ?thesis by (simp add: wf_raw_blank_ext [OF assms(1)])
  qed
  ultimately show ?thesis using raw_eqI [OF assms(1), of base ext] k p by simp
qed

lemma name_matches_self:
  assumes "fat32_is_valid_name f"
  shows "name_matches f (if has_dot f then f else f @ [46, 32, 32, 32])"
  by (auto simp: name_matches_iff cs_at_def nth_append Let_def)

lemma name_matches_correct:
  assumes "wf_raw (filename d)" "fat32_is_valid_name f"
  shows "\<exists>tmp. fat32_dirent_name d = Inr tmp \<and> (name_matches f tmp \<longleftrightarrow> filename d = raw83 f)"
proof (cases "filename d = raw83 f")
  case True
  then show ?thesis
    using assms to_8dot3_raw83 name_matches_self by (auto simp: fat32_dirent_name_def)
next
  case False
  then show ?thesis
    using assms to_8dot3_wf name_matches_raw by (auto simp: fat32_dirent_name_def)
qed

text \<open>A directory whose live entries have well-formed names, and the first live entry of a name.\<close>

definition dir_wf :: "fat32_dirent list \<Rightarrow> bool" where
  "dir_wf ds \<longleftrightarrow> (\<forall>d \<in> set ds. \<not> dirent_skipped d \<longrightarrow> wf_raw (filename d))"

definition named :: "cstr \<Rightarrow> fat32_dirent \<Rightarrow> bool" where
  "named f d \<longleftrightarrow> \<not> dirent_skipped d \<and> filename d = raw83 f"

definition first_match :: "(fat32_dirent \<Rightarrow> bool) \<Rightarrow> fat32_dirent list \<Rightarrow> nat option" where
  "first_match P ds =
     (let ks = filter (\<lambda>k. P (ds ! k)) [0..<length ds] in if ks = [] then None else Some (hd ks))"

lemma first_match_Nil [simp]: "first_match P [] = None"
  by (simp add: first_match_def)

lemma first_match_Cons:
  "first_match P (d # ds) = (if P d then Some 0 else map_option Suc (first_match P ds))"
proof -
  have "filter (\<lambda>k. P ((d # ds) ! k)) [0..<length (d # ds)]
      = (if P d then [0] else []) @ map Suc (filter (\<lambda>k. P (ds ! k)) [0..<length ds])"
    by (simp add: upt_conv_Cons map_Suc_upt [symmetric] filter_map o_def del: upt_Suc)
  then show ?thesis by (auto simp: first_match_def Let_def hd_map)
qed

lemma first_match_Some:
  "first_match P ds = Some k \<longleftrightarrow> k < length ds \<and> P (ds ! k) \<and> (\<forall>j<k. \<not> P (ds ! j))"
proof (induction ds arbitrary: k)
  case (Cons d ds)
  then show ?case by (cases k) (auto simp: first_match_Cons less_Suc_eq_0_disj)
qed simp

lemma first_match_None: "first_match P ds = None \<longleftrightarrow> (\<forall>d \<in> set ds. \<not> P d)"
  by (induction ds) (auto simp: first_match_Cons)

lemma find_dirent_eq:
  "dir_wf ds \<Longrightarrow> fat32_is_valid_name f \<Longrightarrow>
   find_dirent_with_name ds f i = Inr (map_option ((+) i) (first_match (named f) ds))"
proof (induction ds arbitrary: i)
  case (Cons d ds)
  then have IH: "find_dirent_with_name ds f (Suc i) = Inr (map_option ((+) (Suc i)) (first_match (named f) ds))"
    by (simp add: dir_wf_def)
  show ?case
  proof (cases "dirent_skipped d")
    case True
    then have "\<not> named f d" by (simp add: named_def)
    with IH True show ?thesis by (cases "first_match (named f) ds") (simp_all add: first_match_Cons)
  next
    case False
    then have "wf_raw (filename d)" using Cons.prems(1) by (simp add: dir_wf_def)
    then obtain tmp where "fat32_dirent_name d = Inr tmp" "name_matches f tmp \<longleftrightarrow> named f d"
      using name_matches_correct [OF _ Cons.prems(2), of d] False by (auto simp: named_def)
    with IH False show ?thesis
      by (cases "first_match (named f) ds") (simp_all add: first_match_Cons)
  qed
qed simp

end
