(* ===== verification/Fat32.thy ===== *)
theory Fat32
  imports Mbr Fat32_Layout
begin

unbundle bit_operations_syntax

text \<open>
  The FAT32 driver \<open>fat32/fat32.c\<close>, function by function. Its state is the \<open>fat32_fs_t\<close> object with
  the in-memory FAT, the card, and the module's \<open>init_p\<close> flag. Loops that follow a cluster chain
  have fuel, one step more than the FAT has entries; they return \<open>Diverges\<close> when it runs out, and
  \<open>Fat32_Chain\<close> shows that the loop of the code then never ends.
\<close>

record fat32_fs =
  lba_start :: u32
  fat_begin_lba :: u32
  cluster_begin_lba :: u32
  sectors_per_cluster :: u32
  root_dir_first_cluster :: u32
  fat :: "u32 list"
  n_entries :: u32

record vol =
  v_fs :: fat32_fs
  v_sd :: sd
  v_init_p :: bool

text \<open>
  \<open>pi_file_t\<close>: the memory from the data pointer on (\<open>None\<close> for \<open>NULL\<close>). A buffer from \<open>kmalloc\<close> is
  followed by zero-filled heap.
\<close>

record pi_file =
  f_data :: "(nat \<Rightarrow> u8) option"
  n_alloc :: u32
  n_data :: u32

record pi_dirent =
  de_name :: cstr
  raw_name :: "u8 list"
  cluster_id :: u32
  is_dir_p :: bool
  nbytes :: u32

definition mem_of :: "u8 list \<Rightarrow> nat \<Rightarrow> u8" where
  "mem_of b k = (if k < length b then b ! k else 0)"

definition deref :: "(nat \<Rightarrow> u8) option \<Rightarrow> (nat \<Rightarrow> u8) res" where
  "deref p = (case p of None \<Rightarrow> Inl OutOfBounds | Some m \<Rightarrow> Inr m)"

text \<open>The FAT as an array of words and as the bytes of its sectors.\<close>

definition words_of :: "u8 list \<Rightarrow> u32 list" where
  "words_of b = map (\<lambda>i. le32_at b (4 * i)) [0..<length b div 4]"

definition bytes_of :: "u32 list \<Rightarrow> u8 list" where
  "bytes_of ws = concat (map le32_bytes ws)"

section \<open>Mounting\<close>

definition fat32_mk :: "sd \<Rightarrow> bool \<Rightarrow> partition_entry \<Rightarrow> vol res" where
  "fat32_mk d init_p part =
     bind_r (demand_r (\<not> init_p) ''the fat32 module is already in use'') (\<lambda>_.
     let partition_start = p_lba_start part in
     bind_r (pi_sec_read d partition_start 1) (\<lambda>bs.
     let boot_sector = boot_sec_of bs in
     bind_r (fat32_volume_id_check boot_sector) (\<lambda>_.
     bind_r (assert_r (info_sec_num boot_sector = 1)) (\<lambda>_.
     bind_r (pi_sec_read d (partition_start + 1) 1) (\<lambda>fi.
     bind_r (fat32_fsinfo_check (fsinfo_of fi)) (\<lambda>_.
     let start = p_lba_start part;
         fat_begin = start + ucast (reserved_area_nsec boot_sector);
         cluster_begin = fat_begin + ucast (nfats boot_sector) * nsec_per_fat boot_sector;
         n_ent = nsec_per_fat boot_sector * ucast (bytes_per_sec boot_sector) div 4 in
     bind_r (pi_sec_read d fat_begin (nsec_per_fat boot_sector)) (\<lambda>fb.
     Inr \<lparr>v_fs = \<lparr>lba_start = start, fat_begin_lba = fat_begin, cluster_begin_lba = cluster_begin,
                    sectors_per_cluster = ucast (sec_per_cluster boot_sector),
                    root_dir_first_cluster = first_cluster boot_sector,
                    fat = words_of fb, n_entries = n_ent\<rparr>,
           v_sd = d, v_init_p = True\<rparr>)))))))"

definition cluster_to_lba :: "fat32_fs \<Rightarrow> u32 \<Rightarrow> u32 res" where
  "cluster_to_lba f cluster_num =
     bind_r (assert_r (cluster_num \<ge> 2)) (\<lambda>_.
       Inr (cluster_begin_lba f + (cluster_num - 2) * sectors_per_cluster f))"

definition check_init :: "vol \<Rightarrow> unit res" where
  "check_init v = demand_r (v_init_p v) ''fat32 not initialized!''"

definition fat32_get_root :: "vol \<Rightarrow> pi_dirent res" where
  "fat32_get_root v = bind_r (check_init v) (\<lambda>_.
     Inr \<lparr>de_name = [], raw_name = [], cluster_id = root_dir_first_cluster (v_fs v), is_dir_p = True,
          nbytes = 0\<rparr>)"

section \<open>Walking cluster chains\<close>

fun chain_length_loop :: "nat \<Rightarrow> u32 list \<Rightarrow> u32 \<Rightarrow> u32 \<Rightarrow> u32 res" where
  "chain_length_loop 0 ft cluster count = Inl Diverges"
| "chain_length_loop (Suc k) ft cluster count =
     (let count' = count + 1 in
      bind_r (arr_get ft (unat cluster)) (\<lambda>next.
      bind_r (fat32_fat_entry_type next) (\<lambda>t.
      if t = LAST_CLUSTER then Inr count' else chain_length_loop k ft next count')))"

definition get_cluster_chain_length :: "fat32_fs \<Rightarrow> u32 \<Rightarrow> u32 res" where
  "get_cluster_chain_length fs start_cluster =
     (if start_cluster = 0 then Inr 0
      else chain_length_loop (Suc (length (fat fs))) (fat fs) start_cluster 0)"

fun read_chain_loop :: "nat \<Rightarrow> sd \<Rightarrow> fat32_fs \<Rightarrow> u32 \<Rightarrow> u8 list res" where
  "read_chain_loop 0 d fs cluster = Inl Diverges"
| "read_chain_loop (Suc k) d fs cluster =
     bind_r (cluster_to_lba fs cluster) (\<lambda>lba.
     bind_r (arr_get (fat fs) (unat cluster)) (\<lambda>next.
     bind_r (pi_sec_read d lba (sectors_per_cluster fs)) (\<lambda>cluster_data.
     bind_r (fat32_fat_entry_type next) (\<lambda>t.
     if t = LAST_CLUSTER then Inr cluster_data
     else bind_r (read_chain_loop k d fs next) (\<lambda>rest. Inr (cluster_data @ rest))))))"

text \<open>
  The bytes copied to the buffer; the code returns how many there are. The callers allocate the
  buffer from the chain length, and the copy leaves it when it is too small.
\<close>

definition read_cluster_chain :: "vol \<Rightarrow> u32 \<Rightarrow> u8 list res" where
  "read_cluster_chain v start_cluster =
     (if start_cluster = 0 then Inr []
      else read_chain_loop (Suc (length (fat (v_fs v)))) (v_sd v) (v_fs v) start_cluster)"

definition into_buffer :: "u32 \<Rightarrow> u8 list \<Rightarrow> u8 list res" where
  "into_buffer n data = (if length data \<le> unat n then Inr data else Inl OutOfBounds)"

section \<open>Directories\<close>

definition dirent_convert :: "fat32_dirent \<Rightarrow> pi_dirent res" where
  "dirent_convert d = bind_r (fat32_dirent_name d) (\<lambda>nm.
     Inr \<lparr>de_name = nm, raw_name = filename d, cluster_id = fat32_cluster_id d,
          is_dir_p = ((d_attr d AND 0x10) > 0), nbytes = file_nbytes d\<rparr>)"

definition get_dirents :: "vol \<Rightarrow> u32 \<Rightarrow> fat32_dirent list res" where
  "get_dirents v cluster_start =
     bind_r (get_cluster_chain_length (v_fs v) cluster_start) (\<lambda>length.
     bind_r (read_cluster_chain v cluster_start) (\<lambda>bytes.
     bind_r (into_buffer (sectors_per_cluster (v_fs v) * 512 * length) bytes) (\<lambda>data.
     Inr (dirents_of data))))"

fun convert_all :: "fat32_dirent list \<Rightarrow> pi_dirent list res" where
  "convert_all [] = Inr []"
| "convert_all (d # ds) =
     (if filename d ! 0 = 0 \<or> filename d ! 0 = 0xE5 \<or> (d_attr d AND 0xF) > 0 then convert_all ds
      else bind_r (dirent_convert d) (\<lambda>e. bind_r (convert_all ds) (\<lambda>es. Inr (e # es))))"

definition fat32_readdir :: "vol \<Rightarrow> pi_dirent \<Rightarrow> pi_dirent list res" where
  "fat32_readdir v dirent =
     bind_r (check_init v) (\<lambda>_.
     bind_r (demand_r (is_dir_p dirent) ''tried to readdir a file!'') (\<lambda>_.
     bind_r (get_dirents v (cluster_id dirent)) convert_all))"

definition fat32_stat :: "vol \<Rightarrow> pi_dirent \<Rightarrow> cstr \<Rightarrow> pi_dirent option res" where
  "fat32_stat v directory fname =
     bind_r (check_init v) (\<lambda>_.
     bind_r (demand_r (is_dir_p directory) ''tried to use a file as a directory'') (\<lambda>_.
     bind_r (get_dirents v (cluster_id directory)) (\<lambda>dirents.
     bind_r (find_dirent_with_name dirents fname 0) (\<lambda>idx.
     case idx of None \<Rightarrow> Inr None
     | Some i \<Rightarrow> bind_r (dirent_convert (dirents ! i)) (\<lambda>e. Inr (Some e))))))"

section \<open>Reading a file\<close>

text \<open>The search loop of \<open>fat32_read\<close>; \<open>idx\<close> stays 0 when no name is equal.\<close>

fun read_find :: "fat32_dirent list \<Rightarrow> cstr \<Rightarrow> nat \<Rightarrow> nat res" where
  "read_find [] fname i = Inr 0"
| "read_find (d # ds) fname i =
     (if filename d ! 0 = 0 \<or> filename d ! 0 = 0xE5 \<or> (d_attr d AND 0xF) = 0xF \<or> (d_attr d AND 8) \<noteq> 0
      then read_find ds fname (Suc i)
      else bind_r (fat32_dirent_name d) (\<lambda>tmp.
        if tmp = fname then Inr i else read_find ds fname (Suc i)))"

definition fat32_read :: "vol \<Rightarrow> pi_dirent \<Rightarrow> cstr \<Rightarrow> pi_file res" where
  "fat32_read v directory fname =
     bind_r (check_init v) (\<lambda>_.
     bind_r (demand_r (is_dir_p directory) ''tried to use a file as a directory!'') (\<lambda>_.
     bind_r (get_dirents v (cluster_id directory)) (\<lambda>dirents.
     bind_r (read_find dirents fname 0) (\<lambda>idx.
     bind_r (arr_get dirents idx) (\<lambda>d.
     let cluster_num = fat32_cluster_id d in
     bind_r (get_cluster_chain_length (v_fs v) cluster_num) (\<lambda>length.
     let nbytes_alloc = sectors_per_cluster (v_fs v) * 512 * length in
     if nbytes_alloc = 0 then Inr \<lparr>f_data = None, n_alloc = 0, n_data = 0\<rparr>
     else bind_r (read_cluster_chain v cluster_num) (\<lambda>bytes.
       bind_r (into_buffer nbytes_alloc bytes) (\<lambda>file_buffer.
       Inr \<lparr>f_data = Some (mem_of file_buffer), n_alloc = nbytes_alloc, n_data = file_nbytes d\<rparr>))))))))"

section \<open>Allocation\<close>

function find_free_loop :: "u32 list \<Rightarrow> u32 \<Rightarrow> u32 \<Rightarrow> u32 res" where
  "find_free_loop ft n cluster =
     (if cluster < n then
        bind_r (arr_get ft (unat cluster)) (\<lambda>e.
        bind_r (fat32_fat_entry_type e) (\<lambda>t.
        if t \<noteq> FREE_CLUSTER then find_free_loop ft n (cluster + 1) else Inr cluster))
      else Inl (Panic ''No more clusters on the disk!''))"
  by pat_completeness auto
termination
proof (relation "measure (\<lambda>(ft, n, c). unat n - unat c)")
  fix ft :: "u32 list" and n c :: u32
  assume "c < n"
  then have "unat c < unat n" "unat (c + 1) = unat c + 1"
    by (simp_all add: word_less_nat_alt unat_plus_one)
  then show "((ft, n, c + 1), (ft, n, c)) \<in> measure (\<lambda>(ft, n, c). unat n - unat c)" by simp
qed simp

definition find_free_cluster :: "fat32_fs \<Rightarrow> u32 \<Rightarrow> u32 res" where
  "find_free_cluster fs start_cluster =
     find_free_loop (fat fs) (n_entries fs) (if start_cluster < 3 then 3 else start_cluster)"

definition set_fat :: "vol \<Rightarrow> u32 \<Rightarrow> u32 \<Rightarrow> vol res" where
  "set_fat v cluster x =
     bind_r (arr_set (fat (v_fs v)) (unat cluster) x) (\<lambda>ft. Inr (v\<lparr>v_fs := (v_fs v)\<lparr>fat := ft\<rparr>\<rparr>))"

definition vol_write :: "vol \<Rightarrow> (nat \<Rightarrow> u8) \<Rightarrow> u32 \<Rightarrow> u32 \<Rightarrow> vol res" where
  "vol_write v data lba nsec = bind_r (pi_sd_write (v_sd v) data lba nsec) (\<lambda>d. Inr (v\<lparr>v_sd := d\<rparr>))"

definition write_fat_to_disk :: "vol \<Rightarrow> vol res" where
  "write_fat_to_disk v =
     (let num_secs = n_entries (v_fs v) div 128 in
      vol_write v (mem_of (bytes_of (fat (v_fs v)))) (fat_begin_lba (v_fs v)) num_secs)"

section \<open>Writing a chain\<close>

text \<open>
  The first loop of \<open>write_cluster_chain\<close>: over the clusters the file already has. The result is
  \<open>need_more_clusters\<close>, \<open>cluster\<close>, \<open>data_index\<close>, \<open>start_cluster\<close> and the volume after the loop.
\<close>

fun wcc_walk ::
  "nat \<Rightarrow> (nat \<Rightarrow> u8) option \<Rightarrow> u32 \<Rightarrow> vol \<Rightarrow> u32 \<Rightarrow> u32 \<Rightarrow> u32 \<Rightarrow> u32
     \<Rightarrow> (bool \<times> u32 \<times> u32 \<times> u32 \<times> vol) res" where
  "wcc_walk 0 data nb v cluster data_index cluster_count start_cluster = Inl Diverges"
| "wcc_walk (Suc k) data nb v cluster data_index cluster_count start_cluster =
     (let spc = sectors_per_cluster (v_fs v) in
      if cluster = 0 then Inr (nb > 0, cluster, data_index, start_cluster, v)
      else
        let cluster_count' = cluster_count + 1 in
        bind_r (arr_get (fat (v_fs v)) (unat cluster)) (\<lambda>tmp.
        if nb \<le> (cluster_count' - 1) * 512 * spc then
          bind_r (fat32_fat_entry_type tmp) (\<lambda>t.
          bind_r (set_fat v cluster 0) (\<lambda>v'.
          if t = LAST_CLUSTER then Inr (False, cluster, data_index, 0, v')
          else wcc_walk k data nb v' tmp data_index cluster_count' start_cluster))
        else
          bind_r (cluster_to_lba (v_fs v) cluster) (\<lambda>lba.
          bind_r (deref data) (\<lambda>m.
          bind_r (vol_write v (\<lambda>i. m (unat data_index + i)) lba spc) (\<lambda>v'.
          let data_index' = data_index + 512 * spc in
          bind_r (fat32_fat_entry_type tmp) (\<lambda>t.
          if t = LAST_CLUSTER then
            Inr (nb > cluster_count' * 512 * spc, cluster, data_index', start_cluster, v')
          else if nb \<le> cluster_count' * 512 * spc then
            bind_r (set_fat v' cluster 0xFFFFFFFF) (\<lambda>v''.
            wcc_walk k data nb v'' tmp data_index' cluster_count' start_cluster)
          else wcc_walk k data nb v' tmp data_index' cluster_count' start_cluster))))))"

text \<open>
  The second loop: a new cluster per step until the data is written. Its fuel is \<open>nbytes + 1\<close>:
  every step adds at least one byte to \<open>data_index\<close> unless a cluster has no sectors, in which case
  the loop of the code never ends.
\<close>

fun wcc_extend ::
  "nat \<Rightarrow> (nat \<Rightarrow> u8) option \<Rightarrow> u32 \<Rightarrow> vol \<Rightarrow> u32 \<Rightarrow> u32 \<Rightarrow> u32 \<Rightarrow> (u32 \<times> vol) res" where
  "wcc_extend 0 data nb v cluster data_index start_cluster = Inl Diverges"
| "wcc_extend (Suc k) data nb v cluster data_index start_cluster =
     (let spc = sectors_per_cluster (v_fs v) in
      bind_r (find_free_cluster (v_fs v) 3) (\<lambda>free_cluster.
      bind_r (cluster_to_lba (v_fs v) free_cluster) (\<lambda>lba.
      bind_r (if start_cluster = 0 then Inr (free_cluster, v)
              else bind_r (set_fat v cluster free_cluster) (\<lambda>v'. Inr (start_cluster, v'))) (\<lambda>(start', v').
      bind_r (deref data) (\<lambda>m.
      bind_r (vol_write v' (\<lambda>i. m (unat data_index + i)) lba spc) (\<lambda>v''.
      let data_index' = data_index + 512 * spc in
      if nb \<le> data_index' then
        bind_r (set_fat v'' free_cluster 0xFFFFFFFF) (\<lambda>v3. Inr (start', v3))
      else wcc_extend k data nb v'' free_cluster data_index' start'))))))"

definition write_cluster_chain ::
  "vol \<Rightarrow> u32 \<Rightarrow> (nat \<Rightarrow> u8) option \<Rightarrow> u32 \<Rightarrow> (u32 \<times> vol) res" where
  "write_cluster_chain v start_cluster data nb =
     bind_r (get_cluster_chain_length (v_fs v) start_cluster) (\<lambda>cluster_length.
     bind_r (wcc_walk (Suc (Suc (length (fat (v_fs v))))) data nb v start_cluster 0 0 start_cluster)
       (\<lambda>(need_more, cluster, data_index, start', v').
     if need_more then wcc_extend (Suc (unat nb)) data nb v' cluster data_index start'
     else Inr (start', v')))"

section \<open>Changing directory entries\<close>

text \<open>\<open>count\<close> steps along a chain, as \<open>fat32_write_dirent\<close> and \<open>fat32_write\<close> take them.\<close>

fun follow :: "u32 list \<Rightarrow> nat \<Rightarrow> u32 \<Rightarrow> u32 res" where
  "follow ft 0 cluster = Inr cluster"
| "follow ft (Suc k) cluster = bind_r (arr_get ft (unat cluster)) (\<lambda>next. follow ft k next)"

definition fat32_write_dirent :: "vol \<Rightarrow> fat32_dirent \<Rightarrow> pi_dirent \<Rightarrow> u32 \<Rightarrow> vol res" where
  "fat32_write_dirent v dirent directory idx =
     (let spc = sectors_per_cluster (v_fs v); entries_per_cluster = spc * 16 in
      bind_r (udiv_r idx entries_per_cluster) (\<lambda>cluster_num.
      bind_r (follow (fat (v_fs v)) (unat cluster_num) (cluster_id directory)) (\<lambda>cluster.
      let idx' = idx mod entries_per_cluster in
      bind_r (cluster_to_lba (v_fs v) cluster) (\<lambda>lba.
      bind_r (pi_sec_read (v_sd v) lba spc) (\<lambda>data.
      let data' = put_at data (32 * unat idx') (dirent_bytes dirent) in
      vol_write v (mem_of data') lba spc)))))"

text \<open>
  The slot a new entry goes to and whether the entry after it becomes the end marker. When the loop
  ends without a break, the entry is written behind the buffer.
\<close>

fun free_slot :: "fat32_dirent list \<Rightarrow> nat \<Rightarrow> nat \<Rightarrow> (nat \<times> bool) res" where
  "free_slot [] i n = Inl OutOfBounds"
| "free_slot (d # ds) i n =
     (if filename d ! 0 = 0xE5 then Inr (i, False)
      else if filename d ! 0 = 0 then
        (if i < n - 1 then Inr (i, True) else Inl (Panic ''a whole cluster cannot satisfy your needs???''))
      else free_slot ds (Suc i) n)"

definition fat32_create :: "vol \<Rightarrow> pi_dirent \<Rightarrow> cstr \<Rightarrow> bool \<Rightarrow> (pi_dirent option \<times> vol) res" where
  "fat32_create v directory fname is_dir =
     bind_r (check_init v) (\<lambda>_.
     if \<not> fat32_is_valid_name fname then Inr (None, v)
     else
     bind_r (get_dirents v (cluster_id directory)) (\<lambda>dirents.
     bind_r (find_dirent_with_name dirents fname 0) (\<lambda>dirent_idx.
     case dirent_idx of
       Some i \<Rightarrow> bind_r (dirent_convert (dirents ! i)) (\<lambda>e. Inr (Some e, v))
     | None \<Rightarrow>
     bind_r (free_slot dirents 0 (length dirents)) (\<lambda>(slot, new_end).
     bind_r (fat32_dirent_set_name (dirents ! slot) fname) (\<lambda>named_d.
     bind_r
       (if is_dir then
          bind_r (find_free_cluster (v_fs v) 3) (\<lambda>cluster.
          let d = named_d\<lparr>d_attr := 0x10, file_nbytes := 4096,
                    lo_start := ucast (cluster AND 0xffff),
                    hi_start := ucast (drop_bit 16 cluster AND 0xffff)\<rparr> in
          bind_r (set_fat v cluster 0xFFFFFFFF) (\<lambda>v1.
          bind_r (write_fat_to_disk v1) (\<lambda>v2.
          bind_r (cluster_to_lba (v_fs v2) cluster) (\<lambda>lba.
          bind_r (pi_sec_read (v_sd v2) lba (sectors_per_cluster (v_fs v2))) (\<lambda>data.
          bind_r (vol_write v2 (mem_of (replicate (length data) 0)) lba (sectors_per_cluster (v_fs v2)))
            (\<lambda>v3. Inr (d, v3)))))))
        else Inr (named_d\<lparr>d_attr := 0x20, file_nbytes := 0, lo_start := 0, hi_start := 0\<rparr>, v))
       (\<lambda>(d, v').
     bind_r (fat32_write_dirent v' d directory (of_nat slot)) (\<lambda>v''.
     bind_r (if new_end then
               fat32_write_dirent v''
                 ((dirents ! (slot + 1))\<lparr>filename := (filename (dirents ! (slot + 1)))[0 := 0]\<rparr>)
                 directory (of_nat (slot + 1))
             else Inr v'') (\<lambda>v3.
     bind_r (dirent_convert d) (\<lambda>e. Inr (Some e, v3)))))))))) "

text \<open>The cluster-freeing loop of \<open>fat32_delete\<close>.\<close>

fun free_chain_loop :: "nat \<Rightarrow> vol \<Rightarrow> u32 \<Rightarrow> vol res" where
  "free_chain_loop 0 v cluster = Inl Diverges"
| "free_chain_loop (Suc k) v cluster =
     bind_r (arr_get (fat (v_fs v)) (unat cluster)) (\<lambda>tmp.
     bind_r (set_fat v cluster 0) (\<lambda>v'.
     bind_r (fat32_fat_entry_type tmp) (\<lambda>t.
     if t = LAST_CLUSTER then Inr v' else free_chain_loop k v' tmp)))"

definition fat32_delete :: "vol \<Rightarrow> pi_dirent \<Rightarrow> cstr \<Rightarrow> (bool \<times> vol) res" where
  "fat32_delete v directory fname =
     bind_r (check_init v) (\<lambda>_.
     if \<not> fat32_is_valid_name fname then Inr (False, v)
     else
     bind_r (get_dirents v (cluster_id directory)) (\<lambda>dirents.
     bind_r (find_dirent_with_name dirents fname 0) (\<lambda>dirent_idx.
     case dirent_idx of
       None \<Rightarrow> Inr (False, v)
     | Some i \<Rightarrow>
       let dirent = (dirents ! i)\<lparr>filename := (filename (dirents ! i))[0 := 0xE5]\<rparr>;
           cluster = fat32_cluster_id dirent in
       bind_r (if cluster \<noteq> 0 then free_chain_loop (3 + length (fat (v_fs v))) v cluster else Inr v) (\<lambda>v1.
       bind_r (fat32_write_dirent v1 dirent directory (of_nat i)) (\<lambda>v2.
       bind_r (write_fat_to_disk v2) (\<lambda>v3. Inr (True, v3)))))))"

definition fat32_rename :: "vol \<Rightarrow> pi_dirent \<Rightarrow> cstr \<Rightarrow> cstr \<Rightarrow> (bool \<times> vol) res" where
  "fat32_rename v directory oldname newname =
     bind_r (check_init v) (\<lambda>_.
     if \<not> fat32_is_valid_name newname then Inr (False, v)
     else
     bind_r (get_dirents v (cluster_id directory)) (\<lambda>dirents.
     bind_r (find_dirent_with_name dirents oldname 0) (\<lambda>dirent_idx.
     case dirent_idx of
       None \<Rightarrow> Inr (False, v)
     | Some i \<Rightarrow>
       bind_r (find_dirent_with_name dirents newname 0) (\<lambda>new_dirent_idx.
       bind_r (case new_dirent_idx of
                 Some _ \<Rightarrow> bind_r (fat32_delete v directory newname) (\<lambda>(_, v'). Inr v')
               | None \<Rightarrow> Inr v) (\<lambda>v1.
       bind_r (fat32_dirent_set_name (dirents ! i) newname) (\<lambda>dirent.
       bind_r (fat32_write_dirent v1 dirent directory (of_nat i)) (\<lambda>v2. Inr (True, v2))))))))"

section \<open>Writing a file\<close>

text \<open>The FAT part of the \<open>verify_write\<close> check, \<open>left\<close> clusters before the end of the loop.\<close>

fun verify_fat_loop :: "nat \<Rightarrow> u32 list \<Rightarrow> u32 \<Rightarrow> unit res" where
  "verify_fat_loop 0 ft start_cluster = Inr ()"
| "verify_fat_loop (Suc left) ft start_cluster =
     bind_r (arr_get ft (unat start_cluster)) (\<lambda>tmp.
     bind_r (fat32_fat_entry_type tmp) (\<lambda>t.
     bind_r (demand_r (t \<noteq> FREE_CLUSTER) ''FAT incorrect'') (\<lambda>_.
     bind_r (if left = 0 then demand_r (t = LAST_CLUSTER) ''FAT incorrect'' else Inr ()) (\<lambda>_.
     bind_r (if t = LAST_CLUSTER then demand_r (left = 0) ''FAT incorrect'' else Inr ()) (\<lambda>_.
     verify_fat_loop left ft tmp)))))"

definition verify_write_check :: "vol \<Rightarrow> u32 \<Rightarrow> nat \<Rightarrow> fat32_dirent \<Rightarrow> u32 \<Rightarrow> pi_file \<Rightarrow> unit res" where
  "verify_write_check v lba slot file_dirent start_cluster file =
     (let spc = sectors_per_cluster (v_fs v); msg = ''wrong directory entry contents written'' in
      bind_r (pi_sec_read (v_sd v) lba spc) (\<lambda>sec.
      bind_r (arr_get (dirents_of sec) slot) (\<lambda>addr.
      bind_r (demand_r (access_date addr = access_date file_dirent) msg) (\<lambda>_.
      bind_r (demand_r (d_attr addr = d_attr file_dirent) msg) (\<lambda>_.
      bind_r (demand_r (file_nbytes addr = n_data file) msg) (\<lambda>_.
      bind_r (demand_r (ucast (lo_start addr) = start_cluster AND 0xffff) msg) (\<lambda>_.
      bind_r (demand_r (ucast (hi_start addr) = drop_bit 16 start_cluster AND 0xffff) msg) (\<lambda>_.
      let bytes_per_cluster = spc * 512 in
      bind_r (udiv_r (n_alloc file + bytes_per_cluster - 1) bytes_per_cluster) (\<lambda>file_num_clusters.
      if n_alloc file > 0 then verify_fat_loop (unat file_num_clusters) (fat (v_fs v)) start_cluster
      else demand_r (start_cluster = 0) ''FAT incorrect'')))))))))"

definition fat32_write :: "vol \<Rightarrow> pi_dirent \<Rightarrow> cstr \<Rightarrow> pi_file \<Rightarrow> (bool \<times> vol) res" where
  "fat32_write v directory fname file =
     bind_r (check_init v) (\<lambda>_.
     bind_r (demand_r (is_dir_p directory) ''tried to use a file as a directory!'') (\<lambda>_.
     bind_r (get_dirents v (cluster_id directory)) (\<lambda>dirents.
     bind_r (find_dirent_with_name dirents fname 0) (\<lambda>dirent_idx.
     case dirent_idx of
       None \<Rightarrow> Inr (False, v)
     | Some i \<Rightarrow>
       bind_r (write_cluster_chain v (fat32_cluster_id (dirents ! i)) (f_data file) (n_alloc file))
         (\<lambda>(start_cluster, v1).
       let spc = sectors_per_cluster (v_fs v1); idx = of_nat i :: u32;
           file_dirent = (dirents ! i)\<lparr>lo_start := ucast (start_cluster AND 0xffff),
             hi_start := ucast (drop_bit 16 start_cluster AND 0xffff), file_nbytes := n_data file\<rparr> in
       bind_r (udiv_r idx (16 * spc)) (\<lambda>file_dirent_cluster_num.
       bind_r (follow (fat (v_fs v1)) (unat file_dirent_cluster_num) (cluster_id directory))
         (\<lambda>file_dirent_cluster_id.
       bind_r (cluster_to_lba (v_fs v1) file_dirent_cluster_id) (\<lambda>lba.
       bind_r (pi_sec_read (v_sd v1) lba spc) (\<lambda>sec.
       let slot = unat (idx mod (16 * spc)) in
       bind_r (vol_write v1 (mem_of (put_at sec (32 * slot) (dirent_bytes file_dirent))) lba spc) (\<lambda>v2.
       bind_r (write_fat_to_disk v2) (\<lambda>v3.
       bind_r (verify_write_check v3 lba slot file_dirent start_cluster file) (\<lambda>_.
       Inr (True, v3)))))))))))))"

definition fat32_truncate :: "vol \<Rightarrow> pi_dirent \<Rightarrow> cstr \<Rightarrow> u32 \<Rightarrow> (bool \<times> vol) res" where
  "fat32_truncate v directory fname len =
     bind_r (check_init v) (\<lambda>_.
     bind_r (fat32_stat v directory fname) (\<lambda>st.
     if st = None then Inr (False, v)
     else
     bind_r (fat32_read v directory fname) (\<lambda>file.
     let file' = (if len < n_data file then file\<lparr>n_data := len, n_alloc := len\<rparr>
                  else if len > n_data file then file\<lparr>n_alloc := len\<rparr> else file) in
     bind_r (fat32_delete v directory fname) (\<lambda>(ok1, v1).
     bind_r (assert_r ok1) (\<lambda>_.
     bind_r (fat32_create v1 directory fname False) (\<lambda>(ok2, v2).
     bind_r (assert_r (ok2 \<noteq> None)) (\<lambda>_.
     bind_r (fat32_write v2 directory fname file') (\<lambda>(ok3, v3).
     bind_r (assert_r ok3) (\<lambda>_. Inr (True, v3))))))))))"

definition fat32_flush :: "vol \<Rightarrow> u32 res" where
  "fat32_flush v = bind_r (check_init v) (\<lambda>_. Inr 0)"

declare find_free_loop.simps [simp del]

end
