(* ===== verification/Fat32_Chain.thy ===== *)
theory Fat32_Chain
  imports Fat32
begin

text \<open>
  Cluster chains of the FAT: what a well-formed chain is, that the walking loops of \<open>fat32.c\<close> follow
  it to its end, and that the fuel of the model is exact (a loop that exhausts it never ends).
\<close>

section \<open>Fuel of the chain walk\<close>

definition walks_on :: "u32 list \<Rightarrow> u32 \<Rightarrow> bool" where
  "walks_on ft x \<longleftrightarrow> unat x < length ft \<and>
     (\<exists>t. fat32_fat_entry_type (ft ! unat x) = Inr t \<and> t \<noteq> LAST_CLUSTER)"

definition fat_next :: "u32 list \<Rightarrow> u32 \<Rightarrow> u32" where
  "fat_next ft x = ft ! unat x"

lemma chain_length_diverges_iff:
  "chain_length_loop k ft c n = Inl Diverges \<longleftrightarrow> (\<forall>i<k. walks_on ft ((fat_next ft ^^ i) c))"
proof (induction k arbitrary: c n)
  case (Suc k)
  have shift: "(\<forall>i<Suc k. walks_on ft ((fat_next ft ^^ i) c)) \<longleftrightarrow>
      walks_on ft c \<and> (\<forall>i<k. walks_on ft ((fat_next ft ^^ i) (fat_next ft c)))"
    by (auto simp: less_Suc_eq_0_disj funpow_swap1)
  have never: "fat32_fat_entry_type x \<noteq> Inl Diverges" for x
    by (simp add: fat32_fat_entry_type_def Let_def)
  show ?case
    unfolding shift Suc.IH [symmetric, of "fat_next ft c" "n + 1"]
    using never by (auto simp: walks_on_def fat_next_def res_simps arr_get_def Let_def)
qed simp

lemma orbit_periodic:
  fixes f :: "'a \<Rightarrow> 'a"
  assumes "i < j" "(f ^^ i) x = (f ^^ j) x"
  shows "\<exists>l<j. (f ^^ m) x = (f ^^ l) x"
proof (induction m)
  case 0
  show ?case using assms(1) by (intro exI [of _ 0]) auto
next
  case (Suc m)
  then obtain l where l: "l < j" "(f ^^ m) x = (f ^^ l) x" by blast
  then have "(f ^^ Suc m) x = (f ^^ Suc l) x" by simp
  then show ?case using l(1) assms by (cases "Suc l < j") (auto simp: not_less le_Suc_eq)
qed

lemma walks_on_forever:
  assumes "\<forall>i<Suc (length ft). walks_on ft ((fat_next ft ^^ i) c)"
  shows "walks_on ft ((fat_next ft ^^ m) c)"
proof -
  let ?x = "\<lambda>i. (fat_next ft ^^ i) c"
  have "(\<lambda>i. unat (?x i)) ` {..<Suc (length ft)} \<subseteq> {..<length ft}"
    using assms by (auto simp: walks_on_def)
  then have "card ((\<lambda>i. unat (?x i)) ` {..<Suc (length ft)}) < card {..<Suc (length ft)}"
    using card_mono [of "{..<length ft}"] by (metis card_lessThan finite_lessThan le_imp_less_Suc)
  then have "\<not> inj_on (\<lambda>i. unat (?x i)) {..<Suc (length ft)}" by (rule pigeonhole)
  then obtain i j where ij: "i < j" "j < Suc (length ft)" "unat (?x i) = unat (?x j)"
    by (auto simp: inj_on_def) (metis linorder_neqE_nat)
  then obtain l where "l < j" "?x m = ?x l"
    using orbit_periodic [of i j "fat_next ft" c m] unfolding unat_eq_iff by blast
  with assms ij(2) show ?thesis by simp
qed

lemma chain_length_fuel_enough:
  assumes "chain_length_loop (Suc (length ft)) ft c n = Inl Diverges"
  shows "chain_length_loop k ft c n' = Inl Diverges"
  using assms walks_on_forever [of ft c] by (simp only: chain_length_diverges_iff) blast

text \<open>A read that starts after the length was determined does not run out of fuel.\<close>

lemma cluster_to_lba_terminates [simp]: "cluster_to_lba fs c \<noteq> Inl Diverges"
  by (simp add: cluster_to_lba_def assert_r_def)

lemma pi_sec_read_terminates [simp]: "pi_sec_read d lba n \<noteq> Inl Diverges"
  by (auto simp: pi_sec_read_def pi_sd_read_def sd_readblock_def emmc_read_def demand_r_def assert_r_def)

lemma read_chain_terminates:
  "chain_length_loop k (fat fs) c n = Inr len \<Longrightarrow> read_chain_loop k d fs c \<noteq> Inl Diverges"
proof (induction k arbitrary: c n)
  case (Suc k)
  then show ?case
    by (auto simp: res_simps Let_def split: if_splits)
qed simp

section \<open>Well-formed chains\<close>

fun is_chain :: "u32 list \<Rightarrow> u32 list \<Rightarrow> bool" where
  "is_chain ft [] \<longleftrightarrow> False"
| "is_chain ft [c] \<longleftrightarrow>
     2 \<le> unat c \<and> unat c < length ft \<and> fat32_fat_entry_type (ft ! unat c) = Inr LAST_CLUSTER"
| "is_chain ft (c # d # cs) \<longleftrightarrow>
     2 \<le> unat c \<and> unat c < length ft \<and> ft ! unat c = d \<and> fat32_fat_entry_type d = Inr USED_CLUSTER
       \<and> is_chain ft (d # cs)"

lemma is_chain_bounds: "is_chain ft cs \<Longrightarrow> c \<in> set cs \<Longrightarrow> 2 \<le> unat c \<and> unat c < length ft"
  by (induction ft cs rule: is_chain.induct) auto

lemma is_chain_nonempty: "is_chain ft cs \<Longrightarrow> cs \<noteq> []"
  by auto

lemma is_chain_used:
  "is_chain ft cs \<Longrightarrow> c \<in> set cs \<Longrightarrow> fat32_fat_entry_type (ft ! unat c) \<noteq> Inr FREE_CLUSTER"
  by (induction ft cs rule: is_chain.induct) auto

lemma is_chain_det: "is_chain ft (c # cs) \<Longrightarrow> is_chain ft (c # ds) \<Longrightarrow> cs = ds"
proof (induction cs arbitrary: c ds)
  case Nil
  then show ?case by (cases ds) auto
next
  case (Cons d cs)
  then show ?case by (cases ds) auto
qed

lemma is_chain_suffix: "is_chain ft (xs @ c # cs) \<Longrightarrow> is_chain ft (c # cs)"
proof (induction xs)
  case (Cons x xs)
  then show ?case by (cases xs) auto
qed simp

lemma is_chain_distinct: "is_chain ft cs \<Longrightarrow> distinct cs"
proof (induction cs)
  case (Cons c cs)
  have "c \<notin> set cs"
  proof
    assume "c \<in> set cs"
    then obtain xs ys where cs: "cs = xs @ c # ys" by (auto simp: in_set_conv_decomp)
    then have "is_chain ft (c # ys)" using Cons.prems is_chain_suffix [of ft "c # xs" c ys] by simp
    then have "ys = cs" using Cons.prems is_chain_det by blast
    with cs show False by simp
  qed
  then show ?case using Cons by (cases cs) auto
qed simp

lemma is_chain_length:
  assumes "is_chain ft cs"
  shows "length cs \<le> length ft"
proof -
  have "distinct (map unat cs)"
    using is_chain_distinct [OF assms] by (simp add: distinct_map inj_on_def unat_eq_iff)
  moreover have "set (map unat cs) \<subseteq> {..<length ft}"
    using is_chain_bounds [OF assms] by auto
  ultimately show ?thesis
    using card_mono [of "{..<length ft}" "set (map unat cs)"] distinct_card [of "map unat cs"] by simp
qed

lemma chain_length_is_chain:
  "is_chain ft (c # cs) \<Longrightarrow> length cs < k \<Longrightarrow>
   chain_length_loop k ft c n = Inr (n + of_nat (Suc (length cs)))"
proof (induction cs arbitrary: c k n)
  case Nil
  then show ?case by (cases k) auto
next
  case (Cons d cs)
  then show ?case by (cases k) (auto simp: Let_def add.assoc)
qed

lemma get_cluster_chain_length_ok:
  assumes "is_chain (fat fs) (c # cs)"
  shows "get_cluster_chain_length fs c = Inr (of_nat (Suc (length cs)))"
  using assms is_chain_bounds [OF assms, of c] is_chain_length [OF assms]
    chain_length_is_chain [OF assms, of "Suc (length (fat fs))" 0]
  by (auto simp: get_cluster_chain_length_def)

end
