(* ===== verification/Fat32_Volume.thy ===== *)
theory Fat32_Volume
  imports Fat32_Chain
begin

unbundle bit_operations_syntax

text \<open>
  The geometry of a mounted volume: where clusters and the FAT lie on the card, that they do not
  overlap, and what reading and writing a cluster or the FAT does to the rest of the volume. The FAT has at
  most 65535 sectors, the largest transfer the card's driver accepts, since the code moves it in one.
\<close>

section \<open>Geometry\<close>

definition geom :: "fat32_fs \<Rightarrow> bool" where
  "geom fs \<longleftrightarrow> length (fat fs) = unat (n_entries fs) \<and> 128 dvd unat (n_entries fs)
     \<and> 0 < unat (n_entries fs) \<and> unat (n_entries fs) \<le> 0x7FFF80
     \<and> 0 < unat (sectors_per_cluster fs) \<and> unat (sectors_per_cluster fs) \<le> 128
     \<and> unat (fat_begin_lba fs) + unat (n_entries fs) div 128 \<le> unat (cluster_begin_lba fs)
     \<and> unat (cluster_begin_lba fs) + unat (n_entries fs) * unat (sectors_per_cluster fs) \<le> 4294967296"

definition vol_wf :: "vol \<Rightarrow> bool" where
  "vol_wf v \<longleftrightarrow> v_init_p v \<and> sd_ready (v_sd v) \<and> geom (v_fs v)"

definition spc :: "vol \<Rightarrow> nat" where
  "spc v = unat (sectors_per_cluster (v_fs v))"

definition clus_size :: "vol \<Rightarrow> nat" where
  "clus_size v = 512 * spc v"

definition in_range :: "vol \<Rightarrow> u32 \<Rightarrow> bool" where
  "in_range v c \<longleftrightarrow> 2 \<le> unat c \<and> unat c < length (fat (v_fs v))"

definition lba :: "fat32_fs \<Rightarrow> u32 \<Rightarrow> u32" where
  "lba fs c = cluster_begin_lba fs + (c - 2) * sectors_per_cluster fs"

definition cluster_bytes :: "vol \<Rightarrow> u32 \<Rightarrow> u8 list" where
  "cluster_bytes v c = read_secs (v_sd v) (lba (v_fs v) c) (spc v)"

definition chain_bytes :: "vol \<Rightarrow> u32 list \<Rightarrow> u8 list" where
  "chain_bytes v cs = concat (map (cluster_bytes v) cs)"

definition fat_of :: "vol \<Rightarrow> u32 list" where
  "fat_of v = fat (v_fs v)"

definition put_cluster :: "vol \<Rightarrow> u32 \<Rightarrow> (nat \<Rightarrow> u8) \<Rightarrow> vol" where
  "put_cluster v c m = v\<lparr>v_sd := write_secs (v_sd v) m (lba (v_fs v) c) (spc v)\<rparr>"

definition put_fat :: "vol \<Rightarrow> u32 \<Rightarrow> u32 \<Rightarrow> vol" where
  "put_fat v c x = v\<lparr>v_fs := (v_fs v)\<lparr>fat := (fat (v_fs v))[unat c := x]\<rparr>\<rparr>"

definition sync_fat :: "vol \<Rightarrow> vol" where
  "sync_fat v = v\<lparr>v_sd := write_secs (v_sd v) (mem_of (bytes_of (fat (v_fs v))))
     (fat_begin_lba (v_fs v)) (unat (n_entries (v_fs v)) div 128)\<rparr>"

lemma in_range_chain: "is_chain (fat_of v) cs \<Longrightarrow> c \<in> set cs \<Longrightarrow> in_range v c"
  using is_chain_bounds [of "fat_of v" cs c] by (simp add: in_range_def fat_of_def)

lemma cluster_to_lba_ok: "in_range v c \<Longrightarrow> cluster_to_lba (v_fs v) c = Inr (lba (v_fs v) c)"
  by (simp add: cluster_to_lba_def lba_def in_range_def word_le_nat_alt)

lemma lba_sector:
  assumes "geom (v_fs v)" "in_range v c" "i < spc v"
  shows "unat (lba (v_fs v) c + of_nat i)
    = unat (cluster_begin_lba (v_fs v)) + (unat c - 2) * spc v + i"
proof -
  let ?cb = "cluster_begin_lba (v_fs v)" and ?s = "sectors_per_cluster (v_fs v)"
  have c2: "unat (c - 2) = unat c - 2" using assms(2) by (simp add: in_range_def unat_sub_u32)
  have i: "unat (of_nat i :: u32) = i"
    using assms(1,3) by (intro unat_of_nat_u32) (auto simp: geom_def spc_def)
  have "(unat c - 2) * spc v + spc v \<le> unat (n_entries (v_fs v)) * spc v"
  proof -
    have "Suc (unat c - 2) \<le> unat (n_entries (v_fs v))"
      using assms(1,2) by (auto simp: in_range_def geom_def)
    then have "Suc (unat c - 2) * spc v \<le> unat (n_entries (v_fs v)) * spc v" by (rule mult_le_mono1)
    then show ?thesis by simp
  qed
  moreover have "unat ?cb + unat (n_entries (v_fs v)) * spc v \<le> 4294967296"
    using assms(1) by (simp add: geom_def spc_def)
  ultimately have b: "unat ?cb + (unat c - 2) * spc v + i < 4294967296" using assms(3) by linarith
  have m: "unat ((c - 2) * ?s) = (unat c - 2) * spc v"
    using b c2 by (subst unat_mult_small) (auto simp: spc_def)
  have a: "unat (lba (v_fs v) c) = unat ?cb + (unat c - 2) * spc v"
    unfolding lba_def using b m by (subst unat_add_small) auto
  show ?thesis using a b i by (subst unat_add_small) auto
qed

lemma lba_disjoint:
  assumes "geom (v_fs v)" "in_range v c" "in_range v c'" "c \<noteq> c'" "i < spc v" "j < spc v"
  shows "lba (v_fs v) c' + of_nat i \<noteq> lba (v_fs v) c + of_nat j"
proof
  assume "lba (v_fs v) c' + of_nat i = lba (v_fs v) c + of_nat j"
  then have "unat (lba (v_fs v) c' + of_nat i) = unat (lba (v_fs v) c + of_nat j)" by simp
  then have "(unat c' - 2) * spc v + i = (unat c - 2) * spc v + j"
    using assms by (simp add: lba_sector)
  then have "((unat c' - 2) * spc v + i) div spc v = ((unat c - 2) * spc v + j) div spc v" by simp
  then have "unat c' - 2 = unat c - 2" using assms(5,6) by simp
  then show False using assms(2,3,4) by (auto simp: in_range_def unat_eq_iff)
qed

lemma fat_disjoint:
  assumes "geom (v_fs v)" "in_range v c" "i < spc v" "j < unat (n_entries (v_fs v)) div 128"
  shows "lba (v_fs v) c + of_nat i \<noteq> fat_begin_lba (v_fs v) + of_nat j"
proof
  assume eq: "lba (v_fs v) c + of_nat i = fat_begin_lba (v_fs v) + of_nat j"
  have g: "unat (fat_begin_lba (v_fs v)) + unat (n_entries (v_fs v)) div 128
      \<le> unat (cluster_begin_lba (v_fs v))" using assms(1) by (simp add: geom_def)
  then have b: "unat (fat_begin_lba (v_fs v)) + j < unat (cluster_begin_lba (v_fs v))"
    using assms(4) by linarith
  then have b2: "unat (fat_begin_lba (v_fs v)) + j < 4294967296"
    using unat_u32_less [of "cluster_begin_lba (v_fs v)"] by linarith
  then have "unat (of_nat j :: u32) = j" by (intro unat_of_nat_u32) linarith
  then have "unat (fat_begin_lba (v_fs v) + of_nat j) = unat (fat_begin_lba (v_fs v)) + j"
    using b2 by (subst unat_add_small) auto
  moreover have "unat (lba (v_fs v) c + of_nat i) \<ge> unat (cluster_begin_lba (v_fs v))"
    using assms by (simp add: lba_sector)
  ultimately show False using b eq by simp
qed

section \<open>The FAT as bytes\<close>

lemma length_bytes_of [simp]: "length (bytes_of ws) = 4 * length ws"
  by (induction ws) (simp_all add: bytes_of_def)

lemma bytes_of_nth:
  "i < length ws \<Longrightarrow> j < 4 \<Longrightarrow> bytes_of ws ! (4 * i + j) = le32_bytes (ws ! i) ! j"
proof (induction ws arbitrary: i)
  case (Cons w ws)
  then show ?case by (cases i) (simp_all add: bytes_of_def nth_append)
qed simp

lemma words_of_bytes: "words_of (bytes_of ws) = ws"
proof (rule nth_equalityI)
  fix i assume "i < length (words_of (bytes_of ws))"
  then have i: "i < length ws" by (simp add: words_of_def)
  have "le32_at (bytes_of ws) (4 * i) = ws ! i"
    using bytes_of_nth [OF i, of 0] bytes_of_nth [OF i, of 1] bytes_of_nth [OF i, of 2]
      bytes_of_nth [OF i, of 3] le32_join [of "ws ! i"]
    by (simp add: le32_at_def le32_bytes_def)
  with i show "words_of (bytes_of ws) ! i = ws ! i" by (simp add: words_of_def)
qed (simp add: words_of_def)

section \<open>Single updates\<close>

lemmas put_defs = put_cluster_def put_fat_def sync_fat_def

lemma vol_consts [simp]:
  "v_init_p (put_cluster v c m) = v_init_p v" "v_init_p (put_fat v c x) = v_init_p v"
  "v_init_p (sync_fat v) = v_init_p v"
  "spc (put_cluster v c m) = spc v" "spc (put_fat v c x) = spc v" "spc (sync_fat v) = spc v"
  "fat_of (put_cluster v c m) = fat_of v" "fat_of (sync_fat v) = fat_of v"
  "fat_of (put_fat v c x) = (fat_of v)[unat c := x]"
  "v_fs (put_cluster v c m) = v_fs v" "v_fs (sync_fat v) = v_fs v"
  "v_sd (put_fat v c x) = v_sd v"
  "in_range (put_cluster v c m) = in_range v" "in_range (put_fat v c x) = in_range v"
  "in_range (sync_fat v) = in_range v"
  "lba (v_fs (put_fat v c x)) = lba (v_fs v)"
  "clus_size (put_cluster v c m) = clus_size v" "clus_size (put_fat v c x) = clus_size v"
  "clus_size (sync_fat v) = clus_size v"
  by (auto simp: put_defs spc_def fat_of_def in_range_def lba_def clus_size_def fun_eq_iff)

lemma vol_wf_put [simp]:
  "vol_wf v \<Longrightarrow> vol_wf (put_cluster v c m)"
  "vol_wf v \<Longrightarrow> vol_wf (put_fat v c x)"
  "vol_wf v \<Longrightarrow> vol_wf (sync_fat v)"
  by (auto simp: vol_wf_def put_defs geom_def)

lemma length_cluster_bytes [simp]: "vol_wf v \<Longrightarrow> length (cluster_bytes v c) = clus_size v"
  by (simp add: cluster_bytes_def vol_wf_def clus_size_def)

lemma cluster_bytes_put_fat [simp]: "cluster_bytes (put_fat v c x) = cluster_bytes v"
  by (simp add: cluster_bytes_def fun_eq_iff)

lemma cluster_bytes_put_same:
  "vol_wf v \<Longrightarrow> cluster_bytes (put_cluster v c m) c = map m [0..<clus_size v]"
  unfolding cluster_bytes_def vol_consts clus_size_def
  by (simp add: put_cluster_def read_write_same vol_wf_def geom_def spc_def)

lemma cluster_bytes_put_other:
  "vol_wf v \<Longrightarrow> in_range v c \<Longrightarrow> in_range v c' \<Longrightarrow> c \<noteq> c' \<Longrightarrow>
   cluster_bytes (put_cluster v c m) c' = cluster_bytes v c'"
  unfolding cluster_bytes_def vol_consts
  by (simp add: put_cluster_def read_write_other lba_disjoint vol_wf_def)

lemma cluster_bytes_sync [simp]:
  "vol_wf v \<Longrightarrow> in_range v c \<Longrightarrow> cluster_bytes (sync_fat v) c = cluster_bytes v c"
  unfolding cluster_bytes_def vol_consts
  by (simp add: sync_fat_def read_write_other fat_disjoint vol_wf_def)

lemma chain_bytes_put_fat [simp]: "chain_bytes (put_fat v c x) = chain_bytes v"
  by (simp add: chain_bytes_def fun_eq_iff)

lemma chain_bytes_put_other:
  "vol_wf v \<Longrightarrow> in_range v c \<Longrightarrow> \<forall>c' \<in> set cs. in_range v c' \<Longrightarrow> c \<notin> set cs \<Longrightarrow>
   chain_bytes (put_cluster v c m) cs = chain_bytes v cs"
  unfolding chain_bytes_def
  by (intro arg_cong [where f = concat] map_cong) (auto intro!: cluster_bytes_put_other)

lemma chain_bytes_sync [simp]:
  "vol_wf v \<Longrightarrow> \<forall>c \<in> set cs. in_range v c \<Longrightarrow> chain_bytes (sync_fat v) cs = chain_bytes v cs"
  unfolding chain_bytes_def by (intro arg_cong [where f = concat] map_cong) auto

lemma length_chain_bytes [simp]:
  "vol_wf v \<Longrightarrow> length (chain_bytes v cs) = length cs * clus_size v"
  by (induction cs) (auto simp: chain_bytes_def)

section \<open>The operations of the driver in these terms\<close>

lemma nsec_ok_spc: "vol_wf v \<Longrightarrow> nsec_ok (sectors_per_cluster (v_fs v))"
  by (simp add: nsec_ok_def vol_wf_def geom_def)

lemma nsec_ok_fat:
  assumes "vol_wf v"
  shows "nsec_ok (n_entries (v_fs v) div 128)"
proof -
  have "128 dvd unat (n_entries (v_fs v))" "0 < unat (n_entries (v_fs v))" "unat (n_entries (v_fs v)) \<le> 0x7FFF80"
    using assms by (auto simp: vol_wf_def geom_def)
  then have "128 \<le> unat (n_entries (v_fs v))" by (auto simp: dvd_imp_le)
  then show ?thesis
    using \<open>unat (n_entries (v_fs v)) \<le> 0x7FFF80\<close> by (auto simp: nsec_ok_def unat_div)
qed

lemma vol_write_cluster:
  "vol_wf v \<Longrightarrow> vol_write v m (lba (v_fs v) c) (sectors_per_cluster (v_fs v)) = Inr (put_cluster v c m)"
  using nsec_ok_spc [of v] by (simp add: vol_write_def pi_sd_write_ok vol_wf_def put_cluster_def spc_def)

lemma set_fat_ok: "unat c < length (fat_of v) \<Longrightarrow> set_fat v c x = Inr (put_fat v c x)"
  by (simp add: set_fat_def put_fat_def fat_of_def)

lemma write_fat_to_disk_ok: "vol_wf v \<Longrightarrow> write_fat_to_disk v = Inr (sync_fat v)"
  using nsec_ok_fat [of v] by (simp add: write_fat_to_disk_def vol_write_def pi_sd_write_ok vol_wf_def sync_fat_def unat_div)

lemma sec_read_cluster:
  "vol_wf v \<Longrightarrow> pi_sec_read (v_sd v) (lba (v_fs v) c) (sectors_per_cluster (v_fs v)) = Inr (cluster_bytes v c)"
  using nsec_ok_spc [of v] by (simp add: pi_sec_read_ok vol_wf_def cluster_bytes_def spc_def)

lemma read_chain_loop_ok:
  "vol_wf v \<Longrightarrow> is_chain (fat_of v) (c # cs) \<Longrightarrow> length cs < k \<Longrightarrow>
   read_chain_loop k (v_sd v) (v_fs v) c = Inr (chain_bytes v (c # cs))"
proof (induction cs arbitrary: c k)
  case Nil
  then obtain k' where "k = Suc k'" by (cases k) auto
  moreover have "in_range v c" using Nil.prems in_range_chain [of v "[c]" c] by simp
  ultimately show ?case
    using Nil.prems by (simp add: cluster_to_lba_ok sec_read_cluster chain_bytes_def fat_of_def)
next
  case (Cons d cs)
  then obtain k' where k: "k = Suc k'" by (cases k) auto
  moreover have "in_range v c" using Cons.prems in_range_chain [of v "c # d # cs" c] by simp
  moreover have "read_chain_loop k' (v_sd v) (v_fs v) d = Inr (chain_bytes v (d # cs))"
    using Cons.prems k by (intro Cons.IH) auto
  ultimately show ?case
    using Cons.prems by (simp add: cluster_to_lba_ok sec_read_cluster chain_bytes_def fat_of_def)
qed

lemma read_cluster_chain_ok:
  assumes "vol_wf v" "is_chain (fat_of v) (c # cs)"
  shows "read_cluster_chain v c = Inr (chain_bytes v (c # cs))"
proof -
  have "c \<noteq> 0" using is_chain_bounds [OF assms(2), of c] by auto
  moreover have "length cs < Suc (length (fat (v_fs v)))"
    using is_chain_length [OF assms(2)] by (simp add: fat_of_def)
  ultimately show ?thesis
    using assms by (simp add: read_cluster_chain_def read_chain_loop_ok del: read_chain_loop.simps)
qed

lemma chain_buffer:
  assumes "length cs * clus_size v < 4294967296"
  shows "unat (sectors_per_cluster (v_fs v) * 512 * of_nat (length cs)) = length cs * clus_size v"
proof -
  have "sectors_per_cluster (v_fs v) * 512 * of_nat (length cs) = (of_nat (length cs * clus_size v) :: u32)"
    by (simp add: clus_size_def spc_def)
  with assms show ?thesis by (simp only: unat_of_nat_u32)
qed

lemma into_buffer_ok:
  "vol_wf v \<Longrightarrow> length cs * clus_size v < 4294967296 \<Longrightarrow>
   into_buffer (sectors_per_cluster (v_fs v) * 512 * of_nat (length cs)) (chain_bytes v cs)
     = Inr (chain_bytes v cs)"
  using chain_buffer [of cs v] by (simp add: into_buffer_def)

lemma get_dirents_ok:
  assumes "vol_wf v" "is_chain (fat_of v) cs" "length cs * clus_size v < 4294967296"
  shows "get_dirents v (hd cs) = Inr (dirents_of (chain_bytes v cs))"
proof -
  obtain c cs' where cs: "cs = c # cs'" using assms(2) by (cases cs) auto
  show ?thesis
    using assms cs into_buffer_ok [OF assms(1,3)] read_cluster_chain_ok [of v c cs']
      get_cluster_chain_length_ok [of "v_fs v" c cs']
    by (simp add: get_dirents_def fat_of_def)
qed

end
