(* ===== verification/Fat32_Write.thy ===== *)
theory Fat32_Write
  imports Fat32_Volume
begin

unbundle bit_operations_syntax

text \<open>
  \<open>write_cluster_chain\<close> and \<open>fat32_write\<close>: a file that keeps its number of clusters or grows by one
  holds the new bytes afterwards, and every chain apart from the file's and its directory's is as
  before.
\<close>

section \<open>Overwriting the clusters of a chain\<close>

fun put_clusters :: "vol \<Rightarrow> u32 list \<Rightarrow> (nat \<Rightarrow> u8) \<Rightarrow> nat \<Rightarrow> vol" where
  "put_clusters v [] m off = v"
| "put_clusters v (c # cs) m off =
     put_clusters (put_cluster v c (\<lambda>i. m (off + i))) cs m (off + clus_size v)"

lemma put_clusters_consts [simp]:
  "v_init_p (put_clusters v cs m off) = v_init_p v" "spc (put_clusters v cs m off) = spc v"
  "fat_of (put_clusters v cs m off) = fat_of v" "v_fs (put_clusters v cs m off) = v_fs v"
  "in_range (put_clusters v cs m off) = in_range v" "clus_size (put_clusters v cs m off) = clus_size v"
  by (induction cs arbitrary: v off) auto

lemma vol_wf_put_clusters [simp]: "vol_wf v \<Longrightarrow> vol_wf (put_clusters v cs m off)"
  by (induction cs arbitrary: v off) auto

lemma cluster_bytes_put_clusters_other:
  "vol_wf v \<Longrightarrow> \<forall>c \<in> set cs. in_range v c \<Longrightarrow> in_range v x \<Longrightarrow> x \<notin> set cs \<Longrightarrow>
   cluster_bytes (put_clusters v cs m off) x = cluster_bytes v x"
  by (induction cs arbitrary: v off) (auto simp: cluster_bytes_put_other)

lemma chain_bytes_put_clusters_other:
  "vol_wf v \<Longrightarrow> \<forall>c \<in> set cs. in_range v c \<Longrightarrow> \<forall>x \<in> set xs. in_range v x \<Longrightarrow> set xs \<inter> set cs = {} \<Longrightarrow>
   chain_bytes (put_clusters v cs m off) xs = chain_bytes v xs"
  unfolding chain_bytes_def
  by (intro arg_cong [where f = concat] map_cong) (auto intro!: cluster_bytes_put_clusters_other)

lemma upt_app: "[i..<i + a] @ [i + a..<i + a + b] = [i..<i + (a + b)]"
  using upt_add_eq_append [of i "i + a" b] by (simp add: add.assoc)

lemma map_shift: "map (\<lambda>i. m (off + i)) [0..<n] = map m [off..<off + n]"
  by (rule nth_equalityI) auto

lemma chain_bytes_put_clusters:
  "vol_wf v \<Longrightarrow> distinct cs \<Longrightarrow> \<forall>c \<in> set cs. in_range v c \<Longrightarrow>
   chain_bytes (put_clusters v cs m off) cs = map m [off..<off + length cs * clus_size v]"
proof (induction cs arbitrary: v off)
  case Nil
  then show ?case by (simp add: chain_bytes_def)
next
  case (Cons c cs)
  let ?v = "put_cluster v c (\<lambda>i. m (off + i))"
  have "cluster_bytes (put_clusters ?v cs m (off + clus_size v)) c = cluster_bytes ?v c"
    using Cons.prems by (intro cluster_bytes_put_clusters_other) auto
  also have "\<dots> = map m [off..<off + clus_size v]"
    using Cons.prems(1) by (simp add: cluster_bytes_put_same map_shift)
  finally have "chain_bytes (put_clusters v (c # cs) m off) (c # cs)
      = map m ([off..<off + clus_size v] @ [off + clus_size v..<off + clus_size v + length cs * clus_size v])"
    using Cons.IH [of ?v "off + clus_size v"] Cons.prems by (simp add: chain_bytes_def)
  then show ?case by (simp only: upt_app) simp
qed

text \<open>Sizes in \<open>uint32_t\<close>, as the code computes them, against sizes in bytes.\<close>

lemma u32_eq_of_nat: "unat (x :: u32) = n \<Longrightarrow> x = of_nat n"
  by auto

lemma unat_clusters:
  assumes "unat x * clus_size v < 4294967296"
  shows "unat (x * 512 * sectors_per_cluster (v_fs v)) = unat x * clus_size v"
proof -
  have "x * 512 * sectors_per_cluster (v_fs v) = of_nat (unat x * clus_size v)"
    by (simp add: clus_size_def spc_def mult.assoc)
  with assms show ?thesis by (simp only: unat_of_nat_u32)
qed

lemma unat_next_index:
  assumes "unat x + clus_size v < 4294967296"
  shows "unat (x + 512 * sectors_per_cluster (v_fs v)) = unat x + clus_size v"
proof -
  have "x + 512 * sectors_per_cluster (v_fs v) = of_nat (unat x + clus_size v)"
    by (simp add: clus_size_def spc_def)
  with assms show ?thesis by (simp only: unat_of_nat_u32)
qed

text \<open>The walk of \<open>write_cluster_chain\<close> over a chain that is needed up to its last cluster.\<close>

lemma wcc_walk_step:
  assumes "vol_wf v" "in_range v c" "fat_of v ! unat c = tmp" "fat32_fat_entry_type tmp = Inr t"
    "unat count * clus_size v < unat nb" "(unat count + 1) * clus_size v < 4294967296"
    "unat di = unat count * clus_size v" "t \<noteq> LAST_CLUSTER \<Longrightarrow> (unat count + 1) * clus_size v < unat nb"
  shows "wcc_walk (Suc k) (Some m) nb v c di count start =
    (let v' = put_cluster v c (\<lambda>i. m (unat di + i)); di' = of_nat ((unat count + 1) * clus_size v) in
     if t = LAST_CLUSTER then Inr ((unat count + 1) * clus_size v < unat nb, c, di', start, v')
     else wcc_walk k (Some m) nb v' (fat_of v ! unat c) di' (count + 1) start)"
proof -
  have B: "0 < clus_size v" using assms(1) by (simp add: vol_wf_def geom_def clus_size_def spc_def)
  then have "(unat count + 1) * 1 \<le> (unat count + 1) * clus_size v" by (intro mult_le_mono2) simp
  then have c1: "unat (count + 1) = unat count + 1"
    using assms(6) by (subst unat_add_small) auto
  have "unat (count * 512 * sectors_per_cluster (v_fs v)) = unat count * clus_size v"
    using assms(6) by (intro unat_clusters) auto
  moreover have "unat ((count + 1) * 512 * sectors_per_cluster (v_fs v)) = (unat count + 1) * clus_size v"
    using assms(6) c1 by (subst unat_clusters) auto
  moreover have "di + 512 * sectors_per_cluster (v_fs v) = of_nat ((unat count + 1) * clus_size v)"
    using assms(6,7) by (intro u32_eq_of_nat, subst unat_next_index) auto
  moreover have "c \<noteq> 0" "unat c < length (fat (v_fs v))" using assms(2) by (auto simp: in_range_def)
  ultimately show ?thesis
    using assms B
    by (auto simp: Let_def word_le_nat_alt word_less_nat_alt deref_def cluster_to_lba_ok
        vol_write_cluster fat_of_def)
qed

lemma wcc_walk_ok:
  assumes "vol_wf v" "is_chain (fat_of v) (c # cs)" "length cs < k"
    "(unat count + length cs) * clus_size v < unat nb"
    "(unat count + Suc (length cs)) * clus_size v < 4294967296"
    "unat di = unat count * clus_size v"
  shows "wcc_walk k (Some m) nb v c di count start =
    Inr ((unat count + Suc (length cs)) * clus_size v < unat nb, last (c # cs),
         of_nat ((unat count + Suc (length cs)) * clus_size v), start,
         put_clusters v (c # cs) m (unat di))"
  using assms
proof (induction cs arbitrary: c k v count di)
  case Nil
  then obtain k' where k: "k = Suc k'" by (cases k) auto
  have "in_range v c" using Nil.prems in_range_chain [of v "[c]" c] by simp
  with Nil.prems k show ?case
    using wcc_walk_step [of v c _ LAST_CLUSTER count nb di k' m start] by (simp add: Let_def)
next
  case (Cons d cs)
  then obtain k' where k: "k = Suc k'" by (cases k) auto
  let ?B = "clus_size v" and ?v = "put_cluster v c (\<lambda>i. m (unat di + i))"
  let ?di = "of_nat ((unat count + 1) * ?B) :: u32"
  have r: "in_range v c" using Cons.prems(2) in_range_chain [of v "c # d # cs" c] by simp
  have "0 < ?B" using Cons.prems(1) by (simp add: vol_wf_def geom_def clus_size_def spc_def)
  then have low: "(unat count + 1) * 1 \<le> (unat count + 1) * ?B" by (intro mult_le_mono2) simp
  have mono: "(unat count + 1) * ?B \<le> (unat count + length (d # cs)) * ?B"
    by (intro mult_le_mono1) simp
  have mono2: "(unat count + length (d # cs)) * ?B \<le> (unat count + Suc (length (d # cs))) * ?B"
    by (intro mult_le_mono1) simp
  have high: "(unat count + 1) * ?B < 4294967296"
    by (rule le_less_trans [OF order_trans [OF mono mono2] Cons.prems(5)])
  have c1: "unat (count + 1) = unat count + 1"
    using le_less_trans [OF low high] by (subst unat_add_small) auto
  have di: "unat ?di = (unat count + 1) * ?B"
    using high by (rule unat_of_nat_u32)
  have "wcc_walk k' (Some m) nb ?v d ?di (count + 1) start =
    Inr ((unat (count + 1) + Suc (length cs)) * clus_size ?v < unat nb, last (d # cs),
         of_nat ((unat (count + 1) + Suc (length cs)) * clus_size ?v), start,
         put_clusters ?v (d # cs) m (unat ?di))"
    using Cons.prems k c1 di by (intro Cons.IH) auto
  moreover have "wcc_walk k (Some m) nb v c di count start
      = wcc_walk k' (Some m) nb ?v d ?di (count + 1) start"
    using Cons.prems k r high le_less_trans [OF mono Cons.prems(4)]
    by (subst k, subst wcc_walk_step [where tmp = d and t = USED_CLUSTER]) (auto simp: Let_def)
  moreover have "unat di + ?B = (unat count + 1) * ?B" using Cons.prems(6) by simp
  ultimately show ?case
    unfolding di c1 by (simp add: add.commute [of "unat count * clus_size v" "clus_size v"])
qed

lemma write_chain_same:
  assumes "vol_wf v" "is_chain (fat_of v) (c # cs)"
    "length cs * clus_size v < unat nb" "unat nb \<le> Suc (length cs) * clus_size v"
    "Suc (length cs) * clus_size v < 4294967296"
  shows "write_cluster_chain v c (Some m) nb = Inr (c, put_clusters v (c # cs) m 0)"
proof -
  have "length cs < Suc (Suc (length (fat (v_fs v))))"
    using is_chain_length [OF assms(2)] by (simp add: fat_of_def)
  then show ?thesis
    using assms wcc_walk_ok [of v c cs _ 0 nb 0 m c]
    by (simp add: write_cluster_chain_def get_cluster_chain_length_ok fat_of_def del: wcc_walk.simps)
qed

section \<open>Growing by a cluster\<close>

definition free_from :: "fat32_fs \<Rightarrow> u32 \<Rightarrow> u32 \<Rightarrow> bool" where
  "free_from fs s c \<longleftrightarrow>
     max 3 s \<le> c \<and> c < n_entries fs \<and> fat32_fat_entry_type (fat fs ! unat c) = Inr FREE_CLUSTER"

lemma find_free_loop_Inr:
  "find_free_loop ft n c = Inr f \<Longrightarrow>
   c \<le> f \<and> f < n \<and> unat f < length ft \<and> fat32_fat_entry_type (ft ! unat f) = Inr FREE_CLUSTER
     \<and> (\<forall>x. c \<le> x \<and> x < f \<longrightarrow> fat32_fat_entry_type (ft ! unat x) \<noteq> Inr FREE_CLUSTER)"
proof (induction ft n c rule: find_free_loop.induct)
  case (1 ft n c)
  then have cn: "c < n" and len: "unat c < length ft"
    by (auto simp: find_free_loop.simps [of ft n c] res_simps split: if_splits)
  then obtain t where t: "fat32_fat_entry_type (ft ! unat c) = Inr t"
    using 1(2) by (auto simp: find_free_loop.simps [of ft n c] res_simps)
  show ?case
  proof (cases "t = FREE_CLUSTER")
    case True
    then show ?thesis using 1(2) cn len t by (auto simp: find_free_loop.simps [of ft n c])
  next
    case False
    then have "find_free_loop ft n (c + 1) = Inr f"
      using 1(2) cn len t by (simp add: find_free_loop.simps [of ft n c])
    with 1(1) [OF cn _ t False] len have IH: "c + 1 \<le> f" "f < n" "unat f < length ft"
      "fat32_fat_entry_type (ft ! unat f) = Inr FREE_CLUSTER"
      "\<forall>x. c + 1 \<le> x \<and> x < f \<longrightarrow> fat32_fat_entry_type (ft ! unat x) \<noteq> Inr FREE_CLUSTER" by auto
    have c1: "unat (c + 1) = unat c + 1" using cn by (rule unat_plus_one)
    have "fat32_fat_entry_type (ft ! unat x) \<noteq> Inr FREE_CLUSTER" if x: "c \<le> x" "x < f" for x
    proof (cases "c = x")
      case False
      then have "c + 1 \<le> x" using c1 x(1) by (auto simp: word_le_nat_alt unat_eq_iff)
      with IH(5) x(2) show ?thesis by blast
    qed (use t \<open>t \<noteq> FREE_CLUSTER\<close> in auto)
    moreover have "c \<le> f" using IH(1) c1 by (simp add: word_le_nat_alt)
    ultimately show ?thesis using IH by blast
  qed
qed

lemma find_free_loop_exists:
  assumes "\<forall>e \<in> set ft. \<exists>t. fat32_fat_entry_type e = Inr t" "unat n \<le> length ft"
    "c \<le> g" "g < n" "fat32_fat_entry_type (ft ! unat g) = Inr FREE_CLUSTER"
  shows "\<exists>f. find_free_loop ft n c = Inr f"
  using assms
proof (induction ft n c rule: find_free_loop.induct)
  case (1 ft n c)
  have cn: "c < n" using 1(4,5) by simp
  then have len: "unat c < length ft" using 1(3) by (simp add: word_less_nat_alt)
  then obtain t where t: "fat32_fat_entry_type (ft ! unat c) = Inr t" using 1(2) nth_mem by blast
  show ?case
  proof (cases "t = FREE_CLUSTER")
    case True
    then show ?thesis using cn len t by (simp add: find_free_loop.simps [of ft n c])
  next
    case False
    then have "c \<noteq> g" using 1(6) t by auto
    then have "c + 1 \<le> g"
      using 1(4) unat_plus_one [OF cn] by (auto simp: word_le_nat_alt unat_eq_iff)
    then have "\<exists>f. find_free_loop ft n (c + 1) = Inr f"
      using 1(1) [OF cn arr_get_in [OF len] t False] 1(2,3,5,6) by blast
    then show ?thesis using cn len t False by (simp add: find_free_loop.simps [of ft n c])
  qed
qed

lemma find_free_loop_Inl:
  "find_free_loop ft n c = Inl e \<Longrightarrow> \<forall>x \<in> set ft. \<exists>t. fat32_fat_entry_type x = Inr t \<Longrightarrow> unat n \<le> length ft \<Longrightarrow>
   e = Panic ''No more clusters on the disk!''"
proof (induction ft n c rule: find_free_loop.induct)
  case (1 ft n c)
  show ?case
  proof (cases "c < n")
    case True
    then have len: "unat c < length ft" using 1(4) by (simp add: word_less_nat_alt)
    then obtain t where t: "fat32_fat_entry_type (ft ! unat c) = Inr t" using 1(3) nth_mem by blast
    show ?thesis
    proof (cases "t = FREE_CLUSTER")
      case True
      then show ?thesis using 1(2) \<open>c < n\<close> len t by (simp add: find_free_loop.simps [of ft n c])
    next
      case False
      then have "find_free_loop ft n (c + 1) = Inl e"
        using 1(2) \<open>c < n\<close> len t by (simp add: find_free_loop.simps [of ft n c])
      with 1(1) [OF True arr_get_in [OF len] t False] 1(3,4) show ?thesis by blast
    qed
  next
    case False
    then show ?thesis using 1(2) by (simp add: find_free_loop.simps [of ft n c])
  qed
qed

lemma find_free_cluster_Inr:
  assumes "find_free_cluster fs 3 = Inr f"
  shows "3 \<le> unat f" "f < n_entries fs" "unat f < length (fat fs)"
    "fat32_fat_entry_type (fat fs ! unat f) = Inr FREE_CLUSTER"
  using find_free_loop_Inr [of "fat fs" "n_entries fs" 3 f] assms
  by (auto simp: find_free_cluster_def word_le_nat_alt)

definition grow_fat :: "u32 list \<Rightarrow> u32 list \<Rightarrow> u32 \<Rightarrow> u32 list" where
  "grow_fat ft cs f = (if cs = [] then ft else ft[unat (last cs) := f])[unat f := 0xFFFFFFFF]"

text \<open>The volume after a chain got the new last cluster \<open>f\<close> with data from offset \<open>off\<close>.\<close>

definition put_new :: "vol \<Rightarrow> u32 list \<Rightarrow> u32 \<Rightarrow> (nat \<Rightarrow> u8) \<Rightarrow> nat \<Rightarrow> vol" where
  "put_new v cs f m off =
     put_fat (put_cluster (if cs = [] then v else put_fat v (last cs) f) f (\<lambda>i. m (off + i))) f 0xFFFFFFFF"

lemma put_new_consts [simp]:
  "v_init_p (put_new v cs f m off) = v_init_p v" "spc (put_new v cs f m off) = spc v"
  "fat_of (put_new v cs f m off) = grow_fat (fat_of v) cs f"
  "in_range (put_new v cs f m off) = in_range v" "clus_size (put_new v cs f m off) = clus_size v"
  by (auto simp: put_new_def grow_fat_def)

lemma vol_wf_put_new [simp]: "vol_wf v \<Longrightarrow> vol_wf (put_new v cs f m off)"
  by (simp add: put_new_def)

lemma chain_bytes_put_new_other:
  "vol_wf v \<Longrightarrow> in_range v f \<Longrightarrow> \<forall>x \<in> set xs. in_range v x \<Longrightarrow> f \<notin> set xs \<Longrightarrow>
   chain_bytes (put_new v cs f m off) xs = chain_bytes v xs"
  by (simp add: put_new_def chain_bytes_put_other)

lemma cluster_bytes_put_new:
  "vol_wf v \<Longrightarrow> cluster_bytes (put_new v cs f m off) f = map m [off..<off + clus_size v]"
  by (simp add: put_new_def cluster_bytes_put_same map_shift)

lemma is_chain_update_other: "unat c \<notin> unat ` set cs \<Longrightarrow> is_chain (ft[unat c := x]) cs = is_chain ft cs"
  by (induction ft cs rule: is_chain.induct) auto

lemma is_chain_update_notin: "c \<notin> set cs \<Longrightarrow> is_chain (ft[unat c := x]) cs = is_chain ft cs"
  by (rule is_chain_update_other) (auto simp: unat_eq_iff [symmetric])

lemma is_chain_snoc:
  assumes "is_chain ft cs" "f \<notin> set cs" "2 \<le> unat f" "unat f < length ft" "unat f \<le> 0xFFFFFEF"
  shows "is_chain (ft[unat (last cs) := f, unat f := 0xFFFFFFFF]) (cs @ [f])"
  using assms
proof (induction ft cs rule: is_chain.induct)
  case (2 ft c)
  then show ?case by (auto simp: entry_type_small unat_eq_iff nth_list_update)
next
  case (3 ft c d cs)
  then have "c \<notin> set (d # cs)" using is_chain_distinct [OF 3(2)] by auto
  then have "unat (last (d # cs)) \<noteq> unat c" by (auto simp: unat_eq_iff [symmetric])
  with 3 show ?case by (auto simp: nth_list_update unat_eq_iff)
qed simp

lemma is_chain_grow:
  assumes "is_chain ft cs \<or> cs = []" "f \<notin> set cs" "2 \<le> unat f" "unat f < length ft" "unat f \<le> 0xFFFFFEF"
  shows "is_chain (grow_fat ft cs f) (cs @ [f])"
  using assms is_chain_snoc [of ft cs f] by (auto simp: grow_fat_def)

lemma is_chain_grow_other:
  assumes "is_chain ft xs" "f \<notin> set xs" "set xs \<inter> set cs = {}"
  shows "is_chain (grow_fat ft cs f) xs"
proof -
  have "cs \<noteq> [] \<Longrightarrow> last cs \<notin> set xs" using assms(3) last_in_set by fastforce
  with assms show ?thesis by (auto simp: grow_fat_def is_chain_update_notin)
qed

lemma wcc_extend_one:
  assumes "vol_wf v" "find_free_cluster (v_fs v) 3 = Inr f"
    "unat nb \<le> unat di + clus_size v" "unat di + clus_size v < 4294967296"
    "start = 0 \<longleftrightarrow> cs = []" "cs \<noteq> [] \<Longrightarrow> c = last cs \<and> in_range v c"
  shows "wcc_extend (Suc k) (Some m) nb v c di start =
    Inr (if cs = [] then f else start, put_new v cs f m (unat di))"
proof -
  note ff = find_free_cluster_Inr [OF assms(2)]
  have r: "in_range v f" using ff by (simp add: in_range_def)
  have sp: "sectors_per_cluster (v_fs (put_fat v c x)) = sectors_per_cluster (v_fs v)" for x
    by (simp add: put_fat_def)
  have w: "vol_write (put_fat v c x) n (lba (v_fs v) f) (sectors_per_cluster (v_fs v))
      = Inr (put_cluster (put_fat v c x) f n)" for x n
    using vol_write_cluster [of "put_fat v c x" n f] assms(1) sp by simp
  have "unat c < length (fat_of v)" if "cs \<noteq> []"
    using assms(6) [OF that] by (auto simp: in_range_def fat_of_def)
  moreover have "unat f < length (fat_of v)" using ff by (simp add: fat_of_def)
  moreover have "nb \<le> di + 512 * sectors_per_cluster (v_fs v)"
    using assms(3,4) by (simp add: word_le_nat_alt unat_next_index)
  ultimately show ?thesis
    using assms r w
    by (auto simp: Let_def deref_def cluster_to_lba_ok vol_write_cluster set_fat_ok put_new_def)
qed

text \<open>What a successful write of a chain leaves behind, and what it keeps of all other chains.\<close>

definition others_kept :: "vol \<Rightarrow> u32 list \<Rightarrow> vol \<Rightarrow> u32 list \<Rightarrow> bool" where
  "others_kept v cs v' cs' \<longleftrightarrow>
     (\<forall>xs. is_chain (fat_of v) xs \<and> set xs \<inter> set cs = {} \<longrightarrow>
        is_chain (fat_of v') xs \<and> set xs \<inter> set cs' = {} \<and> chain_bytes v' xs = chain_bytes v xs)"

definition chain_written :: "vol \<Rightarrow> u32 list \<Rightarrow> vol \<Rightarrow> u32 list \<Rightarrow> (nat \<Rightarrow> u8) \<Rightarrow> bool" where
  "chain_written v cs v' cs' m \<longleftrightarrow>
     vol_wf v' \<and> v_fs v' = (v_fs v)\<lparr>fat := fat_of v'\<rparr> \<and> is_chain (fat_of v') cs'
     \<and> chain_bytes v' cs' = map m [0..<length cs' * clus_size v] \<and> others_kept v cs v' cs'"

text \<open>The chain a directory entry refers to: none for start cluster 0.\<close>

definition file_chain :: "u32 list \<Rightarrow> u32 \<Rightarrow> u32 list \<Rightarrow> bool" where
  "file_chain ft c cs \<longleftrightarrow> (if cs = [] then c = 0 else is_chain ft cs \<and> c = hd cs)"

definition clusters_for :: "nat \<Rightarrow> vol \<Rightarrow> nat" where
  "clusters_for n v = (n + clus_size v - 1) div clus_size v"

lemma clus_size_pos: "vol_wf v \<Longrightarrow> 0 < clus_size v"
  by (simp add: vol_wf_def geom_def clus_size_def spc_def)

lemma clusters_for_iff:
  assumes "vol_wf v" "0 < n"
  shows "clusters_for n v = Suc k \<longleftrightarrow> k * clus_size v < n \<and> n \<le> Suc k * clus_size v"
proof -
  let ?B = "clus_size v"
  have B: "0 < ?B" using assms(1) by (rule clus_size_pos)
  have "(n + ?B - 1) div ?B = Suc ((n - 1) div ?B)"
    using B assms(2) div_add_self2 [of ?B "n - 1"] by simp
  moreover have "(n - 1) div ?B = k \<longleftrightarrow> k * ?B \<le> n - 1 \<and> n - 1 < Suc k * ?B"
    using B by (metis div_nat_eqI div_times_less_eq_dividend dividend_less_div_times mult.commute mult_Suc)
  moreover have "k * ?B \<le> n - 1 \<longleftrightarrow> k * ?B < n" "n - 1 < Suc k * ?B \<longleftrightarrow> n \<le> Suc k * ?B"
    using assms(2) by linarith+
  ultimately show ?thesis by (simp only: clusters_for_def nat.inject)
qed

lemma chain_bytes_snoc: "chain_bytes v (cs @ [f]) = chain_bytes v cs @ cluster_bytes v f"
  by (simp add: chain_bytes_def)

lemma chain_written_same:
  assumes "vol_wf v" "is_chain (fat_of v) cs"
  shows "chain_written v cs (put_clusters v cs m 0) cs m"
proof -
  have r: "\<forall>c \<in> set cs. in_range v c" using in_range_chain [OF assms(2)] by blast
  have "chain_bytes (put_clusters v cs m 0) xs = chain_bytes v xs"
    if "is_chain (fat_of v) xs" "set xs \<inter> set cs = {}" for xs
    using that in_range_chain [OF that(1)] r assms(1) by (intro chain_bytes_put_clusters_other) auto
  then have "others_kept v cs (put_clusters v cs m 0) cs" by (auto simp: others_kept_def)
  then show ?thesis
    using assms r chain_bytes_put_clusters [of v cs m 0] is_chain_distinct [OF assms(2)]
    by (simp add: chain_written_def) (simp add: fat_of_def)
qed

lemma put_new_v_fs: "v_fs (put_new v cs f m off) = (v_fs v)\<lparr>fat := grow_fat (fat_of v) cs f\<rparr>"
  by (simp add: put_new_def grow_fat_def put_fat_def put_cluster_def fat_of_def)

lemma free_not_in_chain:
  "fat32_fat_entry_type (ft ! unat f) = Inr FREE_CLUSTER \<Longrightarrow> is_chain ft xs \<Longrightarrow> f \<notin> set xs"
  using is_chain_used by blast

lemma chain_written_grow:
  assumes v: "vol_wf v" and cs: "is_chain (fat_of v) cs \<or> cs = []"
    and f: "find_free_cluster (v_fs v) 3 = Inr f"
  shows "chain_written v cs (put_new (put_clusters v cs m 0) cs f m (length cs * clus_size v)) (cs @ [f]) m"
    (is "chain_written v cs ?v' _ m")
proof -
  note ff = find_free_cluster_Inr [OF f, folded fat_of_def]
  have r: "\<forall>c \<in> set cs. in_range v c" using in_range_chain [of v cs] cs by auto
  have fr: "in_range v f" using ff by (simp add: in_range_def fat_of_def)
  have fcs: "f \<notin> set cs" using cs free_not_in_chain [OF ff(4)] by auto
  have fsmall: "unat f \<le> 0xFFFFFEF"
    using v ff(2) by (auto simp: vol_wf_def geom_def word_less_nat_alt)
  let ?w = "put_clusters v cs m 0"
  have "others_kept v cs ?v' (cs @ [f])"
    unfolding others_kept_def
  proof (intro allI impI)
    fix xs assume xs: "is_chain (fat_of v) xs \<and> set xs \<inter> set cs = {}"
    then have "f \<notin> set xs" using free_not_in_chain [OF ff(4)] by blast
    moreover have rx: "\<forall>x \<in> set xs. in_range v x" using in_range_chain xs by blast
    ultimately have "chain_bytes ?v' xs = chain_bytes ?w xs"
      using v fr by (intro chain_bytes_put_new_other) auto
    also have "\<dots> = chain_bytes v xs"
      using v r rx xs by (intro chain_bytes_put_clusters_other) auto
    finally show "is_chain (fat_of ?v') xs \<and> set xs \<inter> set (cs @ [f]) = {}
        \<and> chain_bytes ?v' xs = chain_bytes v xs"
      using xs \<open>f \<notin> set xs\<close> is_chain_grow_other [of "fat_of v" xs f cs] by auto
  qed
  moreover have "is_chain (fat_of ?v') (cs @ [f])"
    using is_chain_grow [of "fat_of v" cs f] cs fcs ff fsmall by simp
  moreover have "chain_bytes ?v' cs = map m [0..<length cs * clus_size v]"
    using v fr r fcs cs chain_bytes_put_clusters [of v cs m 0] is_chain_distinct [of "fat_of v" cs]
    by (auto simp: chain_bytes_put_new_other)
  then have "chain_bytes ?v' (cs @ [f]) = map m [0..<length (cs @ [f]) * clus_size v]"
    using v cluster_bytes_put_new [of ?w cs f m "length cs * clus_size v"]
      upt_app [of 0 "length cs * clus_size v" "clus_size v"]
    by (simp add: chain_bytes_snoc add.commute flip: map_append)
  ultimately show ?thesis
    using v by (simp add: chain_written_def put_new_v_fs)
qed

definition write_fits :: "vol \<Rightarrow> u32 list \<Rightarrow> nat \<Rightarrow> bool" where
  "write_fits v cs n \<longleftrightarrow> 0 < n \<and> Suc (length cs) * clus_size v < 4294967296 \<and>
     n + clus_size v < 4294967296 \<and>
     (clusters_for n v = length cs \<or>
      clusters_for n v = Suc (length cs) \<and> (\<exists>f. find_free_cluster (v_fs v) 3 = Inr f))"

lemma find_free_put_clusters: "find_free_cluster (v_fs (put_clusters v cs m off)) = find_free_cluster (v_fs v)"
  by simp

lemma write_chain_grow:
  assumes v: "vol_wf v" and cs: "file_chain (fat_of v) c cs"
    and n: "length cs * clus_size v < unat nb" "unat nb \<le> Suc (length cs) * clus_size v"
    and b: "Suc (length cs) * clus_size v < 4294967296"
    and f: "find_free_cluster (v_fs v) 3 = Inr f"
  shows "write_cluster_chain v c (Some m) nb =
    Inr (hd (cs @ [f]), put_new (put_clusters v cs m 0) cs f m (length cs * clus_size v))"
proof -
  let ?w = "put_clusters v cs m 0" and ?di = "of_nat (length cs * clus_size v) :: u32"
  have di: "unat ?di = length cs * clus_size v" using b by (intro unat_of_nat_u32) simp
  have walk: "wcc_walk (Suc (Suc (length (fat (v_fs v))))) (Some m) nb v c 0 0 c =
      Inr (True, last (c # tl cs), ?di, c, ?w)"
  proof (cases "cs = []")
    case True
    then show ?thesis using cs n(1) by (simp add: file_chain_def word_less_nat_alt)
  next
    case False
    then obtain ds where ds: "cs = c # ds" "is_chain (fat_of v) (c # ds)"
      using cs by (cases cs) (auto simp: file_chain_def)
    then have "length ds < Suc (Suc (length (fat (v_fs v))))"
      using is_chain_length [OF ds(2)] by (simp add: fat_of_def)
    moreover have "length ds * clus_size v \<le> length cs * clus_size v" using ds(1) by simp
    ultimately show ?thesis
      using wcc_walk_ok [of v c ds _ 0 nb 0 m c] v ds n b by (simp del: wcc_walk.simps)
  qed
  have ext: "wcc_extend (Suc (unat nb)) (Some m) nb ?w (last (c # tl cs)) ?di c =
      Inr (if cs = [] then f else c, put_new ?w cs f m (unat ?di))"
  proof (rule wcc_extend_one)
    show "c = 0 \<longleftrightarrow> cs = []" using cs is_chain_bounds [of "fat_of v" cs c]
      by (cases cs) (auto simp: file_chain_def)
    show "last (c # tl cs) = last cs \<and> in_range ?w (last (c # tl cs))" if "cs \<noteq> []"
      using that cs in_range_chain [of v cs "last cs"] by (cases cs) (auto simp: file_chain_def)
  qed (use v f n b di in simp_all)
  have len: "get_cluster_chain_length (v_fs v) c = Inr (of_nat (length cs))"
    using cs get_cluster_chain_length_ok [of "v_fs v" c "tl cs"]
    by (cases cs) (auto simp: file_chain_def fat_of_def get_cluster_chain_length_def)
  have "(if cs = [] then f else c) = hd (cs @ [f])" using cs by (simp add: file_chain_def)
  then show ?thesis
    by (simp only: write_cluster_chain_def len walk ext bind_r_Inr prod.case if_True di)
qed

lemma write_chain_ok:
  assumes v: "vol_wf v" and cs: "file_chain (fat_of v) c cs" and fits: "write_fits v cs (unat nb)"
  obtains cs' v' where "write_cluster_chain v c (Some m) nb = Inr (hd cs', v')"
    "chain_written v cs v' cs' m" "length cs' = clusters_for (unat nb) v"
proof (cases "clusters_for (unat nb) v = length cs")
  case True
  have pos: "0 < unat nb" using fits by (simp add: write_fits_def)
  then have "clusters_for (unat nb) v \<noteq> 0"
    using clus_size_pos [OF v] by (simp add: clusters_for_def div_eq_0_iff)
  then obtain d ds where ds: "cs = d # ds" using True by (cases cs) auto
  then have n: "length ds * clus_size v < unat nb" "unat nb \<le> Suc (length ds) * clus_size v"
    using clusters_for_iff [OF v pos, of "length ds"] True by simp_all
  have b: "Suc (length ds) * clus_size v < 4294967296" using fits ds by (simp add: write_fits_def)
  have c: "c = d" "is_chain (fat_of v) cs" using cs ds by (auto simp: file_chain_def)
  have "write_cluster_chain v c (Some m) nb = Inr (hd cs, put_clusters v cs m 0)"
    using write_chain_same [OF v _ n b, where m = m] c ds by simp
  then show ?thesis using that chain_written_same [OF v c(2)] True [symmetric] by blast
next
  case False
  have pos: "0 < unat nb" using fits by (simp add: write_fits_def)
  from False fits obtain f where f: "find_free_cluster (v_fs v) 3 = Inr f"
    "clusters_for (unat nb) v = Suc (length cs)" by (auto simp: write_fits_def)
  then have n: "length cs * clus_size v < unat nb" "unat nb \<le> Suc (length cs) * clus_size v"
    using clusters_for_iff [OF v pos, of "length cs"] by simp_all
  have b: "Suc (length cs) * clus_size v < 4294967296" using fits by (simp add: write_fits_def)
  have "is_chain (fat_of v) cs \<or> cs = []" using cs by (auto simp: file_chain_def split: if_splits)
  from chain_written_grow [OF v this f(1)] write_chain_grow [OF v cs n b f(1)] show ?thesis
    using that f(2) by simp
qed

text \<open>
  Two new clusters for an empty file: the free cluster is not marked before the second search, which
  therefore finds it again.
\<close>

lemma write_two_new:
  assumes v: "vol_wf v" and g: "find_free_cluster (v_fs v) 3 = Inr g" and n: "0 < unat nb"
    and two: "clusters_for (unat nb) v = 2" and b: "unat nb + clus_size v < 4294967296"
  obtains v1 where "write_cluster_chain v 0 (Some m) nb = Inr (g, v1)" "vol_wf v1"
    "sectors_per_cluster (v_fs v1) = sectors_per_cluster (v_fs v)"
    "fat_of v1 = (fat_of v)[unat g := 0xFFFFFFFF]"
proof -
  let ?B = "clus_size v" and ?w = "put_cluster v g (\<lambda>i. m (0 + i))"
  note gf = find_free_cluster_Inr [OF g, folded fat_of_def]
  have r: "in_range v g" using gf by (simp add: in_range_def fat_of_def)
  have g0: "g \<noteq> 0" using gf(1) by auto
  have nb: "?B < unat nb" "unat nb \<le> 2 * ?B"
    using clusters_for_iff [OF v n, of 1] two by (simp_all add: numeral_2_eq_2)
  have di: "unat (512 * sectors_per_cluster (v_fs v)) = ?B"
    using unat_next_index [of 0 v] b by simp
  obtain k where k: "unat nb = Suc k" using n by (cases "unat nb") auto
  have "wcc_extend (Suc (unat nb)) (Some m) nb v 0 0 0
      = wcc_extend (Suc k) (Some m) nb ?w g (512 * sectors_per_cluster (v_fs v)) g"
    unfolding k using g r nb di v
    by (subst wcc_extend.simps(2))
      (simp add: Let_def deref_def cluster_to_lba_ok vol_write_cluster word_le_nat_alt del: wcc_extend.simps)
  also have "\<dots> = Inr (g, put_new ?w [g] g m ?B)"
    using wcc_extend_one [of ?w g nb "512 * sectors_per_cluster (v_fs v)" g "[g]" g k m] v g g0 r nb b di
    by (simp del: wcc_extend.simps)
  finally have "write_cluster_chain v 0 (Some m) nb = Inr (g, put_new ?w [g] g m ?B)"
    using n by (simp add: write_cluster_chain_def get_cluster_chain_length_def word_less_nat_alt del: wcc_extend.simps)
  then show ?thesis
    using v that by (simp add: put_new_v_fs grow_fat_def)
qed

section \<open>Shrinking\<close>

definition free_all :: "vol \<Rightarrow> u32 list \<Rightarrow> vol" where
  "free_all v cs = foldl (\<lambda>v c. put_fat v c 0) v cs"

lemma free_all_simps [simp]: "free_all v [] = v" "free_all v (c # cs) = free_all (put_fat v c 0) cs"
  by (simp_all add: free_all_def)

lemma free_all_consts [simp]:
  "vol_wf v \<Longrightarrow> vol_wf (free_all v cs)" "chain_bytes (free_all v cs) = chain_bytes v" "clus_size (free_all v cs) = clus_size v"
  "sectors_per_cluster (v_fs (free_all v cs)) = sectors_per_cluster (v_fs v)"
  by (induction cs arbitrary: v) (simp_all add: put_fat_def [of _ _ 0, THEN arg_cong, of "\<lambda>v. sectors_per_cluster (v_fs v)"])

lemma fat_free_all_other: "unat x \<notin> unat ` set cs \<Longrightarrow> fat_of (free_all v cs) ! unat x = fat_of v ! unat x"
  by (induction cs arbitrary: v) auto

lemma length_free_all [simp]: "length (fat_of (free_all v cs)) = length (fat_of v)"
  by (induction cs arbitrary: v) simp_all

lemma is_chain_free_all: "set xs \<inter> set cs = {} \<Longrightarrow> is_chain (fat_of (free_all v cs)) xs = is_chain (fat_of v) xs"
  by (induction cs arbitrary: v) (auto simp: is_chain_update_notin)

lemma count_below:
  assumes "0 < B" "(unat (count :: u32) + Suc n) * B < 4294967296"
  shows "unat (count + 1) = unat count + 1" "unat count * B < 4294967296" "(unat count + 1) * B < 4294967296"
proof -
  have "(unat count + Suc n) * 1 \<le> (unat count + Suc n) * B" using assms(1) by (intro mult_le_mono2) simp
  then show "unat (count + 1) = unat count + 1" using assms(2) by (subst unat_add_small) auto
  have "unat count * B \<le> (unat count + Suc n) * B" "(unat count + 1) * B \<le> (unat count + Suc n) * B"
    by (intro mult_le_mono1; simp)+
  then show "unat count * B < 4294967296" "(unat count + 1) * B < 4294967296" using assms(2) by linarith+
qed

text \<open>The clusters behind the data are freed; after the last one the start of the file is 0.\<close>

lemma wcc_walk_free:
  "vol_wf v \<Longrightarrow> is_chain (fat_of v) (c # cs) \<Longrightarrow> length cs < k \<Longrightarrow> unat nb \<le> unat count * clus_size v \<Longrightarrow>
   (unat count + Suc (length cs)) * clus_size v < 4294967296 \<Longrightarrow>
   wcc_walk k data nb v c di count start = Inr (False, last (c # cs), di, 0, free_all v (c # cs))"
proof (induction cs arbitrary: c k v count)
  case Nil
  then obtain k' where k: "k = Suc k'" by (cases k) auto
  have r: "in_range v c" using Nil.prems in_range_chain [of v "[c]" c] by simp
  then have c: "c \<noteq> 0" "unat c < length (fat_of v)" by (auto simp: in_range_def fat_of_def)
  note b = count_below [OF clus_size_pos [OF Nil.prems(1)] Nil.prems(5)]
  have "nb \<le> count * 512 * sectors_per_cluster (v_fs v)"
    using unat_clusters [of count v] b Nil.prems(4) by (simp add: word_le_nat_alt)
  then show ?case using Nil.prems k c by (simp add: Let_def set_fat_ok fat_of_def)
next
  case (Cons d cs)
  then obtain k' where k: "k = Suc k'" by (cases k) auto
  have r: "in_range v c" using Cons.prems in_range_chain [of v "c # d # cs" c] by simp
  then have c: "c \<noteq> 0" "unat c < length (fat_of v)" by (auto simp: in_range_def fat_of_def)
  note b = count_below [OF clus_size_pos [OF Cons.prems(1)] Cons.prems(5)]
  have "nb \<le> count * 512 * sectors_per_cluster (v_fs v)"
    using unat_clusters [of count v] b Cons.prems(4) by (simp add: word_le_nat_alt)
  then have step: "wcc_walk k data nb v c di count start = wcc_walk k' data nb (put_fat v c 0) d di (count + 1) start"
    using Cons.prems(2) k c by (simp add: Let_def set_fat_ok fat_of_def)
  have "c \<notin> set (d # cs)" using is_chain_distinct [OF Cons.prems(2)] by simp
  then have "is_chain (fat_of (put_fat v c 0)) (d # cs)" using Cons.prems(2) is_chain_update_notin by simp
  then show ?case
    unfolding step using Cons.IH [of "put_fat v c 0" d k' "count + 1"] Cons.prems b k by (simp add: add_mult_distrib)
qed

text \<open>A chain of which the clusters up to the first of \<open>es\<close> are needed.\<close>

lemma wcc_walk_shrink:
  assumes "vol_wf v" "is_chain (fat_of v) (c # cs @ e # es)" "length cs + Suc (length es) < k"
    "(unat count + length cs) * clus_size v < unat nb" "unat nb \<le> (unat count + Suc (length cs)) * clus_size v"
    "(unat count + Suc (length cs + Suc (length es))) * clus_size v < 4294967296"
    "unat di = unat count * clus_size v"
  shows "\<exists>x di'. wcc_walk k (Some m) nb v c di count start =
    Inr (False, x, di', 0, free_all (put_fat (put_clusters v (c # cs) m (unat di)) (last (c # cs)) 0xFFFFFFFF) (e # es))"
  using assms
proof (induction cs arbitrary: c k v count di)
  case Nil
  then obtain k' where k: "k = Suc k'" by (cases k) auto
  let ?v = "put_cluster v c (\<lambda>i. m (unat di + i))"
  have r: "in_range v c" using Nil.prems in_range_chain [of v "c # e # es" c] by simp
  then have c: "c \<noteq> 0" "unat c < length (fat_of v)" by (auto simp: in_range_def fat_of_def)
  have b: "unat (count + 1) = unat count + 1" "unat count * clus_size v < 4294967296" "(unat count + 1) * clus_size v < 4294967296"
    using count_below [OF clus_size_pos [OF Nil.prems(1)], of count "Suc (length es)"] Nil.prems(6) by simp_all
  have w: "\<not> nb \<le> count * 512 * sectors_per_cluster (v_fs v)" "nb \<le> (count + 1) * 512 * sectors_per_cluster (v_fs v)"
    using unat_clusters [of count v] unat_clusters [of "count + 1" v] b Nil.prems(4,5) by (simp_all add: word_le_nat_alt)
  have step: "wcc_walk k (Some m) nb v c di count start =
      wcc_walk k' (Some m) nb (put_fat ?v c 0xFFFFFFFF) e (di + 512 * sectors_per_cluster (v_fs v)) (count + 1) start"
    using Nil.prems(1,2) k c r w by (simp add: Let_def deref_def cluster_to_lba_ok vol_write_cluster set_fat_ok fat_of_def)
  have "c \<notin> set (e # es)" using is_chain_distinct [OF Nil.prems(2)] by simp
  then have "is_chain (fat_of (put_fat ?v c 0xFFFFFFFF)) (e # es)" using Nil.prems(2) is_chain_update_notin by simp
  then show ?case
    unfolding step using wcc_walk_free [of "put_fat ?v c 0xFFFFFFFF" e es k' nb "count + 1"] Nil.prems b k by simp
next
  case (Cons d cs)
  then obtain k' where k: "k = Suc k'" by (cases k) auto
  let ?B = "clus_size v" and ?v = "put_cluster v c (\<lambda>i. m (unat di + i))"
  let ?di = "of_nat ((unat count + 1) * ?B) :: u32"
  have r: "in_range v c" using Cons.prems(2) in_range_chain [of v "c # (d # cs) @ e # es" c] by simp
  have b: "unat (count + 1) = unat count + 1" "(unat count + 1) * ?B < 4294967296"
    using count_below [OF clus_size_pos [OF Cons.prems(1)], of count] Cons.prems(6) by blast+
  have di: "unat ?di = (unat count + 1) * ?B" using b(2) by (rule unat_of_nat_u32)
  have mono: "(unat count + 1) * ?B \<le> (unat count + length (d # cs)) * ?B" by (intro mult_le_mono1) simp
  have step: "wcc_walk k (Some m) nb v c di count start = wcc_walk k' (Some m) nb ?v d ?di (count + 1) start"
    using Cons.prems k r b(2) le_less_trans [OF mono Cons.prems(4)]
    by (subst k, subst wcc_walk_step [where tmp = d and t = USED_CLUSTER]) (auto simp: Let_def)
  have "\<exists>x di'. wcc_walk k' (Some m) nb ?v d ?di (count + 1) start =
      Inr (False, x, di', 0, free_all (put_fat (put_clusters ?v (d # cs) m (unat ?di)) (last (d # cs)) 0xFFFFFFFF) (e # es))"
    using Cons.prems k b di by (intro Cons.IH) auto
  moreover have "unat ?di = unat di + ?B" unfolding di using Cons.prems(7) by simp
  ultimately show ?case unfolding step by simp
qed

lemma write_chain_shrink:
  assumes v: "vol_wf v" and cs: "is_chain (fat_of v) cs" and n: "0 < unat nb" "clusters_for (unat nb) v < length cs"
    and b: "length cs * clus_size v < 4294967296"
  obtains v1 where "write_cluster_chain v (hd cs) (Some m) nb = Inr (0, v1)" "vol_wf v1"
    "sectors_per_cluster (v_fs v1) = sectors_per_cluster (v_fs v)" "fat_of v1 ! 0 = fat_of v ! 0" "length (fat_of v1) = length (fat_of v)"
    "\<And>xs. is_chain (fat_of v) xs \<Longrightarrow> set xs \<inter> set cs = {} \<Longrightarrow> is_chain (fat_of v1) xs \<and> chain_bytes v1 xs = chain_bytes v xs"
proof -
  obtain k where k: "clusters_for (unat nb) v = Suc k"
    using n(1) clus_size_pos [OF v] by (cases "clusters_for (unat nb) v") (auto simp: clusters_for_def div_eq_0_iff)
  have nb: "k * clus_size v < unat nb" "unat nb \<le> Suc k * clus_size v" using clusters_for_iff [OF v n(1), of k] k by simp_all
  obtain c ds e es where split: "cs = c # ds @ e # es" "length ds = k"
  proof -
    have "cs = hd cs # take k (tl cs) @ drop k (tl cs)" "drop k (tl cs) \<noteq> []" "length (take k (tl cs)) = k"
      using n(2) k by (cases cs; simp)+
    then show ?thesis using that by (metis list.collapse)
  qed
  let ?w = "put_fat (put_clusters v (c # ds) m 0) (last (c # ds)) 0xFFFFFFFF"
  have "length cs \<le> length (fat_of v)" using is_chain_length [OF cs] .
  then obtain x di' where walk: "wcc_walk (Suc (Suc (length (fat (v_fs v))))) (Some m) nb v c 0 0 c = Inr (False, x, di', 0, free_all ?w (e # es))"
    using wcc_walk_shrink [of v c ds e es _ 0 nb 0 m c] v cs split nb b by (fastforce simp: fat_of_def simp del: wcc_walk.simps free_all_simps)
  have w: "write_cluster_chain v (hd cs) (Some m) nb = Inr (0, free_all ?w (e # es))"
    using walk get_cluster_chain_length_ok [of "v_fs v" c "ds @ e # es"] cs split(1)
    by (simp add: write_cluster_chain_def fat_of_def del: wcc_walk.simps free_all_simps)
  have in2: "2 \<le> unat y" if "y \<in> set cs" for y using is_chain_bounds [OF cs that] by simp
  have "last (c # ds) \<in> set cs" using split(1) last_in_set [of "c # ds"] by fastforce
  then have zero: "fat_of ?w ! 0 = fat_of v ! 0" using in2 by fastforce
  have z0: "unat (0 :: u32) = 0" by simp
  have "unat (0 :: u32) \<notin> unat ` set (e # es)" using in2 split(1) by fastforce
  from fat_free_all_other [OF this, of ?w] zero have z: "fat_of (free_all ?w (e # es)) ! 0 = fat_of v ! 0" unfolding z0 by simp
  have "is_chain (fat_of (free_all ?w (e # es))) xs \<and> chain_bytes (free_all ?w (e # es)) xs = chain_bytes v xs"
    if xs: "is_chain (fat_of v) xs" "set xs \<inter> set cs = {}" for xs
  proof -
    have "last (c # ds) \<notin> set xs" "set xs \<inter> set (e # es) = {}" "set xs \<inter> set (c # ds) = {}"
      using xs(2) \<open>last (c # ds) \<in> set cs\<close> split(1) by auto
    moreover have "\<forall>y \<in> set (c # ds). in_range v y" "\<forall>y \<in> set xs. in_range v y"
      using in_range_chain [OF cs] in_range_chain [OF xs(1)] split(1) by auto
    ultimately show ?thesis
      using xs(1) v is_chain_free_all [of xs "e # es" ?w] chain_bytes_put_clusters_other [OF v, of "c # ds" xs m 0] is_chain_update_notin
      by (simp del: free_all_simps put_clusters.simps last.simps)
  qed
  moreover have "length (fat_of (free_all ?w (e # es))) = length (fat_of v)" by (simp del: free_all_simps)
  moreover have "vol_wf (free_all ?w (e # es))" using v by (simp del: free_all_simps put_clusters.simps last.simps)
  moreover have "sectors_per_cluster (v_fs (free_all ?w (e # es))) = sectors_per_cluster (v_fs v)"
    by (simp add: put_fat_def del: free_all_simps put_clusters.simps last.simps)
  ultimately show ?thesis using that w z by blast
qed

end
