(* ===== verification/Fat32_Files.thy ===== *)
theory Fat32_Files
  imports Fat32_Write
begin

unbundle bit_operations_syntax

text \<open>
  The public operations of the driver on a well-formed volume: \<open>fat32_write_dirent\<close>, \<open>fat32_write\<close>,
  \<open>fat32_read\<close>, \<open>fat32_stat\<close>, \<open>fat32_create\<close> and \<open>fat32_delete\<close>. A directory is seen as the list of
  its entries, a file as the bytes of its chain.
\<close>

section \<open>Storing a directory entry\<close>

definition dir_small :: "vol \<Rightarrow> u32 list \<Rightarrow> bool" where
  "dir_small v dcs \<longleftrightarrow> length dcs * clus_size v < 4294967296"

definition dir_entries :: "vol \<Rightarrow> u32 list \<Rightarrow> fat32_dirent list" where
  "dir_entries v dcs = dirents_of (chain_bytes v dcs)"

definition epc :: "vol \<Rightarrow> nat" where
  "epc v = 16 * spc v"

definition put_dirent :: "vol \<Rightarrow> u32 list \<Rightarrow> nat \<Rightarrow> fat32_dirent \<Rightarrow> vol" where
  "put_dirent v dcs i d = (let c = dcs ! (i div epc v) in
     put_cluster v c (mem_of (put_at (cluster_bytes v c) (32 * (i mod epc v)) (dirent_bytes d))))"

lemma map_mem_of: "map (mem_of b) [0..<length b] = b"
  by (rule nth_equalityI) (auto simp: mem_of_def)

lemma put_at_append1: "i + length xs \<le> length b \<Longrightarrow> put_at (b @ r) i xs = put_at b i xs @ r"
  by (simp add: put_at_def)

lemma put_at_append2: "put_at (b @ r) (length b + i) xs = b @ put_at r i xs"
  by (simp add: put_at_def)

lemma concat_block_update:
  "\<forall>b \<in> set bs. length b = B \<Longrightarrow> q < length bs \<Longrightarrow> off + length xs \<le> B \<Longrightarrow>
   concat (bs[q := put_at (bs ! q) off xs]) = put_at (concat bs) (q * B + off) xs"
proof (induction bs arbitrary: q)
  case (Cons b bs)
  show ?case
  proof (cases q)
    case 0
    then show ?thesis using Cons.prems by (simp add: put_at_append1)
  next
    case (Suc k)
    then have "concat (bs[k := put_at (bs ! k) off xs]) = put_at (concat bs) (k * B + off) xs"
      using Cons.prems by (intro Cons.IH) auto
    then show ?thesis
      using Suc Cons.prems put_at_append2 [of b "concat bs" "k * B + off" xs] by (simp add: add.assoc)
  qed
qed simp

lemma entries_size: "clus_size v = 32 * epc v"
  by (simp add: clus_size_def epc_def)

lemma length_dir_entries [simp]: "vol_wf v \<Longrightarrow> length (dir_entries v dcs) = length dcs * epc v"
  by (simp add: dir_entries_def entries_size)

lemma slot_cluster:
  assumes "i < length dcs * epc v"
  shows "i div epc v < length dcs" "i mod epc v < epc v"
proof -
  have "0 < epc v" using assms by (cases "epc v") auto
  with assms show "i div epc v < length dcs" "i mod epc v < epc v"
    by (simp_all add: less_mult_imp_div_less)
qed

lemma put_dirent_consts [simp]:
  "v_init_p (put_dirent v dcs i d) = v_init_p v" "spc (put_dirent v dcs i d) = spc v"
  "fat_of (put_dirent v dcs i d) = fat_of v" "v_fs (put_dirent v dcs i d) = v_fs v"
  "in_range (put_dirent v dcs i d) = in_range v" "clus_size (put_dirent v dcs i d) = clus_size v"
  "epc (put_dirent v dcs i d) = epc v"
  by (simp_all add: put_dirent_def Let_def epc_def)

lemma vol_wf_put_dirent [simp]: "vol_wf v \<Longrightarrow> vol_wf (put_dirent v dcs i d)"
  by (simp add: put_dirent_def Let_def)

lemma cluster_bytes_put_dirent:
  assumes v: "vol_wf v" and i: "i < length dcs * epc v" and d: "length (filename d) = 11"
  shows "cluster_bytes (put_dirent v dcs i d) (dcs ! (i div epc v))
    = put_at (cluster_bytes v (dcs ! (i div epc v))) (32 * (i mod epc v)) (dirent_bytes d)"
proof -
  let ?c = "dcs ! (i div epc v)"
  let ?b = "put_at (cluster_bytes v ?c) (32 * (i mod epc v)) (dirent_bytes d)"
  have "length ?b = clus_size v"
    using v slot_cluster(2) [OF i] length_dirent_bytes [OF d]
    by (subst length_put_at) (auto simp: entries_size)
  then have "map (mem_of ?b) [0..<clus_size v] = ?b" using map_mem_of [of ?b] by simp
  then show ?thesis using v by (simp add: put_dirent_def Let_def cluster_bytes_put_same)
qed

lemma dir_entries_put_dirent:
  assumes v: "vol_wf v" and dcs: "is_chain (fat_of v) dcs" and i: "i < length dcs * epc v"
    and d: "length (filename d) = 11"
  shows "dir_entries (put_dirent v dcs i d) dcs = (dir_entries v dcs)[i := d]"
proof -
  let ?q = "i div epc v" and ?v = "put_dirent v dcs i d" and ?off = "32 * (i mod epc v)"
  note q = slot_cluster [OF i]
  have r: "\<And>c. c \<in> set dcs \<Longrightarrow> in_range v c" using in_range_chain [OF dcs] by blast
  have "map (cluster_bytes ?v) dcs = (map (cluster_bytes v) dcs)
      [?q := put_at (map (cluster_bytes v) dcs ! ?q) ?off (dirent_bytes d)]"
  proof (rule nth_equalityI)
    fix k assume "k < length (map (cluster_bytes ?v) dcs)"
    moreover have "cluster_bytes ?v (dcs ! k) = cluster_bytes v (dcs ! k)" if "k < length dcs" "k \<noteq> ?q"
      unfolding put_dirent_def Let_def using v r that q is_chain_distinct [OF dcs]
      by (intro cluster_bytes_put_other) (auto simp: nth_eq_iff_index_eq)
    ultimately show "map (cluster_bytes ?v) dcs ! k = (map (cluster_bytes v) dcs)
        [?q := put_at (map (cluster_bytes v) dcs ! ?q) ?off (dirent_bytes d)] ! k"
      using cluster_bytes_put_dirent [OF v i d] q(1) by (cases "k = ?q") auto
  qed simp
  then have "chain_bytes ?v dcs = put_at (chain_bytes v dcs) (?q * clus_size v + ?off) (dirent_bytes d)"
    unfolding chain_bytes_def using v q length_dirent_bytes [OF d]
      concat_block_update [of "map (cluster_bytes v) dcs" "clus_size v" ?q ?off "dirent_bytes d"]
    by (simp add: entries_size)
  moreover have "?q * clus_size v + ?off = 32 * i"
    by (simp only: entries_size mult.left_commute [of "i div epc v" 32] distrib_left [symmetric]
        div_mult_mod_eq)
  moreover have "i < length (chain_bytes v dcs) div 32" using v i by (simp add: entries_size)
  ultimately show ?thesis unfolding dir_entries_def using dirents_of_put_at d by simp
qed

lemma chain_bytes_put_dirent_other:
  assumes "vol_wf v" "is_chain (fat_of v) dcs" "i < length dcs * epc v" "\<forall>x \<in> set xs. in_range v x"
    "set xs \<inter> set dcs = {}"
  shows "chain_bytes (put_dirent v dcs i d) xs = chain_bytes v xs"
proof -
  have "dcs ! (i div epc v) \<in> set dcs" using slot_cluster [OF assms(3)] by simp
  then show ?thesis
    using assms in_range_chain [OF assms(2)]
    unfolding put_dirent_def Let_def by (intro chain_bytes_put_other) auto
qed

lemma follow_chain: "is_chain ft (c # cs) \<Longrightarrow> q \<le> length cs \<Longrightarrow> follow ft q c = Inr ((c # cs) ! q)"
proof (induction cs arbitrary: c q)
  case (Cons d cs)
  then show ?case by (cases q) auto
qed simp

lemma slot_u32:
  assumes v: "vol_wf v" and i: "i < length dcs * epc v" and small: "dir_small v dcs"
  shows "unat (of_nat i div (16 * sectors_per_cluster (v_fs v)) :: u32) = i div epc v"
    "unat (of_nat i mod (16 * sectors_per_cluster (v_fs v)) :: u32) = i mod epc v"
    "16 * sectors_per_cluster (v_fs v) \<noteq> 0"
proof -
  have "32 * (length dcs * epc v) < 4294967296"
    using small unfolding dir_small_def entries_size by (simp only: mult.left_commute)
  then have i32: "unat (of_nat i :: u32) = i" using i by (intro unat_of_nat_u32) linarith
  have g: "0 < unat (sectors_per_cluster (v_fs v))" "unat (sectors_per_cluster (v_fs v)) \<le> 128"
    using v by (simp_all add: vol_wf_def geom_def)
  then have e: "unat (16 * sectors_per_cluster (v_fs v)) = epc v"
    by (subst unat_mult_small) (auto simp: epc_def spc_def)
  show "unat (of_nat i div (16 * sectors_per_cluster (v_fs v)) :: u32) = i div epc v"
    "unat (of_nat i mod (16 * sectors_per_cluster (v_fs v)) :: u32) = i mod epc v"
    using i32 e by (simp_all add: unat_div unat_mod)
  show "16 * sectors_per_cluster (v_fs v) \<noteq> 0"
    using e g by (auto simp: epc_def spc_def)
qed

lemma follow_dir:
  assumes "is_chain (fat_of v) dcs" "i < length dcs * epc v"
  shows "follow (fat (v_fs v)) (i div epc v) (hd dcs) = Inr (dcs ! (i div epc v))"
proof -
  obtain c cs where dcs: "dcs = c # cs" using assms(1) by (cases dcs) auto
  then show ?thesis
    using assms slot_cluster [OF assms(2)] follow_chain [of "fat_of v" c cs "i div epc v"]
    by (simp add: fat_of_def)
qed

lemma write_dirent_ok:
  assumes v: "vol_wf v" and dcs: "is_chain (fat_of v) dcs" and i: "i < length dcs * epc v"
    and small: "dir_small v dcs" and dir: "cluster_id dir = hd dcs"
  shows "fat32_write_dirent v d dir (of_nat i) = Inr (put_dirent v dcs i d)"
proof -
  have "in_range v (dcs ! (i div epc v))" using in_range_chain [OF dcs] slot_cluster [OF i] by simp
  then show ?thesis
    using v dir follow_dir [OF dcs i] slot_u32 [OF v i small]
    by (simp add: fat32_write_dirent_def Let_def mult.commute cluster_to_lba_ok sec_read_cluster
        vol_write_cluster put_dirent_def)
qed

section \<open>Writing a file\<close>

text \<open>
  A volume seen through one of its directories: the directory's chain, the chain of each file. The
  record of hypotheses of the operations below.
\<close>

definition dir_ok :: "vol \<Rightarrow> pi_dirent \<Rightarrow> u32 list \<Rightarrow> bool" where
  "dir_ok v dir dcs \<longleftrightarrow> vol_wf v \<and> is_dir_p dir \<and> cluster_id dir = hd dcs \<and> is_chain (fat_of v) dcs
     \<and> dir_small v dcs \<and> dir_wf (dir_entries v dcs)"

definition updated_dirent :: "fat32_dirent \<Rightarrow> u32 \<Rightarrow> u32 \<Rightarrow> fat32_dirent" where
  "updated_dirent d start n = d\<lparr>lo_start := ucast (start AND 0xffff),
     hi_start := ucast (drop_bit 16 start AND 0xffff), file_nbytes := n\<rparr>"

lemma cluster_id_updated [simp]: "fat32_cluster_id (updated_dirent d start n) = start"
proof -
  have m: "(0xffff :: u32) = mask 16" by (simp add: mask_eq_exp_minus_1)
  show ?thesis
    unfolding fat32_cluster_id_def updated_dirent_def m
    by (rule bit_word_eqI) (auto simp: bit_simps)
qed

lemma updated_dirent_same [simp]:
  "filename (updated_dirent d start n) = filename d" "d_attr (updated_dirent d start n) = d_attr d"
  "access_date (updated_dirent d start n) = access_date d" "file_nbytes (updated_dirent d start n) = n"
  "ucast (lo_start (updated_dirent d start n)) = start AND 0xffff"
  "ucast (hi_start (updated_dirent d start n)) = drop_bit 16 start AND 0xffff"
proof -
  have m: "(0xffff :: u32) = mask 16" by (simp add: mask_eq_exp_minus_1)
  show "ucast (lo_start (updated_dirent d start n)) = start AND 0xffff"
    "ucast (hi_start (updated_dirent d start n)) = drop_bit 16 start AND 0xffff"
    unfolding updated_dirent_def m by (rule bit_word_eqI, auto simp: bit_simps)+
qed (simp_all add: updated_dirent_def)

lemma verify_fat_loop_ok: "is_chain ft (c # cs) \<Longrightarrow> verify_fat_loop (Suc (length cs)) ft c = Inr ()"
proof (induction cs arbitrary: c)
  case (Cons d cs)
  then show ?case by (simp del: verify_fat_loop.simps add: verify_fat_loop.simps(2) [of "Suc (length cs)"])
qed simp

lemma clusters_for_u32:
  assumes v: "vol_wf v" and n: "unat nb + clus_size v < 4294967296"
  shows "unat ((nb + sectors_per_cluster (v_fs v) * 512 - 1) div (sectors_per_cluster (v_fs v) * 512))
    = clusters_for (unat nb) v"
    "sectors_per_cluster (v_fs v) * 512 \<noteq> 0"
proof -
  note B = clus_size_pos [OF v]
  have s: "unat (sectors_per_cluster (v_fs v) * 512) = clus_size v"
    using unat_next_index [of 0 v] n by (simp add: mult.commute)
  then show "sectors_per_cluster (v_fs v) * 512 \<noteq> 0" using B by auto
  have "unat (nb + sectors_per_cluster (v_fs v) * 512) = unat nb + clus_size v"
    using n s by (subst unat_add_small) auto
  then have "unat (nb + sectors_per_cluster (v_fs v) * 512 - 1) = unat nb + clus_size v - 1"
    using B by (simp add: unat_sub_u32)
  with s show "unat ((nb + sectors_per_cluster (v_fs v) * 512 - 1) div (sectors_per_cluster (v_fs v) * 512))
    = clusters_for (unat nb) v" by (simp add: unat_div clusters_for_def)
qed

lemma verify_write_reduces:
  assumes v: "vol_wf v" and n: "0 < unat (n_alloc file)" "unat (n_alloc file) + clus_size v < 4294967296"
    and sec: "dirents_of (cluster_bytes v c) ! slot = updated_dirent d start (n_data file)" "slot < epc v"
  shows "verify_write_check v (lba (v_fs v) c) slot (updated_dirent d start (n_data file)) start file
    = verify_fat_loop (clusters_for (unat (n_alloc file)) v) (fat_of v) start"
proof -
  have "slot < length (dirents_of (cluster_bytes v c))" using v sec(2) by (simp add: entries_size)
  then show ?thesis
    using v n sec clusters_for_u32 [OF v n(2)]
    by (simp add: verify_write_check_def Let_def sec_read_cluster word_less_nat_alt fat_of_def
        del: verify_fat_loop.simps)
qed

lemma dirent_at_slot:
  assumes v: "vol_wf v" and i: "i < length dcs * epc v" and d: "length (filename d) = 11"
  shows "dirents_of (cluster_bytes (put_dirent v dcs i d) (dcs ! (i div epc v))) ! (i mod epc v) = d"
  using v slot_cluster [OF i] d cluster_bytes_put_dirent [OF v i d]
  by (simp add: dirents_of_put_at entries_size)

lemma dir_entry_filename: "vol_wf v \<Longrightarrow> i < length dcs * epc v \<Longrightarrow> length (filename (dir_entries v dcs ! i)) = 11"
  using filename_dirents_of [of "dir_entries v dcs ! i" "chain_bytes v dcs"]
  by (metis dir_entries_def length_dir_entries nth_mem)

lemma dir_wf_update:
  "dir_wf ds \<Longrightarrow> i < length ds \<Longrightarrow> filename d = filename (ds ! i) \<Longrightarrow> d_attr d = d_attr (ds ! i) \<Longrightarrow>
   dir_wf (ds[i := d])"
  unfolding dir_wf_def dirent_skipped_def using set_update_subset_insert [of ds i d] nth_mem [of i ds] by auto

text \<open>What \<open>fat32_write\<close> does after the data is on the card.\<close>

definition finish_write :: "vol \<Rightarrow> u32 list \<Rightarrow> nat \<Rightarrow> fat32_dirent \<Rightarrow> vol" where
  "finish_write v dcs i d = sync_fat (put_dirent v dcs i d)"

lemma finish_write_consts [simp]:
  "v_init_p (finish_write v dcs i d) = v_init_p v" "spc (finish_write v dcs i d) = spc v"
  "fat_of (finish_write v dcs i d) = fat_of v" "v_fs (finish_write v dcs i d) = v_fs v"
  "in_range (finish_write v dcs i d) = in_range v" "clus_size (finish_write v dcs i d) = clus_size v"
  "epc (finish_write v dcs i d) = epc v" "vol_wf v \<Longrightarrow> vol_wf (finish_write v dcs i d)"
  by (simp_all add: finish_write_def epc_def)

lemma chain_bytes_finish_other:
  "vol_wf v \<Longrightarrow> is_chain (fat_of v) dcs \<Longrightarrow> i < length dcs * epc v \<Longrightarrow> \<forall>x \<in> set xs. in_range v x \<Longrightarrow>
   set xs \<inter> set dcs = {} \<Longrightarrow> chain_bytes (finish_write v dcs i d) xs = chain_bytes v xs"
  by (simp add: finish_write_def chain_bytes_put_dirent_other)

lemma dir_entries_finish:
  assumes "vol_wf v" "is_chain (fat_of v) dcs" "i < length dcs * epc v" "length (filename d) = 11"
  shows "dir_entries (finish_write v dcs i d) dcs = (dir_entries v dcs)[i := d]"
proof -
  have "\<forall>c \<in> set dcs. in_range v c" using in_range_chain [OF assms(2)] by blast
  with assms dir_entries_put_dirent [OF assms] show ?thesis
    by (simp add: finish_write_def dir_entries_def)
qed

lemma chain_written_geom:
  assumes "chain_written v cs v' cs' m"
  shows "spc v' = spc v" "clus_size v' = clus_size v" "epc v' = epc v"
    "sectors_per_cluster (v_fs v') = sectors_per_cluster (v_fs v)"
proof -
  have "v_fs v' = (v_fs v)\<lparr>fat := fat_of v'\<rparr>" using assms by (simp add: chain_written_def)
  from arg_cong [OF this, of sectors_per_cluster]
  show "sectors_per_cluster (v_fs v') = sectors_per_cluster (v_fs v)" by simp
  then show "spc v' = spc v" "clus_size v' = clus_size v" "epc v' = epc v"
    by (simp_all add: spc_def clus_size_def epc_def)
qed

text \<open>The tail of \<open>fat32_write\<close>, from the volume on which the data is written.\<close>

lemma write_tail:
  fixes start :: u32
  assumes v: "vol_wf v" and dcs: "is_chain (fat_of v) dcs" and i: "i < length dcs * epc v"
    and n: "0 < unat (n_alloc file)" "unat (n_alloc file) + clus_size v < 4294967296"
    and d: "length (filename d) = 11"
  defines "c \<equiv> dcs ! (i div epc v)" and "e \<equiv> updated_dirent d start (n_data file)"
  shows "bind_r (pi_sec_read (v_sd v) (lba (v_fs v) c) (sectors_per_cluster (v_fs v))) (\<lambda>sec.
      bind_r (vol_write v (mem_of (put_at sec (32 * (i mod epc v)) (dirent_bytes e)))
          (lba (v_fs v) c) (sectors_per_cluster (v_fs v))) (\<lambda>v2.
      bind_r (write_fat_to_disk v2) (\<lambda>v3.
      bind_r (verify_write_check v3 (lba (v_fs v) c) (i mod epc v) e start file) (\<lambda>_.
      Inr (True, v3)))))
    = bind_r (verify_fat_loop (clusters_for (unat (n_alloc file)) v) (fat_of v) start)
        (\<lambda>_. Inr (True, finish_write v dcs i e))"
proof -
  have e: "length (filename e) = 11" using d by (simp add: e_def)
  have put: "put_cluster v c (mem_of (put_at (cluster_bytes v c) (32 * (i mod epc v)) (dirent_bytes e)))
      = put_dirent v dcs i e" by (simp add: put_dirent_def c_def Let_def)
  have r: "in_range v c" using in_range_chain [OF dcs] slot_cluster [OF i] by (simp add: c_def)
  have slot: "dirents_of (cluster_bytes (finish_write v dcs i e) c) ! (i mod epc v) = e"
    using dirent_at_slot [OF v i e] v r by (simp add: finish_write_def c_def)
  have "verify_write_check (finish_write v dcs i e) (lba (v_fs (finish_write v dcs i e)) c)
      (i mod epc v) e start file
      = verify_fat_loop (clusters_for (unat (n_alloc file)) (finish_write v dcs i e))
          (fat_of (finish_write v dcs i e)) start"
    using slot v n slot_cluster [OF i] unfolding e_def by (intro verify_write_reduces) auto
  then show ?thesis
    using v put
    by (simp add: sec_read_cluster vol_write_cluster write_fat_to_disk_ok clusters_for_def
        flip: finish_write_def del: verify_fat_loop.simps)
qed

text \<open>\<open>fat32_write\<close> up to the final check of the chain, for whatever the data write left in the FAT.\<close>

lemma fat32_write_reduces:
  assumes dir: "dir_ok v dir dcs" and name: "fat32_is_valid_name fname"
    and i: "first_match (named fname) (dir_entries v dcs) = Some i"
    and w: "write_cluster_chain v (fat32_cluster_id (dir_entries v dcs ! i)) (f_data file) (n_alloc file)
      = Inr (start, v1)"
    and v1: "vol_wf v1" "sectors_per_cluster (v_fs v1) = sectors_per_cluster (v_fs v)"
      "is_chain (fat_of v1) dcs"
    and n: "0 < unat (n_alloc file)" "unat (n_alloc file) + clus_size v < 4294967296"
  shows "fat32_write v dir fname file =
    bind_r (verify_fat_loop (clusters_for (unat (n_alloc file)) v) (fat_of v1) start)
      (\<lambda>_. Inr (True, finish_write v1 dcs i (updated_dirent (dir_entries v dcs ! i) start (n_data file))))"
proof -
  let ?ds = "dir_entries v dcs"
  have v: "vol_wf v" and d: "is_dir_p dir" "cluster_id dir = hd dcs" and dcs: "is_chain (fat_of v) dcs"
    and small: "dir_small v dcs" and wf: "dir_wf ?ds" using dir by (auto simp: dir_ok_def)
  have il: "i < length dcs * epc v" using i v by (simp add: first_match_Some)
  have gd: "get_dirents v (hd dcs) = Inr ?ds"
    using get_dirents_ok [OF v dcs] small by (simp add: dir_small_def dir_entries_def)
  have fd: "find_dirent_with_name ?ds fname 0 = Inr (Some i)"
    using find_dirent_eq [OF wf name, of 0] i by simp
  have g: "spc v1 = spc v" "clus_size v1 = clus_size v" "epc v1 = epc v"
    using v1(2) by (simp_all add: spc_def clus_size_def epc_def)
  have il1: "i < length dcs * epc v1" and small1: "dir_small v1 dcs"
    using il small g by (simp_all add: dir_small_def)
  have r: "in_range v1 (dcs ! (i div epc v1))" using in_range_chain [OF v1(3)] slot_cluster [OF il1] by simp
  show ?thesis
    using d gd fd w v slot_u32 [OF v1(1) il1 small1] follow_dir [OF v1(3) il1] cluster_to_lba_ok [OF r] g v1(2)
      write_tail [OF v1(1,3) il1 n(1), where d = "?ds ! i" and start = start] n dir_entry_filename [OF v il]
    by (simp add: fat32_write_def check_init_def vol_wf_def Let_def clusters_for_def
        flip: updated_dirent_def del: verify_fat_loop.simps)
qed

text \<open>The relation between the volumes before and after a write that succeeds.\<close>

definition file_written ::
  "vol \<Rightarrow> u32 list \<Rightarrow> nat \<Rightarrow> u32 list \<Rightarrow> vol \<Rightarrow> u32 list \<Rightarrow> pi_file \<Rightarrow> bool" where
  "file_written v dcs i cs v' cs' file \<longleftrightarrow>
     vol_wf v' \<and> clus_size v' = clus_size v \<and> is_chain (fat_of v') dcs \<and> is_chain (fat_of v') cs'
     \<and> set cs' \<inter> set dcs = {} \<and> length cs' = clusters_for (unat (n_alloc file)) v
     \<and> dir_entries v' dcs = (dir_entries v dcs)[i := updated_dirent (dir_entries v dcs ! i) (hd cs') (n_data file)]
     \<and> chain_bytes v' cs' = map (the (f_data file)) [0..<length cs' * clus_size v]
     \<and> (\<forall>xs. is_chain (fat_of v) xs \<and> set xs \<inter> (set cs \<union> set dcs) = {} \<longrightarrow>
          is_chain (fat_of v') xs \<and> set xs \<inter> set cs' = {} \<and> chain_bytes v' xs = chain_bytes v xs)"

lemma file_written_intro:
  assumes v: "vol_wf v" and dcs: "is_chain (fat_of v) dcs" and i: "i < length dcs * epc v"
    and disj: "set cs \<inter> set dcs = {}" and w: "chain_written v cs v1 cs' (the (f_data file))"
    and len: "length cs' = clusters_for (unat (n_alloc file)) v"
  shows "file_written v dcs i cs
    (finish_write v1 dcs i (updated_dirent (dir_entries v dcs ! i) (hd cs') (n_data file))) cs' file"
    (is "file_written v dcs i cs ?v' cs' file")
proof -
  let ?e = "updated_dirent (dir_entries v dcs ! i) (hd cs') (n_data file)"
  note g = chain_written_geom [OF w]
  have w': "vol_wf v1" "is_chain (fat_of v1) cs'" "others_kept v cs v1 cs'"
    "chain_bytes v1 cs' = map (the (f_data file)) [0..<length cs' * clus_size v]"
    using w by (simp_all add: chain_written_def)
  have dk: "is_chain (fat_of v1) dcs" "set dcs \<inter> set cs' = {}" "chain_bytes v1 dcs = chain_bytes v dcs"
    using w'(3) dcs disj by (auto simp: others_kept_def)
  have i1: "i < length dcs * epc v1" using i g by simp
  have e: "length (filename ?e) = 11" using dir_entry_filename [OF v i] by simp
  have "chain_bytes ?v' xs = chain_bytes v1 xs" if "is_chain (fat_of v1) xs" "set xs \<inter> set dcs = {}" for xs
    using chain_bytes_finish_other [OF w'(1) dk(1) i1, of xs] that in_range_chain [OF that(1)] by blast
  then show ?thesis
    unfolding file_written_def
    using w' dk g len dir_entries_finish [OF w'(1) dk(1) i1 e]
    by (auto simp: others_kept_def dir_entries_def Int_Un_distrib Int_commute)
qed

lemma fat32_write_ok:
  assumes dir: "dir_ok v dir dcs" and name: "fat32_is_valid_name fname"
    and i: "first_match (named fname) (dir_entries v dcs) = Some i"
    and cs: "file_chain (fat_of v) (fat32_cluster_id (dir_entries v dcs ! i)) cs"
    and disj: "set cs \<inter> set dcs = {}" and fits: "write_fits v cs (unat (n_alloc file))"
    and data: "f_data file \<noteq> None"
  obtains v' cs' where "fat32_write v dir fname file = Inr (True, v')" "file_written v dcs i cs v' cs' file"
proof -
  let ?ds = "dir_entries v dcs"
  have v: "vol_wf v" and dcs: "is_chain (fat_of v) dcs" using dir by (auto simp: dir_ok_def)
  have il: "i < length dcs * epc v" using i v by (simp add: first_match_Some)
  obtain m where m: "f_data file = Some m" using data by auto
  obtain cs' v1 where w: "write_cluster_chain v (fat32_cluster_id (?ds ! i)) (Some m) (n_alloc file)
      = Inr (hd cs', v1)" "chain_written v cs v1 cs' m" "length cs' = clusters_for (unat (n_alloc file)) v"
    using write_chain_ok [OF v cs fits] by blast
  have w': "vol_wf v1" "is_chain (fat_of v1) cs'" "is_chain (fat_of v1) dcs"
    using w(2) dcs disj by (auto simp: chain_written_def others_kept_def)
  obtain x xs where x: "cs' = x # xs" using w'(2) by (cases cs') auto
  let ?e = "updated_dirent (?ds ! i) (hd cs') (n_data file)"
  have "verify_fat_loop (clusters_for (unat (n_alloc file)) v) (fat_of v1) (hd cs') = Inr ()"
    using verify_fat_loop_ok [of "fat_of v1" x xs] w'(2) x w(3) [symmetric]
    by (simp del: verify_fat_loop.simps)
  then have "fat32_write v dir fname file = Inr (True, finish_write v1 dcs i ?e)"
    using fat32_write_reduces [OF dir name i _ w'(1) chain_written_geom(4) [OF w(2)] w'(3)] w(1) m fits
    by (simp add: write_fits_def)
  moreover have "file_written v dcs i cs (finish_write v1 dcs i ?e) cs' file"
    using file_written_intro [OF v dcs il disj _ w(3)] w(2) m by simp
  ultimately show ?thesis by (rule that)
qed

end
