(* ===== verification/Fat32_Read.thy ===== *)
theory Fat32_Read
  imports Fat32_Files
begin

unbundle bit_operations_syntax

text \<open>
  \<open>fat32_read\<close> and \<open>fat32_stat\<close> on a well-formed directory, and the round trip with \<open>fat32_write\<close>.
\<close>

section \<open>The search of \<open>fat32_read\<close>\<close>

text \<open>
  \<open>fat32_read\<close> skips long-name entries and volume labels only, where the other functions skip every
  read-only, hidden or system entry as well. They agree on a directory that has none of those.
\<close>

definition plain_dir :: "fat32_dirent list \<Rightarrow> bool" where
  "plain_dir ds \<longleftrightarrow> (\<forall>d \<in> set ds. filename d ! 0 \<noteq> 0 \<and> filename d ! 0 \<noteq> 0xE5 \<longrightarrow>
     d_attr d AND 0xF = 0 \<or> d_attr d AND 0xF = 0xF \<or> d_attr d AND 8 \<noteq> 0)"

lemma attr_filters:
  assumes "a AND 0xF = 0 \<or> a AND 0xF = 0xF \<or> a AND 8 \<noteq> (0 :: u8)"
  shows "(a AND 0xF = 0xF \<or> a AND 8 \<noteq> 0) \<longleftrightarrow> 0 < a AND 0xF"
proof -
  have "a AND 8 = (a AND 0xF) AND 8" by (simp add: and.assoc)
  then show ?thesis using assms by (auto simp: word_gt_0)
qed

lemma dirent_name_eq:
  assumes "wf_raw (filename d)" "fat32_is_valid_name f" "has_dot f"
  obtains tmp where "fat32_dirent_name d = Inr tmp" "tmp = f \<longleftrightarrow> filename d = raw83 f"
proof -
  obtain tmp where tmp: "fat32_dirent_name d = Inr tmp" "name_matches f tmp \<longleftrightarrow> filename d = raw83 f"
    using name_matches_correct [OF assms(1,2)] by blast
  moreover have "tmp = f" if "filename d = raw83 f"
    using that tmp(1) to_8dot3_raw83 [OF assms(2)] assms(3) by (simp add: fat32_dirent_name_def)
  moreover have "filename d = raw83 f" if "tmp = f"
    using that tmp(2) name_matches_self [OF assms(2)] assms(3) by simp
  ultimately show ?thesis using that by blast
qed

lemma read_find_eq:
  "dir_wf ds \<Longrightarrow> plain_dir ds \<Longrightarrow> fat32_is_valid_name f \<Longrightarrow> has_dot f \<Longrightarrow>
   read_find ds f i = Inr (case first_match (named f) ds of None \<Rightarrow> 0 | Some k \<Rightarrow> i + k)"
proof (induction ds arbitrary: i)
  case (Cons d ds)
  let ?skip = "filename d ! 0 = 0 \<or> filename d ! 0 = 0xE5 \<or> d_attr d AND 0xF = 0xF \<or> d_attr d AND 8 \<noteq> 0"
  have IH: "read_find ds f (Suc i) = Inr (case first_match (named f) ds of None \<Rightarrow> 0 | Some k \<Rightarrow> Suc i + k)"
    using Cons by (simp add: dir_wf_def plain_dir_def)
  have skip: "?skip \<longleftrightarrow> dirent_skipped d"
    using Cons.prems(2) attr_filters [of "d_attr d"] by (auto simp: plain_dir_def dirent_skipped_def)
  show ?case
  proof (cases "dirent_skipped d")
    case True
    then have "\<not> named f d" by (simp add: named_def)
    with IH True skip show ?thesis
      by (cases "first_match (named f) ds") (simp_all add: first_match_Cons)
  next
    case False
    then have "wf_raw (filename d)" using Cons.prems(1) by (simp add: dir_wf_def)
    then obtain tmp where "fat32_dirent_name d = Inr tmp" "tmp = f \<longleftrightarrow> named f d"
      using dirent_name_eq [OF _ Cons.prems(3,4), of d] False by (metis named_def)
    with IH False skip show ?thesis
      by (cases "first_match (named f) ds") (simp_all add: first_match_Cons)
  qed
qed simp

section \<open>Reading\<close>

lemma dir_ok_dirents: "dir_ok v dir dcs \<Longrightarrow> get_dirents v (cluster_id dir) = Inr (dir_entries v dcs)"
  using get_dirents_ok [of v dcs] by (simp add: dir_ok_def dir_small_def dir_entries_def)

lemma dir_ok_simps:
  "dir_ok v dir dcs \<Longrightarrow> check_init v = Inr ()" "dir_ok v dir dcs \<Longrightarrow> is_dir_p dir"
  "dir_ok v dir dcs \<Longrightarrow> vol_wf v" "dir_ok v dir dcs \<Longrightarrow> is_chain (fat_of v) dcs"
  "dir_ok v dir dcs \<Longrightarrow> dir_small v dcs" "dir_ok v dir dcs \<Longrightarrow> dir_wf (dir_entries v dcs)"
  "dir_ok v dir dcs \<Longrightarrow> cluster_id dir = hd dcs"
  by (auto simp: dir_ok_def vol_wf_def check_init_def)

definition file_of :: "vol \<Rightarrow> u32 list \<Rightarrow> u32 \<Rightarrow> pi_file" where
  "file_of v cs n = (if cs = [] then \<lparr>f_data = None, n_alloc = 0, n_data = 0\<rparr>
     else \<lparr>f_data = Some (mem_of (chain_bytes v cs)), n_alloc = of_nat (length cs * clus_size v), n_data = n\<rparr>)"

text \<open>The part of \<open>fat32_read\<close> behind the search, for whatever entry the search picked.\<close>

lemma read_entry_ok:
  assumes dir: "dir_ok v dir dcs" and rf: "read_find (dir_entries v dcs) f 0 = Inr i"
    and il: "i < length (dir_entries v dcs)"
    and cs: "file_chain (fat_of v) (fat32_cluster_id (dir_entries v dcs ! i)) cs"
    and small: "length cs * clus_size v < 4294967296"
  shows "fat32_read v dir f = Inr (file_of v cs (file_nbytes (dir_entries v dcs ! i)))"
proof -
  note d = dir_ok_simps [OF dir]
  let ?d = "dir_entries v dcs ! i" and ?s = "sectors_per_cluster (v_fs v)"
  show ?thesis
  proof (cases cs)
    case Nil
    then have "get_cluster_chain_length (v_fs v) (fat32_cluster_id ?d) = Inr 0"
      using cs by (simp add: file_chain_def get_cluster_chain_length_def)
    then show ?thesis
      using d il rf dir_ok_dirents [OF dir] Nil by (simp add: fat32_read_def Let_def file_of_def)
  next
    case (Cons c cs')
    then have c: "fat32_cluster_id ?d = c" "is_chain (fat_of v) (c # cs')"
      using cs by (simp_all add: file_chain_def)
    have len: "get_cluster_chain_length (v_fs v) c = Inr (of_nat (length cs))"
      using get_cluster_chain_length_ok [of "v_fs v" c cs'] c Cons by (simp add: fat_of_def)
    have buf: "unat (?s * 512 * of_nat (length cs)) = length cs * clus_size v"
      by (rule chain_buffer [OF small])
    then have eq: "?s * 512 * of_nat (length cs) = of_nat (length cs * clus_size v)"
      by (rule u32_eq_of_nat)
    have "length cs * clus_size v \<noteq> 0" using Cons clus_size_pos [OF d(3)] by simp
    then have nz: "?s * 512 * of_nat (length cs) \<noteq> 0" using buf by (metis unat_0)
    show ?thesis
      using d il rf dir_ok_dirents [OF dir] c len nz Cons read_cluster_chain_ok [OF d(3) c(2)]
        into_buffer_ok [OF d(3) small] eq
      by (simp add: fat32_read_def Let_def file_of_def del: of_nat_mult)
  qed
qed

lemma fat32_read_ok:
  assumes "dir_ok v dir dcs" "plain_dir (dir_entries v dcs)" "fat32_is_valid_name f" "has_dot f"
    "first_match (named f) (dir_entries v dcs) = Some i"
    "file_chain (fat_of v) (fat32_cluster_id (dir_entries v dcs ! i)) cs"
    "length cs * clus_size v < 4294967296"
  shows "fat32_read v dir f = Inr (file_of v cs (file_nbytes (dir_entries v dcs ! i)))"
proof (rule read_entry_ok [OF assms(1) _ _ assms(6,7)])
  show "read_find (dir_entries v dcs) f 0 = Inr i"
    using read_find_eq [OF dir_ok_simps(6) [OF assms(1)] assms(2-4), of 0] assms(5) by simp
  show "i < length (dir_entries v dcs)" using assms(5) by (simp add: first_match_Some)
qed

lemma fat32_stat_ok:
  assumes dir: "dir_ok v dir dcs" and name: "fat32_is_valid_name f"
  shows "fat32_stat v dir f =
    (case first_match (named f) (dir_entries v dcs) of
       None \<Rightarrow> Inr None
     | Some i \<Rightarrow> bind_r (dirent_convert (dir_entries v dcs ! i)) (\<lambda>e. Inr (Some e)))"
proof -
  note d = dir_ok_simps [OF dir]
  show ?thesis
    using d(1,2) dir_ok_dirents [OF dir] find_dirent_eq [OF d(6) name, of 0]
    by (cases "first_match (named f) (dir_entries v dcs)") (simp_all add: fat32_stat_def)
qed

section \<open>Round trip\<close>

lemma first_match_update:
  assumes "i < length ds" "P d = P (ds ! i)"
  shows "first_match P (ds[i := d]) = first_match P ds"
proof -
  have "P (ds[i := d] ! k) = P (ds ! k)" if "k < length ds" for k
    using assms that by (cases "k = i") auto
  then have "filter (\<lambda>k. P (ds[i := d] ! k)) [0..<length ds] = filter (\<lambda>k. P (ds ! k)) [0..<length ds]"
    by (intro filter_cong) auto
  then show ?thesis by (simp add: first_match_def)
qed

lemma named_updated [simp]: "named f (updated_dirent d start n) = named f d"
  by (simp add: named_def dirent_skipped_def)

lemma plain_dir_update:
  "plain_dir ds \<Longrightarrow> i < length ds \<Longrightarrow> filename d = filename (ds ! i) \<Longrightarrow> d_attr d = d_attr (ds ! i) \<Longrightarrow>
   plain_dir (ds[i := d])"
  unfolding plain_dir_def
  by (metis in_set_conv_nth length_list_update nth_list_update nth_mem)

lemma file_written_dir:
  assumes dir: "dir_ok v dir dcs" and i: "i < length dcs * epc v"
    and w: "file_written v dcs i cs v' cs' file"
  shows "dir_ok v' dir dcs"
    "first_match (named g) (dir_entries v' dcs) = first_match (named g) (dir_entries v dcs)"
    "plain_dir (dir_entries v dcs) \<Longrightarrow> plain_dir (dir_entries v' dcs)"
  using assms dir_ok_simps(3) [OF dir]
  by (auto simp: dir_ok_def file_written_def dir_small_def first_match_update
      intro!: dir_wf_update plain_dir_update)

lemma fat32_write_read_ok:
  assumes dir: "dir_ok v dir dcs" and pl: "plain_dir (dir_entries v dcs)"
    and name: "fat32_is_valid_name f" "has_dot f"
    and i: "first_match (named f) (dir_entries v dcs) = Some i"
    and w: "file_written v dcs i cs v' cs' file" and fits: "write_fits v cs (unat (n_alloc file))"
  shows "fat32_read v' dir f = Inr (file_of v' cs' (n_data file))" "cs' \<noteq> []"
    "unat (n_alloc file) \<le> length cs' * clus_size v" "length cs' * clus_size v < 4294967296"
proof -
  have v: "vol_wf v" using dir by (simp add: dir_ok_def)
  have il: "i < length dcs * epc v" using i v by (simp add: first_match_Some)
  note d' = file_written_dir [OF dir il w]
  have w': "is_chain (fat_of v') cs'" "clus_size v' = clus_size v"
    "length cs' = clusters_for (unat (n_alloc file)) v"
    using w by (simp_all add: file_written_def)
  then show ne: "cs' \<noteq> []" by auto
  then obtain k where k: "length cs' = Suc k" by (cases cs') auto
  with w'(3) show "unat (n_alloc file) \<le> length cs' * clus_size v"
    using clusters_for_iff [OF v, of "unat (n_alloc file)" k] fits by (simp add: write_fits_def)
  have "length cs' * clus_size v \<le> Suc (length cs) * clus_size v"
    using fits w'(3) by (intro mult_le_mono1) (auto simp: write_fits_def)
  also have "\<dots> < 4294967296" using fits by (simp add: write_fits_def)
  finally show small: "length cs' * clus_size v < 4294967296" .
  have de: "dir_entries v' dcs ! i = updated_dirent (dir_entries v dcs ! i) (hd cs') (n_data file)"
    using w il v by (simp add: file_written_def)
  show "fat32_read v' dir f = Inr (file_of v' cs' (n_data file))"
    using fat32_read_ok [OF d'(1) d'(3) [OF pl] name, of i cs'] i d'(2) de w' ne small
    by (simp add: file_chain_def)
qed

text \<open>A file with other clusters and another entry reads as before.\<close>

lemma other_read:
  assumes dir: "dir_ok v dir dcs" and pl: "plain_dir (dir_entries v dcs)" and i: "i < length dcs * epc v"
    and w: "file_written v dcs i cs v' cs' file"
    and g: "fat32_is_valid_name g" "has_dot g" "first_match (named g) (dir_entries v dcs) = Some j"
    and gs: "file_chain (fat_of v) (fat32_cluster_id (dir_entries v dcs ! j)) gs" "set gs \<inter> (set cs \<union> set dcs) = {}"
      "length gs * clus_size v < 4294967296" and ij: "i \<noteq> j"
  shows "fat32_read v' dir g = fat32_read v dir g"
proof -
  note d' = file_written_dir [OF dir i w]
  have e: "dir_entries v' dcs ! j = dir_entries v dcs ! j" using w ij by (simp add: file_written_def)
  have gs': "file_chain (fat_of v') (fat32_cluster_id (dir_entries v dcs ! j)) gs" "gs \<noteq> [] \<Longrightarrow> chain_bytes v' gs = chain_bytes v gs"
    "clus_size v' = clus_size v"
    using w gs(1,2) by (auto simp: file_written_def file_chain_def split: if_splits)
  have "fat32_read v dir g = Inr (file_of v gs (file_nbytes (dir_entries v dcs ! j)))"
    using fat32_read_ok [OF dir pl g gs(1,3)] .
  moreover have "fat32_read v' dir g = Inr (file_of v' gs (file_nbytes (dir_entries v dcs ! j)))"
    using fat32_read_ok [OF d'(1) d'(3) [OF pl] g(1,2), of j gs] g(3) gs(3) gs' d'(2) e by simp
  ultimately show ?thesis using gs' by (simp add: file_of_def)
qed

end
