(* ===== verification/Fat32_Dir.thy ===== *)
theory Fat32_Dir
  imports Fat32_Read
begin

unbundle bit_operations_syntax

text \<open>
  \<open>fat32_create\<close> and \<open>fat32_delete\<close>: the set of names of the directory gains or loses exactly the
  given name, deleted clusters become free, and no other file changes.
\<close>

section \<open>The free slot\<close>

lemma free_slot_Inr:
  "free_slot ds i n = Inr (s, e) \<Longrightarrow>
   i \<le> s \<and> s < i + length ds \<and> filename (ds ! (s - i)) ! 0 = (if e then 0 else 0xE5) \<and> (e \<longrightarrow> s < n - 1)"
proof (induction ds arbitrary: i)
  case (Cons d ds)
  show ?case
  proof (cases "filename d ! 0 = 0xE5 \<or> filename d ! 0 = 0")
    case True
    with Cons.prems show ?thesis by (auto split: if_splits)
  next
    case False
    with Cons.prems have "free_slot ds (Suc i) n = Inr (s, e)" by simp
    from Cons.IH [OF this] show ?thesis by (auto simp: nth_Cons' Suc_diff_Suc [symmetric])
  qed
qed simp

section \<open>Names of a directory\<close>

definition dir_names :: "fat32_dirent list \<Rightarrow> cstr set" where
  "dir_names ds = {f. fat32_is_valid_name f \<and> (\<exists>d \<in> set ds. named f d)}"

definition names_unique :: "fat32_dirent list \<Rightarrow> bool" where
  "names_unique ds \<longleftrightarrow> (\<forall>i j. i < length ds \<and> j < length ds \<and> \<not> dirent_skipped (ds ! i) \<and>
     \<not> dirent_skipped (ds ! j) \<and> filename (ds ! i) = filename (ds ! j) \<longrightarrow> i = j)"

text \<open>Behind an entry that was never used, no entry is live.\<close>

definition end_marked :: "fat32_dirent list \<Rightarrow> bool" where
  "end_marked ds \<longleftrightarrow> (\<forall>j k. j < k \<and> k < length ds \<and> filename (ds ! j) ! 0 = 0 \<longrightarrow> dirent_skipped (ds ! k))"

lemma raw83_inj:
  assumes "fat32_is_valid_name f" "fat32_is_valid_name g" "raw83 f = raw83 g"
  shows "f = g"
proof -
  have eq: "(if has_dot f then f else f @ [46, 32, 32, 32]) = (if has_dot g then g else g @ [46, 32, 32, 32])"
    using to_8dot3_raw83 [OF assms(1)] to_8dot3_raw83 [OF assms(2)] assms(3) by simp
  have "32 \<notin> set h" if "fat32_is_valid_name h" for h
    using that by (cases rule: valid_name_cases) (auto dest!: name_char_bounds)
  then have "32 \<notin> set f" "32 \<notin> set g" using assms by auto
  with eq show ?thesis by (auto split: if_splits)
qed

lemma ex_set_nth: "(\<exists>x \<in> set xs. P x) \<longleftrightarrow> (\<exists>k<length xs. P (xs ! k))"
  by (metis in_set_conv_nth)

lemma ex_set_update:
  assumes "i < length xs"
  shows "(\<exists>x \<in> set (xs[i := d]). P x) \<longleftrightarrow> P d \<or> (\<exists>k<length xs. k \<noteq> i \<and> P (xs ! k))"
  unfolding ex_set_nth length_list_update
proof
  assume "\<exists>k<length xs. P (xs[i := d] ! k)"
  then obtain k where "k < length xs" "P (xs[i := d] ! k)" by blast
  then show "P d \<or> (\<exists>k<length xs. k \<noteq> i \<and> P (xs ! k))" by (cases "k = i") auto
next
  assume "P d \<or> (\<exists>k<length xs. k \<noteq> i \<and> P (xs ! k))"
  then show "\<exists>k<length xs. P (xs[i := d] ! k)"
  proof
    assume "P d"
    then show ?thesis using assms by (intro exI [of _ i]) simp
  next
    assume "\<exists>k<length xs. k \<noteq> i \<and> P (xs ! k)"
    then show ?thesis by auto
  qed
qed

lemma dir_names_update:
  assumes "i < length ds" "dirent_skipped (ds ! i)"
  shows "dir_names (ds[i := d]) = dir_names ds \<union> {f. fat32_is_valid_name f \<and> named f d}"
proof -
  have "(\<exists>x \<in> set (ds[i := d]). named f x) \<longleftrightarrow> named f d \<or> (\<exists>x \<in> set ds. named f x)" for f
  proof -
    have "\<not> named f (ds ! i)" using assms(2) by (simp add: named_def)
    then show ?thesis unfolding ex_set_update [OF assms(1)] ex_set_nth [of ds] by auto
  qed
  then show ?thesis by (auto simp: dir_names_def)
qed

lemma dir_names_remove:
  assumes "i < length ds" "names_unique ds" "named f (ds ! i)" "dirent_skipped d" "fat32_is_valid_name f"
  shows "dir_names (ds[i := d]) = dir_names ds - {f}"
proof -
  have "(\<exists>x \<in> set (ds[i := d]). named g x) \<longleftrightarrow> (\<exists>x \<in> set ds. named g x) \<and> g \<noteq> f"
    if "fat32_is_valid_name g" for g
  proof -
    have "k = i" if "k < length ds" "named f (ds ! k)" for k
      using that assms(1,2,3) by (auto simp: names_unique_def named_def)
    moreover have "g = f" if "named g (ds ! i)"
      using that assms(3,5) raw83_inj \<open>fat32_is_valid_name g\<close> by (auto simp: named_def)
    moreover have "\<not> named g d" using assms(4) by (simp add: named_def)
    ultimately show ?thesis unfolding ex_set_update [OF assms(1)] ex_set_nth [of ds] by blast
  qed
  then show ?thesis by (auto simp: dir_names_def)
qed

section \<open>Creating a file\<close>

definition new_dirent :: "fat32_dirent \<Rightarrow> cstr \<Rightarrow> fat32_dirent" where
  "new_dirent d f = d\<lparr>filename := raw83 f, d_attr := 0x20, file_nbytes := 0, lo_start := 0, hi_start := 0\<rparr>"

definition end_dirent :: "fat32_dirent \<Rightarrow> fat32_dirent" where
  "end_dirent d = d\<lparr>filename := (filename d)[0 := 0]\<rparr>"

definition created :: "vol \<Rightarrow> u32 list \<Rightarrow> cstr \<Rightarrow> nat \<Rightarrow> bool \<Rightarrow> vol" where
  "created v dcs f s e =
     (let v' = put_dirent v dcs s (new_dirent (dir_entries v dcs ! s) f) in
      if e then put_dirent v' dcs (s + 1) (end_dirent (dir_entries v dcs ! (s + 1))) else v')"

definition new_entries :: "fat32_dirent list \<Rightarrow> cstr \<Rightarrow> nat \<Rightarrow> bool \<Rightarrow> fat32_dirent list" where
  "new_entries ds f s e =
     (let ds' = ds[s := new_dirent (ds ! s) f] in
      if e then ds'[s + 1 := end_dirent (ds ! (s + 1))] else ds')"

lemma new_dirent_live: "fat32_is_valid_name f \<Longrightarrow> \<not> dirent_skipped (new_dirent d f)"
  using raw83_first [of f] by (simp add: dirent_skipped_def new_dirent_def)

lemma end_dirent_skipped: "length (filename d) = 11 \<Longrightarrow> dirent_skipped (end_dirent d)"
  by (simp add: dirent_skipped_def end_dirent_def)

lemma new_dirent_convert:
  assumes "fat32_is_valid_name f"
  shows "dirent_convert (new_dirent d f) =
    Inr \<lparr>de_name = (if has_dot f then f else f @ [46, 32, 32, 32]), raw_name = raw83 f, cluster_id = 0,
         is_dir_p = False, nbytes = 0\<rparr>"
  using to_8dot3_raw83 [OF assms]
  by (simp add: dirent_convert_def fat32_dirent_name_def new_dirent_def fat32_cluster_id_def)

lemma created_ok:
  assumes dir: "dir_ok v dir dcs" and f: "fat32_is_valid_name f"
    and slot: "free_slot (dir_entries v dcs) 0 (length (dir_entries v dcs)) = Inr (s, e)"
  shows "vol_wf (created v dcs f s e)" "fat_of (created v dcs f s e) = fat_of v"
    "clus_size (created v dcs f s e) = clus_size v" "in_range (created v dcs f s e) = in_range v"
    "dir_entries (created v dcs f s e) dcs = new_entries (dir_entries v dcs) f s e"
    "\<And>xs. is_chain (fat_of v) xs \<Longrightarrow> set xs \<inter> set dcs = {} \<Longrightarrow>
       chain_bytes (created v dcs f s e) xs = chain_bytes v xs"
proof -
  note d = dir_ok_simps [OF dir]
  let ?ds = "dir_entries v dcs" and ?n = "new_dirent (dir_entries v dcs ! s) f"
  let ?v = "put_dirent v dcs s ?n"
  note sl = free_slot_Inr [OF slot]
  have s: "s < length dcs * epc v" and s1: "e \<Longrightarrow> s + 1 < length dcs * epc v"
    using sl d(3) by auto
  have n11: "length (filename ?n) = 11" using f by (simp add: new_dirent_def)
  have e11: "e \<Longrightarrow> length (filename (end_dirent (?ds ! (s + 1)))) = 11"
    using dir_entry_filename [OF d(3) s1] by (simp add: end_dirent_def)
  show "vol_wf (created v dcs f s e)" "fat_of (created v dcs f s e) = fat_of v"
    "clus_size (created v dcs f s e) = clus_size v" "in_range (created v dcs f s e) = in_range v"
    using d(3) by (simp_all add: created_def Let_def)
  show "dir_entries (created v dcs f s e) dcs = new_entries ?ds f s e"
    using dir_entries_put_dirent [OF d(3,4) s n11] e11 s1 d(3,4)
      dir_entries_put_dirent [of ?v dcs "s + 1" "end_dirent (?ds ! (s + 1))"]
    by (simp add: created_def new_entries_def Let_def)
  fix xs assume xs: "is_chain (fat_of v) xs" "set xs \<inter> set dcs = {}"
  then have r: "\<forall>x \<in> set xs. in_range v x" using in_range_chain by blast
  show "chain_bytes (created v dcs f s e) xs = chain_bytes v xs"
    using xs r d(3,4) s s1 by (simp add: created_def Let_def chain_bytes_put_dirent_other)
qed

lemma free_slot_first:
  "free_slot ds i n = Inr (s, e) \<Longrightarrow> i \<le> j \<Longrightarrow> j < s \<Longrightarrow> filename (ds ! (j - i)) ! 0 \<noteq> 0"
proof (induction ds arbitrary: i)
  case (Cons d ds)
  show ?case
  proof (cases "filename d ! 0 = 0xE5 \<or> filename d ! 0 = 0")
    case True
    with Cons.prems show ?thesis by (auto split: if_splits)
  next
    case False
    with Cons.prems have "free_slot ds (Suc i) n = Inr (s, e)" by simp
    with Cons.IH [of "Suc i"] Cons.prems False show ?thesis
      by (cases "j = i") (auto simp: nth_Cons' Suc_diff_Suc [symmetric])
  qed
qed simp

lemma fat32_create_new:
  assumes dir: "dir_ok v dir dcs" and f: "fat32_is_valid_name f"
    and new: "first_match (named f) (dir_entries v dcs) = None"
    and slot: "free_slot (dir_entries v dcs) 0 (length (dir_entries v dcs)) = Inr (s, e)"
  shows "fat32_create v dir f False =
    Inr (Some \<lparr>de_name = (if has_dot f then f else f @ [46, 32, 32, 32]), raw_name = raw83 f, cluster_id = 0,
               is_dir_p = False, nbytes = 0\<rparr>, created v dcs f s e)"
proof -
  note d = dir_ok_simps [OF dir]
  let ?ds = "dir_entries v dcs" and ?n = "new_dirent (dir_entries v dcs ! s) f"
  note sl = free_slot_Inr [OF slot]
  have s: "s < length dcs * epc v" and s1: "e \<Longrightarrow> s + 1 < length dcs * epc v"
    using sl d(3) by auto
  have fd: "find_dirent_with_name ?ds f 0 = Inr None"
    using find_dirent_eq [OF d(6) f, of 0] new by simp
  have w1: "fat32_write_dirent v d' dir (of_nat s) = Inr (put_dirent v dcs s d')" for d'
    using write_dirent_ok [OF d(3,4) s d(5,7)] .
  have w2: "fat32_write_dirent (put_dirent v dcs s ?n) d' dir (of_nat (s + 1))
      = Inr (put_dirent (put_dirent v dcs s ?n) dcs (s + 1) d')" if e for d'
    using d s1 [OF that] by (intro write_dirent_ok) (auto simp: dir_small_def)
  show ?thesis
    using d f fd slot w1 w2 dir_ok_dirents [OF dir] new_dirent_convert [OF f, of "?ds ! s"]
    by (auto simp: fat32_create_def set_name_ok created_def Let_def end_dirent_def
        simp flip: new_dirent_def simp del: of_nat_Suc of_nat_add)
qed

lemma fat32_create_existing:
  assumes dir: "dir_ok v dir dcs" and f: "fat32_is_valid_name f"
    and old: "first_match (named f) (dir_entries v dcs) = Some i"
  shows "fat32_create v dir f b =
    bind_r (dirent_convert (dir_entries v dcs ! i)) (\<lambda>x. Inr (Some x, v))"
proof -
  note d = dir_ok_simps [OF dir]
  show ?thesis
    using d f find_dirent_eq [OF d(6) f, of 0] old dir_ok_dirents [OF dir] by (simp add: fat32_create_def)
qed

text \<open>The invariant of a directory that \<open>fat32_create\<close> and \<open>fat32_delete\<close> maintain.\<close>

definition dir_inv :: "fat32_dirent list \<Rightarrow> bool" where
  "dir_inv ds \<longleftrightarrow> dir_wf ds \<and> names_unique ds \<and> end_marked ds \<and> (\<forall>d \<in> set ds. length (filename d) = 11)"

lemma nth_new_entries:
  assumes "k < length ds" "s < length ds" "e \<Longrightarrow> s + 1 < length ds"
  shows "new_entries ds f s e ! k =
    (if e \<and> k = s + 1 then end_dirent (ds ! k) else if k = s then new_dirent (ds ! s) f else ds ! k)"
  using assms by (auto simp: new_entries_def Let_def nth_list_update)

lemma length_new_entries [simp]: "length (new_entries ds f s e) = length ds"
  by (simp add: new_entries_def Let_def)

lemma new_entries_end_marked:
  assumes inv: "dir_inv ds" and f: "fat32_is_valid_name f" and slot: "free_slot ds 0 (length ds) = Inr (s, e)"
  shows "end_marked (new_entries ds f s e)" (is "end_marked ?es")
  unfolding end_marked_def
proof (intro allI impI, elim conjE)
  fix j k assume a: "j < k" "k < length ?es" "filename (?es ! j) ! 0 = 0"
  note sl = free_slot_Inr [OF slot]
  have s: "s < length ds" and s1: "e \<Longrightarrow> s + 1 < length ds" using sl by auto
  have nth: "i < length ds \<Longrightarrow> ?es ! i =
      (if e \<and> i = s + 1 then end_dirent (ds ! i) else if i = s then new_dirent (ds ! s) f else ds ! i)" for i
    by (rule nth_new_entries [OF _ s s1])
  have em: "dirent_skipped (ds ! k)" if "i < k" "filename (ds ! i) ! 0 = 0" for i
    using that a(2) inv by (auto simp: dir_inv_def end_marked_def)
  have "j \<noteq> s" using a nth [OF s] raw83_first [OF f] by (auto simp: new_dirent_def)
  then have sj: "s < j"
    using a nth [of j] free_slot_first [OF slot, of j] by (cases "j < s") auto
  have "dirent_skipped (ds ! k)"
  proof (cases "e \<and> j = s + 1")
    case True
    then show ?thesis using em [of s] sl a by auto
  next
    case False
    then show ?thesis using em [of j] a nth [of j] \<open>j \<noteq> s\<close> by auto
  qed
  moreover have "dirent_skipped (end_dirent (ds ! k))"
    using end_dirent_skipped inv a(2) by (simp add: dir_inv_def)
  ultimately show "dirent_skipped (?es ! k)" using nth [of k] a sj by (auto split: if_splits)
qed

lemma new_entries_inv:
  assumes inv: "dir_inv ds" and f: "fat32_is_valid_name f" and new: "\<forall>d \<in> set ds. \<not> named f d"
    and slot: "free_slot ds 0 (length ds) = Inr (s, e)"
  shows "dir_inv (new_entries ds f s e)"
proof -
  let ?es = "new_entries ds f s e"
  note sl = free_slot_Inr [OF slot]
  have s: "s < length ds" and s1: "e \<Longrightarrow> s + 1 < length ds" using sl by auto
  have nth: "k < length ds \<Longrightarrow> ?es ! k =
      (if e \<and> k = s + 1 then end_dirent (ds ! k) else if k = s then new_dirent (ds ! s) f else ds ! k)" for k
    by (rule nth_new_entries [OF _ s s1])
  have len: "k < length ds \<Longrightarrow> length (filename (ds ! k)) = 11" for k using inv by (simp add: dir_inv_def)
  have skip: "k < length ds \<Longrightarrow> e \<and> k = s + 1 \<Longrightarrow> dirent_skipped (?es ! k)" for k
    using nth len end_dirent_skipped by simp
  have live: "k = s \<or> k \<noteq> s \<and> ?es ! k = ds ! k"
    if "k < length ds" "\<not> dirent_skipped (?es ! k)" for k using nth skip that by (auto split: if_splits)
  have raw: "filename (?es ! s) = raw83 f" using nth [OF s] by (simp add: new_dirent_def)
  have "wf_raw (filename (?es ! k))" if "k < length ds" "\<not> dirent_skipped (?es ! k)" for k
    using live [OF that] raw wf_raw83 [OF f] inv that by (auto simp: dir_inv_def dir_wf_def)
  moreover have "length (filename (?es ! k)) = 11" if "k < length ds" for k
    using nth [OF that] len [OF that] f by (auto simp: new_dirent_def end_dirent_def)
  moreover have "names_unique ?es"
    unfolding names_unique_def
  proof (intro allI impI, elim conjE)
    fix i j assume a: "i < length ?es" "j < length ?es" "\<not> dirent_skipped (?es ! i)"
      "\<not> dirent_skipped (?es ! j)" "filename (?es ! i) = filename (?es ! j)"
    have no: "filename (ds ! k) \<noteq> raw83 f" if "k < length ds" "\<not> dirent_skipped (ds ! k)" for k
      using new that by (auto simp: named_def)
    show "i = j"
      using a live [of i] live [of j] raw no [of i] no [of j] inv by (auto simp: dir_inv_def names_unique_def)
  qed
  moreover have "end_marked ?es" by (rule new_entries_end_marked [OF assms(1,2,4)])
  ultimately show ?thesis by (auto simp: dir_inv_def dir_wf_def all_set_conv_all_nth)
qed

lemma dir_names_created:
  assumes inv: "dir_inv ds" and f: "fat32_is_valid_name f" and slot: "free_slot ds 0 (length ds) = Inr (s, e)"
  shows "dir_names (new_entries ds f s e) = insert f (dir_names ds)"
proof -
  note sl = free_slot_Inr [OF slot]
  let ?ds = "ds[s := new_dirent (ds ! s) f]"
  have s: "s < length ds" "dirent_skipped (ds ! s)" using sl by (auto simp: dirent_skipped_def split: if_splits)
  have "named g (new_dirent (ds ! s) f) \<longleftrightarrow> g = f" if "fat32_is_valid_name g" for g
    using that f raw83_inj new_dirent_live [OF f] by (auto simp: named_def new_dirent_def)
  then have names: "dir_names ?ds = insert f (dir_names ds)"
    using dir_names_update [OF s, of "new_dirent (ds ! s) f"] f by auto
  show ?thesis
  proof (cases e)
    case True
    then have s1: "s + 1 < length ds" "filename (ds ! s) ! 0 = 0" using sl by auto
    then have "dirent_skipped (ds ! (s + 1))" using inv unfolding dir_inv_def end_marked_def by (meson less_add_one)
    moreover have "dirent_skipped (end_dirent (ds ! (s + 1)))"
      using end_dirent_skipped inv s1 by (simp add: dir_inv_def)
    ultimately show ?thesis
      using dir_names_update [of "s + 1" ?ds "end_dirent (ds ! (s + 1))"] s1 True names
      by (simp add: new_entries_def Let_def named_def)
  next
    case False
    then show ?thesis using names by (simp add: new_entries_def Let_def)
  qed
qed

section \<open>Deleting a file\<close>

fun free_clusters :: "vol \<Rightarrow> u32 list \<Rightarrow> vol" where
  "free_clusters v [] = v"
| "free_clusters v (c # cs) = free_clusters (put_fat v c 0) cs"

lemma free_clusters_consts [simp]:
  "v_init_p (free_clusters v cs) = v_init_p v" "spc (free_clusters v cs) = spc v"
  "v_sd (free_clusters v cs) = v_sd v" "epc (free_clusters v cs) = epc v"
  "in_range (free_clusters v cs) = in_range v" "clus_size (free_clusters v cs) = clus_size v"
  "cluster_bytes (free_clusters v cs) = cluster_bytes v" "length (fat_of (free_clusters v cs)) = length (fat_of v)"
  by (induction cs arbitrary: v) (auto simp: epc_def)

lemma vol_wf_free_clusters [simp]: "vol_wf v \<Longrightarrow> vol_wf (free_clusters v cs)"
  by (induction cs arbitrary: v) auto

lemma free_chain_loop_ok:
  "is_chain (fat_of v) (c # cs) \<Longrightarrow> length cs < k \<Longrightarrow> free_chain_loop k v c = Inr (free_clusters v (c # cs))"
proof (induction cs arbitrary: c k v)
  case Nil
  then show ?case by (cases k) (auto simp: set_fat_ok fat_of_def)
next
  case (Cons d cs)
  then obtain k' where k: "k = Suc k'" by (cases k) auto
  have "c \<notin> set (d # cs)" using is_chain_distinct [OF Cons.prems(1)] by simp
  then have "is_chain (fat_of (put_fat v c 0)) (d # cs)"
    using Cons.prems(1) is_chain_update_notin [of c "d # cs" "fat_of v" 0] by simp
  then have "free_chain_loop k' (put_fat v c 0) d = Inr (free_clusters (put_fat v c 0) (d # cs))"
    using Cons.prems(2) k by (intro Cons.IH) auto
  with Cons.prems k show ?case by (simp add: set_fat_ok fat_of_def)
qed

lemma is_chain_free_other: "set xs \<inter> set cs = {} \<Longrightarrow> is_chain (fat_of v) xs \<Longrightarrow> is_chain (fat_of (free_clusters v cs)) xs"
  by (induction cs arbitrary: v) (auto simp: is_chain_update_notin)

lemma freed_entries:
  "unat c < length (fat_of v) \<Longrightarrow> c \<in> set cs \<or> fat_of v ! unat c = 0 \<Longrightarrow> fat_of (free_clusters v cs) ! unat c = 0"
proof (induction cs arbitrary: v)
  case (Cons d cs)
  have "fat_of (put_fat v d 0) ! unat c = 0" if "c = d \<or> fat_of v ! unat c = 0"
    using that Cons.prems(1) by (cases "unat d = unat c") auto
  with Cons show ?case by auto
qed auto

definition dead_dirent :: "fat32_dirent \<Rightarrow> fat32_dirent" where
  "dead_dirent d = d\<lparr>filename := (filename d)[0 := 0xE5]\<rparr>"

definition deleted :: "vol \<Rightarrow> u32 list \<Rightarrow> nat \<Rightarrow> u32 list \<Rightarrow> vol" where
  "deleted v dcs i cs = finish_write (free_clusters v cs) dcs i (dead_dirent (dir_entries v dcs ! i))"

lemma dead_dirent_skipped: "length (filename d) = 11 \<Longrightarrow> dirent_skipped (dead_dirent d)"
  by (simp add: dirent_skipped_def dead_dirent_def)

lemma fat32_delete_ok:
  assumes dir: "dir_ok v dir dcs" and f: "fat32_is_valid_name f"
    and i: "first_match (named f) (dir_entries v dcs) = Some i"
    and cs: "file_chain (fat_of v) (fat32_cluster_id (dir_entries v dcs ! i)) cs"
    and disj: "set cs \<inter> set dcs = {}"
  shows "fat32_delete v dir f = Inr (True, deleted v dcs i cs)"
proof -
  note d = dir_ok_simps [OF dir]
  let ?d = "dead_dirent (dir_entries v dcs ! i)" and ?v = "free_clusters v cs"
  have il: "i < length dcs * epc v" using i d(3) by (simp add: first_match_Some)
  have fd: "find_dirent_with_name (dir_entries v dcs) f 0 = Inr (Some i)"
    using find_dirent_eq [OF d(6) f, of 0] i by simp
  have id: "fat32_cluster_id ?d = fat32_cluster_id (dir_entries v dcs ! i)"
    by (simp add: dead_dirent_def fat32_cluster_id_def)
  have free: "(if fat32_cluster_id ?d \<noteq> 0 then free_chain_loop (3 + length (fat (v_fs v))) v (fat32_cluster_id ?d)
      else Inr v) = Inr ?v"
  proof (cases cs)
    case Nil
    then show ?thesis using cs id by (simp add: file_chain_def)
  next
    case (Cons c cs')
    then have c: "fat32_cluster_id ?d = c" "is_chain (fat_of v) (c # cs')"
      using cs id by (simp_all add: file_chain_def)
    have "length cs' < 3 + length (fat (v_fs v))" using is_chain_length [OF c(2)] by (simp add: fat_of_def)
    then show ?thesis
      using free_chain_loop_ok [OF c(2)] is_chain_bounds [OF c(2), of c] Cons c(1)
      by (auto simp del: free_chain_loop.simps)
  qed
  have "fat32_write_dirent ?v ?d dir (of_nat i) = Inr (put_dirent ?v dcs i ?d)"
    using d il disj is_chain_free_other [of dcs cs v]
    by (intro write_dirent_ok) (auto simp: dir_small_def)
  then show ?thesis
    using d(1,3,7) f fd free dir_ok_dirents [OF dir]
    by (simp add: fat32_delete_def Let_def write_fat_to_disk_ok deleted_def finish_write_def
        flip: dead_dirent_def del: free_chain_loop.simps)
qed

lemma deleted_ok:
  assumes dir: "dir_ok v dir dcs" and i: "i < length dcs * epc v" and disj: "set cs \<inter> set dcs = {}"
  shows "vol_wf (deleted v dcs i cs)" "clus_size (deleted v dcs i cs) = clus_size v"
    "dir_entries (deleted v dcs i cs) dcs = (dir_entries v dcs)[i := dead_dirent (dir_entries v dcs ! i)]"
    "\<And>c. c \<in> set cs \<Longrightarrow> in_range v c \<Longrightarrow> fat_of (deleted v dcs i cs) ! unat c = 0"
    "\<And>xs. is_chain (fat_of v) xs \<Longrightarrow> set xs \<inter> set cs = {} \<Longrightarrow> is_chain (fat_of (deleted v dcs i cs)) xs"
    "\<And>xs. is_chain (fat_of v) xs \<Longrightarrow> set xs \<inter> set dcs = {} \<Longrightarrow>
       chain_bytes (deleted v dcs i cs) xs = chain_bytes v xs"
proof -
  note d = dir_ok_simps [OF dir]
  let ?v = "free_clusters v cs" and ?d = "dead_dirent (dir_entries v dcs ! i)"
  have dcs: "is_chain (fat_of ?v) dcs" using is_chain_free_other [of dcs cs v] d(4) disj by (simp add: Int_commute)
  have d11: "length (filename ?d) = 11" using dir_entry_filename [OF d(3) i] by (simp add: dead_dirent_def)
  have i': "i < length dcs * epc ?v" using i by simp
  have same: "chain_bytes ?v = chain_bytes v" by (simp add: chain_bytes_def fun_eq_iff)
  show "vol_wf (deleted v dcs i cs)" "clus_size (deleted v dcs i cs) = clus_size v"
    using d(3) by (simp_all add: deleted_def)
  show "dir_entries (deleted v dcs i cs) dcs = (dir_entries v dcs)[i := ?d]"
    using dir_entries_finish [OF _ dcs i' d11] d(3) same by (simp add: deleted_def dir_entries_def)
  show "fat_of (deleted v dcs i cs) ! unat c = 0" if "c \<in> set cs" "in_range v c" for c
    using freed_entries [of c v cs] that by (simp add: deleted_def in_range_def fat_of_def)
  show "is_chain (fat_of (deleted v dcs i cs)) xs" if "is_chain (fat_of v) xs" "set xs \<inter> set cs = {}" for xs
    using is_chain_free_other that by (simp add: deleted_def)
  show "chain_bytes (deleted v dcs i cs) xs = chain_bytes v xs"
    if "is_chain (fat_of v) xs" "set xs \<inter> set dcs = {}" for xs
    using chain_bytes_finish_other [OF _ dcs i', of xs] in_range_chain [OF that(1)] that(2) d(3) same
    by (simp add: deleted_def)
qed

lemma dead_entries_inv:
  assumes inv: "dir_inv ds" and i: "i < length ds"
  shows "dir_inv (ds[i := dead_dirent (ds ! i)])"
proof -
  let ?es = "ds[i := dead_dirent (ds ! i)]"
  have l: "length (filename (ds ! i)) = 11" using inv i by (simp add: dir_inv_def)
  have skip: "dirent_skipped (?es ! i)" using dead_dirent_skipped [OF l] i by simp
  have live: "k \<noteq> i \<and> ?es ! k = ds ! k" if "\<not> dirent_skipped (?es ! k)" for k
    using skip that by (cases "k = i") auto
  have "end_marked ?es"
    unfolding end_marked_def
  proof (intro allI impI, elim conjE)
    fix j k assume a: "j < k" "k < length ?es" "filename (?es ! j) ! 0 = 0"
    then have "filename (ds ! j) ! 0 = 0" using l i by (cases "j = i") (auto simp: dead_dirent_def)
    with a inv have "dirent_skipped (ds ! k)" by (auto simp: dir_inv_def end_marked_def)
    with skip show "dirent_skipped (?es ! k)" by (cases "k = i") auto
  qed
  moreover have "names_unique ?es"
    using inv live unfolding dir_inv_def names_unique_def length_list_update by metis
  moreover have "wf_raw (filename (?es ! k))" if "k < length ds" "\<not> dirent_skipped (?es ! k)" for k
    using inv live [OF that(2)] that by (auto simp: dir_inv_def dir_wf_def)
  moreover have "length (filename (?es ! k)) = 11" if "k < length ds" for k
    using inv l that by (cases "k = i") (auto simp: dir_inv_def dead_dirent_def)
  ultimately show ?thesis by (auto simp: dir_inv_def dir_wf_def all_set_conv_all_nth)
qed

end
