(* ===== verification/Fat32_Sample.thy ===== *)
theory Fat32_Sample
  imports Fat32_Dir
begin

text \<open>
  A small concrete volume: 128 FAT entries, one sector per cluster, a root directory in cluster 2
  with the files \<open>A.TXT\<close> (cluster 3) and \<open>B.TXT\<close> (cluster 4), both one cluster long, and the empty
  file \<open>E.TXT\<close>. The witnesses of
  the file system properties are evaluated on it.
\<close>

lemma dirents_of_append:
  assumes "length b = 32"
  shows "dirents_of (b @ r) = dirent_of b # dirents_of r"
proof (rule nth_equalityI)
  show "length (dirents_of (b @ r)) = length (dirent_of b # dirents_of r)" using assms by simp
  fix k assume "k < length (dirents_of (b @ r))"
  then show "dirents_of (b @ r) ! k = (dirent_of b # dirents_of r) ! k"
    using assms by (cases k) (simp_all add: nth_dirents_of)
qed

lemma dirents_of_concat:
  "\<forall>d \<in> set ds. length (filename d) = 11 \<Longrightarrow> dirents_of (concat (map dirent_bytes ds)) = ds"
  by (induction ds) (simp_all add: dirents_of_append length_dirent_bytes, simp add: dirents_of_def)

lemma length_dirents:
  "\<forall>d \<in> set ds. length (filename d) = 11 \<Longrightarrow> length (concat (map dirent_bytes ds)) = 32 * length ds"
  by (induction ds) (simp_all add: length_dirent_bytes)

definition sample_dirent :: "cstr \<Rightarrow> u8 \<Rightarrow> u16 \<Rightarrow> u32 \<Rightarrow> fat32_dirent" where
  "sample_dirent r a c n = \<lparr>filename = r, d_attr = a, reserved0 = 0, ctime_tenths = 0, ctime = 0,
     create_date = 0, access_date = 0, hi_start = 0, mod_time = 0, mod_date = 0, lo_start = c, file_nbytes = n\<rparr>"

definition name_A :: cstr where "name_A = [65, 46, 84, 88, 84]"
definition name_B :: cstr where "name_B = [66, 46, 84, 88, 84]"
definition name_E :: cstr where "name_E = [69, 46, 84, 88, 84]"
definition name_C :: cstr where "name_C = [67, 46, 84, 88, 84]"

definition sample_dir :: "fat32_dirent list" where
  "sample_dir = sample_dirent [65, 32, 32, 32, 32, 32, 32, 32, 84, 88, 84] 0x20 3 5
     # sample_dirent [66, 32, 32, 32, 32, 32, 32, 32, 84, 88, 84] 0x20 4 7
     # sample_dirent [69, 32, 32, 32, 32, 32, 32, 32, 84, 88, 84] 0x20 0 0
     # replicate 13 (sample_dirent (replicate 11 0) 0 0 0)"

definition sample_fat :: "u32 list" where
  "sample_fat = [0x0FFFFFF8, 0xFFFFFFFF, 0xFFFFFFFF, 0xFFFFFFFF, 0xFFFFFFFF] @ replicate 123 0"

definition sample_sd :: sd where
  "sample_sd = \<lparr>sectors = (\<lambda>s. if s = 40 then concat (map dirent_bytes sample_dir) else replicate 512 7),
     sd_dead = False, sd_bad = (\<lambda>_. False), sd_init_p = True, sd_trace_p = False\<rparr>"

definition sample_vol :: vol where
  "sample_vol = \<lparr>v_fs = \<lparr>lba_start = 0, fat_begin_lba = 32, cluster_begin_lba = 40, sectors_per_cluster = 1,
     root_dir_first_cluster = 2, fat = sample_fat, n_entries = 128\<rparr>, v_sd = sample_sd, v_init_p = True\<rparr>"

definition sample_root :: pi_dirent where
  "sample_root = \<lparr>de_name = [], raw_name = [], cluster_id = 2, is_dir_p = True, nbytes = 0\<rparr>"

definition sample_file :: pi_file where
  "sample_file = \<lparr>f_data = Some (\<lambda>k. of_nat k), n_alloc = 600, n_data = 600\<rparr>"

definition short_file :: pi_file where
  "short_file = \<lparr>f_data = Some (\<lambda>k. of_nat k), n_alloc = 300, n_data = 300\<rparr>"

lemma sample_names:
  "fat32_is_valid_name name_A" "has_dot name_A" "fat32_is_valid_name name_B" "has_dot name_B"
  "fat32_is_valid_name name_C" "has_dot name_C"  "fat32_is_valid_name name_E" "has_dot name_E"
  "raw83 name_A = [65, 32, 32, 32, 32, 32, 32, 32, 84, 88, 84]"
  "raw83 name_B = [66, 32, 32, 32, 32, 32, 32, 32, 84, 88, 84]"
  "raw83 name_C = [67, 32, 32, 32, 32, 32, 32, 32, 84, 88, 84]"
  "raw83 name_E = [69, 32, 32, 32, 32, 32, 32, 32, 84, 88, 84]"
  by code_simp+

lemma sample_filenames: "\<forall>d \<in> set sample_dir. length (filename d) = 11"
  by (simp add: sample_dir_def sample_dirent_def)

lemma sample_wf: "vol_wf sample_vol"
proof -
  have "length (concat (map dirent_bytes sample_dir)) = 512"
    using length_dirents [OF sample_filenames] by (simp add: sample_dir_def)
  then show ?thesis
    by (simp add: vol_wf_def sample_vol_def sd_ready_def sample_sd_def geom_def sample_fat_def)
qed

lemma sample_sizes [simp]:
  "spc sample_vol = 1" "clus_size sample_vol = 512" "epc sample_vol = 16" "fat_of sample_vol = sample_fat"
  by (simp_all add: spc_def clus_size_def epc_def fat_of_def sample_vol_def)

lemma sample_chains: "is_chain sample_fat [2]" "is_chain sample_fat [3]" "is_chain sample_fat [4]"
  by (simp_all add: sample_fat_def)

lemma sample_entries: "dir_entries sample_vol [2] = sample_dir"
proof -
  have "cluster_bytes sample_vol 2 = concat (map dirent_bytes sample_dir)"
    by (simp add: cluster_bytes_def read_secs_def lba_def sample_vol_def sample_sd_def spc_def)
  then show ?thesis
    using dirents_of_concat [OF sample_filenames] by (simp add: dir_entries_def chain_bytes_def)
qed

lemma sample_skipped: "dirent_skipped (sample_dirent (replicate 11 0) a c n)"
  by (simp add: dirent_skipped_def sample_dirent_def)

lemma sample_live:
  "\<not> dirent_skipped (sample_dirent (raw83 name_A) 0x20 c n)" "\<not> dirent_skipped (sample_dirent (raw83 name_B) 0x20 c n)"
  "\<not> dirent_skipped (sample_dirent (raw83 name_E) 0x20 c n)"
  by (simp_all add: dirent_skipped_def sample_dirent_def sample_names)

lemma sample_dir_alt:
  "sample_dir = sample_dirent (raw83 name_A) 0x20 3 5 # sample_dirent (raw83 name_B) 0x20 4 7
     # sample_dirent (raw83 name_E) 0x20 0 0 # replicate 13 (sample_dirent (replicate 11 0) 0 0 0)"
  by (simp add: sample_dir_def sample_names)

lemma sample_dir_inv: "dir_inv sample_dir"
proof -
  have "wf_raw (raw83 name_A)" "wf_raw (raw83 name_B)" "wf_raw (raw83 name_E)" using wf_raw83 sample_names by blast+
  then have "dir_wf sample_dir"
    by (auto simp: dir_wf_def sample_dir_alt sample_skipped) (simp_all add: sample_dirent_def)
  moreover have k: "k = 0 \<or> k = 1 \<or> k = 2 \<or> dirent_skipped (sample_dir ! k)" if "k < 16" for k
    using that sample_skipped by (auto simp: sample_dir_alt nth_Cons')
  moreover have n: "raw83 name_A \<noteq> raw83 name_B" "raw83 name_A \<noteq> raw83 name_E" "raw83 name_B \<noteq> raw83 name_E" by (simp_all add: sample_names)
  have len: "length sample_dir = 16" by (simp add: sample_dir_def)
  have "names_unique sample_dir"
    unfolding names_unique_def len
  proof (intro allI impI, elim conjE)
    fix i j :: nat
    assume "i < 16" "j < 16" "\<not> dirent_skipped (sample_dir ! i)" "\<not> dirent_skipped (sample_dir ! j)"
      and eq: "filename (sample_dir ! i) = filename (sample_dir ! j)"
    then have "(i = 0 \<or> i = 1 \<or> i = 2) \<and> (j = 0 \<or> j = 1 \<or> j = 2)" using k by blast
    with eq n show "i = j" by (auto simp: sample_dir_alt sample_dirent_def)
  qed
  moreover have "end_marked sample_dir"
    unfolding end_marked_def len
  proof (intro allI impI, elim conjE)
    fix i j :: nat
    assume a: "i < j" "j < 16" "filename (sample_dir ! i) ! 0 = 0"
    then have "i \<noteq> 0" by (cases "i = 0") (auto simp: sample_dir_def sample_dirent_def)
    moreover have "i \<noteq> 1" using a by (cases "i = 1") (auto simp: sample_dir_def sample_dirent_def)
    ultimately show "dirent_skipped (sample_dir ! j)" using a k [of j] by auto
  qed
  ultimately show ?thesis using sample_filenames by (simp add: dir_inv_def)
qed

lemma sample_dir_ok: "dir_ok sample_vol sample_root [2]"
  using sample_wf sample_chains(1) sample_dir_inv
  by (simp add: dir_ok_def sample_root_def dir_small_def sample_entries dir_inv_def)

lemma sample_plain: "plain_dir sample_dir"
  by (simp add: plain_dir_def sample_dir_def sample_dirent_def)

lemma sample_match:
  "first_match (named name_A) sample_dir = Some 0" "first_match (named name_B) sample_dir = Some 1"
  "first_match (named name_E) sample_dir = Some 2" "first_match (named name_C) sample_dir = None"
proof -
  show "first_match (named name_A) sample_dir = Some 0" "first_match (named name_B) sample_dir = Some 1"
    "first_match (named name_E) sample_dir = Some 2"
    using sample_live
    by (simp_all add: sample_dir_alt first_match_Cons named_def) (simp_all add: sample_dirent_def sample_names)
  show "first_match (named name_C) sample_dir = None"
    unfolding first_match_None
    by (auto simp: sample_dir_alt named_def sample_skipped) (simp_all add: sample_dirent_def sample_names)
qed

lemma sample_ids:
  "fat32_cluster_id (sample_dir ! 0) = 3" "fat32_cluster_id (sample_dir ! 1) = 4" "fat32_cluster_id (sample_dir ! 2) = 0"
  by (simp_all add: sample_dir_def sample_dirent_def fat32_cluster_id_def)

lemma sample_free: "find_free_cluster (v_fs sample_vol) 3 = Inr 5"
  by (simp add: find_free_cluster_def sample_vol_def sample_fat_def find_free_loop.simps)

lemma sample_slot: "free_slot sample_dir 0 (length sample_dir) = Inr (3, True)"
proof -
  have "replicate 13 z = z # replicate 12 z" for z :: fat32_dirent by (simp add: numeral_eq_Suc)
  then show ?thesis by (simp add: sample_dir_def sample_dirent_def)
qed

text \<open>The sample volume with two clusters for the first file.\<close>

definition long_vol :: vol where
  "long_vol = put_fat (put_fat sample_vol 3 5) 5 0xFFFFFFFF"

lemma long_vol_facts:
  "dir_ok long_vol sample_root [2]" "dir_entries long_vol [2] = sample_dir" "is_chain (fat_of long_vol) [3, 5]"
  "fat32_fat_entry_type (fat_of long_vol ! 0) = Inr LAST_CLUSTER" "clus_size long_vol = 512"
proof -
  show e: "dir_entries long_vol [2] = sample_dir" using sample_entries by (simp add: long_vol_def dir_entries_def)
  show "clus_size long_vol = 512" by (simp add: long_vol_def)
  show "fat32_fat_entry_type (fat_of long_vol ! 0) = Inr LAST_CLUSTER" by (simp add: long_vol_def sample_fat_def fat32_fat_entry_type_def Let_def)
  show "is_chain (fat_of long_vol) [3, 5]" by (simp add: long_vol_def sample_fat_def fat32_fat_entry_type_def Let_def)
  have "is_chain (fat_of long_vol) [2]" by (simp add: long_vol_def sample_fat_def)
  then show "dir_ok long_vol sample_root [2]"
    using sample_dir_ok e sample_entries by (simp add: dir_ok_def dir_small_def epc_def long_vol_def)
qed

end
