(* ===== verification/Fat32_Props.thy ===== *)
theory Fat32_Props
  imports Fat32_Sample
begin

unbundle bit_operations_syntax

text \<open>
  The properties of the FAT32 driver. Each is about the functions of \<open>fat32/fat32.c\<close> or
  \<open>fat32/fat32-helpers.c\<close> as modelled in \<open>Fat32\<close> and \<open>Fat32_Layout\<close>; the witnesses apply them to the
  volume of \<open>Fat32_Sample\<close>.
\<close>

section \<open>Reading and writing files\<close>

text \<open>C2: a file written with \<open>fat32_write\<close> is read back by \<open>fat32_read\<close>. For a directory in order, an
  existing file with a dotted 8.3 name, and data that needs as many clusters as the file has or one
  more, the write succeeds and a read of the same name returns the written length and bytes.\<close>

theorem fat32_write_read:
  assumes "dir_ok v dir dcs" "plain_dir (dir_entries v dcs)" "fat32_is_valid_name f" "has_dot f"
    "first_match (named f) (dir_entries v dcs) = Some i"
    "file_chain (fat_of v) (fat32_cluster_id (dir_entries v dcs ! i)) cs" "set cs \<inter> set dcs = {}"
    "write_fits v cs (unat (n_alloc file))" "f_data file = Some m"
  shows "\<exists>v' r b. fat32_write v dir f file = Inr (True, v') \<and> fat32_read v' dir f = Inr r
    \<and> n_data r = n_data file \<and> f_data r = Some b \<and> (\<forall>k<unat (n_alloc file). b k = m k)"
proof -
  obtain v' cs' where w: "fat32_write v dir f file = Inr (True, v')" "file_written v dcs i cs v' cs' file"
    using fat32_write_ok [OF assms(1,3,5-8)] assms(9) by auto
  note r = fat32_write_read_ok [OF assms(1-5) w(2) assms(8)]
  have "chain_bytes v' cs' = map m [0..<length cs' * clus_size v]"
    using w(2) assms(9) by (simp add: file_written_def)
  then have "mem_of (chain_bytes v' cs') k = m k" if "k < unat (n_alloc file)" for k
    using that r(3) by (simp add: mem_of_def)
  with w(1) r(1,2) show ?thesis by (auto simp: file_of_def)
qed

theorem fat32_write_read_witness:
  "\<exists>v' r b. fat32_write sample_vol sample_root name_A sample_file = Inr (True, v')
    \<and> fat32_read v' sample_root name_A = Inr r \<and> n_data r = 600 \<and> f_data r = Some b
    \<and> map b [0..<600] = map of_nat [0..<600]"
proof -
  have "\<exists>v' r b. fat32_write sample_vol sample_root name_A sample_file = Inr (True, v')
      \<and> fat32_read v' sample_root name_A = Inr r \<and> n_data r = 600 \<and> f_data r = Some b
      \<and> (\<forall>k<600. b k = of_nat k)"
    using fat32_write_read [of sample_vol sample_root "[2]" name_A 0 "[3]" sample_file "\<lambda>k. of_nat k"]
      sample_dir_ok sample_plain sample_names sample_match sample_ids sample_chains sample_free
    by (simp add: sample_entries file_chain_def write_fits_def clusters_for_def sample_file_def)
  then show ?thesis by (elim exE conjE) (intro exI conjI, assumption+, auto)
qed

text \<open>C4: \<open>fat32_write\<close> changes no other file. When data is written that needs as many clusters as the file has or one
  more, then every chain of the volume, of this directory or another, that shares no cluster with the written file or its
  directory is still a chain with the same bytes and shares no cluster with the file's new chain; the other entries of the directory
  are unchanged; and any other dotted name of the directory reads as before.\<close>

theorem fat32_write_frame:
  assumes "dir_ok v dir dcs" "plain_dir (dir_entries v dcs)" "fat32_is_valid_name f"
    "first_match (named f) (dir_entries v dcs) = Some i"
    "file_chain (fat_of v) (fat32_cluster_id (dir_entries v dcs ! i)) cs" "set cs \<inter> set dcs = {}"
    "write_fits v cs (unat (n_alloc file))" "f_data file = Some m"
  shows "\<exists>v' cs'. fat32_write v dir f file = Inr (True, v')
    \<and> file_chain (fat_of v') (fat32_cluster_id (dir_entries v' dcs ! i)) cs'
    \<and> (\<forall>xs. is_chain (fat_of v) xs \<and> set xs \<inter> (set cs \<union> set dcs) = {} \<longrightarrow>
        is_chain (fat_of v') xs \<and> set xs \<inter> set cs' = {} \<and> chain_bytes v' xs = chain_bytes v xs)
    \<and> (\<forall>j. j \<noteq> i \<longrightarrow> dir_entries v' dcs ! j = dir_entries v dcs ! j)
    \<and> (\<forall>g j gs. fat32_is_valid_name g \<and> has_dot g \<and> g \<noteq> f \<and> first_match (named g) (dir_entries v dcs) = Some j
        \<and> file_chain (fat_of v) (fat32_cluster_id (dir_entries v dcs ! j)) gs \<and> set gs \<inter> (set cs \<union> set dcs) = {}
        \<and> length gs * clus_size v < 4294967296 \<longrightarrow> fat32_read v' dir g = fat32_read v dir g)"
proof -
  obtain v' cs' where w: "fat32_write v dir f file = Inr (True, v')" "file_written v dcs i cs v' cs' file"
    using fat32_write_ok [OF assms(1,3-7)] assms(8) by auto
  have v: "vol_wf v" using assms(1) by (simp add: dir_ok_def)
  have il: "i < length dcs * epc v" using assms(4) v by (simp add: first_match_Some)
  have ch: "file_chain (fat_of v') (fat32_cluster_id (dir_entries v' dcs ! i)) cs'"
    using w(2) il v by (auto simp: file_written_def file_chain_def)
  have others: "dir_entries v' dcs ! j = dir_entries v dcs ! j" if "j \<noteq> i" for j
    using w(2) that by (simp add: file_written_def)
  have "fat32_read v' dir g = fat32_read v dir g"
    if g: "fat32_is_valid_name g" "has_dot g" "g \<noteq> f" "first_match (named g) (dir_entries v dcs) = Some j"
      "file_chain (fat_of v) (fat32_cluster_id (dir_entries v dcs ! j)) gs" "set gs \<inter> (set cs \<union> set dcs) = {}"
      "length gs * clus_size v < 4294967296" for g j gs
  proof -
    have "i \<noteq> j" using assms(3,4) g(1,3,4) raw83_inj by (auto simp: first_match_Some named_def)
    then show ?thesis by (intro other_read [OF assms(1,2) il w(2) g(1,2,4-7)]) simp
  qed
  then show ?thesis using w ch others by (intro exI [of _ v'] exI [of _ cs']) (auto simp: file_written_def)
qed

theorem fat32_write_frame_witness:
  "\<exists>v'. fat32_write sample_vol sample_root name_A sample_file = Inr (True, v') \<and> is_chain (fat_of v') [4]
    \<and> chain_bytes v' [4] = chain_bytes sample_vol [4]
    \<and> fat32_read v' sample_root name_B = fat32_read sample_vol sample_root name_B"
proof -
  have "file_chain (fat_of sample_vol) (fat32_cluster_id (dir_entries sample_vol [2] ! 0)) [3]"
    "write_fits sample_vol [3] (unat (n_alloc sample_file))" "f_data sample_file = Some (\<lambda>k. of_nat k)"
    "plain_dir (dir_entries sample_vol [2])" "first_match (named name_A) (dir_entries sample_vol [2]) = Some 0" "set [3] \<inter> set [2 :: u32] = {}"
    using sample_plain sample_match sample_ids sample_chains sample_free
    by (simp_all add: sample_entries file_chain_def write_fits_def clusters_for_def sample_file_def)
  from fat32_write_frame [OF sample_dir_ok this(4) sample_names(1) this(5,1,6,2,3)] show ?thesis
  proof (elim exE conjE, goal_cases)
    case (1 v' cs')
    have "name_B \<noteq> name_A" by (simp add: name_A_def name_B_def)
    then show ?case
      using 1(1) 1(3) [rule_format, of "[4]"] 1(5) [rule_format, of name_B 1 "[4]"] sample_names sample_match sample_ids sample_chains
      by (simp add: sample_entries file_chain_def)
  qed
qed

section \<open>Creating and deleting files\<close>

text \<open>C9: \<open>fat32_create\<close> of a new file adds exactly its name to the directory and keeps the directory's
  invariant (well-formed and unique names, nothing live behind the end marker); the FAT, and the
  bytes of every chain other than the directory's, are unchanged.\<close>

theorem fat32_create_adds_name:
  assumes "dir_ok v dir dcs" "dir_inv (dir_entries v dcs)" "fat32_is_valid_name f"
    "f \<notin> dir_names (dir_entries v dcs)"
    "free_slot (dir_entries v dcs) 0 (length (dir_entries v dcs)) = Inr (s, e)"
  shows "\<exists>p v'. fat32_create v dir f False = Inr (Some p, v') \<and> raw_name p = raw83 f \<and> nbytes p = 0
    \<and> dir_ok v' dir dcs \<and> dir_inv (dir_entries v' dcs)
    \<and> dir_names (dir_entries v' dcs) = insert f (dir_names (dir_entries v dcs)) \<and> fat_of v' = fat_of v
    \<and> (\<forall>xs. is_chain (fat_of v) xs \<and> set xs \<inter> set dcs = {} \<longrightarrow> chain_bytes v' xs = chain_bytes v xs)"
proof -
  have no: "\<forall>d \<in> set (dir_entries v dcs). \<not> named f d" using assms(3,4) by (auto simp: dir_names_def)
  then have none: "first_match (named f) (dir_entries v dcs) = None" by (simp add: first_match_None)
  note c = created_ok [OF assms(1,3,5)]
  have inv: "dir_inv (dir_entries (created v dcs f s e) dcs)"
    unfolding c(5) by (rule new_entries_inv [OF assms(2,3) no assms(5)])
  have "dir_ok (created v dcs f s e) dir dcs"
    using assms(1) c inv by (simp add: dir_ok_def dir_small_def dir_inv_def)
  with fat32_create_new [OF assms(1,3) none assms(5)] inv c dir_names_created [OF assms(2,3,5)]
  show ?thesis by auto
qed

theorem fat32_create_adds_name_witness:
  "\<exists>p v'. fat32_create sample_vol sample_root name_C False = Inr (Some p, v') \<and> raw_name p = raw83 name_C
    \<and> dir_names (dir_entries v' [2]) = insert name_C (dir_names sample_dir)"
proof -
  have "name_C \<notin> dir_names sample_dir"
    using sample_match(4) by (auto simp: first_match_None dir_names_def)
  then show ?thesis
    using fat32_create_adds_name [of sample_vol sample_root "[2]" name_C 3 True]
      sample_dir_ok sample_dir_inv sample_names sample_slot by (auto simp: sample_entries)
qed

text \<open>C10: \<open>fat32_delete\<close> removes exactly the file's name from the directory, frees every cluster of its
  chain, keeps the directory's invariant, and leaves every disjoint chain and its bytes as they were.\<close>

theorem fat32_delete_removes_name:
  assumes "dir_ok v dir dcs" "dir_inv (dir_entries v dcs)" "fat32_is_valid_name f"
    "first_match (named f) (dir_entries v dcs) = Some i"
    "file_chain (fat_of v) (fat32_cluster_id (dir_entries v dcs ! i)) cs" "set cs \<inter> set dcs = {}"
  shows "\<exists>v'. fat32_delete v dir f = Inr (True, v') \<and> dir_ok v' dir dcs \<and> dir_inv (dir_entries v' dcs)
    \<and> dir_names (dir_entries v' dcs) = dir_names (dir_entries v dcs) - {f}
    \<and> (\<forall>c \<in> set cs. fat_of v' ! unat c = 0)
    \<and> (\<forall>xs. is_chain (fat_of v) xs \<and> set xs \<inter> (set cs \<union> set dcs) = {} \<longrightarrow>
         is_chain (fat_of v') xs \<and> chain_bytes v' xs = chain_bytes v xs)"
proof -
  note d = dir_ok_simps [OF assms(1)]
  have il: "i < length (dir_entries v dcs)" "named f (dir_entries v dcs ! i)"
    using assms(4) by (simp_all add: first_match_Some)
  then have il': "i < length dcs * epc v" using d(3) by simp
  note del = deleted_ok [OF assms(1) il' assms(6)]
  have r: "\<forall>c \<in> set cs. in_range v c"
    using assms(5) in_range_chain [of v cs] by (auto simp: file_chain_def split: if_splits)
  have inv: "dir_inv (dir_entries (deleted v dcs i cs) dcs)"
    unfolding del(3) by (rule dead_entries_inv [OF assms(2) il(1)])
  have "dirent_skipped (dead_dirent (dir_entries v dcs ! i))"
    using dead_dirent_skipped assms(2) il(1) by (simp add: dir_inv_def)
  then have "dir_names (dir_entries (deleted v dcs i cs) dcs) = dir_names (dir_entries v dcs) - {f}"
    unfolding del(3) using assms(2,3) il by (intro dir_names_remove) (auto simp: dir_inv_def)
  moreover have "dir_ok (deleted v dcs i cs) dir dcs"
    using assms(1) del d(4) assms(6) inv by (auto simp: dir_ok_def dir_small_def dir_inv_def)
  moreover have "\<forall>c \<in> set cs. fat_of (deleted v dcs i cs) ! unat c = 0" using del(4) r by blast
  moreover have "\<forall>xs. is_chain (fat_of v) xs \<and> set xs \<inter> (set cs \<union> set dcs) = {} \<longrightarrow>
      is_chain (fat_of (deleted v dcs i cs)) xs \<and> chain_bytes (deleted v dcs i cs) xs = chain_bytes v xs"
    using del(5,6) by (simp add: Int_Un_distrib)
  ultimately show ?thesis
    using fat32_delete_ok [OF assms(1,3-6)] inv by (intro exI [of _ "deleted v dcs i cs"] conjI)
qed

theorem fat32_delete_removes_name_witness:
  "\<exists>v'. fat32_delete sample_vol sample_root name_A = Inr (True, v')
    \<and> dir_names (dir_entries v' [2]) = dir_names sample_dir - {name_A} \<and> fat_of v' ! 3 = 0"
proof -
  have "dir_inv (dir_entries sample_vol [2])" "first_match (named name_A) (dir_entries sample_vol [2]) = Some 0"
    "file_chain (fat_of sample_vol) (fat32_cluster_id (dir_entries sample_vol [2] ! 0)) [3]"
    "set [3] \<inter> set [2] = ({} :: u32 set)"
    using sample_dir_inv sample_match sample_ids sample_chains by (simp_all add: sample_entries file_chain_def)
  from fat32_delete_removes_name [OF sample_dir_ok this(1) sample_names(1) this(2,3,4)]
  obtain v' where v': "fat32_delete sample_vol sample_root name_A = Inr (True, v')"
    "dir_names (dir_entries v' [2]) = dir_names (dir_entries sample_vol [2]) - {name_A}"
    "\<forall>c \<in> set [3 :: u32]. fat_of v' ! unat c = 0" by (elim exE conjE) (rule that)
  then have "fat_of v' ! unat (3 :: u32) = 0" by (intro bspec [OF v'(3)]) simp
  then show ?thesis using v' by (intro exI [of _ v']) (simp add: sample_entries)
qed

section \<open>Names and directory entries\<close>

text \<open>C22: \<open>find_dirent_with_name\<close> is a correct search. On a directory whose live entries have well-formed
  stored names, looking up a valid name yields the first live entry stored under that name's
  eleven bytes, and -1 when there is none; in particular a name without extension never matches an
  entry that has one. Live entries are those without the attributes read-only, hidden, system and label: files and
  directories alike. The comment above the function says that it only works for files; the code does
  not tell the two apart, and the lookup of a directory is as correct as that of a file.\<close>

theorem find_dirent_correct:
  assumes "dir_wf ds" "fat32_is_valid_name f"
  shows "find_dirent_with_name ds f 0 = Inr (first_match (named f) ds)"
  using find_dirent_eq [OF assms, of 0] by (cases "first_match (named f) ds") simp_all

theorem find_dirent_correct_witness:
  "find_dirent_with_name sample_dir name_B 0 = Inr (Some 1) \<and> find_dirent_with_name sample_dir name_C 0 = Inr None"
  using find_dirent_correct [of sample_dir name_B] find_dirent_correct [of sample_dir name_C]
    sample_dir_inv sample_names sample_match by (simp add: dir_inv_def)

text \<open>C23: storing a valid name in a directory entry and reading it back with \<open>fat32_dirent_name\<close> gives
  the name, followed by a dot and three spaces when it has no extension; different valid names have
  different stored forms.\<close>

theorem dirent_name_roundtrip:
  assumes "fat32_is_valid_name f"
  shows "\<exists>d'. fat32_dirent_set_name d f = Inr d'
    \<and> fat32_dirent_name d' = Inr (if has_dot f then f else f @ [46, 32, 32, 32])
    \<and> (\<forall>g. fat32_is_valid_name g \<and> fat32_dirent_set_name d g = Inr d' \<longrightarrow> g = f)"
proof -
  have "g = f" if "fat32_is_valid_name g" "fat32_dirent_set_name d g = Inr (d\<lparr>filename := raw83 f\<rparr>)" for g
  proof -
    have "filename (d\<lparr>filename := raw83 g\<rparr>) = filename (d\<lparr>filename := raw83 f\<rparr>)"
      using that(2) set_name_ok [OF that(1), of d] by simp
    then show ?thesis using raw83_inj [OF that(1) assms] by simp
  qed
  then show ?thesis
    using set_name_ok [OF assms, of d] to_8dot3_raw83 [OF assms] by (auto simp: fat32_dirent_name_def)
qed

theorem dirent_name_roundtrip_witness:
  "\<exists>d'. fat32_dirent_set_name (sample_dir ! 0) name_C = Inr d' \<and> fat32_dirent_name d' = Inr name_C"
  using dirent_name_roundtrip [OF sample_names(5), of "sample_dir ! 0"] sample_names(6) by auto

text \<open>The 32-byte encoding of a directory entry loses nothing, in both directions.\<close>

lemma dirent_encoding_roundtrip:
  assumes "length (filename d) = 11" "length b = 32"
  shows "dirent_of (dirent_bytes d) = d \<and> dirent_bytes (dirent_of b) = b"
  using assms by (simp add: dirent_bytes_of)

section \<open>The file allocation table\<close>

text \<open>\<open>fat32_fat_entry_type\<close> looks at the low 28 bits only and sorts every entry into the ranges of
  the specification; it panics exactly on the reserved values, and its last panic is unreachable.\<close>

lemma fat_entry_type_ranges:
  "fat32_fat_entry_type x =
     (let k = unat x mod 2 ^ 28 in
      if k = 0 then Inr FREE_CLUSTER else if k = 1 then Inr RESERVED_CLUSTER
      else if k \<le> 0xFFFFFEF then Inr USED_CLUSTER
      else if k \<le> 0xFFFFFF6 then Inl (Panic ''reserved value'')
      else if k = 0xFFFFFF7 then Inr BAD_CLUSTER
      else Inr LAST_CLUSTER)"
  using entry_type_nat [of x] by (simp add: Let_def)

text \<open>The fuel of the chain walk is exact. \<open>get_cluster_chain_length\<close> of the model gives up after one
  step more than the FAT has entries, and then the loop of the code runs forever; and when it
  returns, \<open>read_cluster_chain\<close> of the same chain returns too.\<close>

lemma chain_walk_fuel_exact:
  assumes "start \<noteq> 0"
  shows "(get_cluster_chain_length (v_fs v) start = Inl Diverges \<longleftrightarrow>
      (\<forall>k. chain_length_loop k (fat (v_fs v)) start 0 = Inl Diverges))
    \<and> ((\<exists>n. get_cluster_chain_length (v_fs v) start = Inr n) \<longrightarrow> read_cluster_chain v start \<noteq> Inl Diverges)"
proof -
  have eq: "get_cluster_chain_length (v_fs v) start
      = chain_length_loop (Suc (length (fat (v_fs v)))) (fat (v_fs v)) start 0"
    using assms unfolding get_cluster_chain_length_def by (simp only: if_False)
  have rd: "read_cluster_chain v start
      = read_chain_loop (Suc (length (fat (v_fs v)))) (v_sd v) (v_fs v) start"
    using assms unfolding read_cluster_chain_def by (simp only: if_False)
  show ?thesis unfolding eq rd using chain_length_fuel_enough read_chain_terminates by blast
qed

text \<open>C28: \<open>find_free_cluster\<close> returns the first free cluster from its start (at least 3) on, and panics
  only when the rest of the FAT has none.\<close>

theorem find_free_cluster_first:
  assumes "length (fat fs) = unat (n_entries fs)" "\<forall>x \<in> set (fat fs). \<exists>t. fat32_fat_entry_type x = Inr t"
  shows "case find_free_cluster fs s of
      Inr c \<Rightarrow> free_from fs s c \<and> (\<forall>x. free_from fs s x \<longrightarrow> c \<le> x)
    | Inl e \<Rightarrow> e = Panic ''No more clusters on the disk!'' \<and> (\<forall>x. \<not> free_from fs s x)"
proof -
  have start: "(if s < 3 then 3 else s) = max 3 s" by (auto simp: max_def)
  show ?thesis
  proof (cases "find_free_cluster fs s")
    case (Inr c)
    then have "find_free_loop (fat fs) (n_entries fs) (max 3 s) = Inr c"
      using start by (simp add: find_free_cluster_def)
    from find_free_loop_Inr [OF this] Inr show ?thesis by (auto simp: free_from_def not_le [symmetric])
  next
    case (Inl e)
    then have l: "find_free_loop (fat fs) (n_entries fs) (max 3 s) = Inl e"
      using start by (simp add: find_free_cluster_def)
    have "\<not> free_from fs s x" for x
    proof
      assume "free_from fs s x"
      then have "\<exists>f. find_free_loop (fat fs) (n_entries fs) (max 3 s) = Inr f"
        using assms(1,2) find_free_loop_exists [of "fat fs" "n_entries fs" "max 3 s" x]
        unfolding free_from_def by simp
      with l show False by simp
    qed
    then show ?thesis using Inl find_free_loop_Inl [OF l assms(2)] assms(1) by simp
  qed
qed

theorem find_free_cluster_first_witness:
  "find_free_cluster (v_fs sample_vol) 3 = Inr 5 \<and> free_from (v_fs sample_vol) 3 5"
proof -
  have "length (fat (v_fs sample_vol)) = unat (n_entries (v_fs sample_vol))"
    "\<forall>x \<in> set (fat (v_fs sample_vol)). \<exists>t. fat32_fat_entry_type x = Inr t"
    by (auto simp: sample_vol_def sample_fat_def fat32_fat_entry_type_def)
  from find_free_cluster_first [OF this, of 3] show ?thesis using sample_free by simp
qed

text \<open>C29: \<open>write_fat_to_disk\<close> stores the FAT where \<open>fat32_mk\<close> reads it: after it, the sectors of the
  first FAT copy decode to the in-memory table, and no cluster has changed.\<close>

theorem fat_persisted:
  assumes "vol_wf v"
  shows "\<exists>v' b. write_fat_to_disk v = Inr v'
    \<and> pi_sec_read (v_sd v') (fat_begin_lba (v_fs v)) (n_entries (v_fs v) div 128) = Inr b
    \<and> words_of b = fat (v_fs v) \<and> (\<forall>c. in_range v c \<longrightarrow> cluster_bytes v' c = cluster_bytes v c)"
proof -
  have n: "length (fat (v_fs v)) = unat (n_entries (v_fs v))" "128 dvd unat (n_entries (v_fs v))"
    using assms by (auto simp: vol_wf_def geom_def)
  let ?b = "bytes_of (fat (v_fs v))"
  have "512 * (unat (n_entries (v_fs v)) div 128) = length ?b" using n by auto
  then have "map (mem_of ?b) [0..<512 * (unat (n_entries (v_fs v)) div 128)] = ?b"
    by (simp only: map_mem_of)
  moreover have "unat (n_entries (v_fs v)) div 128 \<le> 4294967296"
    using unat_u32_less [of "n_entries (v_fs v)"] by linarith
  ultimately have "read_secs (v_sd (sync_fat v)) (fat_begin_lba (v_fs v)) (unat (n_entries (v_fs v)) div 128) = ?b"
    by (simp add: sync_fat_def read_write_same)
  moreover have "sd_ready (v_sd (sync_fat v))" using vol_wf_put(3) [OF assms] by (simp add: vol_wf_def)
  ultimately have "pi_sec_read (v_sd (sync_fat v)) (fat_begin_lba (v_fs v)) (n_entries (v_fs v) div 128) = Inr ?b"
    using nsec_ok_fat [OF assms] by (simp add: pi_sec_read_ok unat_div)
  then show ?thesis
    using write_fat_to_disk_ok [OF assms] words_of_bytes [of "fat (v_fs v)"] cluster_bytes_sync [OF assms] by blast
qed

theorem fat_persisted_witness:
  "\<exists>v' b. write_fat_to_disk sample_vol = Inr v' \<and> pi_sec_read (v_sd v') 32 1 = Inr b \<and> words_of b = sample_fat"
  using fat_persisted [OF sample_wf] by (auto simp: sample_vol_def)

section \<open>Defects\<close>

text \<open>C40: \<open>fat32_read\<close> of a name the directory does not have returns the contents of the directory's
  first entry, not an error: the index of its search starts at 0 and is never checked.\<close>

theorem fat32_read_missing_name:
  assumes "dir_ok v dir dcs" "plain_dir (dir_entries v dcs)" "fat32_is_valid_name f" "has_dot f"
    "f \<notin> dir_names (dir_entries v dcs)" "is_chain (fat_of v) cs" "length cs * clus_size v < 4294967296"
    "fat32_cluster_id (dir_entries v dcs ! 0) = hd cs"
  shows "fat32_read v dir f =
    Inr \<lparr>f_data = Some (mem_of (chain_bytes v cs)), n_alloc = of_nat (length cs * clus_size v),
         n_data = file_nbytes (dir_entries v dcs ! 0)\<rparr>"
proof -
  note d = dir_ok_simps [OF assms(1)]
  have "first_match (named f) (dir_entries v dcs) = None"
    using assms(3,5) by (auto simp: dir_names_def first_match_None)
  then have "read_find (dir_entries v dcs) f 0 = Inr 0"
    using read_find_eq [OF d(6) assms(2-4), of 0] by simp
  moreover have "0 < length (dir_entries v dcs)"
    using d(3) is_chain_nonempty [OF d(4)] clus_size_pos [OF d(3)] by (simp add: entries_size)
  moreover have "file_chain (fat_of v) (fat32_cluster_id (dir_entries v dcs ! 0)) cs"
    using assms(6,8) by (auto simp: file_chain_def)
  ultimately show ?thesis
    using read_entry_ok [OF assms(1) _ _ _ assms(7), of f 0] is_chain_nonempty [OF assms(6)]
    by (simp add: file_of_def)
qed

theorem fat32_read_missing_name_witness:
  "\<exists>r. fat32_read sample_vol sample_root name_C = Inr r \<and> n_data r = 5
    \<and> fat32_stat sample_vol sample_root name_C = Inr None"
proof -
  have "name_C \<notin> dir_names (dir_entries sample_vol [2])"
    using sample_match(4) by (auto simp: first_match_None dir_names_def sample_entries)
  then have "fat32_read sample_vol sample_root name_C =
      Inr \<lparr>f_data = Some (mem_of (chain_bytes sample_vol [3])), n_alloc = of_nat (length [3 :: u32] * 512), n_data = 5\<rparr>"
    using fat32_read_missing_name [of sample_vol sample_root "[2]" name_C "[3]"] sample_dir_ok sample_plain
      sample_names(5,6) sample_chains sample_ids
    by (simp add: sample_entries) (simp add: sample_dir_def sample_dirent_def)
  then show ?thesis
    using fat32_stat_ok [OF sample_dir_ok sample_names(5)] sample_match(4) by (simp add: sample_entries)
qed

text \<open>C27: A write of less data loses the file. When the new data needs fewer clusters than the file has (but at least one),
  \<open>write_cluster_chain\<close> frees the rest of the chain and returns 0 as the first cluster, so the directory entry no longer
  refers to the data. With the usual first entry of the FAT, data of one cluster is then reported as written although a
  read finds an empty file, and data of several clusters ends in the panic of the check of \<open>fat32_write\<close>.\<close>

theorem fat32_write_shrink_loses:
  assumes "dir_ok v dir dcs" "plain_dir (dir_entries v dcs)" "fat32_is_valid_name f" "has_dot f"
    "first_match (named f) (dir_entries v dcs) = Some i"
    "is_chain (fat_of v) cs" "fat32_cluster_id (dir_entries v dcs ! i) = hd cs" "set cs \<inter> set dcs = {}"
    "0 < unat (n_alloc file)" "clusters_for (unat (n_alloc file)) v < length cs" "length cs * clus_size v < 4294967296"
    "unat (n_alloc file) + clus_size v < 4294967296" "fat32_fat_entry_type (fat_of v ! 0) = Inr LAST_CLUSTER" "f_data file = Some m"
  shows "if clusters_for (unat (n_alloc file)) v = 1
    then \<exists>v'. fat32_write v dir f file = Inr (True, v') \<and> file_nbytes (dir_entries v' dcs ! i) = n_data file
      \<and> fat32_read v' dir f = Inr \<lparr>f_data = None, n_alloc = 0, n_data = 0\<rparr>
    else fat32_write v dir f file = Inl (Panic ''FAT incorrect'')"
proof -
  note d = dir_ok_simps [OF assms(1)]
  let ?e = "updated_dirent (dir_entries v dcs ! i) 0 (n_data file)" and ?k = "clusters_for (unat (n_alloc file)) v"
  obtain v1 where w: "write_cluster_chain v (hd cs) (Some m) (n_alloc file) = Inr (0, v1)" "vol_wf v1"
    "sectors_per_cluster (v_fs v1) = sectors_per_cluster (v_fs v)" "fat_of v1 ! 0 = fat_of v ! 0" "length (fat_of v1) = length (fat_of v)"
    "\<And>xs. is_chain (fat_of v) xs \<Longrightarrow> set xs \<inter> set cs = {} \<Longrightarrow> is_chain (fat_of v1) xs \<and> chain_bytes v1 xs = chain_bytes v xs"
    using write_chain_shrink [OF d(3) assms(6,9,10,11), of m] by metis
  have dcs: "is_chain (fat_of v1) dcs" "chain_bytes v1 dcs = chain_bytes v dcs" using w(6) [OF d(4)] assms(8) by auto
  have red: "fat32_write v dir f file = bind_r (verify_fat_loop ?k (fat_of v1) 0) (\<lambda>_. Inr (True, finish_write v1 dcs i ?e))"
    using fat32_write_reduces [OF assms(1,3,5) _ w(2,3) dcs(1) assms(9,12)] w(1) assms(7,14) by simp
  have "0 < length (fat_of v1)" using is_chain_length [OF assms(6)] is_chain_nonempty [OF assms(6)] w(5) by (cases cs) auto
  then have ver: "verify_fat_loop (Suc n) (fat_of v1) 0 = (if n = 0 then Inr () else Inl (Panic ''FAT incorrect''))" for n
    using w(4) assms(13) by (cases n) (simp_all del: verify_fat_loop.simps(1), simp_all)
  obtain n where n: "?k = Suc n"
    using assms(9) clus_size_pos [OF d(3)] by (cases ?k) (auto simp: clusters_for_def div_eq_0_iff)
  show ?thesis
  proof (cases n)
    case 0
    have g: "epc v1 = epc v" "clus_size v1 = clus_size v" using w(3) by (simp_all add: epc_def spc_def clus_size_def)
    have il: "i < length dcs * epc v" "i < length (dir_entries v dcs)" using assms(5) d(3) by (simp_all add: first_match_Some)
    have fn: "length (filename ?e) = 11" using dir_entry_filename [OF d(3) il(1)] by simp
    let ?v = "finish_write v1 dcs i ?e"
    have de: "dir_entries ?v dcs = (dir_entries v dcs)[i := ?e]"
      using dir_entries_finish [OF w(2) dcs(1) _ fn, of i] il g dcs(2) by (simp add: dir_entries_def)
    have dir': "dir_ok ?v dir dcs" "plain_dir (dir_entries ?v dcs)"
      using d w(2) dcs g assms(2) il unfolding de by (auto simp: dir_ok_def de dir_small_def intro!: dir_wf_update plain_dir_update)
    have "first_match (named f) (dir_entries ?v dcs) = Some i" using assms(5) il unfolding de by (simp add: first_match_update)
    then have "fat32_read ?v dir f = Inr (file_of ?v [] (file_nbytes (dir_entries ?v dcs ! i)))"
      using il by (intro fat32_read_ok [OF dir' assms(3,4)]) (simp_all add: de file_chain_def)
    then show ?thesis using n 0 red ver [of 0] de il by (simp add: file_of_def del: verify_fat_loop.simps)
  next
    case (Suc n')
    then show ?thesis using n red ver [of n] by (simp del: verify_fat_loop.simps)
  qed
qed

theorem fat32_write_shrink_loses_witness:
  "\<exists>v'. fat32_write long_vol sample_root name_A short_file = Inr (True, v') \<and> file_nbytes (dir_entries v' [2] ! 0) = 300
    \<and> fat32_read v' sample_root name_A = Inr \<lparr>f_data = None, n_alloc = 0, n_data = 0\<rparr>"
  using fat32_write_shrink_loses [of long_vol sample_root "[2]" name_A 0 "[3, 5]" short_file "\<lambda>k. of_nat k"]
    long_vol_facts sample_plain sample_names sample_match sample_ids
  by (simp add: short_file_def clusters_for_def)

text \<open>C36: a write that needs two new clusters cannot succeed. For an empty file and data of more than one
  and at most two clusters, \<open>write_cluster_chain\<close> takes the same free cluster twice, and the check
  at the end of \<open>fat32_write\<close> stops the system with \<open>FAT incorrect\<close>.\<close>

theorem fat32_write_two_clusters_panics:
  assumes "dir_ok v dir dcs" "fat32_is_valid_name f" "first_match (named f) (dir_entries v dcs) = Some i"
    "fat32_cluster_id (dir_entries v dcs ! i) = 0" "clusters_for (unat (n_alloc file)) v = 2"
    "unat (n_alloc file) + clus_size v < 4294967296" "find_free_cluster (v_fs v) 3 = Inr g"
    "f_data file = Some m"
  shows "fat32_write v dir f file = Inl (Panic ''FAT incorrect'')"
proof -
  note d = dir_ok_simps [OF assms(1)]
  note g = find_free_cluster_Inr [OF assms(7), folded fat_of_def]
  have n: "0 < unat (n_alloc file)"
    using assms(5) clus_size_pos [OF d(3)] by (cases "unat (n_alloc file)") (auto simp: clusters_for_def)
  obtain v1 where w: "write_cluster_chain v 0 (Some m) (n_alloc file) = Inr (g, v1)" "vol_wf v1"
    "sectors_per_cluster (v_fs v1) = sectors_per_cluster (v_fs v)"
    "fat_of v1 = (fat_of v)[unat g := 0xFFFFFFFF]"
    using write_two_new [OF d(3) assms(7) n assms(5)] assms(6) by blast
  have "g \<notin> set dcs" using free_not_in_chain [OF g(4) d(4)] .
  then have "is_chain (fat_of v1) dcs" using d(4) w(4) is_chain_update_notin by simp
  moreover have "verify_fat_loop 2 (fat_of v1) g = Inl (Panic ''FAT incorrect'')"
    using g(3) w(4) by (simp add: numeral_2_eq_2)
  ultimately show ?thesis
    using fat32_write_reduces [OF assms(1,2,3) _ w(2,3) _ n assms(6)] w(1) assms(4,5,8) by simp
qed

theorem fat32_write_two_clusters_panics_witness:
  "fat32_write sample_vol sample_root name_E sample_file = Inl (Panic ''FAT incorrect'')"
  using fat32_write_two_clusters_panics [of sample_vol sample_root "[2]" name_E 2 sample_file 5 "\<lambda>k. of_nat k"]
    sample_dir_ok sample_names sample_match sample_ids sample_free
  by (simp add: sample_entries sample_file_def clusters_for_def)

end
