(* ===== verification/Printk.thy ===== *)
theory Printk
  imports Prelude
begin

text \<open>
  Formatted output and input: \<open>libpi/libc/printk.c\<close>, \<open>libpi/libc/sprintk.c\<close> (the same converter over
  a buffer) and \<open>libpi/src/scank.c\<close>. Output is the list of characters handed to \<open>putchar\<close>, input the
  list of characters \<open>getchar\<close> returns; a read beyond it blocks forever.
\<close>

section \<open>Digits\<close>

text \<open>The do-while loop of \<open>emit_val\<close>, least significant digit first.\<close>

definition digit_char :: "nat \<Rightarrow> u8" where
  "digit_char d = (if d < 10 then 48 + of_nat d else 87 + of_nat d)"

function emit_digits :: "u32 \<Rightarrow> u32 \<Rightarrow> u8 list" where
  "emit_digits base u =
     (if base < 2 then []
      else digit_char (unat (u mod base)) # (if u div base = 0 then [] else emit_digits base (u div base)))"
  by pat_completeness auto
termination
proof (relation "measure (\<lambda>(b, u). unat u)")
  fix base u :: u32
  assume "\<not> base < 2" "u div base \<noteq> 0"
  then have "2 \<le> unat base" "unat u div unat base \<noteq> 0"
    by (simp_all add: word_less_nat_alt unat_div unat_eq_iff)
  then have "unat u div unat base < unat u" by (intro div_less_dividend) (auto intro: gr0I)
  then show "((base, u div base), (base, u)) \<in> measure (\<lambda>(b, u). unat u)" by (simp add: unat_div)
qed simp

declare emit_digits.simps [simp del]

definition emit_val :: "u32 \<Rightarrow> u32 \<Rightarrow> u8 list res" where
  "emit_val base u =
     (if base = 2 \<or> base = 10 \<or> base = 16 then Inr (rev (emit_digits base u))
      else Inl (Panic ''invalid base''))"

section \<open>Output\<close>

text \<open>The arguments of a call. Fetching one of the wrong kind, or too many, is undefined.\<close>

datatype varg = VWord u32 | VStr cstr | VQuad "64 word"

definition va_word :: "varg list \<Rightarrow> (u32 \<times> varg list) res" where
  "va_word args = (case args of VWord w # rest \<Rightarrow> Inr (w, rest) | _ \<Rightarrow> Inl OutOfBounds)"

definition va_str :: "varg list \<Rightarrow> (cstr \<times> varg list) res" where
  "va_str args = (case args of VStr s # rest \<Rightarrow> Inr (s, rest) | _ \<Rightarrow> Inl OutOfBounds)"

definition va_quad :: "varg list \<Rightarrow> (64 word \<times> varg list) res" where
  "va_quad args = (case args of VQuad q # rest \<Rightarrow> Inr (q, rest) | _ \<Rightarrow> Inl OutOfBounds)"

text \<open>One conversion: the format behind the percent sign; its output and what is left.\<close>

definition print_conv :: "cstr \<Rightarrow> varg list \<Rightarrow> (u8 list \<times> cstr \<times> varg list) res" where
  "print_conv fmt args = (case fmt of
     [] \<Rightarrow> Inl (Panic ''bogus identifier'')
   | f # fs \<Rightarrow>
     if f = 98 then
       bind_r (va_word args) (\<lambda>(u, r). bind_r (emit_val 2 u) (\<lambda>t. Inr (t, fs, r)))
     else if f = 117 then
       bind_r (va_word args) (\<lambda>(u, r). bind_r (emit_val 10 u) (\<lambda>t. Inr (t, fs, r)))
     else if f = 99 then
       bind_r (va_word args) (\<lambda>(u, r). Inr ([ucast u], fs, r))
     else if f = 108 then
       (case fs of
          g # h # fs' \<Rightarrow>
            if g \<noteq> 108 \<or> h \<noteq> 120 then Inl (Panic ''only handling llx format'')
            else bind_r (va_quad args) (\<lambda>(x, r).
              let hi = ucast (drop_bit 32 x) :: u32; lo = ucast x :: u32 in
              bind_r (if hi \<noteq> 0 then emit_val 16 hi else Inr []) (\<lambda>th.
              bind_r (emit_val 16 lo) (\<lambda>tl. Inr ([48, 120] @ th @ tl, fs', r))))
        | _ \<Rightarrow> Inl (Panic ''only handling llx format''))
     else if f = 120 \<or> f = 112 then
       bind_r (va_word args) (\<lambda>(u, r). bind_r (emit_val 16 u) (\<lambda>t. Inr ([48, 120] @ t, fs, r)))
     else if f = 100 then
       bind_r (va_word args) (\<lambda>(v, r).
         let (sign, v') = (if v <s 0 then ([45], - v) else ([], v)) in
         bind_r (emit_val 10 v') (\<lambda>t. Inr (sign @ t, fs, r)))
     else if f = 115 then
       bind_r (va_str args) (\<lambda>(s, r). Inr (s, fs, r))
     else Inl (Panic ''bogus identifier''))"

lemma print_conv_shorter: "print_conv fmt args = Inr (t, fs, r) \<Longrightarrow> length fs < length fmt"
  by (auto simp: print_conv_def res_simps Let_def split: list.splits if_splits)

function vprintk :: "cstr \<Rightarrow> varg list \<Rightarrow> u8 list res" where
  "vprintk [] args = Inr []"
| "vprintk (c # fs) args =
     (if c \<noteq> 37 then bind_r (vprintk fs args) (\<lambda>rest. Inr (c # rest))
      else bind_r (print_conv fs args) (\<lambda>p.
        bind_r (vprintk (fst (snd p)) (snd (snd p))) (\<lambda>rest. Inr (fst p @ rest))))"
  by pat_completeness auto
termination
  by (relation "measure (\<lambda>(f, a). length f)") (auto dest: print_conv_shorter)

text \<open>
  \<open>sprintk\<close> stores the output and a NUL from the start of the destination on; the destination must
  be long enough.
\<close>

definition sprintk :: "u8 list \<Rightarrow> cstr \<Rightarrow> varg list \<Rightarrow> u8 list res" where
  "sprintk dest fmt args =
     bind_r (vprintk fmt args) (\<lambda>t.
       if length t < length dest then Inr (put_at dest 0 (t @ [0])) else Inl OutOfBounds)"

definition putk :: "cstr \<Rightarrow> u8 list" where
  "putk s = s"

section \<open>Input\<close>

definition getchar :: "u8 list \<Rightarrow> (u8 \<times> u8 list) res" where
  "getchar inp = (case inp of [] \<Rightarrow> Inl Diverges | c # rest \<Rightarrow> Inr (c, rest))"

text \<open>\<open>None\<close> is the code's -1.\<close>

definition is_digit :: "u8 \<Rightarrow> u32 \<Rightarrow> u32 option res" where
  "is_digit c base =
     (if base = 2 then Inr (if c \<ge> 48 \<and> c \<le> 49 then Some (ucast c - 48) else None)
      else if base = 10 then Inr (if c \<ge> 48 \<and> c \<le> 57 then Some (ucast c - 48) else None)
      else if base = 16 then
        Inr (if c \<ge> 48 \<and> c \<le> 57 then Some (ucast c - 48)
             else if c \<ge> 97 \<and> c \<le> 102 then Some (ucast c - 97 + 10)
             else if c \<ge> 65 \<and> c \<le> 70 then Some (ucast c - 65 + 10) else None)
      else Inl (Panic ''invalid base''))"

text \<open>\<open>match\<close>: \<open>None\<close> as the pending character means that the next one is read first.\<close>

definition match_char :: "u8 \<Rightarrow> u8 option \<Rightarrow> u8 list \<Rightarrow> (bool \<times> u8 option \<times> u8 list) res" where
  "match_char target c inp =
     bind_r (case c of None \<Rightarrow> getchar inp | Some x \<Rightarrow> Inr (x, inp)) (\<lambda>(x, rest).
       Inr (if target = x then (True, None, rest) else (False, Some x, rest)))"

fun absorb_loop :: "u32 \<Rightarrow> u32 \<Rightarrow> u8 \<Rightarrow> u8 list \<Rightarrow> (u32 \<times> u8 \<times> u8 list) res" where
  "absorb_loop base result c inp =
     bind_r (is_digit c base) (\<lambda>d.
       case d of None \<Rightarrow> Inr (result, c, inp)
       | Some v \<Rightarrow>
         let result' = (if base = 2 then push_bit 1 result + v
                        else if base = 10 then result * 10 + v else push_bit 4 result + v) in
         (case inp of [] \<Rightarrow> Inl Diverges | c' # rest \<Rightarrow> absorb_loop base result' c' rest))"

declare absorb_loop.simps [simp del]

definition absorb_val :: "u32 \<Rightarrow> u8 option \<Rightarrow> u8 list \<Rightarrow> (u32 \<times> u8 \<times> u8 list) res" where
  "absorb_val base c_prev inp =
     bind_r (case c_prev of None \<Rightarrow> getchar inp | Some x \<Rightarrow> Inr (x, inp)) (\<lambda>(c, rest).
       if c \<noteq> 10 then absorb_loop base 0 c rest else Inr (0, c, rest))"

datatype sval = SWord u32 | SStr cstr

text \<open>
  The loop that looks for \<open>0\<close> or \<open>x\<close>: a pending character that is neither the target nor a newline is
  never replaced, so the loop does not end.
\<close>

definition seek_char :: "u8 \<Rightarrow> u8 option \<Rightarrow> u8 list \<Rightarrow> (u8 option \<times> u8 list) res" where
  "seek_char target c inp =
     bind_r (match_char target c inp) (\<lambda>(ok, c', rest).
       if ok then Inr (c', rest) else if c' = Some 10 then Inr (c', rest) else Inl Diverges)"

fun scan_line :: "u8 \<Rightarrow> u8 list \<Rightarrow> (cstr \<times> u8 list) res" where
  "scan_line c inp =
     (if c = 10 then Inr ([], inp)
      else (case inp of [] \<Rightarrow> Inl Diverges
            | c' # rest \<Rightarrow> bind_r (scan_line c' rest) (\<lambda>(s, r). Inr (c # s, r))))"

declare scan_line.simps [simp del]

text \<open>
  One conversion of \<open>vscank\<close>: the value stored (if any), the pending character, the input left, and
  whether the function goes on (it returns early on \<open>%d\<close> at a newline).
\<close>

definition scan_conv :: "u8 \<Rightarrow> u8 option \<Rightarrow> u8 list \<Rightarrow> (sval option \<times> u8 option \<times> u8 list \<times> bool) res" where
  "scan_conv f c inp =
     (if f = 98 then bind_r (absorb_val 2 c inp) (\<lambda>(u, c', r). Inr (Some (SWord u), Some c', r, True))
      else if f = 117 then bind_r (absorb_val 10 c inp) (\<lambda>(u, c', r). Inr (Some (SWord u), Some c', r, True))
      else if f = 99 then
        (case c of None \<Rightarrow> bind_r (getchar inp) (\<lambda>(x, r). Inr (Some (SWord (ucast x)), None, r, True))
         | Some x \<Rightarrow> Inr (Some (SWord (ucast x)), None, inp, True))
      else if f = 120 \<or> f = 112 then
        bind_r (seek_char 48 c inp) (\<lambda>(c1, r1).
        bind_r (seek_char 120 c1 r1) (\<lambda>(c2, r2).
        bind_r (absorb_val 16 c2 r2) (\<lambda>(u, c', r). Inr (Some (SWord u), Some c', r, True))))
      else if f = 100 then
        (if c = Some 10 then Inr (None, c, inp, False)
         else bind_r (match_char 45 c inp) (\<lambda>(neg, c1, r1).
           if c1 = Some 10 then Inr (None, c1, r1, False)
           else let c2 = (if c1 = Some 43 \<or> c1 = Some 45 then None else c1) in
             bind_r (absorb_val 10 c2 r1) (\<lambda>(u, c', r).
               Inr (Some (SWord (if neg then - u else u)), Some c', r, True))))
      else if f = 115 then
        bind_r (case c of None \<Rightarrow> getchar inp | Some x \<Rightarrow> Inr (x, inp)) (\<lambda>(x, r1).
        bind_r (scan_line x r1) (\<lambda>(s, r). Inr (Some (SStr s), Some 10, r, True)))
      else Inl (Panic ''bogus identifier''))"

fun vscank :: "cstr \<Rightarrow> u8 option \<Rightarrow> u8 list \<Rightarrow> (sval list \<times> u8 list) res" where
  "vscank [] c inp = Inr ([], inp)"
| "vscank [x] c inp =
     (if x = 37 then Inl (Panic ''bogus identifier'')
      else if c = Some 10 then Inr ([], inp)
      else bind_r (match_char x c inp) (\<lambda>(_, c', r). Inr ([], r)))"
| "vscank (x # f # fs) c inp =
     (if x \<noteq> 37 then
        (if c = Some 10 then vscank (f # fs) c inp
         else bind_r (match_char x c inp) (\<lambda>(_, c', r). vscank (f # fs) c' r))
      else bind_r (scan_conv f c inp) (\<lambda>(v, c', r, go).
        if go then bind_r (vscank fs c' r) (\<lambda>(vs, r'). Inr (case v of None \<Rightarrow> vs | Some s \<Rightarrow> s # vs, r'))
        else Inr ([], r)))"

definition scank :: "cstr \<Rightarrow> u8 list \<Rightarrow> (sval list \<times> u8 list) res" where
  "scank fmt inp = vscank fmt None inp"

section \<open>Digits read back\<close>

lemma push_bit_double: "push_bit 1 (r :: u32) = r * 2"
  by (simp add: push_bit_eq_mult)

lemma push_bit_hex: "push_bit 4 (r :: u32) = r * 16"
  by (simp add: push_bit_eq_mult)

lemma digit_tables:
  "list_all (\<lambda>d. is_digit (digit_char d) 2 = Inr (Some (of_nat d))) [0..<2]"
  "list_all (\<lambda>d. is_digit (digit_char d) 10 = Inr (Some (of_nat d))) [0..<10]"
  "list_all (\<lambda>d. is_digit (digit_char d) 16 = Inr (Some (of_nat d))) [0..<16]"
  "list_all (\<lambda>d. digit_char d \<noteq> 10) [0..<16]"
  by code_simp+

lemma is_digit_char:
  assumes "base = 2 \<or> base = 10 \<or> base = 16" and "d < unat base"
  shows "is_digit (digit_char d) base = Inr (Some (of_nat d))"
  using assms digit_tables(1-3) unfolding list_all_iff set_upt by (elim disjE) simp_all

lemma absorb_loop_digit:
  assumes "base = 2 \<or> base = 10 \<or> base = 16" and "d < unat base"
  shows "absorb_loop base r (digit_char d) (c # inp) = absorb_loop base (r * base + of_nat d) c inp"
  using assms
  by (subst absorb_loop.simps)
    (auto simp: is_digit_char push_bit_double push_bit_hex Let_def)

lemma absorb_loop_digits:
  assumes "base = 2 \<or> base = 10 \<or> base = 16" and "is_digit t base = Inr None"
  shows "\<forall>d \<in> set (d # ds). d < unat base \<Longrightarrow>
    absorb_loop base r (digit_char d) (map digit_char ds @ t # inp) =
      Inr (foldl (\<lambda>a d. a * base + of_nat d) r (d # ds), t, inp)"
proof (induction ds arbitrary: r d)
  case Nil
  have stop: "absorb_loop base x t inp = Inr (x, t, inp)" for x
    using assms(2) by (subst absorb_loop.simps) simp
  show ?case using Nil assms(1) by (simp add: absorb_loop_digit stop)
next
  case (Cons e ds)
  then show ?case using assms(1) by (simp add: absorb_loop_digit)
qed

lemma emit_digits_value:
  assumes "2 \<le> base"
  obtains ds where "emit_digits base u = map digit_char ds" "ds \<noteq> []" "\<forall>d \<in> set ds. d < unat base"
    "foldr (\<lambda>d a. a * base + of_nat d) ds 0 = u"
  using assms
proof (induction base u arbitrary: thesis rule: emit_digits.induct)
  case (1 base u)
  let ?d = "unat (u mod base)"
  have base: "\<not> base < 2" "base \<noteq> 0" using "1.prems"(2) by (auto simp: word_le_nat_alt word_less_nat_alt)
  have d: "?d < unat base" using base(2) by (simp add: unat_mod unat_gt_0)
  have val: "u div base * base + of_nat ?d = u" by (simp add: word_mod_div_equality)
  show ?case
  proof (cases "u div base = 0")
    case True
    then show ?thesis using base d val
      by (intro "1.prems"(1) [of "[?d]"]) (simp_all add: emit_digits.simps [of base u])
  next
    case False
    obtain ds where "emit_digits base (u div base) = map digit_char ds" "ds \<noteq> []"
      "\<forall>d \<in> set ds. d < unat base" "foldr (\<lambda>d a. a * base + of_nat d) ds 0 = u div base"
      using "1.IH" [OF base(1) False] "1.prems"(2) by blast
    then show ?thesis using base d val False
      by (intro "1.prems"(1) [of "?d # ds"]) (simp_all add: emit_digits.simps [of base u])
  qed
qed

lemma digit_char_not_newline: "d < 16 \<Longrightarrow> digit_char d \<noteq> 10"
  using digit_tables(4) unfolding list_all_iff set_upt by simp

lemma absorb_emit:
  assumes base: "base = 2 \<or> base = 10 \<or> base = 16" and t: "is_digit t base = Inr None"
    and emit: "emit_val base u = Inr chars"
  shows "absorb_val base None (chars @ t # inp) = Inr (u, t, inp)"
proof -
  have "2 \<le> base" using base by auto
  then obtain ds where ds: "emit_digits base u = map digit_char ds" "ds \<noteq> []"
    "\<forall>d \<in> set ds. d < unat base" "foldr (\<lambda>d a. a * base + of_nat d) ds 0 = u"
    by (rule emit_digits_value)
  obtain e es where es: "rev ds = e # es" using ds(2) by (cases "rev ds") auto
  have in_es: "\<forall>d \<in> set (e # es). d < unat base" using ds(3) unfolding es [symmetric] by simp
  have val: "foldl (\<lambda>a d. a * base + of_nat d) 0 (e # es) = u"
    using ds(4) unfolding es [symmetric] by (simp add: foldl_conv_foldr)
  have chars: "chars = digit_char e # map digit_char es"
    using emit base ds(1) es by (auto simp: emit_val_def rev_map split: if_splits)
  have "e < 16" using in_es base by auto
  then show ?thesis
    using absorb_loop_digits [OF base t in_es, of 0 inp] val
    by (simp add: absorb_val_def getchar_def chars digit_char_not_newline)
qed

lemma emit_val_inj:
  assumes "emit_val base u = Inr chars" "emit_val base v = Inr chars"
  shows "u = v"
proof -
  have base: "base = 2 \<or> base = 10 \<or> base = 16" using assms(1) by (simp add: emit_val_def split: if_splits)
  have "is_digit 32 base = Inr None" using base by (auto simp: is_digit_def)
  from absorb_emit [OF base this assms(1), of "[]"] absorb_emit [OF base this assms(2), of "[]"]
  show ?thesis by simp
qed

text \<open>The buffer \<open>num\<close> of 33 characters is long enough.\<close>

lemma emit_digits_length: "2 \<le> base \<Longrightarrow> unat u < 2 ^ n \<Longrightarrow> 0 < n \<Longrightarrow> length (emit_digits base u) \<le> n"
proof (induction base u arbitrary: n rule: emit_digits.induct)
  case (1 base u)
  show ?case
  proof (cases "u div base = 0")
    case True
    then show ?thesis using "1.prems"(3) by (simp add: emit_digits.simps [of base u])
  next
    case False
    have b: "\<not> base < 2" "2 \<le> unat base" using "1.prems"(1) by (auto simp: word_le_nat_alt word_less_nat_alt)
    have "unat (u div base) \<le> unat u div 2" using b(2) by (simp add: unat_div div_le_mono2)
    also have "\<dots> < 2 ^ (n - 1)"
      using "1.prems"(2,3) by (cases n) (auto simp: less_mult_imp_div_less)
    finally have lt: "unat (u div base) < 2 ^ (n - 1)" .
    have "n - 1 \<noteq> 0" using lt False by (metis less_one power_0 unat_eq_zero)
    then have "length (emit_digits base (u div base)) \<le> n - 1"
      using "1.IH" [OF b(1) False "1.prems"(1) lt] by simp
    then show ?thesis using b False "1.prems"(3) by (simp add: emit_digits.simps [of base u])
  qed
qed

lemma emit_val_length: "emit_val base u = Inr chars \<Longrightarrow> length chars \<le> 32"
  by (auto simp: emit_val_def split: if_splits intro!: emit_digits_length)

end
