(* ===== verification/Global.thy ===== *)
theory Global
  imports Prelude
begin

text \<open>
  \<open>libpi/src/global.c\<close>: the one-shot flags that keep a module from being initialised twice. Each
  setter returns whether the caller is the first.
\<close>

record ready =
  kmalloc_ready :: bool
  uart_ready :: bool
  fat32_ready :: bool
  nrf1_ready :: bool
  nrf2_ready :: bool
  timer_ready :: bool
  int_vector_ready :: bool

definition boot_flags :: ready where
  "boot_flags = \<lparr>kmalloc_ready = False, uart_ready = False, fat32_ready = False, nrf1_ready = False,
     nrf2_ready = False, timer_ready = False, int_vector_ready = False\<rparr>"

definition set_kmalloc_ready :: "ready \<Rightarrow> bool \<times> ready" where
  "set_kmalloc_ready g = (if kmalloc_ready g then (False, g) else (True, g\<lparr>kmalloc_ready := True\<rparr>))"

definition set_uart_ready :: "ready \<Rightarrow> bool \<times> ready" where
  "set_uart_ready g = (if uart_ready g then (False, g) else (True, g\<lparr>uart_ready := True\<rparr>))"

definition reset_uart_ready :: "ready \<Rightarrow> bool \<times> ready" where
  "reset_uart_ready g = (True, g\<lparr>uart_ready := False\<rparr>)"

definition set_fat32_ready :: "ready \<Rightarrow> bool \<times> ready" where
  "set_fat32_ready g = (if fat32_ready g then (False, g) else (True, g\<lparr>fat32_ready := True\<rparr>))"

definition set_nrf1_ready :: "ready \<Rightarrow> bool \<times> ready" where
  "set_nrf1_ready g = (if nrf1_ready g then (False, g) else (True, g\<lparr>nrf1_ready := True\<rparr>))"

definition set_nrf2_ready :: "ready \<Rightarrow> bool \<times> ready" where
  "set_nrf2_ready g = (if nrf2_ready g then (False, g) else (True, g\<lparr>nrf2_ready := True\<rparr>))"

definition set_timer_ready :: "ready \<Rightarrow> bool \<times> ready" where
  "set_timer_ready g = (if timer_ready g then (False, g) else (True, g\<lparr>timer_ready := True\<rparr>))"

definition set_int_vector_ready :: "ready \<Rightarrow> bool \<times> ready" where
  "set_int_vector_ready g =
     (if int_vector_ready g then (False, g) else (True, g\<lparr>int_vector_ready := True\<rparr>))"

section \<open>A one-shot flag\<close>

text \<open>
  What the initialisers rely on: whatever other module's setter runs in between, of two calls
  of a setter only the first is told to go on.
\<close>

locale one_shot =
  fixes read_flag :: "'s \<Rightarrow> bool" and set_flag :: "'s \<Rightarrow> bool \<times> 's"
  assumes set_result: "fst (set_flag s) = (\<not> read_flag s)"
    and set_stays: "read_flag (snd (set_flag s))"
begin

lemma second_refused:
  assumes "\<And>t. read_flag t \<Longrightarrow> read_flag (other t)"
  shows "\<not> fst (set_flag (other (snd (set_flag s))))"
  using assms set_result set_stays by simp

end

lemmas ready_defs = set_kmalloc_ready_def set_uart_ready_def set_fat32_ready_def set_nrf1_ready_def
  set_nrf2_ready_def set_timer_ready_def set_int_vector_ready_def

interpretation kmalloc_once: one_shot kmalloc_ready set_kmalloc_ready
  by unfold_locales (auto simp: ready_defs)

interpretation uart_once: one_shot uart_ready set_uart_ready
  by unfold_locales (auto simp: ready_defs)

interpretation fat32_once: one_shot fat32_ready set_fat32_ready
  by unfold_locales (auto simp: ready_defs)

interpretation nrf1_once: one_shot nrf1_ready set_nrf1_ready
  by unfold_locales (auto simp: ready_defs)

interpretation nrf2_once: one_shot nrf2_ready set_nrf2_ready
  by unfold_locales (auto simp: ready_defs)

interpretation timer_once: one_shot timer_ready set_timer_ready
  by unfold_locales (auto simp: ready_defs)

interpretation vector_once: one_shot int_vector_ready set_int_vector_ready
  by unfold_locales (auto simp: ready_defs)

end
