(* ===== verification/Fs_Apis.thy ===== *)
theory Fs_Apis
  imports Fat32_Dir Printk Global
begin

text \<open>
  \<open>fat32/fs-apis.c\<close>: the file interface of shells and servers. A mirror is one client's view: its
  working directory and the chain of directories down to it. The statics \<open>fs\<close>, \<open>root\<close> and
  \<open>mirror_id\<close> of the file form the record \<open>fsys\<close>.
\<close>

section \<open>State\<close>

text \<open>\<open>fs_chain_t\<close> is a list: its head is \<open>chain->dir\<close>, its tail the chain of the parent.\<close>

record fs_mirror =
  m_name :: cstr
  m_id :: u32
  m_cwd :: pi_dirent
  m_chain :: "pi_dirent list"

record fsys =
  fs_vol :: vol
  fs_root :: "pi_dirent option"
  mirror_id :: u32

definition root_of :: "fsys \<Rightarrow> pi_dirent res" where
  "root_of s = (case fs_root s of None \<Rightarrow> Inl OutOfBounds | Some r \<Rightarrow> Inr r)"

definition fs_init :: "ready \<Rightarrow> fsys \<Rightarrow> (ready \<times> fsys) res" where
  "fs_init g s = (let (first, g') = set_fat32_ready g in
     if \<not> first then Inr (g, s)
     else bind_r (pi_sd_init (v_sd (fs_vol s))) (\<lambda>d.
       bind_r (mbr_read d) (\<lambda>mbr.
       bind_r (fat32_mk d (v_init_p (fs_vol s)) (partition_of (part_tab mbr 0))) (\<lambda>v.
       bind_r (fat32_get_root v) (\<lambda>r.
       Inr (g', s\<lparr>fs_vol := v, fs_root := Some r\<rparr>))))))"

definition register_mirror :: "fsys \<Rightarrow> cstr \<Rightarrow> (fs_mirror \<times> fsys) res" where
  "register_mirror s name =
     bind_r (root_of s) (\<lambda>r.
     if 16 \<le> length name then Inl OutOfBounds
     else Inr (\<lparr>m_name = name, m_id = mirror_id s, m_cwd = r, m_chain = [r]\<rparr>,
               s\<lparr>mirror_id := mirror_id s + 1\<rparr>))"

definition get_root :: "fsys \<Rightarrow> pi_dirent option" where
  "get_root s = fs_root s"

definition get_fs :: "fsys \<Rightarrow> fat32_fs" where
  "get_fs s = v_fs (fs_vol s)"

section \<open>Paths\<close>

definition strip_slash :: "cstr \<Rightarrow> cstr" where
  "strip_slash dirname = (if last dirname = 47 then butlast dirname else dirname)"

text \<open>
  The directory named, whether it was found, and the mirror, which moves there when \<open>cd\<close> is set.
  The slash is cut off in the caller's string, which no caller reads again.
\<close>

definition dirname_to_directory ::
  "fsys \<Rightarrow> fs_mirror \<Rightarrow> cstr \<Rightarrow> bool \<Rightarrow> (pi_dirent \<times> bool \<times> fs_mirror) res" where
  "dirname_to_directory s mirror dirname cd =
     (if dirname = [] then Inr (m_cwd mirror, True, mirror)
      else let dirname' = strip_slash dirname; directory = m_cwd mirror in
        if dirname' = str ''~'' then
          bind_r (root_of s) (\<lambda>r.
            if \<not> cd then Inr (r, True, mirror)
            else if m_chain mirror = [] then Inl OutOfBounds
            else Inr (r, True, mirror\<lparr>m_chain := [last (m_chain mirror)], m_cwd := r\<rparr>))
        else if dirname' = str ''.'' then Inr (directory, True, mirror)
        else if dirname' = str ''..'' then
          (case m_chain mirror of
             _ # parent # rest \<Rightarrow>
               Inr (parent, True, if cd then mirror\<lparr>m_chain := parent # rest, m_cwd := parent\<rparr> else mirror)
           | [_] \<Rightarrow> Inr (directory, False, mirror)
           | [] \<Rightarrow> Inl OutOfBounds)
        else bind_r (fat32_stat (fs_vol s) directory dirname') (\<lambda>sub.
          case sub of
            Some d \<Rightarrow> Inr (d, True, if cd then mirror\<lparr>m_chain := d # m_chain mirror, m_cwd := d\<rparr> else mirror)
          | None \<Rightarrow> Inr (directory, False, mirror)))"

definition fs_changedir :: "fsys \<Rightarrow> fs_mirror \<Rightarrow> cstr \<Rightarrow> (bool \<times> fs_mirror) res" where
  "fs_changedir s mirror dirname =
     bind_r (dirname_to_directory s mirror dirname True) (\<lambda>(_, ok, m). Inr (ok, m))"

section \<open>Listing\<close>

definition listing_line :: "pi_dirent \<Rightarrow> u8 list res" where
  "listing_line e =
     (if is_dir_p e then vprintk ([9] @ str ''D: %s'' @ [10]) [VStr (de_name e)]
      else vprintk ([9] @ str ''F: %s (%d bytes)'' @ [10]) [VStr (de_name e), VWord (nbytes e)])"

text \<open>\<open>sprintk (target + strlen (target), ...)\<close>.\<close>

definition sprintk_end :: "u8 list \<Rightarrow> u8 list res \<Rightarrow> u8 list res" where
  "sprintk_end target line =
     bind_r (cstr_of target) (\<lambda>old. bind_r line (\<lambda>t.
       if length old + length t < length target then Inr (put_at target (length old) (t @ [0]))
       else Inl OutOfBounds))"

fun list_entries :: "pi_dirent list \<Rightarrow> u8 list \<Rightarrow> u8 list res" where
  "list_entries [] target = Inr target"
| "list_entries (e # es) target = bind_r (sprintk_end target (listing_line e)) (list_entries es)"

definition fs_listdir :: "fsys \<Rightarrow> fs_mirror \<Rightarrow> cstr \<Rightarrow> u8 list \<Rightarrow> (bool \<times> u8 list) res" where
  "fs_listdir s mirror dirname target =
     bind_r (dirname_to_directory s mirror dirname False) (\<lambda>(directory, ok, _).
     bind_r (fat32_readdir (fs_vol s) directory) (\<lambda>es.
     bind_r (list_entries es target) (\<lambda>t. Inr (ok, t))))"

section \<open>Files\<close>

definition fs_create :: "fsys \<Rightarrow> fs_mirror \<Rightarrow> cstr \<Rightarrow> cstr \<Rightarrow> bool \<Rightarrow> bool \<Rightarrow> (bool \<times> fs_mirror \<times> fsys) res" where
  "fs_create s mirror dirname fname is_dir cd =
     bind_r (dirname_to_directory s mirror dirname False) (\<lambda>(directory, ok, _).
     if \<not> ok then Inr (False, mirror, s)
     else bind_r (fat32_create (fs_vol s) directory fname is_dir) (\<lambda>(dirent, v).
       case dirent of
         None \<Rightarrow> Inr (False, mirror, s\<lparr>fs_vol := v\<rparr>)
       | Some d \<Rightarrow> Inr (True, (if cd \<and> is_dir then mirror\<lparr>m_chain := d # m_chain mirror, m_cwd := d\<rparr> else mirror),
                         s\<lparr>fs_vol := v\<rparr>)))"

definition fs_delete :: "fsys \<Rightarrow> fs_mirror \<Rightarrow> cstr \<Rightarrow> cstr \<Rightarrow> (bool \<times> fsys) res" where
  "fs_delete s mirror dirname fname =
     bind_r (dirname_to_directory s mirror dirname False) (\<lambda>(directory, ok, _).
     if \<not> ok then Inr (False, s)
     else bind_r (fat32_delete (fs_vol s) directory fname) (\<lambda>(r, v). Inr (r, s\<lparr>fs_vol := v\<rparr>)))"

definition fs_read :: "fsys \<Rightarrow> fs_mirror \<Rightarrow> cstr \<Rightarrow> cstr \<Rightarrow> ((nat \<Rightarrow> u8) option \<times> u32) res" where
  "fs_read s mirror dirname fname =
     bind_r (dirname_to_directory s mirror dirname False) (\<lambda>(directory, ok, _).
     if \<not> ok then Inr (None, 0)
     else bind_r (fat32_read (fs_vol s) directory fname) (\<lambda>f. Inr (f_data f, n_data f)))"

definition fs_write :: "fsys \<Rightarrow> fs_mirror \<Rightarrow> cstr \<Rightarrow> cstr \<Rightarrow> (nat \<Rightarrow> u8) option \<Rightarrow> u32 \<Rightarrow> (bool \<times> fsys) res" where
  "fs_write s mirror dirname fname data n =
     bind_r (dirname_to_directory s mirror dirname False) (\<lambda>(directory, ok, _).
     if \<not> ok then Inr (False, s)
     else bind_r (fat32_write (fs_vol s) directory fname \<lparr>f_data = data, n_alloc = n, n_data = n\<rparr>)
       (\<lambda>(r, v). Inr (r, s\<lparr>fs_vol := v\<rparr>)))"

text \<open>
  \<open>fs_append\<close> gets a pointer to a NUL-terminated string; \<open>data\<close> is the buffer it points into, with zeroed
  heap behind it. The new contents are the old bytes and the string, copied into zeroed memory, or
  the caller's buffer itself when the file is empty; their length is taken with \<open>strlen\<close>.
\<close>

definition c_string :: "u8 list \<Rightarrow> cstr" where
  "c_string b = takeWhile (\<lambda>c. c \<noteq> 0) b"

definition append_buffer :: "pi_file \<Rightarrow> u8 list \<Rightarrow> u8 list res" where
  "append_buffer f data =
     (if n_data f > 0 then bind_r (deref (f_data f)) (\<lambda>m. Inr (map m [0..<unat (n_data f)] @ c_string data))
      else Inr data)"

definition fs_append :: "fsys \<Rightarrow> fs_mirror \<Rightarrow> cstr \<Rightarrow> cstr \<Rightarrow> u8 list \<Rightarrow> (bool \<times> fsys) res" where
  "fs_append s mirror dirname fname data =
     bind_r (dirname_to_directory s mirror dirname False) (\<lambda>(directory, ok, _).
     if \<not> ok then Inr (False, s)
     else bind_r (fat32_read (fs_vol s) directory fname) (\<lambda>f.
       bind_r (append_buffer f data) (\<lambda>new_data.
       let n = of_nat (length (c_string new_data)) in
       bind_r (fat32_write (fs_vol s) directory fname
                 \<lparr>f_data = Some (mem_of new_data), n_alloc = n, n_data = n\<rparr>)
         (\<lambda>(r, v). Inr (r, s\<lparr>fs_vol := v\<rparr>)))))"

end
