(* ===== verification/Fat32_Store.thy ===== *)
theory Fat32_Store
  imports Fat32_Dir
begin

text \<open>
  A directory of a FAT32 volume as a finite map from names to contents: the invariant under which
  the chains of its files do not overlap, and the refinement of \<open>fat32_read\<close>, \<open>fat32_write\<close>,
  \<open>fat32_create\<close> and \<open>fat32_delete\<close> to lookup, update and removal in the map.
\<close>

section \<open>Invariant and abstraction\<close>

text \<open>
  What the volume holds for a live entry; \<open>cs\<close> is the entry's chain. It is as long as the size of the
  file needs, so the directory has no subdirectory (whose size field is 0).
\<close>

definition entry_ok :: "vol \<Rightarrow> u32 list \<Rightarrow> fat32_dirent \<Rightarrow> u32 list \<Rightarrow> bool" where
  "entry_ok v dcs d cs \<longleftrightarrow> file_chain (fat_of v) (fat32_cluster_id d) cs \<and> set cs \<inter> set dcs = {}
     \<and> length cs = clusters_for (unat (file_nbytes d)) v \<and> length cs * clus_size v < 4294967296"

definition store_inv :: "vol \<Rightarrow> pi_dirent \<Rightarrow> u32 list \<Rightarrow> u32 list list \<Rightarrow> bool" where
  "store_inv v dir dcs css \<longleftrightarrow> dir_ok v dir dcs \<and> dir_inv (dir_entries v dcs) \<and> plain_dir (dir_entries v dcs)
     \<and> length css = length (dir_entries v dcs)
     \<and> (\<forall>i<length css. dirent_skipped (dir_entries v dcs ! i) \<longrightarrow> css ! i = [])
     \<and> (\<forall>i<length css. \<not> dirent_skipped (dir_entries v dcs ! i) \<longrightarrow>
          entry_ok v dcs (dir_entries v dcs ! i) (css ! i))
     \<and> (\<forall>i<length css. \<forall>j<length css. i \<noteq> j \<longrightarrow> set (css ! i) \<inter> set (css ! j) = {})"

definition stored :: "vol \<Rightarrow> u32 list \<Rightarrow> u32 list list \<Rightarrow> cstr \<Rightarrow> u8 list option" where
  "stored v dcs css f = (case first_match (named f) (dir_entries v dcs) of
     None \<Rightarrow> None
   | Some i \<Rightarrow> Some (take (unat (file_nbytes (dir_entries v dcs ! i))) (chain_bytes v (css ! i))))"

text \<open>
  When a file of \<open>old\<close> bytes can be replaced by one of \<open>n\<close>: it needs as many clusters as it has, or one
  more that is free.
\<close>

definition room_for :: "vol \<Rightarrow> nat \<Rightarrow> nat \<Rightarrow> bool" where
  "room_for v old n \<longleftrightarrow> 0 < n \<and> Suc (clusters_for old v) * clus_size v < 4294967296 \<and> n + clus_size v < 4294967296
     \<and> (clusters_for n v = clusters_for old v \<or>
        clusters_for n v = Suc (clusters_for old v) \<and> (\<exists>c. find_free_cluster (v_fs v) 3 = Inr c))"

lemma clusters_for_0 [simp]: "vol_wf v \<Longrightarrow> clusters_for 0 v = 0"
  using clus_size_pos [of v] by (simp add: clusters_for_def)

lemma clusters_for_covers: "vol_wf v \<Longrightarrow> n \<le> clusters_for n v * clus_size v"
proof (cases "clusters_for n v")
  case 0
  assume "vol_wf v"
  then have "n + clus_size v - 1 < clus_size v"
    using 0 clus_size_pos [of v] by (auto simp: clusters_for_def div_eq_0_iff)
  then show ?thesis by simp
next
  case (Suc k)
  assume "vol_wf v"
  with Suc clusters_for_iff [of v n k] show ?thesis by (cases "n = 0") auto
qed

lemma clusters_for_cong: "clus_size v' = clus_size v \<Longrightarrow> clusters_for n v' = clusters_for n v"
  by (simp add: clusters_for_def)

text \<open>The names the driver can read back: \<open>fat32_read\<close> compares against the dotted form.\<close>

definition file_name :: "cstr \<Rightarrow> bool" where
  "file_name f \<longleftrightarrow> fat32_is_valid_name f \<and> has_dot f"

lemma chain_bytes_Nil [simp]: "chain_bytes v [] = []"
  by (simp add: chain_bytes_def)

lemma file_chain_cases: "file_chain ft c cs \<longleftrightarrow> cs = [] \<and> c = 0 \<or> is_chain ft cs \<and> cs \<noteq> [] \<and> c = hd cs"
  by (auto simp: file_chain_def)

lemma store_entry:
  assumes "store_inv v dir dcs css" "i < length (dir_entries v dcs)" "\<not> dirent_skipped (dir_entries v dcs ! i)"
  shows "entry_ok v dcs (dir_entries v dcs ! i) (css ! i)" "i < length css"
  using assms unfolding store_inv_def by simp_all

lemma stored_Some:
  assumes "store_inv v dir dcs css" "stored v dcs css f = Some b"
  obtains i where "first_match (named f) (dir_entries v dcs) = Some i" "i < length (dir_entries v dcs)"
    "entry_ok v dcs (dir_entries v dcs ! i) (css ! i)"
    "b = take (unat (file_nbytes (dir_entries v dcs ! i))) (chain_bytes v (css ! i))"
proof -
  obtain i where i: "first_match (named f) (dir_entries v dcs) = Some i"
    "b = take (unat (file_nbytes (dir_entries v dcs ! i))) (chain_bytes v (css ! i))"
    using assms(2) by (auto simp: stored_def split: option.splits)
  then have "i < length (dir_entries v dcs)" "\<not> dirent_skipped (dir_entries v dcs ! i)"
    by (auto simp: first_match_Some named_def)
  with i show ?thesis using that store_entry [OF assms(1)] by blast
qed

lemma store_dir_ok [simp]: "store_inv v dir dcs css \<Longrightarrow> dir_ok v dir dcs"
  unfolding store_inv_def by blast

lemma store_plain: "store_inv v dir dcs css \<Longrightarrow> plain_dir (dir_entries v dcs)"
  unfolding store_inv_def by blast

lemma store_dir_inv: "store_inv v dir dcs css \<Longrightarrow> dir_inv (dir_entries v dcs)"
  unfolding store_inv_def by blast

lemma store_length: "store_inv v dir dcs css \<Longrightarrow> length css = length (dir_entries v dcs)"
  unfolding store_inv_def by blast

lemma store_skipped:
  "store_inv v dir dcs css \<Longrightarrow> i < length css \<Longrightarrow> dirent_skipped (dir_entries v dcs ! i) \<Longrightarrow> css ! i = []"
  unfolding store_inv_def by blast

lemma store_disjoint:
  "store_inv v dir dcs css \<Longrightarrow> i < length css \<Longrightarrow> j < length css \<Longrightarrow> i \<noteq> j \<Longrightarrow> set (css ! i) \<inter> set (css ! j) = {}"
  unfolding store_inv_def by blast

section \<open>Reading\<close>

lemma store_read:
  assumes inv: "store_inv v dir dcs css" and f: "file_name f" and b: "stored v dcs css f = Some b"
  shows "\<exists>r. fat32_read v dir f = Inr r \<and> n_data r = of_nat (length b)
    \<and> (b \<noteq> [] \<longrightarrow> (\<exists>m. f_data r = Some m \<and> map m [0..<length b] = b))"
proof -
  obtain i where i: "first_match (named f) (dir_entries v dcs) = Some i" "i < length (dir_entries v dcs)"
    "entry_ok v dcs (dir_entries v dcs ! i) (css ! i)"
    and b': "b = take (unat (file_nbytes (dir_entries v dcs ! i))) (chain_bytes v (css ! i))"
    by (rule stored_Some [OF inv b])
  let ?d = "dir_entries v dcs ! i" and ?cs = "css ! i"
  have v: "vol_wf v" using dir_ok_simps(3) [OF store_dir_ok [OF inv]] .
  note e = i(3) [unfolded entry_ok_def, THEN conjunct1] i(3) [unfolded entry_ok_def, THEN conjunct2, THEN conjunct1]
    i(3) [unfolded entry_ok_def, THEN conjunct2, THEN conjunct2, THEN conjunct1]
    i(3) [unfolded entry_ok_def, THEN conjunct2, THEN conjunct2, THEN conjunct2]
  have nm: "fat32_is_valid_name f" "has_dot f" using f by (simp_all add: file_name_def)
  have r: "fat32_read v dir f = Inr (file_of v ?cs (file_nbytes ?d))"
    by (rule fat32_read_ok [OF store_dir_ok [OF inv] store_plain [OF inv] nm i(1) e(1,4)])
  have len: "length b = unat (file_nbytes ?d)"
    using e(3) v b' clusters_for_covers [OF v, of "unat (file_nbytes ?d)"] by simp
  show ?thesis
  proof (cases ?cs)
    case Nil
    then have "length b = 0" using e(3) len clusters_for_covers [OF v, of "unat (file_nbytes ?d)"] by simp
    then show ?thesis using r Nil by (simp add: file_of_def)
  next
    case (Cons c cs)
    have "map (mem_of (chain_bytes v ?cs)) [0..<length b] = b"
      by (rule nth_equalityI) (simp_all add: mem_of_def b')
    moreover have "file_nbytes ?d = of_nat (length b)" unfolding len by simp
    moreover have "file_of v ?cs (file_nbytes ?d) = \<lparr>f_data = Some (mem_of (chain_bytes v ?cs)),
        n_alloc = of_nat (length ?cs * clus_size v), n_data = file_nbytes ?d\<rparr>"
      using Cons by (simp add: file_of_def)
    ultimately show ?thesis using r by (intro exI [of _ "file_of v ?cs (file_nbytes ?d)"]) simp
  qed
qed

section \<open>Writing\<close>

lemma entry_kept:
  assumes w: "file_written v dcs i cs v' cs' fl" and e: "entry_ok v dcs d xs" and disj: "set xs \<inter> set cs = {}"
  shows "entry_ok v' dcs d xs" "set xs \<inter> set cs' = {}" "chain_bytes v' xs = chain_bytes v xs"
proof -
  have c: "file_chain (fat_of v) (fat32_cluster_id d) xs" "set xs \<inter> set dcs = {}"
    using e by (auto simp: entry_ok_def)
  have k: "is_chain (fat_of v) xs \<Longrightarrow> is_chain (fat_of v') xs \<and> set xs \<inter> set cs' = {} \<and> chain_bytes v' xs = chain_bytes v xs"
    using w disj c(2) by (auto simp: file_written_def)
  have "xs = [] \<or> is_chain (fat_of v) xs" using c(1) by (auto simp: file_chain_cases)
  with k show "set xs \<inter> set cs' = {}" "chain_bytes v' xs = chain_bytes v xs" by auto
  show "entry_ok v' dcs d xs"
    using e k w by (auto simp: entry_ok_def file_chain_cases file_written_def clusters_for_cong [of v' v])
qed

lemma first_match_unique:
  assumes "names_unique ds"
  shows "first_match (named f) ds = Some i \<longleftrightarrow> i < length ds \<and> named f (ds ! i)"
proof
  assume i: "i < length ds \<and> named f (ds ! i)"
  have "\<not> named f (ds ! j)" if "j < i" for j
    using assms [unfolded names_unique_def, rule_format, of j i] i that by (auto simp: named_def)
  with i show "first_match (named f) ds = Some i" by (simp add: first_match_Some)
qed (simp add: first_match_Some)

lemma dir_inv_update:
  assumes inv: "dir_inv ds" and i: "i < length ds" and same: "filename d = filename (ds ! i)" "d_attr d = d_attr (ds ! i)"
  shows "dir_inv (ds[i := d])"
proof -
  have k: "filename (ds[i := d] ! k) = filename (ds ! k)" "d_attr (ds[i := d] ! k) = d_attr (ds ! k)"
    if "k < length ds" for k using that same i by (cases "k = i"; simp)+
  then have sk: "dirent_skipped (ds[i := d] ! k) = dirent_skipped (ds ! k)" if "k < length ds" for k
    using that by (simp add: dirent_skipped_def)
  show ?thesis
    using inv k sk
    by (auto simp: dir_inv_def dir_wf_def names_unique_def end_marked_def all_set_conv_all_nth)
qed

text \<open>
  An operation that touches the live entry \<open>i\<close> only and gives it the chain \<open>cs'\<close> keeps the invariant
  and changes the map at the names of that entry only.
\<close>

lemma store_change:
  assumes inv: "store_inv v dir dcs css" and i: "i < length (dir_entries v dcs)"
    and dir: "dir_ok v' dir dcs" "dir_inv (dir_entries v' dcs)" "plain_dir (dir_entries v' dcs)"
    and len: "length (dir_entries v' dcs) = length (dir_entries v dcs)"
    and skip: "\<And>k. k < length (dir_entries v dcs) \<Longrightarrow> k \<noteq> i \<Longrightarrow>
      dirent_skipped (dir_entries v' dcs ! k) = dirent_skipped (dir_entries v dcs ! k)"
    and keep: "\<And>k. k < length (dir_entries v dcs) \<Longrightarrow> k \<noteq> i \<Longrightarrow> \<not> dirent_skipped (dir_entries v dcs ! k) \<Longrightarrow>
      dir_entries v' dcs ! k = dir_entries v dcs ! k \<and> entry_ok v' dcs (dir_entries v dcs ! k) (css ! k)
      \<and> set (css ! k) \<inter> set cs' = {} \<and> chain_bytes v' (css ! k) = chain_bytes v (css ! k)"
    and new: "dirent_skipped (dir_entries v' dcs ! i) \<Longrightarrow> cs' = []"
      "\<not> dirent_skipped (dir_entries v' dcs ! i) \<Longrightarrow> entry_ok v' dcs (dir_entries v' dcs ! i) cs'"
  shows "store_inv v' dir dcs (css[i := cs'])"
    and "stored v' dcs (css[i := cs']) g =
      (if named g (dir_entries v' dcs ! i) then Some (take (unat (file_nbytes (dir_entries v' dcs ! i))) (chain_bytes v' cs'))
       else if named g (dir_entries v dcs ! i) then None else stored v dcs css g)"
proof -
  let ?ds = "dir_entries v dcs" and ?ds' = "dir_entries v' dcs" and ?css = "css[i := cs']"
  note l = store_length [OF inv]
  have dj: "set (css ! k) \<inter> set cs' = {}" if "k < length css" "k \<noteq> i" for k
    using keep [of k] store_skipped [OF inv that(1)] that l by (cases "dirent_skipped (?ds ! k)") auto
  show "store_inv v' dir dcs ?css"
    unfolding store_inv_def
  proof (intro conjI allI impI dir)
    fix k assume k: "k < length ?css"
    show "dirent_skipped (?ds' ! k) \<Longrightarrow> ?css ! k = []"
      using k new(1) skip [of k] store_skipped [OF inv, of k] l by (cases "k = i") auto
    show "\<not> dirent_skipped (?ds' ! k) \<Longrightarrow> entry_ok v' dcs (?ds' ! k) (?css ! k)"
      using k new(2) skip [of k] keep [of k] l by (cases "k = i") auto
    fix j assume "j < length ?css" "k \<noteq> j"
    then show "set (?css ! k) \<inter> set (?css ! j) = {}"
      using k dj [of k] dj [of j] store_disjoint [OF inv, of k j]
      by (cases "k = i"; cases "j = i") (auto simp: Int_commute)
  qed (simp add: len l)
  have u: "names_unique ?ds" "names_unique ?ds'" using store_dir_inv [OF inv] dir(2) by (auto simp: dir_inv_def)
  have other: "first_match (named g) ?ds' = Some k \<longleftrightarrow> first_match (named g) ?ds = Some k" if "k \<noteq> i" for k
    using keep [of k] skip [of k] that len unfolding first_match_unique [OF u(1)] first_match_unique [OF u(2)]
    by (auto simp: named_def)
  have at_i: "first_match (named g) ?ds' = Some i \<longleftrightarrow> named g (?ds' ! i)"
    "first_match (named g) ?ds = Some i \<longleftrightarrow> named g (?ds ! i)"
    using i len unfolding first_match_unique [OF u(1)] first_match_unique [OF u(2)] by auto
  show "stored v' dcs ?css g = (if named g (?ds' ! i) then Some (take (unat (file_nbytes (?ds' ! i))) (chain_bytes v' cs'))
       else if named g (?ds ! i) then None else stored v dcs css g)"
  proof (cases "first_match (named g) ?ds'")
    case None
    then have "\<not> named g (?ds' ! i)" using at_i by auto
    moreover have "first_match (named g) ?ds = None \<or> first_match (named g) ?ds = Some i"
      using None other by (cases "first_match (named g) ?ds") auto
    ultimately show ?thesis using None at_i(2) by (auto simp: stored_def)
  next
    case (Some k)
    show ?thesis
    proof (cases "k = i")
      case True
      then show ?thesis using Some at_i(1) i l by (simp add: stored_def)
    next
      case False
      then have k: "first_match (named g) ?ds = Some k" "k < length ?ds" "\<not> dirent_skipped (?ds ! k)"
        using Some other [OF False] by (auto simp: first_match_Some named_def)
      have "\<not> named g (?ds' ! i)" "\<not> named g (?ds ! i)" using at_i Some k(1) False by auto
      then show ?thesis using Some k keep [OF k(2) False k(3)] False by (simp add: stored_def)
    qed
  qed
qed

lemma store_write:
  assumes inv: "store_inv v dir dcs css" and f: "file_name f" and b: "stored v dcs css f = Some b"
    and room: "room_for v (length b) (unat n)"
  shows "\<exists>v' css'. fat32_write v dir f \<lparr>f_data = Some m, n_alloc = n, n_data = n\<rparr> = Inr (True, v')
    \<and> store_inv v' dir dcs css' \<and> clus_size v' = clus_size v
    \<and> (\<forall>g. file_name g \<longrightarrow> stored v' dcs css' g = (if g = f then Some (map m [0..<unat n]) else stored v dcs css g))"
proof -
  let ?ds = "dir_entries v dcs" and ?fl = "\<lparr>f_data = Some m, n_alloc = n, n_data = n\<rparr>"
  obtain i where i: "first_match (named f) ?ds = Some i" "i < length ?ds" "entry_ok v dcs (?ds ! i) (css ! i)"
    and bi: "b = take (unat (file_nbytes (?ds ! i))) (chain_bytes v (css ! i))"
    by (rule stored_Some [OF inv b])
  have dir: "dir_ok v dir dcs" using inv by simp
  have v: "vol_wf v" using dir_ok_simps(3) [OF dir] .
  have ent: "file_chain (fat_of v) (fat32_cluster_id (?ds ! i)) (css ! i)" "set (css ! i) \<inter> set dcs = {}"
    and cl: "length (css ! i) = clusters_for (unat (file_nbytes (?ds ! i))) v"
    using i(3) by (auto simp: entry_ok_def)
  have "length b = unat (file_nbytes (?ds ! i))"
    using bi v cl clusters_for_covers [OF v, of "unat (file_nbytes (?ds ! i))"] by simp
  then have fits: "write_fits v (css ! i) (unat (n_alloc ?fl))"
    using room cl by (simp add: room_for_def write_fits_def)
  note d = dir_ok_simps [OF dir] and pl = store_plain [OF inv] and l = store_length [OF inv]
  have nm: "fat32_is_valid_name f" "has_dot f" using f by (auto simp: file_name_def)
  obtain v' cs' where w: "fat32_write v dir f ?fl = Inr (True, v')" "file_written v dcs i (css ! i) v' cs' ?fl"
    using fat32_write_ok [OF dir nm(1) i(1) ent fits] by auto
  note r = fat32_write_read_ok [OF dir pl nm i(1) w(2) fits]
  have il: "i < length dcs * epc v" using i(2) d(3) by simp
  note d' = file_written_dir [OF dir il w(2)]
  let ?e = "updated_dirent (?ds ! i) (hd cs') n"
  have ds': "dir_entries v' dcs = ?ds[i := ?e]" "clus_size v' = clus_size v" "is_chain (fat_of v') cs'"
    and cs': "set cs' \<inter> set dcs = {}" "chain_bytes v' cs' = map m [0..<length cs' * clus_size v]"
      "length cs' = clusters_for (unat n) v"
    using w(2) by (auto simp: file_written_def)
  have live: "\<not> dirent_skipped (?ds ! i)" using i(1) by (auto simp: first_match_Some named_def)
  have e: "entry_ok v' dcs ?e cs'" using r(2-4) ds'(2,3) cs'(1,3) clusters_for_cong [OF ds'(2)] by (simp add: entry_ok_def file_chain_def)
  have k: "entry_ok v' dcs (?ds ! k) (css ! k) \<and> set (css ! k) \<inter> set cs' = {} \<and> chain_bytes v' (css ! k) = chain_bytes v (css ! k)"
    if "k < length ?ds" "k \<noteq> i" "\<not> dirent_skipped (?ds ! k)" for k
    using entry_kept [OF w(2) store_entry(1) [OF inv]] that store_disjoint [OF inv, of k i] i(2) l by simp
  have di: "dir_inv (?ds[i := ?e])" using dir_inv_update [OF store_dir_inv [OF inv] i(2)] by simp
  have e_sk: "dirent_skipped ?e = dirent_skipped (?ds ! i)" by (simp add: dirent_skipped_def)
  note c = store_change [OF inv i(2) d'(1) _ d'(3) [OF pl], of cs', unfolded ds'(1)]
  have inv': "store_inv v' dir dcs (css[i := cs'])"
    using c(1) [OF di] k e e_sk live i(2) by simp
  have "stored v' dcs (css[i := cs']) g = (if g = f then Some (map m [0..<unat n]) else stored v dcs css g)"
    if "file_name g" for g
  proof -
    have "named g (?ds ! i) \<longleftrightarrow> g = f"
      using i(1) raw83_inj nm that by (auto simp: first_match_Some named_def file_name_def)
    then show ?thesis
      using c(2) [OF di, of g] k e e_sk live i(2) cs'(2) r(3) by (simp add: take_map)
  qed
  with w(1) inv' ds'(2) show ?thesis by blast
qed

section \<open>Creating\<close>

definition slot_free :: "vol \<Rightarrow> u32 list \<Rightarrow> bool" where
  "slot_free v dcs \<longleftrightarrow> (\<exists>s e. free_slot (dir_entries v dcs) 0 (length (dir_entries v dcs)) = Inr (s, e))"

lemma plain_dir_new_entries:
  assumes "plain_dir ds" "s < length ds" "e \<Longrightarrow> s + 1 < length ds" "\<forall>d \<in> set ds. length (filename d) = 11"
  shows "plain_dir (new_entries ds f s e)"
  using assms nth_new_entries [of _ ds s e f]
  by (auto simp: plain_dir_def all_set_conv_all_nth new_dirent_def end_dirent_def)

lemma entry_ok_same_fat:
  "entry_ok v dcs d cs \<Longrightarrow> fat_of v' = fat_of v \<Longrightarrow> clus_size v' = clus_size v \<Longrightarrow> entry_ok v' dcs d cs"
  by (auto simp: entry_ok_def clusters_for_cong [of v' v])

lemma entry_chain: "entry_ok v dcs d cs \<Longrightarrow> cs = [] \<or> is_chain (fat_of v) cs \<and> set cs \<inter> set dcs = {}"
  by (auto simp: entry_ok_def file_chain_cases)

lemma store_create:
  assumes inv: "store_inv v dir dcs css" and f: "file_name f" and none: "stored v dcs css f = None"
    and slot: "slot_free v dcs"
  shows "\<exists>e v' css'. fat32_create v dir f False = Inr (Some e, v') \<and> store_inv v' dir dcs css'
    \<and> clus_size v' = clus_size v \<and> v_fs v' = v_fs v
    \<and> (\<forall>g. file_name g \<longrightarrow> stored v' dcs css' g = (if g = f then Some [] else stored v dcs css g))"
proof -
  let ?ds = "dir_entries v dcs"
  obtain s e where se: "free_slot ?ds 0 (length ?ds) = Inr (s, e)" using slot by (auto simp: slot_free_def)
  have fm: "first_match (named f) ?ds = None" using none by (simp add: stored_def split: option.splits)
  have nm: "fat32_is_valid_name f" using f by (simp add: file_name_def)
  note dir = store_dir_ok [OF inv] and l = store_length [OF inv]
  note d = dir_ok_simps [OF dir] and sl = free_slot_Inr [OF se] and c = created_ok [OF dir nm se]
  let ?v = "created v dcs f s e"
  have s: "s < length ?ds" and s1: "e \<Longrightarrow> s + 1 < length ?ds" using sl by auto
  have s_sk: "dirent_skipped (?ds ! s)" using sl by (auto simp: dirent_skipped_def split: if_splits)
  have len: "\<forall>d \<in> set ?ds. length (filename d) = 11" using store_dir_inv [OF inv] by (simp add: dir_inv_def)
  have di: "dir_inv (new_entries ?ds f s e)"
    using new_entries_inv [OF store_dir_inv [OF inv] nm _ se] fm by (simp add: first_match_None)
  have s1_sk: "e \<Longrightarrow> dirent_skipped (?ds ! (s + 1))"
    using store_dir_inv [OF inv] sl s1 by (auto simp: dir_inv_def end_marked_def split: if_splits)
  have nth: "new_entries ?ds f s e ! k =
      (if e \<and> k = s + 1 then end_dirent (?ds ! k) else if k = s then new_dirent (?ds ! s) f else ?ds ! k)"
    if "k < length ?ds" for k by (rule nth_new_entries [OF that s s1])
  have dir': "dir_ok ?v dir dcs"
    using dir c(1-3,5) di by (simp add: dir_ok_def dir_small_def dir_inv_def)
  have at_s: "new_entries ?ds f s e ! s = new_dirent (?ds ! s) f" using nth [OF s] by simp
  have keep: "new_entries ?ds f s e ! k = ?ds ! k \<and> entry_ok ?v dcs (?ds ! k) (css ! k) \<and> set (css ! k) \<inter> set [] = {}
      \<and> chain_bytes ?v (css ! k) = chain_bytes v (css ! k)"
    if "k < length ?ds" "k \<noteq> s" "\<not> dirent_skipped (?ds ! k)" for k
  proof -
    note e = store_entry(1) [OF inv that(1,3)]
    show ?thesis
      using that nth [OF that(1)] s1_sk entry_ok_same_fat [OF e c(2,3)] entry_chain [OF e] c(6) by auto
  qed
  have skip: "dirent_skipped (new_entries ?ds f s e ! k) = dirent_skipped (?ds ! k)" if "k < length ?ds" "k \<noteq> s" for k
    using that nth [OF that(1)] s1_sk end_dirent_skipped len by auto
  have new: "\<not> dirent_skipped (new_dirent (?ds ! s) f)" "entry_ok ?v dcs (new_dirent (?ds ! s) f) []"
    using new_dirent_live [OF nm] c(1) by (simp_all add: entry_ok_def file_chain_def new_dirent_def fat32_cluster_id_def)
  note ch = store_change [OF inv s dir', of "[]", unfolded c(5) at_s length_new_entries, OF di
      plain_dir_new_entries [OF store_plain [OF inv] s s1 len] refl skip keep]
  have inv': "store_inv ?v dir dcs (css[s := []])" using ch(1) new by blast
  have "stored ?v dcs (css[s := []]) g = (if g = f then Some [] else stored v dcs css g)" if "file_name g" for g
  proof -
    have "named g (new_dirent (?ds ! s) f) \<longleftrightarrow> g = f" "\<not> named g (?ds ! s)"
      using that nm raw83_inj new(1) s_sk by (auto simp: named_def file_name_def new_dirent_def)
    then show ?thesis using ch(2) [of g] new by simp
  qed
  moreover have "v_fs ?v = v_fs v" by (simp add: created_def Let_def)
  ultimately show ?thesis using inv' fat32_create_new [OF dir nm fm se] c(3) by blast
qed

text \<open>Creating a name that is there already changes nothing.\<close>

lemma store_create_existing:
  assumes inv: "store_inv v dir dcs css" and f: "file_name f" and some: "stored v dcs css f \<noteq> None"
  shows "\<exists>e. fat32_create v dir f b = Inr (Some e, v)"
proof -
  obtain i where i: "first_match (named f) (dir_entries v dcs) = Some i"
    using some by (auto simp: stored_def split: option.splits)
  then have "named f (dir_entries v dcs ! i)" by (simp add: first_match_Some)
  then have "\<exists>n. fat32_dirent_name (dir_entries v dcs ! i) = Inr n"
    using to_8dot3_raw83 [of f] f by (auto simp: named_def file_name_def fat32_dirent_name_def)
  then have "\<exists>x. dirent_convert (dir_entries v dcs ! i) = Inr x" by (auto simp: dirent_convert_def)
  then show ?thesis
    using fat32_create_existing [OF store_dir_ok [OF inv] _ i] f by (auto simp: file_name_def)
qed

section \<open>Deleting\<close>

lemma store_delete:
  assumes inv: "store_inv v dir dcs css" and f: "file_name f" and some: "stored v dcs css f \<noteq> None"
  shows "\<exists>v' css'. fat32_delete v dir f = Inr (True, v') \<and> store_inv v' dir dcs css' \<and> clus_size v' = clus_size v
    \<and> (\<forall>g. file_name g \<longrightarrow> stored v' dcs css' g = (if g = f then None else stored v dcs css g))"
proof -
  let ?ds = "dir_entries v dcs"
  obtain b' where "stored v dcs css f = Some b'" using some by auto
  then obtain i where i: "first_match (named f) ?ds = Some i" "i < length ?ds" "entry_ok v dcs (?ds ! i) (css ! i)"
    by (rule stored_Some [OF inv])
  have nm: "fat32_is_valid_name f" using f by (simp add: file_name_def)
  have ent: "file_chain (fat_of v) (fat32_cluster_id (?ds ! i)) (css ! i)" "set (css ! i) \<inter> set dcs = {}"
    using i(3) by (auto simp: entry_ok_def)
  note dir = store_dir_ok [OF inv] and l = store_length [OF inv]
  note d = dir_ok_simps [OF dir]
  have il: "i < length dcs * epc v" using i(2) d(3) by simp
  let ?v = "deleted v dcs i (css ! i)" and ?e = "dead_dirent (?ds ! i)"
  note c = deleted_ok [OF dir il ent(2)]
  have e11: "length (filename (?ds ! i)) = 11" using dir_entry_filename [OF d(3) il] .
  have dead: "dirent_skipped ?e" by (rule dead_dirent_skipped [OF e11])
  have di: "dir_inv (?ds[i := ?e])" by (rule dead_entries_inv [OF store_dir_inv [OF inv] i(2)])
  have pl: "plain_dir (?ds[i := ?e])"
    using store_plain [OF inv] e11 i(2) by (auto simp: plain_dir_def dead_dirent_def dest!: set_update_subset_insert [THEN subsetD])
  have dir': "dir_ok ?v dir dcs"
    using dir c(1,2,3) c(5) [OF d(4)] ent(2) di by (simp add: dir_ok_def dir_small_def dir_inv_def Int_commute)
  have keep: "?ds[i := ?e] ! k = ?ds ! k \<and> entry_ok ?v dcs (?ds ! k) (css ! k) \<and> set (css ! k) \<inter> set [] = {}
      \<and> chain_bytes ?v (css ! k) = chain_bytes v (css ! k)"
    if "k < length ?ds" "k \<noteq> i" "\<not> dirent_skipped (?ds ! k)" for k
  proof -
    note e = store_entry(1) [OF inv that(1,3)]
    have "set (css ! k) \<inter> set (css ! i) = {}" using store_disjoint [OF inv, of k i] that i(2) l by simp
    then show ?thesis
      using that e entry_chain [OF e] c(2,5,6) by (auto simp: entry_ok_def file_chain_cases clusters_for_cong [OF c(2)])
  qed
  note ch = store_change [OF inv i(2) dir', of "[]", unfolded c(3), OF di pl length_list_update _ keep]
  have inv': "store_inv ?v dir dcs (css[i := []])" using ch(1) dead i(2) by simp
  have "stored ?v dcs (css[i := []]) g = (if g = f then None else stored v dcs css g)" if "file_name g" for g
  proof -
    have "named g (?ds ! i) \<longleftrightarrow> g = f"
      using i(1) raw83_inj nm that by (auto simp: first_match_Some named_def file_name_def)
    moreover have "\<not> named g ?e" using dead by (simp add: named_def)
    ultimately show ?thesis using ch(2) [of g] dead i(2) by simp
  qed
  with inv' fat32_delete_ok [OF dir nm i(1) ent] c(2) show ?thesis by blast
qed

lemma store_delete_missing:
  assumes inv: "store_inv v dir dcs css" and f: "file_name f" and none: "stored v dcs css f = None"
  shows "fat32_delete v dir f = Inr (False, v)"
proof -
  have "first_match (named f) (dir_entries v dcs) = None" using none by (simp add: stored_def split: option.splits)
  then show ?thesis
    using find_dirent_eq [OF dir_ok_simps(6) [OF store_dir_ok [OF inv]], of f 0] f
      dir_ok_dirents [OF store_dir_ok [OF inv]] dir_ok_simps(1) [OF store_dir_ok [OF inv]]
    by (simp add: fat32_delete_def file_name_def)
qed

section \<open>The directory as a map\<close>

text \<open>\<open>holds v dir M\<close>: the directory's files and their contents are \<open>M\<close>.\<close>

definition holds :: "vol \<Rightarrow> pi_dirent \<Rightarrow> (cstr \<Rightarrow> u8 list option) \<Rightarrow> bool" where
  "holds v dir M \<longleftrightarrow> (\<exists>dcs css. store_inv v dir dcs css \<and> (\<forall>f. M f = (if file_name f then stored v dcs css f else None)))"

definition has_slot :: "vol \<Rightarrow> pi_dirent \<Rightarrow> bool" where
  "has_slot v dir \<longleftrightarrow> (case get_dirents v (cluster_id dir) of
     Inl _ \<Rightarrow> False
   | Inr ds \<Rightarrow> (case free_slot ds 0 (length ds) of Inl _ \<Rightarrow> False | Inr _ \<Rightarrow> True))"

lemma has_slot_iff: "store_inv v dir dcs css \<Longrightarrow> has_slot v dir = slot_free v dcs"
  by (auto simp: has_slot_def slot_free_def dir_ok_dirents [OF store_dir_ok] split: sum.splits)

lemma holdsE:
  assumes "holds v dir M"
  obtains dcs css where "store_inv v dir dcs css" "\<And>f. file_name f \<Longrightarrow> M f = stored v dcs css f"
    "\<And>f. M f \<noteq> None \<Longrightarrow> file_name f" "\<And>f. \<not> file_name f \<Longrightarrow> M f = None"
proof -
  obtain dcs css where h: "store_inv v dir dcs css" "\<forall>f. M f = (if file_name f then stored v dcs css f else None)"
    using assms by (auto simp: holds_def)
  show ?thesis by (rule that [OF h(1)]) (use h(2) in \<open>auto split: if_splits\<close>)
qed

lemma holdsI: "store_inv v dir dcs css \<Longrightarrow> (\<And>f. file_name f \<Longrightarrow> M f = stored v dcs css f) \<Longrightarrow>
    (\<And>f. \<not> file_name f \<Longrightarrow> M f = None) \<Longrightarrow> holds v dir M"
  by (auto simp: holds_def)

lemma holds_read:
  assumes "holds v dir M" "M f = Some b"
  shows "\<exists>r. fat32_read v dir f = Inr r \<and> n_data r = of_nat (length b) \<and> length b < 4294967296
    \<and> (b \<noteq> [] \<longrightarrow> (\<exists>m. f_data r = Some m \<and> map m [0..<length b] = b))"
proof -
  obtain dcs css where h: "store_inv v dir dcs css" "\<And>f. file_name f \<Longrightarrow> M f = stored v dcs css f"
    "\<And>f. M f \<noteq> None \<Longrightarrow> file_name f" using holdsE [OF assms(1)] by metis
  have f: "file_name f" using h(3) assms(2) by simp
  have b: "stored v dcs css f = Some b" using h(2) [OF f] assms(2) by simp
  then obtain i where "b = take (unat (file_nbytes (dir_entries v dcs ! i))) (chain_bytes v (css ! i))"
    by (rule stored_Some [OF h(1)])
  then have "length b \<le> unat (file_nbytes (dir_entries v dcs ! i))" by simp
  then have "length b < 4294967296" using unat_u32_less le_less_trans by blast
  with store_read [OF h(1) f b] show ?thesis by blast
qed

lemma holds_write:
  assumes "holds v dir M" "M f = Some b" "room_for v (length b) (unat n)"
  shows "\<exists>v'. fat32_write v dir f \<lparr>f_data = Some m, n_alloc = n, n_data = n\<rparr> = Inr (True, v')
    \<and> holds v' dir (M(f \<mapsto> map m [0..<unat n])) \<and> clus_size v' = clus_size v"
proof -
  obtain dcs css where h: "store_inv v dir dcs css" "\<And>f. file_name f \<Longrightarrow> M f = stored v dcs css f"
    "\<And>f. M f \<noteq> None \<Longrightarrow> file_name f" "\<And>f. \<not> file_name f \<Longrightarrow> M f = None" using holdsE [OF assms(1)] by metis
  have f: "file_name f" using h(3) assms(2) by simp
  have b: "stored v dcs css f = Some b" using h(2) [OF f] assms(2) by simp
  obtain v' css' where w: "fat32_write v dir f \<lparr>f_data = Some m, n_alloc = n, n_data = n\<rparr> = Inr (True, v')"
    "store_inv v' dir dcs css'" "clus_size v' = clus_size v"
    "\<And>g. file_name g \<Longrightarrow> stored v' dcs css' g = (if g = f then Some (map m [0..<unat n]) else stored v dcs css g)"
    using store_write [OF h(1) f b assms(3), of m] by blast
  have "holds v' dir (M(f \<mapsto> map m [0..<unat n]))"
    using w(2,4) h(2,4) f by (intro holdsI) auto
  with w show ?thesis by blast
qed

lemma holds_create:
  assumes "holds v dir M" "file_name f" "M f = None" "has_slot v dir"
  shows "\<exists>e v'. fat32_create v dir f False = Inr (Some e, v') \<and> holds v' dir (M(f \<mapsto> []))
    \<and> clus_size v' = clus_size v \<and> v_fs v' = v_fs v"
proof -
  obtain dcs css where h: "store_inv v dir dcs css" "\<And>f. file_name f \<Longrightarrow> M f = stored v dcs css f"
    "\<And>f. \<not> file_name f \<Longrightarrow> M f = None" using holdsE [OF assms(1)] by metis
  have n: "stored v dcs css f = None" "slot_free v dcs"
    using h(2) [OF assms(2)] assms(3,4) has_slot_iff [OF h(1)] by auto
  obtain e v' css' where w: "fat32_create v dir f False = Inr (Some e, v')"
    "store_inv v' dir dcs css'" "clus_size v' = clus_size v" "v_fs v' = v_fs v"
    "\<And>g. file_name g \<Longrightarrow> stored v' dcs css' g = (if g = f then Some [] else stored v dcs css g)"
    using store_create [OF h(1) assms(2) n] by blast
  have "holds v' dir (M(f \<mapsto> []))" using w(2,5) h(2,3) assms(2) by (intro holdsI) auto
  with w show ?thesis by blast
qed

lemma holds_create_existing:
  assumes "holds v dir M" "M f \<noteq> None"
  shows "\<exists>e. fat32_create v dir f b = Inr (Some e, v)"
proof -
  obtain dcs css where h: "store_inv v dir dcs css" "\<And>f. file_name f \<Longrightarrow> M f = stored v dcs css f"
    "\<And>f. M f \<noteq> None \<Longrightarrow> file_name f" using holdsE [OF assms(1)] by metis
  have f: "file_name f" using h(3) assms(2) by simp
  show ?thesis using store_create_existing [OF h(1) f, of b] h(2) [OF f] assms(2) by simp
qed

lemma holds_write_missing:
  assumes "holds v dir M" "file_name f" "M f = None"
  shows "fat32_write v dir f file = Inr (False, v)"
proof -
  obtain dcs css where h: "store_inv v dir dcs css" "M f = stored v dcs css f" using holdsE [OF assms(1)] assms(2) by metis
  then have none: "first_match (named f) (dir_entries v dcs) = None" using assms(3) by (simp add: stored_def split: option.splits)
  note d = dir_ok_simps [OF store_dir_ok [OF h(1)]]
  have name: "fat32_is_valid_name f" using assms(2) by (simp add: file_name_def)
  show ?thesis
    using d(1,2) dir_ok_dirents [OF store_dir_ok [OF h(1)]] find_dirent_eq [OF d(6) name, of 0] none by (simp add: fat32_write_def)
qed

lemma holds_delete:
  assumes "holds v dir M" "file_name f"
  shows "\<exists>v'. fat32_delete v dir f = Inr (M f \<noteq> None, v') \<and> holds v' dir (M(f := None)) \<and> clus_size v' = clus_size v"
proof -
  obtain dcs css where h: "store_inv v dir dcs css" "\<And>f. file_name f \<Longrightarrow> M f = stored v dcs css f"
    "\<And>f. \<not> file_name f \<Longrightarrow> M f = None" using holdsE [OF assms(1)] by metis
  show ?thesis
  proof (cases "M f")
    case None
    then have "M(f := None) = M" by auto
    then show ?thesis using store_delete_missing [OF h(1) assms(2)] h(2) [OF assms(2)] None assms(1) by auto
  next
    case (Some b)
    then have some: "stored v dcs css f \<noteq> None" using h(2) [OF assms(2)] by simp
    obtain v' css' where w: "fat32_delete v dir f = Inr (True, v')"
      "store_inv v' dir dcs css'" "clus_size v' = clus_size v"
      "\<And>g. file_name g \<Longrightarrow> stored v' dcs css' g = (if g = f then None else stored v dcs css g)"
      using store_delete [OF h(1) assms(2) some] by blast
    have "holds v' dir (M(f := None))" using w(2,4) h(2,3) assms(2) by (intro holdsI) auto
    with w Some show ?thesis by auto
  qed
qed

end
