(* ===== verification/Fs_Store.thy ===== *)
theory Fs_Store
  imports Fs_Apis Fat32_Store
begin

text \<open>
  What \<open>fs-apis.c\<close> promises to the servers and clients of the distributed file system, which keep all
  their files in the root directory: the root directory as a map from names to contents, and the
  invariant of a mirror.
\<close>

section \<open>Mirrors\<close>

definition mirror_ok :: "fsys \<Rightarrow> fs_mirror \<Rightarrow> bool" where
  "mirror_ok s m \<longleftrightarrow> m_chain m \<noteq> [] \<and> hd (m_chain m) = m_cwd m \<and> fs_root s = Some (last (m_chain m))"

text \<open>What a path lookup does to the mirror: nothing, or a move to the root, to the parent or down.\<close>

definition moved :: "fsys \<Rightarrow> fs_mirror \<Rightarrow> bool \<Rightarrow> pi_dirent \<Rightarrow> bool \<Rightarrow> fs_mirror \<Rightarrow> bool" where
  "moved s m cd d ok m' \<longleftrightarrow>
     m' = m \<and> (\<not> cd \<or> \<not> ok \<or> d = m_cwd m)
   \<or> cd \<and> ok \<and> fs_root s = Some d \<and> m' = m\<lparr>m_chain := [last (m_chain m)], m_cwd := d\<rparr>
   \<or> cd \<and> ok \<and> (\<exists>c cs. m_chain m = c # d # cs \<and> m' = m\<lparr>m_chain := d # cs, m_cwd := d\<rparr>)
   \<or> cd \<and> ok \<and> m' = m\<lparr>m_chain := d # m_chain m, m_cwd := d\<rparr>"

lemma moved_top:
  assumes "bind_r (root_of s) (\<lambda>r. if \<not> cd then Inr (r, True, m) else if m_chain m = [] then Inl OutOfBounds
     else Inr (r, True, m\<lparr>m_chain := [last (m_chain m)], m_cwd := r\<rparr>)) = Inr (d, ok, m')"
  shows "moved s m cd d ok m'"
proof -
  obtain r where r: "fs_root s = Some r" "(if \<not> cd then Inr (r, True, m)
      else if m_chain m = [] then Inl OutOfBounds
      else Inr (r, True, m\<lparr>m_chain := [last (m_chain m)], m_cwd := r\<rparr>)) = Inr (d, ok, m')"
    using assms by (cases "fs_root s") (simp_all add: root_of_def)
  then show ?thesis unfolding moved_def by (cases cd) (auto split: if_splits)
qed

lemma moved_up:
  assumes "(case m_chain m of
      _ # parent # rest \<Rightarrow> Inr (parent, True, if cd then m\<lparr>m_chain := parent # rest, m_cwd := parent\<rparr> else m)
    | [_] \<Rightarrow> Inr (m_cwd m, False, m) | [] \<Rightarrow> Inl OutOfBounds) = Inr (d, ok, m')"
  shows "moved s m cd d ok m'"
proof (cases "\<exists>c p cs. m_chain m = c # p # cs")
  case True
  then obtain c p cs where ch: "m_chain m = c # p # cs" by blast
  with assms have "p = d" "ok" "m' = (if cd then m\<lparr>m_chain := p # cs, m_cwd := p\<rparr> else m)" by auto
  with ch show ?thesis unfolding moved_def by (cases cd) simp_all
next
  case False
  then have "m' = m \<and> \<not> ok" using assms by (auto split: list.splits)
  then show ?thesis unfolding moved_def by blast
qed

lemma moved_down:
  assumes "bind_r (fat32_stat v d0 n) (\<lambda>sub. case sub of
      Some d \<Rightarrow> Inr (d, True, if cd then m\<lparr>m_chain := d # m_chain m, m_cwd := d\<rparr> else m)
    | None \<Rightarrow> Inr (m_cwd m, False, m)) = Inr (d, ok, m')"
  shows "moved s m cd d ok m'"
proof -
  obtain sub where "(case sub of
        Some d \<Rightarrow> Inr (d, True, if cd then m\<lparr>m_chain := d # m_chain m, m_cwd := d\<rparr> else m)
      | None \<Rightarrow> Inr (m_cwd m, False, m)) = (Inr (d, ok, m') :: (pi_dirent \<times> bool \<times> fs_mirror) res)"
    using assms by (auto simp: bind_r_eq_Inr)
  then have "m' = m \<and> (\<not> cd \<or> \<not> ok) \<or> cd \<and> ok \<and> m' = m\<lparr>m_chain := d # m_chain m, m_cwd := d\<rparr>"
    by (cases sub; cases cd) auto
  then show ?thesis unfolding moved_def by blast
qed

lemma dirname_moved:
  assumes "dirname_to_directory s m dirname cd = Inr (d, ok, m')"
  shows "moved s m cd d ok m'"
proof -
  have stay: "moved s m cd (m_cwd m) True m" by (simp add: moved_def)
  let ?n = "strip_slash dirname"
  note un = assms [unfolded dirname_to_directory_def Let_def]
  consider (e) "dirname = []" | (t) "dirname \<noteq> []" "?n = str ''~''" | (d) "dirname \<noteq> []" "?n \<noteq> str ''~''" "?n = str ''.''"
    | (u) "dirname \<noteq> []" "?n \<noteq> str ''~''" "?n \<noteq> str ''.''" "?n = str ''..''"
    | (n) "dirname \<noteq> []" "?n \<noteq> str ''~''" "?n \<noteq> str ''.''" "?n \<noteq> str ''..''" by blast
  then show ?thesis
  proof cases
    case e
    then show ?thesis using un stay by auto
  next
    case t
    show ?thesis by (rule moved_top, use un t in simp)
  next
    case d
    then show ?thesis using un stay by auto
  next
    case u
    show ?thesis by (rule moved_up, use un u in simp)
  next
    case n
    show ?thesis by (rule moved_down, use un n in simp)
  qed
qed

lemma moved_keeps:
  assumes "moved s m cd d ok m'" "mirror_ok s m"
  shows "mirror_ok s m'" "\<not> cd \<Longrightarrow> m' = m" "\<not> ok \<Longrightarrow> m' = m" "cd \<Longrightarrow> ok \<Longrightarrow> m_cwd m' = d"
proof -
  have "mirror_ok s (m\<lparr>m_chain := [last (m_chain m)], m_cwd := d\<rparr>)" if "fs_root s = Some d"
    using assms(2) that by (simp add: mirror_ok_def)
  moreover have "mirror_ok s (m\<lparr>m_chain := d # cs, m_cwd := d\<rparr>)" if "m_chain m = c # d # cs" for c cs
    using assms(2) that by (simp add: mirror_ok_def)
  moreover have "mirror_ok s (m\<lparr>m_chain := d # m_chain m, m_cwd := d\<rparr>)"
    using assms(2) by (simp add: mirror_ok_def)
  ultimately show "mirror_ok s m'" using assms unfolding moved_def by (elim disjE conjE exE) simp_all
  show "\<not> cd \<Longrightarrow> m' = m" "\<not> ok \<Longrightarrow> m' = m" "cd \<Longrightarrow> ok \<Longrightarrow> m_cwd m' = d"
    using assms(1) unfolding moved_def by (elim disjE conjE exE; simp)+
qed

lemmas dirname_ok = moved_keeps [OF dirname_moved]

lemma changedir_ok:
  "mirror_ok s m \<Longrightarrow> fs_changedir s m dirname = Inr (ok, m') \<Longrightarrow> mirror_ok s m' \<and> (\<not> ok \<longrightarrow> m' = m)"
  using dirname_ok [of s m dirname True] by (auto simp: fs_changedir_def bind_r_eq_Inr)

text \<open>Entering a subdirectory by its name and going back.\<close>

definition plain_name :: "cstr \<Rightarrow> bool" where
  "plain_name n \<longleftrightarrow> n \<noteq> [] \<and> strip_slash n \<noteq> str ''~'' \<and> strip_slash n \<noteq> str ''.'' \<and> strip_slash n \<noteq> str ''..''"

lemma str_parent: "strip_slash (str ''..'') = str ''..''" "str ''..'' \<noteq> []" "str ''..'' \<noteq> str ''~''" "str ''..'' \<noteq> str ''.''"
  by (simp_all add: strip_slash_def str_def)

lemma changedir_down_up:
  assumes "mirror_ok s m" "plain_name n" "fs_changedir s m n = Inr (True, m')"
  shows "fs_changedir s m' (str ''..'') = Inr (True, m)"
proof -
  obtain c cs where ch: "m_chain m = c # cs" "m_cwd m = c"
    using assms(1) by (cases "m_chain m") (auto simp: mirror_ok_def)
  obtain d where "m' = m\<lparr>m_chain := d # m_chain m, m_cwd := d\<rparr>"
    using assms(2,3) unfolding fs_changedir_def dirname_to_directory_def plain_name_def Let_def
    by (auto simp: bind_r_eq_Inr split: option.splits)
  then show ?thesis
    using ch str_parent by (simp add: fs_changedir_def dirname_to_directory_def Let_def)
qed

section \<open>Files of one directory\<close>

text \<open>
  The operations on the files of a directory that a path resolves to. \<open>resolves s m dn r\<close> says that the
  path \<open>dn\<close> of mirror \<open>m\<close> is the directory \<open>r\<close>.
\<close>

definition resolves :: "fsys \<Rightarrow> fs_mirror \<Rightarrow> cstr \<Rightarrow> pi_dirent \<Rightarrow> bool" where
  "resolves s m dn r \<longleftrightarrow> dirname_to_directory s m dn False = Inr (r, True, m)"

definition fs_space :: "fsys \<Rightarrow> bool" where
  "fs_space s \<longleftrightarrow> (\<exists>c. find_free_cluster (v_fs (fs_vol s)) 3 = Inr c)"

lemma resolves_home: "fs_root s = Some r \<Longrightarrow> resolves s m (str ''~'') r"
  by (simp add: resolves_def dirname_to_directory_def root_of_def strip_slash_def str_def)

lemma resolves_here: "resolves s m (str ''.'') (m_cwd m)"
  by (simp add: resolves_def dirname_to_directory_def strip_slash_def str_def)

lemma create_at:
  assumes "resolves s m dn r" "holds (fs_vol s) r M" "file_name f" "M f = None" "has_slot (fs_vol s) r"
  shows "\<exists>v. fs_create s m dn f False cd = Inr (True, m, s\<lparr>fs_vol := v\<rparr>) \<and> holds v r (M(f \<mapsto> []))
    \<and> clus_size v = clus_size (fs_vol s) \<and> v_fs v = v_fs (fs_vol s)"
  using holds_create [OF assms(2-5)] assms(1) by (auto simp: fs_create_def resolves_def simp del: fun_upd_apply)

lemma create_again_at:
  assumes "resolves s m dn r" "holds (fs_vol s) r M" "M f \<noteq> None"
  shows "fs_create s m dn f False cd = Inr (True, m, s)"
  using holds_create_existing [OF assms(2,3), of False] assms(1) by (auto simp: fs_create_def resolves_def)

lemma delete_at:
  assumes "resolves s m dn r" "holds (fs_vol s) r M" "file_name f"
  shows "\<exists>v. fs_delete s m dn f = Inr (M f \<noteq> None, s\<lparr>fs_vol := v\<rparr>) \<and> holds v r (M(f := None))
    \<and> clus_size v = clus_size (fs_vol s)"
proof -
  obtain v where "fat32_delete (fs_vol s) r f = Inr (M f \<noteq> None, v)" "holds v r (M(f := None))"
    "clus_size v = clus_size (fs_vol s)" using holds_delete [OF assms(2,3)] by blast
  then show ?thesis using assms(1) by (intro exI [of _ v]) (simp add: fs_delete_def resolves_def)
qed

lemma read_at:
  assumes "resolves s m dn r" "holds (fs_vol s) r M" "M f = Some b"
  shows "\<exists>d. fs_read s m dn f = Inr (d, of_nat (length b)) \<and> length b < 4294967296
    \<and> (b \<noteq> [] \<longrightarrow> (\<exists>mm. d = Some mm \<and> map mm [0..<length b] = b))"
  using holds_read [OF assms(2,3)] assms(1) by (auto simp: fs_read_def resolves_def)

lemma write_at:
  assumes "resolves s m dn r" "holds (fs_vol s) r M" "M f = Some b" "room_for (fs_vol s) (length b) (unat n)"
  shows "\<exists>v. fs_write s m dn f (Some d) n = Inr (True, s\<lparr>fs_vol := v\<rparr>) \<and> holds v r (M(f \<mapsto> map d [0..<unat n]))
    \<and> clus_size v = clus_size (fs_vol s)"
  using holds_write [OF assms(2-4), of d] assms(1)
  by (auto simp: fs_write_def resolves_def simp del: fun_upd_apply)

text \<open>Appending: the buffer the code builds, read as a C string, is the old contents and the new string.\<close>

lemma c_string_no_nul [simp]: "0 \<notin> set b \<Longrightarrow> c_string (b @ c) = b @ c_string c"
  by (induction b) (auto simp: c_string_def)

lemma length_c_string: "length (c_string b) \<le> length b"
  by (simp add: c_string_def length_takeWhile_le)

lemma c_string_set [simp]: "0 \<notin> set (c_string b)"
  by (auto simp: c_string_def dest: set_takeWhileD)

lemma c_string_idem [simp]: "c_string (c_string b) = c_string b"
  using c_string_no_nul [of "c_string b" "[]"] by (simp add: c_string_def)

lemma map_mem_of_prefix: "map (mem_of b) [0..<length (c_string b)] = c_string b"
proof (rule nth_equalityI)
  fix k assume "k < length (map (mem_of b) [0..<length (c_string b)])"
  then have k: "k < length (c_string b)" "k < length b" using length_c_string [of b] by auto
  then show "map (mem_of b) [0..<length (c_string b)] ! k = c_string b ! k"
    by (simp add: mem_of_def c_string_def takeWhile_nth)
qed simp

lemma append_buffer_ok:
  assumes "n_data fl = of_nat (length b)" "length b < 4294967296" "0 \<notin> set b"
    "b \<noteq> [] \<longrightarrow> (\<exists>m. f_data fl = Some m \<and> map m [0..<length b] = b)"
  shows "\<exists>new. append_buffer fl data = Inr new \<and> c_string new = b @ c_string data"
proof (cases "b = []")
  case True
  then have "append_buffer fl data = Inr data" using assms(1) by (simp add: append_buffer_def)
  with True show ?thesis by simp
next
  case False
  then obtain mm where mm: "f_data fl = Some mm" "map mm [0..<length b] = b" using assms(4) by blast
  have ub: "unat (n_data fl) = length b" using assms(1,2) by (simp add: unat_of_nat_u32)
  then have "0 < n_data fl" using False by (metis length_greater_0_conv unat_gt_0 word_gt_0)
  then have "append_buffer fl data = Inr (b @ c_string data)"
    using mm ub by (simp add: append_buffer_def deref_def)
  with assms(3) show ?thesis by simp
qed

lemma append_at:
  assumes at: "resolves s m dn r" and h: "holds (fs_vol s) r M" "M f = Some b" and b: "0 \<notin> set b"
    and room: "room_for (fs_vol s) (length b) (length b + length (c_string data))"
  shows "\<exists>v. fs_append s m dn f data = Inr (True, s\<lparr>fs_vol := v\<rparr>) \<and> holds v r (M(f \<mapsto> b @ c_string data))
    \<and> clus_size v = clus_size (fs_vol s)"
proof -
  obtain fl where fl: "fat32_read (fs_vol s) r f = Inr fl" "n_data fl = of_nat (length b)" "length b < 4294967296"
    "b \<noteq> [] \<longrightarrow> (\<exists>m. f_data fl = Some m \<and> map m [0..<length b] = b)"
    using holds_read [OF h] by blast
  obtain new where new: "append_buffer fl data = Inr new" "c_string new = b @ c_string data"
    using append_buffer_ok [OF fl(2,3) b fl(4)] by blast
  let ?n = "of_nat (length (c_string new)) :: u32"
  have un: "unat ?n = length b + length (c_string data)"
  proof -
    have "length (c_string new) = length b + length (c_string data)" using new(2) by simp
    moreover have "length b + length (c_string data) < 4294967296" using room by (simp add: room_for_def)
    ultimately show ?thesis using unat_of_nat_u32 by metis
  qed
  obtain v where v: "fat32_write (fs_vol s) r f \<lparr>f_data = Some (mem_of new), n_alloc = ?n, n_data = ?n\<rparr> = Inr (True, v)"
    "holds v r (M(f \<mapsto> map (mem_of new) [0..<unat ?n]))" "clus_size v = clus_size (fs_vol s)"
    using holds_write [OF h, of ?n "mem_of new"] room un by auto
  have "map (mem_of new) [0..<unat ?n] = b @ c_string data"
    using map_mem_of_prefix [of new] un new(2) by simp
  then show ?thesis
    using v fl(1) new(1) at by (intro exI [of _ v]) (simp add: fs_append_def resolves_def Let_def)
qed

section \<open>The root directory as a map\<close>

definition fs_holds :: "fsys \<Rightarrow> (cstr \<Rightarrow> u8 list option) \<Rightarrow> bool" where
  "fs_holds s M \<longleftrightarrow> (\<exists>r. fs_root s = Some r \<and> holds (fs_vol s) r M)"

definition fs_has_slot :: "fsys \<Rightarrow> bool" where
  "fs_has_slot s \<longleftrightarrow> (case fs_root s of None \<Rightarrow> False | Some r \<Rightarrow> has_slot (fs_vol s) r)"

lemma fs_holdsE:
  assumes "fs_holds s M"
  obtains r where "fs_root s = Some r" "holds (fs_vol s) r M" "\<And>m. resolves s m (str ''~'') r"
  using assms resolves_home by (auto simp: fs_holds_def)

lemma fs_create_ok:
  assumes "fs_holds s M" "file_name f" "M f = None" "fs_has_slot s"
  shows "\<exists>s'. fs_create s m (str ''~'') f False False = Inr (True, m, s') \<and> fs_holds s' (M(f \<mapsto> []))
    \<and> clus_size (fs_vol s') = clus_size (fs_vol s) \<and> fs_space s' = fs_space s"
proof -
  obtain r where r: "fs_root s = Some r" "holds (fs_vol s) r M" "resolves s m (str ''~'') r" using fs_holdsE [OF assms(1)] by metis
  then show ?thesis
    using create_at [OF r(3,2) assms(2,3), of False] assms(4)
    by (auto simp: fs_has_slot_def fs_holds_def fs_space_def simp del: fun_upd_apply)
qed

lemma fs_create_again:
  assumes "fs_holds s M" "M f \<noteq> None"
  shows "fs_create s m (str ''~'') f False False = Inr (True, m, s)"
proof -
  obtain r where r: "holds (fs_vol s) r M" "resolves s m (str ''~'') r" using fs_holdsE [OF assms(1)] by metis
  then show ?thesis using create_again_at [OF r(2,1) assms(2)] by blast
qed

lemma fs_delete_ok:
  assumes "fs_holds s M" "file_name f"
  shows "\<exists>s'. fs_delete s m (str ''~'') f = Inr (M f \<noteq> None, s') \<and> fs_holds s' (M(f := None))
    \<and> clus_size (fs_vol s') = clus_size (fs_vol s)"
proof -
  obtain r where r: "fs_root s = Some r" "holds (fs_vol s) r M" "resolves s m (str ''~'') r" using fs_holdsE [OF assms(1)] by metis
  obtain v where "fs_delete s m (str ''~'') f = Inr (M f \<noteq> None, s\<lparr>fs_vol := v\<rparr>)" "holds v r (M(f := None))"
    "clus_size v = clus_size (fs_vol s)" using delete_at [OF r(3,2) assms(2)] by blast
  then show ?thesis using r(1) by (intro exI [of _ "s\<lparr>fs_vol := v\<rparr>"]) (simp add: fs_holds_def)
qed

lemma fs_read_ok:
  assumes "fs_holds s M" "M f = Some b"
  shows "\<exists>d. fs_read s m (str ''~'') f = Inr (d, of_nat (length b)) \<and> length b < 4294967296
    \<and> (b \<noteq> [] \<longrightarrow> (\<exists>mm. d = Some mm \<and> map mm [0..<length b] = b))"
proof -
  obtain r where r: "holds (fs_vol s) r M" "resolves s m (str ''~'') r" using fs_holdsE [OF assms(1)] by metis
  then show ?thesis using read_at [OF r(2,1) assms(2)] by blast
qed

lemma fs_append_ok:
  assumes "fs_holds s M" "M f = Some b" "0 \<notin> set b"
    "room_for (fs_vol s) (length b) (length b + length (c_string data))"
  shows "\<exists>s'. fs_append s m (str ''~'') f data = Inr (True, s') \<and> fs_holds s' (M(f \<mapsto> b @ c_string data))
    \<and> clus_size (fs_vol s') = clus_size (fs_vol s)"
proof -
  obtain r where r: "fs_root s = Some r" "holds (fs_vol s) r M" "resolves s m (str ''~'') r" using fs_holdsE [OF assms(1)] by metis
  then show ?thesis
    using append_at [OF r(3,2) assms(2-4)] by (auto simp: fs_holds_def simp del: fun_upd_apply)
qed

text \<open>Room for contents that stay within one cluster.\<close>

lemma fs_holds_wf: "fs_holds s M \<Longrightarrow> vol_wf (fs_vol s)"
  by (auto simp: fs_holds_def holds_def store_inv_def dir_ok_def)

lemma room_first:
  assumes "vol_wf (fs_vol s)" "0 < n" "n \<le> clus_size (fs_vol s)" "fs_space s" "clus_size (fs_vol s) < 2147483648"
  shows "room_for (fs_vol s) 0 n"
  using assms clusters_for_iff [of "fs_vol s" n 0] by (auto simp: room_for_def fs_space_def)

lemma room_more:
  assumes "vol_wf (fs_vol s)" "0 < old" "old \<le> n" "n \<le> clus_size (fs_vol s)" "clus_size (fs_vol s) < 2147483648"
  shows "room_for (fs_vol s) old n"
proof -
  have "clusters_for old (fs_vol s) = Suc 0" "clusters_for n (fs_vol s) = Suc 0"
    using assms clusters_for_iff [of "fs_vol s" _ 0] by auto
  then show ?thesis using assms by (auto simp: room_for_def)
qed

end
