(* ===== verification/Dfs_Packet.thy ===== *)
theory Dfs_Packet
  imports Global
begin

text \<open>
  The 32-byte packets of the distributed file system (\<open>libpi/include/dfs-cmd.h\<close>) and the radio as the
  servers and clients see it (\<open>nrf_read_exact_timeout\<close>, \<open>nrf_send_ack\<close>, \<open>nrf_send_noack\<close> of
  \<open>network/nrf-public.c\<close>).

  \<open>dfs_pkt\<close> has unions, so a packet is its 32 bytes and each field is a byte offset: the operation code
  at 0, the port at 1, the union \<open>t_pkt\<close> at 4 (the two bytes before it are padding).
\<close>

section \<open>Operation codes\<close>

definition DFS_LS :: u8 where "DFS_LS = 0x0"
definition DFS_CD :: u8 where "DFS_CD = 0x1"
definition DFS_RD :: u8 where "DFS_RD = 0x2"
definition DFS_WR :: u8 where "DFS_WR = 0x3"
definition DFS_CR :: u8 where "DFS_CR = 0xc"
definition DFS_RM :: u8 where "DFS_RM = 0xd"
definition DFS_END_RD :: u8 where "DFS_END_RD = 0x4"
definition DFS_END_WR :: u8 where "DFS_END_WR = 0x5"
definition DFS_END_LS :: u8 where "DFS_END_LS = 0xf"
definition DFS_RETRY_RD :: u8 where "DFS_RETRY_RD = 0x6"
definition DFS_RETRY_WR :: u8 where "DFS_RETRY_WR = 0x7"
definition DFS_COMMIT_WR :: u8 where "DFS_COMMIT_WR = 0x8"
definition DFS_CNCT :: u8 where "DFS_CNCT = 0x9"
definition DFS_ACP :: u8 where "DFS_ACP = 0xa"
definition DFS_REJ :: u8 where "DFS_REJ = 0xb"
definition DFS_HB :: u8 where "DFS_HB = 0xe"
definition DFS_SD :: u8 where "DFS_SD = 0xf"

lemmas opcode_defs = DFS_LS_def DFS_CD_def DFS_RD_def DFS_WR_def DFS_CR_def DFS_RM_def DFS_END_RD_def
  DFS_END_WR_def DFS_END_LS_def DFS_RETRY_RD_def DFS_RETRY_WR_def DFS_COMMIT_WR_def DFS_CNCT_def DFS_ACP_def
  DFS_REJ_def DFS_HB_def DFS_SD_def

definition STATUS_SUCCESS :: u8 where "STATUS_SUCCESS = 0"
definition STATUS_FAILED :: u8 where "STATUS_FAILED = 1"

definition CHUNK_SIZE :: u32 where "CHUNK_SIZE = 1024"
definition CHUNK_SERVER_PKT_SIZE :: u32 where "CHUNK_SERVER_PKT_SIZE = 16"
definition MAX_FILE_NAME :: nat where "MAX_FILE_NAME = 12"
definition DFS_MAX_CONN :: nat where "DFS_MAX_CONN = 4"

section \<open>Fields\<close>

type_synonym dfs_pkt = "u8 list"

definition dfs_get_pkt_bytes :: nat where "dfs_get_pkt_bytes = 32"

definition pkt_wf :: "dfs_pkt \<Rightarrow> bool" where
  "pkt_wf p \<longleftrightarrow> length p = dfs_get_pkt_bytes"

definition op_code :: "dfs_pkt \<Rightarrow> u8" where "op_code p = p ! 0"
definition port_id :: "dfs_pkt \<Rightarrow> u8" where "port_id p = p ! 1"
definition conn_addr :: "dfs_pkt \<Rightarrow> u32" where "conn_addr p = le32_at p 4"
definition hb_id :: "dfs_pkt \<Rightarrow> u32" where "hb_id p = le32_at p 4"
definition hb_addr :: "dfs_pkt \<Rightarrow> u32" where "hb_addr p = le32_at p 8"
definition hb_usage :: "dfs_pkt \<Rightarrow> u32" where "hb_usage p = le32_at p 12"
definition hb_storage :: "dfs_pkt \<Rightarrow> u32" where "hb_storage p = le32_at p 16"
definition chunk_id_sqn :: "dfs_pkt \<Rightarrow> u32" where "chunk_id_sqn p = le32_at p 4"
definition status :: "dfs_pkt \<Rightarrow> u8" where "status p = p ! 8"
definition chunk_server_addr :: "dfs_pkt \<Rightarrow> u32" where "chunk_server_addr p = le32_at p 12"
definition md_nbytes :: "dfs_pkt \<Rightarrow> u32" where "md_nbytes p = le32_at p 16"
definition md_file_name :: "dfs_pkt \<Rightarrow> u8 list" where "md_file_name p = take MAX_FILE_NAME (drop 20 p)"
definition d_offset :: "dfs_pkt \<Rightarrow> u32" where "d_offset p = le32_at p 12"
definition d_data :: "dfs_pkt \<Rightarrow> u8 list" where "d_data p = take 16 (drop 16 p)"
definition q_offset :: "dfs_pkt \<Rightarrow> u32" where "q_offset p = le32_at p 12"
definition q_nbytes :: "dfs_pkt \<Rightarrow> u32" where "q_nbytes p = le32_at p 16"
definition placeholder :: "dfs_pkt \<Rightarrow> u8 list" where "placeholder p = take 28 (drop 4 p)"

definition set_op_code :: "u8 \<Rightarrow> dfs_pkt \<Rightarrow> dfs_pkt" where "set_op_code x p = p[0 := x]"
definition set_port_id :: "u8 \<Rightarrow> dfs_pkt \<Rightarrow> dfs_pkt" where "set_port_id x p = p[1 := x]"
definition set_conn_addr :: "u32 \<Rightarrow> dfs_pkt \<Rightarrow> dfs_pkt" where "set_conn_addr x p = put_at p 4 (le32_bytes x)"
definition set_hb_id :: "u32 \<Rightarrow> dfs_pkt \<Rightarrow> dfs_pkt" where "set_hb_id x p = put_at p 4 (le32_bytes x)"
definition set_hb_addr :: "u32 \<Rightarrow> dfs_pkt \<Rightarrow> dfs_pkt" where "set_hb_addr x p = put_at p 8 (le32_bytes x)"
definition set_hb_usage :: "u32 \<Rightarrow> dfs_pkt \<Rightarrow> dfs_pkt" where "set_hb_usage x p = put_at p 12 (le32_bytes x)"
definition set_hb_storage :: "u32 \<Rightarrow> dfs_pkt \<Rightarrow> dfs_pkt" where "set_hb_storage x p = put_at p 16 (le32_bytes x)"
definition set_chunk_id_sqn :: "u32 \<Rightarrow> dfs_pkt \<Rightarrow> dfs_pkt" where "set_chunk_id_sqn x p = put_at p 4 (le32_bytes x)"
definition set_status :: "u8 \<Rightarrow> dfs_pkt \<Rightarrow> dfs_pkt" where "set_status x p = p[8 := x]"
definition set_chunk_server_addr :: "u32 \<Rightarrow> dfs_pkt \<Rightarrow> dfs_pkt" where
  "set_chunk_server_addr x p = put_at p 12 (le32_bytes x)"
definition set_md_nbytes :: "u32 \<Rightarrow> dfs_pkt \<Rightarrow> dfs_pkt" where "set_md_nbytes x p = put_at p 16 (le32_bytes x)"
definition set_md_file_name :: "u8 list \<Rightarrow> dfs_pkt \<Rightarrow> dfs_pkt" where "set_md_file_name x p = put_at p 20 x"
definition set_d_offset :: "u32 \<Rightarrow> dfs_pkt \<Rightarrow> dfs_pkt" where "set_d_offset x p = put_at p 12 (le32_bytes x)"
definition set_d_data :: "u8 list \<Rightarrow> dfs_pkt \<Rightarrow> dfs_pkt" where "set_d_data x p = put_at p 16 x"
definition set_q_offset :: "u32 \<Rightarrow> dfs_pkt \<Rightarrow> dfs_pkt" where "set_q_offset x p = put_at p 12 (le32_bytes x)"
definition set_q_nbytes :: "u32 \<Rightarrow> dfs_pkt \<Rightarrow> dfs_pkt" where "set_q_nbytes x p = put_at p 16 (le32_bytes x)"

lemmas field_get = op_code_def port_id_def conn_addr_def hb_id_def hb_addr_def hb_usage_def hb_storage_def
  chunk_id_sqn_def status_def chunk_server_addr_def md_nbytes_def md_file_name_def d_offset_def d_data_def
  q_offset_def q_nbytes_def placeholder_def

lemmas field_set = set_op_code_def set_port_id_def set_conn_addr_def set_hb_id_def set_hb_addr_def
  set_hb_usage_def set_hb_storage_def set_chunk_id_sqn_def set_status_def set_chunk_server_addr_def
  set_md_nbytes_def set_md_file_name_def set_d_offset_def set_d_data_def set_q_offset_def set_q_nbytes_def

text \<open>Reading a field of a packet with another field stored; \<open>b\<close> is any 32-byte buffer.\<close>

lemma nth_put32 [simp]:
  "i + 4 \<le> length b \<Longrightarrow> j < length b \<Longrightarrow> j < i \<or> i + 4 \<le> j \<Longrightarrow> put_at b i (le32_bytes x) ! j = b ! j"
  by (auto simp: nth_put_at)

lemma le32_at_update [simp]:
  "i < length b \<Longrightarrow> i < j \<or> j + 4 \<le> i \<Longrightarrow> le32_at (b[i := x]) j = le32_at b j"
  by (auto simp: le32_at_def)

lemma le32_at_put32 [simp]:
  "i + 4 \<le> length b \<Longrightarrow> j + 4 \<le> i \<or> i + 4 \<le> j \<Longrightarrow> j + 4 \<le> length b \<Longrightarrow>
   le32_at (put_at b i (le32_bytes x)) j = le32_at b j"
  by (rule le32_at_put_other) auto

lemma le32_at_put_data [simp]:
  "i + length xs \<le> length b \<Longrightarrow> j + 4 \<le> i \<Longrightarrow> le32_at (put_at b i xs) j = le32_at b j"
  by (rule le32_at_put_other) auto

lemma nth_put_data [simp]: "i + length xs \<le> length b \<Longrightarrow> j < i \<Longrightarrow> put_at b i xs ! j = b ! j"
  by (auto simp: nth_put_at)

lemma take_drop_put_same [simp]: "i + length xs \<le> length b \<Longrightarrow> length xs = n \<Longrightarrow> take n (drop i (put_at b i xs)) = xs"
  by (simp add: put_at_def)

lemma length_fields [simp]:
  "length (set_op_code x p) = length p" "length (set_port_id x p) = length p" "length (set_status x p) = length p"
  "length p = 32 \<Longrightarrow> length (set_conn_addr y p) = 32" "length p = 32 \<Longrightarrow> length (set_hb_id y p) = 32"
  "length p = 32 \<Longrightarrow> length (set_hb_addr y p) = 32" "length p = 32 \<Longrightarrow> length (set_hb_usage y p) = 32"
  "length p = 32 \<Longrightarrow> length (set_hb_storage y p) = 32" "length p = 32 \<Longrightarrow> length (set_chunk_id_sqn y p) = 32"
  "length p = 32 \<Longrightarrow> length (set_chunk_server_addr y p) = 32" "length p = 32 \<Longrightarrow> length (set_md_nbytes y p) = 32"
  "length p = 32 \<Longrightarrow> length (set_d_offset y p) = 32" "length p = 32 \<Longrightarrow> length (set_q_offset y p) = 32"
  "length p = 32 \<Longrightarrow> length (set_q_nbytes y p) = 32" "length p = 32 \<Longrightarrow> length d \<le> 16 \<Longrightarrow> length (set_d_data d p) = 32"
  "length p = 32 \<Longrightarrow> length d \<le> 12 \<Longrightarrow> length (set_md_file_name d p) = 32"
  by (simp_all add: field_set)

section \<open>The radio\<close>

text \<open>
  A receive with a timeout returns -1, a short count, or a whole packet. A send appends the packet to
  the air and returns what the environment decides: the number of bytes, or -1.
\<close>

datatype rx = RxTimeout | RxShort | RxPkt dfs_pkt

record net =
  sent :: "(u32 \<times> dfs_pkt) list"
  send_ret :: "nat \<Rightarrow> int"

definition nrf_send :: "net \<Rightarrow> u32 \<Rightarrow> dfs_pkt \<Rightarrow> int \<times> net" where
  "nrf_send n txaddr msg = (send_ret n (length (sent n)), n\<lparr>sent := sent n @ [(txaddr, msg)]\<rparr>)"

definition nrf_send_ack :: "net \<Rightarrow> u32 \<Rightarrow> dfs_pkt \<Rightarrow> int \<times> net" where
  "nrf_send_ack n txaddr msg = nrf_send n txaddr msg"

definition nrf_send_noack :: "net \<Rightarrow> u32 \<Rightarrow> dfs_pkt \<Rightarrow> int \<times> net" where
  "nrf_send_noack n txaddr msg = nrf_send n txaddr msg"

definition send_works :: "net \<Rightarrow> bool" where
  "send_works n \<longleftrightarrow> (\<forall>k. send_ret n k = int dfs_get_pkt_bytes)"

lemma send_simps [simp]:
  "snd (nrf_send_ack n a p) = n\<lparr>sent := sent n @ [(a, p)]\<rparr>" "snd (nrf_send_noack n a p) = n\<lparr>sent := sent n @ [(a, p)]\<rparr>"
  "send_works n \<Longrightarrow> fst (nrf_send_ack n a p) = 32" "send_works n \<Longrightarrow> fst (nrf_send_noack n a p) = 32"
  by (simp_all add: nrf_send_ack_def nrf_send_noack_def nrf_send_def send_works_def dfs_get_pkt_bytes_def)

lemma send_works_sent [simp]: "send_works (n\<lparr>sent := x\<rparr>) = send_works n"
  by (simp add: send_works_def)

text \<open>A program claims one of the two radios (\<open>dfs_nrf_init\<close>); \<open>client_addr\<close> is the address every client listens on.\<close>

definition dfs_nrf_claim :: "ready \<Rightarrow> bool \<times> ready" where
  "dfs_nrf_claim g = (let (ok1, g1) = set_nrf1_ready g in if ok1 then (True, g1) else set_nrf2_ready g1)"

definition default_client_addr :: u32 where "default_client_addr = 0xe6e6e6"

text \<open>Loops that advance by the 16 bytes of a packet.\<close>

lemma no_wrap16: "\<not> x + 16 < (x :: u32) \<Longrightarrow> unat (x + 16) = unat x + 16"
proof (cases "unat x + 16 < 4294967296")
  case True
  then show ?thesis by (simp add: unat_add_u32)
next
  case False
  assume a: "\<not> x + 16 < x"
  have e: "unat x + 16 = (unat x + 16 - 4294967296) + 4294967296" using False by linarith
  have "(unat x + 16) mod 4294967296 = (unat x + 16 - 4294967296) mod 4294967296"
    by (subst e) (rule mod_add_self2)
  also have "\<dots> = unat x + 16 - 4294967296"
  proof (rule mod_less)
    have "unat x < 4294967296" by simp
    then show "unat x + 16 - 4294967296 < 4294967296" by linarith
  qed
  finally have "unat (x + 16) = unat x + 16 - 4294967296" by (simp add: unat_add_u32)
  moreover have "unat x + 16 - 4294967296 < unat x" using False by linarith
  ultimately show ?thesis using a by (simp add: word_less_nat_alt)
qed

lemma rd_progress: "x < y \<Longrightarrow> \<not> x + 16 < (x :: u32) \<Longrightarrow> unat y - unat (x + 16) < unat y - unat x"
  using no_wrap16 [of x] by (simp add: word_less_nat_alt)

section \<open>Data in packets\<close>

text \<open>The reference: the bytes in pieces of 16, each with its offset and whether it is the last.\<close>

function pieces :: "nat \<Rightarrow> u8 list \<Rightarrow> (nat \<times> bool \<times> u8 list) list" where
  "pieces off bs =
     (if bs = [] then [] else (off, length bs \<le> 16, take 16 bs) # pieces (off + 16) (drop 16 bs))"
  by pat_completeness auto
termination by (relation "measure (\<lambda>(off, bs). length bs)") auto

declare pieces.simps [simp del]

lemma pieces_Nil [simp]: "pieces off [] = []"
  by (simp add: pieces.simps)

lemma pieces_concat: "concat (map (\<lambda>(off, fin, d). d) (pieces off bs)) = bs"
proof (induction off bs rule: pieces.induct)
  case (1 off bs)
  then show ?case by (subst pieces.simps) auto
qed

lemma pieces_last:
  "bs \<noteq> [] \<Longrightarrow> \<exists>ps o' d. pieces off bs = ps @ [(o', True, d)] \<and> (\<forall>(o1, f, d1) \<in> set ps. \<not> f)"
proof (induction off bs rule: pieces.induct)
  case (1 off bs)
  show ?case
  proof (cases "length bs \<le> 16")
    case True
    then show ?thesis using 1(2) by (subst pieces.simps) simp
  next
    case False
    then obtain ps o' d where "pieces (off + 16) (drop 16 bs) = ps @ [(o', True, d)]" "\<forall>(o1, f, d1) \<in> set ps. \<not> f"
      using 1 by auto
    then show ?thesis
      using False by (intro exI [of _ "(off, False, take 16 bs) # ps"] exI [of _ o'] exI [of _ d]) (subst pieces.simps, auto)
  qed
qed

end
