(* ===== verification/Dfs_Chunk_Fat.thy ===== *)
theory Dfs_Chunk_Fat
  imports Fs_Store Dfs_Packet
begin

text \<open>
  \<open>dfs/dfs-chunk-fat.c\<close> and \<open>int_to_filename\<close> of \<open>libpi/include/dfs-fat32-common.h\<close>: a chunk server keeps
  chunk \<open>n\<close> in a file of its root directory whose name is made of the digits of \<open>n\<close>. The locale
  \<open>chunk_store\<close> is what the packet handlers rely on.
\<close>

section \<open>File names of numbers\<close>

text \<open>The loop of \<open>int_to_filename\<close> stores the digits with the least significant one first.\<close>

function id_digits :: "u32 \<Rightarrow> u8 list" where
  "id_digits n = (if n > 0 then (48 + ucast (n mod 10)) # id_digits (n div 10) else [])"
  by pat_completeness auto
termination
proof (relation "measure unat")
  fix n :: u32 assume "0 < n"
  then have "unat n div 10 < unat n" by (intro div_less_dividend) (auto simp: word_less_nat_alt)
  then show "(n div 10, n) \<in> measure unat" by (simp add: unat_div)
qed simp

declare id_digits.simps [simp del]

definition int_to_filename :: "u32 \<Rightarrow> bool \<Rightarrow> cstr" where
  "int_to_filename n is_dir = (if is_dir then id_digits n
     else id_digits n @ [46, 84, 88, 84])"

section \<open>Operations\<close>

text \<open>The static \<open>chunkserver_mirror\<close> and the file system behind it.\<close>

record chunk_fs =
  c_fsys :: fsys
  c_mirror :: fs_mirror

definition chunkserver_fat32_init :: "ready \<Rightarrow> fsys \<Rightarrow> (ready \<times> chunk_fs) res" where
  "chunkserver_fat32_init g s =
     (let g1 = snd (set_uart_ready g); g2 = snd (set_kmalloc_ready g1) in
      bind_r (fs_init g2 s) (\<lambda>(g3, s1).
      bind_r (register_mirror s1 (str ''chunk'')) (\<lambda>(m, s2).
        Inr (g3, \<lparr>c_fsys = s2, c_mirror = m\<rparr>))))"

definition chunkserver_create_chunk :: "chunk_fs \<Rightarrow> u32 \<Rightarrow> (bool \<times> chunk_fs) res" where
  "chunkserver_create_chunk c chunk_id =
     bind_r (fs_create (c_fsys c) (c_mirror c) (str ''~'') (int_to_filename chunk_id False) False False)
       (\<lambda>(r, m, s). Inr (r, c\<lparr>c_fsys := s, c_mirror := m\<rparr>))"

definition chunkserver_append_chunk :: "chunk_fs \<Rightarrow> u32 \<Rightarrow> u8 list \<Rightarrow> (bool \<times> chunk_fs) res" where
  "chunkserver_append_chunk c chunk_id data =
     bind_r (fs_append (c_fsys c) (c_mirror c) (str ''~'') (int_to_filename chunk_id False) data)
       (\<lambda>(r, s). Inr (r, c\<lparr>c_fsys := s\<rparr>))"

definition chunkserver_delete_chunk :: "chunk_fs \<Rightarrow> u32 \<Rightarrow> (bool \<times> chunk_fs) res" where
  "chunkserver_delete_chunk c chunk_id =
     bind_r (fs_delete (c_fsys c) (c_mirror c) (str ''~'') (int_to_filename chunk_id False))
       (\<lambda>(r, s). Inr (r, c\<lparr>c_fsys := s\<rparr>))"

definition chunkserver_read :: "chunk_fs \<Rightarrow> u32 \<Rightarrow> pi_file res" where
  "chunkserver_read c chunk_id =
     bind_r (fs_read (c_fsys c) (c_mirror c) (str ''~'') (int_to_filename chunk_id False))
       (\<lambda>(data, n). Inr \<lparr>f_data = data, n_alloc = n, n_data = n\<rparr>)"

section \<open>Names of chunks\<close>

text \<open>Chunk numbers with at most eight digits, and not 0, have a valid 8.3 name; it determines them.\<close>

definition chunk_ok :: "u32 \<Rightarrow> bool" where
  "chunk_ok n \<longleftrightarrow> 0 < n \<and> n < 100000000"

lemma id_digits_0 [simp]: "id_digits 0 = []"
  by (subst id_digits.simps) simp

lemma id_digits_step: "0 < n \<Longrightarrow> id_digits n = (48 + ucast (n mod 10)) # id_digits (n div 10)"
  by (subst id_digits.simps) simp

lemma digit_bounds: "48 \<le> (48 + ucast (n mod 10) :: u8)" "(48 + ucast (n mod 10) :: u8) \<le> 57"
  "unat (48 + ucast (n mod 10) :: u8) = 48 + unat (n :: u32) mod 10"
proof -
  have "unat n mod 10 < 10" by simp
  then have "unat n mod 10 mod 256 = unat n mod 10" by (intro mod_less) linarith
  then have m: "unat (ucast (n mod 10) :: u8) = unat n mod 10"
    by (simp add: unsigned_ucast_eq take_bit_eq_mod unat_mod)
  show u: "unat (48 + ucast (n mod 10) :: u8) = 48 + unat n mod 10"
    by (simp add: unat_word_ariths m)
  show "48 \<le> (48 + ucast (n mod 10) :: u8)" "(48 + ucast (n mod 10) :: u8) \<le> 57"
    using \<open>unat n mod 10 < 10\<close> by (simp_all add: word_le_nat_alt u)
qed

lemma id_digits_char: "c \<in> set (id_digits n) \<Longrightarrow> 48 \<le> c \<and> c \<le> 57"
proof (induction n rule: id_digits.induct)
  case (1 n)
  then show ?case using digit_bounds [of n] by (cases "0 < n") (auto simp: id_digits_step word_gt_0)
qed

lemma id_digits_inj: "id_digits m = id_digits n \<Longrightarrow> m = n"
proof (induction m arbitrary: n rule: id_digits.induct)
  case (1 m)
  show ?case
  proof (cases "0 < m")
    case m: True
    then have "0 < n" using 1(2) by (cases "n = 0") (auto simp: id_digits_step word_gt_0)
    then have "(48 + ucast (m mod 10) :: u8) = 48 + ucast (n mod 10)" and d: "id_digits (m div 10) = id_digits (n div 10)"
      using 1(2) m by (simp_all add: id_digits_step)
    then have "48 + unat m mod 10 = 48 + unat n mod 10" using digit_bounds(3) by metis
    moreover have "unat (m div 10) = unat (n div 10)" using 1(1) [OF m d] by simp
    then have "unat m div 10 = unat n div 10" by (simp add: unat_div)
    ultimately have "unat m = unat n" by (metis add_left_cancel div_mult_mod_eq)
    then show ?thesis by (simp add: unat_eq_iff)
  next
    case False
    then show ?thesis using 1(2) by (cases "n = 0") (auto simp: id_digits_step word_gt_0)
  qed
qed

lemma id_digits_length: "unat n < 10 ^ k \<Longrightarrow> length (id_digits n) \<le> k"
proof (induction n arbitrary: k rule: id_digits.induct)
  case (1 n)
  show ?case
  proof (cases "0 < n")
    case True
    then obtain j where k: "k = Suc j" using 1(2) by (cases k) (auto simp: word_less_nat_alt)
    then have "unat (n div 10) < 10 ^ j" using 1(2) by (simp add: unat_div less_mult_imp_div_less mult.commute)
    with 1(1) [OF True] k True show ?thesis by (simp add: id_digits_step)
  qed (simp add: word_gt_0)
qed

lemma digit_name_char: "48 \<le> c \<Longrightarrow> c \<le> 57 \<Longrightarrow> name_char c"
  by (auto simp: name_char_def)

lemma chunk_file_name:
  assumes "chunk_ok n"
  shows "file_name (int_to_filename n False)"
proof -
  let ?ds = "id_digits n" and ?s = "id_digits n @ [46, 84, 88, 84]"
  have "unat n < 10 ^ 8" using assms by (simp add: chunk_ok_def word_less_nat_alt)
  then have len: "length ?ds \<le> 8" by (rule id_digits_length)
  have ne: "0 < length ?ds" using assms by (simp add: chunk_ok_def id_digits_step)
  have "name_char (?s ! i) \<or> i = length ?ds" if i: "i < length ?s" for i
  proof (cases "i < length ?ds")
    case True
    then have "?ds ! i \<in> set ?ds" by simp
    then have "name_char (?ds ! i)" using id_digits_char digit_name_char by blast
    with True show ?thesis by (simp add: nth_append)
  next
    case False
    then have "i = length ?ds \<or> i = length ?ds + 1 \<or> i = length ?ds + 2 \<or> i = length ?ds + 3" using i by auto
    then show ?thesis by (auto simp: nth_append name_char_def)
  qed
  moreover have "length ?s - 4 = length ?ds" by simp
  ultimately have "list_all (\<lambda>i. name_char (?s ! i) \<or> i = length ?s - 4) [0..<length ?s]"
    unfolding list_all_iff set_upt by auto
  moreover have "has_dot ?s" by (simp add: has_dot_def)
  ultimately show ?thesis
    using len ne by (simp add: file_name_def int_to_filename_def fat32_is_valid_name_def Let_def)
qed

lemma chunk_name_inj: "int_to_filename m False = int_to_filename n False \<longleftrightarrow> m = n"
  using id_digits_inj by (auto simp: int_to_filename_def)

section \<open>The chunks as a map\<close>

text \<open>
  The interface of a chunk store: \<open>holds_c c M\<close> says that the store's chunks are \<open>M\<close>; a chunk lives in one
  cluster of \<open>cap\<close> bytes, \<open>slot\<close> and \<open>space\<close> say that a new chunk finds a directory entry and a cluster.
\<close>

locale chunk_store =
  fixes holds_c :: "'s \<Rightarrow> (u32 \<Rightarrow> u8 list option) \<Rightarrow> bool"
    and create :: "'s \<Rightarrow> u32 \<Rightarrow> (bool \<times> 's) res"
    and appendc :: "'s \<Rightarrow> u32 \<Rightarrow> u8 list \<Rightarrow> (bool \<times> 's) res"
    and readc :: "'s \<Rightarrow> u32 \<Rightarrow> pi_file res"
    and cap :: "'s \<Rightarrow> nat" and slot :: "'s \<Rightarrow> bool" and space :: "'s \<Rightarrow> bool"
  assumes create_new: "holds_c c M \<Longrightarrow> chunk_ok n \<Longrightarrow> M n = None \<Longrightarrow> slot c \<Longrightarrow>
      \<exists>c'. create c n = Inr (True, c') \<and> holds_c c' (M(n \<mapsto> [])) \<and> cap c' = cap c \<and> space c' = space c"
    and create_old: "holds_c c M \<Longrightarrow> chunk_ok n \<Longrightarrow> M n \<noteq> None \<Longrightarrow> create c n = Inr (True, c)"
    and append_first: "holds_c c M \<Longrightarrow> chunk_ok n \<Longrightarrow> M n = Some [] \<Longrightarrow> space c \<Longrightarrow> c_string d \<noteq> [] \<Longrightarrow>
      length (c_string d) \<le> cap c \<Longrightarrow>
      \<exists>c'. appendc c n d = Inr (True, c') \<and> holds_c c' (M(n \<mapsto> c_string d)) \<and> cap c' = cap c"
    and append_more: "holds_c c M \<Longrightarrow> chunk_ok n \<Longrightarrow> M n = Some b \<Longrightarrow> b \<noteq> [] \<Longrightarrow> 0 \<notin> set b \<Longrightarrow>
      length b + length (c_string d) \<le> cap c \<Longrightarrow>
      \<exists>c'. appendc c n d = Inr (True, c') \<and> holds_c c' (M(n \<mapsto> b @ c_string d)) \<and> cap c' = cap c"
    and read_back: "holds_c c M \<Longrightarrow> chunk_ok n \<Longrightarrow> M n = Some b \<Longrightarrow> b \<noteq> [] \<Longrightarrow>
      \<exists>r m. readc c n = Inr r \<and> f_data r = Some m \<and> n_data r = of_nat (length b) \<and> length b < 4294967296
        \<and> map m [0..<length b] = b"
begin

text \<open>Appending a sequence of buffers, the way a client's packets arrive.\<close>

fun append_all :: "'s \<Rightarrow> u32 \<Rightarrow> u8 list list \<Rightarrow> 's res" where
  "append_all c n [] = Inr c"
| "append_all c n (d # ds) = bind_r (appendc c n d) (\<lambda>(_, c'). append_all c' n ds)"

lemma append_all_more:
  "holds_c c M \<Longrightarrow> chunk_ok n \<Longrightarrow> M n = Some b \<Longrightarrow> b \<noteq> [] \<Longrightarrow> 0 \<notin> set b \<Longrightarrow>
   length b + length (concat (map c_string ds)) \<le> cap c \<Longrightarrow>
   \<exists>c'. append_all c n ds = Inr c' \<and> holds_c c' (M(n \<mapsto> b @ concat (map c_string ds))) \<and> cap c' = cap c"
proof (induction ds arbitrary: c M b)
  case Nil
  then have "M(n \<mapsto> b) = M" by auto
  with Nil show ?case by simp
next
  case (Cons d ds)
  obtain c1 where c1: "appendc c n d = Inr (True, c1)" "holds_c c1 (M(n \<mapsto> b @ c_string d))" "cap c1 = cap c"
    using append_more [OF Cons.prems(1-5), of d] Cons.prems(6) by auto
  have "\<exists>c'. append_all c1 n ds = Inr c' \<and> cap c' = cap c1 \<and>
      holds_c c' ((M(n \<mapsto> b @ c_string d))(n \<mapsto> (b @ c_string d) @ concat (map c_string ds)))"
    using Cons.IH [OF c1(2) Cons.prems(2), of "b @ c_string d"] Cons.prems(4-6) c1(3)
    by (auto simp del: fun_upd_apply simp add: fun_upd_same)
  with c1 show ?case by (auto simp del: fun_upd_apply)
qed

lemma create_append_read:
  assumes "holds_c c M" "chunk_ok n" "M n = None" "slot c" "space c"
    "c_string d \<noteq> []" "length (concat (map c_string (d # ds))) \<le> cap c"
  shows "\<exists>c1 c2 r m. create c n = Inr (True, c1) \<and> append_all c1 n (d # ds) = Inr c2
    \<and> holds_c c2 (M(n \<mapsto> concat (map c_string (d # ds))))
    \<and> readc c2 n = Inr r \<and> f_data r = Some m \<and> n_data r = of_nat (length (concat (map c_string (d # ds))))
    \<and> map m [0..<length (concat (map c_string (d # ds)))] = concat (map c_string (d # ds))"
proof -
  obtain c1 where c1: "create c n = Inr (True, c1)" "holds_c c1 (M(n \<mapsto> []))" "cap c1 = cap c" "space c1"
    using create_new [OF assms(1-4)] assms(5) by auto
  obtain c' where c': "appendc c1 n d = Inr (True, c')" "holds_c c' (M(n \<mapsto> [], n \<mapsto> c_string d))" "cap c' = cap c"
    using append_first [OF c1(2) assms(2) _ c1(4) assms(6)] assms(7) c1(3) by auto
  obtain c2 where c2: "append_all c' n ds = Inr c2" "holds_c c2 (M(n \<mapsto> concat (map c_string (d # ds))))"
    using append_all_more [OF c'(2) assms(2) _ assms(6), of ds] c'(3) assms(7) by auto
  obtain r m where "readc c2 n = Inr r" "f_data r = Some m" "n_data r = of_nat (length (concat (map c_string (d # ds))))"
    "map m [0..<length (concat (map c_string (d # ds)))] = concat (map c_string (d # ds))"
    using read_back [OF c2(2) assms(2), of "concat (map c_string (d # ds))"] assms(6) by auto
  with c1 c' c2 show ?thesis by auto
qed

end

text \<open>The FAT32 root directory provides it.\<close>

definition chunks_hold :: "chunk_fs \<Rightarrow> (u32 \<Rightarrow> u8 list option) \<Rightarrow> bool" where
  "chunks_hold c M \<longleftrightarrow> (\<exists>F. fs_holds (c_fsys c) F \<and> (\<forall>n. chunk_ok n \<longrightarrow> M n = F (int_to_filename n False))
     \<and> (\<forall>n. \<not> chunk_ok n \<longrightarrow> M n = None)) \<and> clus_size (fs_vol (c_fsys c)) < 2147483648"

lemma chunks_hold_upd:
  assumes "fs_holds (c_fsys c') (F(int_to_filename n False := x))" "\<forall>n. chunk_ok n \<longrightarrow> M n = F (int_to_filename n False)"
    "\<forall>n. \<not> chunk_ok n \<longrightarrow> M n = None" "chunk_ok n" "clus_size (fs_vol (c_fsys c')) < 2147483648"
  shows "chunks_hold c' (M(n := x))"
  using assms chunk_name_inj unfolding chunks_hold_def by (intro conjI exI [of _ "F(int_to_filename n False := x)"]) auto

definition chunk_cap :: "chunk_fs \<Rightarrow> nat" where
  "chunk_cap c = clus_size (fs_vol (c_fsys c))"

definition chunk_slot :: "chunk_fs \<Rightarrow> bool" where
  "chunk_slot c = fs_has_slot (c_fsys c)"

definition chunk_space :: "chunk_fs \<Rightarrow> bool" where
  "chunk_space c = fs_space (c_fsys c)"

lemma chunks_holdE:
  assumes "chunks_hold c M" "chunk_ok n"
  obtains F where "fs_holds (c_fsys c) F" "F (int_to_filename n False) = M n"
    "clus_size (fs_vol (c_fsys c)) < 2147483648"
    "\<And>c' x. fs_holds (c_fsys c') (F(int_to_filename n False := x)) \<Longrightarrow>
       clus_size (fs_vol (c_fsys c')) = clus_size (fs_vol (c_fsys c)) \<Longrightarrow> chunks_hold c' (M(n := x))"
proof -
  obtain F where F: "fs_holds (c_fsys c) F" "\<forall>n. chunk_ok n \<longrightarrow> M n = F (int_to_filename n False)"
    "\<forall>n. \<not> chunk_ok n \<longrightarrow> M n = None" "clus_size (fs_vol (c_fsys c)) < 2147483648"
    using assms(1) by (auto simp: chunks_hold_def)
  show ?thesis
    by (rule that [OF F(1) _ F(4)]) (use F assms(2) chunks_hold_upd [OF _ F(2,3) assms(2)] in auto)
qed

lemma chunk_append_ok:
  assumes "chunks_hold c M" "chunk_ok n" "M n = Some b" "0 \<notin> set b"
    "room_for (fs_vol (c_fsys c)) (length b) (length b + length (c_string d))"
  shows "\<exists>c'. chunkserver_append_chunk c n d = Inr (True, c') \<and> chunks_hold c' (M(n \<mapsto> b @ c_string d))
    \<and> chunk_cap c' = chunk_cap c"
proof -
  obtain F where F: "fs_holds (c_fsys c) F" "F (int_to_filename n False) = M n"
    "\<And>c' x. fs_holds (c_fsys c') (F(int_to_filename n False := x)) \<Longrightarrow>
       clus_size (fs_vol (c_fsys c')) = clus_size (fs_vol (c_fsys c)) \<Longrightarrow> chunks_hold c' (M(n := x))"
    by (rule chunks_holdE [OF assms(1,2)]) blast
  obtain s where s: "fs_append (c_fsys c) (c_mirror c) (str ''~'') (int_to_filename n False) d = Inr (True, s)"
    "fs_holds s (F(int_to_filename n False \<mapsto> b @ c_string d))" "clus_size (fs_vol s) = clus_size (fs_vol (c_fsys c))"
    using fs_append_ok [OF F(1) _ assms(4,5)] F(2) assms(3) by metis
  then show ?thesis
    using F(3) [of "c\<lparr>c_fsys := s\<rparr>"] by (intro exI [of _ "c\<lparr>c_fsys := s\<rparr>"]) (simp add: chunkserver_append_chunk_def chunk_cap_def)
qed

interpretation fat_chunks: chunk_store chunks_hold chunkserver_create_chunk chunkserver_append_chunk
  chunkserver_read chunk_cap chunk_slot chunk_space
proof unfold_locales
  fix c M n assume a: "chunks_hold c M" "chunk_ok n"
  obtain F where F: "fs_holds (c_fsys c) F" "F (int_to_filename n False) = M n"
    and cl: "clus_size (fs_vol (c_fsys c)) < 2147483648"
    and upd: "\<And>c' x. fs_holds (c_fsys c') (F(int_to_filename n False := x)) \<Longrightarrow>
       clus_size (fs_vol (c_fsys c')) = clus_size (fs_vol (c_fsys c)) \<Longrightarrow> chunks_hold c' (M(n := x))"
    by (rule chunks_holdE [OF a]) blast
  note wf = fs_holds_wf [OF F(1)] and name = chunk_file_name [OF a(2)]
  show "\<exists>c'. chunkserver_create_chunk c n = Inr (True, c') \<and> chunks_hold c' (M(n \<mapsto> []))
      \<and> chunk_cap c' = chunk_cap c \<and> chunk_space c' = chunk_space c" if p: "M n = None" "chunk_slot c"
  proof -
    obtain s where s: "fs_create (c_fsys c) (c_mirror c) (str ''~'') (int_to_filename n False) False False
        = Inr (True, c_mirror c, s)" "fs_holds s (F(int_to_filename n False \<mapsto> []))"
      "clus_size (fs_vol s) = clus_size (fs_vol (c_fsys c))" "fs_space s = fs_space (c_fsys c)"
      using fs_create_ok [OF F(1) name, of "c_mirror c"] F(2) p
      by (auto simp: chunk_slot_def simp del: fun_upd_apply)
    then show ?thesis
      using upd [of "c\<lparr>c_fsys := s\<rparr>"]
      by (intro exI [of _ "c\<lparr>c_fsys := s\<rparr>"]) (simp add: chunkserver_create_chunk_def chunk_cap_def chunk_space_def)
  qed
  show "chunkserver_create_chunk c n = Inr (True, c)" if "M n \<noteq> None"
    using fs_create_again [OF F(1), of "int_to_filename n False" "c_mirror c"] F(2) that
    by (simp add: chunkserver_create_chunk_def)
  show "\<exists>c'. chunkserver_append_chunk c n d = Inr (True, c') \<and> chunks_hold c' (M(n \<mapsto> c_string d)) \<and> chunk_cap c' = chunk_cap c"
    if "M n = Some []" "chunk_space c" "c_string d \<noteq> []" "length (c_string d) \<le> chunk_cap c" for d
    using chunk_append_ok [OF a that(1), of d] room_first [OF wf, of "length (c_string d)"] that cl
    by (simp add: chunk_cap_def chunk_space_def)
  show "\<exists>c'. chunkserver_append_chunk c n d = Inr (True, c') \<and> chunks_hold c' (M(n \<mapsto> b @ c_string d)) \<and> chunk_cap c' = chunk_cap c"
    if "M n = Some b" "b \<noteq> []" "0 \<notin> set b" "length b + length (c_string d) \<le> chunk_cap c" for b d
    using chunk_append_ok [OF a that(1,3), of d] room_more [OF wf, of "length b" "length b + length (c_string d)"] that cl
    by (simp add: chunk_cap_def)
  show "\<exists>r m. chunkserver_read c n = Inr r \<and> f_data r = Some m \<and> n_data r = of_nat (length b) \<and> length b < 4294967296
      \<and> map m [0..<length b] = b" if "M n = Some b" "b \<noteq> []" for b
    using fs_read_ok [OF F(1), of "int_to_filename n False" b "c_mirror c"] F(2) that
    by (auto simp: chunkserver_read_def)
qed

text \<open>Deleting a chunk, which no packet handler calls.\<close>

lemma chunk_delete_ok:
  assumes "chunks_hold c M" "chunk_ok n"
  shows "\<exists>c'. chunkserver_delete_chunk c n = Inr (M n \<noteq> None, c') \<and> chunks_hold c' (M(n := None))"
proof -
  obtain F where F: "fs_holds (c_fsys c) F" "F (int_to_filename n False) = M n"
    and upd: "\<And>c' x. fs_holds (c_fsys c') (F(int_to_filename n False := x)) \<Longrightarrow>
       clus_size (fs_vol (c_fsys c')) = clus_size (fs_vol (c_fsys c)) \<Longrightarrow> chunks_hold c' (M(n := x))"
    by (rule chunks_holdE [OF assms]) blast
  obtain s where s: "fs_delete (c_fsys c) (c_mirror c) (str ''~'') (int_to_filename n False) = Inr (M n \<noteq> None, s)"
    "fs_holds s (F(int_to_filename n False := None))" "clus_size (fs_vol s) = clus_size (fs_vol (c_fsys c))"
    using fs_delete_ok [OF F(1) chunk_file_name [OF assms(2)], of "c_mirror c"] F(2) by auto
  then show ?thesis
    using upd [of "c\<lparr>c_fsys := s\<rparr>"]
    by (intro exI [of _ "c\<lparr>c_fsys := s\<rparr>"]) (simp add: chunkserver_delete_chunk_def)
qed

end
