(* ===== verification/Dfs_Master_Fat.thy ===== *)
theory Dfs_Master_Fat
  imports Dfs_Chunk_Fat
begin

text \<open>
  \<open>dfs/dfs-master-fat.c\<close>: the master keeps, for each file of a client, a file with one \<open>chunk_map_t\<close> of
  20 bytes per chunk, in the working directory of its mirror.
\<close>

section \<open>Chunk maps\<close>

record chunk_map =
  chunk_server_addrs :: "u32 list"
  cm_chunk_id :: u32
  num_replica :: u8

text \<open>The layout in memory and in the file; the three bytes behind \<open>num_replica\<close> are padding.\<close>

definition chunk_map_bytes :: "u8 list \<Rightarrow> chunk_map \<Rightarrow> u8 list" where
  "chunk_map_bytes pad c = concat (map le32_bytes (chunk_server_addrs c)) @ le32_bytes (cm_chunk_id c) @ [num_replica c] @ pad"

definition chunk_map_of :: "u8 list \<Rightarrow> chunk_map" where
  "chunk_map_of b = \<lparr>chunk_server_addrs = [le32_at b 0, le32_at b 4, le32_at b 8], cm_chunk_id = le32_at b 12,
     num_replica = b ! 16\<rparr>"

definition sizeof_chunk_map :: nat where "sizeof_chunk_map = 20"

text \<open>\<open>maps[i]\<close> for a \<open>chunk_map_t\<close> pointer into memory.\<close>

definition map_at :: "(nat \<Rightarrow> u8) \<Rightarrow> nat \<Rightarrow> chunk_map" where
  "map_at m i = chunk_map_of (map (\<lambda>k. m (sizeof_chunk_map * i + k)) [0..<sizeof_chunk_map])"

section \<open>State and operations\<close>

record client_dirent =
  cl_id :: u32
  cl_cur_dir :: pi_dirent
  cl_root :: pi_dirent
  cl_chunk_id :: u32

text \<open>The static \<open>master_mirror\<close> and the file system behind it.\<close>

record master_fs =
  mf_fsys :: fsys
  mf_mirror :: fs_mirror

definition master_fat32_init :: "ready \<Rightarrow> fsys \<Rightarrow> (ready \<times> master_fs) res" where
  "master_fat32_init g s =
     (let g1 = snd (set_uart_ready g); g2 = snd (set_kmalloc_ready g1) in
      bind_r (fs_init g2 s) (\<lambda>(g3, s1).
      bind_r (register_mirror s1 (str ''master'')) (\<lambda>(m, s2).
        Inr (g3, \<lparr>mf_fsys = s2, mf_mirror = m\<rparr>))))"

definition master_fat32_client_init :: "master_fs \<Rightarrow> u32 \<Rightarrow> (client_dirent \<times> master_fs) res" where
  "master_fat32_client_init f client_id =
     bind_r (fs_create (mf_fsys f) (mf_mirror f) (str ''~'') (int_to_filename client_id True) True True)
       (\<lambda>(_, m, s). Inr (\<lparr>cl_id = client_id, cl_cur_dir = m_cwd m, cl_root = m_cwd m, cl_chunk_id = 1\<rparr>,
                          f\<lparr>mf_fsys := s, mf_mirror := m\<rparr>))"

definition master_fat32_listdir :: "master_fs \<Rightarrow> cstr \<Rightarrow> u8 list \<Rightarrow> (bool \<times> u8 list) res" where
  "master_fat32_listdir f dirname target = fs_listdir (mf_fsys f) (mf_mirror f) dirname target"

definition master_fat32_readdir :: "master_fs \<Rightarrow> client_dirent \<Rightarrow> pi_dirent list res" where
  "master_fat32_readdir f client = fat32_readdir (fs_vol (mf_fsys f)) (cl_cur_dir client)"

definition master_fat32_changedir :: "master_fs \<Rightarrow> cstr \<Rightarrow> (bool \<times> master_fs) res" where
  "master_fat32_changedir f dirname =
     bind_r (fs_changedir (mf_fsys f) (mf_mirror f) dirname) (\<lambda>(r, m). Inr (r, f\<lparr>mf_mirror := m\<rparr>))"

definition master_fat32_get_chunk_num :: "master_fs \<Rightarrow> cstr \<Rightarrow> u32 res" where
  "master_fat32_get_chunk_num f fname =
     bind_r (fs_read (mf_fsys f) (mf_mirror f) (str ''.'') fname) (\<lambda>(_, n). Inr (n div 20))"

definition master_fat32_get_chunks :: "master_fs \<Rightarrow> cstr \<Rightarrow> u32 \<Rightarrow> chunk_map res" where
  "master_fat32_get_chunks f fname sqn =
     bind_r (fs_read (mf_fsys f) (mf_mirror f) (str ''.'') fname) (\<lambda>(maps, _).
     bind_r (deref maps) (\<lambda>m. Inr (map_at m (unat sqn))))"

definition master_fat32_create :: "master_fs \<Rightarrow> cstr \<Rightarrow> bool \<Rightarrow> (bool \<times> master_fs) res" where
  "master_fat32_create f fname is_dir =
     bind_r (fs_create (mf_fsys f) (mf_mirror f) (str ''.'') fname is_dir False) (\<lambda>(r, m, s).
       Inr (r, f\<lparr>mf_fsys := s, mf_mirror := m\<rparr>))"

definition master_fat32_delete :: "master_fs \<Rightarrow> cstr \<Rightarrow> (bool \<times> master_fs) res" where
  "master_fat32_delete f fname =
     bind_r (fs_delete (mf_fsys f) (mf_mirror f) (str ''.'') fname) (\<lambda>(r, s). Inr (r, f\<lparr>mf_fsys := s\<rparr>))"

text \<open>
  Adding a server for chunk \<open>sqn\<close> of a file: a new map behind the others, or another replica. \<open>pad\<close> is
  the padding of the map on the stack.
\<close>

definition new_chunk_map :: "(nat \<Rightarrow> u8) option \<Rightarrow> u32 \<Rightarrow> u32 \<Rightarrow> u32 \<Rightarrow> u32 \<Rightarrow> (chunk_map \<times> u32) res" where
  "new_chunk_map maps chunk_num chunk_id sqn server =
     (if chunk_num \<le> sqn then
        Inr (\<lparr>chunk_server_addrs = [server, 0, 0], cm_chunk_id = chunk_id, num_replica = 1\<rparr>, chunk_num + 1)
      else bind_r (deref maps) (\<lambda>m.
        let old_map = map_at m (unat sqn) in
        bind_r (arr_set (chunk_server_addrs old_map) (unat (num_replica old_map)) server) (\<lambda>addrs.
        Inr (\<lparr>chunk_server_addrs = addrs, cm_chunk_id = chunk_id, num_replica = num_replica old_map + 1\<rparr>, chunk_num))))"

definition master_fat32_add_chunk_server ::
  "master_fs \<Rightarrow> u8 list \<Rightarrow> cstr \<Rightarrow> u32 \<Rightarrow> u32 \<Rightarrow> u32 \<Rightarrow> master_fs res" where
  "master_fat32_add_chunk_server f pad fname chunk_id sqn server =
     bind_r (fs_read (mf_fsys f) (mf_mirror f) (str ''.'') fname) (\<lambda>(maps, n).
     bind_r (new_chunk_map maps (n div 20) chunk_id sqn server) (\<lambda>(new_map, chunk_num).
     let new_nbytes = 20 * chunk_num in
     bind_r (if chunk_num > 1 then bind_r (deref maps) (\<lambda>m.
               Inr (map m [0..<sizeof_chunk_map * unat (chunk_num - 1)] @ chunk_map_bytes pad new_map))
             else Inr (chunk_map_bytes pad new_map)) (\<lambda>data.
     bind_r (fs_write (mf_fsys f) (mf_mirror f) (str ''.'') fname (Some (mem_of data)) new_nbytes) (\<lambda>(_, s).
     Inr (f\<lparr>mf_fsys := s\<rparr>)))))"

section \<open>Maps in files\<close>

text \<open>The contents of a master file: the maps of its chunks, each with its padding.\<close>

definition map_wf :: "u8 list \<times> chunk_map \<Rightarrow> bool" where
  "map_wf x \<longleftrightarrow> length (fst x) = 3 \<and> length (chunk_server_addrs (snd x)) = 3"

definition maps_bytes :: "(u8 list \<times> chunk_map) list \<Rightarrow> u8 list" where
  "maps_bytes xs = concat (map (\<lambda>(pad, c). chunk_map_bytes pad c) xs)"

lemma length_3: "length xs = 3 \<longleftrightarrow> (\<exists>a b c. xs = [a, b, c])"
  by (auto simp: length_Suc_conv numeral_3_eq_3)

lemma length_chunk_map_bytes: "map_wf (pad, c) \<Longrightarrow> length (chunk_map_bytes pad c) = 20"
  by (auto simp: map_wf_def length_3 chunk_map_bytes_def)

lemma length_maps_bytes: "list_all map_wf xs \<Longrightarrow> length (maps_bytes xs) = 20 * length xs"
  by (induction xs) (auto simp: maps_bytes_def length_chunk_map_bytes)

lemma le32_at_mid: "length p = i \<Longrightarrow> le32_at (p @ le32_bytes x @ q) i = x"
  using le32_join [of x] by (simp add: le32_at_def nth_append le32_bytes_def)

lemma chunk_map_roundtrip:
  assumes "map_wf (pad, c)"
  shows "chunk_map_of (chunk_map_bytes pad c) = c"
proof -
  obtain x y z where a: "chunk_server_addrs c = [x, y, z]" using assms by (auto simp: map_wf_def length_3)
  let ?b = "chunk_map_bytes pad c"
  have "?b = [] @ le32_bytes x @ (le32_bytes y @ le32_bytes z @ le32_bytes (cm_chunk_id c) @ [num_replica c] @ pad)"
    "?b = le32_bytes x @ le32_bytes y @ (le32_bytes z @ le32_bytes (cm_chunk_id c) @ [num_replica c] @ pad)"
    "?b = (le32_bytes x @ le32_bytes y) @ le32_bytes z @ (le32_bytes (cm_chunk_id c) @ [num_replica c] @ pad)"
    "?b = (le32_bytes x @ le32_bytes y @ le32_bytes z) @ le32_bytes (cm_chunk_id c) @ ([num_replica c] @ pad)"
    by (simp_all add: chunk_map_bytes_def a)
  then have "le32_at ?b 0 = x" "le32_at ?b 4 = y" "le32_at ?b 8 = z" "le32_at ?b 12 = cm_chunk_id c"
    using le32_at_mid [of "[]" 0] le32_at_mid [of "le32_bytes x" 4] le32_at_mid [of "le32_bytes x @ le32_bytes y" 8]
      le32_at_mid [of "le32_bytes x @ le32_bytes y @ le32_bytes z" 12] by simp_all
  moreover have "?b ! 16 = num_replica c" by (simp add: chunk_map_bytes_def a nth_append)
  ultimately show ?thesis using a by (simp add: chunk_map_of_def)
qed

lemma maps_bytes_piece:
  assumes "list_all map_wf xs" "i < length xs"
  shows "take 20 (drop (20 * i) (maps_bytes xs)) = chunk_map_bytes (fst (xs ! i)) (snd (xs ! i))"
  using assms
proof (induction xs arbitrary: i)
  case (Cons x xs)
  obtain pad c where x: "x = (pad, c)" by (cases x)
  then have l: "length (chunk_map_bytes pad c) = 20" using Cons.prems(1) by (simp add: length_chunk_map_bytes)
  show ?case
  proof (cases i)
    case 0
    then show ?thesis using x l by (simp add: maps_bytes_def)
  next
    case (Suc j)
    then show ?thesis using Cons.IH [of j] Cons.prems x l by (simp add: maps_bytes_def)
  qed
qed simp

lemma map_at_file:
  assumes "map m [0..<length b] = b" "b = maps_bytes xs" "list_all map_wf xs" "i < length xs"
  shows "map_at m i = snd (xs ! i)"
proof -
  have len: "length b = 20 * length xs" using assms(2,3) by (simp add: length_maps_bytes)
  have "map (\<lambda>k. m (20 * i + k)) [0..<20] = take 20 (drop (20 * i) b)"
  proof (rule nth_equalityI)
    show "length (map (\<lambda>k. m (20 * i + k)) [0..<20]) = length (take 20 (drop (20 * i) b))"
      using len assms(4) by simp
    fix k assume "k < length (map (\<lambda>k. m (20 * i + k)) [0..<20])"
    then have k: "k < 20" by simp
    have "map m [0..<length b] ! (20 * i + k) = m (20 * i + k)" using k len assms(4) by simp
    then have "m (20 * i + k) = b ! (20 * i + k)" unfolding assms(1) by simp
    then show "map (\<lambda>k. m (20 * i + k)) [0..<20] ! k = take 20 (drop (20 * i) b) ! k"
      using k len assms(4) by simp
  qed
  also have "\<dots> = chunk_map_bytes (fst (xs ! i)) (snd (xs ! i))"
    using maps_bytes_piece [OF assms(3,4)] assms(2) by simp
  finally show ?thesis
    using chunk_map_roundtrip [of "fst (xs ! i)" "snd (xs ! i)"] assms(3,4)
    by (simp add: map_at_def sizeof_chunk_map_def list_all_length)
qed

section \<open>The operations on a file of maps\<close>

definition mf_holds :: "master_fs \<Rightarrow> (cstr \<Rightarrow> u8 list option) \<Rightarrow> bool" where
  "mf_holds f M \<longleftrightarrow> holds (fs_vol (mf_fsys f)) (m_cwd (mf_mirror f)) M"

lemma div20: "20 * k < 4294967296 \<Longrightarrow> (of_nat (20 * k) :: u32) div 20 = of_nat k"
proof -
  assume a: "20 * k < 4294967296"
  have "unat ((of_nat (20 * k) :: u32) div 20) = k" using unat_of_nat_u32 [OF a] by (simp add: unat_div)
  moreover have "unat (of_nat k :: u32) = k" using a by (intro unat_of_nat_u32) linarith
  ultimately show ?thesis by (simp only: unat_eq_iff)
qed

lemma maps_file_read:
  assumes "mf_holds f M" "M g = Some (maps_bytes xs)" "list_all map_wf xs"
  shows "\<exists>d. fs_read (mf_fsys f) (mf_mirror f) (str ''.'') g = Inr (d, of_nat (20 * length xs)) \<and> 20 * length xs < 4294967296
    \<and> (xs \<noteq> [] \<longrightarrow> (\<exists>m. d = Some m \<and> map m [0..<20 * length xs] = maps_bytes xs \<and> (\<forall>i<length xs. map_at m i = snd (xs ! i))))"
proof -
  obtain d where d: "fs_read (mf_fsys f) (mf_mirror f) (str ''.'') g = Inr (d, of_nat (length (maps_bytes xs)))"
    "length (maps_bytes xs) < 4294967296"
    "maps_bytes xs \<noteq> [] \<longrightarrow> (\<exists>mm. d = Some mm \<and> map mm [0..<length (maps_bytes xs)] = maps_bytes xs)"
    using read_at [OF resolves_here assms(1) [unfolded mf_holds_def] assms(2)] by blast
  note len = length_maps_bytes [OF assms(3)]
  have "xs \<noteq> [] \<longrightarrow> maps_bytes xs \<noteq> []" using len by auto
  with d map_at_file [OF _ refl assms(3)] show ?thesis unfolding len by auto
qed

lemma get_chunk_num_ok:
  assumes "mf_holds f M" "M g = Some (maps_bytes xs)" "list_all map_wf xs"
  shows "master_fat32_get_chunk_num f g = Inr (of_nat (length xs))"
  using maps_file_read [OF assms] by (auto simp: master_fat32_get_chunk_num_def div20 simp del: of_nat_mult)

lemma get_chunks_ok:
  assumes "mf_holds f M" "M g = Some (maps_bytes xs)" "list_all map_wf xs" "unat sqn < length xs"
  shows "master_fat32_get_chunks f g sqn = Inr (snd (xs ! unat sqn))"
proof -
  have "xs \<noteq> []" using assms(4) by auto
  then show ?thesis
    using maps_file_read [OF assms(1-3)] assms(4) by (auto simp: master_fat32_get_chunks_def deref_def)
qed

definition single_replica :: "u32 \<Rightarrow> u32 \<Rightarrow> chunk_map" where
  "single_replica chunk_id server = \<lparr>chunk_server_addrs = [server, 0, 0], cm_chunk_id = chunk_id, num_replica = 1\<rparr>"

lemma add_chunk_server_ok:
  assumes h: "mf_holds f M" "M g = Some (maps_bytes xs)" "list_all map_wf xs"
    and new: "unat sqn = length xs" "length pad = 3"
    and room: "room_for (fs_vol (mf_fsys f)) (20 * length xs) (20 * Suc (length xs))"
  shows "\<exists>f'. master_fat32_add_chunk_server f pad g chunk_id sqn server = Inr f' \<and> mf_mirror f' = mf_mirror f
    \<and> mf_holds f' (M(g \<mapsto> maps_bytes (xs @ [(pad, single_replica chunk_id server)])))"
proof -
  let ?k = "length xs" and ?new = "single_replica chunk_id server"
  let ?b = "maps_bytes (xs @ [(pad, ?new)])"
  have wf: "list_all map_wf (xs @ [(pad, ?new)])" using h(3) new(2) by (simp add: map_wf_def single_replica_def)
  have lb: "length ?b = 20 * Suc ?k" using length_maps_bytes [OF wf] by simp
  have small: "20 * Suc ?k < 4294967296" using room by (simp add: room_for_def)
  obtain d where d: "fs_read (mf_fsys f) (mf_mirror f) (str ''.'') g = Inr (d, of_nat (20 * ?k))"
    and m: "xs \<noteq> [] \<longrightarrow> (\<exists>m. d = Some m \<and> map m [0..<20 * ?k] = maps_bytes xs)"
    using maps_file_read [OF h] by blast
  have num: "(of_nat (20 * ?k) :: u32) div 20 = of_nat ?k" using small by (intro div20) simp
  have uk: "unat (of_nat ?k :: u32) = ?k" "unat (of_nat ?k + 1 :: u32) = Suc ?k"
    using small unat_of_nat_u32 [of "?k"] unat_of_nat_u32 [of "Suc ?k"] by (simp_all add: add.commute)
  have nm: "new_chunk_map d (of_nat ?k) chunk_id sqn server = Inr (?new, of_nat ?k + 1)"
    using new(1) uk(1) by (simp add: new_chunk_map_def single_replica_def word_le_nat_alt)
  have data: "(if (of_nat ?k + 1 :: u32) > 1 then bind_r (deref d) (\<lambda>m.
        Inr (map m [0..<sizeof_chunk_map * unat (of_nat ?k + 1 - 1 :: u32)] @ chunk_map_bytes pad ?new))
      else Inr (chunk_map_bytes pad ?new)) = Inr ?b"
  proof (cases "xs = []")
    case True
    then show ?thesis by (simp add: maps_bytes_def)
  next
    case False
    then have "(1 :: u32) < of_nat ?k + 1" using uk(2) by (simp add: word_less_nat_alt)
    with False m uk(1) show ?thesis by (auto simp: deref_def sizeof_chunk_map_def maps_bytes_def)
  qed
  have un: "unat (20 * (of_nat ?k + 1) :: u32) = 20 * Suc ?k"
    using unat_mult_small [of 20 "of_nat ?k + 1"] uk(2) small by simp
  obtain v where v: "fs_write (mf_fsys f) (mf_mirror f) (str ''.'') g (Some (mem_of ?b)) (20 * (of_nat ?k + 1))
      = Inr (True, (mf_fsys f)\<lparr>fs_vol := v\<rparr>)"
    "holds v (m_cwd (mf_mirror f)) (M(g \<mapsto> map (mem_of ?b) [0..<20 * Suc ?k]))"
    using write_at [OF resolves_here h(1) [unfolded mf_holds_def] h(2), of "20 * (of_nat ?k + 1)" "mem_of ?b"]
      room un length_maps_bytes [OF h(3)] by auto
  have "map (mem_of ?b) [0..<20 * Suc ?k] = ?b" using map_mem_of [of ?b] lb by simp
  then show ?thesis
    using d num nm data v
    by (intro exI [of _ "f\<lparr>mf_fsys := (mf_fsys f)\<lparr>fs_vol := v\<rparr>\<rparr>"])
      (simp add: master_fat32_add_chunk_server_def mf_holds_def Let_def del: of_nat_mult)
qed

end
