(* ===== verification/Dfs_Conn.thy ===== *)
theory Dfs_Conn
  imports Dfs_Packet
begin

text \<open>
  The connection table that master and chunk server share: \<open>try_assign_port\<close>, of which
  \<open>dfs/dfs-master.c\<close> and \<open>dfs/dfs-chunkserver.c\<close> have one copy each.
\<close>

text \<open>The search loop: the port of a known client, or the first idle port.\<close>

fun port_search :: "u32 list \<Rightarrow> u32 \<Rightarrow> nat \<Rightarrow> nat option \<Rightarrow> nat + nat option" where
  "port_search [] client i first_idle = Inr first_idle"
| "port_search (a # as) client i first_idle =
     (if a = client then Inl i
      else port_search as client (Suc i) (if a = 0 \<and> first_idle = None then Some i else first_idle))"

text \<open>The port (\<open>None\<close> for -1), the table and the number of connections.\<close>

definition assign_port :: "u32 list \<Rightarrow> u32 \<Rightarrow> u32 \<Rightarrow> (nat option \<times> u32 list \<times> u32) res" where
  "assign_port addrs n_conns client =
     (case port_search (take DFS_MAX_CONN addrs) client 0 None of
        Inl i \<Rightarrow> Inr (Some i, addrs, n_conns)
      | Inr None \<Rightarrow> bind_r (assert_r (n_conns = of_nat DFS_MAX_CONN)) (\<lambda>_. Inr (None, addrs, n_conns))
      | Inr (Some i) \<Rightarrow> Inr (Some i, addrs[i := client], n_conns + 1))"

text \<open>Four ports, each client on one port, and the count of the ports in use.\<close>

definition ports_ok :: "u32 list \<Rightarrow> u32 \<Rightarrow> bool" where
  "ports_ok addrs n \<longleftrightarrow> length addrs = DFS_MAX_CONN \<and> distinct (filter (\<lambda>a. a \<noteq> 0) addrs)
     \<and> n = of_nat (length (filter (\<lambda>a. a \<noteq> 0) addrs))"

definition assigned :: "u32 list \<Rightarrow> u32 \<Rightarrow> nat option \<Rightarrow> u32 list \<Rightarrow> bool" where
  "assigned addrs client r addrs' = (case r of
     Some i \<Rightarrow> i < DFS_MAX_CONN \<and> addrs' ! i = client \<and> (\<forall>k. k \<noteq> i \<longrightarrow> addrs' ! k = addrs ! k)
       \<and> (addrs ! i = client \<or> addrs ! i = 0)
   | None \<Rightarrow> addrs' = addrs \<and> client \<notin> set addrs \<and> 0 \<notin> set addrs)"

lemma port_search_Inl:
  "port_search as client i fi = Inl j \<Longrightarrow> i \<le> j \<and> j < i + length as \<and> as ! (j - i) = client"
  by (induction as client i fi rule: port_search.induct) (auto split: if_splits simp: nth_Cons')

lemma port_search_Inr:
  "port_search as client i fi = Inr r \<Longrightarrow> client \<notin> set as \<and>
    (case fi of Some k \<Rightarrow> r = Some k
     | None \<Rightarrow> (case r of None \<Rightarrow> 0 \<notin> set as | Some j \<Rightarrow> i \<le> j \<and> j < i + length as \<and> as ! (j - i) = 0))"
proof (induction as client i fi rule: port_search.induct)
  case (2 a as client i fi)
  then show ?case by (cases fi; cases r) (auto split: if_splits option.splits simp: nth_Cons')
qed (auto split: option.splits)

lemma filter_fill:
  "i < length as \<Longrightarrow> as ! i = (0 :: u32) \<Longrightarrow> client \<noteq> 0 \<Longrightarrow> client \<notin> set as \<Longrightarrow> distinct (filter (\<lambda>a. a \<noteq> 0) as) \<Longrightarrow>
   distinct (filter (\<lambda>a. a \<noteq> 0) (as[i := client])) \<and>
   length (filter (\<lambda>a. a \<noteq> 0) (as[i := client])) = Suc (length (filter (\<lambda>a. a \<noteq> 0) as))
   \<and> set (filter (\<lambda>a. a \<noteq> 0) (as[i := client])) = insert client (set (filter (\<lambda>a. a \<noteq> 0) as))"
proof (induction as arbitrary: i)
  case (Cons a as)
  show ?case
  proof (cases i)
    case 0
    with Cons.prems show ?thesis by auto
  next
    case (Suc j)
    then have IH: "distinct (filter (\<lambda>a. a \<noteq> 0) (as[j := client]))"
      "length (filter (\<lambda>a. a \<noteq> 0) (as[j := client])) = Suc (length (filter (\<lambda>a. a \<noteq> 0) as))"
      "set (filter (\<lambda>a. a \<noteq> 0) (as[j := client])) = insert client (set (filter (\<lambda>a. a \<noteq> 0) as))"
      using Cons.IH [of j] Cons.prems by (auto split: if_splits)
    moreover have "a \<noteq> 0 \<Longrightarrow> a \<notin> set (filter (\<lambda>a. a \<noteq> 0) (as[j := client]))"
      unfolding IH(3) using Cons.prems by (auto split: if_splits)
    ultimately show ?thesis using Suc by auto
  qed
qed simp

lemma assign_port_ok:
  assumes ok: "ports_ok addrs n"
  shows "\<exists>r addrs' n'. assign_port addrs n client = Inr (r, addrs', n') \<and> ports_ok addrs' n'
    \<and> assigned addrs client r addrs'"
proof -
  have len: "length addrs = DFS_MAX_CONN" "take DFS_MAX_CONN addrs = addrs" using ok by (auto simp: ports_ok_def)
  show ?thesis
  proof (cases "port_search addrs client 0 None")
    case (Inl j)
    then have "j < length addrs" "addrs ! j = client" using port_search_Inl [OF Inl] by auto
    with Inl ok len show ?thesis by (simp add: assign_port_def ports_ok_def assigned_def)
  next
    case (Inr r)
    note s = port_search_Inr [OF Inr]
    show ?thesis
    proof (cases r)
      case None
      then have "filter (\<lambda>a. a \<noteq> 0) addrs = addrs" using s by (auto simp: filter_id_conv)
      then have "n = of_nat DFS_MAX_CONN" using ok by (simp add: ports_ok_def)
      with None Inr ok s len show ?thesis by (simp add: assign_port_def assigned_def)
    next
      case (Some i)
      then have i: "i < length addrs" "addrs ! i = 0" "client \<notin> set addrs" using s by auto
      then have "client \<noteq> 0" using nth_mem [of i addrs] by metis
      note f = filter_fill [OF i(1,2) this i(3)]
      show ?thesis using Some Inr ok i f len by (simp add: assign_port_def ports_ok_def assigned_def)
    qed
  qed
qed

text \<open>A client that connects again gets its port again.\<close>

lemma port_search_at:
  "client \<notin> set as \<Longrightarrow> i < length as \<Longrightarrow> port_search (as[i := client]) client k fi = Inl (k + i)"
proof (induction as arbitrary: i k fi)
  case (Cons a as)
  then show ?case by (cases i) auto
qed simp

lemma assign_again:
  assumes "length addrs = DFS_MAX_CONN" "assign_port addrs n client = Inr (Some i, addrs', n')"
  shows "assign_port addrs' n' client = Inr (Some i, addrs', n')"
proof (cases "port_search addrs client 0 None")
  case (Inl j)
  with assms show ?thesis by (auto simp: assign_port_def)
next
  case (Inr r)
  then have r: "r = Some i" "addrs' = addrs[i := client]" using assms by (auto simp: assign_port_def bind_r_eq_Inr split: option.splits)
  then have "i < length addrs" "client \<notin> set addrs" using port_search_Inr [OF Inr] by auto
  then show ?thesis using port_search_at [of client addrs i 0 None] r(2) assms(1) by (simp add: assign_port_def)
qed

end
