(* ===== verification/Dfs_Chunkserver.thy ===== *)
theory Dfs_Chunkserver
  imports Dfs_Chunk_Fat Dfs_Conn
begin

text \<open>
  \<open>dfs/dfs-chunkserver.c\<close>: a chunk server's connection table and its handler for each packet. \<open>junk\<close>
  is the content of the uninitialised packet on the stack into which a reply is built.
\<close>

section \<open>State\<close>

record chunkserver =
  cs_addr :: u32
  cs_id :: u32
  cs_client_addrs :: "u32 list"
  cs_n_conns :: u32
  cs_store :: chunk_fs

text \<open>
  With both radios taken \<open>dfs_nrf_init\<close> returns NULL and the server faults at its first use of the radio;
  the model reports the fault at once.
\<close>

definition dfs_init_chunkserver :: "ready \<Rightarrow> fsys \<Rightarrow> u32 \<Rightarrow> u32 \<Rightarrow> (ready \<times> chunkserver) res" where
  "dfs_init_chunkserver g s addr sid =
     (let (ok, g1) = dfs_nrf_claim g in
      if \<not> ok then Inl OutOfBounds
      else bind_r (chunkserver_fat32_init g1 s) (\<lambda>(g2, c).
        Inr (g2, \<lparr>cs_addr = addr, cs_id = sid, cs_client_addrs = replicate DFS_MAX_CONN 0, cs_n_conns = 0,
                  cs_store = c\<rparr>)))"

section \<open>Connections\<close>

definition try_assign_port :: "chunkserver \<Rightarrow> u32 \<Rightarrow> (nat option \<times> chunkserver) res" where
  "try_assign_port cs client =
     bind_r (assign_port (cs_client_addrs cs) (cs_n_conns cs) client) (\<lambda>(r, addrs, k).
       Inr (r, cs\<lparr>cs_client_addrs := addrs, cs_n_conns := k\<rparr>))"

definition chunk_cnct :: "chunkserver \<Rightarrow> net \<Rightarrow> dfs_pkt \<Rightarrow> dfs_pkt \<Rightarrow> (chunkserver \<times> net) res" where
  "chunk_cnct cs n junk recv =
     (let client = conn_addr recv in
      bind_r (try_assign_port cs client) (\<lambda>(port, cs').
        case port of
          None \<Rightarrow> Inr (cs', snd (nrf_send_noack n client (set_op_code DFS_REJ junk)))
        | Some i \<Rightarrow> Inr (cs', snd (nrf_send_noack n client (set_port_id (of_nat i) (set_op_code DFS_ACP junk))))))"

section \<open>Heartbeat\<close>

definition chunk_hb :: "chunkserver \<Rightarrow> net \<Rightarrow> dfs_pkt \<Rightarrow> dfs_pkt \<Rightarrow> (chunkserver \<times> net) res" where
  "chunk_hb cs n junk recv =
     (let p = set_hb_storage (32 * 1024) (set_hb_usage 0 (set_hb_addr (cs_addr cs) (set_hb_id (hb_id recv)
                (set_port_id (ucast (cs_id cs)) (set_op_code DFS_HB junk))))) in
      Inr (cs, snd (nrf_send_noack n (hb_addr recv) p)))"

section \<open>Reading\<close>

definition rd_packet :: "dfs_pkt \<Rightarrow> u32 \<Rightarrow> u32 \<Rightarrow> u8 \<Rightarrow> u8 list \<Rightarrow> dfs_pkt" where
  "rd_packet junk chunk_id offset opc d =
     set_d_data (d @ replicate (16 - length d) 0) (set_d_offset offset (set_status STATUS_SUCCESS
       (set_chunk_id_sqn chunk_id (set_op_code opc junk))))"

text \<open>
  The sending loop. When \<open>bytes_sent\<close> wraps around (only a request for nearly 4 GB gets there) the
  transfer starts over; such a run counts as divergent.
\<close>

function rd_loop :: "net \<Rightarrow> dfs_pkt \<Rightarrow> u32 \<Rightarrow> u32 \<Rightarrow> (nat \<Rightarrow> u8) \<Rightarrow> u32 \<Rightarrow> u32 \<Rightarrow> u32 \<Rightarrow> net res" where
  "rd_loop n junk client chunk_id m offset bytes_to_send bytes_sent =
     (if bytes_sent < bytes_to_send then
        let cur_offset = offset + bytes_sent;
            fin = bytes_to_send - bytes_sent \<le> CHUNK_SERVER_PKT_SIZE;
            nbytes = (if fin then bytes_to_send - bytes_sent else CHUNK_SERVER_PKT_SIZE);
            d = map (\<lambda>k. m (unat cur_offset + k)) [0..<unat nbytes];
            (ret, n') = nrf_send_ack n client (rd_packet junk chunk_id cur_offset (if fin then DFS_END_RD else DFS_RD) d)
        in if ret = -1 \<or> ret \<noteq> int dfs_get_pkt_bytes then Inr n'
           else if bytes_sent + CHUNK_SERVER_PKT_SIZE < bytes_sent then Inl Diverges
           else rd_loop n' junk client chunk_id m offset bytes_to_send (bytes_sent + CHUNK_SERVER_PKT_SIZE)
      else Inr n)"
  by pat_completeness auto
termination
  by (relation "measure (\<lambda>(n, j, c, i, m, off, b, s). unat b - unat s)")
    (auto simp: CHUNK_SERVER_PKT_SIZE_def intro: rd_progress)

declare rd_loop.simps [simp del]

definition chunk_rd :: "chunkserver \<Rightarrow> net \<Rightarrow> dfs_pkt \<Rightarrow> dfs_pkt \<Rightarrow> (chunkserver \<times> net) res" where
  "chunk_rd cs n junk recv =
     (if unat (port_id recv) \<ge> DFS_MAX_CONN then Inr (cs, n)
      else
      bind_r (arr_get (cs_client_addrs cs) (unat (port_id recv))) (\<lambda>client.
      bind_r (chunkserver_read (cs_store cs) (chunk_id_sqn recv)) (\<lambda>chunk.
      let bytes_to_send =
            (if q_offset recv \<ge> n_data chunk then q_nbytes recv
             else if q_offset recv + q_nbytes recv > n_data chunk then n_data chunk - q_offset recv
             else q_nbytes recv) in
      if bytes_to_send = 0 then Inr (cs, n)
      else bind_r (deref (f_data chunk)) (\<lambda>m.
        bind_r (rd_loop n junk client (chunk_id_sqn recv) m (q_offset recv) bytes_to_send 0) (\<lambda>n'.
        Inr (cs, n'))))))"

section \<open>Writing\<close>

text \<open>Both write handlers ignore whether the chunk could be created and whether the data was stored.\<close>

definition chunk_store_data :: "chunkserver \<Rightarrow> dfs_pkt \<Rightarrow> chunkserver res" where
  "chunk_store_data cs recv =
     (let chunk_id = chunk_id_sqn recv in
      bind_r (if d_offset recv = 0 then chunkserver_create_chunk (cs_store cs) chunk_id
              else Inr (True, cs_store cs)) (\<lambda>(_, c1).
      bind_r (chunkserver_append_chunk c1 chunk_id (d_data recv)) (\<lambda>(_, c2).
      Inr (cs\<lparr>cs_store := c2\<rparr>))))"

definition chunk_wr :: "chunkserver \<Rightarrow> net \<Rightarrow> dfs_pkt \<Rightarrow> (chunkserver \<times> net) res" where
  "chunk_wr cs n recv = bind_r (chunk_store_data cs recv) (\<lambda>cs'. Inr (cs', n))"

text \<open>\<open>client_addr\<close> in this handler is the constant of \<open>nrf-default-values.h\<close>, not the sender's address.\<close>

definition chunk_end_wr :: "chunkserver \<Rightarrow> net \<Rightarrow> dfs_pkt \<Rightarrow> dfs_pkt \<Rightarrow> (chunkserver \<times> net) res" where
  "chunk_end_wr cs n junk recv =
     bind_r (chunk_store_data cs recv) (\<lambda>cs'.
       Inr (cs', snd (nrf_send_ack n default_client_addr (set_status STATUS_SUCCESS (set_op_code DFS_END_WR junk)))))"

section \<open>The server loop\<close>

definition chunkserver_step :: "chunkserver \<Rightarrow> net \<Rightarrow> rx \<Rightarrow> dfs_pkt \<Rightarrow> (chunkserver \<times> net) res" where
  "chunkserver_step cs n r junk = (case r of
     RxTimeout \<Rightarrow> Inr (cs, n)
   | RxShort \<Rightarrow> Inr (cs, n)
   | RxPkt recv \<Rightarrow>
       if op_code recv = DFS_CNCT then chunk_cnct cs n junk recv
       else if op_code recv = DFS_HB then chunk_hb cs n junk recv
       else if op_code recv = DFS_RD then chunk_rd cs n junk recv
       else if op_code recv = DFS_RM \<or> op_code recv = DFS_WR then chunk_wr cs n recv
       else if op_code recv = DFS_END_WR then chunk_end_wr cs n junk recv
       else Inl (Panic ''not reached''))"

text \<open>
  \<open>dfs_chunk_lifecycle\<close> (10000000000) is larger than any \<open>int\<close>, so the loop serves every packet that
  arrives.
\<close>

fun dfs_chunkserver_main_start :: "chunkserver \<Rightarrow> net \<Rightarrow> (rx \<times> dfs_pkt) list \<Rightarrow> (chunkserver \<times> net) res" where
  "dfs_chunkserver_main_start cs n [] = Inr (cs, n)"
| "dfs_chunkserver_main_start cs n ((r, junk) # es) =
     bind_r (chunkserver_step cs n r junk) (\<lambda>(cs', n'). dfs_chunkserver_main_start cs' n' es)"

section \<open>The packets of a read\<close>

definition rd_reply :: "dfs_pkt \<Rightarrow> u32 \<Rightarrow> nat \<times> bool \<times> u8 list \<Rightarrow> dfs_pkt" where
  "rd_reply junk chunk_id = (\<lambda>(off, fin, d). rd_packet junk chunk_id (of_nat off) (if fin then DFS_END_RD else DFS_RD) d)"

lemma rd_loop_pieces:
  "send_works n \<Longrightarrow> unat offset + unat b < 4294967296 \<Longrightarrow> unat b < 4294967280 \<Longrightarrow> bs \<le> b \<Longrightarrow>
   rd_loop n junk client chunk_id m offset b bs =
     Inr (n\<lparr>sent := sent n @ map (\<lambda>x. (client, rd_reply junk chunk_id x))
       (pieces (unat offset + unat bs) (map m [unat offset + unat bs..<unat offset + unat b]))\<rparr>)"
proof (induction "unat b - unat bs" arbitrary: n bs rule: less_induct)
  case less
  let ?lo = "unat offset + unat bs" and ?hi = "unat offset + unat b"
  show ?case
  proof (cases "bs < b")
    case False
    then have "bs = b" using less.prems(4) by simp
    then show ?thesis by (subst rd_loop.simps) simp
  next
    case True
    then have lt: "unat bs < unat b" by (simp add: word_less_nat_alt)
    have nw: "unat (bs + 16) = unat bs + 16" using lt less.prems(3) by (simp add: unat_add_u32)
    have no: "\<not> bs + 16 < bs" using nw by (simp add: word_less_nat_alt)
    have off: "unat (offset + bs) = ?lo" using lt less.prems(2) by (simp add: unat_add_u32)
    have sub: "unat (b - bs) = unat b - unat bs" using lt by (simp add: unat_sub_u32)
    define fin where "fin = (b - bs \<le> 16)"
    have fin: "fin \<longleftrightarrow> unat b - unat bs \<le> 16" by (simp add: fin_def word_le_nat_alt sub)
    define d where "d = map (\<lambda>k. m (?lo + k)) [0..<unat (if fin then b - bs else 16)]"
    have d: "d = take 16 (map m [?lo..<?hi])"
      using fin lt by (auto simp: d_def sub take_map simp flip: map_add_upt intro!: nth_equalityI)
    let ?p = "rd_packet junk chunk_id (offset + bs) (if fin then DFS_END_RD else DFS_RD) d"
    let ?n = "n\<lparr>sent := sent n @ [(client, ?p)]\<rparr>"
    have step: "rd_loop n junk client chunk_id m offset b bs =
        rd_loop ?n junk client chunk_id m offset b (bs + 16)"
      using True no less.prems(1) off
      by (subst rd_loop.simps) (simp add: CHUNK_SERVER_PKT_SIZE_def Let_def case_prod_beta fin_def d_def dfs_get_pkt_bytes_def)
    have hd: "pieces ?lo (map m [?lo..<?hi]) = (?lo, fin, d) # pieces (?lo + 16) (drop 16 (map m [?lo..<?hi]))"
      using lt fin d by (subst pieces.simps) auto
    have pk: "rd_reply junk chunk_id (?lo, fin, d) = ?p" by (simp add: rd_reply_def)
    show ?thesis
    proof (cases fin)
      case True
      then have nil: "drop 16 (map m [?lo..<?hi]) = []" and "\<not> bs + 16 < b"
        using fin nw by (auto simp: word_less_nat_alt)
      then have "rd_loop ?n junk client chunk_id m offset b (bs + 16) = Inr ?n" by (subst rd_loop.simps) simp
      then show ?thesis unfolding step hd list.map pk nil by simp
    next
      case False
      have le: "bs + 16 \<le> b" using False fin nw by (simp add: word_le_nat_alt)
      have IH: "rd_loop ?n junk client chunk_id m offset b (bs + 16) = Inr (?n\<lparr>sent := sent ?n @
          map (\<lambda>x. (client, rd_reply junk chunk_id x)) (pieces (unat offset + unat (bs + 16)) (map m [unat offset + unat (bs + 16)..<?hi]))\<rparr>)"
        using less.hyps [of "bs + 16" ?n] less.prems(1-3) lt nw le by simp
      have "drop 16 (map m [?lo..<?hi]) = map m [?lo + 16..<?hi]" by (simp add: drop_map)
      then show ?thesis unfolding step hd list.map pk IH using nw by (simp add: add.assoc)
    qed
  qed
qed

lemma chunk_rd_ok:
  assumes hold: "chunks_hold (cs_store cs) M" and k: "chunk_ok (chunk_id_sqn p)" "M (chunk_id_sqn p) = Some b"
    and port: "unat (port_id p) < DFS_MAX_CONN" "length (cs_client_addrs cs) = DFS_MAX_CONN"
    and off: "unat (q_offset p) < length b" and q: "0 < q_nbytes p"
      "unat (q_offset p) + unat (q_nbytes p) < 4294967296" and small: "length b < 4294967280"
    and net: "send_works n"
  shows "chunk_rd cs n junk p = Inr (cs, n\<lparr>sent := sent n @ map (\<lambda>x. (cs_client_addrs cs ! unat (port_id p),
      rd_reply junk (chunk_id_sqn p) x))
      (pieces (unat (q_offset p)) (take (unat (q_nbytes p)) (drop (unat (q_offset p)) b)))\<rparr>)"
proof -
  have "b \<noteq> []" using off by auto
  then obtain r m where r: "chunkserver_read (cs_store cs) (chunk_id_sqn p) = Inr r" "f_data r = Some m"
    "n_data r = of_nat (length b)" "length b < 4294967296" "map m [0..<length b] = b"
    using fat_chunks.read_back [OF hold k] by blast
  let ?o = "unat (q_offset p)"
  define bts where "bts = (if q_offset p + q_nbytes p > n_data r then n_data r - q_offset p else q_nbytes p)"
  have nd: "unat (n_data r) = length b" using r(3,4) by (simp add: unat_of_nat_u32)
  have ub: "unat bts = min (unat (q_nbytes p)) (length b - ?o)"
    using off q(2) nd by (auto simp: bts_def word_less_nat_alt unat_add_u32 unat_sub_u32)
  have "0 < unat (q_nbytes p)" using q(1) by (simp add: word_less_nat_alt)
  then have "unat bts \<noteq> 0" using ub off by simp
  then have b0: "bts \<noteq> 0" by auto
  have not_ge: "\<not> n_data r \<le> q_offset p" using off nd by (simp add: word_le_nat_alt)
  have sl: "map m [?o..<?o + unat bts] = take (unat (q_nbytes p)) (drop ?o b)"
  proof -
    have "drop ?o b = map m [?o..<length b]" by (subst r(5) [symmetric]) (simp add: drop_map)
    then have "take (unat (q_nbytes p)) (drop ?o b) = map m (take (unat (q_nbytes p)) [?o..<length b])" by (simp add: take_map)
    also have "take (unat (q_nbytes p)) [?o..<length b] = [?o..<?o + unat bts]"
      using ub off by (simp add: min_def)
    finally show ?thesis by simp
  qed
  have "rd_loop n junk (cs_client_addrs cs ! unat (port_id p)) (chunk_id_sqn p) m (q_offset p) bts 0 =
      Inr (n\<lparr>sent := sent n @ map (\<lambda>x. (cs_client_addrs cs ! unat (port_id p), rd_reply junk (chunk_id_sqn p) x))
        (pieces ?o (take (unat (q_nbytes p)) (drop ?o b)))\<rparr>)"
    using rd_loop_pieces [OF net, of "q_offset p" bts 0] ub off small sl by simp
  then show ?thesis
    using port r(1,2) not_ge b0 unfolding chunk_rd_def bts_def by (simp add: deref_def Let_def)
qed

section \<open>Writing packets\<close>

definition wr_for :: "u32 \<Rightarrow> rx \<times> dfs_pkt \<Rightarrow> dfs_pkt \<Rightarrow> bool" where
  "wr_for k e p \<longleftrightarrow> fst e = RxPkt p \<and> op_code p = DFS_WR \<and> chunk_id_sqn p = k"

lemma wr_step: "wr_for k (r, junk) p \<Longrightarrow>
    chunkserver_step cs n r junk = bind_r (chunk_store_data cs p) (\<lambda>cs'. Inr (cs', n))"
  by (simp add: wr_for_def chunkserver_step_def chunk_wr_def opcode_defs)

lemma store_data_more:
  assumes "chunks_hold (cs_store cs) M" "chunk_ok (chunk_id_sqn p)" "M (chunk_id_sqn p) = Some b" "b \<noteq> []" "0 \<notin> set b"
    "length b + length (c_string (d_data p)) \<le> chunk_cap (cs_store cs)"
  shows "\<exists>c. chunk_store_data cs p = Inr (cs\<lparr>cs_store := c\<rparr>) \<and> chunks_hold c (M(chunk_id_sqn p \<mapsto> b @ c_string (d_data p)))
    \<and> chunk_cap c = chunk_cap (cs_store cs)"
proof -
  obtain c where c: "chunkserver_append_chunk (cs_store cs) (chunk_id_sqn p) (d_data p) = Inr (True, c)"
    "chunks_hold c (M(chunk_id_sqn p \<mapsto> b @ c_string (d_data p)))" "chunk_cap c = chunk_cap (cs_store cs)"
    using fat_chunks.append_more [OF assms] by blast
  have "chunkserver_create_chunk (cs_store cs) (chunk_id_sqn p) = Inr (True, cs_store cs)"
    using fat_chunks.create_old [OF assms(1,2)] assms(3) by simp
  with c show ?thesis by (intro exI [of _ c]) (simp add: chunk_store_data_def Let_def)
qed

lemma store_data_first:
  assumes "chunks_hold (cs_store cs) M" "chunk_ok (chunk_id_sqn p)" "M (chunk_id_sqn p) = None" "d_offset p = 0"
    "chunk_slot (cs_store cs)" "chunk_space (cs_store cs)"
    "c_string (d_data p) \<noteq> []" "length (c_string (d_data p)) \<le> chunk_cap (cs_store cs)"
  shows "\<exists>c. chunk_store_data cs p = Inr (cs\<lparr>cs_store := c\<rparr>) \<and> chunks_hold c (M(chunk_id_sqn p \<mapsto> c_string (d_data p)))
    \<and> chunk_cap c = chunk_cap (cs_store cs)"
proof -
  obtain c1 where c1: "chunkserver_create_chunk (cs_store cs) (chunk_id_sqn p) = Inr (True, c1)"
    "chunks_hold c1 (M(chunk_id_sqn p \<mapsto> []))" "chunk_cap c1 = chunk_cap (cs_store cs)" "chunk_space c1"
    using fat_chunks.create_new [OF assms(1-3,5)] assms(6) by auto
  obtain c where c: "chunkserver_append_chunk c1 (chunk_id_sqn p) (d_data p) = Inr (True, c)"
    "chunks_hold c (M(chunk_id_sqn p \<mapsto> [], chunk_id_sqn p \<mapsto> c_string (d_data p)))" "chunk_cap c = chunk_cap c1"
    using fat_chunks.append_first [OF c1(2) assms(2) _ c1(4) assms(7)] assms(8) c1(3) by auto
  with c1 assms(4) show ?thesis by (intro exI [of _ c]) (simp add: chunk_store_data_def Let_def)
qed

lemma wr_run_more:
  "list_all2 (wr_for k) es ps \<Longrightarrow> chunks_hold (cs_store cs) M \<Longrightarrow> chunk_ok k \<Longrightarrow> M k = Some b \<Longrightarrow> b \<noteq> [] \<Longrightarrow> 0 \<notin> set b \<Longrightarrow>
   length b + length (concat (map (\<lambda>p. c_string (d_data p)) ps)) \<le> chunk_cap (cs_store cs) \<Longrightarrow>
   \<exists>c. dfs_chunkserver_main_start cs n es = Inr (cs\<lparr>cs_store := c\<rparr>, n)
     \<and> chunks_hold c (M(k \<mapsto> b @ concat (map (\<lambda>p. c_string (d_data p)) ps)))"
proof (induction es ps arbitrary: cs M b rule: list_all2_induct)
  case Nil
  then have "M(k \<mapsto> b) = M" by auto
  with Nil show ?case by (intro exI [of _ "cs_store cs"]) simp
next
  case (Cons e es p ps)
  obtain r junk where e: "e = (r, junk)" by (cases e)
  have k: "chunk_id_sqn p = k" using Cons(1) by (simp add: wr_for_def)
  obtain c where c: "chunk_store_data cs p = Inr (cs\<lparr>cs_store := c\<rparr>)" "chunks_hold c (M(k \<mapsto> b @ c_string (d_data p)))"
    "chunk_cap c = chunk_cap (cs_store cs)"
    using store_data_more [of cs M p b] Cons.prems k by auto
  let ?b = "b @ c_string (d_data p)"
  have "\<exists>c'. dfs_chunkserver_main_start (cs\<lparr>cs_store := c\<rparr>) n es = Inr (cs\<lparr>cs_store := c\<rparr>\<lparr>cs_store := c'\<rparr>, n)
      \<and> chunks_hold c' ((M(k \<mapsto> ?b))(k \<mapsto> ?b @ concat (map (\<lambda>p. c_string (d_data p)) ps)))"
    using Cons.IH [of "cs\<lparr>cs_store := c\<rparr>" "M(k \<mapsto> ?b)" ?b] c Cons.prems
    by (simp del: fun_upd_apply add: fun_upd_same)
  then show ?case using c(1) wr_step [OF Cons(1) [unfolded e]] e by (auto simp del: fun_upd_apply)
qed

lemma wr_run:
  assumes "list_all2 (wr_for k) es (p # ps)" "chunks_hold (cs_store cs) M" "chunk_ok k" "M k = None" "d_offset p = 0"
    "chunk_slot (cs_store cs)" "chunk_space (cs_store cs)" "c_string (d_data p) \<noteq> []"
    "length (concat (map (\<lambda>p. c_string (d_data p)) (p # ps))) \<le> chunk_cap (cs_store cs)"
  shows "\<exists>c. dfs_chunkserver_main_start cs n es = Inr (cs\<lparr>cs_store := c\<rparr>, n)
    \<and> chunks_hold c (M(k \<mapsto> concat (map (\<lambda>p. c_string (d_data p)) (p # ps))))"
proof -
  obtain r junk es' where e: "es = (r, junk) # es'" "wr_for k (r, junk) p" "list_all2 (wr_for k) es' ps"
    using assms(1) by (cases es) auto
  have k: "chunk_id_sqn p = k" using e(2) by (simp add: wr_for_def)
  obtain c where c: "chunk_store_data cs p = Inr (cs\<lparr>cs_store := c\<rparr>)" "chunks_hold c (M(k \<mapsto> c_string (d_data p)))"
    "chunk_cap c = chunk_cap (cs_store cs)"
    using store_data_first [of cs M p] assms(2-9) k by auto
  have "\<exists>c'. dfs_chunkserver_main_start (cs\<lparr>cs_store := c\<rparr>) n es' = Inr (cs\<lparr>cs_store := c\<rparr>\<lparr>cs_store := c'\<rparr>, n)
      \<and> chunks_hold c' ((M(k \<mapsto> c_string (d_data p)))(k \<mapsto> c_string (d_data p) @ concat (map (\<lambda>p. c_string (d_data p)) ps)))"
    using c assms(3,8,9) by (intro wr_run_more [OF e(3)]) auto
  then show ?thesis using c(1) wr_step [OF e(2)] e(1) by (auto simp del: fun_upd_apply)
qed

section \<open>The connection table\<close>

definition conn_ok :: "chunkserver \<Rightarrow> bool" where
  "conn_ok cs \<longleftrightarrow> ports_ok (cs_client_addrs cs) (cs_n_conns cs)"

lemma try_assign_port_ok:
  assumes "conn_ok cs"
  shows "\<exists>r cs'. try_assign_port cs client = Inr (r, cs') \<and> conn_ok cs' \<and> cs_store cs' = cs_store cs
    \<and> assigned (cs_client_addrs cs) client r (cs_client_addrs cs')"
  using assign_port_ok [of "cs_client_addrs cs" "cs_n_conns cs" client] assms
  by (auto simp: try_assign_port_def conn_ok_def)

text \<open>What a request for a connection is answered with.\<close>

definition cnct_reply :: "nat option \<Rightarrow> dfs_pkt \<Rightarrow> bool" where
  "cnct_reply r q \<longleftrightarrow> (case r of None \<Rightarrow> op_code q = DFS_REJ | Some i \<Rightarrow> op_code q = DFS_ACP \<and> port_id q = of_nat i)"

lemma chunk_cnct_ok:
  assumes "conn_ok cs" "length junk = 32"
  shows "\<exists>r cs' q. chunk_cnct cs n junk p = Inr (cs', n\<lparr>sent := sent n @ [(conn_addr p, q)]\<rparr>) \<and> conn_ok cs'
    \<and> assigned (cs_client_addrs cs) (conn_addr p) r (cs_client_addrs cs') \<and> cnct_reply r q"
proof -
  obtain r cs' where "try_assign_port cs (conn_addr p) = Inr (r, cs')" "conn_ok cs'"
    "assigned (cs_client_addrs cs) (conn_addr p) r (cs_client_addrs cs')"
    using try_assign_port_ok [OF assms(1)] by blast
  then show ?thesis using assms(2)
    by (intro exI [of _ r] exI [of _ cs']) (cases r; auto simp: chunk_cnct_def cnct_reply_def field_get field_set)
qed

lemma step_conn_ok:
  assumes "conn_ok cs" "chunkserver_step cs n r junk = Inr (cs', n')"
  shows "conn_ok cs'"
proof -
  have same: "conn_ok (cs\<lparr>cs_store := x\<rparr>)" for x using assms(1) by (simp add: conn_ok_def)
  show ?thesis
  proof (cases r)
    case (RxPkt p)
    show ?thesis
    proof (cases "op_code p = DFS_CNCT")
      case True
      then have "\<exists>m. chunk_cnct cs n junk p = Inr (cs', m)" using assms(2) RxPkt by (simp add: chunkserver_step_def)
      then show ?thesis
        using try_assign_port_ok [OF assms(1), of "conn_addr p"]
        by (auto simp: chunk_cnct_def Let_def split: option.splits)
    next
      case False
      then show ?thesis
        using assms(1,2) RxPkt same
        by (auto simp: chunkserver_step_def chunk_hb_def chunk_rd_def chunk_wr_def chunk_end_wr_def chunk_store_data_def
            Let_def bind_r_eq_Inr split: if_splits)
    qed
  qed (use assms in \<open>auto simp: chunkserver_step_def\<close>)
qed

lemma run_conn_ok: "conn_ok cs \<Longrightarrow> dfs_chunkserver_main_start cs n es = Inr (cs', n') \<Longrightarrow> conn_ok cs'"
proof (induction es arbitrary: cs n)
  case (Cons e es)
  obtain r junk where e: "e = (r, junk)" by (cases e)
  obtain cs1 n1 where s: "chunkserver_step cs n r junk = Inr (cs1, n1)" "dfs_chunkserver_main_start cs1 n1 es = Inr (cs', n')"
    using Cons.prems(2) e by (auto simp: bind_r_eq_Inr)
  show ?case by (rule Cons.IH [OF step_conn_ok [OF Cons.prems(1) s(1)] s(2)])
qed simp

end
