(* ===== verification/Dfs_Master.thy ===== *)
theory Dfs_Master
  imports Dfs_Master_Fat Dfs_Conn Dfs_Chunkserver
begin

text \<open>
  \<open>dfs/dfs-master.c\<close>: the master's connection table, its view of the chunk servers, the heartbeat
  daemon and the handler of each packet.
\<close>

section \<open>State\<close>

datatype server_state = CHUNK_DOWN | CHUNK_OK

record chunkserver_status =
  ss_addr :: u32
  ss_status :: server_state
  ss_storage :: u32
  ss_usage :: u32
  ss_cur_hb_id :: u32

definition DFS_HB_MAX_LAG :: u32 where "DFS_HB_MAX_LAG = 3"
definition DFS_MAX_CHUNK_SERVER :: nat where "DFS_MAX_CHUNK_SERVER = 64"
definition DFS_MAX_CLIENT :: nat where "DFS_MAX_CLIENT = 10"
definition dfs_chunk_addr1 :: u32 where "dfs_chunk_addr1 = 0x6a6a6a"
definition dfs_chunk_addr2 :: u32 where "dfs_chunk_addr2 = 0x6b6b6b"
definition dfs_chunk_addr3 :: u32 where "dfs_chunk_addr3 = 0x6c6c6c"

text \<open>\<open>dfs_master_t\<close> with the statics \<open>client_fs\<close>, \<open>client_num\<close> and \<open>fake_rand\<close> of the file.\<close>

record dfs_master =
  ma_fs :: master_fs
  ma_addr :: u32
  ma_chunkservers :: "chunkserver_status list"
  ma_num_chunkserver :: u32
  ma_num_act_server :: u32
  ma_cur_hb_id :: u32
  ma_client_addrs :: "u32 list"
  ma_n_conns :: u32
  ma_client_fs :: "client_dirent list"
  ma_client_num :: u8
  ma_fake_rand :: int

text \<open>
  \<open>dfs_init_master\<close>: the \<open>memset\<close> of the connection table has \<open>sizeof(uint32_t) & DFS_MAX_CONN\<close> as its
  length, which is 4 bytes, so only the first of the four addresses is cleared.
\<close>

definition dfs_init_master :: "ready \<Rightarrow> fsys \<Rightarrow> dfs_master \<Rightarrow> (ready \<times> dfs_master) res" where
  "dfs_init_master g s m =
     (let (ok, g1) = dfs_nrf_claim g in
      if \<not> ok then Inl OutOfBounds
      else bind_r (master_fat32_init g1 s) (\<lambda>(g2, f).
        let blank = \<lparr>ss_addr = 0, ss_status = CHUNK_DOWN, ss_storage = 0, ss_usage = 0, ss_cur_hb_id = 0\<rparr>;
            servers = (replicate DFS_MAX_CHUNK_SERVER blank)
              [0 := blank\<lparr>ss_addr := dfs_chunk_addr1\<rparr>, 1 := blank\<lparr>ss_addr := dfs_chunk_addr2\<rparr>,
               2 := blank\<lparr>ss_addr := dfs_chunk_addr3\<rparr>] in
        Inr (g2, m\<lparr>ma_fs := f, ma_cur_hb_id := 0, ma_num_act_server := 0, ma_chunkservers := servers,
                   ma_n_conns := 0, ma_client_addrs := (ma_client_addrs m)[0 := 0]\<rparr>)))"

definition master_try_assign_port :: "dfs_master \<Rightarrow> u32 \<Rightarrow> (nat option \<times> dfs_master) res" where
  "master_try_assign_port m client =
     bind_r (assign_port (ma_client_addrs m) (ma_n_conns m) client) (\<lambda>(r, addrs, k).
       Inr (r, m\<lparr>ma_client_addrs := addrs, ma_n_conns := k\<rparr>))"

section \<open>Heartbeats\<close>

text \<open>One turn of the inner loop, for server \<open>i\<close>: with interrupts off, then the send.\<close>

definition hb_server :: "dfs_master \<Rightarrow> net \<Rightarrow> dfs_pkt \<Rightarrow> nat \<Rightarrow> (dfs_master \<times> net) res" where
  "hb_server m n junk i =
     bind_r (arr_get (ma_chunkservers m) i) (\<lambda>cs.
     let (cs', act) =
           (if ma_cur_hb_id m - ss_cur_hb_id cs > DFS_HB_MAX_LAG then
              (cs\<lparr>ss_status := CHUNK_DOWN\<rparr>, ma_num_act_server m - 1)
            else if ss_status cs = CHUNK_DOWN then (cs\<lparr>ss_status := CHUNK_OK\<rparr>, ma_num_act_server m + 1)
            else (cs, ma_num_act_server m));
         p = set_hb_id (ma_cur_hb_id m) (set_hb_addr (ma_addr m) (set_op_code DFS_HB junk)) in
     Inr (m\<lparr>ma_chunkservers := (ma_chunkservers m)[i := cs'], ma_num_act_server := act\<rparr>,
          snd (nrf_send_noack n (ss_addr cs) p)))"

fun hb_servers :: "dfs_master \<Rightarrow> net \<Rightarrow> dfs_pkt \<Rightarrow> nat list \<Rightarrow> (dfs_master \<times> net) res" where
  "hb_servers m n junk [] = Inr (m, n)"
| "hb_servers m n junk (i # is) = bind_r (hb_server m n junk i) (\<lambda>(m', n'). hb_servers m' n' junk is)"

text \<open>One cycle of \<open>dfs_master_heartbeat_daemon_start\<close>.\<close>

definition hb_cycle :: "dfs_master \<Rightarrow> net \<Rightarrow> dfs_pkt \<Rightarrow> (dfs_master \<times> net) res" where
  "hb_cycle m n junk =
     (let m' = m\<lparr>ma_cur_hb_id := ma_cur_hb_id m + 1\<rparr> in
      hb_servers m' n junk [0..<unat (ma_num_chunkserver m)])"

definition master_hb :: "dfs_master \<Rightarrow> net \<Rightarrow> dfs_pkt \<Rightarrow> (dfs_master \<times> net) res" where
  "master_hb m n recv =
     bind_r (arr_get (ma_chunkservers m) (unat (port_id recv))) (\<lambda>cs.
     if ss_addr cs \<noteq> hb_addr recv then Inr (m, n)
     else Inr (m\<lparr>ma_chunkservers := (ma_chunkservers m)[unat (port_id recv) :=
            cs\<lparr>ss_cur_hb_id := hb_id recv, ss_usage := hb_usage recv, ss_storage := hb_storage recv\<rparr>]\<rparr>, n))"

section \<open>Choosing a server\<close>

fun pick_loop :: "chunkserver_status list \<Rightarrow> nat \<Rightarrow> int \<Rightarrow> nat \<Rightarrow> nat \<times> int" where
  "pick_loop [] i fake server_id = (server_id, fake)"
| "pick_loop (cs # css) i fake server_id =
     (if ss_status cs = CHUNK_OK then
        (if int i = fake then pick_loop css (Suc i) (-1) server_id
         else pick_loop css (Suc i) (int i) i)
      else pick_loop css (Suc i) fake server_id)"

text \<open>\<open>None\<close> is the code's -1.\<close>

definition dfs_master_get_server_for_new_chunk :: "dfs_master \<Rightarrow> (nat option \<times> dfs_master) res" where
  "dfs_master_get_server_for_new_chunk m =
     (if ma_num_act_server m = 0 then Inr (None, m)
      else if unat (ma_num_chunkserver m) > length (ma_chunkservers m) then Inl OutOfBounds
      else let (server_id, fake) = pick_loop (take (unat (ma_num_chunkserver m)) (ma_chunkservers m)) 0 (ma_fake_rand m) 0
           in Inr (Some server_id, m\<lparr>ma_fake_rand := fake\<rparr>))"

fun server_active_loop :: "chunkserver_status list \<Rightarrow> u32 \<Rightarrow> bool" where
  "server_active_loop [] addr = False"
| "server_active_loop (cs # css) addr =
     (if ss_addr cs = addr then ss_status cs = CHUNK_OK else server_active_loop css addr)"

definition is_server_active_by_addr :: "dfs_master \<Rightarrow> u32 \<Rightarrow> bool" where
  "is_server_active_by_addr m addr =
     server_active_loop (take (unat (ma_num_chunkserver m)) (ma_chunkservers m)) addr"

section \<open>Packet handlers\<close>

text \<open>A handler that answers client \<open>port_id\<close>; with a bad port it does nothing.\<close>

definition with_client :: "dfs_master \<Rightarrow> net \<Rightarrow> dfs_pkt \<Rightarrow> (u32 \<Rightarrow> (dfs_master \<times> net) res) \<Rightarrow> (dfs_master \<times> net) res" where
  "with_client m n recv k =
     (if unat (port_id recv) \<ge> DFS_MAX_CONN then Inr (m, n)
      else bind_r (arr_get (ma_client_addrs m) (unat (port_id recv))) k)"

definition master_cnct :: "dfs_master \<Rightarrow> net \<Rightarrow> dfs_pkt \<Rightarrow> dfs_pkt \<Rightarrow> (dfs_master \<times> net) res" where
  "master_cnct m n junk recv =
     (let client = conn_addr recv in
      bind_r (master_try_assign_port m client) (\<lambda>(port, m1).
      case port of
        None \<Rightarrow> Inr (m1, snd (nrf_send_noack n client (set_op_code DFS_REJ junk)))
      | Some i \<Rightarrow>
          let (ret, n') = nrf_send_noack n client (set_port_id (of_nat i) (set_op_code DFS_ACP junk)) in
          if ret = -1 \<or> ret \<noteq> int dfs_get_pkt_bytes then Inr (m1, n')
          else bind_r (master_fat32_client_init (ma_fs m1) (ucast (ma_client_num m1) + 1)) (\<lambda>(c, f).
            bind_r (arr_set (ma_client_fs m1) (unat (ma_client_num m1)) c) (\<lambda>cfs.
            Inr (m1\<lparr>ma_fs := f, ma_client_fs := cfs\<rparr>, n')))))"

text \<open>
  The listing goes out in pieces of 27 characters and a NUL, in the 28 bytes of \<open>placeholder\<close>, which
  overlap the status byte.
\<close>

function ls_loop :: "net \<Rightarrow> u32 \<Rightarrow> dfs_pkt \<Rightarrow> u8 list \<Rightarrow> net" where
  "ls_loop n client p txt =
     (if txt = [] then n
      else
        let p1 = set_status STATUS_SUCCESS p;
            p2 = (if length txt \<le> 27 then put_at (set_op_code DFS_END_LS p1) 4 (txt @ [0])
                  else put_at (set_op_code DFS_LS p1) 4 (take 27 txt @ [0]));
            (ret, n') = nrf_send_noack n client p2
        in if ret = -1 \<or> ret \<noteq> int dfs_get_pkt_bytes then n' else ls_loop n' client p2 (drop 27 txt))"
  by pat_completeness auto
termination by (relation "measure (\<lambda>(n, c, p, t). length t)") auto

declare ls_loop.simps [simp del]

definition master_ls :: "dfs_master \<Rightarrow> net \<Rightarrow> dfs_pkt \<Rightarrow> dfs_pkt \<Rightarrow> (dfs_master \<times> net) res" where
  "master_ls m n junk recv = with_client m n recv (\<lambda>client.
     bind_r (cstr_of (placeholder recv)) (\<lambda>dirname.
     bind_r (master_fat32_listdir (ma_fs m) dirname (replicate 8192 0)) (\<lambda>(res, data).
     bind_r (cstr_of data) (\<lambda>txt.
     if txt = [] \<or> \<not> res then
       let p = (set_op_code DFS_END_LS (set_status (if res then STATUS_SUCCESS else STATUS_FAILED) junk))[4 := 0] in
       Inr (m, snd (nrf_send_noack n client p))
     else Inr (m, ls_loop n client junk txt)))))"

definition master_cd :: "dfs_master \<Rightarrow> net \<Rightarrow> dfs_pkt \<Rightarrow> dfs_pkt \<Rightarrow> (dfs_master \<times> net) res" where
  "master_cd m n junk recv = with_client m n recv (\<lambda>client.
     bind_r (cstr_of (placeholder recv)) (\<lambda>dirname.
     bind_r (master_fat32_changedir (ma_fs m) dirname) (\<lambda>(ok, f).
     let p = set_status (if ok then STATUS_SUCCESS else STATUS_FAILED) (set_op_code DFS_CD junk) in
     Inr (m\<lparr>ma_fs := f\<rparr>, snd (nrf_send_ack n client p)))))"

text \<open>Reading a chunk's place: the first replica, whether its server is active or not.\<close>

definition master_rd :: "dfs_master \<Rightarrow> net \<Rightarrow> dfs_pkt \<Rightarrow> dfs_pkt \<Rightarrow> (dfs_master \<times> net) res" where
  "master_rd m n junk recv = with_client m n recv (\<lambda>client.
     bind_r (cstr_of (md_file_name recv)) (\<lambda>fname.
     let p0 = set_op_code DFS_RD junk in
     bind_r (master_fat32_get_chunk_num (ma_fs m) fname) (\<lambda>chunk_num.
     bind_r (if chunk_id_sqn recv \<ge> chunk_num then
               (if chunk_id_sqn recv = 0 then Inr (set_md_nbytes 0 (set_status STATUS_SUCCESS p0))
                else Inr (set_status STATUS_FAILED p0))
             else
               bind_r (master_fat32_get_chunks (ma_fs m) fname (chunk_id_sqn recv)) (\<lambda>handle.
               let server = chunk_server_addrs handle ! 0 in
               if server = -1 then Inr (set_status STATUS_FAILED p0)
               else Inr (set_md_nbytes 1 (set_md_file_name (md_file_name recv) (set_chunk_server_addr server
                      (set_chunk_id_sqn (cm_chunk_id handle) (set_status STATUS_SUCCESS p0))))))) (\<lambda>p.
     Inr (m, snd (nrf_send_ack n client p))))))"

text \<open>
  The file name of \<open>DFS_CR\<close> and \<open>DFS_RM\<close>: \<open>nbytes\<close> bytes are copied into a buffer of 13; more than 12 leave
  the packet.
\<close>

definition copied_name :: "dfs_pkt \<Rightarrow> cstr res" where
  "copied_name recv =
     (if unat (md_nbytes recv) > MAX_FILE_NAME then Inl OutOfBounds
      else Inr (c_string (take (unat (md_nbytes recv)) (md_file_name recv))))"

definition master_cr :: "dfs_master \<Rightarrow> net \<Rightarrow> dfs_pkt \<Rightarrow> dfs_pkt \<Rightarrow> (dfs_master \<times> net) res" where
  "master_cr m n junk recv = with_client m n recv (\<lambda>client.
     bind_r (copied_name recv) (\<lambda>fname.
     bind_r (master_fat32_create (ma_fs m) fname (46 \<notin> set fname)) (\<lambda>(_, f).
     let p = set_md_file_name (md_file_name recv) (set_status STATUS_SUCCESS (set_op_code DFS_CR junk)) in
     Inr (m\<lparr>ma_fs := f\<rparr>, snd (nrf_send_ack n client p)))))"

definition master_rm :: "dfs_master \<Rightarrow> net \<Rightarrow> dfs_pkt \<Rightarrow> dfs_pkt \<Rightarrow> (dfs_master \<times> net) res" where
  "master_rm m n junk recv = with_client m n recv (\<lambda>client.
     bind_r (copied_name recv) (\<lambda>fname.
     bind_r (master_fat32_delete (ma_fs m) fname) (\<lambda>(_, f).
     let p = set_md_file_name (md_file_name recv) (set_status STATUS_SUCCESS (set_op_code DFS_RM junk)) in
     Inr (m\<lparr>ma_fs := f\<rparr>, snd (nrf_send_ack n client p)))))"

text \<open>The place of a chunk to write: an existing one, a new one on a chosen server, or none.\<close>

definition wr_place :: "dfs_master \<Rightarrow> u8 list \<Rightarrow> cstr \<Rightarrow> u32 \<Rightarrow> ((u32 \<times> u32) option \<times> dfs_master) res" where
  "wr_place m pad fname chunk_sqn =
     bind_r (master_fat32_get_chunk_num (ma_fs m) fname) (\<lambda>chunk_num.
     if chunk_sqn < chunk_num then
       bind_r (master_fat32_get_chunks (ma_fs m) fname chunk_sqn) (\<lambda>handle.
       Inr (Some (chunk_num, chunk_server_addrs handle ! 0), m))
     else if chunk_sqn = chunk_num then
       bind_r (dfs_master_get_server_for_new_chunk m) (\<lambda>(server, m1).
       case server of
         None \<Rightarrow> Inr (None, m1)
       | Some i \<Rightarrow>
           bind_r (arr_get (ma_client_fs m1) (unat (ma_client_num m1))) (\<lambda>c.
           bind_r (arr_get (ma_chunkservers m1) i) (\<lambda>cs.
           bind_r (master_fat32_add_chunk_server (ma_fs m1) pad fname (cl_chunk_id c) chunk_num (ss_addr cs)) (\<lambda>f.
           Inr (Some (cl_chunk_id c, ss_addr cs),
                m1\<lparr>ma_fs := f, ma_client_fs := (ma_client_fs m1)[unat (ma_client_num m1) :=
                     c\<lparr>cl_chunk_id := cl_chunk_id c + 1\<rparr>]\<rparr>)))))
     else Inr (None, m))"

definition master_wr :: "dfs_master \<Rightarrow> net \<Rightarrow> u8 list \<Rightarrow> dfs_pkt \<Rightarrow> dfs_pkt \<Rightarrow> (dfs_master \<times> net) res" where
  "master_wr m n pad junk recv = with_client m n recv (\<lambda>client.
     bind_r (cstr_of (md_file_name recv)) (\<lambda>fname.
     bind_r (wr_place m pad fname (chunk_id_sqn recv)) (\<lambda>(place, m1).
     let p0 = set_op_code DFS_WR junk;
         p = (case place of
                None \<Rightarrow> set_status STATUS_FAILED p0
              | Some (chunk_id, server) \<Rightarrow> set_md_file_name (md_file_name recv) (set_chunk_server_addr server
                  (set_chunk_id_sqn chunk_id (set_status STATUS_SUCCESS p0)))) in
     Inr (m1, snd (nrf_send_ack n client p)))))"

section \<open>The event loop\<close>

text \<open>
  The event loop and the heartbeat daemon are two threads over the same state. An event is a receive
  (with the stack contents its handler sees), the daemon's start of a cycle, or its critical section
  for one server; \<open>DFS_SD\<close> ends the loop.
\<close>

datatype master_event = MRecv rx dfs_pkt "u8 list" | MTick | MBeat nat dfs_pkt

definition master_step :: "dfs_master \<Rightarrow> net \<Rightarrow> rx \<Rightarrow> dfs_pkt \<Rightarrow> u8 list \<Rightarrow> (bool \<times> dfs_master \<times> net) res" where
  "master_step m n r junk pad =
     (let go = (\<lambda>x. bind_r x (\<lambda>(m', n'). Inr (False, m', n'))) in
      case r of
        RxTimeout \<Rightarrow> Inr (False, m, n)
      | RxShort \<Rightarrow> Inr (False, m, n)
      | RxPkt recv \<Rightarrow>
          let opc = op_code recv in
          if opc = DFS_CNCT then go (master_cnct m n junk recv)
          else if opc = DFS_HB then go (master_hb m n recv)
          else if opc = DFS_LS then go (master_ls m n junk recv)
          else if opc = DFS_CD then go (master_cd m n junk recv)
          else if opc = DFS_RD then go (master_rd m n junk recv)
          else if opc = DFS_END_RD \<or> opc = DFS_RETRY_RD \<or> opc = DFS_CR then go (master_cr m n junk recv)
          else if opc = DFS_RM then go (master_rm m n junk recv)
          else if opc = DFS_WR then go (master_wr m n pad junk recv)
          else if opc = DFS_END_WR \<or> opc = DFS_RETRY_WR \<or> opc = DFS_COMMIT_WR then Inr (False, m, n)
          else if opc = DFS_SD then Inr (True, m, n)
          else Inl (Panic ''not reached''))"

fun dfs_master_main_start :: "dfs_master \<Rightarrow> net \<Rightarrow> master_event list \<Rightarrow> (dfs_master \<times> net) res" where
  "dfs_master_main_start m n [] = Inr (m, n)"
| "dfs_master_main_start m n (MRecv r junk pad # es) =
     bind_r (master_step m n r junk pad) (\<lambda>(shutdown, m', n').
       if shutdown then Inr (m', n') else dfs_master_main_start m' n' es)"
| "dfs_master_main_start m n (MTick # es) =
     dfs_master_main_start (m\<lparr>ma_cur_hb_id := ma_cur_hb_id m + 1\<rparr>) n es"
| "dfs_master_main_start m n (MBeat i junk # es) =
     bind_r (hb_server m n junk i) (\<lambda>(m', n'). dfs_master_main_start m' n' es)"

section \<open>Heartbeats keep the server states\<close>

text \<open>The state a cycle gives to a server: active as long as its last answer is at most three cycles old.\<close>

definition lagging :: "u32 \<Rightarrow> chunkserver_status \<Rightarrow> bool" where
  "lagging cur cs \<longleftrightarrow> cur - ss_cur_hb_id cs > DFS_HB_MAX_LAG"

definition beat :: "u32 \<Rightarrow> chunkserver_status \<Rightarrow> chunkserver_status" where
  "beat cur cs = cs\<lparr>ss_status := (if lagging cur cs then CHUNK_DOWN else CHUNK_OK)\<rparr>"

definition hb_packet :: "dfs_master \<Rightarrow> dfs_pkt \<Rightarrow> dfs_pkt" where
  "hb_packet m junk = set_hb_id (ma_cur_hb_id m) (set_hb_addr (ma_addr m) (set_op_code DFS_HB junk))"

lemma beat_active: "\<not> lagging cur cs \<Longrightarrow> ss_status cs = CHUNK_OK \<Longrightarrow> beat cur cs = cs"
  by (cases cs) (simp add: beat_def)

text \<open>The age of a server's last answer, and the change of the number of active servers.\<close>

definition answer_age :: "u32 \<Rightarrow> chunkserver_status \<Rightarrow> int" where
  "answer_age cur cs = (uint cur - uint (ss_cur_hb_id cs)) mod 2 ^ 32"

lemma lagging_age: "lagging cur cs \<longleftrightarrow> answer_age cur cs > 3"
  by (simp add: lagging_def answer_age_def DFS_HB_MAX_LAG_def word_less_def uint_word_ariths)

definition beat_act :: "u32 \<Rightarrow> chunkserver_status \<Rightarrow> u32 \<Rightarrow> u32" where
  "beat_act cur cs act = (if lagging cur cs then act - 1 else if ss_status cs = CHUNK_DOWN then act + 1 else act)"

lemma fold_beat_act:
  "fold (beat_act cur) css act = act - of_nat (length (filter (lagging cur) css))
     + of_nat (length (filter (\<lambda>cs. \<not> lagging cur cs \<and> ss_status cs = CHUNK_DOWN) css))"
  by (induction css arbitrary: act) (simp_all add: beat_act_def)

lemma hb_server_ok:
  assumes "i < length (ma_chunkservers m)"
  shows "hb_server m n junk i =
    Inr (m\<lparr>ma_chunkservers := (ma_chunkservers m)[i := beat (ma_cur_hb_id m) (ma_chunkservers m ! i)],
           ma_num_act_server := beat_act (ma_cur_hb_id m) (ma_chunkservers m ! i) (ma_num_act_server m)\<rparr>,
         n\<lparr>sent := sent n @ [(ss_addr (ma_chunkservers m ! i), hb_packet m junk)]\<rparr>)"
proof (cases "ss_status (ma_chunkservers m ! i) = CHUNK_OK \<and> \<not> lagging (ma_cur_hb_id m) (ma_chunkservers m ! i)")
  case True
  then show ?thesis
    using assms beat_active by (simp add: hb_server_def Let_def lagging_def hb_packet_def beat_act_def)
next
  case False
  then show ?thesis
    using assms by (cases "ss_status (ma_chunkservers m ! i)") (auto simp: hb_server_def Let_def beat_def lagging_def hb_packet_def beat_act_def)
qed

definition beats :: "u32 \<Rightarrow> nat list \<Rightarrow> chunkserver_status list \<Rightarrow> chunkserver_status list" where
  "beats cur is c = map (\<lambda>k. if k \<in> set is then beat cur (c ! k) else c ! k) [0..<length c]"

lemma beats_Nil [simp]: "beats cur [] c = c"
  by (simp add: beats_def map_nth)

lemma beats_Cons:
  "i \<notin> set is \<Longrightarrow> i < length c \<Longrightarrow> beats cur is (c[i := beat cur (c ! i)]) = beats cur (i # is) c"
  by (auto simp: beats_def nth_list_update)

lemma nth_beats: "k < length c \<Longrightarrow> k \<in> set is \<Longrightarrow> beats cur is c ! k = beat cur (c ! k)"
  by (simp add: beats_def)

definition beat_sends :: "dfs_master \<Rightarrow> dfs_pkt \<Rightarrow> nat list \<Rightarrow> (u32 \<times> dfs_pkt) list" where
  "beat_sends m junk is = map (\<lambda>i. (ss_addr (ma_chunkservers m ! i), hb_packet m junk)) is"

lemma beat_sends_other:
  "i \<notin> set is \<Longrightarrow> beat_sends (m\<lparr>ma_chunkservers := (ma_chunkservers m)[i := x], ma_num_act_server := act\<rparr>) junk is
    = beat_sends m junk is"
proof -
  assume "i \<notin> set is"
  then have "(ma_chunkservers m)[i := x] ! j = ma_chunkservers m ! j" if "j \<in> set is" for j
    using that by (intro nth_list_update_neq) blast
  then show ?thesis by (simp add: beat_sends_def hb_packet_def)
qed

lemma hb_servers_ok:
  "distinct is \<Longrightarrow> \<forall>i \<in> set is. i < length (ma_chunkservers m) \<Longrightarrow>
   hb_servers m n junk is =
     Inr (m\<lparr>ma_chunkservers := beats (ma_cur_hb_id m) is (ma_chunkservers m),
            ma_num_act_server := fold (beat_act (ma_cur_hb_id m)) (map ((!) (ma_chunkservers m)) is) (ma_num_act_server m)\<rparr>,
          n\<lparr>sent := sent n @ beat_sends m junk is\<rparr>)"
proof (induction "is" arbitrary: m n)
  case Nil
  show ?case by (simp add: beat_sends_def)
next
  case (Cons i "is")
  let ?c = "ma_chunkservers m" and ?cur = "ma_cur_hb_id m"
  have i: "i < length ?c" "i \<notin> set is" using Cons.prems by auto
  define m1 where "m1 = m\<lparr>ma_chunkservers := ?c[i := beat ?cur (?c ! i)], ma_num_act_server := beat_act ?cur (?c ! i) (ma_num_act_server m)\<rparr>"
  have same: "map ((!) (ma_chunkservers m1)) is = map ((!) ?c) is" "beat_sends m1 junk is = beat_sends m junk is"
    "ma_cur_hb_id m1 = ?cur" "beats ?cur is (ma_chunkservers m1) = beats ?cur (i # is) ?c"
    using i(2) beat_sends_other [OF i(2)] beats_Cons [OF i(2,1)] by (auto simp: m1_def intro!: nth_list_update_neq)
  let ?n = "n\<lparr>sent := sent n @ [(ss_addr (?c ! i), hb_packet m junk)]\<rparr>"
  have "hb_servers m1 ?n junk is =
      Inr (m1\<lparr>ma_chunkservers := beats ?cur (i # is) ?c, ma_num_act_server := fold (beat_act ?cur) (map ((!) ?c) is) (ma_num_act_server m1)\<rparr>,
        ?n\<lparr>sent := sent ?n @ beat_sends m junk is\<rparr>)"
    using Cons.IH [of m1 ?n, unfolded same] Cons.prems by (simp add: m1_def)
  then show ?case using hb_server_ok [OF i(1), of n junk] by (simp add: m1_def beat_sends_def)
qed

lemma beats_front: "k \<le> length c \<Longrightarrow> beats cur [0..<k] c = map (beat cur) (take k c) @ drop k c"
  by (intro nth_equalityI) (auto simp: beats_def nth_append)

lemma hb_cycle_ok:
  assumes "unat (ma_num_chunkserver m) \<le> length (ma_chunkservers m)"
  shows "hb_cycle m n junk = (let k = unat (ma_num_chunkserver m); cur = ma_cur_hb_id m + 1; css = take k (ma_chunkservers m) in
    Inr (m\<lparr>ma_cur_hb_id := cur, ma_chunkservers := map (beat cur) css @ drop k (ma_chunkservers m),
           ma_num_act_server := fold (beat_act cur) css (ma_num_act_server m)\<rparr>,
      n\<lparr>sent := sent n @ map (\<lambda>cs. (ss_addr cs, hb_packet (m\<lparr>ma_cur_hb_id := cur\<rparr>) junk)) css\<rparr>))"
proof -
  let ?k = "unat (ma_num_chunkserver m)" and ?c = "ma_chunkservers m"
  have "map ((!) ?c) [0..<?k] = take ?k ?c" using assms by (intro nth_equalityI) auto
  moreover from this have "beat_sends (m\<lparr>ma_cur_hb_id := ma_cur_hb_id m + 1\<rparr>) junk [0..<?k]
      = map (\<lambda>cs. (ss_addr cs, hb_packet (m\<lparr>ma_cur_hb_id := ma_cur_hb_id m + 1\<rparr>) junk)) (take ?k ?c)"
    using assms by (intro nth_equalityI) (auto simp: beat_sends_def)
  ultimately show ?thesis
    using hb_servers_ok [of "[0..<?k]" "m\<lparr>ma_cur_hb_id := ma_cur_hb_id m + 1\<rparr>" n junk] assms
    by (simp add: hb_cycle_def Let_def beats_front)
qed

section \<open>The chosen server\<close>

definition active_at :: "chunkserver_status list \<Rightarrow> nat \<Rightarrow> nat \<Rightarrow> bool" where
  "active_at css i k \<longleftrightarrow> i \<le> k \<and> k < i + length css \<and> ss_status (css ! (k - i)) = CHUNK_OK"

lemma active_at_Cons: "active_at (cs # css) i k \<longleftrightarrow> k = i \<and> ss_status cs = CHUNK_OK \<or> active_at css (Suc i) k"
proof (cases "k = i")
  case False
  then have "i \<le> k \<longleftrightarrow> Suc i \<le> k" by auto
  moreover have "(cs # css) ! (k - i) = css ! (k - Suc i)" if "Suc i \<le> k"
    using that by (simp add: nth_Cons')
  ultimately show ?thesis using False by (auto simp: active_at_def)
qed (auto simp: active_at_def)

lemma pick_keeps: "fst (pick_loop css i fake sid) = sid \<or> active_at css i (fst (pick_loop css i fake sid))"
  by (induction css i fake sid rule: pick_loop.induct) (auto simp: active_at_Cons)

lemma pick_fresh:
  "fake < int i \<Longrightarrow> active_at css i k \<Longrightarrow> active_at css i (fst (pick_loop css i fake sid))"
proof (induction css i fake sid rule: pick_loop.induct)
  case (2 cs css i fake sid)
  then show ?case using pick_keeps [of css "Suc i" "int i" i] by (auto simp: active_at_Cons)
qed (auto simp: active_at_def)

lemma pick_two:
  "active_at css i a \<Longrightarrow> active_at css i b \<Longrightarrow> a \<noteq> b \<Longrightarrow> active_at css i (fst (pick_loop css i fake sid))"
proof (induction css i fake sid rule: pick_loop.induct)
  case (2 cs css i fake sid)
  show ?case
  proof (cases "ss_status cs = CHUNK_OK")
    case True
    obtain c where "active_at css (Suc i) c" using "2.prems" by (auto simp: active_at_Cons)
    then show ?thesis
      using True pick_fresh [of "-1" "Suc i" css] pick_keeps [of css "Suc i" "int i" i] by (auto simp: active_at_Cons)
  next
    case False
    then show ?thesis using 2 by (auto simp: active_at_Cons)
  qed
qed (auto simp: active_at_def)

section \<open>Placing a chunk\<close>

text \<open>A packet that names a file of maps, and the reply that names a chunk's place.\<close>

definition place_reply :: "u8 \<Rightarrow> dfs_pkt \<Rightarrow> dfs_pkt \<Rightarrow> u32 \<Rightarrow> u32 \<Rightarrow> dfs_pkt" where
  "place_reply opc junk recv chunk_id server = set_md_file_name (md_file_name recv) (set_chunk_server_addr server
     (set_chunk_id_sqn chunk_id (set_status STATUS_SUCCESS (set_op_code opc junk))))"

lemma place_reply_fields:
  assumes "length junk = 32" "length recv = 32"
  shows "op_code (place_reply opc junk recv c a) = opc" "status (place_reply opc junk recv c a) = STATUS_SUCCESS"
    "chunk_id_sqn (place_reply opc junk recv c a) = c" "chunk_server_addr (place_reply opc junk recv c a) = a"
  using assms by (simp_all add: place_reply_def field_get field_set set_md_file_name_def MAX_FILE_NAME_def)

lemma rd_place:
  assumes "mf_holds (ma_fs m) M" "M g = Some (maps_bytes xs)" "list_all map_wf xs" "cstr_of (md_file_name p) = Inr g"
    "unat (chunk_id_sqn p) < length xs" "chunk_server_addrs (snd (xs ! unat (chunk_id_sqn p))) ! 0 \<noteq> -1"
    "unat (port_id p) < DFS_MAX_CONN" "length (ma_client_addrs m) = DFS_MAX_CONN"
  shows "master_rd m n junk p = Inr (m, n\<lparr>sent := sent n @ [(ma_client_addrs m ! unat (port_id p),
    set_md_nbytes 1 (place_reply DFS_RD junk p (cm_chunk_id (snd (xs ! unat (chunk_id_sqn p))))
      (chunk_server_addrs (snd (xs ! unat (chunk_id_sqn p))) ! 0)))]\<rparr>)"
proof -
  have "20 * length xs < 4294967296" using maps_file_read [OF assms(1-3)] by blast
  then have u: "unat (of_nat (length xs) :: u32) = length xs" by (intro unat_of_nat_u32) linarith
  have "\<not> of_nat (length xs) \<le> chunk_id_sqn p" using assms(5) u by (simp add: word_le_nat_alt)
  then show ?thesis
    using get_chunk_num_ok [OF assms(1-3)] get_chunks_ok [OF assms(1-3,5)] assms(4,6-8)
    by (simp add: master_rd_def with_client_def Let_def place_reply_def)
qed

lemma wr_new_place:
  assumes "mf_holds (ma_fs m) M" "M g = Some (maps_bytes xs)" "list_all map_wf xs"
    "unat sqn = length xs" "length pad = 3"
    "room_for (fs_vol (mf_fsys (ma_fs m))) (20 * length xs) (20 * Suc (length xs))"
    "dfs_master_get_server_for_new_chunk m = Inr (Some i, m1)" "i < length (ma_chunkservers m)"
    "unat (ma_client_num m) < length (ma_client_fs m)"
  shows "\<exists>f. wr_place m pad g sqn = Inr (Some (cl_chunk_id (ma_client_fs m ! unat (ma_client_num m)), ss_addr (ma_chunkservers m ! i)),
      m1\<lparr>ma_fs := f, ma_client_fs := (ma_client_fs m)[unat (ma_client_num m) :=
         (ma_client_fs m ! unat (ma_client_num m))\<lparr>cl_chunk_id := cl_chunk_id (ma_client_fs m ! unat (ma_client_num m)) + 1\<rparr>]\<rparr>)
    \<and> mf_holds f (M(g \<mapsto> maps_bytes (xs @ [(pad, single_replica (cl_chunk_id (ma_client_fs m ! unat (ma_client_num m))) (ss_addr (ma_chunkservers m ! i)))])))"
proof -
  let ?c = "ma_client_fs m ! unat (ma_client_num m)" and ?a = "ss_addr (ma_chunkservers m ! i)"
  obtain fr where m1: "m1 = m\<lparr>ma_fake_rand := fr\<rparr>"
    using assms(7) by (auto simp: dfs_master_get_server_for_new_chunk_def case_prod_beta Let_def split: if_splits)
  have "20 * length xs < 4294967296" using maps_file_read [OF assms(1-3)] by blast
  then have u: "unat (of_nat (length xs) :: u32) = length xs" by (intro unat_of_nat_u32) linarith
  have eq: "sqn = of_nat (length xs)" using assms(4) u by (simp add: unat_eq_iff)
  obtain f where f: "master_fat32_add_chunk_server (ma_fs m) pad g (cl_chunk_id ?c) sqn ?a = Inr f"
    "mf_holds f (M(g \<mapsto> maps_bytes (xs @ [(pad, single_replica (cl_chunk_id ?c) ?a)])))"
    using add_chunk_server_ok [OF assms(1-6)] by blast
  then show ?thesis
    using get_chunk_num_ok [OF assms(1-3)] assms(7-9) eq m1 by (intro exI [of _ f]) (simp add: wr_place_def)
qed

end
