(* ===== verification/Dfs_Client.thy ===== *)
theory Dfs_Client
  imports Dfs_Packet Fs_Apis
begin

text \<open>
  \<open>dfs/dfs-client.c\<close>: the requests a client sends to the master and to the chunk servers, and its
  handling of the replies. \<open>junk\<close> is the content of the uninitialised packet on the stack.
\<close>

section \<open>State\<close>

text \<open>\<open>dfs_connection_t\<close> with the address of the client it points to.\<close>

record dfs_connection =
  co_port :: u32
  co_server :: u32
  co_client :: u32

text \<open>
  What the radio delivers to the client, in order. Behind the end of the list there is silence: every
  receive times out.
\<close>

fun radio_read :: "rx list \<Rightarrow> rx \<times> rx list" where
  "radio_read [] = (RxTimeout, [])"
| "radio_read (r # rs) = (r, rs)"

text \<open>\<open>dfs_init_client\<close>: the client's address; without a radio it faults at the first use, reported at once.\<close>

definition dfs_init_client :: "ready \<Rightarrow> (ready \<times> u32) res" where
  "dfs_init_client g = (let (ok, g') = dfs_nrf_claim g in if ok then Inr (g', default_client_addr) else Inl OutOfBounds)"

section \<open>Requests to the master\<close>

definition dfs_client_shutdown_server :: "dfs_connection \<Rightarrow> net \<Rightarrow> dfs_pkt \<Rightarrow> int \<times> net" where
  "dfs_client_shutdown_server conn n junk =
     (let (ret, n') = nrf_send_noack n (co_server conn) (set_conn_addr (co_client conn) (set_op_code DFS_SD junk))
      in (if ret = -1 then -1 else 0, n'))"

text \<open>
  The connect loop repeats the request after every timeout. Any packet ends it, whatever its code; only
  \<open>DFS_ACP\<close> sets the port. A short receive leaves the buffer undefined.
\<close>

fun connect_loop :: "dfs_connection \<Rightarrow> net \<Rightarrow> dfs_pkt \<Rightarrow> rx list \<Rightarrow> (int \<times> dfs_connection \<times> net \<times> rx list) res" where
  "connect_loop conn n p [] = Inl Diverges"
| "connect_loop conn n p (RxTimeout # rs) = connect_loop conn (snd (nrf_send_noack n (co_server conn) p)) p rs"
| "connect_loop conn n p (RxShort # rs) = Inl OutOfBounds"
| "connect_loop conn n p (RxPkt q # rs) =
     (if op_code q = DFS_ACP then Inr (0, conn\<lparr>co_port := ucast (port_id q)\<rparr>, n, rs)
      else Inr (0, conn, snd (nrf_send_noack n (co_server conn) p), rs))"

definition dfs_client_try_connect :: "dfs_connection \<Rightarrow> net \<Rightarrow> dfs_pkt \<Rightarrow> rx list \<Rightarrow>
    (int \<times> dfs_connection \<times> net \<times> rx list) res" where
  "dfs_client_try_connect conn n junk rs =
     (let p = set_conn_addr (co_client conn) (set_op_code DFS_CNCT junk)
      in connect_loop conn (snd (nrf_send_noack n (co_server conn) p)) p rs)"

text \<open>The file name in a request: at most 12 bytes, padded with zeros, and its length.\<close>

definition put_name :: "dfs_pkt \<Rightarrow> cstr \<Rightarrow> u32 \<Rightarrow> dfs_pkt res" where
  "put_name p fname name_len =
     bind_r (assert_r (name_len \<le> 12)) (\<lambda>_.
     if unat name_len > Suc (length fname) then Inl OutOfBounds
     else let nm = take (unat name_len) (fname @ [0]) in
       Inr (set_md_nbytes name_len (set_md_file_name nm (set_md_file_name (replicate MAX_FILE_NAME 0) p))))"

text \<open>A request whose reply must have the same code; \<open>None\<close> is the error return.\<close>

definition meta_reply :: "u8 \<Rightarrow> rx list \<Rightarrow> dfs_pkt option \<times> rx list" where
  "meta_reply opc rs = (case radio_read rs of
     (RxPkt q, rs') \<Rightarrow> (if op_code q \<noteq> opc \<or> status q = STATUS_FAILED then None else Some q, rs')
   | (_, rs') \<Rightarrow> (None, rs'))"

definition dfs_client_create :: "dfs_connection \<Rightarrow> net \<Rightarrow> dfs_pkt \<Rightarrow> rx list \<Rightarrow> cstr \<Rightarrow> u32 \<Rightarrow> (u32 \<times> net \<times> rx list) res" where
  "dfs_client_create conn n junk rs fname name_len =
     bind_r (put_name (set_port_id (ucast (co_port conn)) (set_op_code DFS_CR junk)) fname name_len) (\<lambda>p.
     let (ret, n') = nrf_send_noack n (co_server conn) p in
     if ret = -1 then Inr (-1, n', rs)
     else let (q, rs') = meta_reply DFS_CR rs in
       Inr (case q of None \<Rightarrow> -1 | Some q \<Rightarrow> chunk_id_sqn q, n', rs'))"

definition dfs_client_delete :: "dfs_connection \<Rightarrow> net \<Rightarrow> dfs_pkt \<Rightarrow> rx list \<Rightarrow> cstr \<Rightarrow> u32 \<Rightarrow> (u32 \<times> net \<times> rx list) res" where
  "dfs_client_delete conn n junk rs fname name_len =
     bind_r (put_name (set_port_id (ucast (co_port conn)) (set_op_code DFS_RM junk)) fname name_len) (\<lambda>p.
     let (ret, n') = nrf_send_noack n (co_server conn) p in
     if ret = -1 then Inr (-1, n', rs)
     else let (q, rs') = meta_reply DFS_RM rs in
       Inr (case q of None \<Rightarrow> -1 | Some q \<Rightarrow> chunk_id_sqn q, n', rs'))"

text \<open>The directory name fills \<open>placeholder\<close>; with its NUL it must fit into 28 bytes.\<close>

definition put_dirname :: "dfs_pkt \<Rightarrow> cstr \<Rightarrow> dfs_pkt res" where
  "put_dirname p dirname = (if length dirname + 1 > 28 then Inl OutOfBounds else Inr (put_at p 4 (dirname @ [0])))"

definition dfs_client_change_directory :: "dfs_connection \<Rightarrow> net \<Rightarrow> dfs_pkt \<Rightarrow> rx list \<Rightarrow> cstr \<Rightarrow> (int \<times> net \<times> rx list) res" where
  "dfs_client_change_directory conn n junk rs dirname =
     bind_r (put_dirname (set_port_id (ucast (co_port conn)) (set_op_code DFS_CD junk)) dirname) (\<lambda>p.
     let (ret, n') = nrf_send_noack n (co_server conn) p in
     if ret = -1 then Inr (0, n', rs)
     else case radio_read rs of
       (RxPkt q, rs') \<Rightarrow>
         Inr (if op_code q = DFS_CD then (if status q = STATUS_SUCCESS then 1 else 2) else 0, n', rs')
     | (_, rs') \<Rightarrow> Inr (0, n', rs'))"

text \<open>The listing is printed piece by piece; the result carries the characters printed.\<close>

fun listing_loop :: "u8 list \<Rightarrow> rx list \<Rightarrow> (int \<times> u8 list \<times> rx list) res" where
  "listing_loop out [] = Inr (0, out, [])"
| "listing_loop out (RxTimeout # rs) = Inr (0, out, rs)"
| "listing_loop out (RxShort # rs) = Inr (0, out, rs)"
| "listing_loop out (RxPkt q # rs) =
     (if op_code q = DFS_LS then bind_r (cstr_of (placeholder q)) (\<lambda>t. listing_loop (out @ t) rs)
      else if op_code q = DFS_END_LS then
        bind_r (cstr_of (placeholder q)) (\<lambda>t. Inr (if status q = STATUS_SUCCESS then 1 else 2, out @ t, rs))
      else listing_loop out rs)"

definition dfs_client_listdir :: "dfs_connection \<Rightarrow> net \<Rightarrow> dfs_pkt \<Rightarrow> rx list \<Rightarrow> cstr \<Rightarrow> (int \<times> u8 list \<times> net \<times> rx list) res" where
  "dfs_client_listdir conn n junk rs dirname =
     bind_r (put_dirname (set_port_id (ucast (co_port conn)) (set_op_code DFS_LS junk)) dirname) (\<lambda>p.
     let (ret, n') = nrf_send_noack n (co_server conn) p in
     if ret = -1 then Inr (0, [], n', rs)
     else bind_r (listing_loop [] rs) (\<lambda>(r, out, rs'). Inr (r, out, n', rs')))"

section \<open>Writing a chunk\<close>

text \<open>The request for a place is repeated until the radio takes it; a run that never ends has no value.\<close>

partial_function (option) send_until :: "net \<Rightarrow> u32 \<Rightarrow> dfs_pkt \<Rightarrow> net option" where
  "send_until n a p = (let (ret, n') = nrf_send_noack n a p in if ret = -1 then send_until n' a p else Some n')"

definition dfs_client_write_chunk_meta :: "dfs_connection \<Rightarrow> net \<Rightarrow> dfs_pkt \<Rightarrow> rx list \<Rightarrow> cstr \<Rightarrow> u32 \<Rightarrow> u32 \<Rightarrow>
    (dfs_pkt option \<times> net \<times> rx list) res" where
  "dfs_client_write_chunk_meta conn n junk rs fname name_len chunk_sqn =
     bind_r (put_name (set_chunk_id_sqn chunk_sqn (set_port_id (ucast (co_port conn)) (set_op_code DFS_WR junk)))
       fname name_len) (\<lambda>p.
     case send_until n (co_server conn) p of
       None \<Rightarrow> Inl Diverges
     | Some n' \<Rightarrow> let (q, rs') = meta_reply DFS_WR rs in Inr (q, n', rs'))"

definition wr_packet :: "dfs_pkt \<Rightarrow> u8 \<Rightarrow> u32 \<Rightarrow> u32 \<Rightarrow> u8 \<Rightarrow> u8 list \<Rightarrow> dfs_pkt" where
  "wr_packet junk port chunk_id offset opc d =
     set_d_data (d @ replicate (16 - length d) 0) (set_d_offset offset (set_chunk_id_sqn chunk_id
       (set_port_id port (set_op_code opc junk))))"

text \<open>
  The loop sends the data in pieces of 16 bytes; the last one has the code \<open>DFS_END_WR\<close>. As in the server's
  loop a wrap of \<open>bytes_sent\<close> starts over and counts as divergent. \<open>True\<close> is that all pieces were sent.
\<close>

function wr_send_loop :: "net \<Rightarrow> dfs_pkt \<Rightarrow> dfs_connection \<Rightarrow> u32 \<Rightarrow> u8 list \<Rightarrow> u32 \<Rightarrow> u32 \<Rightarrow> (bool \<times> net) res" where
  "wr_send_loop n junk conn chunk_id chunk_data len bytes_sent =
     (if bytes_sent < len then
        let fin = len - bytes_sent \<le> CHUNK_SERVER_PKT_SIZE;
            pkt_nbytes = (if fin then len - bytes_sent else CHUNK_SERVER_PKT_SIZE) in
        if unat bytes_sent + unat pkt_nbytes > length chunk_data then Inl OutOfBounds
        else
          let d = take (unat pkt_nbytes) (drop (unat bytes_sent) chunk_data);
              (ret, n') = nrf_send_noack n (co_server conn)
                (wr_packet junk (ucast (co_port conn)) chunk_id bytes_sent (if fin then DFS_END_WR else DFS_WR) d)
          in if ret = -1 \<or> ret \<noteq> int dfs_get_pkt_bytes then Inr (False, n')
             else if bytes_sent + CHUNK_SERVER_PKT_SIZE < bytes_sent then Inl Diverges
             else wr_send_loop n' junk conn chunk_id chunk_data len (bytes_sent + CHUNK_SERVER_PKT_SIZE)
      else Inr (True, n))"
  by pat_completeness auto
termination
  by (relation "measure (\<lambda>(n, j, c, i, m, b, s). unat b - unat s)")
    (auto simp: CHUNK_SERVER_PKT_SIZE_def intro: rd_progress)

declare wr_send_loop.simps [simp del]

fun wait_end_wr :: "rx list \<Rightarrow> int \<times> rx list" where
  "wait_end_wr [] = (-1, [])"
| "wait_end_wr (RxTimeout # rs) = (-1, rs)"
| "wait_end_wr (RxShort # rs) = (-1, rs)"
| "wait_end_wr (RxPkt q # rs) = (if op_code q = DFS_END_WR then (0, rs) else wait_end_wr rs)"

definition dfs_client_write_chunk_data :: "dfs_connection \<Rightarrow> net \<Rightarrow> dfs_pkt \<Rightarrow> rx list \<Rightarrow> u32 \<Rightarrow> u8 list \<Rightarrow> u32 \<Rightarrow>
    (int \<times> net \<times> rx list) res" where
  "dfs_client_write_chunk_data conn n junk rs chunk_id chunk_data len =
     bind_r (wr_send_loop n junk conn chunk_id chunk_data len 0) (\<lambda>(ok, n').
     if \<not> ok then Inr (-1, n', rs)
     else let (ret, rs') = wait_end_wr rs in Inr (ret, n', rs'))"

section \<open>Reading a chunk\<close>

definition dfs_client_read_chunk_meta :: "dfs_connection \<Rightarrow> net \<Rightarrow> dfs_pkt \<Rightarrow> rx list \<Rightarrow> cstr \<Rightarrow> u32 \<Rightarrow> u32 \<Rightarrow>
    (dfs_pkt option \<times> net \<times> rx list) res" where
  "dfs_client_read_chunk_meta conn n junk rs fname name_len chunk_sqn =
     bind_r (put_name (set_chunk_id_sqn chunk_sqn (set_port_id (ucast (co_port conn)) (set_op_code DFS_RD junk)))
       fname name_len) (\<lambda>p.
     let (ret, n') = nrf_send_noack n (co_server conn) p in
     if ret = -1 then Inr (None, n', rs)
     else let (q, rs') = meta_reply DFS_RD rs in Inr (q, n', rs'))"

text \<open>
  The replies are stored one after the other, whatever their offset; the buffer must have room for each
  whole piece. A short receive leaves the packet undefined.
\<close>

fun query_loop :: "u8 list \<Rightarrow> nat \<Rightarrow> rx list \<Rightarrow> (int \<times> u8 list \<times> rx list) res" where
  "query_loop buf cnt [] = Inr (-1, buf, [])"
| "query_loop buf cnt (RxTimeout # rs) = Inr (-1, buf, rs)"
| "query_loop buf cnt (RxShort # rs) = Inl OutOfBounds"
| "query_loop buf cnt (RxPkt q # rs) =
     (if status q = STATUS_FAILED then Inr (-1, buf, rs)
      else if op_code q = DFS_RD then
        (if cnt + 16 > length buf then Inl OutOfBounds else query_loop (put_at buf cnt (d_data q)) (cnt + 16) rs)
      else if op_code q = DFS_END_RD then
        (if cnt + 16 > length buf then Inl OutOfBounds else Inr (0, put_at buf cnt (d_data q), rs))
      else query_loop buf cnt rs)"

definition dfs_client_query_chunk_data :: "dfs_connection \<Rightarrow> net \<Rightarrow> dfs_pkt \<Rightarrow> rx list \<Rightarrow> u32 \<Rightarrow> u8 list \<Rightarrow>
    (int \<times> u8 list \<times> net \<times> rx list) res" where
  "dfs_client_query_chunk_data conn n junk rs chunk_id buf =
     (let p = set_q_nbytes CHUNK_SIZE (set_q_offset 0 (set_chunk_id_sqn chunk_id
                (set_port_id (ucast (co_port conn)) (set_op_code DFS_RD junk))));
          (ret, n') = nrf_send_noack n (co_server conn) p in
      if ret = -1 then Inr (-1, buf, n', rs)
      else bind_r (query_loop buf 0 rs) (\<lambda>(r, buf', rs'). Inr (r, buf', n', rs')))"

section \<open>The packets of a write\<close>

definition wr_piece :: "dfs_pkt \<Rightarrow> u8 \<Rightarrow> u32 \<Rightarrow> nat \<times> bool \<times> u8 list \<Rightarrow> dfs_pkt" where
  "wr_piece junk port chunk_id = (\<lambda>(off, fin, d). wr_packet junk port chunk_id (of_nat off) (if fin then DFS_END_WR else DFS_WR) d)"

lemma wr_send_loop_pieces:
  "send_works n \<Longrightarrow> unat b \<le> length xs \<Longrightarrow> unat b < 4294967280 \<Longrightarrow> bs \<le> b \<Longrightarrow>
   wr_send_loop n junk conn chunk_id xs b bs =
     Inr (True, n\<lparr>sent := sent n @ map (\<lambda>x. (co_server conn, wr_piece junk (ucast (co_port conn)) chunk_id x))
       (pieces (unat bs) (drop (unat bs) (take (unat b) xs)))\<rparr>)"
proof (induction "unat b - unat bs" arbitrary: n bs rule: less_induct)
  case less
  let ?f = "\<lambda>x. (co_server conn, wr_piece junk (ucast (co_port conn)) chunk_id x)"
  show ?case
  proof (cases "bs < b")
    case False
    then have "bs = b" using less.prems(4) by simp
    then show ?thesis by (subst wr_send_loop.simps) simp
  next
    case True
    then have lt: "unat bs < unat b" by (simp add: word_less_nat_alt)
    have nw: "unat (bs + 16) = unat bs + 16" using lt less.prems(3) by (simp add: unat_add_u32)
    have no: "\<not> bs + 16 < bs" using nw by (simp add: word_less_nat_alt)
    have sub: "unat (b - bs) = unat b - unat bs" using lt by (simp add: unat_sub_u32)
    define fin where "fin = (b - bs \<le> 16)"
    have fin: "fin \<longleftrightarrow> unat b - unat bs \<le> 16" by (simp add: fin_def word_le_nat_alt sub)
    define d where "d = take (unat (if fin then b - bs else 16)) (drop (unat bs) xs)"
    have d: "d = take 16 (drop (unat bs) (take (unat b) xs))"
      using fin by (auto simp: d_def sub drop_take min_def)
    have bnd: "unat bs + unat (if fin then b - bs else 16) \<le> length xs" using fin lt less.prems(2) by (auto simp: sub)
    let ?p = "wr_packet junk (ucast (co_port conn)) chunk_id bs (if fin then DFS_END_WR else DFS_WR) d"
    let ?n = "n\<lparr>sent := sent n @ [(co_server conn, ?p)]\<rparr>"
    have step: "wr_send_loop n junk conn chunk_id xs b bs = wr_send_loop ?n junk conn chunk_id xs b (bs + 16)"
      using True no less.prems(1) bnd
      by (subst wr_send_loop.simps) (cases "b - bs \<le> 16", simp_all add: CHUNK_SERVER_PKT_SIZE_def Let_def case_prod_beta fin_def d_def dfs_get_pkt_bytes_def)
    have hd: "pieces (unat bs) (drop (unat bs) (take (unat b) xs)) = (unat bs, fin, d) # pieces (unat bs + 16) (drop 16 (drop (unat bs) (take (unat b) xs)))"
      using lt fin d less.prems(2) by (subst pieces.simps) auto
    have pk: "?f (unat bs, fin, d) = (co_server conn, ?p)" by (simp add: wr_piece_def)
    show ?thesis
    proof (cases fin)
      case True
      then have nil: "drop 16 (drop (unat bs) (take (unat b) xs)) = []" and "\<not> bs + 16 < b"
        using fin nw by (auto simp: word_less_nat_alt)
      then have "wr_send_loop ?n junk conn chunk_id xs b (bs + 16) = Inr (True, ?n)" by (subst wr_send_loop.simps) simp
      then show ?thesis unfolding step hd list.map pk nil by simp
    next
      case False
      have le: "bs + 16 \<le> b" using False fin nw by (simp add: word_le_nat_alt)
      have IH: "wr_send_loop ?n junk conn chunk_id xs b (bs + 16) = Inr (True, ?n\<lparr>sent := sent ?n @
          map ?f (pieces (unat (bs + 16)) (drop (unat (bs + 16)) (take (unat b) xs)))\<rparr>)"
        using less.hyps [of "bs + 16" ?n] less.prems(1-3) lt nw le by simp
      have "drop 16 (drop (unat bs) (take (unat b) xs)) = drop (unat bs + 16) (take (unat b) xs)" by (simp add: add.commute)
      then show ?thesis unfolding step hd list.map pk IH using nw by simp
    qed
  qed
qed

lemma drop_put_end: "i + length xs = length b \<Longrightarrow> drop i (put_at b i xs) = xs"
  by (simp add: put_at_def)

lemma wr_piece_fields:
  assumes "length junk = 32" "length d \<le> 16"
  shows "op_code (wr_piece junk port k (off, fin, d)) = (if fin then DFS_END_WR else DFS_WR)"
    "chunk_id_sqn (wr_piece junk port k (off, fin, d)) = k" "d_offset (wr_piece junk port k (off, fin, d)) = of_nat off"
    "d_data (wr_piece junk port k (off, fin, d)) = d @ replicate (16 - length d) 0"
  using assms by (simp_all add: wr_piece_def wr_packet_def field_get field_set drop_put_end)

section \<open>Reading back\<close>

definition padded :: "u8 list \<Rightarrow> u8 list" where
  "padded d = d @ replicate (16 - length d) 0"

text \<open>A reply with a piece of a chunk.\<close>

definition carries :: "rx \<Rightarrow> nat \<times> bool \<times> u8 list \<Rightarrow> bool" where
  "carries r x = (case (r, x) of
     (RxPkt q, (off, fin, d)) \<Rightarrow> status q = STATUS_SUCCESS \<and> op_code q = (if fin then DFS_END_RD else DFS_RD) \<and> d_data q = padded d
   | _ \<Rightarrow> False)"

lemma put_at_split: "cnt + length xs \<le> length b \<Longrightarrow> put_at b cnt xs = take cnt b @ xs @ drop (cnt + length xs) b"
  by (simp add: put_at_def)

lemma query_loop_pieces:
  "list_all2 carries rs (pieces off bs) \<Longrightarrow> bs \<noteq> [] \<Longrightarrow> cnt + 16 * ((length bs + 15) div 16) \<le> length buf \<Longrightarrow>
   query_loop buf cnt (rs @ rest) =
     Inr (0, take cnt buf @ bs @ replicate (16 * ((length bs + 15) div 16) - length bs) 0
       @ drop (cnt + 16 * ((length bs + 15) div 16)) buf, rest)"
proof (induction off bs arbitrary: rs cnt buf rule: pieces.induct)
  case (1 off bs)
  obtain r rs' where rs: "rs = r # rs'" "carries r (off, length bs \<le> 16, take 16 bs)" "list_all2 carries rs' (pieces (off + 16) (drop 16 bs))"
    using 1(2,3) by (subst (asm) (2) pieces.simps) (auto simp: list_all2_Cons2)
  obtain q where q: "r = RxPkt q" using rs(2) by (cases r) (auto simp: carries_def)
  have f: "status q = STATUS_SUCCESS" "op_code q = (if length bs \<le> 16 then DFS_END_RD else DFS_RD)" "d_data q = padded (take 16 bs)"
    using rs(2) q by (auto simp: carries_def)
  have pl: "length (padded (take 16 bs)) = 16" by (simp add: padded_def)
  show ?case
  proof (cases "length bs \<le> 16")
    case True
    have n: "(length bs + 15) div 16 = 1" using True 1(3) by (cases bs) auto
    have "rs' = []" using rs(3) True by simp
    then show ?thesis
      using True f 1(4) n pl by (simp add: rs(1) q STATUS_SUCCESS_def STATUS_FAILED_def opcode_defs put_at_split padded_def)
  next
    case False
    let ?buf = "put_at buf cnt (padded (take 16 bs))"
    have n: "(length bs + 15) div 16 = Suc ((length (drop 16 bs) + 15) div 16)" using False by simp
    have room: "cnt + 16 \<le> length buf" "cnt + 16 + 16 * ((length (drop 16 bs) + 15) div 16) \<le> length buf" using 1(4) n by auto
    have nil: "drop 16 bs \<noteq> []" using False by simp
    have lb: "length ?buf = length buf" using pl room(1) by simp
    have IH: "query_loop ?buf (cnt + 16) (rs' @ rest) =
       Inr (0, take (cnt + 16) ?buf @ drop 16 bs @ replicate (16 * ((length (drop 16 bs) + 15) div 16) - length (drop 16 bs)) 0
         @ drop (cnt + 16 + 16 * ((length (drop 16 bs) + 15) div 16)) ?buf, rest)"
      using 1(1) [OF 1(3) rs(3) nil, of "cnt + 16" ?buf] room(2) lb by simp
    have tk: "take (cnt + 16) ?buf = take cnt buf @ take 16 bs"
      using False room(1) pl by (simp add: put_at_split padded_def)
    have dr: "drop (cnt + 16 + k) ?buf = drop (cnt + 16 + k) buf" for k
      using room(1) pl by (simp add: put_at_split add.commute [of k])
    have rep: "16 * ((length (drop 16 bs) + 15) div 16) - length (drop 16 bs) = 16 * ((length bs + 15) div 16) - length bs"
      using False n by simp
    have "query_loop buf cnt (rs @ rest) = query_loop ?buf (cnt + 16) (rs' @ rest)"
      using False f room(1) by (simp add: rs(1) q STATUS_SUCCESS_def STATUS_FAILED_def opcode_defs)
    also have "\<dots> = Inr (0, take cnt buf @ (take 16 bs @ drop 16 bs) @ replicate (16 * ((length bs + 15) div 16) - length bs) 0
         @ drop (cnt + 16 * ((length bs + 15) div 16)) buf, rest)"
      unfolding IH tk dr rep n by (simp add: add.assoc)
    finally show ?thesis by simp
  qed
qed

section \<open>Repeated sends\<close>

lemma send_until_ok:
  "(\<forall>j<k. send_ret n (length (sent n) + j) = -1) \<Longrightarrow> send_ret n (length (sent n) + k) \<noteq> -1 \<Longrightarrow>
   send_until n a p = Some (n\<lparr>sent := sent n @ replicate (Suc k) (a, p)\<rparr>)"
proof (induction k arbitrary: n)
  case 0
  then show ?case by (subst send_until.simps) (simp add: nrf_send_noack_def nrf_send_def)
next
  case (Suc k)
  let ?n = "n\<lparr>sent := sent n @ [(a, p)]\<rparr>"
  have "send_ret n (length (sent n)) = -1" using Suc.prems(1) [THEN spec, of 0] by simp
  then have "send_until n a p = send_until ?n a p"
    by (subst send_until.simps) (simp add: nrf_send_noack_def nrf_send_def)
  also have "\<dots> = Some (?n\<lparr>sent := sent ?n @ replicate (Suc k) (a, p)\<rparr>)"
    using Suc.prems Suc.prems(1) [THEN spec, of "Suc j" for j] by (intro Suc.IH) auto
  finally show ?case by simp
qed

lemma send_until_some:
  "send_until n a p = Some n' \<Longrightarrow> \<exists>k. send_ret n (length (sent n) + k) \<noteq> -1"
proof (erule send_until.raw_induct [rotated])
  fix send_until :: "net \<Rightarrow> u32 \<Rightarrow> dfs_pkt \<Rightarrow> net option" and n a p y
  assume 1: "\<And>n a p y. send_until n a p = Some y \<Longrightarrow> \<exists>k. send_ret n (length (sent n) + k) \<noteq> -1"
    "(let (ret, n') = nrf_send_noack n a p in if ret = -1 then send_until n' a p else Some n') = Some y"
  show "\<exists>k. send_ret n (length (sent n) + k) \<noteq> -1"
  proof (cases "send_ret n (length (sent n)) = -1")
    case True
    then have "send_until (n\<lparr>sent := sent n @ [(a, p)]\<rparr>) a p = Some y" using 1(2) by (simp add: nrf_send_noack_def nrf_send_def)
    from 1(1) [OF this] obtain k where "send_ret n (Suc (length (sent n)) + k) \<noteq> -1" by auto
    then show ?thesis by (intro exI [of _ "Suc k"]) simp
  next
    case False
    then show ?thesis by (intro exI [of _ 0]) simp
  qed
qed

end
