(* ===== verification/Dfs_Shell.thy ===== *)
theory Dfs_Shell
  imports Dfs_Client
begin

text \<open>
  \<open>dfs/dfs-client-command.c\<close>: the client's shell. A command line is parsed with \<open>strncmp\<close> and \<open>strchr\<close>
  and becomes requests to the master and to the chunk server the master names. The fixed messages it
  prints are left out; \<open>sh_out\<close> has what \<open>cat\<close> and \<open>ls\<close> print.
\<close>

section \<open>State\<close>

record shell =
  sh_master :: dfs_connection
  sh_chunk :: dfs_connection
  sh_net :: net
  sh_rx :: "rx list"
  sh_out :: "u8 list"

definition dfs_master_addr :: u32 where "dfs_master_addr = 0x7e7e7e"

text \<open>\<open>client_shell_start\<close>: \<open>chunk\<close> is the uninitialised connection, its client field apart.\<close>

definition client_shell_start :: "ready \<Rightarrow> net \<Rightarrow> rx list \<Rightarrow> dfs_pkt \<Rightarrow> u32 \<Rightarrow> dfs_connection \<Rightarrow> (ready \<times> shell) res" where
  "client_shell_start g n rs junk port chunk =
     bind_r (dfs_init_client g) (\<lambda>(g', addr).
     bind_r (dfs_client_try_connect \<lparr>co_port = port, co_server = dfs_master_addr, co_client = addr\<rparr> n junk rs)
       (\<lambda>(ret, conn, n', rs').
     if ret = -1 then Inl (Panic ''Failed to connect to server'')
     else Inr (g', \<lparr>sh_master = conn, sh_chunk = chunk\<lparr>co_client := addr\<rparr>, sh_net = n', sh_rx = rs', sh_out = []\<rparr>)))"

section \<open>Strings\<close>

text \<open>
  A pointer into a string is the rest of the string from there. \<open>strchr_next\<close> is \<open>strchr(s, c) + 1\<close>:
  without a match that is the address 1, and reading there is undefined.
\<close>

definition strchr_at :: "cstr \<Rightarrow> u8 \<Rightarrow> cstr option" where
  "strchr_at s c = (case dropWhile (\<lambda>x. x \<noteq> c) s of [] \<Rightarrow> None | r \<Rightarrow> Some r)"

definition strchr_next :: "cstr \<Rightarrow> u8 \<Rightarrow> cstr res" where
  "strchr_next s c = (case strchr_at s c of None \<Rightarrow> Inl OutOfBounds | Some r \<Rightarrow> Inr (tl r))"

definition starts_with :: "cstr \<Rightarrow> cstr \<Rightarrow> bool" where
  "starts_with s w \<longleftrightarrow> take (length w) s = w"

section \<open>Commands\<close>

definition sh_create :: "shell \<Rightarrow> dfs_pkt \<Rightarrow> cstr \<Rightarrow> shell res" where
  "sh_create sh junk input =
     bind_r (strchr_next input 32) (\<lambda>arg.
     bind_r (dfs_client_create (sh_master sh) (sh_net sh) junk (sh_rx sh) arg (of_nat (length arg))) (\<lambda>(_, n, rs).
     Inr (sh\<lparr>sh_net := n, sh_rx := rs\<rparr>)))"

definition sh_delete :: "shell \<Rightarrow> dfs_pkt \<Rightarrow> cstr \<Rightarrow> shell res" where
  "sh_delete sh junk input =
     bind_r (strchr_next input 32) (\<lambda>arg.
     bind_r (dfs_client_delete (sh_master sh) (sh_net sh) junk (sh_rx sh) arg (of_nat (length arg))) (\<lambda>(_, n, rs).
     Inr (sh\<lparr>sh_net := n, sh_rx := rs\<rparr>)))"

text \<open>
  \<open>cat\<close>: a file of no chunks prints an empty line; otherwise its first chunk is fetched into an
  uninitialised buffer of \<open>CHUNK_SIZE\<close> bytes and printed as a string.
\<close>

definition sh_cat :: "shell \<Rightarrow> dfs_pkt \<Rightarrow> u8 list \<Rightarrow> cstr \<Rightarrow> shell res" where
  "sh_cat sh junk buf input =
     bind_r (strchr_next input 32) (\<lambda>arg.
     bind_r (dfs_client_read_chunk_meta (sh_master sh) (sh_net sh) junk (sh_rx sh) arg (of_nat (length arg)) 0)
       (\<lambda>(reply, n, rs).
     case reply of
       None \<Rightarrow> Inr (sh\<lparr>sh_net := n, sh_rx := rs\<rparr>)
     | Some pkt \<Rightarrow>
         if md_nbytes pkt = 0 then Inr (sh\<lparr>sh_net := n, sh_rx := rs, sh_out := sh_out sh @ [10]\<rparr>)
         else
           bind_r (dfs_client_try_connect ((sh_chunk sh)\<lparr>co_server := chunk_server_addr pkt\<rparr>) n junk rs) (\<lambda>(ret, conn, n1, rs1).
           if ret = -1 then Inr (sh\<lparr>sh_chunk := conn, sh_net := n1, sh_rx := rs1\<rparr>)
           else
             bind_r (dfs_client_query_chunk_data conn n1 junk rs1 (chunk_id_sqn pkt) buf) (\<lambda>(ret2, data, n2, rs2).
             if ret2 = -1 then Inr (sh\<lparr>sh_chunk := conn, sh_net := n2, sh_rx := rs2\<rparr>)
             else
               bind_r (cstr_of data) (\<lambda>txt.
               Inr (sh\<lparr>sh_chunk := conn, sh_net := n2, sh_rx := rs2, sh_out := sh_out sh @ txt @ [10]\<rparr>))))))"

text \<open>
  \<open>echo "text" >> file\<close>: the text between the first two quotes, copied into \<open>data[128]\<close> with a NUL (128
  characters pass the check and overflow the buffer), and the file name behind the first blank after
  two \<open>>\<close>. \<open>None\<close> is the refusal of a text that is too long.
\<close>

definition parse_echo :: "cstr \<Rightarrow> (cstr \<times> cstr) option res" where
  "parse_echo input =
     bind_r (strchr_next input 34) (\<lambda>arg2.
     case strchr_at arg2 34 of
       None \<Rightarrow> Inl OutOfBounds
     | Some arg3 \<Rightarrow>
         let k = length arg2 - length arg3 in
         if k > 128 then Inr None
         else if k + 1 > 128 then Inl OutOfBounds
         else
           bind_r (strchr_next arg3 62) (\<lambda>f1.
           bind_r (strchr_next f1 62) (\<lambda>f2.
           bind_r (strchr_next f2 32) (\<lambda>f3.
           Inr (Some (take k arg2, f3))))))"

definition sh_echo :: "shell \<Rightarrow> dfs_pkt \<Rightarrow> cstr \<Rightarrow> shell res" where
  "sh_echo sh junk input =
     bind_r (parse_echo input) (\<lambda>parsed.
     case parsed of
       None \<Rightarrow> Inr sh
     | Some (data, fname) \<Rightarrow>
         bind_r (dfs_client_write_chunk_meta (sh_master sh) (sh_net sh) junk (sh_rx sh) fname (of_nat (length fname)) 0)
           (\<lambda>(reply, n, rs).
         case reply of
           None \<Rightarrow> Inl (Panic ''Client failed to request file meta data from master server'')
         | Some pkt \<Rightarrow>
             bind_r (dfs_client_try_connect ((sh_chunk sh)\<lparr>co_server := chunk_server_addr pkt\<rparr>) n junk rs) (\<lambda>(ret, conn, n1, rs1).
             if ret = -1 then Inl (Panic ''Client failed to connect to chunk server'')
             else
               bind_r (dfs_client_write_chunk_data conn n1 junk rs1 (chunk_id_sqn pkt) (data @ [0]) (of_nat (length data)))
                 (\<lambda>(ret2, n2, rs2).
               if ret2 = -1 then Inl (Panic ''write to chunk failed'')
               else Inr (sh\<lparr>sh_chunk := conn, sh_net := n2, sh_rx := rs2\<rparr>)))))"

definition sh_ls :: "shell \<Rightarrow> dfs_pkt \<Rightarrow> cstr \<Rightarrow> shell res" where
  "sh_ls sh junk input =
     bind_r (strchr_next input 32) (\<lambda>arg.
     bind_r (dfs_client_listdir (sh_master sh) (sh_net sh) junk (sh_rx sh) arg) (\<lambda>(_, out, n, rs).
     Inr (sh\<lparr>sh_net := n, sh_rx := rs, sh_out := sh_out sh @ out\<rparr>)))"

definition sh_cd :: "shell \<Rightarrow> dfs_pkt \<Rightarrow> cstr \<Rightarrow> shell res" where
  "sh_cd sh junk input =
     bind_r (strchr_next input 32) (\<lambda>arg.
     bind_r (dfs_client_change_directory (sh_master sh) (sh_net sh) junk (sh_rx sh) arg) (\<lambda>(_, n, rs).
     Inr (sh\<lparr>sh_net := n, sh_rx := rs\<rparr>)))"

text \<open>\<open>client_parse\<close>: the state after the command, and whether it forks the next prompt.\<close>

definition client_parse :: "shell \<Rightarrow> dfs_pkt \<Rightarrow> u8 list \<Rightarrow> cstr \<Rightarrow> (bool \<times> shell) res" where
  "client_parse sh junk buf input =
     (let again = (\<lambda>r. bind_r r (\<lambda>sh'. Inr (True, sh'))) in
      if starts_with input (str ''touch'') \<or> starts_with input (str ''mkdir'') then again (sh_create sh junk input)
      else if starts_with input (str ''rm'') then again (sh_delete sh junk input)
      else if starts_with input (str ''cat'') then again (sh_cat sh junk buf input)
      else if starts_with input (str ''echo'') then again (sh_echo sh junk input)
      else if starts_with input (str ''ls'') then again (sh_ls sh junk input)
      else if starts_with input (str ''cd'') then again (sh_cd sh junk input)
      else if input = str ''q'' then Inr (False, sh)
      else Inr (True, sh))"

text \<open>\<open>parse_input\<close>: one line from the keyboard into \<open>input[1000]\<close>, then the command.\<close>

definition parse_input :: "shell \<Rightarrow> dfs_pkt \<Rightarrow> u8 list \<Rightarrow> u8 list \<Rightarrow> (bool \<times> shell \<times> u8 list) res" where
  "parse_input sh junk buf keys =
     bind_r (scank (str ''%s'') keys) (\<lambda>(vs, rest).
     case vs of
       [SStr line] \<Rightarrow>
         if length line + 1 > 1000 then Inl OutOfBounds
         else bind_r (cstr_of (line @ [0])) (\<lambda>input.
           bind_r (client_parse sh junk buf input) (\<lambda>(go, sh'). Inr (go, sh', rest)))
     | _ \<Rightarrow> Inl OutOfBounds)"

section \<open>Command lines\<close>

definition echo_line :: "cstr \<Rightarrow> cstr \<Rightarrow> cstr" where
  "echo_line t g = str ''echo '' @ [34] @ t @ [34] @ str '' >> '' @ g"

definition cat_line :: "cstr \<Rightarrow> cstr" where
  "cat_line g = str ''cat '' @ g"

lemma strchr_at_first: "c \<notin> set xs \<Longrightarrow> strchr_at (xs @ c # ys) c = Some (c # ys)"
proof -
  assume "c \<notin> set xs"
  then have "dropWhile (\<lambda>x. x \<noteq> c) (xs @ c # ys) = c # ys" by (induction xs) auto
  then show ?thesis by (simp add: strchr_at_def)
qed

lemma strchr_next_first: "c \<notin> set xs \<Longrightarrow> strchr_next (xs @ c # ys) c = Inr ys"
  by (simp add: strchr_next_def strchr_at_first)

lemma command_words:
  "str ''echo '' = [101, 99, 104, 111, 32]" "str '' >> '' = [32, 62, 62, 32]" "str ''cat '' = [99, 97, 116, 32]"
  "str ''touch'' = [116, 111, 117, 99, 104]" "str ''mkdir'' = [109, 107, 100, 105, 114]" "str ''rm'' = [114, 109]"
  "str ''cat'' = [99, 97, 116]" "str ''echo'' = [101, 99, 104, 111]" "str ''ls'' = [108, 115]" "str ''cd'' = [99, 100]" "str ''q'' = [113]"
  by code_simp+

lemma parse_echo_line:
  assumes "34 \<notin> set t" "length t < 128"
  shows "parse_echo (echo_line t g) = Inr (Some (t, g))"
proof -
  have 1: "strchr_next (echo_line t g) 34 = Inr (t @ 34 # 32 # 62 # 62 # 32 # g)"
    using strchr_next_first [of 34 "[101, 99, 104, 111, 32]" "t @ 34 # 32 # 62 # 62 # 32 # g"] by (simp add: echo_line_def command_words)
  have 2: "strchr_at (t @ 34 # 32 # 62 # 62 # 32 # g) 34 = Some (34 # 32 # 62 # 62 # 32 # g)"
    using assms(1) by (rule strchr_at_first)
  have 3: "strchr_next (34 # 32 # 62 # 62 # 32 # g) 62 = Inr (62 # 32 # g)" "strchr_next (62 # 32 # g) 62 = Inr (32 # g)"
    "strchr_next (32 # g) 32 = Inr g"
    using strchr_next_first [of 62 "[34, 32]" "62 # 32 # g"] strchr_next_first [of 62 "[]" "32 # g"] strchr_next_first [of 32 "[]" g] by simp_all
  show ?thesis using 1 2 3 assms(2) by (simp add: parse_echo_def)
qed

lemma cat_argument: "strchr_next (cat_line g) 32 = Inr g"
  using strchr_next_first [of 32 "[99, 97, 116]" g] by (simp add: cat_line_def command_words)

lemma parse_dispatch:
  "client_parse sh junk buf (echo_line t g) = bind_r (sh_echo sh junk (echo_line t g)) (\<lambda>sh'. Inr (True, sh'))"
  "client_parse sh junk buf (cat_line g) = bind_r (sh_cat sh junk buf (cat_line g)) (\<lambda>sh'. Inr (True, sh'))"
  by (simp_all add: client_parse_def starts_with_def command_words echo_line_def cat_line_def)

end
