(* ===== verification/Dfs_System.thy ===== *)
theory Dfs_System
  imports Dfs_Master Dfs_Chunkserver Dfs_Shell
begin

text \<open>
  The programs together: the packets a client sends are the ones a server receives, and the server's
  replies are what the client reads.
\<close>

section \<open>A chunk written over the radio\<close>

definition end_reply :: "dfs_pkt \<Rightarrow> dfs_pkt" where
  "end_reply junk = set_status STATUS_SUCCESS (set_op_code DFS_END_WR junk)"

text \<open>The packets of a write as the chunk server receives them.\<close>

definition arrive :: "dfs_pkt \<Rightarrow> (u32 \<times> dfs_pkt) list \<Rightarrow> (rx \<times> dfs_pkt) list" where
  "arrive junk ps = map (\<lambda>(a, p). (RxPkt p, junk)) ps"

lemma c_string_padded: "0 \<notin> set d \<Longrightarrow> c_string (padded d) = d"
  by (cases "16 - length d") (auto simp: c_string_def padded_def takeWhile_nonzero_app)

lemma piece_step:
  assumes "length j = 32" "length d \<le> 16"
  shows "chunkserver_step cs n (RxPkt (wr_piece j port k (off, fin, d))) junk =
    bind_r (chunk_store_data cs (wr_piece j port k (off, fin, d))) (\<lambda>cs'.
      Inr (cs', if fin then n\<lparr>sent := sent n @ [(default_client_addr, end_reply junk)]\<rparr> else n))"
  using assms by (simp add: chunkserver_step_def wr_piece_fields chunk_wr_def chunk_end_wr_def end_reply_def opcode_defs)

lemma store_pieces_more:
  "chunks_hold (cs_store cs) M \<Longrightarrow> chunk_ok k \<Longrightarrow> M k = Some b \<Longrightarrow> b \<noteq> [] \<Longrightarrow> 0 \<notin> set b \<Longrightarrow> 0 \<notin> set bs \<Longrightarrow> bs \<noteq> [] \<Longrightarrow>
   length b + length bs \<le> chunk_cap (cs_store cs) \<Longrightarrow> length j = 32 \<Longrightarrow>
   \<exists>c. dfs_chunkserver_main_start cs n (map (\<lambda>x. (RxPkt (wr_piece j port k x), junk)) (pieces off bs)) =
         Inr (cs\<lparr>cs_store := c\<rparr>, n\<lparr>sent := sent n @ [(default_client_addr, end_reply junk)]\<rparr>)
     \<and> chunks_hold c (M(k \<mapsto> b @ bs))"
proof (induction off bs arbitrary: cs M b rule: pieces.induct)
  case (1 off bs)
  let ?x = "(off, length bs \<le> 16, take 16 bs)" and ?d = "take 16 bs"
  have nz: "0 \<notin> set ?d" "0 \<notin> set (drop 16 bs)" using 1(7) by (auto dest: in_set_takeD in_set_dropD)
  have fld: "chunk_id_sqn (wr_piece j port k ?x) = k" "c_string (d_data (wr_piece j port k ?x)) = ?d"
    using 1(10) nz c_string_padded [of ?d] by (simp_all add: wr_piece_fields padded_def)
  have bnd: "length b + length ?d \<le> chunk_cap (cs_store cs)" using 1(9) by auto
  obtain c where c: "chunk_store_data cs (wr_piece j port k ?x) = Inr (cs\<lparr>cs_store := c\<rparr>)"
    "chunks_hold c (M(k \<mapsto> b @ ?d))" "chunk_cap c = chunk_cap (cs_store cs)"
    using store_data_more [of cs M "wr_piece j port k ?x" b] 1(2-6) bnd unfolding fld by blast
  have st: "chunkserver_step cs n (RxPkt (wr_piece j port k ?x)) junk = Inr (cs\<lparr>cs_store := c\<rparr>,
      if length bs \<le> 16 then n\<lparr>sent := sent n @ [(default_client_addr, end_reply junk)]\<rparr> else n)"
    using piece_step [OF 1(10), of ?d] c(1) by simp
  show ?case
  proof (cases "length bs \<le> 16")
    case True
    then show ?thesis using st c(2) 1(8) by (subst pieces.simps) auto
  next
    case False
    have "\<exists>c'. dfs_chunkserver_main_start (cs\<lparr>cs_store := c\<rparr>) n (map (\<lambda>x. (RxPkt (wr_piece j port k x), junk)) (pieces (off + 16) (drop 16 bs))) =
         Inr (cs\<lparr>cs_store := c\<rparr>\<lparr>cs_store := c'\<rparr>, n\<lparr>sent := sent n @ [(default_client_addr, end_reply junk)]\<rparr>)
       \<and> chunks_hold c' ((M(k \<mapsto> b @ ?d))(k \<mapsto> (b @ ?d) @ drop 16 bs))"
      using c False 1(1) [of "cs\<lparr>cs_store := c\<rparr>" "M(k \<mapsto> b @ ?d)" "b @ ?d"] 1(3-10) nz by (simp del: fun_upd_apply add: fun_upd_same)
    then show ?thesis using st False 1(8) by (subst pieces.simps) (auto simp del: fun_upd_apply)
  qed
qed

lemma store_pieces:
  assumes "chunks_hold (cs_store cs) M" "chunk_ok k" "M k = None" "chunk_slot (cs_store cs)" "chunk_space (cs_store cs)"
    "bs \<noteq> []" "0 \<notin> set bs" "length bs \<le> chunk_cap (cs_store cs)" "length j = 32"
  shows "\<exists>c. dfs_chunkserver_main_start cs n (map (\<lambda>x. (RxPkt (wr_piece j port k x), junk)) (pieces 0 bs)) =
         Inr (cs\<lparr>cs_store := c\<rparr>, n\<lparr>sent := sent n @ [(default_client_addr, end_reply junk)]\<rparr>)
     \<and> chunks_hold c (M(k \<mapsto> bs))"
proof -
  let ?x = "(0 :: nat, length bs \<le> 16, take 16 bs)" and ?d = "take 16 bs"
  have nz: "0 \<notin> set ?d" "0 \<notin> set (drop 16 bs)" using assms(7) by (auto dest: in_set_takeD in_set_dropD)
  have fld: "chunk_id_sqn (wr_piece j port k ?x) = k" "c_string (d_data (wr_piece j port k ?x)) = ?d"
    "d_offset (wr_piece j port k ?x) = 0"
    using assms(9) nz c_string_padded [of ?d] by (simp_all add: wr_piece_fields padded_def)
  have d: "?d \<noteq> []" "length ?d \<le> chunk_cap (cs_store cs)" using assms(6,8) by auto
  obtain c where c: "chunk_store_data cs (wr_piece j port k ?x) = Inr (cs\<lparr>cs_store := c\<rparr>)"
    "chunks_hold c (M(k \<mapsto> ?d))" "chunk_cap c = chunk_cap (cs_store cs)"
    using store_data_first [of cs M "wr_piece j port k ?x"] assms(1-5) d unfolding fld by blast
  have st: "chunkserver_step cs n (RxPkt (wr_piece j port k ?x)) junk = Inr (cs\<lparr>cs_store := c\<rparr>,
      if length bs \<le> 16 then n\<lparr>sent := sent n @ [(default_client_addr, end_reply junk)]\<rparr> else n)"
    using piece_step [OF assms(9), of ?d] c(1) by simp
  show ?thesis
  proof (cases "length bs \<le> 16")
    case True
    then show ?thesis using st c(2) assms(6) by (subst pieces.simps) auto
  next
    case False
    have "\<exists>c'. dfs_chunkserver_main_start (cs\<lparr>cs_store := c\<rparr>) n (map (\<lambda>x. (RxPkt (wr_piece j port k x), junk)) (pieces (0 + 16) (drop 16 bs))) =
         Inr (cs\<lparr>cs_store := c\<rparr>\<lparr>cs_store := c'\<rparr>, n\<lparr>sent := sent n @ [(default_client_addr, end_reply junk)]\<rparr>)
       \<and> chunks_hold c' ((M(k \<mapsto> ?d))(k \<mapsto> ?d @ drop 16 bs))"
      using c False assms nz by (intro store_pieces_more) auto
    then show ?thesis using st False assms(6) by (subst pieces.simps) (auto simp del: fun_upd_apply)
  qed
qed

section \<open>A chunk read over the radio\<close>

lemma pieces_short: "(o', f, d) \<in> set (pieces off bs) \<Longrightarrow> length d \<le> 16"
proof (induction off bs rule: pieces.induct)
  case (1 off bs)
  then show ?case by (subst (asm) (2) pieces.simps) (auto split: if_splits)
qed

lemma reply_fields:
  assumes "length j = 32" "length d \<le> 16"
  shows "op_code (rd_reply j k (off, fin, d)) = (if fin then DFS_END_RD else DFS_RD)" "chunk_id_sqn (rd_reply j k (off, fin, d)) = k"
    "status (rd_reply j k (off, fin, d)) = STATUS_SUCCESS" "d_offset (rd_reply j k (off, fin, d)) = of_nat off"
    "d_data (rd_reply j k (off, fin, d)) = d @ replicate (16 - length d) 0"
  using assms by (simp_all add: rd_reply_def rd_packet_def field_get field_set drop_put_end)

lemma reply_carries:
  assumes "length j = 32" "length d \<le> 16"
  shows "carries (RxPkt (rd_reply j k (off, fin, d))) (off, fin, d)"
  using assms by (simp add: carries_def rd_reply_def rd_packet_def field_get field_set drop_put_end padded_def)

lemma replies_carry:
  "length j = 32 \<Longrightarrow> list_all2 carries (map (\<lambda>x. RxPkt (rd_reply j k x)) (pieces off bs)) (pieces off bs)"
  using pieces_short [of _ _ _ off bs] reply_carries
  by (auto simp: list_all2_map1 intro!: list.rel_refl_strong)

definition query_packet :: "dfs_connection \<Rightarrow> dfs_pkt \<Rightarrow> u32 \<Rightarrow> dfs_pkt" where
  "query_packet conn junk k = set_q_nbytes CHUNK_SIZE (set_q_offset 0 (set_chunk_id_sqn k
     (set_port_id (ucast (co_port conn)) (set_op_code DFS_RD junk))))"

lemma query_packet_fields:
  assumes "length junk = 32"
  shows "op_code (query_packet conn junk k) = DFS_RD" "port_id (query_packet conn junk k) = ucast (co_port conn)"
    "chunk_id_sqn (query_packet conn junk k) = k" "q_offset (query_packet conn junk k) = 0"
    "q_nbytes (query_packet conn junk k) = CHUNK_SIZE"
  using assms by (simp_all add: query_packet_def field_get field_set)

text \<open>The client is connected: the server's table has its address at its port.\<close>

definition connected :: "dfs_connection \<Rightarrow> chunkserver \<Rightarrow> bool" where
  "connected conn cs \<longleftrightarrow> unat (co_port conn) < DFS_MAX_CONN \<and> length (cs_client_addrs cs) = DFS_MAX_CONN
     \<and> cs_client_addrs cs ! unat (co_port conn) = co_client conn"

lemma unat_port: "unat x < DFS_MAX_CONN \<Longrightarrow> unat (ucast (x :: u32) :: u8) = unat x"
  by (simp add: unsigned_ucast_eq DFS_MAX_CONN_def take_bit_nat_eq_self)

lemma server_reply:
  assumes "chunks_hold (cs_store cs) M" "chunk_ok k" "M k = Some bs" "bs \<noteq> []" "length bs \<le> 1024"
    "connected conn cs" "send_works sn" "length cj = 32"
  shows "dfs_chunkserver_main_start cs sn [(RxPkt (query_packet conn cj k), sj)] =
    Inr (cs, sn\<lparr>sent := sent sn @ map (\<lambda>x. (co_client conn, rd_reply sj k x)) (pieces 0 bs)\<rparr>)"
proof -
  let ?q = "query_packet conn cj k"
  have p: "unat (port_id ?q) = unat (co_port conn)"
    using assms(6,8) by (simp add: query_packet_fields unat_port connected_def)
  have "chunk_rd cs sn sj ?q = Inr (cs, sn\<lparr>sent := sent sn @ map (\<lambda>x. (cs_client_addrs cs ! unat (port_id ?q),
      rd_reply sj (chunk_id_sqn ?q) x))
      (pieces (unat (q_offset ?q)) (take (unat (q_nbytes ?q)) (drop (unat (q_offset ?q)) bs)))\<rparr>)"
    using assms p by (intro chunk_rd_ok [of cs M ?q bs]) (auto simp: query_packet_fields connected_def CHUNK_SIZE_def)
  then have "chunk_rd cs sn sj ?q = Inr (cs, sn\<lparr>sent := sent sn @ map (\<lambda>x. (co_client conn, rd_reply sj k x)) (pieces 0 bs)\<rparr>)"
    using assms(5,6,8) p by (simp add: query_packet_fields CHUNK_SIZE_def connected_def)
  then show ?thesis using assms(8) by (simp add: chunkserver_step_def query_packet_fields opcode_defs)
qed

lemma client_reads:
  assumes "send_works n" "length sj = 32" "bs \<noteq> []" "length bs \<le> 1024" "length buf = 1024"
  shows "dfs_client_query_chunk_data conn n cj (map (\<lambda>x. RxPkt (rd_reply sj k x)) (pieces 0 bs)) k buf =
    Inr (0, bs @ replicate (16 * ((length bs + 15) div 16) - length bs) 0 @ drop (16 * ((length bs + 15) div 16)) buf,
      n\<lparr>sent := sent n @ [(co_server conn, query_packet conn cj k)]\<rparr>, [])"
proof -
  have "(length bs + 15) div 16 \<le> (1024 + 15) div 16" using assms(4) by (intro div_le_mono) simp
  then have "16 * ((length bs + 15) div 16) \<le> length buf" using assms(5) by simp
  then have "query_loop buf 0 (map (\<lambda>x. RxPkt (rd_reply sj k x)) (pieces 0 bs) @ []) =
     Inr (0, take 0 buf @ bs @ replicate (16 * ((length bs + 15) div 16) - length bs) 0
       @ drop (0 + 16 * ((length bs + 15) div 16)) buf, [])"
    using query_loop_pieces [OF replies_carry [OF assms(2)] assms(3), where cnt = 0 and buf = buf and rest = "[]"] by simp
  then show ?thesis
    using assms(1) by (simp add: dfs_client_query_chunk_data_def query_packet_def Let_def case_prod_beta)
qed

lemma client_writes:
  assumes "send_works n" "length bs < 4294967280" "length sj = 32"
  shows "dfs_client_write_chunk_data conn n cj [RxPkt (end_reply sj)] k (bs @ [0]) (of_nat (length bs)) =
    Inr (0, n\<lparr>sent := sent n @ map (\<lambda>x. (co_server conn, wr_piece cj (ucast (co_port conn)) k x)) (pieces 0 bs)\<rparr>, [])"
proof -
  have u: "unat (of_nat (length bs) :: u32) = length bs" using assms(2) by (intro unat_of_nat_u32) linarith
  have "op_code (end_reply sj) = DFS_END_WR" using assms(3) by (simp add: end_reply_def field_get field_set)
  then show ?thesis
    using wr_send_loop_pieces [OF assms(1), of "of_nat (length bs)" "bs @ [0]" 0 cj conn k] assms(2) u
    by (simp add: dfs_client_write_chunk_data_def)
qed

section \<open>The whole system\<close>

text \<open>
  One master and one chunk server behind a radio that loses nothing: every packet of the client goes to
  the program that listens on its address, and the replies come back in order.
\<close>

definition quiet :: net where
  "quiet = \<lparr>sent = [], send_ret = \<lambda>_. int dfs_get_pkt_bytes\<rparr>"

fun serve :: "dfs_master \<Rightarrow> chunkserver \<Rightarrow> net \<Rightarrow> dfs_pkt \<Rightarrow> u8 list \<Rightarrow> (u32 \<times> dfs_pkt) list \<Rightarrow>
    (dfs_master \<times> chunkserver \<times> net) res" where
  "serve m cs n junk pad [] = Inr (m, cs, n)"
| "serve m cs n junk pad ((a, p) # ps) =
     (if a = ma_addr m then
        bind_r (master_step m n (RxPkt p) junk pad) (\<lambda>(_, m', n'). serve m' cs n' junk pad ps)
      else if a = cs_addr cs then
        bind_r (chunkserver_step cs n (RxPkt p) junk) (\<lambda>(cs', n'). serve m cs' n' junk pad ps)
      else serve m cs n junk pad ps)"

lemma quiet_works [simp]: "send_works quiet" "sent quiet = []"
  by (simp_all add: quiet_def send_works_def)

lemma serve_append: "serve m cs n junk pad (ps @ qs) =
    bind_r (serve m cs n junk pad ps) (\<lambda>(m', cs', n'). serve m' cs' n' junk pad qs)"
  by (induction m cs n junk pad ps rule: serve.induct) (auto simp: bind_r_assoc case_prod_beta intro!: bind_r_cong)

lemma step_addr: "chunkserver_step cs n r junk = Inr (cs', n') \<Longrightarrow> cs_addr cs' = cs_addr cs"
  by (auto simp: chunkserver_step_def chunk_cnct_def try_assign_port_def chunk_hb_def chunk_rd_def chunk_wr_def chunk_end_wr_def
      chunk_store_data_def Let_def bind_r_eq_Inr split: if_splits rx.splits option.splits)

lemma serve_chunk:
  "dfs_chunkserver_main_start cs n (map (\<lambda>x. (RxPkt (f x), junk)) xs) = Inr (cs', n') \<Longrightarrow> a \<noteq> ma_addr m \<Longrightarrow> cs_addr cs = a \<Longrightarrow>
   serve m cs n junk pad (map (\<lambda>x. (a, f x)) xs) = Inr (m, cs', n')"
proof (induction xs arbitrary: cs n)
  case (Cons x xs)
  then obtain cs1 n1 where "chunkserver_step cs n (RxPkt (f x)) junk = Inr (cs1, n1)"
    "dfs_chunkserver_main_start cs1 n1 (map (\<lambda>x. (RxPkt (f x), junk)) xs) = Inr (cs', n')"
    by (auto simp: bind_r_eq_Inr)
  then show ?case using Cons step_addr by auto
qed simp

section \<open>The client's requests\<close>

text \<open>A request that names a file of at most 11 characters, and what the master makes of it.\<close>

definition named_request :: "dfs_connection \<Rightarrow> dfs_pkt \<Rightarrow> u8 \<Rightarrow> cstr \<Rightarrow> dfs_pkt" where
  "named_request conn junk opc g = set_md_nbytes (of_nat (length g)) (set_md_file_name g (set_md_file_name (replicate MAX_FILE_NAME 0)
     (set_chunk_id_sqn 0 (set_port_id (ucast (co_port conn)) (set_op_code opc junk)))))"

lemma put_name_request:
  assumes "length g \<le> 12"
  shows "put_name (set_chunk_id_sqn 0 (set_port_id (ucast (co_port conn)) (set_op_code opc junk))) g (of_nat (length g))
    = Inr (named_request conn junk opc g)"
proof -
  have u: "unat (of_nat (length g) :: u32) = length g" using assms by (intro unat_of_nat_u32) linarith
  then show ?thesis using assms by (simp add: put_name_def word_le_nat_alt named_request_def Let_def)
qed

lemma named_request_fields:
  assumes "length junk = 32" "length g \<le> 11" "0 \<notin> set g"
  shows "op_code (named_request conn junk opc g) = opc" "port_id (named_request conn junk opc g) = ucast (co_port conn)"
    "chunk_id_sqn (named_request conn junk opc g) = 0" "cstr_of (md_file_name (named_request conn junk opc g)) = Inr g"
    "length (named_request conn junk opc g) = 32"
proof -
  show "op_code (named_request conn junk opc g) = opc" "port_id (named_request conn junk opc g) = ucast (co_port conn)"
    "chunk_id_sqn (named_request conn junk opc g) = 0" "length (named_request conn junk opc g) = 32"
    using assms by (simp_all add: named_request_def field_get field_set MAX_FILE_NAME_def)
  have "md_file_name (named_request conn junk opc g) = g @ replicate (12 - length g) 0"
    using assms by (simp add: named_request_def field_get field_set MAX_FILE_NAME_def put_at_def)
  moreover have "12 - length g = Suc (11 - length g)" using assms(2) by linarith
  ultimately show "cstr_of (md_file_name (named_request conn junk opc g)) = Inr g"
    using assms(3) by (simp add: cstr_of_def takeWhile_nonzero_app)
qed

definition cnct_packet :: "dfs_connection \<Rightarrow> dfs_pkt \<Rightarrow> dfs_pkt" where
  "cnct_packet conn junk = set_conn_addr (co_client conn) (set_op_code DFS_CNCT junk)"

definition accept_packet :: "nat \<Rightarrow> dfs_pkt \<Rightarrow> dfs_pkt" where
  "accept_packet i junk = set_port_id (of_nat i) (set_op_code DFS_ACP junk)"

lemma client_connects:
  assumes "length sj = 32" "i < DFS_MAX_CONN"
  shows "dfs_client_try_connect conn n cj (RxPkt (accept_packet i sj) # rs) =
    Inr (0, conn\<lparr>co_port := of_nat i\<rparr>, n\<lparr>sent := sent n @ [(co_server conn, cnct_packet conn cj)]\<rparr>, rs)"
proof -
  have "i = 0 \<or> i = 1 \<or> i = 2 \<or> i = 3" using assms(2) by (auto simp: DFS_MAX_CONN_def)
  then have "ucast (of_nat i :: u8) = (of_nat i :: u32)" by auto
  then show ?thesis
    using assms(1) by (simp add: dfs_client_try_connect_def Let_def cnct_packet_def accept_packet_def field_get field_set)
qed

lemma server_accepts:
  assumes "try_assign_port cs (co_client conn) = Inr (Some i, cs')" "length cj = 32"
  shows "chunkserver_step cs n (RxPkt (cnct_packet conn cj)) sj =
    Inr (cs', n\<lparr>sent := sent n @ [(co_client conn, accept_packet i sj)]\<rparr>)"
  using assms by (simp add: chunkserver_step_def chunk_cnct_def Let_def cnct_packet_def accept_packet_def field_get field_set)

lemma assign_port_twice:
  assumes "conn_ok cs" "try_assign_port cs client = Inr (Some i, cs')"
  shows "try_assign_port (cs'\<lparr>cs_store := c\<rparr>) client = Inr (Some i, cs'\<lparr>cs_store := c\<rparr>)"
proof -
  obtain as k where a: "assign_port (cs_client_addrs cs) (cs_n_conns cs) client = Inr (Some i, as, k)"
    "cs' = cs\<lparr>cs_client_addrs := as, cs_n_conns := k\<rparr>"
    using assms(2) by (auto simp: try_assign_port_def bind_r_eq_Inr)
  have "length (cs_client_addrs cs) = DFS_MAX_CONN" using assms(1) by (simp add: conn_ok_def ports_ok_def)
  then show ?thesis using assign_again [OF _ a(1)] a(2) by (simp add: try_assign_port_def)
qed

lemma client_placed:
  assumes "send_works n" "length g \<le> 12" "op_code rep = DFS_WR" "status rep \<noteq> STATUS_FAILED"
  shows "dfs_client_write_chunk_meta conn n cj (RxPkt rep # rs) g (of_nat (length g)) 0 =
    Inr (Some rep, n\<lparr>sent := sent n @ [(co_server conn, named_request conn cj DFS_WR g)]\<rparr>, rs)"
proof -
  have "send_until n a p = Some (n\<lparr>sent := sent n @ [(a, p)]\<rparr>)" for a p
    using send_until_ok [of 0 n a p] assms(1) by (simp add: send_works_def dfs_get_pkt_bytes_def)
  then show ?thesis
    using put_name_request [OF assms(2)] assms(3,4) by (simp add: dfs_client_write_chunk_meta_def meta_reply_def)
qed

lemma client_finds:
  assumes "send_works n" "length g \<le> 12" "op_code rep = DFS_RD" "status rep \<noteq> STATUS_FAILED"
  shows "dfs_client_read_chunk_meta conn n cj (RxPkt rep # rs) g (of_nat (length g)) 0 =
    Inr (Some rep, n\<lparr>sent := sent n @ [(co_server conn, named_request conn cj DFS_RD g)]\<rparr>, rs)"
  using put_name_request [OF assms(2)] assms(1,3,4)
  by (simp add: dfs_client_read_chunk_meta_def meta_reply_def Let_def case_prod_beta)

section \<open>Commands of the shell\<close>

text \<open>
  The shell is attached: it listens on the clients' address, the master has it at the port of its
  connection, and the connection table of the chunk server is consistent.
\<close>

definition attached :: "shell \<Rightarrow> dfs_master \<Rightarrow> chunkserver \<Rightarrow> bool" where
  "attached sh m cs \<longleftrightarrow> send_works (sh_net sh) \<and> co_server (sh_master sh) = ma_addr m
     \<and> co_client (sh_master sh) = default_client_addr \<and> co_client (sh_chunk sh) = default_client_addr
     \<and> unat (co_port (sh_master sh)) < DFS_MAX_CONN \<and> length (ma_client_addrs m) = DFS_MAX_CONN
     \<and> ma_client_addrs m ! unat (co_port (sh_master sh)) = default_client_addr
     \<and> cs_addr cs \<noteq> ma_addr m \<and> conn_ok cs"

definition heard :: "net \<Rightarrow> rx list" where
  "heard n = map (\<lambda>(a, p). RxPkt p) (filter (\<lambda>(a, p). a = default_client_addr) (sent n))"

text \<open>
  A command line and the servers: the packets the command sends are served in order, and what the
  servers send to the client is exactly what the command reads.
\<close>

definition exchange :: "cstr \<Rightarrow> dfs_pkt \<Rightarrow> u8 list \<Rightarrow> dfs_pkt \<Rightarrow> u8 list \<Rightarrow> shell \<times> dfs_master \<times> chunkserver \<Rightarrow>
    shell \<times> dfs_master \<times> chunkserver \<Rightarrow> bool" where
  "exchange line cj buf sj pad = (\<lambda>(sh, m, cs) (sh', m', cs').
     \<exists>ps n. client_parse (sh\<lparr>sh_rx := heard n\<rparr>) cj buf line = Inr (True, sh') \<and> sh_rx sh' = []
       \<and> sent (sh_net sh') = sent (sh_net sh) @ ps \<and> serve m cs quiet sj pad ps = Inr (m', cs', n))"

text \<open>The master gives a new chunk of an empty file a place.\<close>

lemma master_places:
  assumes "attached sh m cs" "mf_holds (ma_fs m) M" "M g = Some []" "0 \<notin> set g" "length g \<le> 11"
    "room_for (fs_vol (mf_fsys (ma_fs m))) 0 20" "length pad = 3" "length cj = 32"
    "dfs_master_get_server_for_new_chunk m = Inr (Some s, m1)" "s < length (ma_chunkservers m)"
    "unat (ma_client_num m) < length (ma_client_fs m)"
    "k = cl_chunk_id (ma_client_fs m ! unat (ma_client_num m))" "a = ss_addr (ma_chunkservers m ! s)"
  shows "\<exists>m'. master_step m quiet (RxPkt (named_request (sh_master sh) cj DFS_WR g)) sj pad =
      Inr (False, m', quiet\<lparr>sent := [(default_client_addr, place_reply DFS_WR sj (named_request (sh_master sh) cj DFS_WR g) k a)]\<rparr>)
    \<and> mf_holds (ma_fs m') (M(g \<mapsto> maps_bytes [(pad, single_replica k a)]))
    \<and> ma_addr m' = ma_addr m \<and> ma_client_addrs m' = ma_client_addrs m"
proof -
  let ?p = "named_request (sh_master sh) cj DFS_WR g"
  have m1: "ma_addr m1 = ma_addr m \<and> ma_client_addrs m1 = ma_client_addrs m"
    using assms(9) by (auto simp: dfs_master_get_server_for_new_chunk_def case_prod_beta Let_def split: if_splits)
  have "M g = Some (maps_bytes [])" using assms(3) by (simp add: maps_bytes_def)
  then obtain f where f: "wr_place m pad g 0 = Inr (Some (k, a),
      m1\<lparr>ma_fs := f, ma_client_fs := (ma_client_fs m)[unat (ma_client_num m) := (ma_client_fs m ! unat (ma_client_num m))\<lparr>cl_chunk_id := k + 1\<rparr>]\<rparr>)"
    "mf_holds f (M(g \<mapsto> maps_bytes [(pad, single_replica k a)]))"
    using wr_new_place [OF assms(2), of g "[]" 0 pad s m1] assms(6,7,9-13) by auto
  note fld = named_request_fields [OF assms(8,5,4), of "sh_master sh" DFS_WR]
  have pt: "unat (port_id ?p) = unat (co_port (sh_master sh))" "unat (co_port (sh_master sh)) < 4" "length (ma_client_addrs m) = 4"
    using assms(1) fld by (simp_all add: attached_def unat_port) (simp_all add: DFS_MAX_CONN_def)
  show ?thesis
    using f m1 pt assms(1) fld
    by (intro exI [of _ "m1\<lparr>ma_fs := f, ma_client_fs := (ma_client_fs m)[unat (ma_client_num m) :=
        (ma_client_fs m ! unat (ma_client_num m))\<lparr>cl_chunk_id := k + 1\<rparr>]\<rparr>"])
      (simp add: master_step_def master_wr_def with_client_def Let_def place_reply_def attached_def opcode_defs DFS_MAX_CONN_def)
qed

lemma master_finds:
  assumes "attached sh m cs" "mf_holds (ma_fs m) M" "M g = Some (maps_bytes [(pad, single_replica k a)])" "length pad = 3"
    "0 \<notin> set g" "length g \<le> 11" "length cj = 32" "a \<noteq> -1"
  shows "master_step m quiet (RxPkt (named_request (sh_master sh) cj DFS_RD g)) sj pad' =
      Inr (False, m, quiet\<lparr>sent := [(default_client_addr, set_md_nbytes 1 (place_reply DFS_RD sj (named_request (sh_master sh) cj DFS_RD g) k a))]\<rparr>)"
proof -
  let ?p = "named_request (sh_master sh) cj DFS_RD g"
  note fld = named_request_fields [OF assms(7,6,5), of "sh_master sh" DFS_RD]
  have pt: "unat (port_id ?p) = unat (co_port (sh_master sh))" using assms(1) fld by (simp add: attached_def unat_port)
  have "master_rd m quiet sj ?p = Inr (m, quiet\<lparr>sent := sent quiet @ [(ma_client_addrs m ! unat (port_id ?p),
    set_md_nbytes 1 (place_reply DFS_RD sj ?p k a))]\<rparr>)"
    using rd_place [OF assms(2,3), of ?p quiet sj] assms(1,4,8) fld pt by (simp add: attached_def map_wf_def single_replica_def)
  then show ?thesis using fld pt assms(1) by (simp add: master_step_def attached_def opcode_defs)
qed

lemma assign_port_facts:
  assumes "conn_ok cs" "client \<noteq> 0" "try_assign_port cs client = Inr (Some i, cs')"
  shows "conn_ok cs'" "cs_store cs' = cs_store cs" "cs_addr cs' = cs_addr cs" "i < DFS_MAX_CONN" "cs_client_addrs cs' ! i = client"
    "length (cs_client_addrs cs') = DFS_MAX_CONN"
  using try_assign_port_ok [OF assms(1), of client] assms(3)
  by (auto simp: assigned_def conn_ok_def ports_ok_def try_assign_port_def bind_r_eq_Inr)

lemma unat_small_port: "i < DFS_MAX_CONN \<Longrightarrow> unat (of_nat i :: u32) = i"
  by (rule unat_of_nat_u32) (simp add: DFS_MAX_CONN_def)

lemma place_status:
  "length sj = 32 \<Longrightarrow> length p = 32 \<Longrightarrow> status (place_reply opc sj p k a) \<noteq> STATUS_FAILED"
  by (simp add: place_reply_fields STATUS_SUCCESS_def STATUS_FAILED_def)

text \<open>The packets of one \<open>echo\<close>.\<close>

definition echo_packets :: "shell \<Rightarrow> dfs_pkt \<Rightarrow> cstr \<Rightarrow> cstr \<Rightarrow> u32 \<Rightarrow> u32 \<Rightarrow> nat \<Rightarrow> (u32 \<times> dfs_pkt) list" where
  "echo_packets sh cj g t k a i =
     (co_server (sh_master sh), named_request (sh_master sh) cj DFS_WR g)
     # (a, cnct_packet (sh_chunk sh) cj) # map (\<lambda>x. (a, wr_piece cj (of_nat i) k x)) (pieces 0 t)"

lemma ucast_port: "i < DFS_MAX_CONN \<Longrightarrow> ucast (of_nat i :: u32) = (of_nat i :: u8)"
proof -
  assume "i < DFS_MAX_CONN"
  then have "i = 0 \<or> i = 1 \<or> i = 2 \<or> i = 3" by (auto simp: DFS_MAX_CONN_def)
  then show ?thesis by auto
qed

lemma shell_echo:
  assumes "parse_echo line = Inr (Some (t, g))" "send_works (sh_net sh)" "length g \<le> 12" "length t < 128"
    "op_code rep = DFS_WR" "status rep \<noteq> STATUS_FAILED" "chunk_id_sqn rep = k" "chunk_server_addr rep = a"
    "length sj = 32" "i < DFS_MAX_CONN"
  shows "sh_echo (sh\<lparr>sh_rx := [RxPkt rep, RxPkt (accept_packet i sj), RxPkt (end_reply sj)]\<rparr>) cj line =
    Inr (sh\<lparr>sh_chunk := (sh_chunk sh)\<lparr>co_server := a, co_port := of_nat i\<rparr>,
      sh_net := (sh_net sh)\<lparr>sent := sent (sh_net sh) @ echo_packets sh cj g t k a i\<rparr>, sh_rx := []\<rparr>)"
proof -
  let ?n = "(sh_net sh)\<lparr>sent := sent (sh_net sh) @ [(co_server (sh_master sh), named_request (sh_master sh) cj DFS_WR g)]\<rparr>"
  have c: "dfs_client_try_connect ((sh_chunk sh)\<lparr>co_server := a\<rparr>) ?n cj [RxPkt (accept_packet i sj), RxPkt (end_reply sj)] =
      Inr (0, (sh_chunk sh)\<lparr>co_server := a, co_port := of_nat i\<rparr>,
        ?n\<lparr>sent := sent ?n @ [(a, cnct_packet (sh_chunk sh) cj)]\<rparr>, [RxPkt (end_reply sj)])"
    using client_connects [OF assms(9,10), of "(sh_chunk sh)\<lparr>co_server := a\<rparr>"] by (simp add: cnct_packet_def)
  show ?thesis
    using assms client_placed [OF assms(2,3,5,6), of "sh_master sh" cj] c
    by (simp add: sh_echo_def client_writes echo_packets_def ucast_port)
qed

lemma servers_echo:
  assumes "attached sh m cs" "mf_holds (ma_fs m) M" "M g = Some []" "0 \<notin> set g" "length g \<le> 11"
    "room_for (fs_vol (mf_fsys (ma_fs m))) 0 20" "length pad = 3" "length cj = 32"
    "dfs_master_get_server_for_new_chunk m = Inr (Some s, m1)" "s < length (ma_chunkservers m)"
    "ss_addr (ma_chunkservers m ! s) = cs_addr cs" "unat (ma_client_num m) < length (ma_client_fs m)"
    "k = cl_chunk_id (ma_client_fs m ! unat (ma_client_num m))"
    "try_assign_port cs default_client_addr = Inr (Some i, cs')"
    "chunks_hold (cs_store cs) N" "chunk_ok k" "N k = None" "chunk_slot (cs_store cs)" "chunk_space (cs_store cs)"
    "t \<noteq> []" "0 \<notin> set t" "length t \<le> chunk_cap (cs_store cs)"
  shows "\<exists>m' c. serve m cs quiet sj pad (echo_packets sh cj g t k (cs_addr cs) i) = Inr (m', cs'\<lparr>cs_store := c\<rparr>,
      quiet\<lparr>sent := [(default_client_addr, place_reply DFS_WR sj (named_request (sh_master sh) cj DFS_WR g) k (cs_addr cs)),
        (default_client_addr, accept_packet i sj), (default_client_addr, end_reply sj)]\<rparr>)
    \<and> mf_holds (ma_fs m') (M(g \<mapsto> maps_bytes [(pad, single_replica k (cs_addr cs))]))
    \<and> chunks_hold c (N(k \<mapsto> t)) \<and> ma_addr m' = ma_addr m \<and> ma_client_addrs m' = ma_client_addrs m"
proof -
  let ?rep = "place_reply DFS_WR sj (named_request (sh_master sh) cj DFS_WR g) k (cs_addr cs)"
  let ?n1 = "quiet\<lparr>sent := [(default_client_addr, ?rep)]\<rparr>"
  let ?n2 = "quiet\<lparr>sent := [(default_client_addr, ?rep), (default_client_addr, accept_packet i sj)]\<rparr>"
  obtain m' where m': "master_step m quiet (RxPkt (named_request (sh_master sh) cj DFS_WR g)) sj pad = Inr (False, m', ?n1)"
    "mf_holds (ma_fs m') (M(g \<mapsto> maps_bytes [(pad, single_replica k (cs_addr cs))]))"
    "ma_addr m' = ma_addr m" "ma_client_addrs m' = ma_client_addrs m"
    using master_places [OF assms(1-10,12,13) refl, of sj] assms(11) by auto
  have ok: "conn_ok cs" "co_client (sh_chunk sh) = default_client_addr" "cs_addr cs \<noteq> ma_addr m" "co_server (sh_master sh) = ma_addr m"
    using assms(1) by (auto simp: attached_def)
  have c0: "default_client_addr \<noteq> 0" by (simp add: default_client_addr_def)
  note pf = assign_port_facts [OF ok(1) c0 assms(14)]
  have acc: "chunkserver_step cs ?n1 (RxPkt (cnct_packet (sh_chunk sh) cj)) sj = Inr (cs', ?n2)"
    using server_accepts [OF _ assms(8), of cs "sh_chunk sh" i cs'] assms(14) ok(2) by simp
  obtain c where c: "dfs_chunkserver_main_start cs' ?n2 (map (\<lambda>x. (RxPkt (wr_piece cj (of_nat i) k x), sj)) (pieces 0 t)) =
      Inr (cs'\<lparr>cs_store := c\<rparr>, ?n2\<lparr>sent := sent ?n2 @ [(default_client_addr, end_reply sj)]\<rparr>)" "chunks_hold c (N(k \<mapsto> t))"
    using store_pieces [of cs' N k t cj ?n2 "of_nat i" sj] assms(8,15-22) pf(2) by auto
  have "serve m' cs' ?n2 sj pad (map (\<lambda>x. (cs_addr cs, wr_piece cj (of_nat i) k x)) (pieces 0 t)) =
      Inr (m', cs'\<lparr>cs_store := c\<rparr>, ?n2\<lparr>sent := sent ?n2 @ [(default_client_addr, end_reply sj)]\<rparr>)"
    using serve_chunk [OF c(1), of "cs_addr cs" m' pad] ok(3) m'(3) pf(3) by simp
  then show ?thesis
    using m' acc c(2) ok(3,4) by (intro exI [of _ m'] exI [of _ c]) (simp add: echo_packets_def)
qed

text \<open>The packets of one \<open>cat\<close>, and the string it prints.\<close>

definition cat_packets :: "shell \<Rightarrow> dfs_pkt \<Rightarrow> cstr \<Rightarrow> u32 \<Rightarrow> u32 \<Rightarrow> nat \<Rightarrow> (u32 \<times> dfs_pkt) list" where
  "cat_packets sh cj g k a i =
     [(co_server (sh_master sh), named_request (sh_master sh) cj DFS_RD g), (a, cnct_packet (sh_chunk sh) cj),
      (a, query_packet ((sh_chunk sh)\<lparr>co_server := a, co_port := of_nat i\<rparr>) cj k)]"

lemma buffer_string:
  assumes "0 \<notin> set t" "length t mod 16 \<noteq> 0"
  shows "cstr_of (t @ replicate (16 * ((length t + 15) div 16) - length t) 0 @ r) = Inr t"
proof -
  have "16 * ((length t + 15) div 16) > length t" using assms(2) by presburger
  then have "replicate (16 * ((length t + 15) div 16) - length t) (0 :: u8) = 0 # replicate (16 * ((length t + 15) div 16) - length t - 1) 0"
    by (cases "16 * ((length t + 15) div 16) - length t") auto
  then show ?thesis using assms(1) by (simp add: cstr_of_def takeWhile_nonzero_app)
qed

lemma shell_cat:
  assumes "strchr_next line 32 = Inr g" "send_works (sh_net sh)" "length g \<le> 12"
    "op_code rep = DFS_RD" "status rep \<noteq> STATUS_FAILED" "chunk_id_sqn rep = k" "chunk_server_addr rep = a" "md_nbytes rep \<noteq> 0"
    "length sj = 32" "i < DFS_MAX_CONN" "length buf = 1024" "t \<noteq> []" "0 \<notin> set t" "length t \<le> 1024" "length t mod 16 \<noteq> 0"
  shows "sh_cat (sh\<lparr>sh_rx := RxPkt rep # RxPkt (accept_packet i sj) # map (\<lambda>x. RxPkt (rd_reply sj k x)) (pieces 0 t)\<rparr>) cj buf line =
    Inr (sh\<lparr>sh_chunk := (sh_chunk sh)\<lparr>co_server := a, co_port := of_nat i\<rparr>,
      sh_net := (sh_net sh)\<lparr>sent := sent (sh_net sh) @ cat_packets sh cj g k a i\<rparr>, sh_rx := [], sh_out := sh_out sh @ t @ [10]\<rparr>)"
proof -
  let ?n = "(sh_net sh)\<lparr>sent := sent (sh_net sh) @ [(co_server (sh_master sh), named_request (sh_master sh) cj DFS_RD g)]\<rparr>"
  let ?rs = "map (\<lambda>x. RxPkt (rd_reply sj k x)) (pieces 0 t)"
  have c: "dfs_client_try_connect ((sh_chunk sh)\<lparr>co_server := a\<rparr>) ?n cj (RxPkt (accept_packet i sj) # ?rs) =
      Inr (0, (sh_chunk sh)\<lparr>co_server := a, co_port := of_nat i\<rparr>,
        ?n\<lparr>sent := sent ?n @ [(a, cnct_packet (sh_chunk sh) cj)]\<rparr>, ?rs)"
    using client_connects [OF assms(9,10), of "(sh_chunk sh)\<lparr>co_server := a\<rparr>"] by (simp add: cnct_packet_def)
  show ?thesis
    using assms client_finds [OF assms(2-5), of "sh_master sh" cj] c
    by (simp add: sh_cat_def client_reads buffer_string cat_packets_def)
qed

lemma servers_cat:
  assumes "attached sh m cs" "mf_holds (ma_fs m) M" "M g = Some (maps_bytes [(pad, single_replica k (cs_addr cs))])"
    "0 \<notin> set g" "length g \<le> 11" "length pad = 3" "length cj = 32" "cs_addr cs \<noteq> -1"
    "try_assign_port cs default_client_addr = Inr (Some i, cs')"
    "chunks_hold (cs_store cs) N" "chunk_ok k" "N k = Some t" "t \<noteq> []" "length t \<le> 1024"
  shows "serve m cs quiet sj pad' (cat_packets sh cj g k (cs_addr cs) i) = Inr (m, cs', quiet\<lparr>sent :=
      (default_client_addr, set_md_nbytes 1 (place_reply DFS_RD sj (named_request (sh_master sh) cj DFS_RD g) k (cs_addr cs)))
      # (default_client_addr, accept_packet i sj) # map (\<lambda>x. (default_client_addr, rd_reply sj k x)) (pieces 0 t)\<rparr>)"
proof -
  let ?rep = "set_md_nbytes 1 (place_reply DFS_RD sj (named_request (sh_master sh) cj DFS_RD g) k (cs_addr cs))"
  let ?n1 = "quiet\<lparr>sent := [(default_client_addr, ?rep)]\<rparr>"
  let ?n2 = "quiet\<lparr>sent := [(default_client_addr, ?rep), (default_client_addr, accept_packet i sj)]\<rparr>"
  let ?conn = "(sh_chunk sh)\<lparr>co_server := cs_addr cs, co_port := of_nat i\<rparr>"
  have m: "master_step m quiet (RxPkt (named_request (sh_master sh) cj DFS_RD g)) sj pad' = Inr (False, m, ?n1)"
    using master_finds [OF assms(1-3,6,4,5,7,8), of sj pad'] by simp
  have ok: "conn_ok cs" "co_client (sh_chunk sh) = default_client_addr" "cs_addr cs \<noteq> ma_addr m" "co_server (sh_master sh) = ma_addr m"
    using assms(1) by (auto simp: attached_def)
  have c0: "default_client_addr \<noteq> 0" by (simp add: default_client_addr_def)
  note pf = assign_port_facts [OF ok(1) c0 assms(9)]
  have acc: "chunkserver_step cs ?n1 (RxPkt (cnct_packet (sh_chunk sh) cj)) sj = Inr (cs', ?n2)"
    using server_accepts [OF _ assms(7), of cs "sh_chunk sh" i cs'] assms(9) ok(2) by simp
  have con: "connected ?conn cs'" using pf ok(2) by (simp add: connected_def unat_small_port)
  have "dfs_chunkserver_main_start cs' ?n2 [(RxPkt (query_packet ?conn cj k), sj)] =
      Inr (cs', ?n2\<lparr>sent := sent ?n2 @ map (\<lambda>x. (co_client ?conn, rd_reply sj k x)) (pieces 0 t)\<rparr>)"
    using assms(10-14) pf(2) con assms(7) by (intro server_reply [of cs' N]) auto
  then have "chunkserver_step cs' ?n2 (RxPkt (query_packet ?conn cj k)) sj =
      Inr (cs', ?n2\<lparr>sent := sent ?n2 @ map (\<lambda>x. (co_client ?conn, rd_reply sj k x)) (pieces 0 t)\<rparr>)"
    by (auto simp: bind_r_eq_Inr)
  then show ?thesis using m acc ok pf(3) by (simp add: cat_packets_def)
qed

lemma heard_all: "heard (quiet\<lparr>sent := map (\<lambda>x. (default_client_addr, f x)) xs\<rparr>) = map (\<lambda>x. RxPkt (f x)) xs"
  by (simp add: heard_def filter_map comp_def)

lemma heard_Cons: "heard (quiet\<lparr>sent := (default_client_addr, p) # ps\<rparr>) = RxPkt p # heard (quiet\<lparr>sent := ps\<rparr>)"
  by (simp add: heard_def)

lemma heard_Nil: "heard (quiet\<lparr>sent := []\<rparr>) = []"
  by (simp add: heard_def)

text \<open>An \<open>echo\<close> into an empty file.\<close>

lemma echo_exchange:
  assumes "attached sh m cs" "mf_holds (ma_fs m) M" "M g = Some []" "0 \<notin> set g" "length g \<le> 11"
    "room_for (fs_vol (mf_fsys (ma_fs m))) 0 20" "length pad = 3" "length cj = 32" "length sj = 32"
    "dfs_master_get_server_for_new_chunk m = Inr (Some s, m1)" "s < length (ma_chunkservers m)"
    "ss_addr (ma_chunkservers m ! s) = cs_addr cs" "unat (ma_client_num m) < length (ma_client_fs m)"
    "k = cl_chunk_id (ma_client_fs m ! unat (ma_client_num m))"
    "try_assign_port cs default_client_addr = Inr (Some i, cs')"
    "chunks_hold (cs_store cs) N" "chunk_ok k" "N k = None" "chunk_slot (cs_store cs)" "chunk_space (cs_store cs)"
    "t \<noteq> []" "0 \<notin> set t" "34 \<notin> set t" "length t < 128" "length t \<le> chunk_cap (cs_store cs)"
  shows "\<exists>sh' m' cs2. exchange (echo_line t g) cj buf sj pad (sh, m, cs) (sh', m', cs2) \<and> attached sh' m' cs2
    \<and> mf_holds (ma_fs m') (M(g \<mapsto> maps_bytes [(pad, single_replica k (cs_addr cs2))]))
    \<and> chunks_hold (cs_store cs2) (N(k \<mapsto> t)) \<and> try_assign_port cs2 default_client_addr = Inr (Some i, cs2)
    \<and> cs_addr cs2 = cs_addr cs \<and> sh_out sh' = sh_out sh"
proof -
  let ?q = "named_request (sh_master sh) cj DFS_WR g"
  let ?rep = "place_reply DFS_WR sj ?q k (cs_addr cs)"
  obtain m' c where s: "serve m cs quiet sj pad (echo_packets sh cj g t k (cs_addr cs) i) = Inr (m', cs'\<lparr>cs_store := c\<rparr>,
      quiet\<lparr>sent := [(default_client_addr, ?rep), (default_client_addr, accept_packet i sj), (default_client_addr, end_reply sj)]\<rparr>)"
    "mf_holds (ma_fs m') (M(g \<mapsto> maps_bytes [(pad, single_replica k (cs_addr cs))]))"
    "chunks_hold c (N(k \<mapsto> t))" "ma_addr m' = ma_addr m" "ma_client_addrs m' = ma_client_addrs m"
    using servers_echo [OF assms(1-8,10-22,25), of sj] by blast
  have a: "send_works (sh_net sh)" "conn_ok cs" using assms(1) by (simp_all add: attached_def)
  have c0: "default_client_addr \<noteq> 0" by (simp add: default_client_addr_def)
  note pf = assign_port_facts [OF a(2) c0 assms(15)] and pr = place_reply_fields [OF assms(9) named_request_fields(5) [OF assms(8,5,4)]]
  let ?sh = "sh\<lparr>sh_chunk := (sh_chunk sh)\<lparr>co_server := cs_addr cs, co_port := of_nat i\<rparr>,
      sh_net := (sh_net sh)\<lparr>sent := sent (sh_net sh) @ echo_packets sh cj g t k (cs_addr cs) i\<rparr>, sh_rx := []\<rparr>"
  have "sh_echo (sh\<lparr>sh_rx := [RxPkt ?rep, RxPkt (accept_packet i sj), RxPkt (end_reply sj)]\<rparr>) cj (echo_line t g) = Inr ?sh"
    using shell_echo [OF parse_echo_line [OF assms(23,24)] a(1) _ assms(24), of g ?rep k "cs_addr cs" sj i cj]
      assms(5,9) pf(4) pr place_status [OF assms(9) named_request_fields(5) [OF assms(8,5,4)]] by simp
  then have "exchange (echo_line t g) cj buf sj pad (sh, m, cs) (?sh, m', cs'\<lparr>cs_store := c\<rparr>)"
    using s(1) unfolding exchange_def prod.case
    by (intro exI [of _ "echo_packets sh cj g t k (cs_addr cs) i"]
        exI [of _ "quiet\<lparr>sent := [(default_client_addr, ?rep), (default_client_addr, accept_packet i sj), (default_client_addr, end_reply sj)]\<rparr>"])
      (simp add: parse_dispatch heard_Cons heard_Nil)
  moreover have "attached ?sh m' (cs'\<lparr>cs_store := c\<rparr>)"
    using assms(1) s(4,5) pf by (simp add: attached_def conn_ok_def)
  moreover have "try_assign_port (cs'\<lparr>cs_store := c\<rparr>) default_client_addr = Inr (Some i, cs'\<lparr>cs_store := c\<rparr>)"
    by (rule assign_port_twice [OF a(2) assms(15)])
  ultimately show ?thesis using s(2,3) pf(3) by (intro exI [of _ ?sh] exI [of _ m'] exI [of _ "cs'\<lparr>cs_store := c\<rparr>"]) simp
qed

text \<open>A \<open>cat\<close> of a file of one chunk.\<close>

lemma cat_exchange:
  assumes "attached sh m cs" "mf_holds (ma_fs m) M" "M g = Some (maps_bytes [(pad, single_replica k (cs_addr cs))])"
    "0 \<notin> set g" "length g \<le> 11" "length pad = 3" "length cj = 32" "length sj = 32" "cs_addr cs \<noteq> -1"
    "try_assign_port cs default_client_addr = Inr (Some i, cs')"
    "chunks_hold (cs_store cs) N" "chunk_ok k" "N k = Some t" "t \<noteq> []" "0 \<notin> set t" "length t \<le> 1024" "length t mod 16 \<noteq> 0"
    "length buf = 1024"
  shows "\<exists>sh'. exchange (cat_line g) cj buf sj pad' (sh, m, cs) (sh', m, cs') \<and> sh_out sh' = sh_out sh @ t @ [10]"
proof -
  let ?q = "named_request (sh_master sh) cj DFS_RD g"
  let ?rep = "set_md_nbytes 1 (place_reply DFS_RD sj ?q k (cs_addr cs))"
  note nl = named_request_fields(5) [OF assms(7,5,4), of "sh_master sh" DFS_RD]
  have rl: "length (place_reply DFS_RD sj ?q k (cs_addr cs)) = 32"
    using assms(8) nl by (simp add: place_reply_def md_file_name_def MAX_FILE_NAME_def)
  have fld: "op_code ?rep = DFS_RD" "status ?rep \<noteq> STATUS_FAILED" "chunk_id_sqn ?rep = k" "chunk_server_addr ?rep = cs_addr cs" "md_nbytes ?rep \<noteq> 0"
    using place_reply_fields [OF assms(8) nl, of DFS_RD k "cs_addr cs"] place_status [OF assms(8) nl, of DFS_RD k "cs_addr cs"] rl
    by (simp_all add: field_get set_md_nbytes_def)
  have a: "send_works (sh_net sh)" "conn_ok cs" using assms(1) by (simp_all add: attached_def)
  have c0: "default_client_addr \<noteq> 0" by (simp add: default_client_addr_def)
  note pf = assign_port_facts [OF a(2) c0 assms(10)]
  let ?sh = "sh\<lparr>sh_chunk := (sh_chunk sh)\<lparr>co_server := cs_addr cs, co_port := of_nat i\<rparr>,
      sh_net := (sh_net sh)\<lparr>sent := sent (sh_net sh) @ cat_packets sh cj g k (cs_addr cs) i\<rparr>, sh_rx := [], sh_out := sh_out sh @ t @ [10]\<rparr>"
  let ?n = "quiet\<lparr>sent := (default_client_addr, ?rep) # (default_client_addr, accept_packet i sj)
    # map (\<lambda>x. (default_client_addr, rd_reply sj k x)) (pieces 0 t)\<rparr>"
  have "serve m cs quiet sj pad' (cat_packets sh cj g k (cs_addr cs) i) = Inr (m, cs', ?n)"
    by (rule servers_cat [OF assms(1-7,9-14,16)])
  moreover have "sh_cat (sh\<lparr>sh_rx := heard ?n\<rparr>) cj buf (cat_line g) = Inr ?sh"
    using shell_cat [OF cat_argument a(1) _ fld assms(8) pf(4) assms(18,14-17), of g cj] assms(5) by (simp add: heard_Cons heard_all)
  ultimately have "exchange (cat_line g) cj buf sj pad' (sh, m, cs) (?sh, m, cs')"
    unfolding exchange_def prod.case
    by (intro exI [of _ "cat_packets sh cj g k (cs_addr cs) i"] exI [of _ ?n]) (simp add: parse_dispatch)
  then show ?thesis by (intro exI [of _ ?sh]) simp
qed

section \<open>A listing over the radio\<close>

lemma ls_packet:
  assumes "length p = 32" "length t \<le> 27" "0 \<notin> set t"
  shows "op_code (put_at (set_op_code x (set_status STATUS_SUCCESS p)) 4 (t @ [0])) = x"
    "length (put_at (set_op_code x (set_status STATUS_SUCCESS p)) 4 (t @ [0])) = 32"
    "cstr_of (placeholder (put_at (set_op_code x (set_status STATUS_SUCCESS p)) 4 (t @ [0]))) = Inr t"
    "status (put_at (set_op_code x (set_status STATUS_SUCCESS p)) 4 (t @ [0])) = STATUS_SUCCESS \<longleftrightarrow> length t \<le> 4"
proof -
  let ?p = "(p[8 := STATUS_SUCCESS])[0 := x]"
  have q: "put_at (set_op_code x (set_status STATUS_SUCCESS p)) 4 (t @ [0]) = take 4 ?p @ t @ 0 # drop (5 + length t) ?p"
    using assms by (simp add: put_at_def field_set)
  show "op_code (put_at (set_op_code x (set_status STATUS_SUCCESS p)) 4 (t @ [0])) = x"
    "length (put_at (set_op_code x (set_status STATUS_SUCCESS p)) 4 (t @ [0])) = 32"
    unfolding q using assms by (simp_all add: op_code_def nth_append)
  have "placeholder (take 4 ?p @ t @ 0 # drop (5 + length t) ?p) = t @ 0 # drop (5 + length t) ?p"
    using assms by (simp add: placeholder_def)
  then show "cstr_of (placeholder (put_at (set_op_code x (set_status STATUS_SUCCESS p)) 4 (t @ [0]))) = Inr t"
    unfolding q using assms(3) by (simp add: cstr_of_def takeWhile_nonzero_app)
  have nz: "4 < length t \<Longrightarrow> t ! 4 \<noteq> 0" using assms(3) nth_mem [of 4 t] by metis
  have "status (take 4 ?p @ t @ 0 # drop (5 + length t) ?p) = (if 4 < length t then t ! 4 else if length t = 4 then 0 else STATUS_SUCCESS)"
    using assms(1) by (auto simp: status_def nth_append nth_Cons')
  then show "status (put_at (set_op_code x (set_status STATUS_SUCCESS p)) 4 (t @ [0])) = STATUS_SUCCESS \<longleftrightarrow> length t \<le> 4"
    unfolding q using nz by (simp add: STATUS_SUCCESS_def)
qed

lemma ls_loop_heard:
  "send_works n \<Longrightarrow> length p = 32 \<Longrightarrow> 0 \<notin> set t \<Longrightarrow> t \<noteq> [] \<Longrightarrow>
   \<exists>ps. ls_loop n client p t = n\<lparr>sent := sent n @ map (\<lambda>q. (client, q)) ps\<rparr>
     \<and> (\<forall>out rest. listing_loop out (map RxPkt ps @ rest) = Inr (if (length t - 1) mod 27 < 4 then 1 else 2, out @ t, rest))"
proof (induction "length t" arbitrary: n p t rule: less_induct)
  case less
  note 1 = less
  show ?case
  proof (cases "length t \<le> 27")
    case True
    let ?q = "put_at (set_op_code DFS_END_LS (set_status STATUS_SUCCESS p)) 4 (t @ [0])"
    have l: "ls_loop n client p t = n\<lparr>sent := sent n @ [(client, ?q)]\<rparr>"
      using True 1(2,5) by (subst ls_loop.simps) (simp add: Let_def case_prod_beta dfs_get_pkt_bytes_def ls_loop.simps)
    have "(length t - 1) mod 27 < 4 \<longleftrightarrow> length t \<le> 4" using True 1(5) by (cases t) auto
    with l ls_packet [OF 1(3) True 1(4), of DFS_END_LS] show ?thesis
      by (intro exI [of _ "[?q]"]) (simp add: opcode_defs)
  next
    case False
    let ?t = "take 27 t" and ?q = "put_at (set_op_code DFS_LS (set_status STATUS_SUCCESS p)) 4 (take 27 t @ [0])"
    let ?n = "n\<lparr>sent := sent n @ [(client, ?q)]\<rparr>"
    have nz: "0 \<notin> set ?t" "0 \<notin> set (drop 27 t)" using 1(4) by (auto dest: in_set_takeD in_set_dropD)
    note pk = ls_packet [OF 1(3) _ nz(1), of DFS_LS]
    have step: "ls_loop n client p t = ls_loop ?n client ?q (drop 27 t)"
      using False 1(2,5) by (subst ls_loop.simps) (simp add: Let_def case_prod_beta dfs_get_pkt_bytes_def)
    have "\<exists>ps. ls_loop ?n client ?q (drop 27 t) = ?n\<lparr>sent := sent ?n @ map (\<lambda>q. (client, q)) ps\<rparr>
       \<and> (\<forall>out rest. listing_loop out (map RxPkt ps @ rest) = Inr (if (length (drop 27 t) - 1) mod 27 < 4 then 1 else 2, out @ drop 27 t, rest))"
      using False 1(2) pk(2) nz(2) by (intro 1(1)) auto
    then obtain ps where ps: "ls_loop ?n client ?q (drop 27 t) = ?n\<lparr>sent := sent ?n @ map (\<lambda>q. (client, q)) ps\<rparr>"
      "\<And>out rest. listing_loop out (map RxPkt ps @ rest) = Inr (if (length (drop 27 t) - 1) mod 27 < 4 then 1 else 2, out @ drop 27 t, rest)"
      by blast
    have "(length (drop 27 t) - 1) mod 27 = (length t - 1) mod 27"
      using False le_mod_geq [of 27 "length t - 1"] by simp
    then show ?thesis
      using step ps pk by (intro exI [of _ "?q # ps"]) (simp add: opcode_defs)
  qed
qed

end
