(* ===== verification/Dfs_Sample.thy ===== *)
theory Dfs_Sample
  imports Dfs_System Fat32_Sample
begin

text \<open>
  A concrete system: master and chunk server each on a copy of the sample volume, one chunk server that
  is active, and a shell connected to the master. The witnesses of the properties of the distributed
  file system are evaluated on it.
\<close>

definition sample_css :: "u32 list list" where
  "sample_css = [3] # [4] # replicate 14 []"

lemma nth_sample_css: "sample_css ! 0 = [3]" "sample_css ! 1 = [4]" "2 \<le> i \<Longrightarrow> i < 16 \<Longrightarrow> sample_css ! i = []"
  by (simp_all add: sample_css_def nth_Cons')

lemma sample_live_only: "i < 16 \<Longrightarrow> \<not> dirent_skipped (sample_dir ! i) \<Longrightarrow> i < 3"
  using sample_skipped by (cases "i < 3") (auto simp: sample_dir_alt nth_Cons')

lemma sample_store: "store_inv sample_vol sample_root [2] sample_css"
proof -
  have len: "length sample_css = 16" "length sample_dir = 16" by (simp_all add: sample_css_def sample_dir_def)
  have sk: "i < 2 \<or> sample_css ! i = []" if "i < 16" for i using nth_sample_css(3) [of i] that by linarith
  have live: "\<not> dirent_skipped (sample_dir ! 0)" "\<not> dirent_skipped (sample_dir ! 1)"
    using sample_live by (simp_all add: sample_dir_alt)
  have ent: "entry_ok sample_vol [2] (sample_dir ! i) (sample_css ! i)" if "i = 0 \<or> i = 1 \<or> i = 2" for i
    using that nth_sample_css sample_ids sample_chains
    by (auto simp: entry_ok_def file_chain_def clusters_for_def) (simp_all add: sample_dir_def sample_dirent_def)
  show ?thesis
    unfolding store_inv_def sample_entries len
  proof (intro conjI allI impI)
    fix i assume i: "i < (16 :: nat)" and "dirent_skipped (sample_dir ! i)"
    then have "i \<noteq> 0" "i \<noteq> 1" using live by metis+
    then show "sample_css ! i = []" using sk [OF i] by linarith
  next
    fix i assume i: "i < (16 :: nat)" "\<not> dirent_skipped (sample_dir ! i)"
    then have "i < 3" using sample_live_only by blast
    then show "entry_ok sample_vol [2] (sample_dir ! i) (sample_css ! i)" using ent [of i] by linarith
  next
    fix i j assume ij: "i < (16 :: nat)" "j < (16 :: nat)" "i \<noteq> j"
    have "i = 0 \<or> i = 1 \<or> sample_css ! i = []" "j = 0 \<or> j = 1 \<or> sample_css ! j = []" using sk ij(1,2) by fastforce+
    then show "set (sample_css ! i) \<inter> set (sample_css ! j) = {}" using nth_sample_css(1,2) ij(3) by (elim disjE) auto
  qed (use sample_dir_ok sample_dir_inv sample_plain in simp_all)
qed

definition sample_files :: "cstr \<Rightarrow> u8 list option" where
  "sample_files f = (if file_name f then stored sample_vol [2] sample_css f else None)"

lemma holds_sample: "holds sample_vol sample_root sample_files"
  unfolding holds_def sample_files_def using sample_store by blast

definition name_1 :: cstr where "name_1 = [49, 46, 84, 88, 84]"

lemma name_1_raw: "fat32_is_valid_name name_1" "has_dot name_1" "raw83 name_1 = [49, 32, 32, 32, 32, 32, 32, 32, 84, 88, 84]"
  by code_simp+

lemma sample_match_1: "first_match (named name_1) sample_dir = None"
  unfolding first_match_None
  by (auto simp: sample_dir_alt named_def sample_skipped) (simp_all add: sample_dirent_def sample_names name_1_raw)

lemma sample_contents:
  "sample_files name_A = Some (replicate 5 7)" "sample_files name_E = Some []" "sample_files name_C = None" "sample_files name_1 = None"
proof -
  have "chain_bytes sample_vol [3] = replicate 512 7"
    by (simp add: chain_bytes_def cluster_bytes_def read_secs_def lba_def sample_vol_def sample_sd_def spc_def)
  moreover have "file_nbytes (sample_dir ! 0) = 5" "file_nbytes (sample_dir ! 2) = 0" by (simp_all add: sample_dir_def sample_dirent_def)
  ultimately show "sample_files name_A = Some (replicate 5 7)" "sample_files name_E = Some []" "sample_files name_C = None" "sample_files name_1 = None"
    using sample_match sample_match_1 sample_names name_1_raw nth_sample_css
    by (simp_all add: sample_files_def file_name_def stored_def sample_entries)
qed

definition sample_mirror :: fs_mirror where
  "sample_mirror = \<lparr>m_name = str ''x'', m_id = 1, m_cwd = sample_root, m_chain = [sample_root]\<rparr>"

definition sample_fsys :: fsys where
  "sample_fsys = \<lparr>fs_vol = sample_vol, fs_root = Some sample_root, mirror_id = 2\<rparr>"

definition sample_chunks :: chunk_fs where
  "sample_chunks = \<lparr>c_fsys = sample_fsys, c_mirror = sample_mirror\<rparr>"

definition sample_map :: "u32 \<Rightarrow> u8 list option" where
  "sample_map n = (if chunk_ok n then sample_files (int_to_filename n False) else None)"

definition sample_cs :: chunkserver where
  "sample_cs = \<lparr>cs_addr = dfs_chunk_addr1, cs_id = 0, cs_client_addrs = [0, 0, 0, 0], cs_n_conns = 0, cs_store = sample_chunks\<rparr>"

definition sample_mfs :: master_fs where
  "sample_mfs = \<lparr>mf_fsys = sample_fsys, mf_mirror = sample_mirror\<rparr>"

definition sample_server :: "u32 \<Rightarrow> server_state \<Rightarrow> chunkserver_status" where
  "sample_server a s = \<lparr>ss_addr = a, ss_status = s, ss_storage = 32768, ss_usage = 0, ss_cur_hb_id = 4\<rparr>"

definition sample_master :: dfs_master where
  "sample_master = \<lparr>ma_fs = sample_mfs, ma_addr = dfs_master_addr,
     ma_chunkservers = [sample_server dfs_chunk_addr1 CHUNK_OK, sample_server dfs_chunk_addr2 CHUNK_DOWN],
     ma_num_chunkserver = 2, ma_num_act_server = 1, ma_cur_hb_id = 5, ma_client_addrs = [default_client_addr, 0, 0, 0],
     ma_n_conns = 1, ma_client_fs = [\<lparr>cl_id = 1, cl_cur_dir = sample_root, cl_root = sample_root, cl_chunk_id = 1\<rparr>],
     ma_client_num = 0, ma_fake_rand = -1\<rparr>"

definition sample_shell :: shell where
  "sample_shell = \<lparr>sh_master = \<lparr>co_port = 0, co_server = dfs_master_addr, co_client = default_client_addr\<rparr>,
     sh_chunk = \<lparr>co_port = 9, co_server = 0, co_client = default_client_addr\<rparr>, sh_net = quiet, sh_rx = [], sh_out = []\<rparr>"

definition sample_pkt :: dfs_pkt where
  "sample_pkt = replicate 32 0xAA"

definition sample_text :: cstr where
  "sample_text = str ''the quick brown fox jumps''"

lemma sample_holds: "mf_holds sample_mfs sample_files" "fs_holds sample_fsys sample_files" "chunks_hold sample_chunks sample_map"
proof -
  show "mf_holds sample_mfs sample_files" using holds_sample by (simp add: mf_holds_def sample_mfs_def sample_fsys_def sample_mirror_def)
  show h: "fs_holds sample_fsys sample_files" using holds_sample by (simp add: fs_holds_def sample_fsys_def)
  show "chunks_hold sample_chunks sample_map"
    unfolding chunks_hold_def using h by (intro conjI exI [of _ sample_files]) (auto simp: sample_chunks_def sample_map_def sample_fsys_def)
qed

lemma sample_attached: "attached sample_shell sample_master sample_cs"
  by (simp add: attached_def sample_shell_def sample_master_def sample_cs_def dfs_master_addr_def dfs_chunk_addr1_def
      DFS_MAX_CONN_def conn_ok_def ports_ok_def)

lemma sample_chunk_1: "sample_map 1 = None" "chunk_ok 1" "int_to_filename 1 False = name_1"
proof -
  show n: "int_to_filename 1 False = name_1" by code_simp
  show "chunk_ok 1" by (simp add: chunk_ok_def)
  with n show "sample_map 1 = None" using sample_contents(4) by (simp add: sample_map_def)
qed

lemma sample_room: "chunk_slot sample_chunks" "chunk_space sample_chunks" "chunk_cap sample_chunks = 512"
  "room_for (fs_vol sample_fsys) 0 20"
proof -
  show "chunk_slot sample_chunks"
    using has_slot_iff [OF sample_store] sample_slot
    by (auto simp: chunk_slot_def fs_has_slot_def sample_chunks_def sample_fsys_def slot_free_def sample_entries)
  show "chunk_space sample_chunks" using sample_free by (simp add: chunk_space_def fs_space_def sample_chunks_def sample_fsys_def)
  show "chunk_cap sample_chunks = 512" by (simp add: chunk_cap_def sample_chunks_def sample_fsys_def)
  show "room_for (fs_vol sample_fsys) 0 20" using sample_free by (simp add: room_for_def sample_fsys_def clusters_for_def)
qed

lemma sample_choice: "dfs_master_get_server_for_new_chunk sample_master = Inr (Some 0, sample_master\<lparr>ma_fake_rand := 0\<rparr>)"
  by (simp add: dfs_master_get_server_for_new_chunk_def sample_master_def sample_server_def)

lemma sample_port: "try_assign_port sample_cs default_client_addr =
    Inr (Some 0, sample_cs\<lparr>cs_client_addrs := [default_client_addr, 0, 0, 0], cs_n_conns := 1\<rparr>)"
  by (simp add: try_assign_port_def assign_port_def sample_cs_def DFS_MAX_CONN_def default_client_addr_def)

lemma sample_text_facts: "sample_text \<noteq> []" "0 \<notin> set sample_text" "34 \<notin> set sample_text" "length sample_text = 25"
  by code_simp+

lemma sample_pkt_length [simp]: "length sample_pkt = 32"
  by (simp add: sample_pkt_def)

lemma sample_stored: "\<exists>c. chunks_hold c (sample_map(1 \<mapsto> sample_text)) \<and> chunk_cap c = 512"
proof -
  obtain c1 where c1: "chunks_hold c1 (sample_map(1 \<mapsto> []))" "chunk_cap c1 = 512" "chunk_space c1"
    using fat_chunks.create_new [OF sample_holds(3) sample_chunk_1(2,1) sample_room(1)] sample_room(2,3) by auto
  have t: "c_string sample_text = sample_text" using c_string_no_nul [of sample_text "[]"] sample_text_facts(2) by (simp add: c_string_def)
  show ?thesis
    using fat_chunks.append_first [OF c1(1) sample_chunk_1(2) _ c1(3), of sample_text] c1(2) t sample_text_facts by auto
qed

lemma sample_master_fields:
  "ma_num_chunkserver sample_master = 2" "ma_cur_hb_id sample_master = 5"
  "ma_chunkservers sample_master = [sample_server dfs_chunk_addr1 CHUNK_OK, sample_server dfs_chunk_addr2 CHUNK_DOWN]"
  by (simp_all add: sample_master_def)

end
