(* ===== verification/Fs_Props.thy ===== *)
theory Fs_Props
  imports Dfs_Sample
begin

text \<open>
  The properties of the file system interface, of the working directories and of formatted output, each
  with a witness.
\<close>

section \<open>Files as a map\<close>

text \<open>The operations of the interface on files of a directory, and what they do to a map from names to contents.\<close>

datatype fs_op = OpCreate cstr | OpAppend cstr "u8 list" | OpWrite cstr "u8 list" | OpDelete cstr

fun fs_do :: "fsys \<Rightarrow> fs_mirror \<Rightarrow> cstr \<Rightarrow> fs_op \<Rightarrow> (bool \<times> fsys) res" where
  "fs_do s m dn (OpCreate f) = bind_r (fs_create s m dn f False False) (\<lambda>(r, _, s'). Inr (r, s'))"
| "fs_do s m dn (OpAppend f d) = fs_append s m dn f d"
| "fs_do s m dn (OpWrite f d) = fs_write s m dn f (Some (mem_of d)) (of_nat (length d))"
| "fs_do s m dn (OpDelete f) = fs_delete s m dn f"

fun map_do :: "(cstr \<Rightarrow> u8 list option) \<Rightarrow> fs_op \<Rightarrow> bool \<times> (cstr \<Rightarrow> u8 list option)" where
  "map_do M (OpCreate f) = (True, case M f of None \<Rightarrow> M(f \<mapsto> []) | Some _ \<Rightarrow> M)"
| "map_do M (OpAppend f d) = (True, M(f \<mapsto> the (M f) @ c_string d))"
| "map_do M (OpWrite f d) = (case M f of None \<Rightarrow> (False, M) | Some _ \<Rightarrow> (True, M(f \<mapsto> d)))"
| "map_do M (OpDelete f) = (M f \<noteq> None, M(f := None))"

text \<open>
  When the operation is within what the driver can do. All names are dotted 8.3 names. A new file needs a free
  directory entry. An append goes to an existing file whose contents have no NUL, since \<open>fs_append\<close> measures them with
  \<open>strlen\<close>. New contents are not empty and need as many clusters as the old ones or one more: data that needs fewer clusters
  is lost, and an empty file cannot grow by two clusters (both are proved in \<open>Fat32_Props\<close>).
\<close>

fun op_fits :: "vol \<Rightarrow> pi_dirent \<Rightarrow> (cstr \<Rightarrow> u8 list option) \<Rightarrow> fs_op \<Rightarrow> bool" where
  "op_fits v r M (OpCreate f) \<longleftrightarrow> (M f = None \<longrightarrow> file_name f \<and> has_slot v r)"
| "op_fits v r M (OpAppend f d) \<longleftrightarrow> (case M f of None \<Rightarrow> False
     | Some b \<Rightarrow> 0 \<notin> set b \<and> room_for v (length b) (length b + length (c_string d)))"
| "op_fits v r M (OpWrite f d) \<longleftrightarrow> (case M f of None \<Rightarrow> file_name f | Some b \<Rightarrow> room_for v (length b) (length d))"
| "op_fits v r M (OpDelete f) \<longleftrightarrow> file_name f"

lemma write_missing_at:
  assumes "resolves s m dn r" "holds (fs_vol s) r M" "file_name f" "M f = None"
  shows "fs_write s m dn f d n = Inr (False, s)"
  using holds_write_missing [OF assms(2-4)] assms(1) by (simp add: fs_write_def resolves_def)

lemma write_list_at:
  assumes "resolves s m dn r" "holds (fs_vol s) r M" "M f = Some b" "room_for (fs_vol s) (length b) (length d)"
  shows "\<exists>v. fs_write s m dn f (Some (mem_of d)) (of_nat (length d)) = Inr (True, s\<lparr>fs_vol := v\<rparr>) \<and> holds v r (M(f \<mapsto> d))"
proof -
  have "unat (of_nat (length d) :: u32) = length d" using assms(4) by (intro unat_of_nat_u32) (simp add: room_for_def)
  then show ?thesis using write_at [OF assms(1-3), of "of_nat (length d)" "mem_of d"] assms(4) map_mem_of [of d] by auto
qed

text \<open>C3: In any directory that \<open>dirname\<close> names and whose files, under dotted 8.3 names, hold the contents of a map,
  creating, appending to, writing and deleting a file do on the disk what they do on the map, with the same return value, and
  leave every other file of the directory as it is. The operation must fit: a new file needs a free entry; an append goes to an existing file
  without NULs; new contents are not empty and need as many clusters as the old ones or one more (theory \<open>Fat32_Props\<close>
  shows how the code fails on shrinking and on growing an empty file by two clusters). A write to a missing file returns false and changes nothing.\<close>

theorem fs_refines_map:
  assumes "resolves s m dn r" "holds (fs_vol s) r M" "op_fits (fs_vol s) r M op"
  shows "\<exists>v. fs_do s m dn op = Inr (fst (map_do M op), s\<lparr>fs_vol := v\<rparr>) \<and> holds v r (snd (map_do M op))"
proof (cases op)
  case (OpCreate f)
  show ?thesis
  proof (cases "M f")
    case None
    then show ?thesis using create_at [OF assms(1,2), of f False] assms(3) OpCreate by (auto simp del: fun_upd_apply)
  next
    case (Some b)
    then show ?thesis
      using create_again_at [OF assms(1,2), of f False] assms(2) OpCreate by (intro exI [of _ "fs_vol s"]) simp
  qed
next
  case (OpAppend f d)
  then show ?thesis
    using append_at [OF assms(1,2), of f _ d] assms(3) by (auto split: option.splits simp del: fun_upd_apply)
next
  case (OpWrite f d)
  show ?thesis
  proof (cases "M f")
    case None
    then show ?thesis
      using write_missing_at [OF assms(1,2), of f] assms(2,3) OpWrite by (intro exI [of _ "fs_vol s"]) simp
  next
    case (Some b)
    then show ?thesis using write_list_at [OF assms(1,2), of f b d] assms(3) OpWrite by (auto simp del: fun_upd_apply)
  qed
next
  case (OpDelete f)
  then show ?thesis using delete_at [OF assms(1,2), of f] assms(3) by (auto simp del: fun_upd_apply)
qed

theorem fs_refines_map_witness:
  "\<exists>v. fs_do sample_fsys sample_mirror (str ''~'') (OpAppend name_A [65, 66, 0, 67]) = Inr (True, sample_fsys\<lparr>fs_vol := v\<rparr>)
    \<and> holds v sample_root (sample_files(name_A \<mapsto> replicate 5 7 @ [65, 66]))"
proof -
  have "fs_root sample_fsys = Some sample_root" "fs_vol sample_fsys = sample_vol" by (simp_all add: sample_fsys_def)
  moreover from this have "holds (fs_vol sample_fsys) sample_root sample_files" using sample_holds(2) by (simp add: fs_holds_def)
  moreover have "op_fits (fs_vol sample_fsys) sample_root sample_files (OpAppend name_A [65, 66, 0, 67])"
    using sample_contents(1) by (simp add: room_for_def sample_fsys_def clusters_for_def c_string_def)
  ultimately show ?thesis
    using fs_refines_map [of sample_fsys sample_mirror "str ''~''" sample_root sample_files "OpAppend name_A [65, 66, 0, 67]"]
      resolves_home [of sample_fsys sample_root sample_mirror] sample_contents(1)
    by (simp add: c_string_def del: fun_upd_apply fs_do.simps)
qed

section \<open>Working directories\<close>

text \<open>C26: A mirror's working directory is always the head of its chain of directories and the chain ends in the root;
  changing the directory keeps this, leaves the mirror unchanged when it fails, and going up after
  going down returns to the same mirror.\<close>

theorem changedir_consistent:
  assumes "mirror_ok s m" "fs_changedir s m dirname = Inr (ok, m')"
  shows "mirror_ok s m' \<and> (\<not> ok \<longrightarrow> m' = m) \<and> (ok \<longrightarrow> plain_name dirname \<longrightarrow> fs_changedir s m' (str ''..'') = Inr (True, m))"
  using changedir_ok [OF assms] changedir_down_up [OF assms(1), of dirname m'] assms(2) by (cases ok) auto

theorem changedir_consistent_witness:
  "\<exists>m'. fs_changedir sample_fsys sample_mirror name_A = Inr (True, m') \<and> mirror_ok sample_fsys m'
    \<and> fs_changedir sample_fsys m' (str ''..'') = Inr (True, sample_mirror)"
proof -
  have ok: "mirror_ok sample_fsys sample_mirror" by (simp add: mirror_ok_def sample_fsys_def sample_mirror_def)
  have n: "strip_slash name_A = name_A" "name_A \<noteq> []" "name_A \<noteq> str ''~''" "name_A \<noteq> str ''.''" "name_A \<noteq> str ''..''" "plain_name name_A"
    by code_simp+
  obtain e0 where "dirent_convert (sample_dir ! 0) = Inr e0"
    using to_8dot3_raw83 [OF sample_names(1)] by (simp add: dirent_convert_def fat32_dirent_name_def sample_dir_alt sample_dirent_def)
  then obtain e where "fat32_stat sample_vol sample_root name_A = Inr (Some e)"
    using fat32_stat_ok [OF sample_dir_ok sample_names(1)] sample_match(1) by (auto simp: sample_entries)
  then have "\<exists>m'. fs_changedir sample_fsys sample_mirror name_A = Inr (True, m')"
    using n(1-5) by (simp add: fs_changedir_def dirname_to_directory_def Let_def sample_fsys_def sample_mirror_def)
  then show ?thesis using changedir_consistent [OF ok] n(6) by metis
qed

section \<open>Numbers in text\<close>

text \<open>C35: Every number that \<open>printk\<close> writes in base 2, 10 or 16 fits into its buffer of 33 characters, and \<open>scank\<close> reads
  it back: after the digits and a character that is no digit it has the same 32-bit value.\<close>

theorem digits_fit_and_read_back:
  assumes "emit_val base u = Inr chars" "is_digit t base = Inr None"
  shows "length chars \<le> 32 \<and> absorb_val base None (chars @ t # inp) = Inr (u, t, inp)"
proof -
  have "base = 2 \<or> base = 10 \<or> base = 16" using assms(1) by (simp add: emit_val_def split: if_splits)
  from absorb_emit [OF this assms(2,1)] emit_val_length [OF assms(1)] show ?thesis by simp
qed

lemma emit_4711: "emit_val 10 4711 = Inr (str ''4711'')" "is_digit 32 10 = Inr None"
  by code_simp+

theorem digits_fit_and_read_back_witness:
  "length (str ''4711'') \<le> 32 \<and> absorb_val 10 None (str ''4711'' @ 32 # []) = Inr (4711, 32, [])"
  by (rule digits_fit_and_read_back [OF emit_4711])

section \<open>Radios\<close>

text \<open>From boot on exactly two calls get a radio, whatever other flags are set in between: the third and every later
  claim fails.\<close>

lemma two_radios:
  "map fst [dfs_nrf_claim boot_flags, dfs_nrf_claim (snd (dfs_nrf_claim boot_flags))] = [True, True]
   \<and> \<not> fst (dfs_nrf_claim ((snd (dfs_nrf_claim (snd (dfs_nrf_claim boot_flags))))\<lparr>uart_ready := u, kmalloc_ready := k, fat32_ready := f\<rparr>))"
  by (simp add: dfs_nrf_claim_def boot_flags_def set_nrf1_ready_def set_nrf2_ready_def)

end
