(* ===== verification/Dfs_Props.thy ===== *)
theory Dfs_Props
  imports Dfs_Sample
begin

text \<open>
  The properties of the distributed file system, each with a witness on the sample system.
\<close>

section \<open>The whole system\<close>

text \<open>C1: A text that \<open>echo "text" >> file\<close> writes into an empty file is printed again by \<open>cat file\<close>: the
  shell's requests, served in order by the master and the chunk server, place the chunk, store the
  text, find the chunk again and bring the text back. The text has at most 127 characters, no NUL and
  no quote, fits into one cluster, and its length is not a multiple of 16 (otherwise no NUL follows it in
  the client's buffer).\<close>

theorem echo_then_cat:
  assumes "attached sh m cs" "length cj = 32" "length sj = 32" "length pad = 3" "length buf = 1024"
    and file_empty: "mf_holds (ma_fs m) M" "M g = Some []" "0 \<notin> set g" "length g \<le> 11" "room_for (fs_vol (mf_fsys (ma_fs m))) 0 20"
    and chosen: "dfs_master_get_server_for_new_chunk m = Inr (Some s, m1)" "s < length (ma_chunkservers m)"
      "ss_addr (ma_chunkservers m ! s) = cs_addr cs" "cs_addr cs \<noteq> -1"
    and client: "unat (ma_client_num m) < length (ma_client_fs m)" "k = cl_chunk_id (ma_client_fs m ! unat (ma_client_num m))"
    and port: "try_assign_port cs default_client_addr = Inr (Some i, cs1)"
    and chunk: "chunks_hold (cs_store cs) N" "chunk_ok k" "N k = None" "chunk_slot (cs_store cs)" "chunk_space (cs_store cs)"
    and words: "t \<noteq> []" "0 \<notin> set t" "34 \<notin> set t" "length t < 128" "length t mod 16 \<noteq> 0" "length t \<le> chunk_cap (cs_store cs)"
  shows "\<exists>sh1 m2 cs2 sh2. exchange (echo_line t g) cj buf sj pad (sh, m, cs) (sh1, m2, cs2)
    \<and> exchange (cat_line g) cj buf sj pad (sh1, m2, cs2) (sh2, m2, cs2)
    \<and> chunks_hold (cs_store cs2) (N(k \<mapsto> t)) \<and> sh_out sh2 = sh_out sh @ t @ [10]"
proof -
  obtain sh1 m2 cs2 where e: "exchange (echo_line t g) cj buf sj pad (sh, m, cs) (sh1, m2, cs2)" "attached sh1 m2 cs2"
    "mf_holds (ma_fs m2) (M(g \<mapsto> maps_bytes [(pad, single_replica k (cs_addr cs2))]))"
    "chunks_hold (cs_store cs2) (N(k \<mapsto> t))" "try_assign_port cs2 default_client_addr = Inr (Some i, cs2)"
    "cs_addr cs2 = cs_addr cs" "sh_out sh1 = sh_out sh"
    using echo_exchange [OF assms(1) file_empty assms(4,2,3) chosen(1-3) client port chunk words(1-4,6)] by blast
  obtain sh2 where "exchange (cat_line g) cj buf sj pad (sh1, m2, cs2) (sh2, m2, cs2)" "sh_out sh2 = sh_out sh1 @ t @ [10]"
    using cat_exchange [OF e(2,3) _ file_empty(3,4) assms(4,2,3) _ e(5,4) chunk(2) _ words(1,2) _ words(5) assms(5)]
      chosen(4) e(6) words(4) by fastforce
  then show ?thesis using e by auto
qed

theorem echo_then_cat_witness:
  "\<exists>sh1 m2 cs2 sh2. exchange (echo_line sample_text name_E) sample_pkt (replicate 1024 9) sample_pkt [1, 2, 3]
      (sample_shell, sample_master, sample_cs) (sh1, m2, cs2)
    \<and> exchange (cat_line name_E) sample_pkt (replicate 1024 9) sample_pkt [1, 2, 3] (sh1, m2, cs2) (sh2, m2, cs2)
    \<and> chunks_hold (cs_store cs2) (sample_map(1 \<mapsto> sample_text)) \<and> sh_out sh2 = sh_out sample_shell @ sample_text @ [10]"
proof -
  have "mf_holds (ma_fs sample_master) sample_files" "room_for (fs_vol (mf_fsys (ma_fs sample_master))) 0 20"
    using sample_holds(1) sample_room(4) by (simp_all add: sample_master_def sample_mfs_def)
  moreover have "ss_addr (ma_chunkservers sample_master ! 0) = cs_addr sample_cs" "0 < length (ma_chunkservers sample_master)"
    "cs_addr sample_cs \<noteq> -1" "unat (ma_client_num sample_master) < length (ma_client_fs sample_master)"
    "1 = cl_chunk_id (ma_client_fs sample_master ! unat (ma_client_num sample_master))" "cs_store sample_cs = sample_chunks"
    by (simp_all add: sample_master_def sample_server_def sample_cs_def dfs_chunk_addr1_def)
  moreover have "0 \<notin> set name_E" "length name_E \<le> 11" by (simp_all add: name_E_def)
  ultimately show ?thesis
    using echo_then_cat [OF sample_attached, of sample_pkt sample_pkt "[1, 2, 3]" "replicate 1024 9" sample_files name_E 0 _ 1 0 _ sample_map sample_text]
      sample_contents(2) sample_choice sample_port sample_holds(3) sample_chunk_1 sample_room sample_text_facts by simp
qed

text \<open>C21: A listing that the master sends in pieces of 27 characters is printed by the client without a gap. The
  client's result is 1 (success) only when the last piece has at most four characters: the text of the
  piece overlays the status byte of the packet, and the client then reports 2.\<close>

theorem listing_printed:
  assumes "send_works n" "length p = 32" "0 \<notin> set t" "t \<noteq> []"
  shows "\<exists>ps. ls_loop n client p t = n\<lparr>sent := sent n @ map (\<lambda>q. (client, q)) ps\<rparr>
    \<and> listing_loop [] (map RxPkt ps) = Inr (if (length t - 1) mod 27 < 4 then 1 else 2, t, [])"
proof -
  obtain ps where "ls_loop n client p t = n\<lparr>sent := sent n @ map (\<lambda>q. (client, q)) ps\<rparr>"
    "\<forall>out rest. listing_loop out (map RxPkt ps @ rest) = Inr (if (length t - 1) mod 27 < 4 then 1 else 2, out @ t, rest)"
    using ls_loop_heard [OF assms] by blast
  then show ?thesis by (intro exI [of _ ps]) (metis append_Nil append_Nil2)
qed

theorem listing_printed_witness:
  "\<exists>ps. ls_loop quiet default_client_addr sample_pkt sample_text = quiet\<lparr>sent := map (\<lambda>q. (default_client_addr, q)) ps\<rparr>
    \<and> listing_loop [] (map RxPkt ps) = Inr (2, sample_text, [])"
  using listing_printed [of quiet sample_pkt sample_text default_client_addr] sample_text_facts by simp

section \<open>The chunk server\<close>

text \<open>C5: A read request for bytes the chunk has is answered, when every send succeeds, with exactly the packets of the
  reference \<open>pieces\<close>: the bytes from the requested offset up to the requested number or the end of the chunk, cut into
  pieces of 16 bytes, one packet for each piece with the chunk number, the offset of the piece in the chunk, its bytes filled
  up with zeros, and the code \<open>DFS_END_RD\<close> in the last packet only.\<close>

theorem chunk_read_packets:
  assumes "chunks_hold (cs_store cs) M" "chunk_ok (chunk_id_sqn p)" "M (chunk_id_sqn p) = Some b"
    "unat (port_id p) < DFS_MAX_CONN" "length (cs_client_addrs cs) = DFS_MAX_CONN"
    "unat (q_offset p) < length b" "0 < q_nbytes p" "unat (q_offset p) + unat (q_nbytes p) < 4294967296"
    "length b < 4294967280" "send_works n" "length junk = 32"
  shows "\<exists>qs. chunk_rd cs n junk p = Inr (cs, n\<lparr>sent := sent n @ map (Pair (cs_client_addrs cs ! unat (port_id p))) qs\<rparr>)
    \<and> list_all2 (\<lambda>(off, fin, d) q. op_code q = (if fin then DFS_END_RD else DFS_RD) \<and> chunk_id_sqn q = chunk_id_sqn p
        \<and> status q = STATUS_SUCCESS \<and> d_offset q = of_nat off \<and> d_data q = d @ replicate (16 - length d) 0)
      (pieces (unat (q_offset p)) (take (unat (q_nbytes p)) (drop (unat (q_offset p)) b))) qs"
proof -
  let ?ps = "pieces (unat (q_offset p)) (take (unat (q_nbytes p)) (drop (unat (q_offset p)) b))"
  have "length d \<le> 16" if "(off, fin, d) \<in> set ?ps" for off fin d using pieces_short that .
  then show ?thesis
    using chunk_rd_ok [OF assms(1-10), of junk] reply_fields [OF assms(11)]
    by (intro exI [of _ "map (rd_reply junk (chunk_id_sqn p)) ?ps"]) (auto simp: list_all2_map2 comp_def intro!: list.rel_refl_strong)
qed

theorem chunk_read_packets_witness:
  "\<exists>c qs. chunks_hold c (sample_map(1 \<mapsto> sample_text))
    \<and> chunk_rd (sample_cs\<lparr>cs_store := c\<rparr>) quiet sample_pkt (query_packet \<lparr>co_port = 2, co_server = 0, co_client = 0\<rparr> sample_pkt 1)
      = Inr (sample_cs\<lparr>cs_store := c\<rparr>, quiet\<lparr>sent := map (Pair 0) qs\<rparr>)
    \<and> list_all2 (\<lambda>(off, fin, d) q. op_code q = (if fin then DFS_END_RD else DFS_RD) \<and> d_offset q = of_nat off) (pieces 0 sample_text) qs"
proof -
  let ?q = "query_packet \<lparr>co_port = 2, co_server = 0, co_client = 0\<rparr> sample_pkt 1"
  have st: "cs_store sample_cs = sample_chunks" by (simp add: sample_cs_def)
  obtain c where c: "chunks_hold c (sample_map(1 \<mapsto> sample_text))"
    using store_pieces [of sample_cs sample_map 1 sample_text sample_pkt quiet 0 sample_pkt] st sample_holds(3) sample_chunk_1 sample_room
      sample_text_facts by auto
  have q: "chunk_id_sqn ?q = 1" "q_offset ?q = 0" "q_nbytes ?q = 1024" "unat (port_id ?q) = 2"
    using query_packet_fields [OF sample_pkt_length] by (simp_all add: CHUNK_SIZE_def)
  have "cs_client_addrs sample_cs = [0, 0, 0, 0]" by (simp add: sample_cs_def)
  then obtain qs where "chunk_rd (sample_cs\<lparr>cs_store := c\<rparr>) quiet sample_pkt ?q
      = Inr (sample_cs\<lparr>cs_store := c\<rparr>, quiet\<lparr>sent := map (Pair 0) qs\<rparr>)"
    "list_all2 (\<lambda>(off, fin, d) q. op_code q = (if fin then DFS_END_RD else DFS_RD) \<and> chunk_id_sqn q = 1 \<and> status q = STATUS_SUCCESS
      \<and> d_offset q = of_nat off \<and> d_data q = d @ replicate (16 - length d) 0) (pieces 0 sample_text) qs"
    using chunk_read_packets [of "sample_cs\<lparr>cs_store := c\<rparr>" "sample_map(1 \<mapsto> sample_text)" ?q sample_text quiet sample_pkt]
      c q sample_chunk_1(2) sample_text_facts sample_pkt_length by (auto simp: DFS_MAX_CONN_def fun_upd_same simp del: fun_upd_apply)
  then show ?thesis using c by (intro exI [of _ c] exI [of _ qs]) (auto elim!: list_all2_mono simp del: fun_upd_apply)
qed

text \<open>C20: The chunk server's table of connections keeps its invariant as long as the server runs, whatever packets
  arrive: four ports, no client on two of them, and a counter equal to the number of ports in use. In every state that is reached
  a request for a connection is served without fault, so the assertion of \<open>try_assign_port\<close> never fails: a known
  client gets its port, a new one an idle port, and the request is refused only when all four are taken.\<close>

theorem connections_kept:
  assumes "conn_ok cs" "dfs_chunkserver_main_start cs n es = Inr (cs', n')"
    "op_code p = DFS_CNCT" "length junk = 32"
  shows "conn_ok cs' \<and> (\<exists>r cs'' q. chunkserver_step cs' n' (RxPkt p) junk = Inr (cs'', n'\<lparr>sent := sent n' @ [(conn_addr p, q)]\<rparr>)
    \<and> conn_ok cs'' \<and> assigned (cs_client_addrs cs') (conn_addr p) r (cs_client_addrs cs'') \<and> cnct_reply r q)"
proof -
  have "conn_ok cs'" using run_conn_ok [OF assms(1,2)] .
  then show ?thesis using chunk_cnct_ok [of cs' junk n' p] assms(3,4) by (simp add: chunkserver_step_def)
qed

theorem connections_kept_witness:
  "\<exists>cs' n' r cs'' q. dfs_chunkserver_main_start sample_cs quiet
      [(RxPkt (cnct_packet (sh_chunk sample_shell) sample_pkt), sample_pkt), (RxTimeout, sample_pkt)] = Inr (cs', n')
    \<and> chunkserver_step cs' n' (RxPkt (cnct_packet (sh_chunk sample_shell) sample_pkt)) sample_pkt = Inr (cs'', n'\<lparr>sent := sent n' @ [q]\<rparr>)
    \<and> conn_ok cs'' \<and> cnct_reply r (snd q)"
proof -
  let ?p = "cnct_packet (sh_chunk sample_shell) sample_pkt"
  let ?es = "[(RxPkt ?p, sample_pkt), (RxTimeout, sample_pkt)]"
  have c: "conn_ok sample_cs" using sample_attached by (simp add: attached_def)
  have o: "op_code ?p = DFS_CNCT" using sample_pkt_length by (simp add: cnct_packet_def field_get field_set)
  have "co_client (sh_chunk sample_shell) = default_client_addr" by (simp add: sample_shell_def)
  then obtain cs' n' where r: "dfs_chunkserver_main_start sample_cs quiet ?es = Inr (cs', n')"
    using server_accepts [of sample_cs "sh_chunk sample_shell"] sample_port by (simp add: chunkserver_step_def)
  show ?thesis using connections_kept [OF c r o sample_pkt_length] r by fastforce
qed

text \<open>C32: A chunk number from 1 to 99999999 has a valid 8.3 file name, and different numbers have different names.\<close>

theorem chunk_names:
  "chunk_ok n \<Longrightarrow> fat32_is_valid_name (int_to_filename n False) \<and> (\<forall>k. int_to_filename k False = int_to_filename n False \<longrightarrow> k = n)"
  using chunk_file_name [of n] chunk_name_inj by (auto simp: file_name_def)

theorem chunk_names_witness: "fat32_is_valid_name (int_to_filename 4711 False)"
  using chunk_names [of 4711] by (simp add: chunk_ok_def)

text \<open>The chunk server takes a packet with the code \<open>DFS_RM\<close> as a write: it appends the packet's data to the
  chunk that should be removed.\<close>

lemma chunk_remove_appends:
  assumes "op_code p = DFS_RM" "chunks_hold (cs_store cs) M" "chunk_ok (chunk_id_sqn p)" "M (chunk_id_sqn p) = Some b"
    "b \<noteq> []" "0 \<notin> set b" "length b + length (c_string (d_data p)) \<le> chunk_cap (cs_store cs)"
  shows "\<exists>c. chunkserver_step cs n (RxPkt p) junk = Inr (cs\<lparr>cs_store := c\<rparr>, n)
    \<and> chunks_hold c (M(chunk_id_sqn p \<mapsto> b @ c_string (d_data p)))"
  using store_data_more [OF assms(2-7)] assms(1) by (auto simp: chunkserver_step_def chunk_wr_def opcode_defs simp del: fun_upd_apply)

section \<open>The master\<close>

text \<open>C19: A heartbeat cycle advances the heartbeat number and sends one packet to every chunk server, with the code of a
  heartbeat, the new number and the address of the master. Every server gets its state: down exactly when its last answer is more
  than three numbers behind, also across the wrap-around of the counter. The number of active servers loses one for each
  server that is behind (whether it was active or not) and gains one for each that is back.\<close>

theorem heartbeat_cycle:
  assumes "unat (ma_num_chunkserver m) \<le> length (ma_chunkservers m)" "length junk = 32"
  shows "\<exists>m' ps. hb_cycle m n junk = Inr (m', n\<lparr>sent := sent n @ ps\<rparr>)
    \<and> ma_cur_hb_id m' = ma_cur_hb_id m + 1
    \<and> map fst ps = map ss_addr (take (unat (ma_num_chunkserver m)) (ma_chunkservers m))
    \<and> list_all (\<lambda>(_, q). op_code q = DFS_HB \<and> hb_id q = ma_cur_hb_id m + 1 \<and> hb_addr q = ma_addr m) ps
    \<and> ma_chunkservers m' = map (\<lambda>cs. cs\<lparr>ss_status := if answer_age (ma_cur_hb_id m + 1) cs > 3 then CHUNK_DOWN else CHUNK_OK\<rparr>)
        (take (unat (ma_num_chunkserver m)) (ma_chunkservers m)) @ drop (unat (ma_num_chunkserver m)) (ma_chunkservers m)
    \<and> ma_num_act_server m' = ma_num_act_server m
        - of_nat (length (filter (\<lambda>cs. answer_age (ma_cur_hb_id m + 1) cs > 3) (take (unat (ma_num_chunkserver m)) (ma_chunkservers m))))
        + of_nat (length (filter (\<lambda>cs. \<not> answer_age (ma_cur_hb_id m + 1) cs > 3 \<and> ss_status cs = CHUNK_DOWN)
            (take (unat (ma_num_chunkserver m)) (ma_chunkservers m))))"
proof -
  let ?css = "take (unat (ma_num_chunkserver m)) (ma_chunkservers m)" and ?q = "hb_packet (m\<lparr>ma_cur_hb_id := ma_cur_hb_id m + 1\<rparr>) junk"
  have q: "op_code ?q = DFS_HB" "hb_id ?q = ma_cur_hb_id m + 1" "hb_addr ?q = ma_addr m"
    using assms(2) by (simp_all add: hb_packet_def field_get field_set)
  have lag: "lagging cur = (\<lambda>cs. answer_age cur cs > 3)" for cur by (simp add: fun_eq_iff lagging_age)
  have beat: "beat cur = (\<lambda>cs. cs\<lparr>ss_status := if answer_age cur cs > 3 then CHUNK_DOWN else CHUNK_OK\<rparr>)" for cur
    by (simp add: fun_eq_iff beat_def lag)
  show ?thesis unfolding hb_cycle_ok [OF assms(1)] Let_def fold_beat_act lag beat
    by (rule exI, rule exI [of _ "map (\<lambda>cs. (ss_addr cs, ?q)) ?css"], intro conjI, rule refl) (simp_all add: q list_all_iff comp_def)
qed

theorem heartbeat_cycle_witness:
  "\<exists>m' ps. hb_cycle sample_master quiet sample_pkt = Inr (m', quiet\<lparr>sent := ps\<rparr>) \<and> map fst ps = [dfs_chunk_addr1, dfs_chunk_addr2]
    \<and> list_all (\<lambda>(_, q). op_code q = DFS_HB \<and> hb_id q = ma_cur_hb_id sample_master + 1) ps"
proof -
  obtain m' ps where "hb_cycle sample_master quiet sample_pkt = Inr (m', quiet\<lparr>sent := sent quiet @ ps\<rparr>)"
    "map fst ps = map ss_addr (take (unat (ma_num_chunkserver sample_master)) (ma_chunkservers sample_master))"
    "list_all (\<lambda>(_, q). op_code q = DFS_HB \<and> hb_id q = ma_cur_hb_id sample_master + 1 \<and> hb_addr q = ma_addr sample_master) ps"
    using heartbeat_cycle [of sample_master sample_pkt quiet] sample_pkt_length by (auto simp: sample_master_fields)
  then show ?thesis by (intro exI [of _ m'] exI [of _ ps]) (auto simp: sample_master_fields sample_server_def list_all_iff)
qed

text \<open>C38: A server that lags is counted out again in every cycle, whether it was active or not: its heartbeat takes one
  off the number of active servers each time, so the unsigned counter can run below zero, after which
  \<open>dfs_master_get_server_for_new_chunk\<close> names a server although none is active.\<close>

theorem dead_server_counted_again:
  assumes "i < length (ma_chunkservers m)" "lagging (ma_cur_hb_id m) (ma_chunkservers m ! i)" "ma_num_act_server m = 0"
    "unat (ma_num_chunkserver m) \<le> length (ma_chunkservers m)" "list_all (\<lambda>cs. ss_status cs = CHUNK_DOWN) (ma_chunkservers m)"
  shows "\<exists>m' n' m2. hb_server m n junk i = Inr (m', n') \<and> ma_num_act_server m' = 0xFFFFFFFF
    \<and> list_all (\<lambda>cs. ss_status cs = CHUNK_DOWN) (ma_chunkservers m')
    \<and> dfs_master_get_server_for_new_chunk m' = Inr (Some 0, m2)"
proof -
  let ?cs = "ma_chunkservers m ! i"
  let ?m = "m\<lparr>ma_chunkservers := (ma_chunkservers m)[i := ?cs\<lparr>ss_status := CHUNK_DOWN\<rparr>], ma_num_act_server := -1\<rparr>"
  have h: "\<exists>n'. hb_server m n junk i = Inr (?m, n')"
    using assms(1-3) by (simp add: hb_server_def lagging_def Let_def)
  have down: "list_all (\<lambda>cs. ss_status cs = CHUNK_DOWN) (ma_chunkservers ?m)"
    using assms(5) by (auto simp: list_all_iff dest: set_update_subset_insert [THEN subsetD])
  have pick: "list_all (\<lambda>cs. ss_status cs = CHUNK_DOWN) css \<Longrightarrow> pick_loop css k f s = (s, f)" for css k f s
    by (induction css arbitrary: k) auto
  have "list_all (\<lambda>cs. ss_status cs = CHUNK_DOWN) (take (unat (ma_num_chunkserver m)) (ma_chunkservers ?m))"
    using down by (auto simp: list_all_iff dest: in_set_takeD)
  then have "\<exists>m2. dfs_master_get_server_for_new_chunk ?m = Inr (Some 0, m2)"
    using assms(4) by (simp add: dfs_master_get_server_for_new_chunk_def pick)
  then obtain m2 where m2: "dfs_master_get_server_for_new_chunk ?m = Inr (Some 0, m2)" by blast
  obtain n' where "hb_server m n junk i = Inr (?m, n')" using h by blast
  with down m2 show ?thesis by (intro exI [of _ ?m] exI [of _ n'] exI [of _ m2]) simp
qed

definition dead_master :: dfs_master where
  "dead_master = sample_master\<lparr>ma_chunkservers := [sample_server dfs_chunk_addr1 CHUNK_DOWN], ma_num_chunkserver := 1,
     ma_num_act_server := 0, ma_cur_hb_id := 9\<rparr>"

theorem dead_server_counted_again_witness:
  "\<exists>m' n' m2. hb_server dead_master quiet sample_pkt 0 = Inr (m', n') \<and> ma_num_act_server m' = 0xFFFFFFFF
    \<and> dfs_master_get_server_for_new_chunk m' = Inr (Some 0, m2)"
  using dead_server_counted_again [of 0 dead_master quiet sample_pkt]
  by (auto simp: dead_master_def sample_server_def lagging_def DFS_HB_MAX_LAG_def)

text \<open>C30: With at least two active servers the server chosen for a new chunk is active (with a single one it may be
  server 0 whatever its state).\<close>

theorem chosen_server_active:
  assumes "unat (ma_num_chunkserver m) \<le> length (ma_chunkservers m)" "ma_num_act_server m \<noteq> 0"
    "a < unat (ma_num_chunkserver m)" "ss_status (ma_chunkservers m ! a) = CHUNK_OK"
    "b < unat (ma_num_chunkserver m)" "ss_status (ma_chunkservers m ! b) = CHUNK_OK" "a \<noteq> b"
  shows "\<exists>i m'. dfs_master_get_server_for_new_chunk m = Inr (Some i, m') \<and> i < unat (ma_num_chunkserver m)
    \<and> ss_status (ma_chunkservers m ! i) = CHUNK_OK"
proof -
  let ?css = "take (unat (ma_num_chunkserver m)) (ma_chunkservers m)"
  have "active_at ?css 0 a" "active_at ?css 0 b" using assms by (simp_all add: active_at_def)
  then have "active_at ?css 0 (fst (pick_loop ?css 0 (ma_fake_rand m) 0))" using pick_two assms(7) by blast
  then show ?thesis
    using assms(1,2) by (auto simp: dfs_master_get_server_for_new_chunk_def case_prod_beta Let_def active_at_def)
qed

theorem chosen_server_active_witness:
  "\<exists>i m'. dfs_master_get_server_for_new_chunk (sample_master\<lparr>ma_chunkservers := [sample_server dfs_chunk_addr1 CHUNK_DOWN,
      sample_server dfs_chunk_addr2 CHUNK_OK, sample_server dfs_chunk_addr3 CHUNK_OK], ma_num_chunkserver := 3\<rparr>) = Inr (Some i, m') \<and> 0 < i \<and> i < 3"
proof -
  let ?m = "sample_master\<lparr>ma_chunkservers := [sample_server dfs_chunk_addr1 CHUNK_DOWN,
      sample_server dfs_chunk_addr2 CHUNK_OK, sample_server dfs_chunk_addr3 CHUNK_OK], ma_num_chunkserver := 3\<rparr>"
  have "ma_num_act_server ?m \<noteq> 0" by (simp add: sample_master_def)
  then obtain i m' where "dfs_master_get_server_for_new_chunk ?m = Inr (Some i, m')" "i < 3" "ss_status (ma_chunkservers ?m ! i) = CHUNK_OK"
    using chosen_server_active [of ?m 1 2] by (auto simp: sample_server_def)
  moreover have "i \<noteq> 0" using calculation(3) by (cases i) (simp_all add: sample_server_def)
  ultimately show ?thesis by blast
qed

text \<open>C39: A write to a chunk the file already has names the number of the file's chunks instead of the number the chunk
  was created with, so the data goes to another chunk unless the two agree.\<close>

theorem rewrite_names_wrong_chunk:
  assumes "mf_holds (ma_fs m) M" "M g = Some (maps_bytes xs)" "list_all map_wf xs" "unat sqn < length xs"
  shows "wr_place m pad g sqn = Inr (Some (of_nat (length xs), chunk_server_addrs (snd (xs ! unat sqn)) ! 0), m)"
proof -
  have "20 * length xs < 4294967296" using maps_file_read [OF assms(1-3)] by blast
  then have "unat (of_nat (length xs) :: u32) = length xs" by (intro unat_of_nat_u32) linarith
  then have "sqn < of_nat (length xs)" using assms(4) by (simp add: word_less_nat_alt)
  then show ?thesis
    using get_chunk_num_ok [OF assms(1-3)] get_chunks_ok [OF assms] by (simp add: wr_place_def)
qed

theorem rewrite_names_wrong_chunk_witness:
  "\<exists>f. mf_holds f (sample_files(name_E \<mapsto> maps_bytes [([0, 0, 0], single_replica 7 dfs_chunk_addr1)]))
    \<and> wr_place (sample_master\<lparr>ma_fs := f\<rparr>) [0, 0, 0] name_E 0 = Inr (Some (1, dfs_chunk_addr1), sample_master\<lparr>ma_fs := f\<rparr>)"
proof -
  let ?x = "([0, 0, 0], single_replica 7 dfs_chunk_addr1)"
  have "room_for (fs_vol (mf_fsys sample_mfs)) 0 20" using sample_room(4) by (simp add: sample_mfs_def)
  then obtain f where f: "mf_holds f (sample_files(name_E \<mapsto> maps_bytes [?x]))"
    using add_chunk_server_ok [OF sample_holds(1), of name_E "[]" 0 "[0, 0, 0]" 7 dfs_chunk_addr1] sample_contents(2)
    by (auto simp: maps_bytes_def simp del: fun_upd_apply)
  show ?thesis
    using rewrite_names_wrong_chunk [of "sample_master\<lparr>ma_fs := f\<rparr>" "sample_files(name_E \<mapsto> maps_bytes [?x])" name_E "[?x]" 0 "[0, 0, 0]"] f
    by (intro exI [of _ f]) (simp add: fun_upd_same map_wf_def single_replica_def del: fun_upd_apply)
qed

section \<open>The client\<close>

text \<open>The client takes any answer to its connect request as success: a refusal returns 0 just as an acceptance does,
  and the connection keeps the port it had.\<close>

lemma refusal_is_success:
  assumes "op_code q \<noteq> DFS_ACP"
  shows "\<exists>n'. dfs_client_try_connect conn n junk (replicate k RxTimeout @ RxPkt q # rs) = Inr (0, conn, n', rs)"
proof -
  have "\<exists>n'. connect_loop conn n p (replicate k RxTimeout @ RxPkt q # rs) = Inr (0, conn, n', rs)" for n p
    using assms by (induction k arbitrary: n) simp_all
  then show ?thesis by (simp add: dfs_client_try_connect_def Let_def)
qed

text \<open>C31: The request for a chunk to write is sent again until the radio takes it: if some send succeeds the function
  returns, after exactly the sends that failed and one more; if every send fails it never returns.\<close>

theorem write_request_until_sent:
  assumes "length g \<le> 12"
  shows "case dfs_client_write_chunk_meta conn n junk rs g (of_nat (length g)) 0 of
      Inl e \<Rightarrow> e = Diverges \<and> (\<forall>j. send_ret n (length (sent n) + j) = -1)
    | Inr (q, n', rs') \<Rightarrow> \<exists>k. map (\<lambda>j. send_ret n (length (sent n) + j)) [0..<k] = replicate k (-1)
        \<and> send_ret n (length (sent n) + k) \<noteq> -1
        \<and> n' = n\<lparr>sent := sent n @ replicate (Suc k) (co_server conn, named_request conn junk DFS_WR g)\<rparr>"
proof (cases "\<forall>j. send_ret n (length (sent n) + j) = -1")
  case True
  then have "send_until n a p = None" for a p using send_until_some [of n a p] by (cases "send_until n a p") auto
  then show ?thesis
    using True put_name_request [OF assms, of conn DFS_WR junk] by (simp add: dfs_client_write_chunk_meta_def)
next
  case False
  define k where "k = (LEAST j. send_ret n (length (sent n) + j) \<noteq> -1)"
  have k: "send_ret n (length (sent n) + k) \<noteq> -1" using False unfolding k_def by (metis (mono_tags, lifting) LeastI_ex)
  have fail: "\<forall>j<k. send_ret n (length (sent n) + j) = -1" unfolding k_def using not_less_Least by blast
  then have u: "send_until n a p = Some (n\<lparr>sent := sent n @ replicate (Suc k) (a, p)\<rparr>)" for a p
    using send_until_ok k by blast
  have "map (\<lambda>j. send_ret n (length (sent n) + j)) [0..<k] = replicate k (-1)"
    using fail by (intro nth_equalityI) auto
  then show ?thesis
    using put_name_request [OF assms, of conn DFS_WR junk] k u
    by (auto simp: dfs_client_write_chunk_meta_def Let_def case_prod_beta)
qed

definition busy_net :: net where
  "busy_net = \<lparr>sent = [], send_ret = \<lambda>k. if k < 2 then -1 else 32\<rparr>"

theorem write_request_until_sent_witness:
  "case dfs_client_write_chunk_meta (sh_master sample_shell) busy_net sample_pkt [] name_E (of_nat (length name_E)) 0 of
      Inl e \<Rightarrow> False
    | Inr (q, n', rs') \<Rightarrow> \<exists>k. map (\<lambda>j. send_ret busy_net j) [0..<k] = replicate k (-1) \<and> send_ret busy_net k \<noteq> -1
        \<and> n' = busy_net\<lparr>sent := replicate (Suc k) (co_server (sh_master sample_shell), named_request (sh_master sample_shell) sample_pkt DFS_WR name_E)\<rparr>"
proof -
  have "length name_E \<le> 12" by (simp add: name_E_def)
  note * = write_request_until_sent [OF this, where conn = "sh_master sample_shell" and n = busy_net and junk = sample_pkt and rs = "[]"]
  have "\<not> (\<forall>j. send_ret busy_net (length (sent busy_net) + j) = -1)"
    by (intro notI, drule spec [of _ 2]) (simp add: busy_net_def)
  moreover have "sent busy_net = []" by (simp add: busy_net_def)
  ultimately show ?thesis using * by (auto split: sum.splits)
qed

end
