(* ===== verification/Thread_Core.thy ===== *)
theory Thread_Core
  imports LinkedQ
begin

text \<open>
  What the two thread packages share. Both keep thread blocks in intrusive queues (\<open>LinkedQ\<close>) whose
  \<open>next\<close> fields live in one heap, so an operation on one queue must be shown not to disturb the
  others; and both promise to run the runnable threads in turn, which is the locale \<open>round_robin\<close>.
\<close>

section \<open>Several queues in one heap\<close>

lemma Q_rep_cong: "\<lbrakk>Q_rep nx q xs; \<And>a. a \<in> set xs \<Longrightarrow> nx' a = nx a\<rbrakk> \<Longrightarrow> Q_rep nx' q xs"
proof -
  have "chain nx p ys \<Longrightarrow> (\<And>a. a \<in> set ys \<Longrightarrow> nx' a = nx a) \<Longrightarrow> chain nx' p ys" for p ys
    by (induction ys arbitrary: p) auto
  then show "Q_rep nx q xs \<Longrightarrow> (\<And>a. a \<in> set xs \<Longrightarrow> nx' a = nx a) \<Longrightarrow> Q_rep nx' q xs"
    by (auto simp: Q_rep_def)
qed

lemma Q_rep_nonzero: "Q_rep nx q xs \<Longrightarrow> 0 \<notin> set xs"
  using chain_nonzero by (auto simp: Q_rep_def)

lemma Q_rep_distinct: "Q_rep nx q xs \<Longrightarrow> distinct xs"
  by (simp add: Q_rep_def)

lemma Q_rep_start: "Q_rep nx q (x # xs) \<Longrightarrow> Q_start q = x"
  by (simp add: Q_rep_def Q_start_def)

text \<open>\<open>queues nx ps\<close>: the queues of \<open>ps\<close> hold the listed elements, no element is in two places.\<close>

definition queues :: "links \<Rightarrow> (Q \<times> ptr list) list \<Rightarrow> bool" where
  "queues nx ps \<longleftrightarrow> (\<forall>(q, xs) \<in> set ps. Q_rep nx q xs) \<and> distinct (concat (map snd ps))"

lemma queues_append:
  assumes "queues nx ((q, xs) # ps)" "e \<noteq> 0" "e \<notin> set xs" "e \<notin> set (concat (map snd ps))"
  shows "\<exists>q' nx'. Q_append q e nx = (q', nx') \<and> queues nx' ((q', xs @ [e]) # ps)"
proof -
  from assms have "Q_rep nx q xs" by (simp add: queues_def)
  from Q_append_rep [OF this assms(2,3)] obtain q' nx' where
    q': "Q_append q e nx = (q', nx')" "Q_rep nx' q' (xs @ [e])"
      "\<And>a. a \<noteq> e \<Longrightarrow> a \<notin> set xs \<Longrightarrow> nx' a = nx a" by blast
  have "Q_rep nx' r ys" if "(r, ys) \<in> set ps" for r ys
  proof (rule Q_rep_cong)
    show "Q_rep nx r ys" using assms(1) that by (auto simp: queues_def)
    show "nx' a = nx a" if "a \<in> set ys" for a
      using assms that \<open>(r, ys) \<in> set ps\<close> by (intro q'(3)) (force simp: queues_def)+
  qed
  with q' assms show ?thesis by (auto simp: queues_def)
qed

lemma queues_push:
  assumes "queues nx ((q, xs) # ps)" "e \<noteq> 0" "e \<notin> set xs" "e \<notin> set (concat (map snd ps))"
  shows "\<exists>q' nx'. Q_push q e nx = (q', nx') \<and> queues nx' ((q', e # xs) # ps)"
proof -
  from assms have "Q_rep nx q xs" by (simp add: queues_def)
  from Q_push_rep [OF this assms(2,3)] obtain q' nx' where
    q': "Q_push q e nx = (q', nx')" "Q_rep nx' q' (e # xs)" "\<And>a. a \<noteq> e \<Longrightarrow> nx' a = nx a" by blast
  have "Q_rep nx' r ys" if "(r, ys) \<in> set ps" for r ys
  proof (rule Q_rep_cong)
    show "Q_rep nx r ys" using assms(1) that by (auto simp: queues_def)
    show "nx' a = nx a" if "a \<in> set ys" for a
      using assms that \<open>(r, ys) \<in> set ps\<close> by (intro q'(3)) auto
  qed
  with q' assms show ?thesis by (auto simp: queues_def)
qed

lemma queues_pop:
  assumes "queues nx ((q, x # xs) # ps)"
  shows "\<exists>q'. Q_pop q nx = Inr (x, q') \<and> queues nx ((q', xs) # ps)"
  using assms Q_pop_cons [of nx q x xs] by (auto simp: queues_def)

lemma queues_swap: "queues nx (a # b # ps) \<longleftrightarrow> queues nx (b # a # ps)"
  by (auto simp: queues_def)

lemma queues_third: "queues nx [a, b, c] \<longleftrightarrow> queues nx [c, a, b]"
  by (auto simp: queues_def)

lemma queues_nonzero: "queues nx ps \<Longrightarrow> 0 \<notin> set (concat (map snd ps))"
  by (auto simp: queues_def dest!: Q_rep_nonzero)

section \<open>Thread blocks\<close>

text \<open>The address of a block: not null, and aligned so that the stack inside it is.\<close>

definition block_ok :: "ptr \<Rightarrow> bool" where
  "block_ok p \<longleftrightarrow> p \<noteq> 0 \<and> p mod 8 = 0"

lemma block_ok_nonzero: "block_ok p \<Longrightarrow> p \<noteq> 0"
  by (simp add: block_ok_def)

lemma aligned_offset:
  fixes p d :: u32
  assumes "p mod 8 = 0" "d mod 8 = 0"
  shows "(p + d) mod 8 = 0"
proof -
  have *: "q mod 8 = 0 \<longleftrightarrow> unat q mod 8 = 0" for q :: u32
    using unat_mod_u32 [of q 8] by (simp add: unat_eq_iff [of "q mod 8" 0])
  have "(unat p + unat d) mod 4294967296 mod 8 = (unat p + unat d) mod 8"
    by (rule mod_mod_cancel) simp
  also have "\<dots> = 0" using assms unfolding * by (simp add: mod_add_eq flip: mod_add_left_eq)
  finally show ?thesis unfolding * by (simp add: unat_add_u32)
qed

lemma block_ok_stack: "block_ok p \<Longrightarrow> (p + 24) mod 8 = 0" "block_ok p \<Longrightarrow> (p + 32) mod 8 = 0"
  using aligned_offset [of p 24] aligned_offset [of p 32] by (simp_all add: block_ok_def)

section \<open>The contract of a round-robin scheduler\<close>

text \<open>
  \<open>line s\<close> is the running thread followed by the ready threads. A turn gives the processor to the
  next thread; its input \<open>i\<close> is what the running thread did to the registers meanwhile.
\<close>

fun turns_r :: "('i \<Rightarrow> 's \<Rightarrow> 's res) \<Rightarrow> 'i list \<Rightarrow> 's \<Rightarrow> 's res" where
  "turns_r turn [] s = Inr s"
| "turns_r turn (i # is) s = bind_r (turn i s) (turns_r turn is)"

locale round_robin =
  fixes ok :: "'s \<Rightarrow> bool"
    and line :: "'s \<Rightarrow> ptr list"
    and good :: "'i \<Rightarrow> bool"
    and turn :: "'i \<Rightarrow> 's \<Rightarrow> 's res"
  assumes turn: "ok s \<Longrightarrow> good i \<Longrightarrow>
      \<exists>s'. turn i s = Inr s' \<and> ok s' \<and> line s' = rotate1 (line s)"
begin

lemma turns:
  assumes "ok s" "list_all good is"
  shows "\<exists>s'. turns_r turn is s = Inr s' \<and> ok s' \<and> line s' = rotate (length is) (line s)"
  using assms
proof (induction "is" arbitrary: s)
  case Nil
  then show ?case by simp
next
  case (Cons i "is")
  from turn [of s i] Cons.prems obtain s1 where
    s1: "turn i s = Inr s1" "ok s1" "line s1 = rotate1 (line s)" by auto
  from Cons.IH [OF s1(2)] Cons.prems obtain s2 where
    "turns_r turn is s1 = Inr s2" "ok s2" "line s2 = rotate (length is) (line s1)" by auto
  with s1 show ?case by (auto simp: rotate1_rotate_swap)
qed

text \<open>
  No thread starves: the thread at position \<open>n\<close> of the line runs after \<open>n\<close> turns, and after as many
  turns as there are threads the line is back where it was.
\<close>

lemma fair:
  assumes "ok s" "list_all good is" "length is < length (line s)"
  shows "\<exists>s'. turns_r turn is s = Inr s' \<and> ok s' \<and> hd (line s') = line s ! length is"
  using turns [OF assms(1,2)] assms(3) by (cases "line s = []") (auto simp: hd_rotate_conv_nth)

lemma full_round:
  assumes "ok s" "list_all good is" "length is = length (line s)"
  shows "\<exists>s'. turns_r turn is s = Inr s' \<and> ok s' \<and> line s' = line s"
  using turns [OF assms(1,2)] assms(3) by auto

end

end
