(* ===== verification/Rpi_Thread.thy ===== *)
theory Rpi_Thread
  imports Thread_Core
begin

text \<open>
  The cooperative threads of \<open>threads/rpi-thread.c\<close> with the context switch of
  \<open>threads/thread-asm.S\<close>. The registers a switch saves (r4 to r11 and lr) and the stack pointer are
  modelled, so that a switch really stores and reloads a context. A stack pointer is the index of a
  word in the stack array of the block it belongs to; the boot stack on which the scheduler runs is
  the array of the scheduler's block. \<open>kmalloc_aligned\<close> is not part of the sources: the block it
  returns is the argument \<open>fresh\<close>.
\<close>

section \<open>State\<close>

definition THREAD_MAXSTACK :: nat where
  "THREAD_MAXSTACK = 1024 * 8 div 4"

record rpi_thread =
  r_saved_sp :: nat
  r_tid :: u32
  r_fn :: u32
  r_arg :: u32
  r_stack :: "nat \<Rightarrow> u32"

record cpu =
  c_regs :: "u32 list"   \<comment> \<open>r4 to r11\<close>
  c_lr :: u32
  c_sp :: nat

record rpi_state =
  r_th :: "ptr \<Rightarrow> rpi_thread"
  r_next :: links
  r_runq :: Q
  r_freeq :: Q
  r_cur :: ptr
  r_sched :: ptr
  r_ntid :: u32
  r_nalloced :: u32

section \<open>Context switch\<close>

text \<open>\<open>stmdb\<close>: the words go to consecutive places, the first to the lowest.\<close>

definition put_words :: "nat \<Rightarrow> u32 list \<Rightarrow> (nat \<Rightarrow> u32) \<Rightarrow> (nat \<Rightarrow> u32)" where
  "put_words a ws st = (\<lambda>i. if a \<le> i \<and> i < a + length ws then ws ! (i - a) else st i)"

definition get_words :: "nat \<Rightarrow> nat \<Rightarrow> (nat \<Rightarrow> u32) \<Rightarrow> u32 list" where
  "get_words a n st = map (\<lambda>i. st (a + i)) [0..<n]"

text \<open>
  \<open>rpi_cswitch(&old->saved_sp, new_sp)\<close>, with \<open>new_sp\<close> the place \<open>sp\<close> of the stack of \<open>new\<close>: push the
  registers, store the stack pointer, take the new one, pop.
\<close>

definition rpi_cswitch :: "ptr \<Rightarrow> ptr \<Rightarrow> nat \<Rightarrow> cpu \<Rightarrow> rpi_state \<Rightarrow> (cpu \<times> rpi_state) res" where
  "rpi_cswitch old new sp c k =
     (if c_sp c < 9 then Inl OutOfBounds
      else
        let s = c_sp c - 9; th = r_th k old;
            k1 = k\<lparr>r_th := (r_th k)(old := th\<lparr>r_stack := put_words s (c_regs c @ [c_lr c]) (r_stack th),
                                              r_saved_sp := s\<rparr>)\<rparr>;
            ws = get_words sp 9 (r_stack (r_th k1 new))
        in Inr (\<lparr>c_regs = take 8 ws, c_lr = ws ! 8, c_sp = sp + 9\<rparr>, k1))"

section \<open>Operations\<close>

text \<open>\<open>&t->stack[0]\<close> is 24 bytes behind the start of the block.\<close>

definition r_th_alloc :: "ptr \<Rightarrow> rpi_state \<Rightarrow> (ptr \<times> rpi_state) res" where
  "r_th_alloc fresh k =
     bind_r (Q_pop (r_freeq k) (r_next k)) (\<lambda>(t0, fq).
     let k1 = k\<lparr>r_freeq := fq\<rparr>;
         t = (if t0 = 0 then fresh else t0);
         k2 = (if t0 = 0 then k1\<lparr>r_nalloced := r_nalloced k1 + 1\<rparr> else k1)
     in bind_r (demand_r ((t + 24) mod 8 = 0) ''stack must be 8-byte aligned!'') (\<lambda>_.
        Inr (t, k2\<lparr>r_th := (r_th k2)(t := (r_th k2 t)\<lparr>r_tid := r_ntid k2\<rparr>),
                  r_ntid := r_ntid k2 + 1\<rparr>)))"

definition r_th_free :: "ptr \<Rightarrow> rpi_state \<Rightarrow> rpi_state" where
  "r_th_free th k = (case Q_push (r_freeq k) th (r_next k) of (q, nx) \<Rightarrow> k\<lparr>r_freeq := q, r_next := nx\<rparr>)"

definition rpi_cur_thread :: "rpi_state \<Rightarrow> ptr" where
  "rpi_cur_thread k = r_cur k"

text \<open>\<open>tramp\<close> is the address of \<open>rpi_init_trampoline\<close>.\<close>

definition rpi_fork :: "u32 \<Rightarrow> ptr \<Rightarrow> u32 \<Rightarrow> u32 \<Rightarrow> rpi_state \<Rightarrow> (ptr \<times> rpi_state) res" where
  "rpi_fork tramp fresh code arg k =
     bind_r (r_th_alloc fresh k) (\<lambda>(t, k1).
     let th = r_th k1 t; sp = THREAD_MAXSTACK - 10;
         th' = th\<lparr>r_arg := arg, r_fn := code, r_saved_sp := sp,
                  r_stack := (r_stack th)(sp := arg, sp + 1 := code, sp + 8 := tramp)\<rparr>;
         k2 = k1\<lparr>r_th := (r_th k1)(t := th')\<rparr>
     in case Q_append (r_runq k2) t (r_next k2) of (q, nx) \<Rightarrow>
        Inr (t, k2\<lparr>r_runq := q, r_next := nx\<rparr>))"

definition rpi_exit :: "cpu \<Rightarrow> rpi_state \<Rightarrow> (cpu \<times> rpi_state) res" where
  "rpi_exit c k =
     bind_r (Q_empty (r_runq k)) (\<lambda>e.
     bind_r (if e then Inr (r_sched k, r_runq k) else Q_pop (r_runq k) (r_next k)) (\<lambda>(nxt, rq).
     let old = r_cur k;
         k1 = r_th_free old (k\<lparr>r_runq := rq\<rparr>);
         k2 = k1\<lparr>r_cur := nxt\<rparr>
     in rpi_cswitch old nxt (r_saved_sp (r_th k2 nxt)) c k2))"

definition rpi_yield :: "cpu \<Rightarrow> rpi_state \<Rightarrow> (cpu \<times> rpi_state) res" where
  "rpi_yield c k =
     bind_r (Q_empty (r_runq k)) (\<lambda>e.
     if e then Inr (c, k)
     else
       bind_r (Q_pop (r_runq k) (r_next k)) (\<lambda>(new, rq).
       let old = r_cur k in
       case Q_append rq old (r_next k) of (q, nx) \<Rightarrow>
         let k1 = k\<lparr>r_runq := q, r_next := nx, r_cur := new\<rparr>
         in rpi_cswitch old new (r_saved_sp (r_th k1 new)) c k1))"

definition rpi_thread_start :: "ptr \<Rightarrow> cpu \<Rightarrow> rpi_state \<Rightarrow> (cpu \<times> rpi_state) res" where
  "rpi_thread_start fresh c k =
     bind_r (Q_empty (r_runq k)) (\<lambda>e.
     if e then Inr (c, k)
     else
       bind_r (if r_sched k = 0
               then bind_r (r_th_alloc fresh k) (\<lambda>(t, k1). Inr (k1\<lparr>r_sched := t, r_cur := t\<rparr>))
               else Inr k) (\<lambda>k2.
       bind_r (Q_pop (r_runq k2) (r_next k2)) (\<lambda>(t, rq).
       let old = r_cur k2; k3 = k2\<lparr>r_runq := rq, r_cur := t\<rparr>
       in rpi_cswitch old t (r_saved_sp (r_th k3 t)) c k3)))"

section \<open>The abstract machine\<close>

text \<open>
  What the package promises, without queues, blocks or stacks: a running thread with its registers
  and a line of ready threads, each with the registers it will resume with.
\<close>

type_synonym machine = "(ptr \<times> cpu) \<times> (ptr \<times> cpu) list"

fun m_yield :: "machine \<Rightarrow> machine" where
  "m_yield (run, []) = (run, [])"
| "m_yield (run, r # rs) = (r, rs @ [run])"

fun m_exit :: "ptr \<times> cpu \<Rightarrow> machine \<Rightarrow> machine" where
  "m_exit sched (run, []) = (sched, [])"
| "m_exit sched (run, r # rs) = (r, rs)"

definition m_fork :: "ptr \<times> cpu \<Rightarrow> machine \<Rightarrow> machine" where
  "m_fork t m = (fst m, snd m @ [t])"

text \<open>The registers a block resumes with.\<close>

definition context_of :: "rpi_thread \<Rightarrow> cpu" where
  "context_of th = (let ws = get_words (r_saved_sp th) 9 (r_stack th)
                    in \<lparr>c_regs = take 8 ws, c_lr = ws ! 8, c_sp = r_saved_sp th + 9\<rparr>)"

definition r_ready :: "rpi_state \<Rightarrow> ptr list" where
  "r_ready k = Q_elems (r_runq k, r_next k)"

definition r_free :: "rpi_state \<Rightarrow> ptr list" where
  "r_free k = Q_elems (r_freeq k, r_next k)"

definition rpi_view :: "cpu \<Rightarrow> rpi_state \<Rightarrow> machine" where
  "rpi_view c k = ((r_cur k, c), map (\<lambda>p. (p, context_of (r_th k p))) (r_ready k))"

text \<open>Well-formed registers: eight words, and room for a frame below the stack pointer.\<close>

definition cpu_ok :: "cpu \<Rightarrow> bool" where
  "cpu_ok c \<longleftrightarrow> length (c_regs c) = 8 \<and> 9 \<le> c_sp c"

text \<open>
  Well-formed thread state: every block is in one place only (ready, free, running or the
  scheduler's), and all are aligned.
\<close>

definition r_places :: "rpi_state \<Rightarrow> ptr list" where
  "r_places k = r_ready k @ r_free k @ r_cur k # (if r_sched k = r_cur k then [] else [r_sched k])"

definition rpi_inv :: "rpi_state \<Rightarrow> bool" where
  "rpi_inv k \<longleftrightarrow> Q_inv (r_runq k, r_next k) \<and> Q_inv (r_freeq k, r_next k)
     \<and> distinct (r_places k) \<and> list_all block_ok (r_places k)"

section \<open>A switch stores one context and loads the other\<close>

lemma get_put_words: "length ws = n \<Longrightarrow> get_words a n (put_words a ws st) = ws"
  by (auto simp: get_words_def put_words_def intro!: nth_equalityI)

lemma length_get_words [simp]: "length (get_words a n st) = n"
  by (simp add: get_words_def)

lemma cpu_ok_context [simp]: "cpu_ok (context_of th)"
  by (simp add: cpu_ok_def context_of_def Let_def)

lemma rpi_cswitch_contexts:
  assumes "cpu_ok c" "old \<noteq> new"
  obtains th where "rpi_cswitch old new (r_saved_sp (r_th k new)) c k
        = Inr (context_of (r_th k new), k\<lparr>r_th := (r_th k)(old := th)\<rparr>)"
    "context_of th = c"
proof -
  let ?s = "c_sp c - 9" and ?old = "r_th k old"
  let ?th = "?old\<lparr>r_stack := put_words ?s (c_regs c @ [c_lr c]) (r_stack ?old), r_saved_sp := ?s\<rparr>"
  have "rpi_cswitch old new (r_saved_sp (r_th k new)) c k
      = Inr (context_of (r_th k new), k\<lparr>r_th := (r_th k)(old := ?th)\<rparr>)"
    using assms by (simp add: rpi_cswitch_def context_of_def cpu_ok_def Let_def)
  moreover have "context_of ?th = c"
    using assms by (cases c) (simp add: context_of_def cpu_ok_def Let_def get_put_words nth_append)
  ultimately show ?thesis by (rule that)
qed

section \<open>Every operation refines the abstract machine\<close>

lemma rpi_inv_queues:
  "rpi_inv k \<Longrightarrow> queues (r_next k) [(r_runq k, r_ready k), (r_freeq k, r_free k)]"
  by (auto simp: rpi_inv_def queues_def Q_inv_def r_ready_def r_free_def r_places_def)

lemma rpi_invI:
  assumes "queues (r_next k) [(r_runq k, rs), (r_freeq k, fs)]"
    and "distinct (rs @ fs @ r_cur k # (if r_sched k = r_cur k then [] else [r_sched k]))"
    and "list_all block_ok
           (rs @ fs @ r_cur k # (if r_sched k = r_cur k then [] else [r_sched k]))"
  shows "rpi_inv k" "r_ready k = rs" "r_free k = fs"
proof -
  show r: "r_ready k = rs" "r_free k = fs"
    using assms(1) by (simp_all add: queues_def r_ready_def r_free_def Q_rep_elems)
  show "rpi_inv k"
    using assms by (auto simp: rpi_inv_def r_places_def r queues_def intro: Q_rep_inv)
qed

lemma rpi_inv_places: "rpi_inv k \<Longrightarrow> distinct (r_places k) \<and> list_all block_ok (r_places k)"
  by (simp add: rpi_inv_def)

lemma rpi_empty: "rpi_inv k \<Longrightarrow> Q_empty (r_runq k) = Inr (r_ready k = [])"
  using rpi_inv_queues [of k] by (auto simp: queues_def intro: Q_empty_rep)

lemma rpi_yield_refines:
  assumes "rpi_inv k" "cpu_ok c" "r_cur k \<noteq> r_sched k"
  shows "\<exists>c' k'. rpi_yield c k = Inr (c', k') \<and> rpi_inv k' \<and> cpu_ok c'
           \<and> rpi_view c' k' = m_yield (rpi_view c k)
           \<and> r_sched k' = r_sched k \<and> r_cur k' \<noteq> r_sched k'
           \<and> r_cur k' # r_ready k' = rotate1 (r_cur k # r_ready k) \<and> set (r_places k') = set (r_places k)"
proof (cases "r_ready k")
  case Nil
  with assms show ?thesis by (auto simp: rpi_yield_def rpi_empty rpi_view_def)
next
  case (Cons x xs)
  let ?cur = "r_cur k"
  note qs = rpi_inv_queues [OF assms(1)] and pl = rpi_inv_places [OF assms(1), unfolded r_places_def]
  from queues_pop [OF qs [unfolded Cons]] obtain q1 where
    q1: "Q_pop (r_runq k) (r_next k) = Inr (x, q1)"
      "queues (r_next k) [(q1, xs), (r_freeq k, r_free k)]" by blast
  have cur: "?cur \<noteq> 0" "?cur \<notin> set xs" "?cur \<notin> set (r_free k)" "?cur \<noteq> x"
    using pl Cons by (auto simp: block_ok_def)
  from queues_append [OF q1(2), of ?cur] cur obtain q2 nx where
    q2: "Q_append q1 ?cur (r_next k) = (q2, nx)"
      "queues nx [(q2, xs @ [?cur]), (r_freeq k, r_free k)]" by auto
  let ?k = "k\<lparr>r_runq := q2, r_next := nx, r_cur := x\<rparr>"
  obtain th where th: "rpi_cswitch ?cur x (r_saved_sp (r_th ?k x)) c ?k
      = Inr (context_of (r_th ?k x), ?k\<lparr>r_th := (r_th ?k)(?cur := th)\<rparr>)" "context_of th = c"
    using rpi_cswitch_contexts [OF assms(2) cur(4)] by blast
  let ?k' = "?k\<lparr>r_th := (r_th ?k)(?cur := th)\<rparr>"
  have run: "rpi_yield c k = Inr (context_of (r_th k x), ?k')"
    using th(1) q1(1) q2(1) Cons assms(1) by (simp add: rpi_yield_def rpi_empty)
  have inv: "rpi_inv ?k'" "r_ready ?k' = xs @ [?cur]" "r_free ?k' = r_free k"
    using rpi_invI [of ?k' "xs @ [?cur]" "r_free k"] q2(2) pl Cons assms(3) by auto
  have "rpi_view (context_of (r_th k x)) ?k' = m_yield (rpi_view c k)"
    using inv(2) Cons cur th(2) by (auto simp: rpi_view_def)
  moreover have "set (r_places ?k') = set (r_places k)"
    unfolding r_places_def inv(2,3) using Cons pl assms(3) by auto
  ultimately show ?thesis
    using run inv Cons pl assms(3) by auto
qed

lemma rpi_exit_refines:
  assumes "rpi_inv k" "cpu_ok c" "r_cur k \<noteq> r_sched k"
  shows "\<exists>c' k'. rpi_exit c k = Inr (c', k') \<and> rpi_inv k' \<and> cpu_ok c' \<and> r_sched k' = r_sched k
           \<and> rpi_view c' k' = m_exit (r_sched k, context_of (r_th k (r_sched k))) (rpi_view c k)
           \<and> r_free k' = r_cur k # r_free k \<and> set (r_places k') = set (r_places k)"
proof -
  let ?cur = "r_cur k"
  note qs = rpi_inv_queues [OF assms(1)] and pl = rpi_inv_places [OF assms(1), unfolded r_places_def]
  obtain nxt rs rq where nxt:
    "bind_r (Q_empty (r_runq k)) (\<lambda>e. if e then Inr (r_sched k, r_runq k) else Q_pop (r_runq k) (r_next k))
      = Inr (nxt, rq)"
    "queues (r_next k) [(rq, rs), (r_freeq k, r_free k)]"
    "(r_ready k = [] \<and> nxt = r_sched k \<and> rs = []) \<or> r_ready k = nxt # rs"
  proof (cases "r_ready k")
    case Nil
    with that [of "r_sched k" "r_runq k" "[]"] qs assms(1) show ?thesis by (simp add: rpi_empty)
  next
    case (Cons x xs)
    from queues_pop [OF qs [unfolded Cons]] obtain q1 where
      "Q_pop (r_runq k) (r_next k) = Inr (x, q1)"
      "queues (r_next k) [(q1, xs), (r_freeq k, r_free k)]" by blast
    with that [of x q1 xs] Cons assms(1) show ?thesis by (simp add: rpi_empty)
  qed
  have cur: "?cur \<noteq> 0" "?cur \<notin> set rs" "?cur \<notin> set (r_free k)" "?cur \<noteq> nxt"
    using pl nxt(3) assms(3) by (auto simp: block_ok_def)
  from queues_push [OF nxt(2) [unfolded queues_swap [of _ "(rq, rs)"]], of ?cur] cur obtain q2 nx where
    q2: "Q_push (r_freeq k) ?cur (r_next k) = (q2, nx)" "queues nx [(rq, rs), (q2, ?cur # r_free k)]"
    by (auto simp: queues_swap [of _ "(rq, rs)"])
  let ?k = "k\<lparr>r_runq := rq, r_freeq := q2, r_next := nx, r_cur := nxt\<rparr>"
  obtain th where th: "rpi_cswitch ?cur nxt (r_saved_sp (r_th ?k nxt)) c ?k
      = Inr (context_of (r_th ?k nxt), ?k\<lparr>r_th := (r_th ?k)(?cur := th)\<rparr>)" "context_of th = c"
    using rpi_cswitch_contexts [OF assms(2) cur(4)] by blast
  let ?k' = "?k\<lparr>r_th := (r_th ?k)(?cur := th)\<rparr>"
  have run: "rpi_exit c k = Inr (context_of (r_th k nxt), ?k')"
    using th(1) nxt(1) q2(1) unfolding rpi_exit_def rpi_empty [OF assms(1)]
    by (cases "r_ready k = []") (simp_all add: r_th_free_def)
  have inv: "rpi_inv ?k'" "r_ready ?k' = rs" "r_free ?k' = ?cur # r_free k"
    using rpi_invI [of ?k' rs "?cur # r_free k"] q2(2) pl nxt(3) cur assms(3) by auto
  have "rpi_view (context_of (r_th k nxt)) ?k'
      = m_exit (r_sched k, context_of (r_th k (r_sched k))) (rpi_view c k)"
    using inv(2) nxt(3) cur by (auto simp: rpi_view_def)
  moreover have "set (r_places ?k') = set (r_places k)"
    unfolding r_places_def inv(2,3) using nxt(3) pl assms(3) by auto
  ultimately show ?thesis
    using run inv by auto
qed

lemma r_th_alloc_ok:
  assumes "queues (r_next k) [(r_runq k, rs), (r_freeq k, fs)]" "list_all block_ok fs"
    and "block_ok fresh" "fresh \<notin> set fs"
  obtains t q fs' n where "r_th_alloc fresh k = Inr (t, k\<lparr>r_freeq := q, r_nalloced := n,
        r_th := (r_th k)(t := (r_th k t)\<lparr>r_tid := r_ntid k\<rparr>), r_ntid := r_ntid k + 1\<rparr>)"
    "queues (r_next k) [(r_runq k, rs), (q, fs')]"
    "(fs = [] \<and> t = fresh \<and> fs' = []) \<or> fs = t # fs'" "block_ok t"
proof (cases fs)
  case Nil
  with assms have "Q_pop (r_freeq k) (r_next k) = Inr (0, r_freeq k)"
    by (auto simp: queues_def intro: Q_pop_nil)
  with Nil assms that [where t = fresh and q = "r_freeq k" and n = "r_nalloced k + 1" and fs' = "[]"] show ?thesis
    by (simp add: r_th_alloc_def block_ok_stack block_ok_nonzero)
next
  case (Cons t fs')
  from queues_pop [of "r_next k" "r_freeq k" t fs' "[(r_runq k, rs)]"] assms(1) Cons obtain q where
    q: "Q_pop (r_freeq k) (r_next k) = Inr (t, q)" "queues (r_next k) [(r_runq k, rs), (q, fs')]"
    by (auto simp: queues_swap [of _ "(r_runq k, rs)"])
  with Cons assms that [where t = t and q = q and n = "r_nalloced k" and fs' = fs'] show ?thesis
    by (simp add: r_th_alloc_def block_ok_stack block_ok_nonzero)
qed

text \<open>The context a new thread starts with: it resumes in the trampoline, which calls r5 with r4.\<close>

definition starts :: "u32 \<Rightarrow> u32 \<Rightarrow> u32 \<Rightarrow> cpu \<Rightarrow> bool" where
  "starts tramp code arg c \<longleftrightarrow> cpu_ok c \<and> c_regs c ! 0 = arg \<and> c_regs c ! 1 = code
     \<and> c_lr c = tramp \<and> c_sp c = THREAD_MAXSTACK - 1"

lemma rpi_fork_refines:
  assumes "rpi_inv k" "block_ok fresh" "fresh \<notin> set (r_places k)"
  shows "\<exists>t k'. rpi_fork tramp fresh code arg k = Inr (t, k') \<and> rpi_inv k'
           \<and> rpi_view c k' = m_fork (t, context_of (r_th k' t)) (rpi_view c k)
           \<and> starts tramp code arg (context_of (r_th k' t)) \<and> t \<notin> set (r_ready k)
           \<and> r_tid (r_th k' t) = r_ntid k \<and> r_ntid k' = r_ntid k + 1
           \<and> r_cur k' = r_cur k \<and> r_sched k' = r_sched k"
proof -
  note qs = rpi_inv_queues [OF assms(1)] and pl = rpi_inv_places [OF assms(1), unfolded r_places_def]
  have "list_all block_ok (r_free k)" "fresh \<notin> set (r_free k)"
    using pl assms(3) by (auto simp: r_places_def)
  from r_th_alloc_ok [OF qs this(1) assms(2) this(2)] obtain t q fs n where
    al: "r_th_alloc fresh k = Inr (t, k\<lparr>r_freeq := q, r_nalloced := n,
        r_th := (r_th k)(t := (r_th k t)\<lparr>r_tid := r_ntid k\<rparr>), r_ntid := r_ntid k + 1\<rparr>)"
      "queues (r_next k) [(r_runq k, r_ready k), (q, fs)]"
      "(r_free k = [] \<and> t = fresh \<and> fs = []) \<or> r_free k = t # fs" "block_ok t" .
  have t: "t \<noteq> 0" "t \<notin> set (r_ready k)" "t \<notin> set fs" "t \<noteq> r_cur k" "t \<noteq> r_sched k"
    using al(3,4) pl assms(3) by (auto simp: block_ok_def r_places_def split: if_splits)
  from queues_append [OF al(2), of t] t obtain q2 nx where
    q2: "Q_append (r_runq k) t (r_next k) = (q2, nx)" "queues nx [(q2, r_ready k @ [t]), (q, fs)]"
    by auto
  let ?sp = "THREAD_MAXSTACK - 10"
  let ?th = "(r_th k t)\<lparr>r_tid := r_ntid k, r_arg := arg, r_fn := code, r_saved_sp := ?sp,
      r_stack := (r_stack (r_th k t))(?sp := arg, ?sp + 1 := code, ?sp + 8 := tramp)\<rparr>"
  let ?k' = "k\<lparr>r_freeq := q, r_nalloced := n, r_ntid := r_ntid k + 1,
      r_th := (r_th k)(t := ?th), r_runq := q2, r_next := nx\<rparr>"
  have run: "rpi_fork tramp fresh code arg k = Inr (t, ?k')"
    using al(1) q2(1) by (simp add: rpi_fork_def Let_def)
  have inv: "rpi_inv ?k'" "r_ready ?k' = r_ready k @ [t]"
    using rpi_invI [of ?k' "r_ready k @ [t]" fs] q2(2) pl al(3,4) t by (cases "r_sched k = r_cur k"; auto)+
  have "starts tramp code arg (context_of ?th)"
    by (simp add: starts_def cpu_ok_def context_of_def get_words_def THREAD_MAXSTACK_def Let_def upt_rec)
  moreover have "rpi_view c ?k' = m_fork (t, context_of ?th) (rpi_view c k)"
    unfolding rpi_view_def inv(2) using t(2) by (auto simp: m_fork_def)
  ultimately show ?thesis
    using run inv t by auto
qed

text \<open>The first call makes the caller the scheduler; the runnable threads then run one after the other.\<close>

lemma rpi_thread_start_first:
  assumes "queues (r_next k) [(r_runq k, x # xs), (r_freeq k, fs)]" "r_sched k = 0"
    and "list_all block_ok (x # xs @ fs)" "block_ok fresh" "fresh \<notin> set (x # xs @ fs)" "cpu_ok c"
  shows "\<exists>c' k'. rpi_thread_start fresh c k = Inr (c', k') \<and> rpi_inv k' \<and> cpu_ok c'
           \<and> rpi_view c' k' = ((x, context_of (r_th k x)), map (\<lambda>p. (p, context_of (r_th k p))) xs)
           \<and> r_cur k' \<noteq> r_sched k' \<and> context_of (r_th k' (r_sched k')) = c"
proof -
  have "list_all block_ok fs" "fresh \<notin> set fs" using assms(3,5) by auto
  from r_th_alloc_ok [OF assms(1) this(1) assms(4) this(2)] obtain t q fs' n where
    al: "r_th_alloc fresh k = Inr (t, k\<lparr>r_freeq := q, r_nalloced := n,
        r_th := (r_th k)(t := (r_th k t)\<lparr>r_tid := r_ntid k\<rparr>), r_ntid := r_ntid k + 1\<rparr>)"
      "queues (r_next k) [(r_runq k, x # xs), (q, fs')]"
      "(fs = [] \<and> t = fresh \<and> fs' = []) \<or> fs = t # fs'" "block_ok t" .
  from queues_pop [OF al(2)] obtain rq where
    rq: "Q_pop (r_runq k) (r_next k) = Inr (x, rq)" "queues (r_next k) [(rq, xs), (q, fs')]" by blast
  have t: "t \<noteq> x" "t \<notin> set xs" "t \<notin> set fs'"
    using al(3) assms(1,5) by (auto simp: queues_def)
  let ?k = "k\<lparr>r_freeq := q, r_nalloced := n, r_th := (r_th k)(t := (r_th k t)\<lparr>r_tid := r_ntid k\<rparr>),
      r_ntid := r_ntid k + 1, r_sched := t, r_runq := rq, r_cur := x\<rparr>"
  obtain th where th: "rpi_cswitch t x (r_saved_sp (r_th ?k x)) c ?k
      = Inr (context_of (r_th ?k x), ?k\<lparr>r_th := (r_th ?k)(t := th)\<rparr>)" "context_of th = c"
    using rpi_cswitch_contexts [OF assms(6) t(1)] by blast
  let ?k' = "?k\<lparr>r_th := (r_th ?k)(t := th)\<rparr>"
  have "Q_empty (r_runq k) = Inr False"
    using assms(1) Q_empty_rep [of "r_next k" "r_runq k" "x # xs"] by (simp add: queues_def)
  with al(1) rq(1) th(1) assms(2) t have run: "rpi_thread_start fresh c k = Inr (context_of (r_th k x), ?k')"
    by (simp add: rpi_thread_start_def)
  have inv: "rpi_inv ?k'" "r_ready ?k' = xs"
    using rpi_invI [of ?k' xs fs'] rq(2) al(3,4) t assms(1,3) by (auto simp: queues_def)
  have "rpi_view (context_of (r_th k x)) ?k'
      = ((x, context_of (r_th k x)), map (\<lambda>p. (p, context_of (r_th k p))) xs)"
    unfolding rpi_view_def inv(2) using t by auto
  with run inv th(2) t show ?thesis by auto
qed

section \<open>Yielding is a round-robin schedule\<close>

text \<open>A turn: the running thread has the registers \<open>c\<close> when it yields.\<close>

definition rpi_turn :: "cpu \<Rightarrow> cpu \<times> rpi_state \<Rightarrow> (cpu \<times> rpi_state) res" where
  "rpi_turn c s = rpi_yield c (snd s)"

definition rpi_line :: "cpu \<times> rpi_state \<Rightarrow> ptr list" where
  "rpi_line s = r_cur (snd s) # r_ready (snd s)"

definition rpi_running :: "cpu \<times> rpi_state \<Rightarrow> bool" where
  "rpi_running s \<longleftrightarrow> rpi_inv (snd s) \<and> r_cur (snd s) \<noteq> r_sched (snd s)"

interpretation coop: round_robin rpi_running rpi_line cpu_ok rpi_turn
proof unfold_locales
  fix s i
  assume "rpi_running s" "cpu_ok i"
  with rpi_yield_refines [of "snd s" i] show
    "\<exists>s'. rpi_turn i s = Inr s' \<and> rpi_running s' \<and> rpi_line s' = rotate1 (rpi_line s)"
    by (auto simp: rpi_turn_def rpi_running_def rpi_line_def)
qed

end
