(* ===== verification/Uart_Io.thy ===== *)
theory Uart_Io
  imports Circular
begin

text \<open>
  The console: the mini UART driver (\<open>libpi/src/uart.c\<close>), its interrupt side
  (\<open>libpi/src/uart-interrupt.c\<close>), the two character rings and the lock of
  \<open>preemptive-threads/thread-safe-io.c\<close> and \<open>libpi/include/lock.h\<close>.

  The device is a record: the interrupt-enable and interrupt-identify registers, the free places of
  the transmit FIFO, the receive FIFO and the bytes transmitted so far. As the BCM2835 manual
  says of \<open>AUX_MU_IO_REG\<close>, a read takes a byte from the receive FIFO and a write puts one into the
  transmit FIFO. Waiting for the device is \<open>Diverges\<close>; memory barriers have no counterpart.
\<close>

section \<open>The UART\<close>

record uart =
  u_ier :: u32
  u_iir :: u32
  u_room :: nat
  u_rx :: "u8 list"
  u_tx :: "u8 list"

definition io_read :: "uart \<Rightarrow> uart" where
  "io_read u = u\<lparr>u_rx := tl (u_rx u)\<rparr>"

definition io_write :: "u8 \<Rightarrow> uart \<Rightarrow> uart" where
  "io_write b u = (if u_room u = 0 then u else u\<lparr>u_room := u_room u - 1, u_tx := u_tx u @ [b]\<rparr>)"

definition uart_can_put8 :: "uart \<Rightarrow> bool" where
  "uart_can_put8 u \<longleftrightarrow> u_room u > 0"

definition uart_has_data :: "uart \<Rightarrow> bool" where
  "uart_has_data u \<longleftrightarrow> u_rx u \<noteq> []"

text \<open>Both functions read the data register before they write it back.\<close>

definition uart_put8 :: "u8 \<Rightarrow> uart \<Rightarrow> uart res" where
  "uart_put8 c u = (if \<not> uart_can_put8 u then Inl Diverges else Inr (io_write c (io_read u)))"

definition uart_get8 :: "uart \<Rightarrow> (u8 \<times> uart) res" where
  "uart_get8 u =
     (if \<not> uart_has_data u then Inl Diverges
      else let x = hd (u_rx u); u1 = io_read u; u2 = io_read u1 in Inr (x, io_write 0 u2))"

definition uart_get8_async :: "uart \<Rightarrow> (u8 option \<times> uart) res" where
  "uart_get8_async u =
     (if \<not> uart_has_data u then Inr (None, u)
      else bind_r (uart_get8 u) (\<lambda>(x, u'). Inr (Some x, u')))"

function uart_flush_rx :: "uart \<Rightarrow> uart res" where
  "uart_flush_rx u =
     bind_r (uart_get8_async u) (\<lambda>(r, u'). case r of None \<Rightarrow> Inr u' | Some _ \<Rightarrow> uart_flush_rx u')"
  by auto
termination
proof (relation "measure (\<lambda>u. length (u_rx u))")
  fix u x r u' and c :: u8
  assume "uart_get8_async u = Inr x" "(r, u') = x" "r = Some c"
  then show "(u', u) \<in> measure (\<lambda>u. length (u_rx u))"
    by (cases "u_rx u") (auto simp: uart_get8_async_def uart_get8_def uart_has_data_def io_read_def
        io_write_def Let_def split: if_splits)
qed simp

declare uart_flush_rx.simps [simp del]

definition uart_disable_interrupt :: "nat \<Rightarrow> uart \<Rightarrow> uart" where
  "uart_disable_interrupt is_tx u = u\<lparr>u_ier := u_ier u AND NOT (push_bit is_tx 1)\<rparr>"

definition uart_enable_interrupt :: "nat \<Rightarrow> uart \<Rightarrow> uart" where
  "uart_enable_interrupt is_tx u = u\<lparr>u_ier := u_ier u OR push_bit is_tx 1\<rparr>"

section \<open>The rings and the lock\<close>

record stdio =
  io_lock :: u32
  putQ :: cq
  getQ :: cq
  io_uart :: uart

definition read_stdio_tid :: "stdio \<Rightarrow> u32" where
  "read_stdio_tid s = io_lock s"

definition write_stdio_tid :: "u32 \<Rightarrow> stdio \<Rightarrow> stdio" where
  "write_stdio_tid t s = s\<lparr>io_lock := t\<rparr>"

definition stdio_is_idle :: "u32 \<Rightarrow> stdio \<Rightarrow> bool" where
  "stdio_is_idle t s \<longleftrightarrow> read_stdio_tid s = 0 \<or> read_stdio_tid s = t"

definition stdio_init :: "stdio \<Rightarrow> stdio res" where
  "stdio_init s = bind_r (cq_init True) (\<lambda>p. bind_r (cq_init True) (\<lambda>g. Inr (s\<lparr>putQ := p, getQ := g\<rparr>)))"

definition stdout_queue_is_full :: "stdio \<Rightarrow> bool" where
  "stdout_queue_is_full s = cq_full (putQ s)"

definition stdout_queue_is_empty :: "stdio \<Rightarrow> bool" where
  "stdout_queue_is_empty s = cq_empty (putQ s)"

definition stdin_queue_is_full :: "stdio \<Rightarrow> bool" where
  "stdin_queue_is_full s = cq_full (getQ s)"

definition stdin_queue_is_empty :: "stdio \<Rightarrow> bool" where
  "stdin_queue_is_empty s = cq_empty (getQ s)"

definition stdout_queue_push_char :: "u8 \<Rightarrow> stdio \<Rightarrow> stdio res" where
  "stdout_queue_push_char c s = bind_r (cq_push (putQ s) c) (\<lambda>(_, q). Inr (s\<lparr>putQ := q\<rparr>))"

definition stdin_queue_push_char :: "u8 \<Rightarrow> stdio \<Rightarrow> stdio res" where
  "stdin_queue_push_char c s = bind_r (cq_push (getQ s) c) (\<lambda>(_, q). Inr (s\<lparr>getQ := q\<rparr>))"

text \<open>The blocking pops; every caller has checked that the ring is not empty.\<close>

definition stdout_queue_pop_char :: "bool \<Rightarrow> stdio \<Rightarrow> (u8 \<times> stdio) res" where
  "stdout_queue_pop_char ie s = bind_r (cq_pop ie [] (putQ s)) (\<lambda>(c, _, q). Inr (c, s\<lparr>putQ := q\<rparr>))"

definition stdin_queue_pop_char :: "bool \<Rightarrow> stdio \<Rightarrow> (u8 \<times> stdio) res" where
  "stdin_queue_pop_char ie s = bind_r (cq_pop ie [] (getQ s)) (\<lambda>(c, _, q). Inr (c, s\<lparr>getQ := q\<rparr>))"

definition on_uart :: "(uart \<Rightarrow> uart) \<Rightarrow> stdio \<Rightarrow> stdio" where
  "on_uart f s = s\<lparr>io_uart := f (io_uart s)\<rparr>"

section \<open>Characters from and to threads\<close>

text \<open>\<open>False\<close> is the return value -1.\<close>

definition uart_putc_int :: "u8 \<Rightarrow> stdio \<Rightarrow> (bool \<times> stdio) res" where
  "uart_putc_int c s =
     (let s1 = on_uart (uart_disable_interrupt 1) s in
      if stdout_queue_is_full s1 then Inr (False, on_uart (uart_enable_interrupt 1) s1)
      else bind_r (stdout_queue_push_char c s1) (\<lambda>s2. Inr (True, on_uart (uart_enable_interrupt 1) s2)))"

definition uart_getc_int :: "bool \<Rightarrow> stdio \<Rightarrow> (u8 option \<times> stdio) res" where
  "uart_getc_int ie s =
     (let s1 = on_uart (uart_disable_interrupt 0) s in
      if stdin_queue_is_empty s1 then Inr (None, on_uart (uart_enable_interrupt 0) s1)
      else bind_r (stdin_queue_pop_char ie s1) (\<lambda>(c, s2). Inr (Some c, on_uart (uart_enable_interrupt 0) s2)))"

definition uart_has_data_int :: "stdio \<Rightarrow> bool \<times> stdio" where
  "uart_has_data_int s =
     (let s1 = on_uart (uart_disable_interrupt 0) s
      in (\<not> stdin_queue_is_empty s1, on_uart (uart_enable_interrupt 0) s1))"

section \<open>Interrupt handlers\<close>

text \<open>The loop over the transmit FIFO; the handlers run with interrupts off.\<close>

function drain_stdout :: "stdio \<Rightarrow> stdio res" where
  "drain_stdout s =
     (if \<not> uart_can_put8 (io_uart s) then Inr s
      else if stdout_queue_is_empty s then Inr (on_uart (uart_disable_interrupt 1) s)
      else bind_r (stdout_queue_pop_char False s) (\<lambda>(c, s1).
           bind_r (uart_put8 c (io_uart s1)) (\<lambda>u. drain_stdout (s1\<lparr>io_uart := u\<rparr>))))"
  by auto
termination
proof (relation "measure (\<lambda>s. u_room (io_uart s))")
  fix s c s1 u and x :: "u8 \<times> stdio"
  assume "\<not> \<not> uart_can_put8 (io_uart s)" "stdout_queue_pop_char False s = Inr x" "(c, s1) = x"
    "uart_put8 c (io_uart s1) = Inr u"
  then show "(s1\<lparr>io_uart := u\<rparr>, s) \<in> measure (\<lambda>s. u_room (io_uart s))"
    by (auto simp: stdout_queue_pop_char_def uart_put8_def uart_can_put8_def io_write_def io_read_def
        res_simps split: if_splits)
qed simp

declare drain_stdout.simps [simp del]

function fill_stdin :: "stdio \<Rightarrow> stdio res" where
  "fill_stdin s =
     (if \<not> uart_has_data (io_uart s) then Inr s
      else if stdin_queue_is_full s then Inr s
      else bind_r (uart_get8 (io_uart s)) (\<lambda>(c, u).
           bind_r (stdin_queue_push_char c (s\<lparr>io_uart := u\<rparr>)) fill_stdin))"
  by auto
termination
proof (relation "measure (\<lambda>s. length (u_rx (io_uart s)))")
  fix s c u s1 and x :: "u8 \<times> uart"
  assume "\<not> \<not> uart_has_data (io_uart s)" "uart_get8 (io_uart s) = Inr x" "(c, u) = x"
    "stdin_queue_push_char c (s\<lparr>io_uart := u\<rparr>) = Inr s1"
  then show "(s1, s) \<in> measure (\<lambda>s. length (u_rx (io_uart s)))"
    by (cases "u_rx (io_uart s)") (auto simp: stdin_queue_push_char_def uart_get8_def uart_has_data_def
        io_write_def io_read_def Let_def res_simps split: if_splits)
qed simp

declare fill_stdin.simps [simp del]

text \<open>\<open>AUX_MU_IIR_REG\<close> bit 0 clear: an interrupt is pending; bit 1: transmit; bit 2: receive.\<close>

definition int_vector_uart :: "stdio \<Rightarrow> stdio res" where
  "int_vector_uart s =
     (let iir = u_iir (io_uart s) in
      if bit iir 0 then Inr s
      else if bit iir 1 then drain_stdout s
      else if bit iir 2 then fill_stdin s
      else Inr s)"

section \<open>What the handlers do to the character streams\<close>

lemma pop_char_cons:
  assumes "cq_inv (putQ s)" "cq_list (putQ s) = c # cs"
  obtains q where "stdout_queue_pop_char ie s = Inr (c, s\<lparr>putQ := q\<rparr>)" "cq_inv q" "cq_list q = cs"
  using cq_pop_cons [OF assms, of 0] that by (auto simp: stdout_queue_pop_char_def cq_pop.simps)

lemma stdout_empty_iff: "cq_inv (putQ s) \<Longrightarrow> stdout_queue_is_empty s \<longleftrightarrow> cq_list (putQ s) = []"
  by (simp add: stdout_queue_is_empty_def cq_empty_list)

text \<open>
  Draining transmits the oldest characters of the ring in order, as many as the FIFO has room for,
  and always ends. Each transmitted character costs one received byte, which the
  read-modify-write of \<open>uart_put8\<close> takes from the receive FIFO and drops.
\<close>

lemma drain_stdout_ok:
  assumes "cq_inv (putQ s)" "n = min (u_room (io_uart s)) (length (cq_list (putQ s)))"
  shows "\<exists>s'. drain_stdout s = Inr s' \<and> cq_inv (putQ s')
           \<and> u_tx (io_uart s') = u_tx (io_uart s) @ take n (cq_list (putQ s))
           \<and> cq_list (putQ s') = drop n (cq_list (putQ s))
           \<and> u_rx (io_uart s') = drop n (u_rx (io_uart s))
           \<and> getQ s' = getQ s \<and> io_lock s' = io_lock s"
  using assms
proof (induction "u_room (io_uart s)" arbitrary: s n)
  case 0
  then show ?case by (simp add: drain_stdout.simps uart_can_put8_def)
next
  case (Suc m)
  show ?case
  proof (cases "cq_list (putQ s)")
    case Nil
    with Suc show ?thesis
      by (simp add: drain_stdout.simps stdout_empty_iff on_uart_def uart_disable_interrupt_def)
  next
    case (Cons c cs)
    obtain q where q: "stdout_queue_pop_char False s = Inr (c, s\<lparr>putQ := q\<rparr>)" "cq_inv q" "cq_list q = cs"
      using pop_char_cons [OF Suc.prems(1) Cons] .
    let ?u = "io_write c (io_read (io_uart s))"
    let ?s = "s\<lparr>putQ := q, io_uart := ?u\<rparr>"
    have room: "u_room ?u = m" "u_tx ?u = u_tx (io_uart s) @ [c]" "u_rx ?u = tl (u_rx (io_uart s))"
      using Suc(2) by (auto simp: io_write_def io_read_def)
    have "drain_stdout s = drain_stdout ?s"
      using Suc(2) Suc.prems(1) Cons q(1)
      by (subst drain_stdout.simps) (simp add: uart_can_put8_def uart_put8_def stdout_empty_iff)
    moreover have "n = Suc (min m (length cs))" using Suc.prems(2) Suc(2) Cons by simp
    ultimately show ?thesis
      using Suc(1) [of ?s "min m (length cs)"] room q Cons by (simp add: drop_Suc)
  qed
qed

text \<open>
  Filling ends too, and puts into the ring the first, third, fifth byte of the receive FIFO: the
  read that \<open>uart_get8\<close> makes to write the register back takes the byte behind each one it returns.
\<close>

fun every_other :: "'a list \<Rightarrow> 'a list" where
  "every_other [] = []"
| "every_other [x] = [x]"
| "every_other (x # y # xs) = x # every_other xs"

lemma length_every_other: "length (every_other xs) = (length xs + 1) div 2"
  by (induction xs rule: every_other.induct) auto

lemma every_other_Cons: "every_other (x # xs) = x # every_other (tl xs)"
  by (cases xs) auto

lemma fill_stdin_ok:
  assumes "cq_inv (getQ s)" "length (cq_list (getQ s)) + (length (u_rx (io_uart s)) + 1) div 2 < 8192"
  shows "\<exists>s'. fill_stdin s = Inr s' \<and> cq_inv (getQ s') \<and> u_rx (io_uart s') = []
           \<and> cq_list (getQ s') = cq_list (getQ s) @ every_other (u_rx (io_uart s))
           \<and> putQ s' = putQ s \<and> io_lock s' = io_lock s"
  using assms
proof (induction "length (u_rx (io_uart s))" arbitrary: s rule: less_induct)
  case less
  show ?case
  proof (cases "u_rx (io_uart s)")
    case Nil
    with less.prems show ?thesis by (simp add: fill_stdin.simps uart_has_data_def)
  next
    case (Cons c cs)
    have nf: "\<not> cq_full (getQ s)" using less.prems Cons by (simp add: cq_full_length)
    from cq_push_ok [OF less.prems(1) nf, of c] obtain q where
      q: "cq_push (getQ s) c = Inr (True, q)" "cq_inv q" "cq_list q = cq_list (getQ s) @ [c]" by blast
    let ?u = "io_write 0 (io_read (io_read (io_uart s)))"
    let ?s = "s\<lparr>io_uart := ?u, getQ := q\<rparr>"
    have rx: "u_rx ?u = tl cs" using Cons by (simp add: io_write_def io_read_def)
    have run: "fill_stdin s = fill_stdin ?s"
      using Cons nf q(1)
      by (subst fill_stdin.simps) (simp add: uart_has_data_def stdin_queue_is_full_def uart_get8_def
          stdin_queue_push_char_def Let_def)
    have "length (cq_list q) + (length (tl cs) + 1) div 2 < 8192"
      using less.prems(2) Cons q(3) by (cases cs) auto
    with less.hyps [of ?s] rx q Cons run show ?thesis
      by (auto simp: every_other_Cons le_imp_less_Suc)
  qed
qed

end
