(* ===== verification/Pre_Thread.thy ===== *)
theory Pre_Thread
  imports Thread_Core Uart_Io
begin

text \<open>
  The preemptive threads of \<open>preemptive-threads/preemptive-thread.c\<close>: the thread blocks and their
  queues, the timer and UART interrupts, the system calls by which threads take and release the
  console, and the scheduler loop of \<open>pre_thread_start\<close>.

  Registers are saved and restored by assembly code around these functions; here a thread's context
  is the stack pointer that the handlers receive and store. A handler that ends in
  \<open>cswitch_from_exception(sp)\<close> returns to the interrupted thread and leaves \<open>k_cur\<close> alone, one that
  ends in a switch to \<open>scheduler_thread->saved_sp\<close> sets \<open>k_cur\<close> to the scheduler. The addresses of
  \<open>pre_init_trampoline\<close> and \<open>stdout_queue_to_txfifo\<close> are arguments, and so is the block that
  \<open>kmalloc_aligned\<close> would return.
\<close>

section \<open>State\<close>

definition NONE :: u32 where "NONE = 0"
definition STDIO :: u32 where "STDIO = 1"

record pre_thread =
  p_saved_sp :: u32
  p_tid :: u32
  p_fn :: u32
  p_arg :: u32
  p_block :: u32
  p_stack :: "nat \<Rightarrow> u32"

record kern =
  k_th :: "ptr \<Rightarrow> pre_thread"
  k_next :: links
  k_runq :: Q
  k_freeq :: Q
  k_blockq :: Q
  k_cur :: ptr
  k_sched :: ptr
  k_wait_out :: ptr
  k_wait_in :: ptr
  k_ntid :: u32
  k_nalloced :: u32
  k_io :: stdio

text \<open>Updates of one block, of the console, and the queue operations on the shared \<open>next\<close> fields.\<close>

definition set_th :: "ptr \<Rightarrow> (pre_thread \<Rightarrow> pre_thread) \<Rightarrow> kern \<Rightarrow> kern" where
  "set_th p f k = k\<lparr>k_th := (k_th k)(p := f (k_th k p))\<rparr>"

definition on_io :: "(stdio \<Rightarrow> stdio) \<Rightarrow> kern \<Rightarrow> kern" where
  "on_io f k = k\<lparr>k_io := f (k_io k)\<rparr>"

definition run_append :: "ptr \<Rightarrow> kern \<Rightarrow> kern" where
  "run_append p k = (case Q_append (k_runq k) p (k_next k) of (q, nx) \<Rightarrow> k\<lparr>k_runq := q, k_next := nx\<rparr>)"

definition block_append :: "ptr \<Rightarrow> kern \<Rightarrow> kern" where
  "block_append p k = (case Q_append (k_blockq k) p (k_next k) of (q, nx) \<Rightarrow> k\<lparr>k_blockq := q, k_next := nx\<rparr>)"

section \<open>Blocks\<close>

text \<open>\<open>&t->stack[0]\<close> is 32 bytes behind the start of the block.\<close>

definition th_alloc :: "ptr \<Rightarrow> kern \<Rightarrow> (ptr \<times> kern) res" where
  "th_alloc fresh k =
     bind_r (Q_pop (k_freeq k) (k_next k)) (\<lambda>(t0, fq).
     let k1 = k\<lparr>k_freeq := fq\<rparr>;
         t = (if t0 = 0 then fresh else t0);
         k2 = (if t0 = 0 then k1\<lparr>k_nalloced := k_nalloced k1 + 1\<rparr> else k1)
     in bind_r (demand_r ((t + 32) mod 8 = 0) ''stack must be 8-byte aligned!'') (\<lambda>_.
        Inr (t, (set_th t (\<lambda>th. th\<lparr>p_tid := k_ntid k2\<rparr>) k2)\<lparr>k_ntid := k_ntid k2 + 1\<rparr>)))"

definition th_free :: "ptr \<Rightarrow> kern \<Rightarrow> kern" where
  "th_free p k = (case Q_push (k_freeq k) p (k_next k) of (q, nx) \<Rightarrow> k\<lparr>k_freeq := q, k_next := nx\<rparr>)"

text \<open>The frame of a new thread: r4, r5, lr, pc and cpsr of the sixteen saved words.\<close>

definition fork_frame :: "u32 \<Rightarrow> u32 \<Rightarrow> u32 \<Rightarrow> bool \<Rightarrow> bool \<Rightarrow> (nat \<Rightarrow> u32) \<Rightarrow> (nat \<Rightarrow> u32)" where
  "fork_frame tramp code arg enable_interrupt sys_mode st =
     (let sp = 2048 - 17;
          mode = (if sys_mode then 0x1f else 0x10);
          cpsr = (if enable_interrupt then 0x60000100 OR mode else 0x60000180 OR mode)
      in st(sp + 4 := arg, sp + 5 := code, sp + 13 := tramp, sp + 14 := tramp, sp + 15 := cpsr))"

text \<open>
  \<open>pre_fork\<close> up to the call of \<open>Q_append\<close>, and the whole function run to its end. The function does not
  mask the interrupts; what a timer interrupt inside it does is the subject of \<open>Pre_Race\<close>.
\<close>

definition fork_block :: "u32 \<Rightarrow> ptr \<Rightarrow> u32 \<Rightarrow> u32 \<Rightarrow> bool \<Rightarrow> bool \<Rightarrow> kern \<Rightarrow> (ptr \<times> kern) res" where
  "fork_block tramp fresh code arg enable_interrupt sys_mode k =
     bind_r (th_alloc fresh k) (\<lambda>(t, k1).
     Inr (t, set_th t (\<lambda>th. th\<lparr>p_arg := arg, p_fn := code, p_block := NONE,
            p_saved_sp := t + 32 + 4 * (2048 - 17),
            p_stack := fork_frame tramp code arg enable_interrupt sys_mode (p_stack th)\<rparr>) k1))"

definition pre_fork :: "u32 \<Rightarrow> ptr \<Rightarrow> u32 \<Rightarrow> u32 \<Rightarrow> bool \<Rightarrow> bool \<Rightarrow> kern \<Rightarrow> (ptr \<times> kern) res" where
  "pre_fork tramp fresh code arg enable_interrupt sys_mode k =
     bind_r (fork_block tramp fresh code arg enable_interrupt sys_mode k) (\<lambda>(t, k1). Inr (t, run_append t k1))"

definition pre_exit :: "kern \<Rightarrow> kern" where
  "pre_exit k = (let k1 = th_free (k_cur k) k in k1\<lparr>k_cur := k_sched k1\<rparr>)"

section \<open>Interrupts\<close>

definition int_vector_uart_pre_threads :: "kern \<Rightarrow> kern res" where
  "int_vector_uart_pre_threads k =
     (let iir = u_iir (io_uart (k_io k)) in
      if bit iir 0 then Inr k
      else bind_r (if bit iir 1 then drain_stdout (k_io k)
                   else if bit iir 2 then fill_stdin (k_io k) else Inr (k_io k))
                  (\<lambda>io. Inr (k\<lparr>k_io := io\<rparr>)))"

text \<open>The result says whether the handler switched away, in which case no further handler runs.\<close>

definition int_vector_pre_threads :: "bool \<Rightarrow> u32 \<Rightarrow> kern \<Rightarrow> bool \<times> kern" where
  "int_vector_pre_threads pending sp k =
     (if \<not> pending then (False, k)
      else let c = k_cur k; k1 = set_th c (\<lambda>th. th\<lparr>p_saved_sp := sp\<rparr>) (run_append c k)
           in (True, k1\<lparr>k_cur := k_sched k1\<rparr>))"

text \<open>
  \<open>fiq_vector\<close> with the handlers that \<open>pre_thread_start\<close> registers: timer, UART, and one that
  returns to the thread. The radio handler is not registered in this configuration.
\<close>

definition fiq_vector :: "bool \<Rightarrow> u32 \<Rightarrow> kern \<Rightarrow> kern res" where
  "fiq_vector timer_pending sp k =
     (case int_vector_pre_threads timer_pending sp k of
        (True, k1) \<Rightarrow> Inr k1
      | (False, k1) \<Rightarrow> int_vector_uart_pre_threads k1)"

section \<open>System calls\<close>

text \<open>Put the running thread to sleep on the block queue.\<close>

definition block_cur :: "u32 \<Rightarrow> kern \<Rightarrow> kern" where
  "block_cur sp k =
     (let c = k_cur k;
          k1 = block_append c (set_th c (\<lambda>th. th\<lparr>p_saved_sp := sp, p_block := STDIO\<rparr>) k)
      in k1\<lparr>k_cur := k_sched k1\<rparr>)"

definition cur_tid :: "kern \<Rightarrow> u32" where
  "cur_tid k = p_tid (k_th k (k_cur k))"

definition sys_request_stdout :: "u32 \<Rightarrow> kern \<Rightarrow> kern" where
  "sys_request_stdout sp k =
     (if stdio_is_idle (cur_tid k) (k_io k)
      then set_th (k_cur k) (\<lambda>th. th\<lparr>p_block := STDIO\<rparr>) (on_io (write_stdio_tid (cur_tid k)) k)
      else block_cur sp k)"

definition sys_request_stdin :: "u32 \<Rightarrow> kern \<Rightarrow> kern res" where
  "sys_request_stdin sp k =
     (if stdio_is_idle (cur_tid k) (k_io k)
      then bind_r (uart_flush_rx (io_uart (k_io k))) (\<lambda>u.
           let c = k_cur k;
               k1 = on_io (\<lambda>s. write_stdio_tid (cur_tid k) (s\<lparr>io_uart := uart_enable_interrupt 0 u\<rparr>)) k;
               k2 = set_th c (\<lambda>th. th\<lparr>p_block := STDIO, p_saved_sp := sp\<rparr>) k1
           in Inr (k2\<lparr>k_wait_in := c, k_cur := k_sched k2\<rparr>))
      else Inr (block_cur sp k))"

definition sys_wait_stdout :: "u32 \<Rightarrow> u32 \<Rightarrow> ptr \<Rightarrow> u32 \<Rightarrow> kern \<Rightarrow> kern res" where
  "sys_wait_stdout tramp printer fresh sp k0 =
     (let k = on_io (on_uart (uart_enable_interrupt 1)) k0; c = k_cur k in
      if stdout_queue_is_empty (k_io k)
      then Inr (set_th c (\<lambda>th. th\<lparr>p_block := NONE\<rparr>) (on_io (write_stdio_tid 0) k))
      else
        bind_r (pre_fork tramp fresh printer 0 False True k) (\<lambda>(t, k1).
        let k2 = set_th t (\<lambda>th. th\<lparr>p_block := STDIO\<rparr>) k1;
            k3 = on_io (write_stdio_tid (p_tid (k_th k2 t))) k2;
            k4 = set_th c (\<lambda>th. th\<lparr>p_saved_sp := sp\<rparr>) k3
        in Inr (k4\<lparr>k_wait_out := c, k_cur := k_sched k4\<rparr>)))"

text \<open>
  The handler stores through \<open>wait_stdout_thread\<close> whether or not it is \<open>NULL\<close>. A store through the null
  pointer is undefined behaviour in C and ends the run of the model as a fault. On the board, where
  low addresses are ordinary memory, the store goes to the address of the field \<open>block_reason\<close> in a
  block at 0, and the call returns with the lock released and the calling thread still marked as a user of the console.
\<close>

definition sys_end_stdin :: "kern \<Rightarrow> kern res" where
  "sys_end_stdin k =
     (let k1 = on_io (\<lambda>s. write_stdio_tid 0 (on_uart (uart_disable_interrupt 0) s)) k in
      if k_wait_out k1 = 0 then Inl OutOfBounds
      else Inr (set_th (k_wait_out k1) (\<lambda>th. th\<lparr>p_block := NONE\<rparr>) k1))"

text \<open>
  \<open>inst\<close> is the instruction at the interrupted program counter and \<open>mode\<close> the mode bits of \<open>spsr\<close>.
  The radio transfer of system call 8 works on the radio only, the thread state does not change.
\<close>

definition syscall_vector :: "u32 \<Rightarrow> u32 \<Rightarrow> ptr \<Rightarrow> u32 \<Rightarrow> u32 \<Rightarrow> u32 \<Rightarrow> kern \<Rightarrow> kern res" where
  "syscall_vector tramp printer fresh inst mode sp k =
     (let sys_num = inst - 0xef000000 in
      if mode \<noteq> 0x10 \<and> mode \<noteq> 0x1f then Inl (Panic ''mode: expected user mode'')
      else if sys_num = 1 then Inr (sys_request_stdout sp k)
      else if sys_num = 3 then sys_request_stdin sp k
      else if sys_num = 2 then sys_wait_stdout tramp printer fresh sp k
      else if sys_num = 4 then sys_end_stdin k
      else if sys_num = 8 then Inr k
      else Inl (Panic ''Illegal system call''))"

text \<open>The number of the \<open>swi\<close> instruction that \<open>make_system_call\<close> executes for a system call.\<close>

definition make_system_call :: "u32 \<Rightarrow> u32 res" where
  "make_system_call sys_call_num =
     (if sys_call_num = 1 then Inr 1
      else if sys_call_num = 2 then Inr 2
      else if sys_call_num = 3 then Inr 1
      else if sys_call_num = 4 then Inr 4
      else if sys_call_num = 6 then Inr 6
      else if sys_call_num = 7 then Inr 7
      else if sys_call_num = 8 then Inr 8
      else Inl (Panic ''Illegal/Unsupported system call''))"

section \<open>The printer thread\<close>

text \<open>The body of the thread that \<open>WAIT_STDOUT\<close> forks when characters are left in the ring.\<close>

definition stdout_queue_to_txfifo :: "u32 \<Rightarrow> u32 \<Rightarrow> ptr \<Rightarrow> kern \<Rightarrow> kern res" where
  "stdout_queue_to_txfifo tramp printer fresh k =
     bind_r (drain_stdout (k_io k)) (\<lambda>io.
     let k1 = k\<lparr>k_io := write_stdio_tid 0 io\<rparr> in
     if stdout_queue_is_empty (k_io k1) then Inr k1
     else bind_r (pre_fork tramp fresh printer 0 False True k1) (\<lambda>(t, k2).
          let k3 = set_th t (\<lambda>th. th\<lparr>p_block := STDIO\<rparr>) k2
          in Inr (on_io (write_stdio_tid (p_tid (k_th k3 t))) k3)))"

section \<open>The scheduler\<close>

definition wake_stdin :: "kern \<Rightarrow> kern" where
  "wake_stdin k =
     (if \<not> stdin_queue_is_empty (k_io k) \<and> k_wait_in k \<noteq> 0
      then (run_append (k_wait_in k) k)\<lparr>k_wait_in := 0\<rparr> else k)"

definition wake_stdout :: "kern \<Rightarrow> kern" where
  "wake_stdout k =
     (if stdout_queue_is_empty (k_io k) \<and> k_wait_out k \<noteq> 0
      then (run_append (k_wait_out k) (set_th (k_wait_out k) (\<lambda>th. th\<lparr>p_block := NONE\<rparr>)
             (on_io (write_stdio_tid 0) k)))\<lparr>k_wait_out := 0\<rparr>
      else k)"

text \<open>The loops over the queues; the fuel is one more than the length of the queue they empty.\<close>

fun unblock_all :: "nat \<Rightarrow> kern \<Rightarrow> kern res" where
  "unblock_all 0 k = Inl Diverges"
| "unblock_all (Suc n) k =
     bind_r (Q_empty (k_blockq k)) (\<lambda>e.
     if e then Inr k
     else if p_block (k_th k (Q_start (k_blockq k))) = STDIO then
       bind_r (Q_pop (k_blockq k) (k_next k)) (\<lambda>(th, q).
         unblock_all n (run_append th (k\<lparr>k_blockq := q\<rparr>)))
     else Inr k)"

fun dispatch :: "nat \<Rightarrow> u32 \<Rightarrow> kern \<Rightarrow> kern res" where
  "dispatch 0 sp k = Inl Diverges"
| "dispatch (Suc n) sp k =
     bind_r (Q_empty (k_runq k)) (\<lambda>e.
     if e then Inr k
     else
       bind_r (Q_pop (k_runq k) (k_next k)) (\<lambda>(nxt, q).
       let k1 = k\<lparr>k_runq := q\<rparr>; th = k_th k1 nxt in
       if \<not> stdio_is_idle (p_tid th) (k_io k1) \<and> p_block th \<noteq> NONE
       then dispatch n sp (block_append nxt k1)
       else
         let k2 = (if p_block th = STDIO then on_io (write_stdio_tid (p_tid th)) k1 else k1)
         in Inr ((set_th (k_sched k2) (\<lambda>s. s\<lparr>p_saved_sp := sp\<rparr>) k2)\<lparr>k_cur := nxt\<rparr>)))"

definition sched_body :: "u32 \<Rightarrow> kern \<Rightarrow> kern res" where
  "sched_body sp k =
     (let k1 = wake_stdout (wake_stdin k) in
      bind_r (if stdio_is_idle 0 (k_io k1) then unblock_all (Suc (unat (Q_cnt (k_blockq k1)))) k1
              else Inr k1) (\<lambda>k2.
      dispatch (Suc (unat (Q_cnt (k_runq k2)))) sp k2))"

text \<open>One round of the loop of \<open>pre_thread_start\<close>; \<open>False\<close>: the loop condition is false.\<close>

definition sched_turn :: "u32 \<Rightarrow> kern \<Rightarrow> (bool \<times> kern) res" where
  "sched_turn sp k =
     bind_r (Q_empty (k_runq k)) (\<lambda>e1.
     bind_r (if e1 then Q_empty (k_blockq k) else Inr False) (\<lambda>e2.
     if e1 \<and> e2 \<and> k_wait_out k = 0 \<and> k_wait_in k = 0 then Inr (False, k)
     else bind_r (sched_body sp k) (\<lambda>k'. Inr (True, k'))))"

text \<open>
  The setup of \<open>pre_thread_start\<close> up to the loop; \<open>uart_on\<close>: the UART was initialised for
  interrupts before. The result says whether the loop is entered.
\<close>

definition uart_init_int :: "bool \<Rightarrow> stdio \<Rightarrow> stdio res" where
  "uart_init_int uart_on s =
     (if uart_on then Inr s
      else bind_r (stdio_init s) (\<lambda>s1.
           Inr (on_uart (\<lambda>u. u\<lparr>u_rx := [], u_ier := 0xe\<rparr>) s1)))"

definition pre_thread_start :: "bool \<Rightarrow> ptr \<Rightarrow> kern \<Rightarrow> (bool \<times> kern) res" where
  "pre_thread_start uart_on fresh k =
     bind_r (uart_init_int uart_on (k_io k)) (\<lambda>io.
     let k1 = k\<lparr>k_io := io\<rparr> in
     bind_r (Q_empty (k_runq k1)) (\<lambda>e.
     if e then Inr (False, k1)
     else if k_sched k1 = 0
     then bind_r (th_alloc fresh k1) (\<lambda>(t, k2). Inr (True, k2\<lparr>k_sched := t, k_cur := t\<rparr>))
     else Inr (True, k1)))"

end
