(* ===== verification/Pre_Sched.thy ===== *)
theory Pre_Sched
  imports Pre_Thread
begin

text \<open>
  The preemptive thread package as a transition system: every interrupt, system call, fork, exit and
  round of the scheduler is a step, and the invariant of the thread blocks and of the console lock
  holds in every state the steps reach.
\<close>

section \<open>Where the blocks are\<close>

definition k_ready :: "kern \<Rightarrow> ptr list" where
  "k_ready k = Q_elems (k_runq k, k_next k)"

definition k_blocked :: "kern \<Rightarrow> ptr list" where
  "k_blocked k = Q_elems (k_blockq k, k_next k)"

definition k_free :: "kern \<Rightarrow> ptr list" where
  "k_free k = Q_elems (k_freeq k, k_next k)"

text \<open>The blocks outside the queues: the thread waiting for input, the running one, the scheduler.\<close>

definition k_others :: "kern \<Rightarrow> ptr list" where
  "k_others k = (if k_wait_in k = 0 then [] else [k_wait_in k])
     @ k_cur k # (if k_sched k = k_cur k then [] else [k_sched k])"

definition k_places :: "kern \<Rightarrow> ptr list" where
  "k_places k = k_ready k @ k_blocked k @ k_free k @ k_others k"

text \<open>The threads that have been forked and have not exited: ready, blocked, waiting for input, or running.\<close>

definition k_live :: "kern \<Rightarrow> ptr set" where
  "k_live k = set (k_ready k) \<union> set (k_blocked k) \<union> (if k_wait_in k = 0 then {} else {k_wait_in k})
     \<union> (if k_cur k = k_sched k then {} else {k_cur k})"

text \<open>
  The invariant. The queues are well-formed and every block is in one place only; thread ids are
  positive, unique and below the next one. The output ring is unused (output interrupts are
  configured off, so \<open>printk\<close> writes to the device) and no thread waits for it. A thread that runs
  with the console marked as its own holds the console lock, and so does a thread that waits for
  input.
\<close>

definition k_lock :: "kern \<Rightarrow> u32" where
  "k_lock k = read_stdio_tid (k_io k)"

definition tid_of :: "kern \<Rightarrow> ptr \<Rightarrow> u32" where
  "tid_of k p = p_tid (k_th k p)"

definition tids_ok :: "kern \<Rightarrow> ptr list \<Rightarrow> bool" where
  "tids_ok k ps \<longleftrightarrow> distinct (map (tid_of k) ps) \<and> list_all (\<lambda>p. 0 < tid_of k p \<and> tid_of k p < k_ntid k) ps"

definition console_ok :: "kern \<Rightarrow> bool" where
  "console_ok k \<longleftrightarrow> k_wait_out k = 0 \<and> stdout_queue_is_empty (k_io k)
     \<and> (k_cur k \<noteq> k_sched k \<and> p_block (k_th k (k_cur k)) = STDIO \<longrightarrow> k_lock k = tid_of k (k_cur k))
     \<and> (k_wait_in k \<noteq> 0 \<longrightarrow> k_lock k = tid_of k (k_wait_in k))"

definition k_inv :: "kern \<Rightarrow> bool" where
  "k_inv k \<longleftrightarrow> Q_inv (k_runq k, k_next k) \<and> Q_inv (k_blockq k, k_next k) \<and> Q_inv (k_freeq k, k_next k)
     \<and> distinct (k_places k) \<and> list_all block_ok (k_places k) \<and> tids_ok k (k_places k) \<and> console_ok k"

definition kq :: "kern \<Rightarrow> ptr list \<Rightarrow> ptr list \<Rightarrow> ptr list \<Rightarrow> bool" where
  "kq k rs bs fs \<longleftrightarrow> queues (k_next k) [(k_runq k, rs), (k_blockq k, bs), (k_freeq k, fs)]"

lemma kq_upd [simp]:
  "kq (k\<lparr>k_th := a\<rparr>) = kq k" "kq (k\<lparr>k_cur := p\<rparr>) = kq k" "kq (k\<lparr>k_sched := p\<rparr>) = kq k"
  "kq (k\<lparr>k_wait_in := p\<rparr>) = kq k" "kq (k\<lparr>k_wait_out := p\<rparr>) = kq k" "kq (k\<lparr>k_ntid := n\<rparr>) = kq k"
  "kq (k\<lparr>k_nalloced := n\<rparr>) = kq k" "kq (k\<lparr>k_io := s\<rparr>) = kq k"
  by (simp_all add: kq_def fun_eq_iff)

lemma k_others_upd [simp]:
  "k_others (k\<lparr>k_th := a\<rparr>) = k_others k" "k_others (k\<lparr>k_io := s\<rparr>) = k_others k"
  "k_others (k\<lparr>k_ntid := n\<rparr>) = k_others k" "k_others (k\<lparr>k_nalloced := n\<rparr>) = k_others k"
  "k_others (k\<lparr>k_runq := q\<rparr>) = k_others k" "k_others (k\<lparr>k_blockq := q\<rparr>) = k_others k"
  "k_others (k\<lparr>k_freeq := q\<rparr>) = k_others k" "k_others (k\<lparr>k_next := nx\<rparr>) = k_others k"
  by (simp_all add: k_others_def)

lemma kq_lists: "kq k rs bs fs \<Longrightarrow> k_ready k = rs \<and> k_blocked k = bs \<and> k_free k = fs"
  by (simp add: kq_def queues_def k_ready_def k_blocked_def k_free_def Q_rep_elems)

lemma k_inv_kq: "k_inv k \<Longrightarrow> kq k (k_ready k) (k_blocked k) (k_free k)"
  by (auto simp: k_inv_def kq_def queues_def Q_inv_def k_ready_def k_blocked_def k_free_def k_places_def)

lemma k_inv_kqI:
  assumes "kq k rs bs fs" "distinct (rs @ bs @ fs @ k_others k)"
    and "list_all block_ok (rs @ bs @ fs @ k_others k)" "tids_ok k (rs @ bs @ fs @ k_others k)" "console_ok k"
  shows "k_inv k \<and> k_places k = rs @ bs @ fs @ k_others k"
proof -
  have p: "k_places k = rs @ bs @ fs @ k_others k"
    using kq_lists [OF assms(1)] by (simp add: k_places_def)
  have "Q_inv (k_runq k, k_next k) \<and> Q_inv (k_blockq k, k_next k) \<and> Q_inv (k_freeq k, k_next k)"
    using assms(1) by (auto simp: kq_def queues_def intro: Q_rep_inv)
  with assms p show ?thesis by (simp only: k_inv_def)
qed

lemma k_invD:
  assumes "k_inv k"
  shows "distinct (k_ready k @ k_blocked k @ k_free k @ k_others k)"
    "list_all block_ok (k_ready k @ k_blocked k @ k_free k @ k_others k)"
    "tids_ok k (k_ready k @ k_blocked k @ k_free k @ k_others k)" "console_ok k"
  using assms unfolding k_inv_def k_places_def by (simp_all only:)

lemma k_inv_tids:
  assumes "k_inv k" "p \<in> set (k_places k)" "q \<in> set (k_places k)"
  shows "tid_of k p \<noteq> 0" "tid_of k p = tid_of k q \<longleftrightarrow> p = q"
  using assms by (auto simp: k_inv_def tids_ok_def list_all_iff distinct_map inj_on_def)

lemma tids_ok_set:
  assumes "tids_ok k ps" "distinct qs" "set qs = set ps"
    and "\<And>p. tid_of k' p = tid_of k p" "k_ntid k' = k_ntid k"
  shows "tids_ok k' qs"
  using assms by (simp add: tids_ok_def list_all_iff distinct_map inj_on_def)

text \<open>A thread that is not waiting for input cannot hold the lock while another one waits.\<close>

lemma holder_not_waiting:
  assumes "k_inv k" "k_cur k \<noteq> k_sched k" "k_lock k = 0 \<or> k_lock k = cur_tid k"
  shows "k_wait_in k = 0"
proof (rule ccontr)
  assume w: "k_wait_in k \<noteq> 0"
  then have pl: "k_wait_in k \<in> set (k_places k)" "k_cur k \<in> set (k_places k)" "k_wait_in k \<noteq> k_cur k"
    using k_invD(1) [OF assms(1)] by (auto simp: k_places_def k_others_def)
  have "k_lock k = tid_of k (k_wait_in k)" using w k_invD(4) [OF assms(1)] by (simp add: console_ok_def)
  with k_inv_tids [OF assms(1) pl(1,2)] pl(3) assms(3) show False by (simp add: cur_tid_def tid_of_def)
qed

section \<open>Queue operations\<close>

lemma kq_run_append:
  assumes "kq k rs bs fs" "p \<noteq> 0" "p \<notin> set rs" "p \<notin> set bs" "p \<notin> set fs"
  obtains q nx where "run_append p k = k\<lparr>k_runq := q, k_next := nx\<rparr>"
    "kq (k\<lparr>k_runq := q, k_next := nx\<rparr>) (rs @ [p]) bs fs"
  using queues_append [OF assms(1) [unfolded kq_def], of p] assms(2-) that
  by (auto simp: run_append_def kq_def)

lemma kq_block_append:
  assumes "kq k rs bs fs" "p \<noteq> 0" "p \<notin> set rs" "p \<notin> set bs" "p \<notin> set fs"
  obtains q nx where "block_append p k = k\<lparr>k_blockq := q, k_next := nx\<rparr>"
    "kq (k\<lparr>k_blockq := q, k_next := nx\<rparr>) rs (bs @ [p]) fs"
  using queues_append [OF assms(1) [unfolded kq_def queues_swap [of _ "(k_runq k, rs)"]], of p] assms(2-) that
  by (auto simp: block_append_def kq_def queues_swap [of _ "(k_runq k, rs)"])

lemma kq_free_push:
  assumes "kq k rs bs fs" "p \<noteq> 0" "p \<notin> set rs" "p \<notin> set bs" "p \<notin> set fs"
  obtains q nx where "th_free p k = k\<lparr>k_freeq := q, k_next := nx\<rparr>"
    "kq (k\<lparr>k_freeq := q, k_next := nx\<rparr>) rs bs (p # fs)"
  using queues_push [OF queues_third [THEN iffD1, OF assms(1) [unfolded kq_def]], of p] assms(2-) that
  by (auto simp: th_free_def kq_def dest: queues_third [THEN iffD2])

lemma kq_run_pop:
  assumes "kq k (p # rs) bs fs"
  obtains q where "Q_pop (k_runq k) (k_next k) = Inr (p, q)" "kq (k\<lparr>k_runq := q\<rparr>) rs bs fs"
  using queues_pop [OF assms [unfolded kq_def]] that by (auto simp: kq_def)

lemma kq_block_pop:
  assumes "kq k rs (p # bs) fs"
  obtains q where "Q_pop (k_blockq k) (k_next k) = Inr (p, q)" "kq (k\<lparr>k_blockq := q\<rparr>) rs bs fs"
    "Q_start (k_blockq k) = p"
proof -
  note qs = assms [unfolded kq_def queues_swap [of _ "(k_runq k, rs)"]]
  have "Q_start (k_blockq k) = p" using qs by (auto simp: queues_def intro: Q_rep_start)
  with queues_pop [OF qs] that show ?thesis
    by (auto simp: kq_def queues_swap [of _ "(k_runq k, rs)"])
qed

lemma kq_empty:
  "kq k rs bs fs \<Longrightarrow> Q_empty (k_runq k) = Inr (rs = [])"
  "kq k rs bs fs \<Longrightarrow> Q_empty (k_blockq k) = Inr (bs = [])"
  by (auto simp: kq_def queues_def intro: Q_empty_rep)

lemma kq_count:
  "kq k rs bs fs \<Longrightarrow> unat (Q_cnt (k_runq k)) = length rs"
  "kq k rs bs fs \<Longrightarrow> unat (Q_cnt (k_blockq k)) = length bs"
  by (auto simp: kq_def queues_def intro: Q_rep_length)

lemma kq_alloc:
  assumes "kq k rs bs fs" "list_all block_ok fs" "block_ok fresh"
  obtains t q fs' n where
    "th_alloc fresh k = Inr (t, k\<lparr>k_freeq := q, k_nalloced := n,
       k_th := (k_th k)(t := (k_th k t)\<lparr>p_tid := k_ntid k\<rparr>), k_ntid := k_ntid k + 1\<rparr>)"
    "kq (k\<lparr>k_freeq := q\<rparr>) rs bs fs'" "(fs = [] \<and> t = fresh \<and> fs' = []) \<or> fs = t # fs'" "block_ok t"
proof (cases fs)
  case Nil
  with assms(1) have "Q_pop (k_freeq k) (k_next k) = Inr (0, k_freeq k)"
    by (auto simp: kq_def queues_def intro: Q_pop_nil)
  with Nil assms that [where t = fresh and q = "k_freeq k" and n = "k_nalloced k + 1" and fs' = "[]"]
  show ?thesis by (simp add: th_alloc_def set_th_def block_ok_stack block_ok_nonzero)
next
  case (Cons t fs')
  from queues_pop [OF queues_third [THEN iffD1, OF assms(1) [unfolded kq_def Cons]]] obtain q where
    "Q_pop (k_freeq k) (k_next k) = Inr (t, q)" "kq (k\<lparr>k_freeq := q\<rparr>) rs bs fs'"
    by (auto simp: kq_def dest: queues_third [THEN iffD2])
  with Cons assms that [where t = t and q = q and n = "k_nalloced k" and fs' = fs']
  show ?thesis by (simp add: th_alloc_def set_th_def block_ok_stack block_ok_nonzero)
qed

section \<open>Every operation keeps the invariant\<close>

text \<open>
  What a step from \<open>k\<close> to \<open>k'\<close> guarantees: the invariant, that no block is lost, and that the lock is
  taken from nobody: it changes only if it was free or the running thread held it.
\<close>

definition safe :: "kern \<Rightarrow> kern \<Rightarrow> bool" where
  "safe k k' \<longleftrightarrow> k_inv k' \<and> set (k_places k) \<subseteq> set (k_places k') \<and> k_sched k' = k_sched k
     \<and> (k_lock k' = k_lock k \<or> k_lock k = 0 \<or> (k_cur k \<noteq> k_sched k \<and> k_lock k = cur_tid k))"

text \<open>All steps but the exit of a thread also give no block back to the free list, so every live thread stays live.\<close>

definition keeps :: "kern \<Rightarrow> kern \<Rightarrow> bool" where
  "keeps k k' \<longleftrightarrow> safe k k' \<and> set (k_free k') \<subseteq> set (k_free k)"

lemmas keeps_defs = keeps_def safe_def

lemma k_live_places:
  assumes "k_inv k"
  shows "k_live k = set (k_places k) - set (k_free k) - {k_sched k}"
  using k_invD(1) [OF assms] by (auto simp: k_live_def k_places_def k_others_def split: if_splits)

lemma keeps_live:
  assumes "k_inv k" "keeps k k'"
  shows "k_live k \<subseteq> k_live k'"
  using assms by (auto simp: keeps_defs k_live_places)

lemmas kern_simps = set_th_def on_io_def k_others_def k_lock_def cur_tid_def write_stdio_tid_def
  read_stdio_tid_def stdout_queue_is_empty_def on_uart_def

lemma safeI:
  assumes "k_inv k" "kq k' rs bs fs" "distinct (rs @ bs @ fs @ k_others k')"
    and "set (rs @ bs @ fs @ k_others k') = set (k_places k)"
    and "\<And>p. tid_of k' p = tid_of k p" "k_ntid k' = k_ntid k"
    and "console_ok k'" "k_sched k' = k_sched k"
    and "k_lock k' = k_lock k \<or> k_lock k = 0 \<or> (k_cur k \<noteq> k_sched k \<and> k_lock k = cur_tid k)"
  shows "safe k k'"
proof -
  have "list_all block_ok (rs @ bs @ fs @ k_others k')"
    using assms(1,4) unfolding list_all_iff k_inv_def by metis
  moreover have "tids_ok k' (rs @ bs @ fs @ k_others k')"
    using assms(1) tids_ok_set [OF _ assms(3,4,5,6)] by (simp add: k_inv_def)
  ultimately show ?thesis
    using k_inv_kqI [OF assms(2,3) _ _ assms(7)] assms(4,8,9) unfolding safe_def by simp
qed

lemma keepsI:
  assumes "k_inv k" "kq k' rs bs fs" "distinct (rs @ bs @ fs @ k_others k')"
    and "set (rs @ bs @ fs @ k_others k') = set (k_places k)"
    and "\<And>p. tid_of k' p = tid_of k p" "k_ntid k' = k_ntid k"
    and "console_ok k'" "k_sched k' = k_sched k"
    and "k_lock k' = k_lock k \<or> k_lock k = 0 \<or> (k_cur k \<noteq> k_sched k \<and> k_lock k = cur_tid k)"
    and "fs = k_free k"
  shows "keeps k k'"
  using safeI [OF assms(1-9)] kq_lists [OF assms(2)] assms(10) by (simp add: keeps_def)

lemma timer_keeps:
  assumes "k_inv k" "k_cur k \<noteq> k_sched k"
  obtains k' where "int_vector_pre_threads True sp k = (True, k')" "keeps k k'"
    "k_ready k' = k_ready k @ [k_cur k]" "k_cur k' = k_sched k" "k_blocked k' = k_blocked k"
    "k_io k' = k_io k" "k_wait_in k' = k_wait_in k" "\<And>p. p_block (k_th k' p) = p_block (k_th k p)"
    "\<And>p. tid_of k' p = tid_of k p"
proof -
  let ?c = "k_cur k"
  note inv = k_invD [OF assms(1), unfolded k_others_def]
  have c: "?c \<noteq> 0" "?c \<notin> set (k_ready k)" "?c \<notin> set (k_blocked k)" "?c \<notin> set (k_free k)"
    using inv(1,2) by (auto simp: block_ok_nonzero)
  obtain q nx where q: "run_append ?c k = k\<lparr>k_runq := q, k_next := nx\<rparr>"
      "kq (k\<lparr>k_runq := q, k_next := nx\<rparr>) (k_ready k @ [?c]) (k_blocked k) (k_free k)"
    using kq_run_append [OF k_inv_kq [OF assms(1)] c] .
  let ?k = "k\<lparr>k_runq := q, k_next := nx, k_th := (k_th k)(?c := (k_th k ?c)\<lparr>p_saved_sp := sp\<rparr>),
      k_cur := k_sched k\<rparr>"
  have run: "int_vector_pre_threads True sp k = (True, ?k)"
    using q(1) by (simp add: int_vector_pre_threads_def set_th_def Let_def)
  have kq: "kq ?k (k_ready k @ [?c]) (k_blocked k) (k_free k)" using q(2) by simp
  have "keeps k ?k"
    by (rule keepsI [OF assms(1) kq])
      (use inv assms(2) in \<open>auto simp: k_others_def k_places_def k_lock_def tid_of_def console_ok_def
        stdout_queue_is_empty_def\<close>)
  with that [OF run] kq_lists [OF kq] show ?thesis by (simp add: tid_of_def)
qed

lemma block_cur_keeps:
  assumes "k_inv k" "k_cur k \<noteq> k_sched k"
  shows "keeps k (block_cur sp k)"
proof -
  let ?c = "k_cur k" and ?th = "(k_th k (k_cur k))\<lparr>p_saved_sp := sp, p_block := STDIO\<rparr>"
  note inv = k_invD [OF assms(1), unfolded k_others_def]
  have c: "?c \<noteq> 0" "?c \<notin> set (k_ready k)" "?c \<notin> set (k_blocked k)" "?c \<notin> set (k_free k)"
    using inv(1,2) by (auto simp: block_ok_nonzero)
  have "kq (set_th ?c (\<lambda>_. ?th) k) (k_ready k) (k_blocked k) (k_free k)"
    using k_inv_kq [OF assms(1)] by (simp add: set_th_def)
  from kq_block_append [OF this c] obtain q nx where
    q: "block_append ?c (set_th ?c (\<lambda>_. ?th) k) = (set_th ?c (\<lambda>_. ?th) k)\<lparr>k_blockq := q, k_next := nx\<rparr>"
      "kq ((set_th ?c (\<lambda>_. ?th) k)\<lparr>k_blockq := q, k_next := nx\<rparr>) (k_ready k) (k_blocked k @ [?c]) (k_free k)" .
  let ?k = "(set_th ?c (\<lambda>_. ?th) k)\<lparr>k_blockq := q, k_next := nx, k_cur := k_sched k\<rparr>"
  have run: "block_cur sp k = ?k" using q(1) by (simp add: block_cur_def set_th_def Let_def)
  have kq: "kq ?k (k_ready k) (k_blocked k @ [?c]) (k_free k)" using q(2) by simp
  show ?thesis unfolding run
    by (rule keepsI [OF assms(1) kq])
      (use inv assms(2) in \<open>auto simp: k_others_def k_places_def k_lock_def tid_of_def set_th_def
        console_ok_def stdout_queue_is_empty_def\<close>)
qed

text \<open>Steps that touch neither the queues nor the roles of the threads.\<close>

lemma in_place_keeps:
  assumes "k_inv k" "stdout_queue_is_empty s" "\<And>p. p_tid (f p) = p_tid (k_th k p)"
    and "read_stdio_tid s = k_lock k \<or> (k_cur k \<noteq> k_sched k \<and> (k_lock k = 0 \<or> k_lock k = cur_tid k))"
    and "k_cur k \<noteq> k_sched k \<Longrightarrow> p_block (f (k_cur k)) = STDIO \<Longrightarrow> read_stdio_tid s = cur_tid k"
  shows "keeps k (k\<lparr>k_io := s, k_th := f\<rparr>)"
proof -
  let ?k = "k\<lparr>k_io := s, k_th := f\<rparr>"
  note inv = k_invD [OF assms(1)]
  have "read_stdio_tid s = k_lock k" if "k_wait_in k \<noteq> 0"
    using holder_not_waiting [OF assms(1)] assms(4) that by auto
  with inv(4) assms(2,3,5) have "console_ok ?k"
    by (auto simp: console_ok_def k_lock_def tid_of_def cur_tid_def)
  moreover have "kq ?k (k_ready k) (k_blocked k) (k_free k)" using k_inv_kq [OF assms(1)] by simp
  ultimately show ?thesis
    using inv(1) assms(3,4)
    by (intro keepsI [OF assms(1)]) (auto simp: k_places_def tid_of_def k_lock_def)
qed

lemma io_keeps:
  assumes "k_inv k" "stdout_queue_is_empty s" "read_stdio_tid s = k_lock k"
  shows "keeps k (k\<lparr>k_io := s\<rparr>)"
  using in_place_keeps [OF assms(1,2), of "k_th k"] assms(3) k_invD(4) [OF assms(1)]
  by (simp add: cur_tid_def console_ok_def tid_of_def)

lemma request_stdout_keeps:
  assumes "k_inv k" "k_cur k \<noteq> k_sched k"
  shows "keeps k (sys_request_stdout sp k)"
proof (cases "stdio_is_idle (cur_tid k) (k_io k)")
  case True
  let ?th = "(k_th k)(k_cur k := (k_th k (k_cur k))\<lparr>p_block := STDIO\<rparr>)"
  have "sys_request_stdout sp k = k\<lparr>k_io := write_stdio_tid (cur_tid k) (k_io k), k_th := ?th\<rparr>"
    using True by (simp add: sys_request_stdout_def set_th_def on_io_def)
  moreover have "k_lock k = 0 \<or> k_lock k = cur_tid k"
    using True by (simp add: stdio_is_idle_def k_lock_def)
  ultimately show ?thesis
    using in_place_keeps [OF assms(1), of "write_stdio_tid (cur_tid k) (k_io k)" ?th]
      k_invD(4) [OF assms(1)] assms(2)
    by (auto simp: write_stdio_tid_def read_stdio_tid_def stdout_queue_is_empty_def console_ok_def)
next
  case False
  with block_cur_keeps [OF assms] show ?thesis by (simp add: sys_request_stdout_def)
qed

text \<open>The output ring is empty in every state of the invariant, so the wait ends at once.\<close>

lemma wait_stdout_keeps:
  assumes "k_inv k" "k_cur k \<noteq> k_sched k" "p_block (k_th k (k_cur k)) = STDIO"
  obtains k' where "sys_wait_stdout tramp printer fresh sp k = Inr k'" "keeps k k'"
    "k_lock k' = 0" "k_cur k' = k_cur k" "p_block (k_th k' (k_cur k')) = NONE"
proof -
  let ?s = "write_stdio_tid 0 (on_uart (uart_enable_interrupt 1) (k_io k))"
  let ?th = "(k_th k)(k_cur k := (k_th k (k_cur k))\<lparr>p_block := NONE\<rparr>)"
  let ?k = "k\<lparr>k_io := ?s, k_th := ?th\<rparr>"
  note con = k_invD(4) [OF assms(1), unfolded console_ok_def]
  have "sys_wait_stdout tramp printer fresh sp k = Inr ?k"
    using con by (simp add: sys_wait_stdout_def kern_simps Let_def)
  moreover have "keeps k ?k"
    using in_place_keeps [OF assms(1), of ?s ?th] con assms(2,3)
    by (simp add: write_stdio_tid_def stdout_queue_is_empty_def on_uart_def NONE_def STDIO_def
        cur_tid_def tid_of_def)
  ultimately show ?thesis using that by (simp add: k_lock_def write_stdio_tid_def read_stdio_tid_def)
qed

text \<open>\<open>END_STDIN\<close> always stores through a null pointer: nobody waits for output in this configuration.\<close>

lemma end_stdin_faults: "k_inv k \<Longrightarrow> sys_end_stdin k = Inl OutOfBounds"
  by (simp add: sys_end_stdin_def k_inv_def console_ok_def on_io_def)

lemma flush_rx_total: "\<exists>u'. uart_flush_rx u = Inr u'"
proof (induction "length (u_rx u)" arbitrary: u rule: less_induct)
  case less
  show ?case
  proof (cases "u_rx u")
    case Nil
    then show ?thesis by (simp add: uart_flush_rx.simps uart_get8_async_def uart_has_data_def)
  next
    case (Cons c cs)
    let ?u = "io_write 0 (io_read (io_read u))"
    have "uart_get8_async u = Inr (Some c, ?u)"
      using Cons by (simp add: uart_get8_async_def uart_get8_def uart_has_data_def Let_def)
    moreover have "length (u_rx ?u) < length (u_rx u)"
      using Cons by (auto simp: io_read_def io_write_def)
    ultimately show ?thesis using less by (simp add: uart_flush_rx.simps [of u])
  qed
qed

lemma request_stdin_keeps:
  assumes "k_inv k" "k_cur k \<noteq> k_sched k"
  shows "\<exists>k'. sys_request_stdin sp k = Inr k' \<and> keeps k k'"
proof (cases "stdio_is_idle (cur_tid k) (k_io k)")
  case True
  let ?c = "k_cur k"
  obtain u where u: "uart_flush_rx (io_uart (k_io k)) = Inr u" using flush_rx_total by blast
  let ?s = "write_stdio_tid (cur_tid k) ((k_io k)\<lparr>io_uart := uart_enable_interrupt 0 u\<rparr>)"
  let ?k = "k\<lparr>k_io := ?s, k_th := (k_th k)(?c := (k_th k ?c)\<lparr>p_block := STDIO, p_saved_sp := sp\<rparr>),
      k_wait_in := ?c, k_cur := k_sched k\<rparr>"
  note inv = k_invD [OF assms(1), unfolded k_others_def]
  have idle: "k_lock k = 0 \<or> k_lock k = cur_tid k"
    using True by (auto simp: stdio_is_idle_def k_lock_def)
  have w: "k_wait_in k = 0" using holder_not_waiting [OF assms idle] .
  have run: "sys_request_stdin sp k = Inr ?k"
    using True u by (simp add: sys_request_stdin_def set_th_def on_io_def Let_def)
  have c: "?c \<noteq> 0" using inv(2) by (auto simp: block_ok_nonzero)
  have con: "console_ok ?k"
    using inv(4) by (simp add: console_ok_def kern_simps tid_of_def)
  have kq: "kq ?k (k_ready k) (k_blocked k) (k_free k)" using k_inv_kq [OF assms(1)] by simp
  have "keeps k ?k"
    by (rule keepsI [OF assms(1) kq _ _ _ _ con])
      (use inv idle assms(2) w c in \<open>auto simp: k_others_def k_places_def tid_of_def\<close>)
  with run show ?thesis by blast
next
  case False
  with block_cur_keeps [OF assms(1,2)] show ?thesis by (simp add: sys_request_stdin_def)
qed

lemma exit_safe:
  assumes "k_inv k" "k_cur k \<noteq> k_sched k"
  shows "safe k (pre_exit k)" "k_cur (pre_exit k) = k_sched k" "k_free (pre_exit k) = k_cur k # k_free k"
    "k_live (pre_exit k) = k_live k - {k_cur k}"
proof -
  let ?c = "k_cur k"
  note inv = k_invD [OF assms(1), unfolded k_others_def]
  have c: "?c \<noteq> 0" "?c \<notin> set (k_ready k)" "?c \<notin> set (k_blocked k)" "?c \<notin> set (k_free k)"
    using inv(1,2) by (auto simp: block_ok_nonzero)
  obtain q nx where q: "th_free ?c k = k\<lparr>k_freeq := q, k_next := nx\<rparr>"
      "kq (k\<lparr>k_freeq := q, k_next := nx\<rparr>) (k_ready k) (k_blocked k) (?c # k_free k)"
    using kq_free_push [OF k_inv_kq [OF assms(1)] c] .
  let ?k = "k\<lparr>k_freeq := q, k_next := nx, k_cur := k_sched k\<rparr>"
  have run: "pre_exit k = ?k" using q(1) by (simp add: pre_exit_def Let_def)
  have kq: "kq ?k (k_ready k) (k_blocked k) (?c # k_free k)" using q(2) by simp
  show "safe k (pre_exit k)" unfolding run
    by (rule safeI [OF assms(1) kq])
      (use inv assms(2) in \<open>auto simp: k_others_def k_places_def k_lock_def tid_of_def console_ok_def
        stdout_queue_is_empty_def\<close>)
  show "k_cur (pre_exit k) = k_sched k" "k_free (pre_exit k) = ?c # k_free k"
    unfolding run using kq_lists [OF kq] by simp_all
  show "k_live (pre_exit k) = k_live k - {?c}"
    unfolding run using kq_lists [OF kq] inv(1) assms(2) by (auto simp: k_live_def)
qed

lemma tids_ok_insert:
  assumes "tids_ok k ps" "distinct qs" "set qs = insert t (set ps)" "k_ntid k \<noteq> 0" "k_ntid k + 1 \<noteq> 0"
    and "tid_of k' t = k_ntid k" "\<And>p. p \<noteq> t \<Longrightarrow> tid_of k' p = tid_of k p" "k_ntid k' = k_ntid k + 1"
  shows "tids_ok k' qs"
proof -
  have "unat (k_ntid k + 1) \<noteq> 0" using assms(5) by (simp add: unat_eq_zero)
  then have "unat (k_ntid k) + 1 \<noteq> 4294967296" by (auto simp: unat_add_u32)
  then have "unat (k_ntid k) + 1 < 4294967296" using unat_u32_less [of "k_ntid k"] by linarith
  then have "unat (k_ntid k + 1) = unat (k_ntid k) + 1"
    using unat_add_small [of "k_ntid k" 1] by simp
  then have lt: "x < k_ntid k + 1" if "x \<le> k_ntid k" for x
    using that by (simp add: word_less_nat_alt word_le_nat_alt)
  have old: "0 < tid_of k p \<and> tid_of k p < k_ntid k" if "p \<in> set ps" for p
    using assms(1) that by (simp add: tids_ok_def list_all_iff)
  have "inj_on (tid_of k) (set ps)" using assms(1) by (simp add: tids_ok_def distinct_map)
  then have "inj_on (tid_of k') (set qs)"
    using old assms(3,6,7) unfolding inj_on_def by (metis insert_iff order_less_irrefl)
  moreover have "0 < tid_of k' p \<and> tid_of k' p < k_ntid k'" if "p \<in> set qs" for p
    using old [of p] that lt assms(3,4,6,7,8) by (cases "p = t") (auto simp: word_gt_0)
  ultimately show ?thesis using assms(2) by (simp add: tids_ok_def distinct_map list_all_iff)
qed

lemma fork_keeps:
  assumes "k_inv k" "block_ok fresh" "fresh \<notin> set (k_places k)" "k_ntid k + 1 \<noteq> 0"
  obtains t k' where "pre_fork tramp fresh code arg ie sm k = Inr (t, k')" "keeps k k'"
    "k_ready k' = k_ready k @ [t]" "tid_of k' t = k_ntid k" "p_block (k_th k' t) = NONE"
    "k_cur k' = k_cur k" "t \<noteq> k_cur k" "t \<notin> k_live k" "k_live k' = insert t (k_live k)"
proof -
  note inv = k_invD [OF assms(1)]
  have "list_all block_ok (k_free k)" using inv(2) by simp
  from kq_alloc [OF k_inv_kq [OF assms(1)] this assms(2)] obtain t q fs n where
    al: "th_alloc fresh k = Inr (t, k\<lparr>k_freeq := q, k_nalloced := n,
       k_th := (k_th k)(t := (k_th k t)\<lparr>p_tid := k_ntid k\<rparr>), k_ntid := k_ntid k + 1\<rparr>)"
      "kq (k\<lparr>k_freeq := q\<rparr>) (k_ready k) (k_blocked k) fs"
      "(k_free k = [] \<and> t = fresh \<and> fs = []) \<or> k_free k = t # fs" "block_ok t" .
  have t: "t \<noteq> 0" "t \<notin> set (k_ready k)" "t \<notin> set (k_blocked k)" "t \<notin> set fs" "t \<notin> set (k_others k)"
    using al(3,4) inv(1) assms(3) by (auto simp: block_ok_nonzero k_places_def)
  let ?th = "(k_th k t)\<lparr>p_tid := k_ntid k, p_arg := arg, p_fn := code, p_block := NONE,
      p_saved_sp := t + 32 + 4 * (2048 - 17), p_stack := fork_frame tramp code arg ie sm (p_stack (k_th k t))\<rparr>"
  let ?k1 = "k\<lparr>k_freeq := q, k_nalloced := n, k_ntid := k_ntid k + 1, k_th := (k_th k)(t := ?th)\<rparr>"
  have "kq ?k1 (k_ready k) (k_blocked k) fs" using al(2) by simp
  from kq_run_append [OF this t(1-4)] obtain q2 nx where
    q2: "run_append t ?k1 = ?k1\<lparr>k_runq := q2, k_next := nx\<rparr>"
      "kq (?k1\<lparr>k_runq := q2, k_next := nx\<rparr>) (k_ready k @ [t]) (k_blocked k) fs" .
  let ?k = "?k1\<lparr>k_runq := q2, k_next := nx\<rparr>"
  have run: "pre_fork tramp fresh code arg ie sm k = Inr (t, ?k)"
    using al(1) q2(1) by (simp add: pre_fork_def fork_block_def set_th_def)
  let ?ps = "(k_ready k @ [t]) @ k_blocked k @ fs @ k_others ?k"
  have ps: "distinct ?ps" "set ?ps = insert t (set (k_places k))"
    using inv(1) al(3) t by (auto simp: k_places_def)
  have "k_cur k \<in> set (k_places k)" by (simp add: k_places_def k_others_def)
  then have "k_ntid k \<noteq> 0"
    using assms(1) by (auto simp: k_inv_def tids_ok_def list_all_iff)
  then have tids: "tids_ok ?k ?ps"
    using assms(1,4) by (intro tids_ok_insert [OF _ ps]) (auto simp: k_inv_def tid_of_def)
  have "k_cur k \<noteq> t" "k_wait_in k = 0 \<or> k_wait_in k \<noteq> t" using t(5) by (auto simp: k_others_def)
  then have con: "console_ok ?k" using inv(4) by (auto simp: console_ok_def tid_of_def k_lock_def)
  have bl: "list_all block_ok ?ps" using inv(2) al(3,4) by auto
  have "keeps k ?k"
    using k_inv_kqI [OF q2(2) ps(1) bl tids con] ps(2) kq_lists [OF q2(2)] al(3)
    by (auto simp: keeps_defs k_lock_def)
  moreover have "t \<notin> k_live k" "k_live ?k = insert t (k_live k)"
    using t kq_lists [OF q2(2)] by (auto simp: k_live_def k_others_def split: if_splits)
  ultimately show ?thesis using that [OF run] kq_lists [OF q2(2)] \<open>k_cur k \<noteq> t\<close> by (simp add: tid_of_def)
qed

section \<open>The UART interrupt\<close>

lemma drain_empty: "stdout_queue_is_empty s \<Longrightarrow> \<exists>u. drain_stdout s = Inr (s\<lparr>io_uart := u\<rparr>)"
  by (simp add: drain_stdout.simps on_uart_def) (metis stdio.surjective stdio.update_convs(4))

lemma fill_stdin_frame: "fill_stdin s = Inr s' \<Longrightarrow> putQ s' = putQ s \<and> io_lock s' = io_lock s"
proof (induction s arbitrary: s' rule: fill_stdin.induct)
  case (1 s)
  show ?case
  proof (cases "uart_has_data (io_uart s) \<and> \<not> stdin_queue_is_full s")
    case True
    with 1(2) obtain c u s1 where s1: "uart_get8 (io_uart s) = Inr (c, u)"
        "stdin_queue_push_char c (s\<lparr>io_uart := u\<rparr>) = Inr s1" "fill_stdin s1 = Inr s'"
      by (subst (asm) fill_stdin.simps) (auto simp: res_simps)
    from s1(2) have "putQ s1 = putQ s \<and> io_lock s1 = io_lock s"
      by (auto simp: stdin_queue_push_char_def res_simps)
    with 1(1) [OF _ _ s1(1) refl s1(2,3)] True show ?thesis by simp
  next
    case False
    with 1(2) show ?thesis by (subst (asm) fill_stdin.simps) (auto split: if_splits)
  qed
qed

lemma uart_interrupt_keeps:
  assumes "k_inv k" "int_vector_uart_pre_threads k = Inr k'"
  shows "keeps k k'" "k_cur k' = k_cur k"
proof -
  have emp: "stdout_queue_is_empty (k_io k)" using k_invD(4) [OF assms(1)] by (simp add: console_ok_def)
  obtain u where u: "drain_stdout (k_io k) = Inr ((k_io k)\<lparr>io_uart := u\<rparr>)" using drain_empty [OF emp] by blast
  from assms(2) u fill_stdin_frame obtain s where
    "k' = k\<lparr>k_io := s\<rparr>" "putQ s = putQ (k_io k)" "io_lock s = io_lock (k_io k)"
    by (auto simp: int_vector_uart_pre_threads_def Let_def res_simps split: if_splits)
       (metis kern.surjective kern.update_convs(12))+
  with emp show "keeps k k'" "k_cur k' = k_cur k"
    by (auto intro!: io_keeps [OF assms(1)] simp: stdout_queue_is_empty_def k_lock_def read_stdio_tid_def)
qed

section \<open>A round of the scheduler\<close>

lemma keeps_refl: "k_inv k \<Longrightarrow> keeps k k"
  by (simp add: keeps_defs)

lemma keeps_trans:
  assumes "keeps k k1" "keeps k1 k2" "k_cur k1 = k_sched k1"
  shows "keeps k k2"
  using assms unfolding keeps_defs by auto

lemma wake_stdin_keeps:
  assumes "k_inv k"
  shows "keeps k (wake_stdin k) \<and> k_cur (wake_stdin k) = k_cur k \<and> k_io (wake_stdin k) = k_io k
    \<and> k_th (wake_stdin k) = k_th k \<and> k_blocked (wake_stdin k) = k_blocked k
    \<and> k_ready (wake_stdin k) = k_ready k @ (if \<not> stdin_queue_is_empty (k_io k) \<and> k_wait_in k \<noteq> 0
        then [k_wait_in k] else [])"
proof (cases "\<not> stdin_queue_is_empty (k_io k) \<and> k_wait_in k \<noteq> 0")
  case True
  let ?w = "k_wait_in k"
  note inv = k_invD [OF assms, unfolded k_others_def]
  have w: "?w \<noteq> 0" "?w \<notin> set (k_ready k)" "?w \<notin> set (k_blocked k)" "?w \<notin> set (k_free k)"
    using True inv(1) by auto
  obtain q nx where q: "run_append ?w k = k\<lparr>k_runq := q, k_next := nx\<rparr>"
      "kq (k\<lparr>k_runq := q, k_next := nx\<rparr>) (k_ready k @ [?w]) (k_blocked k) (k_free k)"
    using kq_run_append [OF k_inv_kq [OF assms] w] .
  let ?k = "k\<lparr>k_runq := q, k_next := nx, k_wait_in := 0\<rparr>"
  have run: "wake_stdin k = ?k" using True q(1) by (simp add: wake_stdin_def)
  have kq: "kq ?k (k_ready k @ [?w]) (k_blocked k) (k_free k)" using q(2) by simp
  have "keeps k ?k"
    by (rule keepsI [OF assms kq])
      (use inv w in \<open>auto simp: k_others_def k_places_def k_lock_def tid_of_def console_ok_def
        stdout_queue_is_empty_def\<close>)
  with run True kq_lists [OF kq] show ?thesis by simp
next
  case False
  then have "wake_stdin k = k" by (auto simp: wake_stdin_def)
  with False keeps_refl [OF assms] show ?thesis by auto
qed

lemma wake_stdout_id: "k_inv k \<Longrightarrow> wake_stdout k = k"
  by (simp add: wake_stdout_def k_inv_def console_ok_def)

lemma unblock_one:
  assumes "k_inv k" "k_blocked k = p # bs"
  obtains q where "Q_pop (k_blockq k) (k_next k) = Inr (p, q)" "Q_start (k_blockq k) = p"
    "keeps k (run_append p (k\<lparr>k_blockq := q\<rparr>))" "k_ready (run_append p (k\<lparr>k_blockq := q\<rparr>)) = k_ready k @ [p]"
    "k_blocked (run_append p (k\<lparr>k_blockq := q\<rparr>)) = bs" "k_io (run_append p (k\<lparr>k_blockq := q\<rparr>)) = k_io k"
    "k_th (run_append p (k\<lparr>k_blockq := q\<rparr>)) = k_th k" "k_cur (run_append p (k\<lparr>k_blockq := q\<rparr>)) = k_cur k"
    "k_wait_in (run_append p (k\<lparr>k_blockq := q\<rparr>)) = k_wait_in k"
proof -
  note inv = k_invD [OF assms(1)]
  obtain q where q: "Q_pop (k_blockq k) (k_next k) = Inr (p, q)" "Q_start (k_blockq k) = p"
      "kq (k\<lparr>k_blockq := q\<rparr>) (k_ready k) bs (k_free k)"
    using kq_block_pop [OF k_inv_kq [OF assms(1), unfolded assms(2)]] by metis
  have p: "p \<noteq> 0" "p \<notin> set (k_ready k)" "p \<notin> set bs" "p \<notin> set (k_free k)"
    using inv(1,2) assms(2) by (auto simp: block_ok_nonzero)
  obtain q2 nx where q2: "run_append p (k\<lparr>k_blockq := q\<rparr>) = k\<lparr>k_blockq := q, k_runq := q2, k_next := nx\<rparr>"
      "kq (k\<lparr>k_blockq := q, k_runq := q2, k_next := nx\<rparr>) (k_ready k @ [p]) bs (k_free k)"
    using kq_run_append [OF q(3) p] .
  have "keeps k (k\<lparr>k_blockq := q, k_runq := q2, k_next := nx\<rparr>)"
    by (rule keepsI [OF assms(1) q2(2)])
      (use inv assms(2) in \<open>auto simp: k_places_def k_lock_def tid_of_def console_ok_def\<close>)
  with that [OF q(1,2)] kq_lists [OF q2(2)] show ?thesis unfolding q2(1) by simp
qed

lemma unblock_all_keeps:
  assumes "k_inv k" "k_cur k = k_sched k" "length (k_blocked k) < n"
  shows "\<exists>k'. unblock_all n k = Inr k' \<and> keeps k k' \<and> k_cur k' = k_cur k \<and> k_io k' = k_io k
           \<and> k_th k' = k_th k \<and> k_wait_in k' = k_wait_in k
           \<and> k_blocked k' = dropWhile (\<lambda>p. p_block (k_th k p) = STDIO) (k_blocked k)
           \<and> k_ready k' = k_ready k @ takeWhile (\<lambda>p. p_block (k_th k p) = STDIO) (k_blocked k)"
  using assms
proof (induction n arbitrary: k)
  case 0
  then show ?case by simp
next
  case (Suc n)
  note emp = kq_empty(2) [OF k_inv_kq [OF Suc.prems(1)]]
  show ?case
  proof (cases "k_blocked k")
    case Nil
    with emp Suc.prems keeps_refl show ?thesis by simp
  next
    case (Cons p bs)
    obtain q where q: "Q_pop (k_blockq k) (k_next k) = Inr (p, q)" "Q_start (k_blockq k) = p"
      and k1: "keeps k (run_append p (k\<lparr>k_blockq := q\<rparr>))"
        "k_ready (run_append p (k\<lparr>k_blockq := q\<rparr>)) = k_ready k @ [p]"
        "k_blocked (run_append p (k\<lparr>k_blockq := q\<rparr>)) = bs" "k_io (run_append p (k\<lparr>k_blockq := q\<rparr>)) = k_io k"
        "k_th (run_append p (k\<lparr>k_blockq := q\<rparr>)) = k_th k" "k_cur (run_append p (k\<lparr>k_blockq := q\<rparr>)) = k_cur k"
        "k_wait_in (run_append p (k\<lparr>k_blockq := q\<rparr>)) = k_wait_in k"
      using unblock_one [OF Suc.prems(1) Cons] .
    show ?thesis
    proof (cases "p_block (k_th k p) = STDIO")
      case True
      let ?k1 = "run_append p (k\<lparr>k_blockq := q\<rparr>)"
      have "k_inv ?k1" "k_sched ?k1 = k_sched k" using k1(1) by (auto simp: keeps_defs)
      with Suc.IH [of ?k1] Suc.prems k1 Cons obtain k' where
        k': "unblock_all n ?k1 = Inr k'" "keeps ?k1 k'" "k_cur k' = k_cur k" "k_io k' = k_io k"
          "k_th k' = k_th k" "k_wait_in k' = k_wait_in k"
          "k_blocked k' = dropWhile (\<lambda>p. p_block (k_th k p) = STDIO) bs"
          "k_ready k' = (k_ready k @ [p]) @ takeWhile (\<lambda>p. p_block (k_th k p) = STDIO) bs"
        by auto
      have "keeps k k'"
        using keeps_trans [OF k1(1) k'(2)] Suc.prems(2) k1(6) \<open>k_sched ?k1 = k_sched k\<close> by simp
      with k' q emp Cons True show ?thesis by simp
    next
      case False
      with q emp Cons Suc.prems keeps_refl show ?thesis by simp
    qed
  qed
qed

text \<open>A ready thread can run if it does not need the console, or the console is free or its own.\<close>

definition can_run :: "kern \<Rightarrow> ptr \<Rightarrow> bool" where
  "can_run k p \<longleftrightarrow> stdio_is_idle (tid_of k p) (k_io k) \<or> p_block (k_th k p) = NONE"

lemma dispatch_run:
  assumes "k_inv k" "k_cur k = k_sched k" "k_ready k = p # rs" "can_run k p"
  obtains k' where "dispatch (Suc n) sp k = Inr k'" "keeps k k'" "k_cur k' = p" "k_ready k' = rs"
    "k_blocked k' = k_blocked k" "k_wait_in k' = k_wait_in k"
    "p_block (k_th k p) \<noteq> STDIO \<Longrightarrow> k_io k' = k_io k"
    "\<And>x. p_block (k_th k' x) = p_block (k_th k x)" "\<And>x. tid_of k' x = tid_of k x"
proof -
  note inv = k_invD [OF assms(1), unfolded k_others_def]
  obtain q where q: "Q_pop (k_runq k) (k_next k) = Inr (p, q)"
      "kq (k\<lparr>k_runq := q\<rparr>) rs (k_blocked k) (k_free k)"
    using kq_run_pop [OF k_inv_kq [OF assms(1), unfolded assms(3)]] .
  let ?s = "if p_block (k_th k p) = STDIO then write_stdio_tid (tid_of k p) (k_io k) else k_io k"
  let ?k = "k\<lparr>k_runq := q, k_io := ?s,
      k_th := (k_th k)(k_sched k := (k_th k (k_sched k))\<lparr>p_saved_sp := sp\<rparr>), k_cur := p\<rparr>"
  have run: "dispatch (Suc n) sp k = Inr ?k"
    using kq_empty(1) [OF k_inv_kq [OF assms(1)]] q(1) assms(3,4)
    by (auto simp: can_run_def tid_of_def set_th_def on_io_def Let_def)
  have kq: "kq ?k rs (k_blocked k) (k_free k)" using q(2) by simp
  have p: "p \<noteq> k_sched k" "p \<noteq> 0" using inv(1,2) assms(2,3) by (auto simp: block_ok_nonzero)
  have idle: "k_lock k = 0 \<or> k_lock k = tid_of k p" if "p_block (k_th k p) = STDIO"
    using assms(4) that by (auto simp: can_run_def stdio_is_idle_def k_lock_def NONE_def STDIO_def)
  have w: "k_lock k \<noteq> 0" if "k_wait_in k \<noteq> 0"
    using k_inv_tids(1) [OF assms(1), of "k_wait_in k"] inv(4) that
    by (auto simp: console_ok_def k_places_def k_others_def)
  have con: "console_ok ?k"
    using inv(4) idle w p assms(2) by (auto simp: console_ok_def kern_simps tid_of_def)
  have "keeps k ?k"
    by (rule keepsI [OF assms(1) kq _ _ _ _ con])
      (use inv assms(2,3) idle p in \<open>auto simp: k_places_def tid_of_def kern_simps\<close>)
  with that [OF run] kq_lists [OF kq] show ?thesis by (simp add: tid_of_def)
qed

lemma dispatch_skip:
  assumes "k_inv k" "k_ready k = p # rs" "\<not> can_run k p"
  obtains k1 where "dispatch (Suc n) sp k = dispatch n sp k1" "keeps k k1" "k_cur k1 = k_cur k"
    "k_ready k1 = rs" "k_blocked k1 = k_blocked k @ [p]" "k_io k1 = k_io k" "k_th k1 = k_th k"
    "k_wait_in k1 = k_wait_in k"
proof -
  note inv = k_invD [OF assms(1)]
  obtain q where q: "Q_pop (k_runq k) (k_next k) = Inr (p, q)"
      "kq (k\<lparr>k_runq := q\<rparr>) rs (k_blocked k) (k_free k)"
    using kq_run_pop [OF k_inv_kq [OF assms(1), unfolded assms(2)]] .
  have p: "p \<noteq> 0" "p \<notin> set rs" "p \<notin> set (k_blocked k)" "p \<notin> set (k_free k)"
    using inv(1,2) assms(2) by (auto simp: block_ok_nonzero)
  obtain q2 nx where q2: "block_append p (k\<lparr>k_runq := q\<rparr>) = k\<lparr>k_runq := q, k_blockq := q2, k_next := nx\<rparr>"
      "kq (k\<lparr>k_runq := q, k_blockq := q2, k_next := nx\<rparr>) rs (k_blocked k @ [p]) (k_free k)"
    using kq_block_append [OF q(2) p] .
  let ?k = "k\<lparr>k_runq := q, k_blockq := q2, k_next := nx\<rparr>"
  have run: "dispatch (Suc n) sp k = dispatch n sp ?k"
    using kq_empty(1) [OF k_inv_kq [OF assms(1)]] q(1) q2(1) assms(2,3)
    by (simp add: can_run_def tid_of_def Let_def)
  have "keeps k ?k"
    by (rule keepsI [OF assms(1) q2(2)])
      (use inv assms(2) in \<open>auto simp: k_places_def k_lock_def tid_of_def console_ok_def\<close>)
  with that [OF run] kq_lists [OF q2(2)] show ?thesis by simp
qed

text \<open>
  Dispatching runs the first ready thread that can run; those before it go to the block queue. The
  loop always ends.
\<close>

lemma dispatch_keeps:
  assumes "k_inv k" "k_cur k = k_sched k" "length (k_ready k) < n"
  shows "\<exists>k'. dispatch n sp k = Inr k' \<and> keeps k k' \<and> k_wait_in k' = k_wait_in k
           \<and> (\<forall>x. p_block (k_th k' x) = p_block (k_th k x) \<and> tid_of k' x = tid_of k x)
           \<and> k_blocked k' = k_blocked k @ takeWhile (\<lambda>p. \<not> can_run k p) (k_ready k)
           \<and> (case dropWhile (\<lambda>p. \<not> can_run k p) (k_ready k) of
                [] \<Rightarrow> k_cur k' = k_sched k \<and> k_ready k' = []
              | p # rs \<Rightarrow> k_cur k' = p \<and> k_ready k' = rs)"
  using assms
proof (induction n arbitrary: k)
  case 0
  then show ?case by simp
next
  case (Suc n)
  show ?case
  proof (cases "k_ready k")
    case Nil
    with kq_empty(1) [OF k_inv_kq [OF Suc.prems(1)]] keeps_refl Suc.prems show ?thesis by simp
  next
    case (Cons p rs)
    show ?thesis
    proof (cases "can_run k p")
      case True
      from dispatch_run [OF Suc.prems(1,2) Cons True, of n sp] obtain k' where
        "dispatch (Suc n) sp k = Inr k'" "keeps k k'" "k_cur k' = p" "k_ready k' = rs"
        "k_blocked k' = k_blocked k" "k_wait_in k' = k_wait_in k"
        "\<And>x. p_block (k_th k' x) = p_block (k_th k x)" "\<And>x. tid_of k' x = tid_of k x" by metis
      with Cons True show ?thesis by simp
    next
      case False
      obtain k1 where k1: "dispatch (Suc n) sp k = dispatch n sp k1" "keeps k k1" "k_cur k1 = k_cur k"
          "k_ready k1 = rs" "k_blocked k1 = k_blocked k @ [p]" "k_io k1 = k_io k" "k_th k1 = k_th k"
          "k_wait_in k1 = k_wait_in k"
        using dispatch_skip [OF Suc.prems(1) Cons False] by metis
      have s: "k_inv k1" "k_sched k1 = k_sched k" using k1(2) by (auto simp: keeps_defs)
      have cr: "can_run k1 = can_run k" using k1(6,7) by (auto simp: can_run_def tid_of_def fun_eq_iff)
      from Suc.IH [OF s(1)] k1(3,4) s(2) Suc.prems Cons obtain k' where
        k': "dispatch n sp k1 = Inr k'" "keeps k1 k'" "k_wait_in k' = k_wait_in k1"
          "\<forall>x. p_block (k_th k' x) = p_block (k_th k1 x) \<and> tid_of k' x = tid_of k1 x"
          "k_blocked k' = k_blocked k1 @ takeWhile (\<lambda>p. \<not> can_run k1 p) rs"
          "case dropWhile (\<lambda>p. \<not> can_run k1 p) rs of [] \<Rightarrow> k_cur k' = k_sched k1 \<and> k_ready k' = []
            | p # rs \<Rightarrow> k_cur k' = p \<and> k_ready k' = rs" by auto
      have "keeps k k'" using keeps_trans [OF k1(2) k'(2)] k1(3) s(2) Suc.prems(2) by simp
      moreover have "\<forall>x. p_block (k_th k' x) = p_block (k_th k x) \<and> tid_of k' x = tid_of k x"
        using k'(4) k1(7) by (simp add: tid_of_def)
      ultimately show ?thesis
        using k'(1,3,5) k'(6) [unfolded cr s(2)] k1 cr Cons False by (simp del: dispatch.simps)
    qed
  qed
qed

lemma sched_body_keeps:
  assumes "k_inv k" "k_cur k = k_sched k"
  shows "\<exists>k'. sched_body sp k = Inr k' \<and> keeps k k'"
proof -
  let ?k1 = "wake_stdin k"
  note w = wake_stdin_keeps [OF assms(1)]
  then have k1: "k_inv ?k1" "keeps k ?k1" "k_cur ?k1 = k_sched ?k1" using assms(2) by (auto simp: keeps_defs)
  define m where "m = (if stdio_is_idle 0 (k_io ?k1) then unblock_all (Suc (unat (Q_cnt (k_blockq ?k1)))) ?k1
    else Inr ?k1)"
  have len: "unat (Q_cnt (k_blockq ?k1)) = length (k_blocked ?k1)"
    using kq_count(2) [OF k_inv_kq [OF k1(1)]] .
  obtain k2 where k2: "m = Inr k2" "keeps ?k1 k2" "k_cur k2 = k_cur ?k1"
    using unblock_all_keeps [OF k1(1,3), of "Suc (length (k_blocked ?k1))"] keeps_refl [OF k1(1)]
    unfolding m_def len by (cases "stdio_is_idle 0 (k_io ?k1)") auto
  have s2: "k_inv k2" "k_cur k2 = k_sched k2" using k2 k1(3) by (auto simp: keeps_defs)
  have len2: "unat (Q_cnt (k_runq k2)) = length (k_ready k2)" using kq_count(1) [OF k_inv_kq [OF s2(1)]] .
  obtain k3 where k3: "dispatch (Suc (unat (Q_cnt (k_runq k2)))) sp k2 = Inr k3" "keeps k2 k3"
    using dispatch_keeps [OF s2, of "Suc (length (k_ready k2))"] unfolding len2 by auto
  have "sched_body sp k = Inr k3"
    using k2(1) k3(1) by (simp add: sched_body_def wake_stdout_id [OF k1(1)] m_def)
  moreover have "keeps k k3"
    using keeps_trans [OF keeps_trans [OF k1(2) k2(2) k1(3)] k3(2) s2(2)] .
  ultimately show ?thesis by blast
qed

text \<open>The scheduler never faults or loops, and leaves its loop exactly when no thread is left.\<close>

lemma sched_turn_keeps:
  assumes "k_inv k" "k_cur k = k_sched k"
  shows "\<exists>k'. sched_turn sp k = Inr (k_ready k \<noteq> [] \<or> k_blocked k \<noteq> [] \<or> k_wait_in k \<noteq> 0, k') \<and> keeps k k'"
proof -
  note emp = kq_empty [OF k_inv_kq [OF assms(1)]]
  have "k_wait_out k = 0" using k_invD(4) [OF assms(1)] by (simp add: console_ok_def)
  moreover obtain k' where "sched_body sp k = Inr k'" "keeps k k'" using sched_body_keeps [OF assms] by blast
  ultimately show ?thesis
    using emp keeps_refl [OF assms(1)]
    by (cases "k_ready k = []"; cases "k_blocked k = []"; cases "k_wait_in k = 0") (auto simp: sched_turn_def)
qed

end
