(* ===== verification/Pre_Steps.thy ===== *)
theory Pre_Steps
  imports Pre_Sched
begin

text \<open>
  The preemptive thread package as a whole: its steps as an inductive relation, the start of the
  package, and the round-robin schedule of the timer interrupt.
\<close>

section \<open>Steps\<close>

text \<open>
  What can happen next. While a thread runs: an interrupt, a system call, the creation of a thread,
  its exit, or a read of a console character. \<open>WAIT_STDOUT\<close> is only executed by
  \<open>_thread_safe_printk\<close>, behind \<open>REQUEST_STDOUT\<close>, so by a thread that marked the console as its own.
  While no thread runs: a round of the scheduler. At any time: the device changes its registers.

  Handlers, system calls and the scheduler run with the interrupts masked, and \<open>pre_init_trampoline\<close>
  masks them before it calls \<open>pre_exit\<close>, so each of these is one step. \<open>pre_fork\<close> masks nothing: the rule
  \<open>fork\<close> describes the calls that no interrupt falls into, and the theorems about \<open>kstep\<close> hold for runs
  in which this is so of every call. \<open>Pre_Race\<close> shows that the restriction is needed.
\<close>

inductive kstep :: "u32 \<Rightarrow> u32 \<Rightarrow> kern \<Rightarrow> kern \<Rightarrow> bool" for tramp printer where
  interrupt: "\<lbrakk>k_cur k \<noteq> k_sched k; fiq_vector pending sp k = Inr k'\<rbrakk> \<Longrightarrow> kstep tramp printer k k'"
| syscall: "\<lbrakk>k_cur k \<noteq> k_sched k; inst = 0xef000002 \<Longrightarrow> p_block (k_th k (k_cur k)) = STDIO;
     syscall_vector tramp printer fresh inst mode sp k = Inr k'\<rbrakk> \<Longrightarrow> kstep tramp printer k k'"
| fork: "\<lbrakk>k_cur k \<noteq> k_sched k; block_ok fresh; fresh \<notin> set (k_places k); k_ntid k + 1 \<noteq> 0;
     pre_fork tramp fresh code arg ie sm k = Inr (t, k')\<rbrakk> \<Longrightarrow> kstep tramp printer k k'"
| exit: "k_cur k \<noteq> k_sched k \<Longrightarrow> kstep tramp printer k (pre_exit k)"
| getc: "\<lbrakk>k_cur k \<noteq> k_sched k; uart_getc_int ie (k_io k) = Inr (c, io)\<rbrakk>
     \<Longrightarrow> kstep tramp printer k (k\<lparr>k_io := io\<rparr>)"
| schedule: "\<lbrakk>k_cur k = k_sched k; sched_turn sp k = Inr (True, k')\<rbrakk> \<Longrightarrow> kstep tramp printer k k'"
| device: "kstep tramp printer k (k\<lparr>k_io := (k_io k)\<lparr>io_uart := u\<rparr>\<rparr>)"

inductive_cases kstepE: "kstep tramp printer k k'"

abbreviation ksteps :: "u32 \<Rightarrow> u32 \<Rightarrow> kern \<Rightarrow> kern \<Rightarrow> bool" where
  "ksteps tramp printer \<equiv> (kstep tramp printer)\<^sup>*\<^sup>*"

lemma interrupt_keeps:
  assumes "k_inv k" "k_cur k \<noteq> k_sched k" "fiq_vector pending sp k = Inr k'"
  shows "keeps k k'"
proof (cases pending)
  case True
  from timer_keeps [OF assms(1,2), of sp] obtain k1 where
    "int_vector_pre_threads True sp k = (True, k1)" "keeps k k1" .
  with True assms(3) show ?thesis by (simp add: fiq_vector_def)
next
  case False
  with assms show ?thesis
    using uart_interrupt_keeps(1) [OF assms(1)] by (simp add: fiq_vector_def int_vector_pre_threads_def)
qed

lemma syscall_keeps:
  assumes "k_inv k" "k_cur k \<noteq> k_sched k" "inst = 0xef000002 \<Longrightarrow> p_block (k_th k (k_cur k)) = STDIO"
    and "syscall_vector tramp printer fresh inst mode sp k = Inr k'"
  shows "keeps k k'"
proof -
  from request_stdin_keeps [OF assms(1,2), of sp] obtain ks where
    s: "sys_request_stdin sp k = Inr ks" "keeps k ks" by blast
  have num: "inst - 0xef000000 = 2 \<Longrightarrow> inst = 0xef000002" by (simp add: diff_eq_eq)
  consider "k' = sys_request_stdout sp k" | "k' = ks" | "k' = k"
    | "inst = 0xef000002" "sys_wait_stdout tramp printer fresh sp k = Inr k'"
    using assms(4) s(1) end_stdin_faults [OF assms(1)] num
    by (auto simp: syscall_vector_def Let_def split: if_splits)
  then show ?thesis
  proof cases
    case 4
    from wait_stdout_keeps [OF assms(1,2) assms(3) [OF 4(1)], of tramp printer fresh sp] obtain kw where
      "sys_wait_stdout tramp printer fresh sp k = Inr kw" "keeps k kw" .
    with 4 show ?thesis by simp
  qed (use request_stdout_keeps [OF assms(1,2)] s(2) keeps_refl [OF assms(1)] in simp_all)
qed

lemma getc_keeps:
  assumes "k_inv k" "uart_getc_int ie (k_io k) = Inr (c, io)"
  shows "keeps k (k\<lparr>k_io := io\<rparr>)"
proof -
  from assms(2) have "putQ io = putQ (k_io k) \<and> io_lock io = io_lock (k_io k)"
    by (auto simp: uart_getc_int_def stdin_queue_pop_char_def on_uart_def Let_def res_simps split: if_splits)
  then show ?thesis
    using k_invD(4) [OF assms(1)]
    by (intro io_keeps [OF assms(1)])
       (auto simp: console_ok_def stdout_queue_is_empty_def k_lock_def read_stdio_tid_def)
qed

text \<open>Every step but an exit keeps the live threads live, and an exit removes the running thread only.\<close>

lemma kstep_cases:
  assumes "k_inv k" "kstep tramp printer k k'"
  shows "keeps k k' \<or> (k_cur k \<noteq> k_sched k \<and> k' = pre_exit k)"
  using assms(2)
proof (cases rule: kstep.cases)
  case (interrupt pending sp)
  then show ?thesis using interrupt_keeps [OF assms(1)] by blast
next
  case (syscall inst fresh mode sp)
  then show ?thesis using syscall_keeps [OF assms(1)] by blast
next
  case (fork fresh code arg ie sm t)
  then show ?thesis using fork_keeps [OF assms(1)] by (metis Inr_inject prod.inject)
next
  case exit
  then show ?thesis by blast
next
  case (getc ie c io)
  then show ?thesis using getc_keeps [OF assms(1)] by blast
next
  case (schedule sp)
  then show ?thesis using sched_turn_keeps [OF assms(1), of sp] by auto
next
  case (device u)
  then show ?thesis
    using k_invD(4) [OF assms(1)]
    by (auto intro!: io_keeps [OF assms(1)] simp: console_ok_def stdout_queue_is_empty_def k_lock_def read_stdio_tid_def)
qed

lemma kstep_safe:
  assumes "k_inv k" "kstep tramp printer k k'"
  shows "safe k k'"
  using kstep_cases [OF assms] exit_safe(1) [OF assms(1)] by (auto simp: keeps_defs)

lemma kstep_live:
  assumes "k_inv k" "kstep tramp printer k k'"
  shows "k_live k \<subseteq> k_live k' \<or> (k_cur k \<noteq> k_sched k \<and> k' = pre_exit k \<and> k_live k' = k_live k - {k_cur k})"
  using kstep_cases [OF assms] exit_safe(4) [OF assms(1)] keeps_live [OF assms(1)] by auto

lemma ksteps_inv:
  assumes "ksteps tramp printer k k'" "k_inv k"
  shows "k_inv k' \<and> set (k_places k) \<subseteq> set (k_places k') \<and> k_sched k' = k_sched k"
  using assms
proof (induction rule: rtranclp_induct)
  case base
  then show ?case by simp
next
  case (step k1 k2)
  with kstep_safe [of k1 tramp printer k2] show ?case by (auto simp: safe_def)
qed

section \<open>The start of the package\<close>

text \<open>
  Before \<open>pre_thread_start\<close> there are only forked threads; the call makes its caller the scheduler and
  establishes the invariant.
\<close>

lemma pre_thread_start_inv:
  assumes "kq k (r # rs) [] fs" "distinct (r # rs @ fs)" "list_all block_ok (r # rs @ fs)"
    and "tids_ok k (r # rs @ fs)" "k_ntid k \<noteq> 0" "k_ntid k + 1 \<noteq> 0"
    and "k_sched k = 0" "k_wait_in k = 0" "k_wait_out k = 0"
    and "block_ok fresh" "fresh \<notin> set (r # rs @ fs)"
  shows "\<exists>k'. pre_thread_start False fresh k = Inr (True, k') \<and> k_inv k' \<and> k_cur k' = k_sched k'
           \<and> k_ready k' = r # rs \<and> k_blocked k' = [] \<and> k_wait_in k' = 0 \<and> k_th k' r = k_th k r"
proof -
  obtain c where c: "cq_init True = Inr c" "cq_empty c"
    by (simp add: cq_init_def cq_empty_def cq_full_def cq_nelem_def CQ_N_def cq_pop_nonblock_def)
  let ?s = "on_uart (\<lambda>u. u\<lparr>u_rx := [], u_ier := 0xe\<rparr>) ((k_io k)\<lparr>putQ := c, getQ := c\<rparr>)"
  let ?k0 = "k\<lparr>k_io := ?s\<rparr>"
  have "kq ?k0 (r # rs) [] fs" "list_all block_ok fs" using assms(1,3) by simp_all
  from kq_alloc [OF this assms(10)] obtain t q fs' n where
    al: "th_alloc fresh ?k0 = Inr (t, ?k0\<lparr>k_freeq := q, k_nalloced := n,
       k_th := (k_th ?k0)(t := (k_th ?k0 t)\<lparr>p_tid := k_ntid ?k0\<rparr>), k_ntid := k_ntid ?k0 + 1\<rparr>)"
      "kq (?k0\<lparr>k_freeq := q\<rparr>) (r # rs) [] fs'"
      "(fs = [] \<and> t = fresh \<and> fs' = []) \<or> fs = t # fs'" "block_ok t" .
  let ?k = "k\<lparr>k_io := ?s, k_freeq := q, k_nalloced := n,
       k_th := (k_th k)(t := (k_th k t)\<lparr>p_tid := k_ntid k\<rparr>), k_ntid := k_ntid k + 1, k_sched := t, k_cur := t\<rparr>"
  have run: "pre_thread_start False fresh k = Inr (True, ?k)"
    using al(1) c(1) kq_empty(1) [OF assms(1)] assms(7)
    by (simp add: pre_thread_start_def uart_init_int_def stdio_init_def Let_def)
  have kq: "kq ?k (r # rs) [] fs'" using al(2) by simp
  let ?ps = "(r # rs) @ [] @ fs' @ k_others ?k"
  have ps: "distinct ?ps" "set ?ps = insert t (set (r # rs @ fs))"
    using assms(2,8,11) al(3) by (auto simp: k_others_def)
  have t: "t \<noteq> r" using al(3) assms(2,11) by auto
  have tids: "tids_ok ?k ?ps"
    using tids_ok_insert [OF assms(4) ps assms(5,6), of ?k] by (simp add: tid_of_def)
  have con: "console_ok ?k"
    using assms(8,9) c(2) by (simp add: console_ok_def stdout_queue_is_empty_def on_uart_def)
  have bl: "list_all block_ok ?ps" using assms(3,8) al(3,4) by (auto simp: k_others_def)
  have "k_inv ?k" using k_inv_kqI [OF kq ps(1) bl tids con] by simp
  with run kq_lists [OF kq] t assms(8) show ?thesis by simp
qed

section \<open>The timer interrupt schedules round-robin\<close>

text \<open>A turn: the timer interrupts the running thread, and the scheduler runs one round.\<close>

definition preempt_turn :: "u32 \<times> u32 \<Rightarrow> kern \<Rightarrow> kern res" where
  "preempt_turn sps k = bind_r (fiq_vector True (fst sps) k) (\<lambda>k1.
     bind_r (sched_turn (snd sps) k1) (\<lambda>(_, k2). Inr k2))"

definition k_line :: "kern \<Rightarrow> ptr list" where
  "k_line k = k_cur k # k_ready k"

text \<open>
  A thread is running and no thread uses the console: nobody is blocked, waits for input or is marked
  as a user of the console. Then the turns rotate the line exactly. When the console is in use, threads
  that have to wait for it leave the line and come back to it at its end, so that a thread that can run
  may get its turn earlier (\<open>turns_reach\<close> below).
\<close>

definition preempt_running :: "kern \<Rightarrow> bool" where
  "preempt_running k \<longleftrightarrow> k_inv k \<and> k_cur k \<noteq> k_sched k \<and> k_blocked k = [] \<and> k_wait_in k = 0
     \<and> list_all (\<lambda>p. p_block (k_th k p) = NONE) (k_line k)"

lemma quiet_sched_turn:
  assumes "k_inv k" "k_cur k = k_sched k" "k_ready k = p # rs" "k_blocked k = []" "k_wait_in k = 0"
    and "p_block (k_th k p) = NONE"
  obtains k' where "sched_turn sp k = Inr (True, k')" "keeps k k'" "k_cur k' = p" "k_ready k' = rs"
    "k_blocked k' = []" "k_wait_in k' = 0" "\<And>x. p_block (k_th k' x) = p_block (k_th k x)"
proof -
  note emp = kq_empty [OF k_inv_kq [OF assms(1)]]
  have w: "wake_stdout (wake_stdin k) = k"
    using assms(5) wake_stdout_id [OF assms(1)] by (simp add: wake_stdin_def)
  have len: "unat (Q_cnt (k_runq k)) = length (k_ready k)" using kq_count(1) [OF k_inv_kq [OF assms(1)]] .
  have "can_run k p" using assms(6) by (simp add: can_run_def)
  then obtain k' where
    k': "dispatch (Suc (length (k_ready k))) sp k = Inr k'" "keeps k k'" "k_cur k' = p" "k_ready k' = rs"
      "k_blocked k' = k_blocked k" "k_wait_in k' = k_wait_in k"
      "p_block (k_th k p) \<noteq> STDIO \<Longrightarrow> k_io k' = k_io k" "\<And>x. p_block (k_th k' x) = p_block (k_th k x)"
    using dispatch_run [OF assms(1-3), of "length (k_ready k)" sp] by blast
  have "sched_body sp k = Inr k'"
    using emp(2) assms(4) k'(1) by (simp add: sched_body_def w len del: dispatch.simps)
  then have "sched_turn sp k = Inr (True, k')"
    using emp(1) assms(3) by (simp add: sched_turn_def)
  with that k' assms(4,5) show ?thesis by simp
qed

interpretation preempt: round_robin preempt_running k_line "\<lambda>_. True" preempt_turn
proof unfold_locales
  fix k and sps :: "u32 \<times> u32"
  assume run: "preempt_running k"
  then have inv: "k_inv k" "k_cur k \<noteq> k_sched k" by (simp_all add: preempt_running_def)
  from timer_keeps [OF inv, of "fst sps"] obtain k1 where
    k1: "int_vector_pre_threads True (fst sps) k = (True, k1)" "keeps k k1"
      "k_ready k1 = k_ready k @ [k_cur k]" "k_cur k1 = k_sched k" "k_blocked k1 = k_blocked k"
      "k_wait_in k1 = k_wait_in k" "\<And>p. p_block (k_th k1 p) = p_block (k_th k p)" by metis
  obtain p rs where line: "k_ready k @ [k_cur k] = p # rs" by (cases "k_ready k @ [k_cur k]") auto
  have s: "k_inv k1" "k_cur k1 = k_sched k1" "k_sched k1 = k_sched k" using k1(2,4) by (auto simp: keeps_defs)
  have bl: "p_block (k_th k1 x) = NONE" if "x \<in> set (p # rs)" for x
    using that run k1(7) unfolding line [symmetric]
    by (auto simp: preempt_running_def k_line_def list_all_iff)
  have q: "k_ready k1 = p # rs" "k_blocked k1 = []" "k_wait_in k1 = 0"
    using k1 line run by (simp_all add: preempt_running_def)
  have bp: "p_block (k_th k1 p) = NONE" using bl by simp
  obtain k2 where
    k2: "sched_turn (snd sps) k1 = Inr (True, k2)" "keeps k1 k2" "k_cur k2 = p" "k_ready k2 = rs"
      "k_blocked k2 = []" "k_wait_in k2 = 0" "\<And>x. p_block (k_th k2 x) = p_block (k_th k1 x)"
    using quiet_sched_turn [OF s(1,2) q bp, of "snd sps"] by blast
  have "p \<in> set (k_ready k1)" using q(1) by simp
  then have "p \<noteq> k_sched k1"
    using k_invD(1) [OF s(1)] s(2) by (auto simp: k_others_def)
  then have "preempt_running k2"
    using k2 bl s(3) by (auto simp: preempt_running_def k_line_def keeps_defs list_all_iff)
  moreover have "preempt_turn sps k = Inr k2"
    using k1(1) k2(1) by (simp add: preempt_turn_def fiq_vector_def)
  moreover have "k_line k2 = rotate1 (k_line k)" using k2(3,4) line by (simp add: k_line_def)
  ultimately show "\<exists>k'. preempt_turn sps k = Inr k' \<and> preempt_running k' \<and> k_line k' = rotate1 (k_line k)"
    by blast
qed

text \<open>
  The general case. A thread can run whatever the other threads do with the console if it does not use
  the console, or holds the lock.
\<close>

definition runnable :: "kern \<Rightarrow> ptr \<Rightarrow> bool" where
  "runnable k p \<longleftrightarrow> p_block (k_th k p) = NONE \<or> k_lock k = tid_of k p"

lemma runnable_can_run: "runnable k p \<Longrightarrow> can_run k p"
  by (auto simp: runnable_def can_run_def stdio_is_idle_def k_lock_def)

lemma runnable_keeps:
  assumes "k_inv k" "keeps k k'" "k_cur k = k_sched k" "p \<in> set (k_places k)" "runnable k p"
    and "p_block (k_th k' p) = p_block (k_th k p)" "tid_of k' p = tid_of k p"
  shows "runnable k' p"
  using assms k_inv_tids(1) [OF assms(1,4,4)] by (auto simp: runnable_def keeps_defs)

lemma dropWhile_at:
  assumes "\<not> P p"
  obtains "dropWhile P (xs @ p # ys) = p # ys"
  | q zs where "dropWhile P (xs @ p # ys) = q # zs @ p # ys" "length zs < length xs"
proof (cases "dropWhile P xs")
  case Nil
  with assms that(1) show ?thesis by (simp add: dropWhile_append)
next
  case (Cons q zs)
  then have "length (q # zs) \<le> length xs" using length_dropWhile_le [of P xs] by simp
  moreover have "\<not> (\<forall>x\<in>set xs. P x)" using Cons dropWhile_eq_Nil_conv [of P xs] by simp
  then have "dropWhile P (xs @ p # ys) = q # zs @ p # ys" using Cons by (auto simp: dropWhile_append)
  ultimately show ?thesis using that(2) by auto
qed

text \<open>A round of the scheduler brings every runnable thread of the run queue forward, or runs it.\<close>

lemma sched_turn_forward:
  assumes "k_inv k" "k_cur k = k_sched k" "k_ready k = xs @ p # ys" "runnable k p"
  obtains k' where "sched_turn sp k = Inr (True, k')" "keeps k k'" "runnable k' p" "k_cur k' \<noteq> k_sched k'"
    "k_cur k' = p \<or> (\<exists>us vs. k_ready k' = us @ p # vs \<and> length us < length xs)"
proof -
  let ?k1 = "wake_stdin k"
  note w = wake_stdin_keeps [OF assms(1)]
  then have k1: "k_inv ?k1" "k_cur ?k1 = k_sched ?k1" using assms(2) by (auto simp: keeps_defs)
  have len: "unat (Q_cnt (k_blockq ?k1)) = length (k_blocked ?k1)" using kq_count(2) [OF k_inv_kq [OF k1(1)]] .
  obtain k2 zs where k2: "(if stdio_is_idle 0 (k_io ?k1) then unblock_all (Suc (unat (Q_cnt (k_blockq ?k1)))) ?k1
      else Inr ?k1) = Inr k2" "keeps ?k1 k2" "k_cur k2 = k_cur ?k1" "k_io k2 = k_io ?k1" "k_th k2 = k_th ?k1"
      "k_ready k2 = k_ready ?k1 @ zs"
    using unblock_all_keeps [OF k1, of "Suc (length (k_blocked ?k1))"] keeps_refl [OF k1(1)]
    unfolding len by (cases "stdio_is_idle 0 (k_io ?k1)") auto
  obtain ws where r2: "k_ready k2 = xs @ p # ws" using k2(6) w assms(3) by auto
  have s2: "k_inv k2" "k_cur k2 = k_sched k2" using k2(2,3) k1(2) by (auto simp: keeps_defs)
  have run2: "runnable k2 p" using assms(4) k2(4,5) w by (simp add: runnable_def k_lock_def tid_of_def)
  have len2: "unat (Q_cnt (k_runq k2)) = length (k_ready k2)" using kq_count(1) [OF k_inv_kq [OF s2(1)]] .
  obtain k3 where k3: "dispatch (Suc (unat (Q_cnt (k_runq k2)))) sp k2 = Inr k3" "keeps k2 k3"
      "\<And>x. p_block (k_th k3 x) = p_block (k_th k2 x)" "\<And>x. tid_of k3 x = tid_of k2 x"
      "case dropWhile (\<lambda>p. \<not> can_run k2 p) (k_ready k2) of [] \<Rightarrow> k_cur k3 = k_sched k2 \<and> k_ready k3 = []
        | p # rs \<Rightarrow> k_cur k3 = p \<and> k_ready k3 = rs"
    using dispatch_keeps [OF s2, of "Suc (length (k_ready k2))" sp] unfolding len2 by auto
  have "p \<in> set (k_places k2)" using r2 by (simp add: k_places_def)
  then have r3: "runnable k3 p" using runnable_keeps [OF s2(1) k3(2) s2(2) _ run2] k3(3,4) by blast
  obtain c rs where c: "dropWhile (\<lambda>p. \<not> can_run k2 p) (k_ready k2) = c # rs"
      "c = p \<or> (\<exists>us vs. rs = us @ p # vs \<and> length us < length xs)"
    unfolding r2 using dropWhile_at [of "\<lambda>p. \<not> can_run k2 p" p xs ws] runnable_can_run [OF run2] by metis
  have "c \<in> set (k_ready k2)" using c(1) set_dropWhileD by (metis list.set_intros(1))
  then have "c \<noteq> k_sched k2" using k_invD(1) [OF s2(1)] s2(2) by (auto simp: k_others_def)
  then have cur: "k_cur k3 \<noteq> k_sched k3"
      "k_cur k3 = p \<or> (\<exists>us vs. k_ready k3 = us @ p # vs \<and> length us < length xs)"
    using c k3(2,5) by (auto simp: keeps_defs)
  have "sched_body sp k = Inr k3"
    using k2(1) k3(1) by (simp add: sched_body_def wake_stdout_id [OF k1(1)])
  then have "sched_turn sp k = Inr (True, k3)"
    using kq_empty(1) [OF k_inv_kq [OF assms(1)]] assms(3) by (simp add: sched_turn_def)
  moreover have "keeps k k3"
    using keeps_trans [OF keeps_trans [OF _ k2(2) k1(2)] k3(2) s2(2)] w by blast
  ultimately show ?thesis using that r3 cur by blast
qed

lemma preempt_turn_forward:
  assumes "k_inv k" "k_cur k \<noteq> k_sched k" "k_ready k = xs @ p # ys" "runnable k p"
  obtains k' where "preempt_turn sps k = Inr k'" "k_inv k'" "k_cur k' \<noteq> k_sched k'" "runnable k' p"
    "k_cur k' = p \<or> (\<exists>us vs. k_ready k' = us @ p # vs \<and> length us < length xs)"
proof -
  from timer_keeps [OF assms(1,2), of "fst sps"] obtain k1 where
    k1: "int_vector_pre_threads True (fst sps) k = (True, k1)" "keeps k k1"
      "k_ready k1 = k_ready k @ [k_cur k]" "k_cur k1 = k_sched k" "k_io k1 = k_io k"
      "\<And>p. p_block (k_th k1 p) = p_block (k_th k p)" "\<And>p. tid_of k1 p = tid_of k p" by metis
  have s: "k_inv k1" "k_cur k1 = k_sched k1" "k_ready k1 = xs @ p # ys @ [k_cur k]" "runnable k1 p"
    using k1 assms(3,4) by (auto simp: keeps_defs runnable_def k_lock_def)
  from sched_turn_forward [OF s, of "snd sps"] obtain k2 where
    "sched_turn (snd sps) k1 = Inr (True, k2)" "keeps k1 k2" "runnable k2 p" "k_cur k2 \<noteq> k_sched k2"
    "k_cur k2 = p \<or> (\<exists>us vs. k_ready k2 = us @ p # vs \<and> length us < length xs)" by metis
  with k1(1) that show ?thesis by (auto simp: preempt_turn_def fiq_vector_def keeps_defs)
qed

lemma turns_reach:
  assumes "k_inv k" "k_cur k \<noteq> k_sched k" "k_ready k = xs @ p # ys" "runnable k p" "length xs < length sps"
  shows "\<exists>m k'. m \<le> length xs + 1 \<and> turns_r preempt_turn (take m sps) k = Inr k' \<and> k_inv k' \<and> k_cur k' = p"
  using assms
proof (induction "length xs" arbitrary: k xs ys sps rule: less_induct)
  case less
  obtain sp sps' where sps: "sps = sp # sps'" using less.prems(5) by (cases sps) auto
  obtain k' where k': "preempt_turn sp k = Inr k'" "k_inv k'" "k_cur k' \<noteq> k_sched k'" "runnable k' p"
      "k_cur k' = p \<or> (\<exists>us vs. k_ready k' = us @ p # vs \<and> length us < length xs)"
    using preempt_turn_forward [OF less.prems(1-4), of sp] by metis
  show ?case
  proof (cases "k_cur k' = p")
    case True
    with k' sps show ?thesis by (intro exI [of _ 1] exI [of _ k']) simp
  next
    case False
    with k'(5) obtain us vs where us: "k_ready k' = us @ p # vs" "length us < length xs" by blast
    then have "length us < length sps'" using less.prems(5) sps by simp
    from less.hyps [OF us(2) k'(2,3) us(1) k'(4) this] obtain m k2 where
      "m \<le> length us + 1" "turns_r preempt_turn (take m sps') k' = Inr k2" "k_inv k2" "k_cur k2 = p" by blast
    with k'(1) sps us(2) show ?thesis by (intro exI [of _ "Suc m"] exI [of _ k2]) simp
  qed
qed

end
