(* ===== verification/Pre_Race.thy ===== *)
theory Pre_Race
  imports Pre_Steps
begin

text \<open>
  A timer interrupt inside \<open>pre_fork\<close>. The function runs with the interrupts of its caller, and the
  threads of the shell and of the servers are forked with interrupts on; so the timer can fire inside
  its \<open>Q_append(&runq, t)\<close>, and the handler appends the interrupted thread to the same queue. Here the
  append is cut where its two stores into the list are: the link of the last element, then the tail.
\<close>

section \<open>The append in two parts\<close>

text \<open>
  The run queue is not empty. First part: \<open>e->next = 0; q->cnt++; q->tail->next = e\<close>. Second part:
  \<open>q->tail = e\<close>.
\<close>

definition append_link :: "ptr \<Rightarrow> kern \<Rightarrow> kern" where
  "append_link e k = k\<lparr>k_runq := (k_runq k)\<lparr>Q_cnt := Q_cnt (k_runq k) + 1\<rparr>,
     k_next := (k_next k)(e := 0, Q_tail (k_runq k) := e)\<rparr>"

definition append_tail :: "ptr \<Rightarrow> kern \<Rightarrow> kern" where
  "append_tail e k = k\<lparr>k_runq := (k_runq k)\<lparr>Q_tail := e\<rparr>\<rparr>"

lemma append_parts: "Q_tail (k_runq k) \<noteq> 0 \<Longrightarrow> run_append e k = append_tail e (append_link e k)"
  by (simp add: run_append_def append_tail_def append_link_def Q_append_def Let_def)

text \<open>\<open>pre_fork\<close> up to the first part of its append, where the timer interrupts it.\<close>

definition fork_interrupted ::
    "u32 \<Rightarrow> ptr \<Rightarrow> u32 \<Rightarrow> u32 \<Rightarrow> bool \<Rightarrow> bool \<Rightarrow> u32 \<Rightarrow> kern \<Rightarrow> (ptr \<times> kern) res" where
  "fork_interrupted tramp fresh code arg ie sm sp k =
     bind_r (fork_block tramp fresh code arg ie sm k) (\<lambda>(t, k1).
     bind_r (fiq_vector True sp (append_link t k1)) (\<lambda>k2. Inr (t, k2)))"

section \<open>The new thread is lost\<close>

lemma chain_cong: "chain nx p xs \<Longrightarrow> (\<And>a. a \<in> set xs \<Longrightarrow> nx' a = nx a) \<Longrightarrow> chain nx' p xs"
  by (induction xs arbitrary: p) auto

text \<open>The elements of a queue whose count is too high are still those that the links reach.\<close>

lemma chain_elems: "chain nx (Q_head q) xs \<Longrightarrow> length xs \<le> unat (Q_cnt q) \<Longrightarrow> Q_elems (q, nx) = xs"
  by (simp add: Q_elems_def Q_walk_chain)

lemma append_over_link:
  assumes "Q_rep nx q xs" "xs \<noteq> []" "distinct (xs @ [e, c])" "e \<noteq> 0" "c \<noteq> 0"
  obtains q' nx' where "Q_append (q\<lparr>Q_cnt := Q_cnt q + 1\<rparr>) c (nx(e := 0, Q_tail q := e)) = (q', nx')"
    "Q_elems (q', nx') = xs @ [c]" "Q_cnt q' = of_nat (length xs + 2)"
    "\<And>a. a \<notin> set (xs @ [e, c]) \<Longrightarrow> nx' a = nx a"
proof -
  have tl: "Q_tail q = last xs" "last xs \<in> set xs" "last xs \<noteq> 0"
    using assms(1,2) chain_nonzero [of nx "Q_head q" xs] by (auto simp: Q_rep_def) (metis last_in_set)
  let ?nx = "nx(e := 0, c := 0, last xs := c)" and ?q = "q\<lparr>Q_cnt := of_nat (length xs + 2), Q_tail := c\<rparr>"
  have ap: "Q_append (q\<lparr>Q_cnt := Q_cnt q + 1\<rparr>) c (nx(e := 0, Q_tail q := e)) = (?q, ?nx)"
    using assms(1,3) tl by (auto simp: Q_append_def Q_rep_def Let_def fun_eq_iff)
  have "chain (nx(c := 0, last xs := c)) (Q_head q) (xs @ [c])"
    using assms(1-3,5) by (intro chain_snoc) (auto simp: Q_rep_def)
  then have "chain ?nx (Q_head q) (xs @ [c])" by (rule chain_cong) (use assms(3) in auto)
  moreover have "length (xs @ [e, c]) < 4294967296"
    using assms chain_nonzero [of nx "Q_head q" xs] by (intro distinct_ptrs_length) (auto simp: Q_rep_def)
  then have "unat (of_nat (length xs + 2) :: u32) = length xs + 2" by (intro unat_of_nat_u32) simp
  then have "length (xs @ [c]) \<le> unat (Q_cnt ?q)" by (simp del: of_nat_add of_nat_Suc of_nat_numeral)
  ultimately have "Q_elems (?q, ?nx) = xs @ [c]" by (simp add: chain_elems del: of_nat_add of_nat_Suc of_nat_numeral)
  moreover have "?nx a = nx a" if "a \<notin> set (xs @ [e, c])" for a using that tl(2) by auto
  ultimately show ?thesis using that [OF ap] by (simp del: fun_upd_apply)
qed

lemma fork_block_kq:
  assumes "k_inv k" "block_ok fresh" "fresh \<notin> set (k_places k)"
  obtains t k1 fs where "fork_block tramp fresh code arg ie sm k = Inr (t, k1)"
    "kq k1 (k_ready k) (k_blocked k) fs" "k_cur k1 = k_cur k" "k_sched k1 = k_sched k" "k_wait_in k1 = k_wait_in k"
    "t \<noteq> 0" "t \<notin> set (k_ready k @ k_blocked k @ fs @ k_others k)" "set fs \<subseteq> set (k_free k)"
proof -
  note inv = k_invD [OF assms(1)]
  have "list_all block_ok (k_free k)" using inv(2) by simp
  from kq_alloc [OF k_inv_kq [OF assms(1)] this assms(2)] obtain t q fs n where
    al: "th_alloc fresh k = Inr (t, k\<lparr>k_freeq := q, k_nalloced := n,
       k_th := (k_th k)(t := (k_th k t)\<lparr>p_tid := k_ntid k\<rparr>), k_ntid := k_ntid k + 1\<rparr>)"
      "kq (k\<lparr>k_freeq := q\<rparr>) (k_ready k) (k_blocked k) fs"
      "(k_free k = [] \<and> t = fresh \<and> fs = []) \<or> k_free k = t # fs" "block_ok t" .
  have "t \<noteq> 0" "t \<notin> set (k_ready k @ k_blocked k @ fs @ k_others k)" "set fs \<subseteq> set (k_free k)"
    using al(3,4) inv(1) assms(3) by (auto simp: block_ok_nonzero k_places_def)
  with al(1,2) that show ?thesis by (simp add: fork_block_def set_th_def)
qed

text \<open>
  The handler overwrites the link to the new block: the run queue ends with the interrupted thread, the
  new block is in no queue and nowhere else, and the count of the queue is one too high.
\<close>

lemma fork_race_loses:
  assumes "k_inv k" "k_cur k \<noteq> k_sched k" "k_ready k \<noteq> []" "block_ok fresh" "fresh \<notin> set (k_places k)"
  shows "\<exists>t k'. fork_interrupted tramp fresh code arg ie sm sp k = Inr (t, k')
    \<and> k_ready k' = k_ready k @ [k_cur k] \<and> t \<notin> set (k_places k') \<and> k_cur k' = k_sched k
    \<and> Q_cnt (k_runq k') = of_nat (length (k_ready k') + 1)"
proof -
  obtain t k1 fs where k1: "fork_block tramp fresh code arg ie sm k = Inr (t, k1)"
      "kq k1 (k_ready k) (k_blocked k) fs" "k_cur k1 = k_cur k" "k_sched k1 = k_sched k" "k_wait_in k1 = k_wait_in k"
      "t \<noteq> 0" "t \<notin> set (k_ready k @ k_blocked k @ fs @ k_others k)" "set fs \<subseteq> set (k_free k)"
    using fork_block_kq [OF assms(1,4,5)] .
  note inv = k_invD(1,2) [OF assms(1), unfolded k_others_def]
  let ?c = "k_cur k"
  have rep: "Q_rep (k_next k1) (k_runq k1) (k_ready k)" "Q_rep (k_next k1) (k_blockq k1) (k_blocked k)"
      "Q_rep (k_next k1) (k_freeq k1) fs"
    using k1(2) by (simp_all add: kq_def queues_def)
  have d: "distinct (k_ready k @ [t, ?c])" "?c \<noteq> 0"
      "set (k_ready k @ [t, ?c]) \<inter> set (k_blocked k @ fs) = {}"
    using inv k1(7,8) by (auto simp: k_others_def block_ok_nonzero)
  obtain q nx where q: "Q_append ((k_runq k1)\<lparr>Q_cnt := Q_cnt (k_runq k1) + 1\<rparr>) ?c
        ((k_next k1)(t := 0, Q_tail (k_runq k1) := t)) = (q, nx)"
      "Q_elems (q, nx) = k_ready k @ [?c]" "Q_cnt q = of_nat (length (k_ready k) + 2)"
      "\<And>a. a \<notin> set (k_ready k @ [t, ?c]) \<Longrightarrow> nx a = k_next k1 a"
    by (rule append_over_link [OF rep(1) assms(3) d(1) k1(6) d(2)]) (rule that)
  let ?k = "(set_th ?c (\<lambda>th. th\<lparr>p_saved_sp := sp\<rparr>) k1)\<lparr>k_runq := q, k_next := nx, k_cur := k_sched k\<rparr>"
  have "fiq_vector True sp (append_link t k1) = Inr ?k"
    using q(1) k1(3,4)
    by (simp add: fiq_vector_def int_vector_pre_threads_def append_link_def run_append_def set_th_def Let_def)
  then have run: "fork_interrupted tramp fresh code arg ie sm sp k = Inr (t, ?k)"
    using k1(1) by (simp add: fork_interrupted_def)
  have nx: "nx a = k_next k1 a" if "a \<in> set (k_blocked k @ fs)" for a
    using that d(3) by (intro q(4)) blast
  have "Q_rep nx (k_blockq k1) (k_blocked k)" by (rule Q_rep_cong [OF rep(2)]) (simp add: nx)
  moreover have "Q_rep nx (k_freeq k1) fs" by (rule Q_rep_cong [OF rep(3)]) (simp add: nx)
  ultimately have l: "k_ready ?k = k_ready k @ [?c]" "k_blocked ?k = k_blocked k" "k_free ?k = fs"
    using q(2) by (simp_all add: k_ready_def k_blocked_def k_free_def set_th_def Q_rep_elems)
  have "t \<notin> set (k_places ?k)"
    using k1(4,5,7) l by (auto simp: k_places_def k_others_def set_th_def)
  with run l(1) q(3) show ?thesis by (intro exI [of _ t] exI [of _ ?k]) simp
qed

text \<open>
  When the interrupted thread runs again, its last store makes the lost block the tail of the queue. The
  block stays unreachable, and so does every thread that is appended from then on.
\<close>

lemma resumed_append_loses:
  assumes "chain (k_next k) (Q_head (k_runq k)) xs" "length xs < unat (Q_cnt (k_runq k))"
    and "unat (Q_cnt (k_runq k)) + 1 < 4294967296" "t \<noteq> 0" "t \<notin> set xs" "p \<notin> set xs"
  shows "k_ready (append_tail t k) = xs" "k_ready (run_append p (append_tail t k)) = xs"
proof -
  show "k_ready (append_tail t k) = xs"
    using assms(1,2) by (simp add: k_ready_def append_tail_def chain_elems)
  have "unat (Q_cnt (k_runq k) + 1) = unat (Q_cnt (k_runq k)) + 1" using unat_add_small [of _ 1] assms(3) by simp
  moreover have "chain ((k_next k)(p := 0, t := p)) (Q_head (k_runq k)) xs" using assms(1,5,6) by simp
  ultimately show "k_ready (run_append p (append_tail t k)) = xs"
    using assms(2,4)
    by (auto simp: k_ready_def append_tail_def run_append_def Q_append_def Let_def intro!: chain_elems)
qed

end
