(* ===== verification/Thread_Props.thy ===== *)
theory Thread_Props
  imports Rpi_Thread Pre_Race
begin

text \<open>The properties of the two thread packages and of the console they share.\<close>

section \<open>Concrete states\<close>

text \<open>
  Thread 1 at \<open>0x100000\<close> runs, thread 2 at \<open>0x200000\<close> is ready, the scheduler is at \<open>0x300000\<close>; and the
  state before the start in which thread 2 has been forked.
\<close>

definition sample_io :: stdio where
  "sample_io = \<lparr>io_lock = 0,
     putQ = \<lparr>c_buf = [], cq_fence = 0, cq_head = 0, cq_tail = 0, cq_overflow = 0, cq_errors_fatal_p = True\<rparr>,
     getQ = \<lparr>c_buf = [], cq_fence = 0, cq_head = 0, cq_tail = 0, cq_overflow = 0, cq_errors_fatal_p = True\<rparr>,
     io_uart = \<lparr>u_ier = 0, u_iir = 1, u_room = 8, u_rx = [], u_tx = []\<rparr>\<rparr>"

definition sample_kern :: kern where
  "sample_kern = \<lparr>
     k_th = (\<lambda>p. \<lparr>p_saved_sp = 0, p_tid = (if p = 0x100000 then 1 else if p = 0x200000 then 2 else 3),
                  p_fn = 0, p_arg = 0, p_block = 0, p_stack = (\<lambda>_. 0)\<rparr>),
     k_next = (\<lambda>_. 0), k_runq = \<lparr>Q_head = 0x200000, Q_tail = 0x200000, Q_cnt = 1\<rparr>,
     k_freeq = Q_mk, k_blockq = Q_mk, k_cur = 0x100000, k_sched = 0x300000, k_wait_out = 0, k_wait_in = 0,
     k_ntid = 4, k_nalloced = 3, k_io = sample_io\<rparr>"

definition boot_kern :: kern where
  "boot_kern = sample_kern\<lparr>k_cur := 0, k_sched := 0\<rparr>"

lemma sample_kq: "kq sample_kern [0x200000] [] []" "kq boot_kern [0x200000] [] []"
  by (simp_all add: kq_def queues_def sample_kern_def boot_kern_def Q_rep_def Q_mk_def)

lemma sample_inv: "k_inv sample_kern"
proof -
  have "k_inv sample_kern \<and> k_places sample_kern = [0x200000] @ [] @ [] @ k_others sample_kern"
    by (rule k_inv_kqI [OF sample_kq(1)])
      (simp_all add: sample_kern_def sample_io_def k_others_def block_ok_def tids_ok_def tid_of_def
        console_ok_def stdout_queue_is_empty_def cq_empty_def STDIO_def)
  then show ?thesis ..
qed

lemma sample_lists: "k_ready sample_kern = [0x200000]" "k_blocked sample_kern = []" "k_free sample_kern = []"
  "k_ready boot_kern = [0x200000]" "k_free boot_kern = []"
  using kq_lists [OF sample_kq(1)] kq_lists [OF sample_kq(2)] by simp_all

section \<open>Preemptive threads\<close>

text \<open>What the forks before \<open>pre_thread_start\<close> leave behind.\<close>

definition boot_ok :: "ptr \<Rightarrow> kern \<Rightarrow> bool" where
  "boot_ok fresh k \<longleftrightarrow> kq k (k_ready k) [] (k_free k) \<and> k_ready k \<noteq> []
     \<and> list_all block_ok (fresh # k_ready k @ k_free k) \<and> fresh \<notin> set (k_ready k @ k_free k)
     \<and> tids_ok k (k_ready k @ k_free k) \<and> k_ntid k \<noteq> 0 \<and> k_ntid k + 1 \<noteq> 0
     \<and> k_sched k = 0 \<and> k_wait_in k = 0 \<and> k_wait_out k = 0"

text \<open>C7: Starting the thread package succeeds when threads have been forked, and from then on no thread is lost, as long as
  no interrupt falls inside a call of \<open>pre_fork\<close> (which does not mask them: \<open>Pre_Race\<close> shows the loss). The forked threads are live
  (ready, blocked, waiting for input, or running); a fork adds a thread that was not live, and every other step, interrupts, system
  calls, console reads and scheduler rounds in any order, keeps every live thread live, but for the exit of the running
  thread, which removes that thread only. In every state reached each block is in one place and every round of the scheduler returns.\<close>

theorem threads_never_lost:
  assumes "boot_ok fresh k"
  shows "\<exists>k1. pre_thread_start False fresh k = Inr (True, k1) \<and> k_live k1 = set (k_ready k)
    \<and> (\<forall>k2. ksteps tramp printer k1 k2 \<longrightarrow>
         k_inv k2 \<and> distinct (k_places k2)
         \<and> (\<forall>k3. kstep tramp printer k2 k3 \<longrightarrow> k_live k2 \<subseteq> k_live k3
              \<or> (k_cur k2 \<noteq> k_sched k2 \<and> k3 = pre_exit k2 \<and> k_live k3 = k_live k2 - {k_cur k2}))
         \<and> (\<forall>new. block_ok new \<and> new \<notin> set (k_places k2) \<and> k_ntid k2 + 1 \<noteq> 0 \<longrightarrow>
              (\<exists>t k3. pre_fork tramp new code arg ie sm k2 = Inr (t, k3)
                \<and> t \<notin> k_live k2 \<and> k_live k3 = insert t (k_live k2)))
         \<and> (k_cur k2 = k_sched k2 \<longrightarrow> (\<exists>b k3. sched_turn sp k2 = Inr (b, k3) \<and> k_live k2 \<subseteq> k_live k3)))"
proof -
  obtain r rs where rs: "k_ready k = r # rs" using assms by (cases "k_ready k") (auto simp: boot_ok_def)
  have d: "distinct (r # rs @ k_free k)" using assms rs by (auto simp: boot_ok_def kq_def queues_def)
  obtain k1 where k1: "pre_thread_start False fresh k = Inr (True, k1)" "k_inv k1" "k_ready k1 = r # rs"
      "k_blocked k1 = []" "k_wait_in k1 = 0" "k_cur k1 = k_sched k1"
    using pre_thread_start_inv [OF _ d, of k fresh] assms rs by (auto simp: boot_ok_def)
  have live: "k_live k1 = set (k_ready k)" using k1 rs by (simp add: k_live_def)
  have inv: "k_inv k2" if "ksteps tramp printer k1 k2" for k2 using ksteps_inv [OF that k1(2)] by simp
  have fork: "\<exists>t k3. pre_fork tramp new code arg ie sm k2 = Inr (t, k3)
      \<and> t \<notin> k_live k2 \<and> k_live k3 = insert t (k_live k2)"
    if "k_inv k2" "block_ok new" "new \<notin> set (k_places k2)" "k_ntid k2 + 1 \<noteq> 0" for k2 new
    using fork_keeps [OF that] by metis
  have turn: "\<exists>b k3. sched_turn sp k2 = Inr (b, k3) \<and> k_live k2 \<subseteq> k_live k3"
    if "k_inv k2" "k_cur k2 = k_sched k2" for k2
    using sched_turn_keeps [OF that, of sp] keeps_live [OF that(1)] by blast
  have "k_inv k2 \<and> distinct (k_places k2)
      \<and> (\<forall>k3. kstep tramp printer k2 k3 \<longrightarrow> k_live k2 \<subseteq> k_live k3
           \<or> (k_cur k2 \<noteq> k_sched k2 \<and> k3 = pre_exit k2 \<and> k_live k3 = k_live k2 - {k_cur k2}))"
    if "ksteps tramp printer k1 k2" for k2
    using inv [OF that] kstep_live [OF inv [OF that]] by (simp add: k_inv_def)
  with k1(1) live inv fork turn show ?thesis by blast
qed

theorem threads_never_lost_witness:
  "\<exists>k1 k2. pre_thread_start False 0x300000 boot_kern = Inr (True, k1) \<and> sched_turn 0 k1 = Inr (True, k2)
    \<and> 0x200000 \<in> k_live k1 \<and> 0x200000 \<in> k_live k2"
proof -
  have boot: "boot_ok 0x300000 boot_kern"
    using sample_kq(2) unfolding boot_ok_def sample_lists
    by (simp add: boot_kern_def sample_kern_def block_ok_def tids_ok_def tid_of_def)
  obtain k1 where k1: "pre_thread_start False 0x300000 boot_kern = Inr (True, k1)" "k_inv k1"
      "k_cur k1 = k_sched k1" "k_ready k1 = [0x200000]"
    using pre_thread_start_inv [OF sample_kq(2), of "0x300000"] boot by (auto simp: boot_ok_def sample_lists)
  obtain k2 where k2: "sched_turn 0 k1 = Inr (True, k2)" using sched_turn_keeps [OF k1(2,3), of 0] k1(4) by auto
  then have "kstep 1 2 k1 k2" by (rule kstep.schedule [OF k1(3)])
  with threads_never_lost [OF boot, of 1 2 0 0 True True 0] k1(1,3) have "0x200000 \<in> k_live k1" "0x200000 \<in> k_live k2"
    by (auto simp: sample_lists)
  with k1(1) k2 show ?thesis by blast
qed

section \<open>A run with an interrupted fork\<close>

text \<open>
  The running thread forks, the timer fires inside the append, the other thread runs for a slice, the fork is
  completed, and both threads exit. The new thread never runs: the scheduler finds an empty queue whose
  count is not zero, and the assertion in \<open>Q_empty\<close> fails.
\<close>

definition race_run :: "kern \<Rightarrow> unit res" where
  "race_run k =
     bind_r (fork_interrupted 1 0x400000 5 6 True True 0 k) (\<lambda>(t, k1).
     bind_r (sched_turn 0 k1) (\<lambda>(_, k2).
     bind_r (preempt_turn (0, 0) k2) (\<lambda>k3.
     bind_r (sched_turn 0 (pre_exit (append_tail t k3))) (\<lambda>(_, k4).
     bind_r (sched_turn 0 (pre_exit k4)) (\<lambda>_. Inr ())))))"

lemma race_run_fails: "race_run sample_kern = Inl AssertFail"
  unfolding race_run_def fork_interrupted_def fork_block_def fiq_vector_def sample_kern_def sample_io_def
  by (simp add: th_alloc_def append_link_def int_vector_pre_threads_def preempt_turn_def
      fiq_vector_def sched_turn_def sched_body_def wake_stdin_def wake_stdout_def Q_empty_def Q_pop_def Q_append_def Q_push_def
      Q_nelem_def Q_mk_def run_append_def set_th_def on_io_def append_tail_def pre_exit_def th_free_def
      stdin_queue_is_empty_def stdout_queue_is_empty_def cq_empty_def stdio_is_idle_def read_stdio_tid_def NONE_def STDIO_def Let_def)

text \<open>C11: The console lock is exclusive. Whenever a thread runs inside its printing section it holds the lock, and the lock is
  never taken away from the thread that holds it: a step changes it only while that very thread is running.\<close>

theorem console_lock_exclusive:
  assumes "k_inv k" "ksteps tramp printer k k1" "kstep tramp printer k1 k2"
  shows "(k_cur k1 \<noteq> k_sched k1 \<and> p_block (k_th k1 (k_cur k1)) = STDIO \<longrightarrow> k_lock k1 = tid_of k1 (k_cur k1))
    \<and> (p \<in> set (k_places k1) \<and> k_lock k1 = tid_of k1 p \<and> k_lock k2 \<noteq> k_lock k1 \<longrightarrow> k_cur k1 = p)"
proof (intro conjI impI)
  have inv: "k_inv k1" using ksteps_inv [OF assms(2,1)] by simp
  then show "k_lock k1 = tid_of k1 (k_cur k1)"
    if "k_cur k1 \<noteq> k_sched k1 \<and> p_block (k_th k1 (k_cur k1)) = STDIO"
    using that by (simp add: k_inv_def console_ok_def)
  assume p: "p \<in> set (k_places k1) \<and> k_lock k1 = tid_of k1 p \<and> k_lock k2 \<noteq> k_lock k1"
  have cur: "k_cur k1 \<in> set (k_places k1)" by (simp add: k_places_def k_others_def)
  have "k_lock k1 \<noteq> 0" using k_inv_tids(1) [OF inv, of p p] p by simp
  with kstep_safe [OF inv assms(3)] p have "k_lock k1 = tid_of k1 (k_cur k1)"
    by (auto simp: safe_def cur_tid_def tid_of_def)
  with k_inv_tids(2) [OF inv cur, of p] p show "k_cur k1 = p" by simp
qed

theorem console_lock_exclusive_witness:
  "\<exists>k1 k2. ksteps 1 2 sample_kern k1 \<and> kstep 1 2 k1 k2 \<and> k_lock k1 = 1 \<and> k_lock k2 = 0
    \<and> k_lock k1 = tid_of k1 (k_cur k1) \<and> k_cur k1 = 0x100000"
proof -
  let ?k1 = "sys_request_stdout 0 sample_kern"
  have run: "kstep 1 2 sample_kern ?k1"
    by (rule kstep.syscall [where inst = "0xef000001" and mode = "0x1f" and sp = 0 and fresh = 0])
      (simp_all add: syscall_vector_def sample_kern_def)
  have k1: "k_cur ?k1 \<noteq> k_sched ?k1" "p_block (k_th ?k1 (k_cur ?k1)) = STDIO" "k_lock ?k1 = 1"
      "tid_of ?k1 0x100000 = 1" "k_cur ?k1 = 0x100000"
    by (simp_all add: sys_request_stdout_def stdio_is_idle_def sample_kern_def sample_io_def tid_of_def
        kern_simps)
  have inv: "k_inv ?k1" using kstep_safe [OF sample_inv run] by (simp add: safe_def)
  obtain k2 where k2: "sys_wait_stdout 1 2 0 0 ?k1 = Inr k2" "k_lock k2 = 0"
    using wait_stdout_keeps [OF inv k1(1,2), of 1 2 0 0] by metis
  have step: "kstep 1 2 ?k1 k2"
    using k1(1,2) k2(1)
    by (intro kstep.syscall [where inst = "0xef000002" and mode = "0x1f" and sp = 0 and fresh = 0])
      (simp_all add: syscall_vector_def)
  have "0x100000 \<in> set (k_places ?k1)" using k1(5) by (simp add: k_places_def k_others_def)
  moreover have runs: "ksteps 1 2 sample_kern ?k1" using run by (rule r_into_rtranclp)
  ultimately have "k_cur ?k1 = 0x100000 \<and> k_lock ?k1 = tid_of ?k1 (k_cur ?k1)"
    using console_lock_exclusive [OF sample_inv runs step, of "0x100000"] k1 k2(2) by simp
  with runs step k1(3) k2(2) show ?thesis by blast
qed

text \<open>C37: The system call \<open>END_STDIN\<close> is never in order: in every state that the package reaches it writes through the null
  pointer \<open>wait_stdout_thread\<close>, undefined behaviour that the model reports as a fault. And a thread that asks for input executes the system call for output.\<close>

theorem end_stdin_always_faults:
  assumes "k_inv k" "ksteps tramp printer k k1" "mode = 0x10 \<or> mode = 0x1f"
  shows "syscall_vector tramp printer fresh 0xef000004 mode sp k1 = Inl OutOfBounds
    \<and> make_system_call 3 = make_system_call 1"
proof -
  have "k_inv k1" using ksteps_inv [OF assms(2,1)] by simp
  from end_stdin_faults [OF this] assms(3) show ?thesis
    by (auto simp: syscall_vector_def make_system_call_def Let_def)
qed

theorem end_stdin_always_faults_witness:
  "syscall_vector 1 2 0x400000 0xef000004 0x1f 0 sample_kern = Inl OutOfBounds"
  using end_stdin_always_faults [OF sample_inv rtranclp.rtrancl_refl, of "0x1f" 1 2 "0x400000" 0] by simp

text \<open>C12: The timer runs the threads in turn. While the threads only compute, a thread with \<open>n\<close> threads before it in the line (the
  running thread, then the run queue) runs after at most \<open>n\<close> timer interrupts, whatever the stack pointers are, if it is not a
  user of the console or holds the console lock; threads that wait for the console or for input may be there.
  If there are none, it runs after exactly \<open>n\<close>. No turn faults.\<close>

theorem preemption_is_fair:
  assumes "k_inv k" "k_cur k \<noteq> k_sched k" "n < length (k_line k)" "runnable k (k_line k ! n)" "length sps = n"
  shows "(\<exists>m k'. m \<le> n \<and> turns_r preempt_turn (take m sps) k = Inr k' \<and> k_inv k' \<and> k_cur k' = k_line k ! n)
    \<and> (preempt_running k \<longrightarrow>
         (\<exists>k'. turns_r preempt_turn sps k = Inr k' \<and> preempt_running k' \<and> k_cur k' = k_line k ! n))"
proof (intro conjI impI)
  show "\<exists>m k'. m \<le> n \<and> turns_r preempt_turn (take m sps) k = Inr k' \<and> k_inv k' \<and> k_cur k' = k_line k ! n"
  proof (cases n)
    case 0
    with assms(1) show ?thesis by (intro exI [of _ 0] exI [of _ k]) (simp add: k_line_def)
  next
    case (Suc i)
    with assms(3) have "k_ready k = take i (k_ready k) @ k_line k ! n # drop (Suc i) (k_ready k)" "length (take i (k_ready k)) = i"
      by (simp_all add: k_line_def id_take_nth_drop)
    with turns_reach [OF assms(1,2) _ assms(4), of "take i (k_ready k)" _ sps] Suc assms(5) show ?thesis by auto
  qed
  assume "preempt_running k"
  moreover have "list_all (\<lambda>_. True) sps" by (simp add: list_all_iff)
  ultimately show "\<exists>k'. turns_r preempt_turn sps k = Inr k' \<and> preempt_running k' \<and> k_cur k' = k_line k ! n"
    using preempt.fair [of k sps] assms(3,5) by (auto simp: k_line_def)
qed

text \<open>Thread 1 has just taken the console and thread 2 is ready; and the same without the console.\<close>

theorem preemption_is_fair_witness:
  "(\<exists>m k'. m \<le> 1 \<and> turns_r preempt_turn (take m [(0x5000, 0x6000)]) (sys_request_stdout 0 sample_kern) = Inr k'
      \<and> k_cur k' = 0x200000)
    \<and> (\<exists>k'. turns_r preempt_turn [(0x5000, 0x6000)] sample_kern = Inr k' \<and> k_cur k' = 0x200000)"
proof
  let ?k1 = "sys_request_stdout 0 sample_kern"
  have cur: "k_cur sample_kern \<noteq> k_sched sample_kern" "k_cur ?k1 \<noteq> k_sched ?k1"
    by (simp_all add: sys_request_stdout_def stdio_is_idle_def sample_kern_def sample_io_def kern_simps)
  have inv: "k_inv ?k1" using request_stdout_keeps [OF sample_inv cur(1)] by (simp add: keeps_defs)
  have line: "k_line sample_kern = [0x100000, 0x200000]" by (simp add: k_line_def sample_lists) (simp add: sample_kern_def)
  then have line1: "k_line ?k1 = [0x100000, 0x200000]"
    by (simp add: k_line_def k_ready_def sys_request_stdout_def stdio_is_idle_def sample_kern_def sample_io_def kern_simps)
  have run: "runnable sample_kern 0x200000" "runnable ?k1 0x200000"
    by (simp_all add: runnable_def sys_request_stdout_def stdio_is_idle_def sample_kern_def sample_io_def kern_simps
        tid_of_def NONE_def STDIO_def)
  show "\<exists>m k'. m \<le> 1 \<and> turns_r preempt_turn (take m [(0x5000, 0x6000)]) ?k1 = Inr k' \<and> k_cur k' = 0x200000"
    using preemption_is_fair [OF inv cur(2), of 1 "[(0x5000, 0x6000)]"] line1 run(2) by auto
  have "preempt_running sample_kern"
    unfolding preempt_running_def line sample_lists
    using sample_inv by (simp add: sample_kern_def NONE_def)
  then show "\<exists>k'. turns_r preempt_turn [(0x5000, 0x6000)] sample_kern = Inr k' \<and> k_cur k' = 0x200000"
    using preemption_is_fair [OF sample_inv cur(1), of 1 "[(0x5000, 0x6000)]"] line run(1) by auto
qed

section \<open>Cooperative threads\<close>

text \<open>Thread at \<open>0x100000\<close> runs, the one at \<open>0x200000\<close> is ready with every saved register 7.\<close>

definition sample_rpi :: rpi_state where
  "sample_rpi = \<lparr>
     r_th = (\<lambda>p. \<lparr>r_saved_sp = 2000, r_tid = 1, r_fn = 0, r_arg = 0, r_stack = (\<lambda>_. 7)\<rparr>),
     r_next = (\<lambda>_. 0), r_runq = \<lparr>Q_head = 0x200000, Q_tail = 0x200000, Q_cnt = 1\<rparr>, r_freeq = Q_mk,
     r_cur = 0x100000, r_sched = 0x300000, r_ntid = 4, r_nalloced = 3\<rparr>"

definition sample_cpu :: cpu where
  "sample_cpu = \<lparr>c_regs = [1, 2, 3, 4, 5, 6, 7, 8], c_lr = 9, c_sp = 1500\<rparr>"

lemma sample_rpi_inv: "rpi_inv sample_rpi" "r_ready sample_rpi = [0x200000]" "r_free sample_rpi = []"
  by (rule rpi_invI [where rs = "[0x200000]" and fs = "[]"];
      simp add: queues_def sample_rpi_def Q_rep_def Q_mk_def block_ok_def)+

text \<open>C8: The cooperative threads implement the abstract machine of a running thread and a line of ready threads, each with
  its registers. Yielding stores the registers of the running thread and resumes the first of the line with the
  registers it had; exiting resumes the first of the line, or the scheduler; forking adds a thread that resumes in the
  trampoline with the code and its argument.\<close>

theorem rpi_threads_refine:
  assumes "rpi_inv k" "cpu_ok c" "r_cur k \<noteq> r_sched k" "block_ok fresh" "fresh \<notin> set (r_places k)"
  shows "(\<exists>c' k'. rpi_yield c k = Inr (c', k') \<and> rpi_inv k' \<and> cpu_ok c' \<and> rpi_view c' k' = m_yield (rpi_view c k))
    \<and> (\<exists>c' k'. rpi_exit c k = Inr (c', k') \<and> rpi_inv k' \<and> cpu_ok c'
         \<and> rpi_view c' k' = m_exit (r_sched k, context_of (r_th k (r_sched k))) (rpi_view c k))
    \<and> (\<exists>t k'. rpi_fork tramp fresh code arg k = Inr (t, k') \<and> rpi_inv k'
         \<and> rpi_view c k' = m_fork (t, context_of (r_th k' t)) (rpi_view c k)
         \<and> starts tramp code arg (context_of (r_th k' t)))"
  using rpi_yield_refines [OF assms(1-3)] rpi_exit_refines [OF assms(1-3)]
    rpi_fork_refines [OF assms(1,4,5), of tramp code arg c] by blast

theorem rpi_threads_refine_witness:
  "\<exists>c' k'. rpi_yield sample_cpu sample_rpi = Inr (c', k')
    \<and> rpi_view c' k' = ((0x200000, \<lparr>c_regs = [7, 7, 7, 7, 7, 7, 7, 7], c_lr = 7, c_sp = 2009\<rparr>), [(0x100000, sample_cpu)])"
proof -
  have c: "cpu_ok sample_cpu" by (simp add: cpu_ok_def sample_cpu_def)
  have n: "r_cur sample_rpi \<noteq> r_sched sample_rpi" by (simp add: sample_rpi_def)
  have "0x400000 \<notin> set (r_places sample_rpi)"
    by (simp add: r_places_def sample_rpi_inv(2,3)) (simp add: sample_rpi_def)
  moreover have "block_ok 0x400000" by (simp add: block_ok_def)
  moreover have "rpi_view sample_cpu sample_rpi = ((0x100000, sample_cpu),
      [(0x200000, \<lparr>c_regs = [7, 7, 7, 7, 7, 7, 7, 7], c_lr = 7, c_sp = 2009\<rparr>)])"
    by (simp add: rpi_view_def sample_rpi_inv(2))
      (simp add: sample_rpi_def context_of_def get_words_def upt_rec Let_def)
  ultimately show ?thesis
    using rpi_threads_refine [OF sample_rpi_inv(1) c n, of "0x400000" 0 0 0] by auto
qed

end
