(* ===== verification/Libc_Crc.thy ===== *)
theory Libc_Crc
  imports Prelude
begin

text \<open>
  The checksum of \<open>libpi/libc/crc.c\<close>: the table, the loop over the bytes, and its equivalence with the
  bit-by-bit definition of CRC-32 (reflected polynomial \<open>0xEDB88320\<close>).
\<close>

section \<open>The code\<close>

definition crc32_tab :: "u32 list" where
  "crc32_tab = [
    0x00000000, 0x77073096, 0xee0e612c, 0x990951ba, 0x076dc419, 0x706af48f, 0xe963a535, 0x9e6495a3,
    0x0edb8832, 0x79dcb8a4, 0xe0d5e91e, 0x97d2d988, 0x09b64c2b, 0x7eb17cbd, 0xe7b82d07, 0x90bf1d91,
    0x1db71064, 0x6ab020f2, 0xf3b97148, 0x84be41de, 0x1adad47d, 0x6ddde4eb, 0xf4d4b551, 0x83d385c7,
    0x136c9856, 0x646ba8c0, 0xfd62f97a, 0x8a65c9ec, 0x14015c4f, 0x63066cd9, 0xfa0f3d63, 0x8d080df5,
    0x3b6e20c8, 0x4c69105e, 0xd56041e4, 0xa2677172, 0x3c03e4d1, 0x4b04d447, 0xd20d85fd, 0xa50ab56b,
    0x35b5a8fa, 0x42b2986c, 0xdbbbc9d6, 0xacbcf940, 0x32d86ce3, 0x45df5c75, 0xdcd60dcf, 0xabd13d59,
    0x26d930ac, 0x51de003a, 0xc8d75180, 0xbfd06116, 0x21b4f4b5, 0x56b3c423, 0xcfba9599, 0xb8bda50f,
    0x2802b89e, 0x5f058808, 0xc60cd9b2, 0xb10be924, 0x2f6f7c87, 0x58684c11, 0xc1611dab, 0xb6662d3d,
    0x76dc4190, 0x01db7106, 0x98d220bc, 0xefd5102a, 0x71b18589, 0x06b6b51f, 0x9fbfe4a5, 0xe8b8d433,
    0x7807c9a2, 0x0f00f934, 0x9609a88e, 0xe10e9818, 0x7f6a0dbb, 0x086d3d2d, 0x91646c97, 0xe6635c01,
    0x6b6b51f4, 0x1c6c6162, 0x856530d8, 0xf262004e, 0x6c0695ed, 0x1b01a57b, 0x8208f4c1, 0xf50fc457,
    0x65b0d9c6, 0x12b7e950, 0x8bbeb8ea, 0xfcb9887c, 0x62dd1ddf, 0x15da2d49, 0x8cd37cf3, 0xfbd44c65,
    0x4db26158, 0x3ab551ce, 0xa3bc0074, 0xd4bb30e2, 0x4adfa541, 0x3dd895d7, 0xa4d1c46d, 0xd3d6f4fb,
    0x4369e96a, 0x346ed9fc, 0xad678846, 0xda60b8d0, 0x44042d73, 0x33031de5, 0xaa0a4c5f, 0xdd0d7cc9,
    0x5005713c, 0x270241aa, 0xbe0b1010, 0xc90c2086, 0x5768b525, 0x206f85b3, 0xb966d409, 0xce61e49f,
    0x5edef90e, 0x29d9c998, 0xb0d09822, 0xc7d7a8b4, 0x59b33d17, 0x2eb40d81, 0xb7bd5c3b, 0xc0ba6cad,
    0xedb88320, 0x9abfb3b6, 0x03b6e20c, 0x74b1d29a, 0xead54739, 0x9dd277af, 0x04db2615, 0x73dc1683,
    0xe3630b12, 0x94643b84, 0x0d6d6a3e, 0x7a6a5aa8, 0xe40ecf0b, 0x9309ff9d, 0x0a00ae27, 0x7d079eb1,
    0xf00f9344, 0x8708a3d2, 0x1e01f268, 0x6906c2fe, 0xf762575d, 0x806567cb, 0x196c3671, 0x6e6b06e7,
    0xfed41b76, 0x89d32be0, 0x10da7a5a, 0x67dd4acc, 0xf9b9df6f, 0x8ebeeff9, 0x17b7be43, 0x60b08ed5,
    0xd6d6a3e8, 0xa1d1937e, 0x38d8c2c4, 0x4fdff252, 0xd1bb67f1, 0xa6bc5767, 0x3fb506dd, 0x48b2364b,
    0xd80d2bda, 0xaf0a1b4c, 0x36034af6, 0x41047a60, 0xdf60efc3, 0xa867df55, 0x316e8eef, 0x4669be79,
    0xcb61b38c, 0xbc66831a, 0x256fd2a0, 0x5268e236, 0xcc0c7795, 0xbb0b4703, 0x220216b9, 0x5505262f,
    0xc5ba3bbe, 0xb2bd0b28, 0x2bb45a92, 0x5cb36a04, 0xc2d7ffa7, 0xb5d0cf31, 0x2cd99e8b, 0x5bdeae1d,
    0x9b64c2b0, 0xec63f226, 0x756aa39c, 0x026d930a, 0x9c0906a9, 0xeb0e363f, 0x72076785, 0x05005713,
    0x95bf4a82, 0xe2b87a14, 0x7bb12bae, 0x0cb61b38, 0x92d28e9b, 0xe5d5be0d, 0x7cdcefb7, 0x0bdbdf21,
    0x86d3d2d4, 0xf1d4e242, 0x68ddb3f8, 0x1fda836e, 0x81be16cd, 0xf6b9265b, 0x6fb077e1, 0x18b74777,
    0x88085ae6, 0xff0f6a70, 0x66063bca, 0x11010b5c, 0x8f659eff, 0xf862ae69, 0x616bffd3, 0x166ccf45,
    0xa00ae278, 0xd70dd2ee, 0x4e048354, 0x3903b3c2, 0xa7672661, 0xd06016f7, 0x4969474d, 0x3e6e77db,
    0xaed16a4a, 0xd9d65adc, 0x40df0b66, 0x37d83bf0, 0xa9bcae53, 0xdebb9ec5, 0x47b2cf7f, 0x30b5ffe9,
    0xbdbdf21c, 0xcabac28a, 0x53b39330, 0x24b4a3a6, 0xbad03605, 0xcdd70693, 0x54de5729, 0x23d967bf,
    0xb3667a2e, 0xc4614ab8, 0x5d681b02, 0x2a6f2b94, 0xb40bbe37, 0xc30c8ea1, 0x5a05df1b, 0x2d02ef8d]"

text \<open>\<open>while (size--) crc = crc32_tab[(crc ^ *p++) & 0xFF] ^ (crc >> 8);\<close>\<close>

fun crc_loop :: "u8 list \<Rightarrow> nat \<Rightarrow> nat \<Rightarrow> u32 \<Rightarrow> u32 res" where
  "crc_loop buf p 0 crc = Inr crc"
| "crc_loop buf p (Suc n) crc =
     bind_r (arr_get buf p) (\<lambda>b.
     bind_r (arr_get crc32_tab (unat ((crc XOR ucast b) AND 0xff))) (\<lambda>t.
       crc_loop buf (Suc p) n (t XOR drop_bit 8 crc)))"

definition our_crc32_inc :: "u8 list \<Rightarrow> u32 \<Rightarrow> u32 \<Rightarrow> u32 res" where
  "our_crc32_inc buf nbytes crc =
     bind_r (crc_loop buf 0 (unat nbytes) (crc XOR NOT 0)) (\<lambda>c. Inr (c XOR NOT 0))"

definition our_crc32 :: "u8 list \<Rightarrow> u32 \<Rightarrow> u32 res" where
  "our_crc32 buf nbytes = our_crc32_inc buf nbytes 0"

section \<open>The reference definition\<close>

text \<open>One bit of the message: shift right, and subtract the polynomial if a one fell out.\<close>

definition crc_bit :: "u32 \<Rightarrow> u32" where
  "crc_bit c = (if bit c 0 then drop_bit 1 c XOR 0xEDB88320 else drop_bit 1 c)"

definition crc_bits8 :: "u32 \<Rightarrow> u32" where
  "crc_bits8 c = crc_bit (crc_bit (crc_bit (crc_bit (crc_bit (crc_bit (crc_bit (crc_bit c)))))))"

definition crc_byte :: "u32 \<Rightarrow> u8 \<Rightarrow> u32" where
  "crc_byte c b = crc_bits8 (c XOR ucast b)"

definition crc_ref :: "u32 \<Rightarrow> u8 list \<Rightarrow> u32" where
  "crc_ref c bs = foldl crc_byte (c XOR NOT 0) bs XOR NOT 0"

section \<open>The reference is linear and invertible\<close>

lemma crc_bit_xor: "crc_bit (x XOR y) = crc_bit x XOR crc_bit y"
  by (auto simp: crc_bit_def bit_xor_iff ac_simps)

lemma crc_bits8_xor: "crc_bits8 (x XOR y) = crc_bits8 x XOR crc_bits8 y"
  by (simp add: crc_bits8_def crc_bit_xor)

lemma crc_bit_even: "\<not> bit x 0 \<Longrightarrow> crc_bit x = drop_bit 1 x"
  by (simp add: crc_bit_def)

lemma crc_bits8_high: "crc_bits8 (push_bit 8 x) = drop_bit 8 (push_bit 8 x)"
proof -
  have step: "crc_bit (drop_bit n (push_bit 8 x)) = drop_bit (n + 1) (push_bit 8 x)" if "n < 8" for n
    using that by (subst crc_bit_even) (simp_all add: bit_drop_bit_eq bit_push_bit_iff)
  show ?thesis
    using step [of 0] step [of 1] step [of 2] step [of 3] step [of 4] step [of 5] step [of 6] step [of 7]
    unfolding crc_bits8_def by (simp del: One_nat_def)
qed

lemma low_byte: "(x :: u32) AND 0xff = take_bit 8 x"
  using take_bit_eq_mask [of 8 x] by (simp add: mask_eq_exp_minus_1)

lemma bit_u32_less: "bit (x :: u32) n \<Longrightarrow> n < 32"
  using bit_imp_le_length [of x n] by simp

lemma low_high_split: "(x :: u32) = (x AND 0xff) XOR push_bit 8 (drop_bit 8 x)"
  unfolding low_byte by (rule bit_word_eqI) (auto simp: bit_simps)

lemma crc_ref_append: "crc_ref c (xs @ ys) = crc_ref (crc_ref c xs) ys"
  by (simp add: crc_ref_def xor.assoc)

lemma xor_cancel: "u XOR w = v XOR w \<longleftrightarrow> u = v" for u v w :: u32
proof
  assume "u XOR w = v XOR w"
  then have "(u XOR w) XOR w = (v XOR w) XOR w" by simp
  then show "u = v" unfolding xor.assoc by simp
qed simp

lemma crc_bit_inj: "crc_bit x = crc_bit y \<Longrightarrow> x = y"
proof -
  have top: "bit (crc_bit z) 31 = bit z 0" for z
    using bit_u32_less [of z 32] by (auto simp: crc_bit_def bit_xor_iff bit_drop_bit_eq)
  assume e: "crc_bit x = crc_bit y"
  then have b: "bit x 0 = bit y 0" using top [of x] top [of y] by simp
  with e have d: "drop_bit 1 x = drop_bit 1 y" by (auto simp: crc_bit_def xor_cancel)
  show "x = y"
  proof (rule bit_word_eqI)
    fix n
    show "n < LENGTH(32) \<Longrightarrow> bit x n = bit y n"
      using b arg_cong [OF d, of "\<lambda>w. bit w (n - 1)"] by (cases n) (simp_all add: bit_drop_bit_eq)
  qed
qed

lemma crc_bits8_inj: "crc_bits8 x = crc_bits8 y \<longleftrightarrow> x = y"
  by (auto simp: crc_bits8_def dest!: crc_bit_inj)

lemma ucast_u8_inj: "(ucast a :: u32) = ucast b \<longleftrightarrow> a = b" for a b :: u8
proof
  assume "(ucast a :: u32) = ucast b"
  then have "unat (ucast a :: u32) = unat (ucast b :: u32)" by simp
  moreover have "unat a < 4294967296" "unat b < 4294967296"
    using unat_u8_less [of a] unat_u8_less [of b] by linarith+
  ultimately show "a = b" by (simp add: unsigned_ucast_eq unat_eq_iff take_bit_eq_mod)
qed simp

lemma crc_byte_inj: "crc_byte c b = crc_byte d b \<longleftrightarrow> c = d" "crc_byte c a = crc_byte c b \<longleftrightarrow> a = b"
proof -
  show "crc_byte c b = crc_byte d b \<longleftrightarrow> c = d" by (simp add: crc_byte_def crc_bits8_inj xor_cancel)
  show "crc_byte c a = crc_byte c b \<longleftrightarrow> a = b"
    by (simp add: crc_byte_def crc_bits8_inj xor_cancel xor.commute [of c] ucast_u8_inj)
qed

lemma crc_fold_inj: "foldl crc_byte c bs = foldl crc_byte d bs \<longleftrightarrow> c = d"
  by (induction bs arbitrary: c d) (simp_all add: crc_byte_inj)

text \<open>A checksum detects every change of a single byte.\<close>

lemma crc_ref_detects: "crc_ref c (xs @ a # ys) = crc_ref c (xs @ b # ys) \<longleftrightarrow> a = b"
  by (simp add: crc_ref_def xor_cancel crc_fold_inj crc_byte_inj)

section \<open>The table is eight steps of the reference\<close>

fun entries_ok :: "u32 \<Rightarrow> u32 list \<Rightarrow> bool" where
  "entries_ok i [] \<longleftrightarrow> True"
| "entries_ok i (x # xs) \<longleftrightarrow> crc_bits8 i = x \<and> entries_ok (i + 1) xs"

lemma entries_ok_nth: "entries_ok i xs \<Longrightarrow> n < length xs \<Longrightarrow> xs ! n = crc_bits8 (i + of_nat n)"
proof (induction xs arbitrary: i n)
  case Nil
  then show ?case by simp
next
  case (Cons x xs)
  then show ?case by (cases n) (auto simp: ac_simps)
qed

lemma length_crc32_tab: "length crc32_tab = 256"
  by (simp add: crc32_tab_def)

lemma crc32_tab_entries: "entries_ok 0 crc32_tab"
  by (simp add: crc32_tab_def crc_bits8_def crc_bit_def)

text \<open>One round of the loop is eight bits of the reference.\<close>

lemma table_round: "crc32_tab ! unat ((c XOR ucast b) AND 0xff) XOR drop_bit 8 c = crc_byte c b"
proof -
  let ?x = "c XOR ucast (b :: u8)"
  have lt: "unat (?x AND 0xff) < 256"
    using word_and_le1 [of ?x "0xff"] by (simp add: word_le_nat_alt)
  have "crc32_tab ! unat (?x AND 0xff) = crc_bits8 (?x AND 0xff)"
    using entries_ok_nth [OF crc32_tab_entries] lt by (simp add: length_crc32_tab)
  moreover have "crc_bits8 ?x = crc_bits8 (?x AND 0xff) XOR crc_bits8 (push_bit 8 (drop_bit 8 ?x))"
    by (subst low_high_split) (rule crc_bits8_xor)
  moreover have "drop_bit 8 (ucast b :: u32) = 0"
    by (rule bit_word_eqI) (auto simp: bit_simps dest: bit_imp_le_length)
  then have "drop_bit 8 (push_bit 8 (drop_bit 8 ?x)) = drop_bit 8 c"
    by simp (rule bit_word_eqI, auto simp: bit_simps dest: bit_u32_less)
  ultimately show ?thesis unfolding crc_byte_def crc_bits8_high by simp
qed

lemma crc_loop_ref:
  "p + n \<le> length buf \<Longrightarrow> crc_loop buf p n crc = Inr (foldl crc_byte crc (take n (drop p buf)))"
proof (induction n arbitrary: p crc)
  case 0
  then show ?case by simp
next
  case (Suc n)
  have "unat ((crc XOR ucast (buf ! p)) AND 0xff) < length crc32_tab"
    using word_and_le1 [of "crc XOR ucast (buf ! p)" "0xff"] by (simp add: word_le_nat_alt length_crc32_tab)
  moreover have "take (Suc n) (drop p buf) = buf ! p # take n (drop (Suc p) buf)"
    using Suc.prems by (simp add: Cons_nth_drop_Suc [symmetric])
  ultimately show ?case
    using Suc.IH [of "Suc p"] Suc.prems by (simp add: table_round)
qed

lemma our_crc32_inc_ref:
  "unat nbytes \<le> length buf \<Longrightarrow> our_crc32_inc buf nbytes crc = Inr (crc_ref crc (take (unat nbytes) buf))"
  by (simp add: our_crc32_inc_def crc_loop_ref crc_ref_def)

end
