(* ===== verification/Libc_Random.thy ===== *)
theory Libc_Random
  imports Circular "HOL-Library.Signed_Division"
begin

text \<open>
  The random number generator of \<open>libpi/libc/random.c\<close> and \<open>libpi/libc/pi-random.c\<close>. A 32-bit signed
  integer of the state is kept as its bit pattern; the arithmetic on \<open>long int\<close> in \<open>srandom_r\<close> is done in
  \<open>int\<close>, where it does not overflow 32 bits. The pointers into the state array are indices; the word
  before \<open>state[0]\<close>, which remembers the type and the rear pointer, is the first of the buffer.
\<close>

section \<open>State\<close>

definition rand_seps :: "nat list" where
  "rand_seps = [0, 3, 1, 3, 1]"

definition rand_degrees :: "nat list" where
  "rand_degrees = [0, 7, 15, 31, 63]"

record random_data =
  rd_fptr :: nat
  rd_rptr :: nat
  rd_buf :: "u32 list"   \<comment> \<open>\<open>state[i]\<close> is element \<open>i + 1\<close>\<close>
  rd_type :: nat
  rd_deg :: nat
  rd_sep :: nat
  rd_end :: nat

definition get_state :: "random_data \<Rightarrow> nat \<Rightarrow> u32 res" where
  "get_state b i = arr_get (rd_buf b) (i + 1)"

definition set_state :: "random_data \<Rightarrow> nat \<Rightarrow> u32 \<Rightarrow> random_data res" where
  "set_state b i v = bind_r (arr_set (rd_buf b) (i + 1) v) (\<lambda>w. Inr (b\<lparr>rd_buf := w\<rparr>))"

section \<open>Operations\<close>

text \<open>An arithmetic shift right followed by the mask is the logical shift.\<close>

definition random_r :: "random_data \<Rightarrow> (u32 \<times> random_data) res" where
  "random_r b =
     (if rd_type b = 0 then
        bind_r (get_state b 0) (\<lambda>s.
        let val = (s * 1103515245 + 12345) AND 0x7fffffff in
        bind_r (set_state b 0 val) (\<lambda>b'. Inr (val, b')))
      else
        bind_r (get_state b (rd_fptr b)) (\<lambda>f.
        bind_r (get_state b (rd_rptr b)) (\<lambda>r.
        let val = f + r in
        bind_r (set_state b (rd_fptr b) val) (\<lambda>b1.
        let result = drop_bit 1 val AND 0x7fffffff;
            fptr = rd_fptr b + 1;
            (fp, rp) = (if fptr \<ge> rd_end b then (0, rd_rptr b + 1)
                        else (fptr, if rd_rptr b + 1 \<ge> rd_end b then 0 else rd_rptr b + 1))
        in Inr (result, b1\<lparr>rd_fptr := fp, rd_rptr := rp\<rparr>)))))"

definition next_word :: "int \<Rightarrow> int" where
  "next_word word =
     (let hi = word sdiv 127773; lo = word smod 127773; w = 16807 * lo - 2836 * hi
      in if w < 0 then w + 2147483647 else w)"

fun seed_loop :: "nat \<Rightarrow> nat \<Rightarrow> int \<Rightarrow> random_data \<Rightarrow> random_data res" where
  "seed_loop 0 dst word b = Inr b"
| "seed_loop (Suc n) dst word b =
     (let w = next_word word in
      bind_r (set_state b (dst + 1) (word_of_int w)) (seed_loop n (dst + 1) w))"

fun discard_loop :: "nat \<Rightarrow> random_data \<Rightarrow> random_data res" where
  "discard_loop 0 b = Inr b"
| "discard_loop (Suc n) b = bind_r (random_r b) (\<lambda>(_, b'). discard_loop n b')"

text \<open>\<open>False\<close> is the return value -1.\<close>

definition srandom_r :: "u32 \<Rightarrow> random_data \<Rightarrow> (bool \<times> random_data) res" where
  "srandom_r seed0 b =
     (if rd_type b \<ge> 5 then Inr (False, b)
      else
        let seed = (if seed0 = 0 then 1 else seed0) in
        bind_r (set_state b 0 seed) (\<lambda>b1.
        if rd_type b1 = 0 then Inr (True, b1)
        else
          let kc = rd_deg b1 in
          bind_r (seed_loop (kc - 1) 0 (sint seed) b1) (\<lambda>b2.
          let b3 = b2\<lparr>rd_fptr := rd_sep b2, rd_rptr := 0\<rparr> in
          bind_r (discard_loop (kc * 10) b3) (\<lambda>b4. Inr (True, b4)))))"

text \<open>\<open>n\<close> is the size of \<open>arg_state\<close> in bytes.\<close>

definition rand_type_of :: "nat \<Rightarrow> nat option" where
  "rand_type_of n =
     (if n \<ge> 128 then Some (if n < 256 then 3 else 4)
      else if n < 32 then (if n < 8 then None else Some 0)
      else Some (if n < 64 then 1 else 2))"

definition initstate_r :: "u32 \<Rightarrow> u32 list \<Rightarrow> nat \<Rightarrow> random_data \<Rightarrow> (bool \<times> random_data) res" where
  "initstate_r seed arg_state n b =
     (case rand_type_of n of None \<Rightarrow> Inr (False, b)
      | Some type \<Rightarrow>
        let degree = rand_degrees ! type;
            b1 = b\<lparr>rd_type := type, rd_sep := rand_seps ! type, rd_deg := degree, rd_end := degree,
                   rd_buf := arg_state\<rparr> in
        bind_r (srandom_r seed b1) (\<lambda>(_, b2).
        bind_r (arr_set (rd_buf b2) 0 (if type = 0 then 0 else of_nat (rd_rptr b2 * 5 + type))) (\<lambda>w.
          Inr (True, b2\<lparr>rd_buf := w\<rparr>))))"

text \<open>The old buffer is returned with its first word updated.\<close>

definition setstate_r :: "u32 list \<Rightarrow> random_data \<Rightarrow> (bool \<times> u32 list \<times> random_data) res" where
  "setstate_r arg_state b =
     bind_r (arr_set (rd_buf b) 0 (if rd_type b = 0 then 0 else of_nat (5 * rd_rptr b + rd_type b))) (\<lambda>old.
     bind_r (arr_get arg_state 0) (\<lambda>w0.
     let type = sint w0 smod 5 in
     if type < 0 \<or> type > 4 then Inr (False, old, b\<lparr>rd_buf := old\<rparr>)
     else
       let ty = nat type; degree = rand_degrees ! ty; separation = rand_seps ! ty;
           b1 = b\<lparr>rd_deg := degree, rd_sep := separation, rd_type := ty\<rparr>;
           rear = nat (sint w0 sdiv 5);
           b2 = (if ty = 0 then b1 else b1\<lparr>rd_rptr := rear, rd_fptr := (rear + separation) mod degree\<rparr>)
       in Inr (True, old, b2\<lparr>rd_buf := arg_state, rd_end := degree\<rparr>)))"

section \<open>The kernel's generator\<close>

record pi_rand =
  pr_initialized :: bool
  pr_data :: random_data

definition zero_data :: random_data where
  "zero_data = \<lparr>rd_fptr = 0, rd_rptr = 0, rd_buf = [], rd_type = 0, rd_deg = 0, rd_sep = 0, rd_end = 0\<rparr>"

text \<open>\<open>statebuf\<close> has 128 bytes: 32 words; what is in them before does not matter.\<close>

definition pi_random_seed :: "u32 list \<Rightarrow> u32 \<Rightarrow> pi_rand res" where
  "pi_random_seed statebuf x =
     bind_r (initstate_r x statebuf 128 zero_data) (\<lambda>(ok1, b1).
     bind_r (assert_r ok1) (\<lambda>_.
     bind_r (srandom_r x b1) (\<lambda>(ok2, b2).
     bind_r (assert_r ok2) (\<lambda>_. Inr \<lparr>pr_initialized = True, pr_data = b2\<rparr>))))"

definition draw :: "pi_rand \<Rightarrow> (u32 \<times> pi_rand) res" where
  "draw s = bind_r (random_r (pr_data s)) (\<lambda>(x, b). Inr (x, s\<lparr>pr_data := b\<rparr>))"

definition pi_random_init :: "u32 list \<Rightarrow> pi_rand \<Rightarrow> (u32 \<times> pi_rand) res" where
  "pi_random_init statebuf s =
     bind_r (assert_r (\<not> pr_initialized s)) (\<lambda>_.
     bind_r (pi_random_seed statebuf 0) (\<lambda>s1.
     bind_r (draw s1) (\<lambda>(u, s2).
     bind_r (assert_r (u = 0x6b8b4567)) (\<lambda>_. Inr (u, s2)))))"

definition pi_random :: "u32 list \<Rightarrow> pi_rand \<Rightarrow> (u32 \<times> pi_rand) res" where
  "pi_random statebuf s =
     bind_r (if pr_initialized s then Inr s
             else bind_r (pi_random_init statebuf s) (\<lambda>(_, s1). Inr (s1\<lparr>pr_initialized := True\<rparr>))) draw"

section \<open>The state as the last values of a sequence\<close>

text \<open>
  The generator is an additive feedback sequence: each value is the sum of the one \<open>deg\<close> places and the one
  \<open>sep\<close> places before it. The state array is a ring that holds the last \<open>deg\<close> values, the oldest under
  the front pointer.
\<close>

definition rd_ok :: "random_data \<Rightarrow> bool" where
  "rd_ok b \<longleftrightarrow> rd_type b \<noteq> 0 \<and> 0 < rd_sep b \<and> rd_sep b < rd_deg b \<and> rd_end b = rd_deg b
     \<and> length (rd_buf b) = rd_deg b + 1 \<and> rd_fptr b < rd_deg b
     \<and> rd_rptr b = (rd_fptr b + rd_deg b - rd_sep b) mod rd_deg b"

definition history :: "random_data \<Rightarrow> u32 list" where
  "history b = ring_list (tl (rd_buf b)) (rd_fptr b) (rd_deg b)"

definition feedback :: "nat \<Rightarrow> u32 list \<Rightarrow> u32" where
  "feedback sep h = h ! 0 + h ! (length h - sep)"

definition advance :: "nat \<Rightarrow> u32 list \<Rightarrow> u32 list" where
  "advance sep h = tl h @ [feedback sep h]"

lemma length_history [simp]: "length (history b) = rd_deg b"
  by (simp add: history_def)

lemma ring_list_rotate:
  assumes "f < length ws"
  shows "ring_list (ws[f := v]) (Suc f mod length ws) (length ws) = tl (ring_list ws f (length ws)) @ [v]"
proof -
  obtain n where n: "length ws = Suc n" using assms by (cases "length ws") auto
  let ?f = "Suc f mod length ws"
  have f: "(?f + n) mod length ws = f"
  proof (cases "Suc f = length ws")
    case False
    then have e: "?f = Suc f" "Suc f + n = f + length ws" using assms n by simp_all
    then have "(?f + n) mod length ws = (f + length ws) mod length ws" by (simp only: e)
    with assms show ?thesis by simp
  qed (use n in simp)
  have "ring_list (ws[f := v]) ?f (Suc n) = ring_list (ws[f := v]) ?f n @ [v]"
    using f assms n by (simp add: ring_list_snoc)
  moreover have "ring_list (ws[f := v]) ?f n = ring_list ws ?f n"
    using ring_list_update [of n ws ?f v] f n by simp
  moreover have "tl (ring_list ws f (Suc n)) = ring_list ws ?f n"
    by (simp add: ring_list_Cons)
  ultimately show ?thesis using n by simp
qed

lemma nth_history:
  assumes "rd_ok b" "i < rd_deg b"
  shows "history b ! i = rd_buf b ! Suc ((rd_fptr b + i) mod rd_deg b)"
proof -
  have "length (tl (rd_buf b)) = rd_deg b" using assms(1) by (simp add: rd_ok_def)
  moreover have "(rd_fptr b + i) mod rd_deg b < rd_deg b" using assms(2) by simp
  ultimately show ?thesis using assms(2) by (simp add: history_def ring_list_def nth_tl)
qed

lemma rear_pointer:
  assumes "f < deg" "0 < sep" "sep < deg" "r = (f + deg - sep) mod deg"
  shows "(if deg \<le> Suc f then Suc r else if deg \<le> Suc r then 0 else Suc r)
           = (Suc f mod deg + deg - sep) mod deg" (is "?l = ?r")
proof (cases "Suc f = deg")
  case True
  then have "r = f - sep" using assms by (simp add: le_mod_geq)
  with True assms show ?thesis by (simp add: le_mod_geq)
next
  case False
  then have f: "Suc f < deg" using assms by simp
  then have "Suc r mod deg = (Suc f + deg - sep) mod deg"
    using assms by (simp add: mod_Suc_eq Suc_diff_le)
  moreover have "r < deg" using assms by simp
  ultimately show ?thesis using f by (auto simp: le_Suc_eq)
qed

lemma random_r_feedback:
  assumes "rd_ok b"
  shows "\<exists>b'. random_r b = Inr (drop_bit 1 (feedback (rd_sep b) (history b)) AND 0x7fffffff, b') \<and> rd_ok b'
           \<and> history b' = advance (rd_sep b) (history b) \<and> rd_sep b' = rd_sep b \<and> rd_deg b' = rd_deg b
           \<and> rd_type b' = rd_type b \<and> rd_fptr b' = Suc (rd_fptr b) mod rd_deg b"
proof -
  let ?f = "rd_fptr b" and ?r = "rd_rptr b" and ?d = "rd_deg b" and ?s = "rd_sep b"
  note ok = assms [unfolded rd_ok_def]
  have r: "?r < ?d" using ok by simp
  have h: "history b ! 0 = rd_buf b ! Suc ?f" "history b ! (?d - ?s) = rd_buf b ! Suc ?r"
    using nth_history [OF assms, of 0] nth_history [OF assms, of "?d - ?s"] ok by simp_all
  let ?v = "feedback ?s (history b)"
  have v: "?v = rd_buf b ! Suc ?f + rd_buf b ! Suc ?r" using h by (simp add: feedback_def)
  let ?b = "b\<lparr>rd_buf := (rd_buf b)[Suc ?f := ?v], rd_fptr := Suc ?f mod ?d,
      rd_rptr := (Suc ?f mod ?d + ?d - ?s) mod ?d\<rparr>"
  have "Suc ?f mod ?d = (if ?d \<le> Suc ?f then 0 else Suc ?f)" using ok by (cases "Suc ?f = ?d") auto
  then have run: "random_r b = Inr (drop_bit 1 ?v AND 0x7fffffff, ?b)"
    using ok r rear_pointer [of ?f ?d ?s ?r] v
    by (auto simp: random_r_def get_state_def set_state_def Let_def)
  have "tl ((rd_buf b)[Suc ?f := ?v]) = (tl (rd_buf b))[?f := ?v]" by (cases "rd_buf b") auto
  then have "history ?b = advance ?s (history b)"
    using ring_list_rotate [of ?f "tl (rd_buf b)" ?v] ok by (simp add: history_def advance_def)
  moreover have "rd_ok ?b" using ok by (auto simp: rd_ok_def)
  ultimately show ?thesis using run by auto
qed

section \<open>Seeding\<close>

text \<open>Schrage's method: the product modulo \<open>2^31 - 1\<close> without an intermediate value beyond 32 bits.\<close>

lemma next_word_park_miller:
  assumes "0 < w" "w < 2147483647"
  shows "next_word w = (16807 * w) mod 2147483647" "0 < next_word w" "next_word w < 2147483647"
    "\<bar>16807 * (w smod 127773) - 2836 * (w sdiv 127773)\<bar> < 2 ^ 31"
proof -
  let ?hi = "w div 127773" and ?lo = "w mod 127773"
  have sd: "w sdiv 127773 = ?hi" "w smod 127773 = ?lo"
    using assms by (simp_all add: signed_divide_int_def signed_modulo_int_def minus_div_mult_eq_mod)
  have w: "w = 127773 * ?hi + ?lo" by simp
  have b: "0 \<le> ?lo" "?lo < 127773" "0 \<le> ?hi" "?hi \<le> 16807" using assms by auto
  define d where "d = 16807 * ?lo - 2836 * ?hi"
  have eq: "16807 * w = d + 2147483647 * ?hi" unfolding d_def using w by linarith
  have m: "(16807 * w) mod 2147483647 = d mod 2147483647" by (simp only: eq mod_mult_self2)
  have range: "- 2147483647 < d" "d < 2147483647" unfolding d_def using b by linarith+
  have "d mod 2147483647 = (if d < 0 then d + 2147483647 else d)"
  proof (cases "d < 0")
    case True
    have "d mod 2147483647 = (d + 2147483647) mod 2147483647" by simp
    also have "\<dots> = d + 2147483647" using True range by (intro mod_pos_pos_trivial) simp_all
    finally show ?thesis using True by simp
  qed (use range in simp)
  then show *: "next_word w = (16807 * w) mod 2147483647"
    unfolding m next_word_def sd Let_def d_def by simp
  show "\<bar>16807 * (w smod 127773) - 2836 * (w sdiv 127773)\<bar> < 2 ^ 31"
    unfolding sd d_def [symmetric] using range by simp
  have "coprime (2147483647 :: int) 16807" by code_simp
  moreover have "\<not> (2147483647 :: int) dvd w" using assms zdvd_not_zless by blast
  ultimately have "\<not> (2147483647 :: int) dvd 16807 * w" by (simp add: coprime_dvd_mult_right_iff)
  then have "(16807 * w) mod 2147483647 \<noteq> 0" by (simp add: dvd_eq_mod_eq_0)
  moreover have "0 \<le> (16807 * w) mod 2147483647" "(16807 * w) mod 2147483647 < 2147483647" by simp_all
  ultimately show "0 < next_word w" "next_word w < 2147483647" unfolding * by linarith+
qed

fun seed_words :: "nat \<Rightarrow> int \<Rightarrow> u32 list" where
  "seed_words 0 w = []"
| "seed_words (Suc n) w = word_of_int (next_word w) # seed_words n (next_word w)"

lemma length_seed_words [simp]: "length (seed_words n w) = n"
  by (induction n arbitrary: w) auto

lemma seed_loop_words:
  assumes "length (rd_buf b) = dst + n + 2"
  shows "seed_loop n dst w b = Inr (b\<lparr>rd_buf := take (dst + 2) (rd_buf b) @ seed_words n w\<rparr>)"
  using assms
proof (induction n arbitrary: dst w b)
  case 0
  then show ?case by simp
next
  case (Suc n)
  let ?w = "next_word w"
  let ?b = "b\<lparr>rd_buf := (rd_buf b)[dst + 2 := word_of_int ?w]\<rparr>"
  have "seed_loop (Suc n) dst w b = seed_loop n (dst + 1) ?w ?b"
    using Suc.prems by (simp add: set_state_def Let_def)
  also have "\<dots> = Inr (?b\<lparr>rd_buf := take (dst + 3) (rd_buf ?b) @ seed_words n ?w\<rparr>)"
    using Suc.IH [of ?b "dst + 1" ?w] Suc.prems by (simp add: numeral_3_eq_3)
  also have "take (dst + 3) (rd_buf ?b) = take (dst + 2) (rd_buf b) @ [word_of_int ?w]"
    using Suc.prems by (simp add: take_Suc_conv_app_nth numeral_3_eq_3)
  finally show ?case by simp
qed

lemma discard_loop_advances:
  assumes "rd_ok b"
  shows "\<exists>b'. discard_loop n b = Inr b' \<and> rd_ok b' \<and> history b' = (advance (rd_sep b) ^^ n) (history b)
           \<and> rd_sep b' = rd_sep b \<and> rd_deg b' = rd_deg b \<and> rd_type b' = rd_type b"
  using assms
proof (induction n arbitrary: b)
  case 0
  then show ?case by simp
next
  case (Suc n)
  from random_r_feedback [OF Suc.prems] obtain x b1 where
    b1: "random_r b = Inr (x, b1)" "rd_ok b1" "history b1 = advance (rd_sep b) (history b)"
      "rd_sep b1 = rd_sep b" "rd_deg b1 = rd_deg b" "rd_type b1 = rd_type b" by blast
  with Suc.IH [OF b1(2)] show ?case by (auto simp: funpow_swap1)
qed

text \<open>
  \<open>srandom_r\<close> for one of the feedback types: the state is seeded with the congruential sequence, its first
  \<open>sep\<close> values count as the youngest, and ten rounds of the ring are discarded.
\<close>

lemma srandom_r_history:
  assumes "rd_type b \<noteq> 0" "rd_type b < 5" "0 < rd_sep b" "rd_sep b < rd_deg b" "rd_end b = rd_deg b"
    and "length (rd_buf b) = rd_deg b + 1" "s = (if seed = 0 then 1 else seed)"
  shows "\<exists>b'. srandom_r seed b = Inr (True, b') \<and> rd_ok b' \<and> rd_sep b' = rd_sep b \<and> rd_deg b' = rd_deg b
           \<and> rd_type b' = rd_type b
           \<and> history b' = (advance (rd_sep b) ^^ (rd_deg b * 10))
               (rotate (rd_sep b) (s # seed_words (rd_deg b - 1) (sint s)))"
proof -
  let ?d = "rd_deg b" and ?ws = "s # seed_words (rd_deg b - 1) (sint s)"
  let ?b1 = "b\<lparr>rd_buf := (rd_buf b)[1 := s]\<rparr>"
  obtain x y zs where buf: "rd_buf b = x # y # zs" using assms(4,6) by (cases "rd_buf b"; cases "tl (rd_buf b)") auto
  have "seed_loop (?d - 1) 0 (sint s) ?b1 = Inr (?b1\<lparr>rd_buf := take 2 (rd_buf ?b1) @ seed_words (?d - 1) (sint s)\<rparr>)"
    using seed_loop_words [of ?b1 0 "?d - 1" "sint s"] assms(4,6) by (simp add: numeral_2_eq_2)
  then have seed: "seed_loop (?d - 1) 0 (sint s) ?b1 = Inr (b\<lparr>rd_buf := x # ?ws\<rparr>)"
    using buf by (simp add: numeral_2_eq_2)
  let ?b3 = "b\<lparr>rd_buf := x # ?ws, rd_fptr := rd_sep b, rd_rptr := 0\<rparr>"
  have ok: "rd_ok ?b3" using assms by (simp add: rd_ok_def)
  have "history ?b3 = rotate (rd_sep b) ?ws"
    using assms(4) by (auto simp: history_def ring_list_def nth_rotate add.commute intro!: nth_equalityI)
  with discard_loop_advances [OF ok, of "?d * 10"] obtain b4 where
    b4: "discard_loop (?d * 10) ?b3 = Inr b4" "rd_ok b4" "rd_sep b4 = rd_sep b" "rd_deg b4 = ?d"
      "rd_type b4 = rd_type b" "history b4 = (advance (rd_sep b) ^^ (?d * 10)) (rotate (rd_sep b) ?ws)" by auto
  have "set_state b 0 s = Inr ?b1" using buf by (simp add: set_state_def)
  with seed b4(1) assms(1,2,7) have "srandom_r seed b = Inr (True, b4)"
    by (simp add: srandom_r_def Let_def)
  with b4 show ?thesis by blast
qed

section \<open>The kernel's first random number\<close>

definition boot_seeds :: "u32 list" where
  "boot_seeds = 1 # seed_words 30 1"

lemma next_word_pos:
  "0 < w \<Longrightarrow> next_word w =
     (let d = 16807 * (w mod 127773) - 2836 * (w div 127773) in if d < 0 then d + 2147483647 else d)"
  by (simp add: next_word_def signed_divide_int_def signed_modulo_int_def minus_div_mult_eq_mod Let_def)

lemma seed_words_numeral:
  "seed_words (numeral n) w = word_of_int (next_word w) # seed_words (pred_numeral n) (next_word w)"
  by (simp add: numeral_eq_Suc)

lemma boot_seeds_eval:
  "boot_seeds = [
    1, 16807, 282475249, 1622650073, 984943658, 1144108930, 470211272, 101027544, 1457850878, 1458777923,
    2007237709, 823564440, 1115438165, 1784484492, 74243042, 114807987, 1137522503, 1441282327, 16531729,
    823378840, 143542612, 896544303, 1474833169, 1264817709, 1998097157, 1817129560, 1131570933, 197493099,
    1404280278, 893351816, 1505795335]"
  by (simp add: boot_seeds_def seed_words_numeral next_word_pos)

lemma advance_31:
  "advance 3 [
    x0, x1, x2, x3, x4, x5, x6, x7, x8, x9, x10, x11, x12, x13, x14, x15, x16, x17, x18, x19, x20, x21, x22,
    x23, x24, x25, x26, x27, x28, x29, x30] = [
    x1, x2, x3, x4, x5, x6, x7, x8, x9, x10, x11, x12, x13, x14, x15, x16, x17, x18, x19, x20, x21, x22, x23,
    x24, x25, x26, x27, x28, x29, x30, x0 + x28]"
  by (simp add: advance_def feedback_def)

lemma funpow_numeral: "(f ^^ numeral n) x = (f ^^ pred_numeral n) (f x)"
  by (simp add: numeral_eq_Suc funpow_swap1)

lemma rotate_3: "rotate 3 (x # y # z # xs) = xs @ [x, y, z]"
  by (simp add: numeral_3_eq_3)

lemma boot_history: "(advance 3 ^^ 310) (rotate 3 boot_seeds) = [
    1040273694, 1313901226, 1627687941, 4115662359, 2221633813, 1780058412, 2305464239, 3678992694,
    344556628, 939512070, 3045851036, 1507946756, 3482421833, 154635395, 1388815473, 2368290473, 525320961,
    3285938622, 968117788, 4171517689, 1284210865, 435012392, 2277460957, 3383902437, 3924708123, 1132637927,
    1398500161, 4089365978, 2568305073, 379960547, 1735697613]"
  unfolding boot_seeds_eval by (simp add: rotate_3 advance_31 funpow_numeral)

lemma pi_random_seed_zero:
  assumes "length statebuf = 32"
  shows "\<exists>s. pi_random_seed statebuf 0 = Inr s \<and> pr_initialized s \<and> rd_ok (pr_data s) \<and> rd_sep (pr_data s) = 3
           \<and> history (pr_data s) = (advance 3 ^^ 310) (rotate 3 boot_seeds)"
proof -
  let ?b = "zero_data\<lparr>rd_type := 3, rd_sep := 3, rd_deg := 31, rd_end := 31, rd_buf := statebuf\<rparr>"
  have ty: "rand_type_of 128 = Some 3" "rand_degrees ! 3 = 31" "rand_seps ! 3 = 3"
    by (simp_all add: rand_type_of_def rand_degrees_def rand_seps_def)
  from srandom_r_history [of ?b 1 0] assms obtain b1 where
    b1: "srandom_r 0 ?b = Inr (True, b1)" "rd_ok b1" "rd_sep b1 = 3" "rd_deg b1 = 31" "rd_type b1 = 3"
    by (auto simp: zero_data_def)
  let ?b2 = "b1\<lparr>rd_buf := (rd_buf b1)[0 := of_nat (rd_rptr b1 * 5 + 3)]\<rparr>"
  have len: "length (rd_buf b1) = 32" using b1(2,4) by (simp add: rd_ok_def)
  have init: "initstate_r 0 statebuf 128 zero_data = Inr (True, ?b2)"
    using b1(1) len ty by (simp add: initstate_r_def Let_def)
  have "rd_end b1 = 31" using b1(2,4) by (simp add: rd_ok_def)
  with srandom_r_history [of ?b2 1 0] b1 len obtain b3 where
    "srandom_r 0 ?b2 = Inr (True, b3)" "rd_ok b3" "rd_sep b3 = 3"
    "history b3 = (advance 3 ^^ 310) (rotate 3 boot_seeds)" by (auto simp: boot_seeds_def)
  with init show ?thesis by (simp add: pi_random_seed_def)
qed

text \<open>The self-test of \<open>pi_random_init\<close> passes whatever the buffer held before.\<close>

lemma pi_random_init_passes:
  assumes "length statebuf = 32" "\<not> pr_initialized s"
  shows "\<exists>s'. pi_random_init statebuf s = Inr (0x6b8b4567, s')"
proof -
  from pi_random_seed_zero [OF assms(1)] obtain s1 where
    s1: "pi_random_seed statebuf 0 = Inr s1" "rd_ok (pr_data s1)" "rd_sep (pr_data s1) = 3"
      "history (pr_data s1) = (advance 3 ^^ 310) (rotate 3 boot_seeds)" by blast
  from random_r_feedback [OF s1(2)] obtain b' where
    "random_r (pr_data s1) = Inr (drop_bit 1 (feedback 3 (history (pr_data s1))) AND 0x7fffffff, b')"
    using s1(3) by auto
  moreover have "drop_bit 1 (feedback 3 (history (pr_data s1))) AND 0x7fffffff = 0x6b8b4567"
    unfolding s1(4) boot_history by (simp add: feedback_def)
  ultimately have "draw s1 = Inr (0x6b8b4567, s1\<lparr>pr_data := b'\<rparr>)" by (simp add: draw_def)
  with s1(1) assms(2) show ?thesis by (simp add: pi_random_init_def)
qed

end
