(* ===== verification/Libc_Props.thy ===== *)
theory Libc_Props
  imports Libc_Crc Libc_Random
begin

text \<open>The properties of the checksum and of the random number generator of the C library.\<close>

text \<open>C13: The table-driven checksum is CRC-32: on a buffer of at least \<open>nbytes\<close> bytes it never leaves the table or the buffer
  and equals the bit-by-bit computation; it can be computed in pieces; and changing one byte of the message always
  changes the checksum.\<close>

theorem crc32_is_bitwise:
  assumes "unat nbytes \<le> length buf" "length xs + length ys < 4294967295"
  shows "our_crc32_inc buf nbytes crc = Inr (crc_ref crc (take (unat nbytes) buf))
    \<and> crc_ref crc (xs @ ys) = crc_ref (crc_ref crc xs) ys
    \<and> (our_crc32 (xs @ a # ys) (of_nat (length xs + length ys + 1))
         = our_crc32 (xs @ b # ys) (of_nat (length xs + length ys + 1)) \<longleftrightarrow> a = b)"
proof -
  have "unat (of_nat (length xs + length ys + 1) :: u32) = length xs + length ys + 1"
    using assms(2) by (intro unat_of_nat_u32) simp
  then have "our_crc32 (xs @ z # ys) (of_nat (length xs + length ys + 1)) = Inr (crc_ref 0 (xs @ z # ys))" for z
    by (simp add: our_crc32_def our_crc32_inc_ref)
  then show ?thesis
    using our_crc32_inc_ref [OF assms(1), of crc] crc_ref_append [of crc xs ys] crc_ref_detects [of 0 xs a ys b]
    by (simp only: simp_thms sum.inject)
qed

theorem crc32_is_bitwise_witness:
  "our_crc32_inc [49, 50, 51] 3 0 = Inr (crc_ref 0 [49, 50, 51]) \<and> our_crc32 [1, 65, 2] 3 \<noteq> our_crc32 [1, 66, 2] 3"
  using crc32_is_bitwise [of 3 "[49, 50, 51]" "[1]" "[2]" 0 65 66] by simp

text \<open>C14: The generator computes the additive feedback sequence: each call adds the oldest and the \<open>sep\<close>-th youngest of the
  last \<open>deg\<close> values, returns the upper 31 bits of the sum and keeps the pointers in the array, also when they wrap.
  Seeding multiplies by 16807 modulo \<open>2^31 - 1\<close>, and the self-test of the kernel's generator passes.\<close>

theorem random_is_additive_feedback:
  assumes "rd_ok b" "0 < w" "w < 2147483647" "length statebuf = 32" "\<not> pr_initialized s"
  shows "(\<exists>b'. random_r b = Inr (drop_bit 1 (feedback (rd_sep b) (history b)) AND 0x7fffffff, b') \<and> rd_ok b'
         \<and> history b' = advance (rd_sep b) (history b))
    \<and> next_word w = 16807 * w mod 2147483647
    \<and> (\<exists>s'. pi_random_init statebuf s = Inr (0x6b8b4567, s'))"
  using random_r_feedback [OF assms(1)] next_word_park_miller(1) [OF assms(2,3)] pi_random_init_passes [OF assms(4,5)]
  by blast

theorem random_is_additive_feedback_witness:
  "random_r \<lparr>rd_fptr = 6, rd_rptr = 3, rd_buf = [0, 10, 20, 30, 40, 50, 60, 70], rd_type = 1, rd_deg = 7, rd_sep = 3, rd_end = 7\<rparr>
    = Inr (55, \<lparr>rd_fptr = 0, rd_rptr = 4, rd_buf = [0, 10, 20, 30, 40, 50, 60, 110], rd_type = 1, rd_deg = 7, rd_sep = 3, rd_end = 7\<rparr>)
   \<and> next_word 16807 = 282475249
   \<and> (\<exists>s'. pi_random_init (replicate 32 9) \<lparr>pr_initialized = False, pr_data = zero_data\<rparr> = Inr (0x6b8b4567, s'))"
proof -
  let ?b = "\<lparr>rd_fptr = 6, rd_rptr = 3, rd_buf = [0, 10, 20, 30, 40, 50, 60, 70 :: u32], rd_type = 1, rd_deg = 7, rd_sep = 3, rd_end = 7\<rparr>"
  have "rd_ok ?b" by (simp add: rd_ok_def)
  from random_is_additive_feedback [OF this, of 16807 "replicate 32 9" "\<lparr>pr_initialized = False, pr_data = zero_data\<rparr>"]
  show ?thesis by (simp add: random_r_def get_state_def set_state_def Let_def)
qed

end
