(* ===== verification/Bit_Support.thy ===== *)
theory Bit_Support
  imports Prelude
begin

text \<open>
  The bit operations of \<open>libpi/libc/bit-support.h\<close> on 32-bit words, with their assertions on the
  bit positions, and what they do to the word read as a set of bits.
\<close>

section \<open>Bit operations\<close>

definition bit_clr :: "u32 \<Rightarrow> nat \<Rightarrow> u32 res" where
  "bit_clr x b = bind_r (assert_r (b < 32)) (\<lambda>_. Inr (x AND NOT (push_bit b 1)))"

definition bit_set :: "u32 \<Rightarrow> nat \<Rightarrow> u32 res" where
  "bit_set x b = bind_r (assert_r (b < 32)) (\<lambda>_. Inr (x OR push_bit b 1))"

definition bit_not :: "u32 \<Rightarrow> nat \<Rightarrow> u32 res" where
  "bit_not x b = bind_r (assert_r (b < 32)) (\<lambda>_. Inr (x XOR push_bit b 1))"

definition bit_is_on :: "u32 \<Rightarrow> nat \<Rightarrow> u32 res" where
  "bit_is_on x b = bind_r (assert_r (b < 32)) (\<lambda>_. Inr (drop_bit b x AND 1))"

definition bit_is_off :: "u32 \<Rightarrow> nat \<Rightarrow> bool res" where
  "bit_is_off x b = bind_r (bit_is_on x b) (\<lambda>v. Inr (v = 0))"

definition bits_mask :: "nat \<Rightarrow> u32 res" where
  "bits_mask nbits =
     (if nbits = 32 then Inr (NOT 0)
      else bind_r (assert_r (nbits < 32)) (\<lambda>_. Inr (push_bit nbits 1 - 1)))"

definition bits_get :: "u32 \<Rightarrow> nat \<Rightarrow> nat \<Rightarrow> u32 res" where
  "bits_get x lb ub =
     bind_r (assert_r (lb \<le> ub)) (\<lambda>_.
     bind_r (assert_r (ub < 32)) (\<lambda>_.
     bind_r (bits_mask (ub - lb + 1)) (\<lambda>m. Inr (drop_bit lb x AND m))))"

definition bits_clr :: "u32 \<Rightarrow> nat \<Rightarrow> nat \<Rightarrow> u32 res" where
  "bits_clr x lb ub =
     bind_r (assert_r (lb \<le> ub)) (\<lambda>_.
     bind_r (assert_r (ub < 32)) (\<lambda>_.
     bind_r (bits_mask (ub - lb + 1)) (\<lambda>m. Inr (x AND NOT (push_bit lb m)))))"

definition bits_set :: "u32 \<Rightarrow> nat \<Rightarrow> nat \<Rightarrow> u32 \<Rightarrow> u32 res" where
  "bits_set x lb ub v =
     bind_r (assert_r (lb \<le> ub)) (\<lambda>_.
     bind_r (assert_r (ub < 32)) (\<lambda>_.
     (let n = ub - lb + 1 in
     bind_r (assert_r (n \<le> 32)) (\<lambda>_.
     bind_r (bits_mask n) (\<lambda>m.
     bind_r (assert_r (m AND v = v)) (\<lambda>_.
     bind_r (bits_clr x lb ub) (\<lambda>y. Inr (y OR push_bit lb v))))))))"

definition bits_eq :: "u32 \<Rightarrow> nat \<Rightarrow> nat \<Rightarrow> u32 \<Rightarrow> bool res" where
  "bits_eq x lb ub v =
     bind_r (assert_r (lb \<le> ub)) (\<lambda>_.
     bind_r (assert_r (ub < 32)) (\<lambda>_.
     bind_r (bits_get x lb ub) (\<lambda>y. Inr (y = v))))"

fun bit_count_loop :: "u32 \<Rightarrow> nat \<Rightarrow> nat \<Rightarrow> nat res" where
  "bit_count_loop x 0 cnt = Inr cnt"
| "bit_count_loop x (Suc k) cnt =
     bind_r (bit_is_on x (32 - Suc k)) (\<lambda>v. bit_count_loop x k (if v \<noteq> 0 then cnt + 1 else cnt))"

text \<open>The index of the loop runs from 0 to 31; \<open>32 - k\<close> is the index with \<open>k\<close> rounds to go.\<close>

definition bit_count :: "u32 \<Rightarrow> nat res" where
  "bit_count x = bit_count_loop x 32 0"

definition bits_union :: "u32 \<Rightarrow> u32 \<Rightarrow> u32" where
  "bits_union x y = x OR y"

definition bits_intersect :: "u32 \<Rightarrow> u32 \<Rightarrow> u32" where
  "bits_intersect x y = x AND y"

definition bits_not :: "u32 \<Rightarrow> u32" where
  "bits_not x = NOT x"

definition bits_diff :: "u32 \<Rightarrow> u32 \<Rightarrow> u32" where
  "bits_diff A B = bits_intersect A (bits_not B)"

section \<open>Words as sets of bits\<close>

lemma bit_is_on_ok [simp]: "b < 32 \<Longrightarrow> bit_is_on x b = Inr (of_bool (bit x b))"
  by (simp add: bit_is_on_def and_one_eq mod_2_eq_odd bit_iff_odd_drop_bit)

lemma bits_mask_ok: "n \<le> 32 \<Longrightarrow> bits_mask n = Inr (mask n)"
  by (auto simp: bits_mask_def mask_eq_exp_minus_1 push_bit_eq_mult)

lemma bit_clr_ok: "b < 32 \<Longrightarrow> \<exists>y. bit_clr x b = Inr y \<and> (\<forall>i. bit y i = (bit x i \<and> i \<noteq> b))"
  by (auto simp: bit_clr_def bit_simps dest: bit_imp_le_length)

lemma bit_set_ok:
  "b < 32 \<Longrightarrow> \<exists>y. bit_set x b = Inr y \<and> (\<forall>i. bit y i = (bit x i \<or> i = b))"
  by (auto simp: bit_set_def bit_simps)

lemma bit_not_ok:
  "b < 32 \<Longrightarrow> \<exists>y. bit_not x b = Inr y \<and> (\<forall>i. bit y i = (bit x i \<noteq> (i = b)))"
  by (auto simp: bit_not_def bit_simps)

lemma bits_get_ok:
  "lb \<le> ub \<Longrightarrow> ub < 32 \<Longrightarrow> bits_get x lb ub = Inr (take_bit (ub - lb + 1) (drop_bit lb x))"
  by (simp add: bits_get_def bits_mask_ok take_bit_eq_mask)

lemma bits_clr_ok:
  "lb \<le> ub \<Longrightarrow> ub < 32 \<Longrightarrow>
   \<exists>y. bits_clr x lb ub = Inr y \<and> (\<forall>i. bit y i = (bit x i \<and> \<not> (lb \<le> i \<and> i \<le> ub)))"
  by (auto simp: bits_clr_def bits_mask_ok bit_simps dest: bit_imp_le_length)

text \<open>The field holds the value that was stored in it and every other bit is as before.\<close>

lemma bits_set_ok:
  assumes "lb \<le> ub" "ub < 32" "unat v < 2 ^ (ub - lb + 1)"
  shows "\<exists>y. bits_set x lb ub v = Inr y \<and>
    (\<forall>i. bit y i = (if lb \<le> i \<and> i \<le> ub then bit v (i - lb) else bit x i))"
proof -
  let ?n = "ub - lb + 1"
  have fits: "take_bit ?n v = v"
    using assms(3) by (simp add: unat_eq_iff unsigned_take_bit_eq take_bit_nat_eq_self)
  have small: "\<not> bit v j" if "?n \<le> j" for j
  proof -
    have "\<not> bit (take_bit ?n v) j" using that by (simp add: bit_take_bit_iff)
    then show ?thesis unfolding fits .
  qed
  obtain y where y: "bits_clr x lb ub = Inr y"
      "\<forall>i. bit y i = (bit x i \<and> \<not> (lb \<le> i \<and> i \<le> ub))"
    using bits_clr_ok [OF assms(1,2)] by blast
  have n: "?n \<le> 32" using assms(2) by simp
  have "bits_set x lb ub v = Inr (y OR push_bit lb v)"
    unfolding bits_set_def Let_def using assms(1,2) n fits y(1)
    by (simp only: bits_mask_ok assert_r_simps bind_r_Inr and.commute [of "mask ?n"] simp_thms flip: take_bit_eq_mask)
  moreover have "bit (y OR push_bit lb v) i = (if lb \<le> i \<and> i \<le> ub then bit v (i - lb) else bit x i)" for i
  proof (cases "lb \<le> i \<and> i \<le> ub")
    case True
    with assms(2) show ?thesis by (simp add: bit_simps y(2))
  next
    case False
    then have "\<not> (lb \<le> i \<and> bit v (i - lb))" using small [of "i - lb"] assms(1) by (cases "?n \<le> i - lb") auto
    with False show ?thesis by (auto simp: bit_simps y(2))
  qed
  ultimately show ?thesis by blast
qed

lemma bits_set_get:
  assumes "lb \<le> ub" "ub < 32" "unat v < 2 ^ (ub - lb + 1)" "bits_set x lb ub v = Inr y"
  shows "bits_get y lb ub = Inr v"
proof -
  have bits: "bit y i = (if lb \<le> i \<and> i \<le> ub then bit v (i - lb) else bit x i)" for i
    using bits_set_ok [OF assms(1-3), of x] assms(4) by auto
  have "take_bit (ub - lb + 1) (drop_bit lb y) = take_bit (ub - lb + 1) v"
    using assms(1,2) by (intro bit_word_eqI) (auto simp: bit_simps bits)
  then show ?thesis
    using assms(3) by (simp add: bits_get_ok assms(1,2) unat_eq_iff unsigned_take_bit_eq take_bit_nat_eq_self)
qed

lemma bit_count_loop_ok:
  "k \<le> 32 \<Longrightarrow> bit_count_loop x k cnt = Inr (cnt + card {i. 32 - k \<le> i \<and> i < 32 \<and> bit x i})"
proof (induction k arbitrary: cnt)
  case (Suc k)
  define m where "m = 32 - Suc k"
  have m: "32 - Suc k = m" "32 - k = Suc m" "m < 32" using Suc.prems by (auto simp: m_def)
  have "{i. m \<le> i \<and> i < 32 \<and> bit x i} = (if bit x m then {m} else {}) \<union> {i. Suc m \<le> i \<and> i < 32 \<and> bit x i}"
    using m(3) by (auto simp: le_less Suc_le_eq)
  then have "card {i. m \<le> i \<and> i < 32 \<and> bit x i} =
      of_bool (bit x m) + card {i. Suc m \<le> i \<and> i < 32 \<and> bit x i}"
    by (simp add: card_insert_if)
  then show ?case using Suc.IH [of "if bit x m then cnt + 1 else cnt"] Suc.prems m by simp
qed simp

lemma bit_count_ok: "bit_count x = Inr (card {i. bit x i})"
proof -
  have "{i. i < 32 \<and> bit x i} = {i. bit x i}" by (auto dest: bit_imp_le_length)
  then show ?thesis by (simp add: bit_count_def bit_count_loop_ok)
qed

lemma bits_diff_ok: "bit (bits_diff A B) i \<longleftrightarrow> bit A i \<and> \<not> bit B i"
  by (auto simp: bits_diff_def bits_intersect_def bits_not_def bit_simps dest: bit_imp_le_length)

end
