(* ===== verification/Device_Io.thy ===== *)
theory Device_Io
  imports Bit_Support
begin

text \<open>
  Programs that talk to devices. The state \<open>'d\<close> of the devices is abstract: a program reaches it
  only through the operations of the record \<open>hw\<close>, the loads and stores of \<open>GET32\<close> and
  \<open>PUT32\<close> and the staff routines for the SPI bus and the pull resistors, whose sources are not part
  of the repository. A program is a function of the device state that returns a value and the
  next state, or a fault; \<open>io_ok P m Q\<close> says that from every state with \<open>P\<close> the program
  \<open>m\<close> returns, without a fault, a value and a state with \<open>Q\<close>.

  On top of them stand the pins of
  \<open>libpi/src/gpio.c\<close>, the pin events of \<open>network/nrf-interrupt.c\<close>, the timer of
  \<open>libpi/staff-src/timer.c\<close> and the timeouts of \<open>libpi/include/timeout.h\<close>.
\<close>

section \<open>Programs\<close>

type_synonym ('d, 'a) io = "'d \<Rightarrow> ('a \<times> 'd) res"

definition io_ret :: "'a \<Rightarrow> ('d, 'a) io" where
  "io_ret x = (\<lambda>d. Inr (x, d))"

definition io_res :: "'a res \<Rightarrow> ('d, 'a) io" where
  "io_res r = (\<lambda>d. bind_r r (\<lambda>x. Inr (x, d)))"

definition io_bind :: "('d, 'a) io \<Rightarrow> ('a \<Rightarrow> ('d, 'b) io) \<Rightarrow> ('d, 'b) io" where
  "io_bind m f = (\<lambda>d. bind_r (m d) (\<lambda>(x, d'). f x d'))"

fun io_seq :: "('d, unit) io list \<Rightarrow> ('d, unit) io" where
  "io_seq [] = io_ret ()"
| "io_seq (m # ms) = io_bind m (\<lambda>_. io_seq ms)"

definition io_assert :: "('d, bool) io \<Rightarrow> ('d, unit) io" where
  "io_assert m = io_bind m (\<lambda>b. io_res (assert_r b))"

definition io_not :: "('d, bool) io \<Rightarrow> ('d, bool) io" where
  "io_not m = io_bind m (\<lambda>b. io_ret (\<not> b))"

definition io_skip :: "('d, 'a) io \<Rightarrow> ('d, unit) io" where
  "io_skip m = io_bind m (\<lambda>_. io_ret ())"

definition io_ok :: "('d \<Rightarrow> bool) \<Rightarrow> ('d, 'a) io \<Rightarrow> ('a \<Rightarrow> 'd \<Rightarrow> bool) \<Rightarrow> bool" where
  "io_ok P m Q \<longleftrightarrow> (\<forall>d. P d \<longrightarrow> (\<exists>x d'. m d = Inr (x, d') \<and> Q x d'))"

lemma io_bind_assoc: "io_bind (io_bind m f) g = io_bind m (\<lambda>x. io_bind (f x) g)"
proof (rule ext)
  fix d
  show "io_bind (io_bind m f) g d = io_bind m (\<lambda>x. io_bind (f x) g) d"
    by (cases "m d") (auto simp: io_bind_def)
qed

lemma io_okI: "(\<And>d. P d \<Longrightarrow> \<exists>x d'. m d = Inr (x, d') \<and> Q x d') \<Longrightarrow> io_ok P m Q"
  by (auto simp: io_ok_def)

lemma io_okD: "io_ok P m Q \<Longrightarrow> P d \<Longrightarrow> \<exists>x d'. m d = Inr (x, d') \<and> Q x d'"
  by (auto simp: io_ok_def)

lemma io_ok_ret: "(\<And>d. P d \<Longrightarrow> Q x d) \<Longrightarrow> io_ok P (io_ret x) Q"
  by (auto simp: io_ok_def io_ret_def)

lemma io_ok_bind:
  assumes "io_ok P m R" "\<And>x. io_ok (R x) (f x) Q"
  shows "io_ok P (io_bind m f) Q"
proof (rule io_okI)
  fix d assume "P d"
  then obtain x d' where 1: "m d = Inr (x, d')" "R x d'" using io_okD [OF assms(1)] by blast
  obtain y d'' where "f x d' = Inr (y, d'')" "Q y d''" using io_okD [OF assms(2) 1(2)] by blast
  with 1 show "\<exists>x d'. io_bind m f d = Inr (x, d') \<and> Q x d'" by (simp add: io_bind_def)
qed

lemma io_ok_weaken:
  "io_ok P' m Q' \<Longrightarrow> (\<And>d. P d \<Longrightarrow> P' d) \<Longrightarrow> (\<And>x d. Q' x d \<Longrightarrow> Q x d) \<Longrightarrow> io_ok P m Q"
  unfolding io_ok_def by blast

lemma io_ok_pre: "io_ok P' m Q \<Longrightarrow> (\<And>d. P d \<Longrightarrow> P' d) \<Longrightarrow> io_ok P m Q"
  unfolding io_ok_def by blast

lemma io_ok_post: "io_ok P m Q' \<Longrightarrow> (\<And>x d. Q' x d \<Longrightarrow> Q x d) \<Longrightarrow> io_ok P m Q"
  unfolding io_ok_def by blast

lemma io_ok_cases: "(\<And>x. P x \<Longrightarrow> io_ok (R x) m Q) \<Longrightarrow> io_ok (\<lambda>d. \<exists>x. P x \<and> R x d) m Q"
  unfolding io_ok_def by blast

lemma io_ok_fact: "(F \<Longrightarrow> io_ok P m Q) \<Longrightarrow> io_ok (\<lambda>d. F \<and> P d) m Q"
  unfolding io_ok_def by blast

lemma io_ok_seq_Nil: "io_ok P (io_seq []) (\<lambda>_. P)"
  by (simp add: io_ok_ret)

lemma io_ok_seq_Cons:
  "io_ok P m (\<lambda>_. R) \<Longrightarrow> io_ok R (io_seq ms) Q \<Longrightarrow> io_ok P (io_seq (m # ms)) Q"
  unfolding io_seq.simps by (rule io_ok_bind)

lemma io_ok_seq_append:
  "io_ok P (io_seq ms) (\<lambda>_. R) \<Longrightarrow> io_ok R (io_seq ms') Q \<Longrightarrow> io_ok P (io_seq (ms @ ms')) Q"
proof (induction ms arbitrary: P)
  case Nil
  then show ?case by (auto simp: io_ok_def io_ret_def)
next
  case (Cons m ms)
  let ?M = "\<lambda>_ d. \<exists>d'. io_seq ms d = Inr ((), d') \<and> R d'"
  have "io_ok P m ?M" using Cons.prems(1) by (auto simp: io_ok_def io_bind_def bind_r_eq_Inr)
  moreover have "io_ok (?M ()) (io_seq (ms @ ms')) Q" using Cons.prems(2)
    by (intro Cons.IH) (auto simp: io_ok_def)
  ultimately show ?case by (simp add: io_ok_bind)
qed

lemma io_ok_skip: "io_ok P m (\<lambda>_. Q) \<Longrightarrow> io_ok P (io_skip m) (\<lambda>_. Q)"
  unfolding io_skip_def by (erule io_ok_bind) (simp add: io_ok_ret)

lemma io_ok_not: "io_ok P m (\<lambda>b d. b = (\<not> v) \<and> Q d) \<Longrightarrow> io_ok P (io_not m) (\<lambda>b d. b = v \<and> Q d)"
  unfolding io_not_def by (erule io_ok_bind) (auto intro: io_ok_ret)

lemma io_ok_assert: "io_ok P m (\<lambda>b d. b = True \<and> Q d) \<Longrightarrow> io_ok P (io_assert m) (\<lambda>_. Q)"
  unfolding io_assert_def by (erule io_ok_bind) (auto simp: io_ok_def io_res_def)

text \<open>
  \<open>io_may E P m Q\<close> is the weaker statement for a program that may also end in one of the faults \<open>E\<close>.
\<close>

definition io_may :: "fault set \<Rightarrow> ('d \<Rightarrow> bool) \<Rightarrow> ('d, 'a) io \<Rightarrow> ('a \<Rightarrow> 'd \<Rightarrow> bool) \<Rightarrow> bool" where
  "io_may E P m Q \<longleftrightarrow> (\<forall>d. P d \<longrightarrow> (\<exists>e \<in> E. m d = Inl e) \<or> (\<exists>x d'. m d = Inr (x, d') \<and> Q x d'))"

lemma io_may_ok: "io_ok P m Q \<Longrightarrow> io_may E P m Q"
  by (auto simp: io_may_def io_ok_def)

lemma io_may_bind:
  assumes "io_may E P m R" "\<And>x. io_may E (R x) (f x) Q"
  shows "io_may E P (io_bind m f) Q"
  unfolding io_may_def
proof (intro allI impI)
  fix d assume "P d"
  then consider e where "e \<in> E" "m d = Inl e" | x d' where "m d = Inr (x, d')" "R x d'"
    using assms(1) unfolding io_may_def by blast
  then show "(\<exists>e \<in> E. io_bind m f d = Inl e) \<or> (\<exists>x d'. io_bind m f d = Inr (x, d') \<and> Q x d')"
  proof cases
    case 1
    then show ?thesis by (auto simp: io_bind_def)
  next
    case 2
    then show ?thesis using assms(2) [of x] unfolding io_may_def io_bind_def by simp
  qed
qed

lemma io_may_seq_Cons:
  "io_may E P m (\<lambda>_. R) \<Longrightarrow> io_may E R (io_seq ms) Q \<Longrightarrow> io_may E P (io_seq (m # ms)) Q"
  unfolding io_seq.simps by (rule io_may_bind)

lemma io_may_seq_Nil: "io_may E P (io_seq []) (\<lambda>_. P)"
  by (rule io_may_ok [OF io_ok_seq_Nil])

lemma io_may_seq_append:
  "io_ok P (io_seq ms) (\<lambda>_. R) \<Longrightarrow> io_may E R (io_seq ms') Q \<Longrightarrow> io_may E P (io_seq (ms @ ms')) Q"
proof (induction ms arbitrary: P)
  case Nil
  then show ?case by (fastforce simp: io_ok_def io_may_def io_ret_def)
next
  case (Cons m ms)
  let ?M = "\<lambda>_ d. \<exists>d'. io_seq ms d = Inr ((), d') \<and> R d'"
  have "io_ok P m ?M" using Cons.prems(1) by (auto simp: io_ok_def io_bind_def bind_r_eq_Inr)
  moreover have "io_may E (?M ()) (io_seq (ms @ ms')) Q" using Cons.prems(2)
    by (intro Cons.IH) (auto simp: io_ok_def)
  ultimately show ?case unfolding append_Cons by (intro io_may_seq_Cons [OF io_may_ok])
qed

lemma io_may_assert: "io_ok P m (\<lambda>b d. b \<longrightarrow> Q d) \<Longrightarrow> io_may {AssertFail} P (io_assert m) (\<lambda>_. Q)"
  unfolding io_assert_def
  by (rule io_may_bind [OF io_may_ok]) (auto simp: io_may_def io_res_def assert_r_def)

lemma io_may_post: "io_may E P m Q' \<Longrightarrow> (\<And>x d. Q' x d \<Longrightarrow> Q x d) \<Longrightarrow> io_may E P m Q"
  unfolding io_may_def by blast

lemma io_may_pre: "io_may E P' m Q \<Longrightarrow> (\<And>d. P d \<Longrightarrow> P' d) \<Longrightarrow> io_may E P m Q"
  unfolding io_may_def by blast

lemma io_ok_res: "r = Inr x \<Longrightarrow> io_ok P (io_res r) (\<lambda>y d. y = x \<and> P d)"
  by (auto simp: io_ok_def io_res_def)

section \<open>Devices\<close>

text \<open>
  \<open>hw_polls\<close> bounds the number of rounds of a loop that waits for a device: a loop that is still
  waiting after so many rounds counts as one that never ends. The bus is named by its chip-select
  number, the only field of \<open>spi_t\<close> that the code of the radios looks at.
\<close>

record 'd hw =
  spi_n_transfer :: "nat \<Rightarrow> u8 list \<Rightarrow> 'd \<Rightarrow> u8 list \<times> 'd"
  spi_n_init :: "nat \<Rightarrow> nat \<Rightarrow> 'd \<Rightarrow> nat \<times> 'd"
  pulldown :: "nat \<Rightarrow> 'd \<Rightarrow> 'd"
  GET32 :: "u32 \<Rightarrow> 'd \<Rightarrow> u32 \<times> 'd"
  PUT32 :: "u32 \<Rightarrow> u32 \<Rightarrow> 'd \<Rightarrow> 'd"
  hw_polls :: nat

definition io_get32 :: "'d hw \<Rightarrow> u32 \<Rightarrow> ('d, u32) io" where
  "io_get32 hw a = (\<lambda>d. Inr (GET32 hw a d))"

definition io_put32 :: "'d hw \<Rightarrow> u32 \<Rightarrow> u32 \<Rightarrow> ('d, unit) io" where
  "io_put32 hw a v = (\<lambda>d. Inr ((), PUT32 hw a v d))"

definition gpio_set_pulldown :: "'d hw \<Rightarrow> nat \<Rightarrow> ('d, unit) io" where
  "gpio_set_pulldown hw pin = (\<lambda>d. Inr ((), pulldown hw pin d))"

section \<open>Pins\<close>

definition GPIO_BASE :: u32 where "GPIO_BASE = 0x20200000"
definition gpio_set0 :: u32 where "gpio_set0 = GPIO_BASE + 0x1C"
definition gpio_clr0 :: u32 where "gpio_clr0 = GPIO_BASE + 0x28"
definition gpio_lev0 :: u32 where "gpio_lev0 = GPIO_BASE + 0x34"
definition GPIO_EDS0 :: u32 where "GPIO_EDS0 = GPIO_BASE + 0x40"
definition GPIO_REN0 :: u32 where "GPIO_REN0 = GPIO_BASE + 0x4C"
definition GPIO_FEN0 :: u32 where "GPIO_FEN0 = GPIO_BASE + 0x58"
definition IRQ_PENDING_2 :: u32 where "IRQ_PENDING_2 = 0x2000B200 + 0x8"
definition IRQ_ENABLE_2 :: u32 where "IRQ_ENABLE_2 = 0x2000B200 + 0x14"

definition bad_pin :: "nat \<Rightarrow> bool" where
  "bad_pin pin \<longleftrightarrow> pin \<ge> 32 \<and> pin \<noteq> 47"

definition gpio_set_function :: "'d hw \<Rightarrow> nat \<Rightarrow> u32 \<Rightarrow> ('d, unit) io" where
  "gpio_set_function hw pin func =
     (if bad_pin pin \<or> func > 7 then io_ret ()
      else let addr = GPIO_BASE + of_nat (pin div 10) * 4;
               offset = (pin mod 10) * 3
           in io_bind (io_get32 hw addr) (\<lambda>x.
              io_put32 hw addr ((x AND NOT (push_bit offset 7)) OR push_bit offset func)))"

definition gpio_set_output :: "'d hw \<Rightarrow> nat \<Rightarrow> ('d, unit) io" where
  "gpio_set_output hw pin = gpio_set_function hw pin 1"

definition gpio_set_input :: "'d hw \<Rightarrow> nat \<Rightarrow> ('d, unit) io" where
  "gpio_set_input hw pin = gpio_set_function hw pin 0"

definition gpio_set_on :: "'d hw \<Rightarrow> nat \<Rightarrow> ('d, unit) io" where
  "gpio_set_on hw pin = (if bad_pin pin then io_ret () else io_put32 hw gpio_set0 (push_bit pin 1))"

definition gpio_set_off :: "'d hw \<Rightarrow> nat \<Rightarrow> ('d, unit) io" where
  "gpio_set_off hw pin = (if bad_pin pin then io_ret () else io_put32 hw gpio_clr0 (push_bit pin 1))"

definition gpio_write :: "'d hw \<Rightarrow> nat \<Rightarrow> bool \<Rightarrow> ('d, unit) io" where
  "gpio_write hw pin v = (if v then gpio_set_on hw pin else gpio_set_off hw pin)"

text \<open>The level of a pin; -1 for a pin that does not exist.\<close>

definition gpio_read :: "'d hw \<Rightarrow> nat \<Rightarrow> ('d, int) io" where
  "gpio_read hw pin =
     (if bad_pin pin then io_ret (- 1)
      else io_bind (io_get32 hw gpio_lev0) (\<lambda>x. io_ret (if x AND push_bit pin 1 \<noteq> 0 then 1 else 0)))"

definition gpio_has_interrupt :: "'d hw \<Rightarrow> ('d, u32) io" where
  "gpio_has_interrupt hw = io_bind (io_get32 hw IRQ_PENDING_2) (\<lambda>x. io_ret (drop_bit 17 x AND 1))"

definition gpio_int_rising_edge :: "'d hw \<Rightarrow> nat \<Rightarrow> ('d, unit) io" where
  "gpio_int_rising_edge hw pin =
     (if pin \<ge> 32 then io_ret ()
      else io_bind (io_get32 hw GPIO_REN0) (\<lambda>x.
           io_bind (io_put32 hw GPIO_REN0 (x OR push_bit pin 1)) (\<lambda>_.
           io_put32 hw IRQ_ENABLE_2 0x20000)))"

definition gpio_int_falling_edge :: "'d hw \<Rightarrow> nat \<Rightarrow> ('d, unit) io" where
  "gpio_int_falling_edge hw pin =
     (if pin \<ge> 32 then io_ret ()
      else io_bind (io_get32 hw GPIO_FEN0) (\<lambda>x.
           io_bind (io_put32 hw GPIO_FEN0 (x OR push_bit pin 1)) (\<lambda>_.
           io_put32 hw IRQ_ENABLE_2 0x20000)))"

definition gpio_event_detected :: "'d hw \<Rightarrow> nat \<Rightarrow> ('d, bool) io" where
  "gpio_event_detected hw pin =
     (if pin \<ge> 32 then io_ret False
      else io_bind (io_get32 hw GPIO_EDS0) (\<lambda>x. io_ret (drop_bit pin x AND 1 \<noteq> 0)))"

definition gpio_event_clear :: "'d hw \<Rightarrow> nat \<Rightarrow> ('d, unit) io" where
  "gpio_event_clear hw pin =
     (if pin \<ge> 32 then io_ret () else io_put32 hw GPIO_EDS0 (push_bit pin 1))"

section \<open>Time\<close>

definition timer_addr :: u32 where "timer_addr = 0x20003004"

definition timer_get_usec :: "'d hw \<Rightarrow> ('d, u32) io" where
  "timer_get_usec hw = io_get32 hw timer_addr"

fun delay_loop :: "'d hw \<Rightarrow> u32 \<Rightarrow> u32 \<Rightarrow> nat \<Rightarrow> ('d, unit) io" where
  "delay_loop hw s us 0 = io_res (Inl Diverges)"
| "delay_loop hw s us (Suc n) =
     io_bind (timer_get_usec hw) (\<lambda>e. if e - s \<ge> us then io_ret () else delay_loop hw s us n)"

definition delay_us :: "'d hw \<Rightarrow> u32 \<Rightarrow> ('d, unit) io" where
  "delay_us hw us = io_bind (timer_get_usec hw) (\<lambda>s. delay_loop hw s us (hw_polls hw))"

definition delay_ms :: "'d hw \<Rightarrow> u32 \<Rightarrow> ('d, unit) io" where
  "delay_ms hw ms = delay_us hw (ms * 1000)"

definition delay_sec :: "'d hw \<Rightarrow> u32 \<Rightarrow> ('d, unit) io" where
  "delay_sec hw sec = delay_ms hw (sec * 1000)"

record timeout =
  time_last :: u32
  time_usecs :: "64 word"

definition timeout_start :: "'d hw \<Rightarrow> ('d, timeout) io" where
  "timeout_start hw = io_bind (timer_get_usec hw) (\<lambda>now. io_ret \<lparr>time_last = now, time_usecs = 0\<rparr>)"

definition timeout_get_usec :: "'d hw \<Rightarrow> timeout \<Rightarrow> ('d, 64 word \<times> timeout) io" where
  "timeout_get_usec hw t =
     io_bind (timer_get_usec hw) (\<lambda>now.
       let t' = \<lparr>time_last = now, time_usecs = time_usecs t + ucast (now - time_last t)\<rparr>
       in io_ret (time_usecs t', t'))"

definition timeout_usec :: "'d hw \<Rightarrow> timeout \<Rightarrow> 64 word \<Rightarrow> ('d, bool \<times> timeout) io" where
  "timeout_usec hw t max_usec =
     io_bind (timeout_get_usec hw t) (\<lambda>(u, t'). io_ret (u \<ge> max_usec, t'))"

definition timeout_msec :: "'d hw \<Rightarrow> timeout \<Rightarrow> 64 word \<Rightarrow> ('d, bool \<times> timeout) io" where
  "timeout_msec hw t max_msec = timeout_usec hw t (max_msec * 1000)"

definition timeout_sec :: "'d hw \<Rightarrow> timeout \<Rightarrow> 64 word \<Rightarrow> ('d, bool \<times> timeout) io" where
  "timeout_sec hw t max_sec = timeout_msec hw t (max_sec * 1000)"

text \<open>A timeout started at time \<open>s\<close> and last looked at at time \<open>l\<close>.\<close>

definition tracks :: "timeout \<Rightarrow> nat \<Rightarrow> nat \<Rightarrow> bool" where
  "tracks t s l \<longleftrightarrow> s \<le> l \<and> time_last t = of_nat l \<and> time_usecs t = of_nat (l - s)"

lemma elapsed: "t \<le> t' \<Longrightarrow> t' < t + 4294967296 \<Longrightarrow> unat (of_nat t' - of_nat t :: u32) = t' - t"
  using unat_of_nat_u32 [of "t' - t"] by simp

text \<open>
  What the loops rely on: the counter shows the microseconds \<open>now\<close> modulo \<open>2 ^ 32\<close>, it moves on
  from one read to the next and two reads in a row are less than \<open>2 ^ 31\<close> microseconds apart. While
  the time passes the rest of the devices may change in the way that \<open>evo\<close> allows. The bound on the
  rounds exceeds the longest delay of the sources, 100 milliseconds.
\<close>

locale usec_clock =
  fixes hw :: "'d hw" and now :: "'d \<Rightarrow> nat" and evo :: "'d \<Rightarrow> 'd \<Rightarrow> bool"
  assumes evo_refl: "evo d d"
    and evo_trans: "evo d d' \<Longrightarrow> evo d' d'' \<Longrightarrow> evo d d''"
    and timer: "GET32 hw timer_addr d = (v, d') \<Longrightarrow>
      v = of_nat (now d') \<and> now d < now d' \<and> now d' < now d + 2147483648 \<and> evo d d'"
    and polls: "1048576 \<le> hw_polls hw"
begin

lemma usec_run:
  "\<exists>d'. timer_get_usec hw d = Inr (of_nat (now d'), d') \<and> now d < now d' \<and>
        now d' < now d + 2147483648 \<and> evo d d'"
proof (cases "GET32 hw timer_addr d")
  case (Pair v d')
  with timer [OF Pair] show ?thesis by (auto simp: timer_get_usec_def io_get32_def)
qed

lemma delay_loop_run:
  assumes "t \<le> now d" "now d \<le> t + unat us" "unat us < 2147483648" "t + unat us - now d < n"
  shows "\<exists>d'. delay_loop hw (of_nat t) us n d = Inr ((), d') \<and> evo d d' \<and> t + unat us \<le> now d'"
  using assms(1,2,4)
proof (induction n arbitrary: d)
  case (Suc n)
  obtain d1 where d1: "timer_get_usec hw d = Inr (of_nat (now d1), d1)" "now d < now d1"
      "now d1 < now d + 2147483648" "evo d d1" using usec_run by blast
  have e: "unat (of_nat (now d1) - of_nat t :: u32) = now d1 - t"
    using Suc.prems d1 assms(3) by (intro elapsed) auto
  show ?case
  proof (cases "t + unat us \<le> now d1")
    case True
    then show ?thesis using d1 e
      by (auto simp: io_bind_def io_ret_def word_le_nat_alt)
  next
    case False
    then have "t + unat us - now d1 < n" using Suc.prems(3) d1(2) by linarith
    then obtain d' where "delay_loop hw (of_nat t) us n d1 = Inr ((), d')" "evo d1 d'"
        "t + unat us \<le> now d'"
      using Suc.IH [of d1] Suc.prems(1) d1(2) False by auto
    moreover have "\<not> us \<le> of_nat (now d1) - of_nat t" using False e Suc.prems(1) d1(2)
      by (simp add: word_le_nat_alt)
    ultimately show ?thesis using d1 by (auto simp: io_bind_def intro: evo_trans)
  qed
qed simp

text \<open>A delay ends and lasts at least as long as asked for, also when the counter wraps meanwhile.\<close>

lemma delay_run:
  assumes "unat us < 1048576"
  shows "\<exists>d'. delay_us hw us d = Inr ((), d') \<and> evo d d' \<and> now d + unat us \<le> now d'"
proof -
  obtain d1 where d1: "timer_get_usec hw d = Inr (of_nat (now d1), d1)" "now d < now d1" "evo d d1"
    using usec_run by blast
  obtain d' where "delay_loop hw (of_nat (now d1)) us (hw_polls hw) d1 = Inr ((), d')" "evo d1 d'"
      "now d1 + unat us \<le> now d'"
    using delay_loop_run [of "now d1" d1 us "hw_polls hw"] assms polls by auto
  then show ?thesis using d1 by (auto simp: delay_us_def io_bind_def intro: evo_trans)
qed

text \<open>
  The 64-bit count of a timeout is the time since its start, as long as it is polled more often than
  the counter wraps.
\<close>

lemma timeout_start_run:
  "\<exists>t d'. timeout_start hw d = Inr (t, d') \<and> tracks t (now d') (now d') \<and> evo d d' \<and> now d < now d'"
  using usec_run [of d] by (auto simp: timeout_start_def io_bind_def io_ret_def tracks_def)

lemma timeout_usec_run:
  assumes "tracks t s l" "l \<le> now d" "now d < l + 2147483648"
  shows "\<exists>t' d'. timeout_usec hw t m d = Inr ((of_nat (now d' - s) \<ge> m, t'), d') \<and>
    tracks t' s (now d') \<and> evo d d' \<and> now d < now d' \<and> now d' < now d + 2147483648"
proof -
  obtain d1 where d1: "timer_get_usec hw d = Inr (of_nat (now d1), d1)" "now d < now d1"
      "now d1 < now d + 2147483648" "evo d d1" using usec_run by blast
  have "unat (of_nat (now d1) - of_nat l :: u32) = now d1 - l"
    using assms d1 by (intro elapsed) auto
  then have u: "ucast (of_nat (now d1) - of_nat l :: u32) = (of_nat (now d1 - l) :: 64 word)"
    by (metis of_nat_unat)
  have "(of_nat (l - s) + of_nat (now d1 - l) :: 64 word) = of_nat (now d1 - s)"
    using assms d1 by (simp flip: of_nat_add) (simp add: tracks_def)
  then show ?thesis using assms(1) d1 assms(2)
    by (auto simp: timeout_usec_def timeout_get_usec_def io_bind_def io_ret_def tracks_def Let_def u)
qed

end

end
