(* ===== verification/Nrf_Hw.thy ===== *)
theory Nrf_Hw
  imports Device_Io Circular
begin

text \<open>
  The radio: its structures and settings from \<open>libpi/include/nrf.h\<close> and
  \<open>nrf-default-values.h\<close>, and the access to the registers and FIFOs of the chip over the SPI bus from
  \<open>network/nrf-hw-support.c\<close> and \<open>libpi/include/nrf-hw-support.h\<close>. Pin numbers, packet sizes and
  identifiers, which the code keeps in bytes, are natural numbers here. The dump of the registers and
  the statistics go to the console only and are left out, as is \<open>nrf_dump\<close> before the panic of a
  failed \<open>nrf_assert\<close>.
\<close>

section \<open>Structures\<close>

record nrf_conf =
  spi_chip :: nat
  ce_pin :: nat
  int_pin :: nat
  conf_nbytes :: nat
  conf_channel :: nat
  conf_id :: nat

record nrf =
  config :: nrf_conf
  spi :: nat
  rxaddr :: "u32 list"
  nrf_id :: nat
  tx_sent :: u32
  recvq :: cq
  start_usec :: u32
  tot_sent_msgs :: u32
  tot_sent_bytes :: u32
  tot_retrans :: u32
  tot_lost :: u32
  tot_recv_msgs :: u32
  tot_recv_bytes :: u32
  n_conns :: u32

text \<open>\<open>kmalloc\<close> returns 0-filled memory; the structure is then set up field by field.\<close>

definition nrf_kmalloc :: nrf where
  "nrf_kmalloc =
     \<lparr>config = \<lparr>spi_chip = 0, ce_pin = 0, int_pin = 0, conf_nbytes = 0, conf_channel = 0, conf_id = 0\<rparr>,
      spi = 0, rxaddr = replicate 6 0, nrf_id = 0, tx_sent = 0,
      recvq = \<lparr>c_buf = replicate 8192 0, cq_fence = 0, cq_head = 0, cq_tail = 0, cq_overflow = 0,
               cq_errors_fatal_p = False\<rparr>,
      start_usec = 0, tot_sent_msgs = 0, tot_sent_bytes = 0, tot_retrans = 0, tot_lost = 0,
      tot_recv_msgs = 0, tot_recv_bytes = 0, n_conns = 0\<rparr>"

definition nrf_default_channel :: nat where "nrf_default_channel = 113"
definition nrf_default_data_rate :: u8 where "nrf_default_data_rate = push_bit 3 1"
definition nrf_default_db :: u8 where "nrf_default_db = push_bit 1 3"
definition nrf_default_retran_attempts :: u8 where "nrf_default_retran_attempts = 6"
definition nrf_default_retran_delay :: nat where "nrf_default_retran_delay = 2000"
definition nrf_default_addr_nbytes :: nat where "nrf_default_addr_nbytes = 3"

definition nrf_legal_Mhz :: "nat \<Rightarrow> bool" where
  "nrf_legal_Mhz d \<longleftrightarrow> d < 256"

definition nrf_legal_nbytes :: "nat \<Rightarrow> bool" where
  "nrf_legal_nbytes nbytes \<longleftrightarrow> nbytes > 0 \<and> nbytes \<le> 32"

definition nrf_conf_mk :: "nat \<Rightarrow> nat \<Rightarrow> nrf_conf res" where
  "nrf_conf_mk nbytes ch =
     bind_r (assert_r (nrf_legal_Mhz ch)) (\<lambda>_.
     bind_r (assert_r (nrf_legal_nbytes nbytes)) (\<lambda>_.
       Inr \<lparr>spi_chip = 0, ce_pin = 0, int_pin = 0, conf_nbytes = nbytes, conf_channel = ch, conf_id = 0\<rparr>))"

definition parthiv_left :: "nat \<Rightarrow> nat \<Rightarrow> nrf_conf res" where
  "parthiv_left nbytes ch = bind_r (nrf_conf_mk nbytes ch) (\<lambda>c.
     Inr (c\<lparr>spi_chip := 0, ce_pin := 6, int_pin := 22, conf_id := 0\<rparr>))"

definition parthiv_right :: "nat \<Rightarrow> nat \<Rightarrow> nrf_conf res" where
  "parthiv_right nbytes ch = bind_r (nrf_conf_mk nbytes ch) (\<lambda>c.
     Inr (c\<lparr>spi_chip := 1, ce_pin := 5, int_pin := 23, conf_id := 1\<rparr>))"

definition client_conf :: "nat \<Rightarrow> nrf_conf res" where
  "client_conf nbytes = parthiv_right nbytes nrf_default_channel"

definition server_conf :: "nat \<Rightarrow> nrf_conf res" where
  "server_conf nbytes = parthiv_left nbytes nrf_default_channel"

definition nrf_stat_start :: "'d hw \<Rightarrow> nrf \<Rightarrow> ('d, nrf) io" where
  "nrf_stat_start hw nic = io_bind (timer_get_usec hw) (\<lambda>u.
     io_ret (nic\<lparr>start_usec := u, tot_sent_msgs := 0, tot_sent_bytes := 0, tot_retrans := 0,
                 tot_lost := 0, tot_recv_msgs := 0, tot_recv_bytes := 0\<rparr>))"

text \<open>Whole kilobytes per second and the rest; the time is divided down to milliseconds first.\<close>

definition kbytes_per_sec :: "u32 \<Rightarrow> u32 \<Rightarrow> (u32 \<times> u32) res" where
  "kbytes_per_sec tot_bytes tot_usec =
     bind_r (udiv_r (1000 * tot_bytes) (tot_usec div 1000)) (\<lambda>b. Inr (b div 1000, b mod 1000))"

section \<open>Registers and commands\<close>

definition NRF_CONFIG :: u8 where "NRF_CONFIG = 0x0"
definition NRF_EN_AA :: u8 where "NRF_EN_AA = 0x1"
definition NRF_EN_RXADDR :: u8 where "NRF_EN_RXADDR = 0x2"
definition NRF_SETUP_AW :: u8 where "NRF_SETUP_AW = 0x3"
definition NRF_SETUP_RETR :: u8 where "NRF_SETUP_RETR = 0x4"
definition NRF_RF_CH :: u8 where "NRF_RF_CH = 0x5"
definition NRF_RF_SETUP :: u8 where "NRF_RF_SETUP = 0x6"
definition NRF_STATUS :: u8 where "NRF_STATUS = 0x7"
definition NRF_RX_ADDR_P0 :: u8 where "NRF_RX_ADDR_P0 = 0xa"
definition NRF_RX_ADDR_P1 :: u8 where "NRF_RX_ADDR_P1 = 0xb"
definition NRF_TX_ADDR :: u8 where "NRF_TX_ADDR = 0x10"
definition NRF_RX_PW_P0 :: u8 where "NRF_RX_PW_P0 = 0x11"
definition NRF_RX_PW_P1 :: u8 where "NRF_RX_PW_P1 = 0x12"
definition NRF_RX_PW_P2 :: u8 where "NRF_RX_PW_P2 = 0x13"
definition NRF_RX_PW_P3 :: u8 where "NRF_RX_PW_P3 = 0x14"
definition NRF_RX_PW_P4 :: u8 where "NRF_RX_PW_P4 = 0x15"
definition NRF_RX_PW_P5 :: u8 where "NRF_RX_PW_P5 = 0x16"
definition NRF_FIFO_STATUS :: u8 where "NRF_FIFO_STATUS = 0x17"
definition NRF_DYNPD :: u8 where "NRF_DYNPD = 0x1c"
definition NRF_FEATURE :: u8 where "NRF_FEATURE = 0x1d"

definition NRF_WR_REG :: u8 where "NRF_WR_REG = 0x20"
definition NRF_R_RX_PAYLOAD :: u8 where "NRF_R_RX_PAYLOAD = 0x61"
definition NRF_W_TX_PAYLOAD :: u8 where "NRF_W_TX_PAYLOAD = 0xa0"
definition W_TX_PAYLOAD_NO_ACK :: u8 where "W_TX_PAYLOAD_NO_ACK = 0xb0"
definition FLUSH_TX :: u8 where "FLUSH_TX = 0xe1"
definition FLUSH_RX :: u8 where "FLUSH_RX = 0xe2"
definition NRF_NOP :: u8 where "NRF_NOP = 0xff"

lemmas nrf_regs = NRF_CONFIG_def NRF_EN_AA_def NRF_EN_RXADDR_def NRF_SETUP_AW_def NRF_SETUP_RETR_def
  NRF_RF_CH_def NRF_RF_SETUP_def NRF_STATUS_def NRF_RX_ADDR_P0_def NRF_RX_ADDR_P1_def NRF_TX_ADDR_def
  NRF_RX_PW_P0_def NRF_RX_PW_P1_def NRF_RX_PW_P2_def NRF_RX_PW_P3_def NRF_RX_PW_P4_def
  NRF_RX_PW_P5_def NRF_FIFO_STATUS_def NRF_DYNPD_def NRF_FEATURE_def

lemmas nrf_cmds = NRF_WR_REG_def NRF_R_RX_PAYLOAD_def NRF_W_TX_PAYLOAD_def W_TX_PAYLOAD_NO_ACK_def
  FLUSH_TX_def FLUSH_RX_def NRF_NOP_def

section \<open>Access over the bus\<close>

text \<open>
  One transfer: the bytes \<open>tx\<close> go out while as many bytes come in. The calls that would mask the
  interrupts around it are commented out in the source; the model is that of a transfer that is not
  interrupted by another user of the bus.
\<close>

definition wrap_spi_n_transfer :: "'d hw \<Rightarrow> nrf \<Rightarrow> u8 list \<Rightarrow> ('d, u8 list) io" where
  "wrap_spi_n_transfer hw n tx = (\<lambda>d. Inr (spi_n_transfer hw (spi n) tx d))"

definition nrf_get8 :: "'d hw \<Rightarrow> nrf \<Rightarrow> u8 \<Rightarrow> ('d, u8) io" where
  "nrf_get8 hw n reg = io_bind (wrap_spi_n_transfer hw n [reg, NRF_NOP]) (\<lambda>rx. io_ret (rx ! 1))"

definition nrf_put8 :: "'d hw \<Rightarrow> nrf \<Rightarrow> u8 \<Rightarrow> u8 \<Rightarrow> ('d, u8) io" where
  "nrf_put8 hw n reg v =
     io_bind (wrap_spi_n_transfer hw n [NRF_WR_REG OR reg, v]) (\<lambda>rx. io_ret (rx ! 0))"

definition nrf_put8_chk :: "'d hw \<Rightarrow> nrf \<Rightarrow> u8 \<Rightarrow> u8 \<Rightarrow> ('d, u8) io" where
  "nrf_put8_chk hw n reg v =
     io_bind (nrf_put8 hw n reg v) (\<lambda>status.
     io_bind (nrf_get8 hw n reg) (\<lambda>x.
       if x \<noteq> v then io_res (Inl (Panic ''reg: got, expected'')) else io_ret status))"

text \<open>
  The local buffers have 64 bytes and hold the command byte and the data; the assertion lets 64 bytes
  of data pass, which do not fit.
\<close>

definition fits_buffer :: "nat \<Rightarrow> unit res" where
  "fits_buffer nbytes =
     bind_r (assert_r (nbytes < 64 + 1)) (\<lambda>_.
     bind_r (assert_r (nbytes > 0)) (\<lambda>_.
       if nbytes + 1 \<le> 64 then Inr () else Inl OutOfBounds))"

definition nrf_getn :: "'d hw \<Rightarrow> nrf \<Rightarrow> u8 \<Rightarrow> nat \<Rightarrow> ('d, u8 \<times> u8 list) io" where
  "nrf_getn hw n cmd nbytes =
     io_bind (io_res (fits_buffer nbytes)) (\<lambda>_.
     io_bind (wrap_spi_n_transfer hw n (cmd # replicate nbytes NRF_NOP)) (\<lambda>rx.
       io_ret (rx ! 0, take nbytes (drop 1 rx))))"

definition nrf_putn :: "'d hw \<Rightarrow> nrf \<Rightarrow> u8 \<Rightarrow> u8 list \<Rightarrow> ('d, u8) io" where
  "nrf_putn hw n cmd bytes =
     io_bind (io_res (fits_buffer (length bytes))) (\<lambda>_.
     io_bind (wrap_spi_n_transfer hw n (cmd # bytes)) (\<lambda>rx. io_ret (rx ! 0)))"

definition nrf_or8 :: "'d hw \<Rightarrow> nrf \<Rightarrow> u8 \<Rightarrow> u8 \<Rightarrow> ('d, u8) io" where
  "nrf_or8 hw n reg v = io_bind (nrf_get8 hw n reg) (\<lambda>x. nrf_put8 hw n reg (x OR v))"

definition nrf_bit_clr :: "'d hw \<Rightarrow> nrf \<Rightarrow> u8 \<Rightarrow> nat \<Rightarrow> ('d, unit) io" where
  "nrf_bit_clr hw n reg b =
     io_bind (io_res (assert_r (b < 8))) (\<lambda>_.
     io_bind (nrf_get8 hw n reg) (\<lambda>x.
     io_bind (io_res (bit_clr (ucast x) b)) (\<lambda>y.
       io_skip (nrf_put8_chk hw n reg (ucast y)))))"

definition nrf_bit_set :: "'d hw \<Rightarrow> nrf \<Rightarrow> u8 \<Rightarrow> nat \<Rightarrow> ('d, unit) io" where
  "nrf_bit_set hw n reg b =
     io_bind (io_res (assert_r (b < 8))) (\<lambda>_.
     io_bind (nrf_get8 hw n reg) (\<lambda>x.
     io_bind (io_res (bit_set (ucast x) b)) (\<lambda>y.
       io_skip (nrf_put8_chk hw n reg (ucast y)))))"

definition nrf_bit_isset :: "'d hw \<Rightarrow> nrf \<Rightarrow> u8 \<Rightarrow> nat \<Rightarrow> ('d, bool) io" where
  "nrf_bit_isset hw n reg b =
     io_bind (io_res (assert_r (b < 8))) (\<lambda>_.
     io_bind (nrf_get8 hw n reg) (\<lambda>x.
     io_bind (io_res (bit_is_on (ucast x) b)) (\<lambda>v. io_ret (v = 1))))"

text \<open>The check of \<open>nrf_assert\<close>; its message is the text of the condition.\<close>

definition nrf_opt_assert :: "('d, bool) io \<Rightarrow> ('d, unit) io" where
  "nrf_opt_assert m = io_bind m (\<lambda>b. if b then io_ret () else io_res (Inl (Panic ''nrf_assert'')))"

definition nrf_get_addr :: "'d hw \<Rightarrow> nrf \<Rightarrow> u8 \<Rightarrow> nat \<Rightarrow> ('d, u32) io" where
  "nrf_get_addr hw n reg nbytes =
     io_bind (io_res (assert_r (nbytes = 4 \<or> nbytes = 3))) (\<lambda>_.
     io_bind (nrf_getn hw n reg nbytes) (\<lambda>(_, bs).
       io_ret (le32_at (bs @ replicate (4 - nbytes) 0) 0)))"

definition nrf_set_addr :: "'d hw \<Rightarrow> nrf \<Rightarrow> u8 \<Rightarrow> u32 \<Rightarrow> nat \<Rightarrow> ('d, unit) io" where
  "nrf_set_addr hw n reg addr nbytes =
     io_bind (io_res (assert_r (nbytes = 4 \<or> nbytes = 3))) (\<lambda>_.
     io_bind (nrf_putn hw n (reg OR NRF_WR_REG) (take nbytes (le32_bytes addr))) (\<lambda>_.
       nrf_opt_assert (io_bind (nrf_get_addr hw n reg nbytes) (\<lambda>a. io_ret (a = addr)))))"

definition nrf_tx_flush :: "'d hw \<Rightarrow> nrf \<Rightarrow> ('d, u8) io" where
  "nrf_tx_flush hw n = io_bind (wrap_spi_n_transfer hw n [FLUSH_TX]) (\<lambda>rx. io_ret (rx ! 0))"

definition nrf_rx_flush :: "'d hw \<Rightarrow> nrf \<Rightarrow> ('d, u8) io" where
  "nrf_rx_flush hw n = io_bind (wrap_spi_n_transfer hw n [FLUSH_RX]) (\<lambda>rx. io_ret (rx ! 0))"

definition pin_init :: "'d hw \<Rightarrow> nat \<Rightarrow> nat \<Rightarrow> ('d, nat) io" where
  "pin_init hw ce chip =
     io_bind (delay_ms hw 100) (\<lambda>_.
     io_bind (io_res (assert_r (chip = 0 \<or> chip = 1))) (\<lambda>_.
     io_bind (\<lambda>d. Inr (spi_n_init hw chip 20 d)) (\<lambda>s.
     io_bind (io_res (assert_r (s = chip))) (\<lambda>_.
     io_bind (io_seq [delay_ms hw 100, gpio_set_output hw ce, gpio_set_pulldown hw ce,
                      gpio_set_off hw ce]) (\<lambda>_. io_ret s)))))"

section \<open>Fields of the registers\<close>

definition nrf_is_pwrup :: "'d hw \<Rightarrow> nrf \<Rightarrow> ('d, bool) io" where
  "nrf_is_pwrup hw n =
     io_bind (nrf_get8 hw n NRF_CONFIG) (\<lambda>x. io_bind (io_res (bit_is_on (ucast x) 1)) (\<lambda>v. io_ret (v \<noteq> 0)))"

definition nrf_set_pwrup_off :: "'d hw \<Rightarrow> nrf \<Rightarrow> ('d, unit) io" where
  "nrf_set_pwrup_off hw n =
     io_bind (nrf_bit_clr hw n NRF_CONFIG 1) (\<lambda>_. io_assert (io_not (nrf_is_pwrup hw n)))"

definition nrf_set_pwrup_on :: "'d hw \<Rightarrow> nrf \<Rightarrow> ('d, unit) io" where
  "nrf_set_pwrup_on hw n =
     io_bind (nrf_bit_set hw n NRF_CONFIG 1) (\<lambda>_. io_assert (nrf_is_pwrup hw n))"

definition nrf_is_rx :: "'d hw \<Rightarrow> nrf \<Rightarrow> ('d, bool) io" where
  "nrf_is_rx hw n =
     io_bind (nrf_get8 hw n NRF_CONFIG) (\<lambda>x. io_bind (io_res (bit_is_on (ucast x) 0)) (\<lambda>v. io_ret (v \<noteq> 0)))"

definition nrf_is_tx :: "'d hw \<Rightarrow> nrf \<Rightarrow> ('d, bool) io" where
  "nrf_is_tx hw n = io_not (nrf_is_rx hw n)"

definition nrf_pipe_is_acked :: "'d hw \<Rightarrow> nrf \<Rightarrow> nat \<Rightarrow> ('d, bool) io" where
  "nrf_pipe_is_acked hw n p =
     io_bind (nrf_get8 hw n NRF_EN_AA) (\<lambda>x. io_bind (io_res (bit_is_on (ucast x) p)) (\<lambda>v. io_ret (v = 1)))"

definition nrf_pipe_is_enabled :: "'d hw \<Rightarrow> nrf \<Rightarrow> nat \<Rightarrow> ('d, bool) io" where
  "nrf_pipe_is_enabled hw n p =
     io_bind (nrf_get8 hw n NRF_EN_RXADDR) (\<lambda>x. io_bind (io_res (bit_is_on (ucast x) p)) (\<lambda>v. io_ret (v = 1)))"

definition nrf_enable_rx :: "'d hw \<Rightarrow> nrf \<Rightarrow> nat \<Rightarrow> ('d, unit) io" where
  "nrf_enable_rx hw n rx =
     io_bind (io_res (assert_r (rx < 6))) (\<lambda>_.
     io_bind (nrf_get8 hw n NRF_EN_RXADDR) (\<lambda>x.
       io_skip (nrf_put8 hw n NRF_EN_RXADDR (push_bit rx 1 OR x))))"

definition nrf_disable_rx :: "'d hw \<Rightarrow> nrf \<Rightarrow> nat \<Rightarrow> ('d, unit) io" where
  "nrf_disable_rx hw n rx =
     io_bind (io_res (assert_r (rx < 6))) (\<lambda>_.
     io_bind (nrf_get8 hw n NRF_EN_RXADDR) (\<lambda>x.
       io_skip (nrf_put8 hw n NRF_EN_RXADDR (NOT (push_bit rx 1) AND x))))"

definition pipeid_empty :: "u32 \<Rightarrow> bool" where
  "pipeid_empty p \<longleftrightarrow> p = 7"

definition pipeid_get :: "u8 \<Rightarrow> u32 res" where
  "pipeid_get status = bits_get (ucast status) 1 3"

definition nrf_rx_get_pipeid :: "'d hw \<Rightarrow> nrf \<Rightarrow> ('d, u32) io" where
  "nrf_rx_get_pipeid hw n = io_bind (nrf_get8 hw n NRF_STATUS) (\<lambda>s. io_res (pipeid_get s))"

definition nrf_has_max_rt_intr :: "'d hw \<Rightarrow> nrf \<Rightarrow> ('d, bool) io" where
  "nrf_has_max_rt_intr hw n = nrf_bit_isset hw n NRF_STATUS 4"

definition nrf_rt_intr_clr :: "'d hw \<Rightarrow> nrf \<Rightarrow> ('d, unit) io" where
  "nrf_rt_intr_clr hw n = io_skip (nrf_put8 hw n NRF_STATUS (push_bit 4 1))"

definition nrf_has_tx_intr :: "'d hw \<Rightarrow> nrf \<Rightarrow> ('d, bool) io" where
  "nrf_has_tx_intr hw n = nrf_bit_isset hw n NRF_STATUS 5"

definition nrf_tx_intr_clr :: "'d hw \<Rightarrow> nrf \<Rightarrow> ('d, unit) io" where
  "nrf_tx_intr_clr hw n = io_skip (nrf_put8 hw n NRF_STATUS (push_bit 5 1))"

definition nrf_has_rx_intr :: "'d hw \<Rightarrow> nrf \<Rightarrow> ('d, bool) io" where
  "nrf_has_rx_intr hw n = nrf_bit_isset hw n NRF_STATUS 6"

definition nrf_rx_intr_clr :: "'d hw \<Rightarrow> nrf \<Rightarrow> ('d, unit) io" where
  "nrf_rx_intr_clr hw n = io_skip (nrf_put8 hw n NRF_STATUS (push_bit 6 1))"

definition nrf_rx_fifo_empty :: "'d hw \<Rightarrow> nrf \<Rightarrow> ('d, bool) io" where
  "nrf_rx_fifo_empty hw n = nrf_bit_isset hw n NRF_FIFO_STATUS 0"

definition nrf_rx_fifo_full :: "'d hw \<Rightarrow> nrf \<Rightarrow> ('d, bool) io" where
  "nrf_rx_fifo_full hw n = nrf_bit_isset hw n NRF_FIFO_STATUS 1"

definition nrf_tx_fifo_empty :: "'d hw \<Rightarrow> nrf \<Rightarrow> ('d, bool) io" where
  "nrf_tx_fifo_empty hw n = nrf_bit_isset hw n NRF_FIFO_STATUS 4"

definition nrf_tx_fifo_full :: "'d hw \<Rightarrow> nrf \<Rightarrow> ('d, bool) io" where
  "nrf_tx_fifo_full hw n = nrf_bit_isset hw n NRF_FIFO_STATUS 5"

definition nrf_rx_has_packet :: "'d hw \<Rightarrow> nrf \<Rightarrow> ('d, bool) io" where
  "nrf_rx_has_packet hw n = io_not (nrf_rx_fifo_empty hw n)"

definition nrf_ce_val :: "'d hw \<Rightarrow> nrf \<Rightarrow> ('d, int) io" where
  "nrf_ce_val hw n = gpio_read hw (ce_pin (config n))"

definition nrf_is_standbyI :: "'d hw \<Rightarrow> nrf \<Rightarrow> ('d, bool) io" where
  "nrf_is_standbyI hw n =
     io_bind (nrf_is_pwrup hw n) (\<lambda>p.
       if p then io_bind (nrf_ce_val hw n) (\<lambda>v. io_ret (v = 0)) else io_ret False)"

end
