(* ===== verification/Nrf_Chip.thy ===== *)
theory Nrf_Chip
  imports Nrf_Hw
begin

text \<open>
  The contract of the radio chip (nRF24L01+), the other side of the SPI bus: what its data sheet, to
  whose pages the comments of \<open>nrf-hw-support.h\<close> refer, says of the commands the driver sends, of the
  CE and IRQ pins and of what happens on the air between two transfers. The locale \<open>nrf_radio\<close> states
  that the devices behind \<open>hw\<close> hold such chips; the correctness of the driver is proved inside it.
  The fields \<open>rx_log\<close>, \<open>tx_log\<close> and \<open>incoming\<close> are not part of the hardware: they record the payloads that
  entered the receive FIFO, the payloads that went out with their address, and bound the number of
  payloads that are still to arrive.
\<close>

section \<open>The chip\<close>

record chip =
  regs :: "u8 \<Rightarrow> u8"
  adr :: "u8 \<Rightarrow> u8 list"
  rx_fifo :: "(nat \<times> u8 list) list"
  tx_fifo :: "(bool \<times> u8 list) list"
  rx_dr :: bool
  tx_ds :: bool
  max_rt :: bool
  ce :: bool
  fen :: bool
  event :: bool
  rx_log :: "u8 list list"
  tx_log :: "(u8 list \<times> u8 list) list"
  incoming :: nat

definition pipe_no :: "chip \<Rightarrow> u8" where
  "pipe_no c = (case rx_fifo c of [] \<Rightarrow> 7 | (p, _) # _ \<Rightarrow> of_nat p)"

definition chip_status :: "chip \<Rightarrow> u8" where
  "chip_status c = push_bit 6 (of_bool (rx_dr c)) OR push_bit 5 (of_bool (tx_ds c)) OR
     push_bit 4 (of_bool (max_rt c)) OR push_bit 1 (pipe_no c) OR of_bool (length (tx_fifo c) \<ge> 3)"

definition fifo_status :: "chip \<Rightarrow> u8" where
  "fifo_status c = push_bit 5 (of_bool (length (tx_fifo c) \<ge> 3)) OR push_bit 4 (of_bool (tx_fifo c = [])) OR
     push_bit 1 (of_bool (length (rx_fifo c) \<ge> 3)) OR of_bool (rx_fifo c = [])"

definition reg_val :: "chip \<Rightarrow> u8 \<Rightarrow> u8" where
  "reg_val c r = (if r = NRF_STATUS then chip_status c else if r = NRF_FIFO_STATUS then fifo_status c
                  else regs c r)"

definition is_adr :: "u8 \<Rightarrow> bool" where
  "is_adr r \<longleftrightarrow> r = NRF_RX_ADDR_P0 \<or> r = NRF_RX_ADDR_P1 \<or> r = NRF_TX_ADDR"

text \<open>The IRQ pin is low while an unmasked flag is set; its falling edge is latched by the Pi.\<close>

definition irq_low :: "chip \<Rightarrow> bool" where
  "irq_low c \<longleftrightarrow> rx_dr c \<and> \<not> bit (regs c NRF_CONFIG) 6 \<or> tx_ds c \<and> \<not> bit (regs c NRF_CONFIG) 5 \<or>
     max_rt c \<and> \<not> bit (regs c NRF_CONFIG) 4"

definition edge :: "chip \<Rightarrow> chip \<Rightarrow> chip" where
  "edge c c' = c'\<lparr>event := event c' \<or> fen c' \<and> \<not> irq_low c \<and> irq_low c'\<rparr>"

definition chip_write :: "chip \<Rightarrow> u8 \<Rightarrow> u8 list \<Rightarrow> chip" where
  "chip_write c r vs =
     (if is_adr r then c\<lparr>adr := (adr c)(r := put_at (adr c r) 0 vs)\<rparr>
      else if r = NRF_STATUS
      then c\<lparr>rx_dr := rx_dr c \<and> \<not> bit (hd vs) 6, tx_ds := tx_ds c \<and> \<not> bit (hd vs) 5,
             max_rt := max_rt c \<and> \<not> bit (hd vs) 4\<rparr>
      else if r = NRF_FIFO_STATUS then c
      else c\<lparr>regs := (regs c)(r := hd vs)\<rparr>)"

definition chip_next :: "chip \<Rightarrow> u8 list \<Rightarrow> chip" where
  "chip_next c tx =
     (let cmd = hd tx; args = tl tx in
      if cmd < 0x20 then c
      else if cmd < 0x40 then edge c (chip_write c (cmd - 0x20) args)
      else if cmd = 0x61 then c\<lparr>rx_fifo := tl (rx_fifo c)\<rparr>
      else if cmd = 0xa0 \<or> cmd = 0xb0
      then if length (tx_fifo c) < 3 then c\<lparr>tx_fifo := tx_fifo c @ [(cmd = 0xa0, args)]\<rparr> else c
      else if cmd = 0xe1 then c\<lparr>tx_fifo := []\<rparr>
      else if cmd = 0xe2 then c\<lparr>rx_fifo := []\<rparr>
      else c)"

text \<open>The bytes after the status byte of an answer, where the data sheet defines them.\<close>

definition chip_data :: "chip \<Rightarrow> u8 list \<Rightarrow> u8 list option" where
  "chip_data c tx =
     (if hd tx < 0x20
      then Some (if is_adr (hd tx) then take (length (tl tx)) (adr c (hd tx)) else [reg_val c (hd tx)])
      else if hd tx = 0x61 then Some (snd (hd (rx_fifo c)))
      else None)"

definition answers :: "chip \<Rightarrow> u8 list \<Rightarrow> u8 list \<Rightarrow> bool" where
  "answers c tx rx \<longleftrightarrow> length rx = length tx \<and> rx ! 0 = chip_status c \<and>
     (\<forall>bs. chip_data c tx = Some bs \<longrightarrow> tl rx = bs)"

definition one_byte :: "u8 \<Rightarrow> bool" where
  "one_byte r \<longleftrightarrow> r \<le> 0x17 \<and> \<not> is_adr r \<or> r = NRF_DYNPD \<or> r = NRF_FEATURE"

text \<open>
  The transfers whose effect the data sheet describes. The command \<open>W_TX_PAYLOAD_NO_ACK\<close> is one of them
  only when the bit \<open>EN_DYN_ACK\<close> of the \<open>FEATURE\<close> register, bit 0, enables it.
\<close>

definition noack_enabled :: "chip \<Rightarrow> bool" where
  "noack_enabled c \<longleftrightarrow> bit (regs c NRF_FEATURE) 0"

definition documented :: "chip \<Rightarrow> u8 list \<Rightarrow> bool" where
  "documented c tx \<longleftrightarrow> tx \<noteq> [] \<and>
     (let cmd = hd tx; n = length (tl tx) in
      (one_byte cmd \<or> 0x20 \<le> cmd \<and> one_byte (cmd - 0x20)) \<and> n = 1
    \<or> (is_adr cmd \<or> 0x20 \<le> cmd \<and> is_adr (cmd - 0x20)) \<and> 3 \<le> n \<and> n \<le> 5
    \<or> cmd = 0x61 \<and> rx_fifo c \<noteq> [] \<and> n = length (snd (hd (rx_fifo c)))
    \<or> (cmd = 0xa0 \<or> cmd = 0xb0 \<and> noack_enabled c) \<and> 1 \<le> n \<and> n \<le> 32
    \<or> (cmd = 0xe1 \<or> cmd = 0xe2 \<or> cmd = 0xff) \<and> n = 0)"

section \<open>The air\<close>

definition receiving :: "chip \<Rightarrow> bool" where
  "receiving c \<longleftrightarrow> ce c \<and> bit (regs c NRF_CONFIG) 1 \<and> bit (regs c NRF_CONFIG) 0"

definition sending :: "chip \<Rightarrow> bool" where
  "sending c \<longleftrightarrow> ce c \<and> bit (regs c NRF_CONFIG) 1 \<and> \<not> bit (regs c NRF_CONFIG) 0 \<and>
     tx_fifo c \<noteq> [] \<and> \<not> max_rt c"

text \<open>
  A receiving chip takes a payload of the right width on an enabled pipe while its FIFO has room; a
  sending chip transmits the first payload of its FIFO to the address in the TX\_ADDR register, or, for
  a payload that wants an acknowledgement, gives up. Nothing else changes by itself.
\<close>

inductive evolve :: "chip \<Rightarrow> chip \<Rightarrow> bool" where
  arrive: "receiving c \<Longrightarrow> length (rx_fifo c) < 3 \<Longrightarrow> p < 6 \<Longrightarrow> bit (regs c NRF_EN_RXADDR) p \<Longrightarrow>
     length pl = unat (regs c (NRF_RX_PW_P0 + of_nat p)) \<Longrightarrow> pl \<noteq> [] \<Longrightarrow> incoming c > 0 \<Longrightarrow>
     evolve c (edge c (c\<lparr>rx_fifo := rx_fifo c @ [(p, pl)], rx_dr := True, rx_log := rx_log c @ [pl],
                         incoming := incoming c - 1\<rparr>))"
| transmit: "sending c \<Longrightarrow> tx_fifo c = (a, pl) # ts \<Longrightarrow>
     evolve c (edge c (c\<lparr>tx_fifo := ts, tx_ds := True,
       tx_log := tx_log c @ [(take (unat (regs c NRF_SETUP_AW) + 2) (adr c NRF_TX_ADDR), pl)]\<rparr>))"
| give_up: "sending c \<Longrightarrow> tx_fifo c = (True, pl) # ts \<Longrightarrow> bit (regs c NRF_EN_AA) 0 \<Longrightarrow>
     evolve c (edge c (c\<lparr>max_rt := True\<rparr>))"

abbreviation evolves :: "chip \<Rightarrow> chip \<Rightarrow> bool" where
  "evolves \<equiv> evolve\<^sup>*\<^sup>*"

definition stable :: "(chip \<Rightarrow> bool) \<Rightarrow> bool" where
  "stable S \<longleftrightarrow> (\<forall>c c'. S c \<longrightarrow> evolve c c' \<longrightarrow> S c')"

definition frozen :: "chip \<Rightarrow> bool" where
  "frozen c \<longleftrightarrow> \<not> receiving c \<and> \<not> sending c"

lemma stable_evolves: "stable S \<Longrightarrow> S c \<Longrightarrow> evolves c c' \<Longrightarrow> S c'"
  by (rotate_tac 2, induction rule: rtranclp_induct) (auto simp: stable_def)

lemma frozen_stable: "frozen c \<Longrightarrow> stable ((=) c)"
  by (auto simp: stable_def frozen_def elim!: evolve.cases)

section \<open>Pins\<close>

definition gpio_effect :: "nat \<Rightarrow> nat \<Rightarrow> u32 \<Rightarrow> u32 \<Rightarrow> chip \<Rightarrow> chip" where
  "gpio_effect cp ip a v c =
     (if a = gpio_set0 \<and> bit v cp then c\<lparr>ce := True\<rparr>
      else if a = gpio_clr0 \<and> bit v cp then c\<lparr>ce := False\<rparr>
      else if a = GPIO_EDS0 \<and> bit v ip then c\<lparr>event := False\<rparr>
      else if a = GPIO_FEN0 then c\<lparr>fen := bit v ip\<rparr>
      else c)"

section \<open>The contract of the devices\<close>

text \<open>
  \<open>chips d k\<close> is the chip behind chip select \<open>k\<close>, wired to the pins \<open>ce_of k\<close> and \<open>int_of k\<close>;
  \<open>lag\<close> bounds the transfers until a transmission is over. The time \<open>now\<close> is the one the timer showed
  last: what passes during the other operations counts at the next look. A transfer is one step of the
  contract: no interrupt switches to another user of the bus while it runs. A comment in
  \<open>_wrap_spi_n_transfer\<close> says that the board panics sometimes when that happens.
\<close>

locale nrf_radio =
  fixes hw :: "'d hw" and chips :: "'d \<Rightarrow> nat \<Rightarrow> chip" and now :: "'d \<Rightarrow> nat"
    and ce_of :: "nat \<Rightarrow> nat" and int_of :: "nat \<Rightarrow> nat" and lag :: "'d \<Rightarrow> nat \<Rightarrow> nat"
  assumes spi_step: "spi_n_transfer hw k tx d = (rx, d') \<Longrightarrow>
      (\<exists>c. evolves (chips d k) c \<and> (documented c tx \<longrightarrow> chips d' k = chip_next c tx \<and> answers c tx rx))
      \<and> (\<forall>j. j \<noteq> k \<longrightarrow> evolves (chips d j) (chips d' j)) \<and> now d' = now d"
    and spi_lag: "spi_n_transfer hw k tx d = (rx, d') \<Longrightarrow> hd tx < 0x20 \<Longrightarrow> sending (chips d k) \<Longrightarrow>
      sending (chips d' k) \<Longrightarrow> lag d' k < lag d k"
    and lag_bound: "lag d k < hw_polls hw"
    and put_step: "\<exists>c. evolves (chips d k) c \<and>
      chips (PUT32 hw a v d) k = gpio_effect (ce_of k) (int_of k) a v c \<and> now (PUT32 hw a v d) = now d"
    and get_step: "GET32 hw a d = (v, d') \<Longrightarrow> evolves (chips d k) (chips d' k) \<and>
      (k < 2 \<longrightarrow> a = GPIO_EDS0 \<longrightarrow> bit v (int_of k) = event (chips d' k)) \<and>
      (k < 2 \<longrightarrow> a = gpio_lev0 \<longrightarrow> bit v (int_of k) = (\<not> irq_low (chips d' k))) \<and>
      (k < 2 \<longrightarrow> a = GPIO_FEN0 \<longrightarrow> bit v (int_of k) = fen (chips d' k)) \<and> (a \<noteq> timer_addr \<longrightarrow> now d' = now d)"
    and init_step: "spi_n_init hw k q d = (s, d') \<Longrightarrow> s = k \<and> evolves (chips d j) (chips d' j) \<and> now d' = now d"
    and pull_step: "evolves (chips d k) (chips (pulldown hw p d) k) \<and> now (pulldown hw p d) = now d"
    and timer_step: "GET32 hw timer_addr d = (v, d') \<Longrightarrow>
      v = of_nat (now d') \<and> now d < now d' \<and> now d' < now d + 2147483648"
    and many_polls: "1048576 \<le> hw_polls hw"
    and pins: "ce_of 0 \<noteq> ce_of 1" "int_of 0 \<noteq> int_of 1" "i < 2 \<Longrightarrow> j < 2 \<Longrightarrow> ce_of i \<noteq> int_of j"

sublocale nrf_radio \<subseteq> clk: usec_clock hw now "\<lambda>d d'. \<forall>k. evolves (chips d k) (chips d' k)"
proof (unfold_locales, goal_cases)
  case (3 d v d')
  then show ?case using timer_step get_step by blast
qed (auto intro: rtranclp_trans many_polls)

end
