(* ===== verification/Nrf_Driver.thy ===== *)
theory Nrf_Driver
  imports Nrf_Hw Dfs_Packet
begin

text \<open>
  The driver of the radio: \<open>network/nrf-driver.c\<close>, the interrupt handler of
  \<open>network/nrf-interrupt.c\<close>, the public interface of \<open>network/nrf-public.c\<close> and the start of a radio in
  \<open>dfs/dfs-common.c\<close>. The sources are compiled with \<open>USE_TX_INTERRUPT\<close> 0 and \<open>USE_RX_INTERRUPT\<close> 1;
  the functions that a transmit interrupt would need are never called and are left out. A function
  that changes the structure of the radio returns it.

  Packets enter the ring of the radio in the interrupt handler. A loop that waits for them takes a
  pending interrupt at the start of each round; an interrupt that comes later in a round has the same
  effect on the next one.
\<close>

definition USE_TX_INTERRUPT :: bool where "USE_TX_INTERRUPT = False"
definition USE_RX_INTERRUPT :: bool where "USE_RX_INTERRUPT = True"

definition tx_config :: u8 where
  "tx_config = push_bit 3 1 OR push_bit 2 1 OR push_bit 1 1 OR
     (if USE_TX_INTERRUPT then 0 else push_bit 5 1 OR push_bit 4 1) OR
     (if USE_RX_INTERRUPT then 0 else push_bit 6 1)"

definition rx_config :: u8 where
  "rx_config = tx_config OR 1"

definition config_is_rx :: "'d hw \<Rightarrow> nrf \<Rightarrow> ('d, unit) io" where
  "config_is_rx hw n = nrf_opt_assert (io_bind (nrf_get8 hw n NRF_CONFIG) (\<lambda>x. io_ret (x = rx_config)))"

section \<open>Interrupts\<close>

definition nrf_test_pin :: "'d hw \<Rightarrow> nat \<Rightarrow> ('d, bool) io" where
  "nrf_test_pin hw pin =
     io_bind (gpio_event_detected hw pin) (\<lambda>ev.
       if ev
       then io_bind (gpio_read hw pin) (\<lambda>v.
              if v = 0 then io_bind (gpio_event_clear hw pin) (\<lambda>_. io_ret True) else io_ret False)
       else io_ret False)"

definition nrf_interrupt_init :: "'d hw \<Rightarrow> nat \<Rightarrow> ('d, unit) io" where
  "nrf_interrupt_init hw pin =
     io_bind (gpio_set_input hw pin) (\<lambda>_.
     io_bind (gpio_write hw pin True) (\<lambda>_.
       if pin \<ge> 32 then io_ret ()
       else io_bind (io_get32 hw GPIO_FEN0) (\<lambda>x.
            io_bind (io_put32 hw GPIO_FEN0 (x OR push_bit pin 1)) (\<lambda>_.
            io_put32 hw IRQ_ENABLE_2 0x20000))))"

text \<open>A packet for which the ring has no room is dropped: the result of \<open>cq_push_n\<close> is not looked at.\<close>

fun rx_drain :: "'d hw \<Rightarrow> nrf \<Rightarrow> nat \<Rightarrow> ('d, nrf) io" where
  "rx_drain hw n 0 = io_res (Inl Diverges)"
| "rx_drain hw n (Suc fuel) =
     io_bind (nrf_rx_fifo_empty hw n) (\<lambda>e.
       if e then io_ret n
       else
         io_bind (io_assert (io_bind (nrf_rx_get_pipeid hw n) (\<lambda>p. io_ret (p = 1)))) (\<lambda>_.
         io_bind (nrf_getn hw n NRF_R_RX_PAYLOAD (conf_nbytes (config n))) (\<lambda>(st, bytes).
         io_bind (io_res (cq_push_n (recvq n) bytes)) (\<lambda>(ok, q).
         io_bind (nrf_rx_intr_clr hw n) (\<lambda>_.
           rx_drain hw (n\<lparr>recvq := q\<rparr>) fuel)))))"

definition nrf_handle_tx :: "'d hw \<Rightarrow> nrf \<Rightarrow> ('d, nrf) io" where
  "nrf_handle_tx hw n =
     io_bind (io_seq [io_res (assert_r USE_TX_INTERRUPT), io_assert (nrf_tx_fifo_empty hw n),
       nrf_tx_intr_clr hw n]) (\<lambda>_.
     let n = n\<lparr>tx_sent := tx_sent n + of_nat (conf_nbytes (config n))\<rparr> in
     io_bind (io_seq [nrf_set_pwrup_off hw n, gpio_set_off hw (ce_pin (config n)), nrf_set_pwrup_on hw n,
       delay_us hw 500, io_skip (nrf_put8 hw n NRF_CONFIG rx_config),
       gpio_set_on hw (ce_pin (config n)), delay_us hw 500, config_is_rx hw n]) (\<lambda>_. io_ret n))"

definition nrf_handle_intr :: "'d hw \<Rightarrow> nrf \<Rightarrow> ('d, nrf) io" where
  "nrf_handle_intr hw n =
     io_bind (nrf_has_max_rt_intr hw n) (\<lambda>rt.
     io_bind (if rt then nrf_rt_intr_clr hw n else io_ret ()) (\<lambda>_.
     io_bind (nrf_has_rx_intr hw n) (\<lambda>rx.
     io_bind (if rx
              then io_bind (io_res (assert_r USE_RX_INTERRUPT)) (\<lambda>_. rx_drain hw n (hw_polls hw))
              else io_ret n) (\<lambda>n.
     io_bind (nrf_has_tx_intr hw n) (\<lambda>tx.
       if tx then nrf_handle_tx hw n else io_ret n)))))"

definition nrf_irq :: "'d hw \<Rightarrow> nrf \<Rightarrow> ('d, nrf) io" where
  "nrf_irq hw n =
     io_bind (nrf_test_pin hw (int_pin (config n))) (\<lambda>b. if b then nrf_handle_intr hw n else io_ret n)"

text \<open>The two radios of a Pi, \<open>None\<close> where the pointer is \<open>NULL\<close>.\<close>

definition nrf_irq_opt :: "'d hw \<Rightarrow> nrf option \<Rightarrow> ('d, nrf option) io" where
  "nrf_irq_opt hw r =
     (case r of None \<Rightarrow> io_ret None | Some n \<Rightarrow> io_bind (nrf_irq hw n) (\<lambda>n'. io_ret (Some n')))"

definition int_vector_nrf :: "'d hw \<Rightarrow> nrf option \<times> nrf option \<Rightarrow> ('d, nrf option \<times> nrf option) io" where
  "int_vector_nrf hw lr =
     io_bind (nrf_irq_opt hw (fst lr)) (\<lambda>l.
     io_bind (nrf_irq_opt hw (snd lr)) (\<lambda>r. io_ret (l, r)))"

section \<open>Start\<close>

definition nrf_new :: "'d hw \<Rightarrow> nrf_conf \<Rightarrow> ('d, nrf) io" where
  "nrf_new hw c =
     io_bind (nrf_stat_start hw (nrf_kmalloc\<lparr>config := c\<rparr>)) (\<lambda>n.
     io_bind (pin_init hw (ce_pin c) (spi_chip c)) (\<lambda>s. io_ret (n\<lparr>spi := s\<rparr>)))"

definition fifos_reset :: "'d hw \<Rightarrow> nrf \<Rightarrow> ('d, unit) io" where
  "fifos_reset hw n =
     io_seq [io_assert (io_not (nrf_tx_fifo_full hw n)), io_assert (nrf_tx_fifo_empty hw n),
             io_assert (io_not (nrf_rx_fifo_full hw n)), io_assert (nrf_rx_fifo_empty hw n)]"

definition put_reg :: "'d hw \<Rightarrow> nrf \<Rightarrow> u8 \<Rightarrow> u8 \<Rightarrow> ('d, unit) io" where
  "put_reg hw n reg v = io_skip (nrf_put8 hw n reg v)"

text \<open>The settings that \<open>nrf_init\<close>, \<open>dfs_nrf_init\<close> and \<open>nrf_rt_init_global\<close> share.\<close>

definition nrf_settings :: "'d hw \<Rightarrow> nrf \<Rightarrow> ('d, unit) io list" where
  "nrf_settings hw n =
     [put_reg hw n NRF_SETUP_AW (of_nat nrf_default_addr_nbytes - 2),
      put_reg hw n NRF_SETUP_RETR (nrf_default_retran_attempts + push_bit 4 (of_nat (nrf_default_retran_delay div 250 - 1))),
      put_reg hw n NRF_FIFO_STATUS 0x11,
      put_reg hw n NRF_RF_CH (of_nat (conf_channel (config n))),
      put_reg hw n NRF_RF_SETUP (nrf_default_db OR nrf_default_data_rate)]"

definition clear_flags :: "'d hw \<Rightarrow> nrf \<Rightarrow> ('d, unit) io" where
  "clear_flags hw n =
     io_seq [if USE_TX_INTERRUPT then io_seq [nrf_tx_intr_clr hw n, nrf_rt_intr_clr hw n] else io_ret (),
             if USE_RX_INTERRUPT then nrf_rx_intr_clr hw n else io_ret (),
             if USE_RX_INTERRUPT \<or> USE_TX_INTERRUPT then nrf_interrupt_init hw (int_pin (config n))
             else io_ret ()]"

definition nrf_init :: "'d hw \<Rightarrow> nrf_conf \<Rightarrow> u32 \<Rightarrow> bool \<Rightarrow> ('d, nrf) io" where
  "nrf_init hw c addr acked_p =
     io_bind (nrf_new hw c) (\<lambda>n0.
     let n = n0\<lparr>rxaddr := (rxaddr n0)[1 := addr]\<rparr> in
     io_bind (io_seq (
       [nrf_set_pwrup_off hw n,
        put_reg hw n NRF_EN_RXADDR 0,
        put_reg hw n NRF_EN_AA (if acked_p then 3 else 0),
        put_reg hw n NRF_EN_RXADDR (if acked_p then 3 else 2),
        put_reg hw n NRF_RX_PW_P1 (of_nat (conf_nbytes c)),
        nrf_set_addr hw n NRF_RX_ADDR_P1 addr nrf_default_addr_nbytes,
        nrf_set_addr hw n NRF_TX_ADDR 0 nrf_default_addr_nbytes,
        put_reg hw n NRF_RX_PW_P2 0, put_reg hw n NRF_RX_PW_P3 0, put_reg hw n NRF_RX_PW_P4 0, put_reg hw n NRF_RX_PW_P5 0]
       @ nrf_settings hw n @
       [nrf_set_pwrup_on hw n, delay_ms hw 2, put_reg hw n NRF_CONFIG rx_config,
        gpio_set_on hw (ce_pin c), delay_ms hw 2,
        io_skip (nrf_rx_flush hw n), io_skip (nrf_tx_flush hw n), clear_flags hw n, config_is_rx hw n]
       @ (if acked_p
          then [nrf_opt_assert (nrf_pipe_is_enabled hw n 0), nrf_opt_assert (nrf_pipe_is_enabled hw n 1),
                nrf_opt_assert (nrf_pipe_is_acked hw n 0), nrf_opt_assert (nrf_pipe_is_acked hw n 1)]
          else [nrf_opt_assert (io_not (nrf_pipe_is_enabled hw n 0)),
                nrf_opt_assert (nrf_pipe_is_enabled hw n 1),
                nrf_opt_assert (io_not (nrf_pipe_is_acked hw n 1))])
       @ [nrf_opt_assert (nrf_tx_fifo_empty hw n), fifos_reset hw n])) (\<lambda>_. io_ret n))"

text \<open>
  \<open>dfs_nrf_init\<close> in two halves: the registers are written while the chip does not listen, then it is
  switched to receiving.
\<close>

definition dfs_nrf_regs :: "'d hw \<Rightarrow> nrf \<Rightarrow> u32 \<Rightarrow> ('d, unit) io list" where
  "dfs_nrf_regs hw n addr =
     [nrf_set_pwrup_off hw n,
      put_reg hw n NRF_EN_RXADDR 2, put_reg hw n NRF_EN_AA 0,
      nrf_set_addr hw n NRF_RX_ADDR_P1 addr nrf_default_addr_nbytes,
      nrf_set_addr hw n NRF_TX_ADDR 0 nrf_default_addr_nbytes,
      put_reg hw n NRF_RX_PW_P1 (of_nat (conf_nbytes (config n))),
      put_reg hw n NRF_RX_PW_P2 0, put_reg hw n NRF_RX_PW_P3 0, put_reg hw n NRF_RX_PW_P4 0,
      put_reg hw n NRF_RX_PW_P5 0]
     @ nrf_settings hw n @
     [nrf_set_pwrup_on hw n, delay_ms hw 2, put_reg hw n NRF_CONFIG rx_config]"

definition dfs_nrf_listen :: "'d hw \<Rightarrow> nrf \<Rightarrow> ('d, unit) io list" where
  "dfs_nrf_listen hw n =
     [gpio_set_on hw (ce_pin (config n)), delay_ms hw 2,
      io_skip (nrf_rx_flush hw n), io_skip (nrf_tx_flush hw n), clear_flags hw n, delay_ms hw 2,
      fifos_reset hw n,
      io_res (assert_r (nrf_id n = 0 \<or> nrf_id n = 1))]"

text \<open>\<open>None\<close> is the null pointer: both radios are taken.\<close>

definition dfs_nrf_init :: "'d hw \<Rightarrow> ready \<Rightarrow> nrf_conf \<Rightarrow> u32 \<Rightarrow> ('d, nrf option \<times> ready) io" where
  "dfs_nrf_init hw g c addr =
     (let (ok, g') = dfs_nrf_claim g in
      if \<not> ok then io_ret (None, g')
      else
        io_bind (nrf_new hw c) (\<lambda>n0.
        let n = n0\<lparr>nrf_id := conf_id c, tx_sent := 0, rxaddr := (rxaddr n0)[1 := addr]\<rparr> in
        io_bind (io_seq (dfs_nrf_regs hw n addr @ dfs_nrf_listen hw n)) (\<lambda>_. io_ret (Some n, g'))))"

section \<open>Sending\<close>

fun wait_tx_empty :: "'d hw \<Rightarrow> nrf \<Rightarrow> nat \<Rightarrow> ('d, unit) io" where
  "wait_tx_empty hw n 0 = io_res (Inl Diverges)"
| "wait_tx_empty hw n (Suc fuel) =
     io_bind (nrf_tx_fifo_empty hw n) (\<lambda>e. if e then io_ret () else wait_tx_empty hw n fuel)"

text \<open>The message and its length, which the handler takes from the saved registers, are its arguments.\<close>

definition spi_transfer_syscall_handler :: "'d hw \<Rightarrow> nrf \<Rightarrow> u32 \<Rightarrow> u8 list \<Rightarrow> ('d, unit) io" where
  "spi_transfer_syscall_handler hw n txaddr msg =
     (let pin = ce_pin (config n) in
      io_seq [gpio_set_off hw pin, put_reg hw n NRF_CONFIG tx_config, gpio_set_on hw pin, delay_ms hw 2,
        nrf_set_addr hw n NRF_TX_ADDR txaddr nrf_default_addr_nbytes,
        io_skip (nrf_putn hw n W_TX_PAYLOAD_NO_ACK msg),
        gpio_set_off hw pin, gpio_set_on hw pin,
        wait_tx_empty hw n (hw_polls hw),
        nrf_tx_intr_clr hw n, nrf_opt_assert (io_not (nrf_has_tx_intr hw n)),
        nrf_set_pwrup_off hw n, gpio_set_off hw pin, nrf_set_pwrup_on hw n, delay_us hw 500,
        put_reg hw n NRF_CONFIG rx_config, gpio_set_on hw pin, delay_us hw 500])"

definition nrf_tx_send_noack :: "'d hw \<Rightarrow> nrf \<Rightarrow> u32 \<Rightarrow> u8 list \<Rightarrow> ('d, int) io" where
  "nrf_tx_send_noack hw n txaddr msg =
     io_bind (io_seq [config_is_rx hw n, nrf_opt_assert (nrf_pipe_is_enabled hw n 1),
       nrf_opt_assert (nrf_tx_fifo_empty hw n),
       spi_transfer_syscall_handler hw n txaddr msg, config_is_rx hw n]) (\<lambda>_. io_ret (int (length msg)))"

text \<open>The acknowledged send: \<open>res\<close> is the number of bytes sent so far, 0 or all of them.\<close>

fun wait_acked :: "'d hw \<Rightarrow> nrf \<Rightarrow> int \<Rightarrow> int \<Rightarrow> nat \<Rightarrow> ('d, int) io" where
  "wait_acked hw n nbytes res 0 = io_res (Inl Diverges)"
| "wait_acked hw n nbytes res (Suc fuel) =
     io_bind (nrf_tx_fifo_empty hw n) (\<lambda>e.
       if e then io_ret res
       else
         io_bind (nrf_has_max_rt_intr hw n) (\<lambda>rt.
         if rt then io_bind (io_seq [nrf_tx_intr_clr hw n, nrf_rt_intr_clr hw n]) (\<lambda>_.
                      io_res (Inl (Panic ''max intr'')))
         else
           io_bind (nrf_rx_fifo_full hw n) (\<lambda>full.
           if full then io_bind (nrf_tx_intr_clr hw n) (\<lambda>_. io_res (Inl (Panic ''rx fifo full'')))
           else
             io_bind (nrf_has_tx_intr hw n) (\<lambda>tx.
             if tx then io_bind (nrf_tx_intr_clr hw n) (\<lambda>_. wait_acked hw n nbytes nbytes fuel)
             else wait_acked hw n nbytes res fuel))))"

definition nrf_tx_send_ack :: "'d hw \<Rightarrow> nrf \<Rightarrow> u32 \<Rightarrow> u8 list \<Rightarrow> ('d, int) io" where
  "nrf_tx_send_ack hw n txaddr msg =
     (let pin = ce_pin (config n); nbytes = int (length msg) in
      io_bind (io_seq [config_is_rx hw n, nrf_opt_assert (nrf_pipe_is_enabled hw n 0),
        nrf_opt_assert (nrf_pipe_is_enabled hw n 1), nrf_opt_assert (nrf_pipe_is_acked hw n 0),
        nrf_opt_assert (nrf_pipe_is_acked hw n 1), nrf_opt_assert (nrf_tx_fifo_empty hw n),
        io_skip (nrf_tx_flush hw n), io_skip (nrf_tx_flush hw n),
        gpio_set_off hw pin, put_reg hw n NRF_CONFIG tx_config,
        nrf_set_addr hw n NRF_TX_ADDR txaddr nrf_default_addr_nbytes,
        nrf_set_addr hw n NRF_RX_ADDR_P0 txaddr nrf_default_addr_nbytes,
        gpio_set_on hw pin, delay_us hw 500]) (\<lambda>_.
      io_bind (nrf_putn hw n NRF_W_TX_PAYLOAD msg) (\<lambda>st.
      if st = 0 then io_ret (- 1)
      else
        io_bind (wait_acked hw n nbytes 0 (hw_polls hw)) (\<lambda>res.
        io_bind (nrf_has_tx_intr hw n) (\<lambda>tx.
        io_bind (if tx then nrf_tx_intr_clr hw n else io_ret ()) (\<lambda>_.
        io_bind (io_seq [gpio_set_off hw pin, put_reg hw n NRF_CONFIG rx_config, gpio_set_on hw pin,
          delay_us hw 500, config_is_rx hw n]) (\<lambda>_.
          io_ret (if tx then nbytes else res))))))))"

text \<open>Both public operations use the unacknowledged send.\<close>

definition nrf_send_ack_io :: "'d hw \<Rightarrow> nrf \<Rightarrow> u32 \<Rightarrow> u8 list \<Rightarrow> ('d, int) io" where
  "nrf_send_ack_io hw n txaddr msg = nrf_tx_send_noack hw n txaddr msg"

definition nrf_send_noack_io :: "'d hw \<Rightarrow> nrf \<Rightarrow> u32 \<Rightarrow> u8 list \<Rightarrow> ('d, int) io" where
  "nrf_send_noack_io hw n txaddr msg = nrf_tx_send_noack hw n txaddr msg"

section \<open>Receiving\<close>

text \<open>With receive interrupts the poll for packets does nothing and returns 0.\<close>

fun get_pkts_loop :: "'d hw \<Rightarrow> nrf \<Rightarrow> int \<Rightarrow> nat \<Rightarrow> ('d, int \<times> nrf) io" where
  "get_pkts_loop hw n cnt 0 = io_res (Inl Diverges)"
| "get_pkts_loop hw n cnt (Suc fuel) =
     io_bind (nrf_rx_fifo_empty hw n) (\<lambda>e.
       if e then io_ret (cnt, n)
       else
         io_bind (nrf_rx_get_pipeid hw n) (\<lambda>_.
         io_bind (nrf_getn hw n NRF_R_RX_PAYLOAD (conf_nbytes (config n))) (\<lambda>(st, msg).
         io_bind (io_res (cq_push_n (recvq n) msg)) (\<lambda>(ok, q).
         if \<not> ok then io_ret (- 1, n\<lparr>recvq := q\<rparr>)
         else
           let n = n\<lparr>recvq := q, tot_sent_msgs := tot_sent_msgs n + 1,
                     tot_sent_bytes := tot_sent_bytes n + of_nat (conf_nbytes (config n))\<rparr> in
           io_bind (nrf_rx_intr_clr hw n) (\<lambda>_. get_pkts_loop hw n (cnt + 1) fuel)))))"

definition nrf_get_pkts :: "'d hw \<Rightarrow> nrf \<Rightarrow> ('d, int \<times> nrf) io" where
  "nrf_get_pkts hw n =
     (if USE_RX_INTERRUPT then io_ret (0, n)
      else io_bind (config_is_rx hw n) (\<lambda>_.
           io_bind (get_pkts_loop hw n 0 (hw_polls hw)) (\<lambda>(cnt, n).
           if cnt < 0 then io_ret (cnt, n)
           else io_bind (config_is_rx hw n) (\<lambda>_. io_ret (cnt, n)))))"

fun get_all_pkts :: "'d hw \<Rightarrow> nrf \<Rightarrow> nat \<Rightarrow> ('d, nrf) io" where
  "get_all_pkts hw n 0 = io_res (Inl Diverges)"
| "get_all_pkts hw n (Suc fuel) =
     io_bind (nrf_get_pkts hw n) (\<lambda>(r, n). if r \<noteq> 0 then get_all_pkts hw n fuel else io_ret n)"

definition nrf_nbytes_avail :: "'d hw \<Rightarrow> nrf \<Rightarrow> ('d, u32 \<times> nrf) io" where
  "nrf_nbytes_avail hw n =
     io_bind (get_all_pkts hw n (hw_polls hw)) (\<lambda>n. io_ret (cq_nelem (recvq n), n))"

text \<open>\<open>None\<close> is the return value 0; the message is not written then.\<close>

definition nrf_read_exact_noblk :: "'d hw \<Rightarrow> nrf \<Rightarrow> u32 \<Rightarrow> ('d, u8 list option \<times> nrf) io" where
  "nrf_read_exact_noblk hw n nbytes =
     io_bind (io_res (assert_r (nbytes > 0))) (\<lambda>_.
     io_bind (nrf_nbytes_avail hw n) (\<lambda>(avail, n).
       if avail = 0 then io_ret (None, n)
       else if avail < nbytes then io_ret (None, n)
       else io_bind (io_res (cq_pop_n True [] (recvq n) (unat nbytes))) (\<lambda>(bs, _, q).
              io_ret (Some bs, n\<lparr>recvq := q\<rparr>))))"

text \<open>
  \<open>None\<close> is the return value -1. Every round of the loop looks at the timer, which moves on between
  two looks, so a limit of \<open>usec\<close> microseconds ends it after at most \<open>usec + 1\<close> rounds.
\<close>

fun read_timeout_loop ::
  "'d hw \<Rightarrow> nrf \<Rightarrow> u32 \<Rightarrow> u32 \<Rightarrow> timeout \<Rightarrow> nat \<Rightarrow> ('d, u8 list option \<times> nrf) io" where
  "read_timeout_loop hw n nbytes usec t 0 = io_res (Inl Diverges)"
| "read_timeout_loop hw n nbytes usec t (Suc fuel) =
     io_bind (nrf_irq hw n) (\<lambda>n.
     io_bind (nrf_read_exact_noblk hw n nbytes) (\<lambda>(r, n).
       case r of Some bs \<Rightarrow> io_ret (Some bs, n)
       | None \<Rightarrow> io_bind (timeout_usec hw t (ucast usec)) (\<lambda>(late, t).
                   if late then io_ret (None, n) else read_timeout_loop hw n nbytes usec t fuel)))"

definition nrf_read_exact_timeout ::
  "'d hw \<Rightarrow> nrf \<Rightarrow> u32 \<Rightarrow> u32 \<Rightarrow> ('d, u8 list option \<times> nrf) io" where
  "nrf_read_exact_timeout hw n nbytes usec =
     io_bind (timeout_start hw) (\<lambda>t. read_timeout_loop hw n nbytes usec t (unat usec + 2))"

definition nrf_read_exact :: "'d hw \<Rightarrow> nrf \<Rightarrow> u32 \<Rightarrow> ('d, u8 list \<times> nrf) io" where
  "nrf_read_exact hw n nbytes =
     io_bind (nrf_read_exact_timeout hw n nbytes (10 * 1000 * 1000)) (\<lambda>(r, n).
       case r of Some bs \<Rightarrow> io_ret (bs, n)
       | None \<Rightarrow> io_res (Inl (Panic ''fix nrf_dump'')))"

definition dfs_wait_recv :: "'d hw \<Rightarrow> nrf \<Rightarrow> ('d, bool \<times> nrf) io" where
  "dfs_wait_recv hw n =
     io_bind (nrf_read_exact_timeout hw n (of_nat dfs_get_pkt_bytes) 10000000) (\<lambda>(r, n). io_ret (r \<noteq> None, n))"

end
