(* ===== verification/Nrf_Rules.thy ===== *)
theory Nrf_Rules
  imports Nrf_Chip Nrf_Driver
begin

text \<open>
  How the operations of the driver act on the chip, proved from the contract \<open>nrf_radio\<close>. The state of
  the chip is known up to what may happen on the air: a rule starts from a predicate on the chip that
  is stable under it and gives the predicate after the operation. What the operation leaves alone, the
  other chip and the time shown last, is carried along as \<open>R\<close>.
\<close>

section \<open>Words\<close>

lemma wr_reg:
  fixes r :: u8
  assumes "r < 0x20"
  shows "NRF_WR_REG OR r = r + 0x20" "r OR NRF_WR_REG = r + 0x20"
proof -
  have "r div 0x20 = 0" using assms by (simp add: unat_eq_iff [of "r div 0x20"] unat_div word_less_nat_alt)
  then have small: "\<not> bit r 5" by (simp add: bit_iff_odd_drop_bit drop_bit_eq_div)
  have "bit (push_bit 5 (1 :: u8)) i \<longleftrightarrow> i = 5" for i
    by (auto simp only: bit_push_bit_iff bit_1_iff possible_bit_word) simp_all
  then have "push_bit 5 1 AND r = 0" using small
    by (intro bit_word_eqI) (auto simp only: bit_and_iff bit_0_eq bot_apply bot_bool_def)
  then have "0x20 AND r = 0" by simp
  then have "0x20 OR r = 0x20 + r" using word_plus_and_or [of "0x20" r] by simp
  then show "NRF_WR_REG OR r = r + 0x20" "r OR NRF_WR_REG = r + 0x20"
    by (simp_all add: NRF_WR_REG_def or.commute [of r] add.commute [of r])
qed

lemma wr_reg_range: "r < 0x20 \<Longrightarrow> (0x20 :: u8) \<le> r + 0x20 \<and> r + 0x20 < 0x40"
  by (simp add: word_less_nat_alt word_le_nat_alt unat_word_ariths)

lemma one_byte_small: "one_byte r \<Longrightarrow> r < 0x20 \<and> \<not> is_adr r"
  using le_less_trans [of r "0x17" "0x20"] by (auto simp: one_byte_def nrf_regs is_adr_def)

lemma is_adr_small: "is_adr r \<Longrightarrow> r < 0x20 \<and> \<not> one_byte r"
  by (auto simp: one_byte_def nrf_regs is_adr_def)

lemma one_byte_regs [simp]:
  "one_byte NRF_CONFIG" "one_byte NRF_EN_AA" "one_byte NRF_EN_RXADDR" "one_byte NRF_SETUP_AW"
  "one_byte NRF_SETUP_RETR" "one_byte NRF_RF_CH" "one_byte NRF_RF_SETUP" "one_byte NRF_STATUS"
  "one_byte NRF_RX_PW_P1" "one_byte NRF_RX_PW_P2" "one_byte NRF_RX_PW_P3" "one_byte NRF_RX_PW_P4"
  "one_byte NRF_RX_PW_P5" "one_byte NRF_FIFO_STATUS"
  by (simp_all add: one_byte_def nrf_regs is_adr_def)

lemma is_adr_regs [simp]: "is_adr NRF_RX_ADDR_P0" "is_adr NRF_RX_ADDR_P1" "is_adr NRF_TX_ADDR"
  by (simp_all add: is_adr_def)

lemma documented_get: "one_byte r \<Longrightarrow> documented c [r, x]"
  by (simp add: documented_def)

lemma documented_put: "one_byte r \<Longrightarrow> documented c [NRF_WR_REG OR r, v]"
  using one_byte_small [of r] wr_reg_range [of r] by (simp add: documented_def wr_reg)

lemma documented_get_adr: "is_adr r \<Longrightarrow> n = 3 \<or> n = 4 \<Longrightarrow> documented c (r # replicate n x)"
  by (auto simp: documented_def)

lemma documented_put_adr: "is_adr r \<Longrightarrow> length vs = 3 \<or> length vs = 4 \<Longrightarrow> documented c ((r OR NRF_WR_REG) # vs)"
  using is_adr_small [of r] wr_reg_range [of r] by (auto simp: documented_def wr_reg)

lemma chip_next_get: "r < 0x20 \<Longrightarrow> chip_next c (r # xs) = c"
  by (simp add: chip_next_def)

lemma chip_next_put: "r < 0x20 \<Longrightarrow> chip_next c ((NRF_WR_REG OR r) # vs) = edge c (chip_write c r vs)"
  using wr_reg_range [of r] by (auto simp: chip_next_def Let_def wr_reg dest: leD)

lemma bit_pin: "p < 32 \<Longrightarrow> bit (2 ^ p :: u32) q \<longleftrightarrow> q = p"
  by (auto simp: bit_exp_iff)

lemma edge_id: "irq_low c' = irq_low c \<Longrightarrow> edge c c' = c'" and edge_off: "\<not> fen c' \<Longrightarrow> edge c c' = c'"
  by (simp_all add: edge_def)

lemma irq_low_upd [simp]:
  "irq_low (c\<lparr>adr := x1\<rparr>) = irq_low c" "irq_low (c\<lparr>ce := x2\<rparr>) = irq_low c" "irq_low (c\<lparr>tx_fifo := x3\<rparr>) = irq_low c"
  "irq_low (c\<lparr>rx_fifo := x4\<rparr>) = irq_low c" "irq_low (c\<lparr>event := x5\<rparr>) = irq_low c" "irq_low (c\<lparr>tx_log := x6\<rparr>) = irq_low c"
  by (simp_all add: irq_low_def)

lemma le24_join:
  assumes "unat (a :: u32) < 16777216"
  shows "le32_at (take 3 (le32_bytes a) @ [0]) 0 = a"
proof -
  have "drop_bit 24 a = 0" using assms by (simp add: drop_bit_eq_div unat_eq_iff unat_div)
  then show ?thesis using le32_join [of a] by (simp add: le32_bytes_def le32_at_def)
qed

text \<open>Switching the power bit of the CONFIG register.\<close>

definition pwr :: "bool \<Rightarrow> chip \<Rightarrow> chip" where
  "pwr b c = edge c (c\<lparr>regs := (regs c)(NRF_CONFIG :=
     if b then regs c NRF_CONFIG OR 2 else regs c NRF_CONFIG AND NOT 2)\<rparr>)"

lemma chip_write_config [simp]:
  "chip_write c NRF_CONFIG [v] = c\<lparr>regs := (regs c)(NRF_CONFIG := v)\<rparr>"
  by (simp add: chip_write_def is_adr_def nrf_regs)

lemma regs_edge [simp]: "regs (edge c c') = regs c'" "ce (edge c c') = ce c'" "tx_fifo (edge c c') = tx_fifo c'"
    "max_rt (edge c c') = max_rt c'" "adr (edge c c') = adr c'"
  by (simp_all add: edge_def)

lemma reg_val_config [simp]: "reg_val c NRF_CONFIG = regs c NRF_CONFIG"
  by (simp add: reg_val_def nrf_regs)

lemma u8_clr2: "ucast (ucast (x :: u8) AND NOT (push_bit 1 1) :: u32) = x AND NOT 2"
  and u8_set2: "ucast (ucast (x :: u8) OR push_bit 1 1 :: u32) = x OR 2"
  by (rule bit_word_eqI; auto simp: bit_simps)+

lemmas u8_power = u8_clr2 [simplified] u8_set2 [simplified]

lemma io_ok_opt_assert: "io_ok P m (\<lambda>b d. b = True \<and> Q d) \<Longrightarrow> io_ok P (nrf_opt_assert m) (\<lambda>_. Q)"
  unfolding nrf_opt_assert_def by (erule io_ok_bind) (auto simp: io_ok_def io_ret_def)

section \<open>Rules\<close>

context nrf_radio
begin

definition on :: "nat \<Rightarrow> (chip \<Rightarrow> bool) \<Rightarrow> ('d \<Rightarrow> bool) \<Rightarrow> 'd \<Rightarrow> bool" where
  "on k S R d \<longleftrightarrow> S (chips d k) \<and> R d"

definition rest :: "nat \<Rightarrow> ('d \<Rightarrow> bool) \<Rightarrow> bool" where
  "rest k R \<longleftrightarrow> (\<forall>d d'. R d \<longrightarrow> (\<forall>j < 2. j \<noteq> k \<longrightarrow> evolves (chips d j) (chips d' j)) \<longrightarrow> now d' = now d \<longrightarrow> R d')"

definition timeless :: "nat \<Rightarrow> ('d \<Rightarrow> bool) \<Rightarrow> bool" where
  "timeless k R \<longleftrightarrow> (\<forall>d d'. R d \<longrightarrow> (\<forall>j < 2. j \<noteq> k \<longrightarrow> evolves (chips d j) (chips d' j)) \<longrightarrow> R d')"

lemma timeless_rest: "timeless k R \<Longrightarrow> rest k R"
  unfolding timeless_def rest_def by blast

lemma xfer:
  assumes "stable S" "\<And>c. S c \<Longrightarrow> documented c tx" "rest (spi n) R"
  shows "io_ok (on (spi n) S R) (wrap_spi_n_transfer hw n tx)
    (\<lambda>rx. on (spi n) (\<lambda>c'. \<exists>c. S c \<and> c' = chip_next c tx \<and> answers c tx rx) R)"
proof (rule io_okI)
  fix d assume d: "on (spi n) S R d"
  obtain rx d' where t: "spi_n_transfer hw (spi n) tx d = (rx, d')" by fastforce
  obtain c where c: "evolves (chips d (spi n)) c"
      "documented c tx \<longrightarrow> chips d' (spi n) = chip_next c tx \<and> answers c tx rx"
      "\<forall>j. j \<noteq> spi n \<longrightarrow> evolves (chips d j) (chips d' j)" "now d' = now d"
    using spi_step [OF t] by blast
  have S: "S c" using stable_evolves [OF assms(1) _ c(1)] d by (simp add: on_def)
  have "R d'" using assms(3) d c(3,4) unfolding rest_def on_def by blast
  with S c(2) assms(2) show "\<exists>rx d'. wrap_spi_n_transfer hw n tx d = Inr (rx, d') \<and>
      on (spi n) (\<lambda>c'. \<exists>c. S c \<and> c' = chip_next c tx \<and> answers c tx rx) R d'"
    by (auto simp: wrap_spi_n_transfer_def t on_def)
qed

lemma get8:
  assumes "stable S" "one_byte r" "rest (spi n) R"
  shows "io_ok (on (spi n) S R) (nrf_get8 hw n r) (\<lambda>x. on (spi n) (\<lambda>c. S c \<and> x = reg_val c r) R)"
  unfolding nrf_get8_def
proof (rule io_ok_bind [OF xfer [OF assms(1) _ assms(3)]], rule documented_get [OF assms(2)])
  fix rx
  have "tl rx = [v] \<Longrightarrow> length rx = Suc (Suc 0) \<Longrightarrow> rx ! Suc 0 = v" for v :: u8
    by (cases rx) auto
  then show "io_ok (on (spi n) (\<lambda>c'. \<exists>c. S c \<and> c' = chip_next c [r, NRF_NOP] \<and> answers c [r, NRF_NOP] rx) R)
      (io_ret (rx ! 1)) (\<lambda>x. on (spi n) (\<lambda>c. S c \<and> x = reg_val c r) R)"
    using one_byte_small [OF assms(2)]
    by (intro io_ok_ret) (auto simp: on_def chip_next_get answers_def chip_data_def)
qed

lemma put8:
  assumes "stable S" "one_byte r" "rest (spi n) R"
  shows "io_ok (on (spi n) S R) (nrf_put8 hw n r v)
    (\<lambda>_. on (spi n) (\<lambda>c'. \<exists>c. S c \<and> c' = edge c (chip_write c r [v])) R)"
  unfolding nrf_put8_def
  using one_byte_small [OF assms(2)] documented_put [OF assms(2)]
  by (intro io_ok_bind [OF xfer [OF assms(1) _ assms(3)]] io_ok_ret)
     (auto simp: on_def chip_next_put)

lemma put_reg_rule:
  assumes "stable S" "one_byte r" "rest (spi n) R"
  shows "io_ok (on (spi n) S R) (put_reg hw n r v)
    (\<lambda>_. on (spi n) (\<lambda>c'. \<exists>c. S c \<and> c' = edge c (chip_write c r [v])) R)"
  unfolding put_reg_def by (rule io_ok_skip [OF put8 [OF assms]])

lemma bit_isset:
  assumes "stable S" "one_byte r" "rest (spi n) R" "b < 8"
  shows "io_ok (on (spi n) S R) (nrf_bit_isset hw n r b)
    (\<lambda>v. on (spi n) (\<lambda>c. S c \<and> v = bit (reg_val c r) b) R)"
  unfolding nrf_bit_isset_def
proof (intro io_ok_bind)
  show "io_ok (on (spi n) S R) (io_res (assert_r (b < 8))) (\<lambda>_. on (spi n) S R)"
    using assms(4) by (auto intro: io_ok_post [OF io_ok_res])
  show "io_ok (on (spi n) S R) (nrf_get8 hw n r) (\<lambda>x. on (spi n) (\<lambda>c. S c \<and> x = reg_val c r) R)"
    by (rule get8 [OF assms(1-3)])
  show "io_ok (on (spi n) (\<lambda>c. S c \<and> x = reg_val c r) R) (io_res (bit_is_on (ucast x) b))
      (\<lambda>v. on (spi n) (\<lambda>c. S c \<and> v = of_bool (bit (reg_val c r) b)) R)" for x
    using assms(4) by (intro io_ok_post [OF io_ok_res [OF bit_is_on_ok]]) (auto simp: on_def bit_simps)
  show "io_ok (on (spi n) (\<lambda>c. S c \<and> v = of_bool (bit (reg_val c r) b)) R) (io_ret (v = 1))
      (\<lambda>v. on (spi n) (\<lambda>c. S c \<and> v = bit (reg_val c r) b) R)" for v :: u32
    by (rule io_ok_ret) (auto simp: on_def)
qed

text \<open>A write to a device register: what it does to the chip of the radio and that it leaves the other alone.\<close>

lemma put32:
  assumes "stable S" "rest k R" "k < 2"
    "\<And>j c. j < 2 \<Longrightarrow> j \<noteq> k \<Longrightarrow> gpio_effect (ce_of j) (int_of j) a v c = c"
  shows "io_ok (on k S R) (io_put32 hw a v)
    (\<lambda>_. on k (\<lambda>c'. \<exists>c. S c \<and> c' = gpio_effect (ce_of k) (int_of k) a v c) R)"
proof (rule io_okI)
  fix d assume d: "on k S R d"
  obtain c where c: "evolves (chips d k) c" "chips (PUT32 hw a v d) k = gpio_effect (ce_of k) (int_of k) a v c"
      "now (PUT32 hw a v d) = now d" using put_step by blast
  have "evolves (chips d j) (chips (PUT32 hw a v d) j)" if "j < 2" "j \<noteq> k" for j
    using put_step [of d j a v] assms(4) [OF that] by auto
  then have "R (PUT32 hw a v d)" using assms(2) d c(3) unfolding rest_def on_def by blast
  moreover have "S c" using stable_evolves [OF assms(1) _ c(1)] d by (simp add: on_def)
  ultimately show "\<exists>x d'. io_put32 hw a v d = Inr (x, d') \<and>
      on k (\<lambda>c'. \<exists>c. S c \<and> c' = gpio_effect (ce_of k) (int_of k) a v c) R d'"
    using c(2) by (auto simp: io_put32_def on_def)
qed

lemma get32:
  assumes "stable S" "rest k R" "a \<noteq> timer_addr"
  shows "io_ok (on k S R) (io_get32 hw a) (\<lambda>v. on k (\<lambda>c. S c \<and>
      (k < 2 \<longrightarrow> a = GPIO_EDS0 \<longrightarrow> bit v (int_of k) = event c) \<and>
      (k < 2 \<longrightarrow> a = gpio_lev0 \<longrightarrow> bit (v :: u32) (int_of k) = (\<not> irq_low c))) R)"
proof (rule io_okI)
  fix d assume d: "on k S R d"
  obtain v d' where t: "GET32 hw a d = (v, d')" by fastforce
  note g = get_step [OF t]
  have "R d'" using assms(2,3) d g unfolding rest_def on_def by blast
  moreover have "S (chips d' k)" using stable_evolves [OF assms(1)] d g unfolding on_def by blast
  ultimately show "\<exists>v d'. io_get32 hw a d = Inr (v, d') \<and> on k (\<lambda>c. S c \<and>
      (k < 2 \<longrightarrow> a = GPIO_EDS0 \<longrightarrow> bit v (int_of k) = event c) \<and> (k < 2 \<longrightarrow> a = gpio_lev0 \<longrightarrow> bit v (int_of k) = (\<not> irq_low c))) R d'"
    using g [of k] by (auto simp: io_get32_def t on_def)
qed

lemma delay:
  assumes "stable S" "timeless k R" "unat us < 1048576"
  shows "io_ok (on k S R) (delay_us hw us) (\<lambda>_. on k S R)"
proof (rule io_okI)
  fix d assume d: "on k S R d"
  obtain d' where d': "delay_us hw us d = Inr ((), d')" "\<forall>k. evolves (chips d k) (chips d' k)"
    using clk.delay_run [OF assms(3)] by blast
  have "R d'" using assms(2) d d'(2) unfolding timeless_def on_def by blast
  moreover have "S (chips d' k)" using stable_evolves [OF assms(1)] d d'(2) unfolding on_def by blast
  ultimately show "\<exists>x d'. delay_us hw us d = Inr (x, d') \<and> on k S R d'" using d'(1) by (auto simp: on_def)
qed

definition wired :: "nrf \<Rightarrow> bool" where
  "wired n \<longleftrightarrow> spi n < 2 \<and> ce_pin (config n) = ce_of (spi n) \<and> int_pin (config n) = int_of (spi n) \<and>
     ce_of (spi n) < 32 \<and> int_of (spi n) < 32"

lemma other_pin: "j < 2 \<Longrightarrow> k < 2 \<Longrightarrow> j \<noteq> k \<Longrightarrow> ce_of j \<noteq> ce_of k \<and> int_of j \<noteq> int_of k"
  using pins(1,2) by (auto simp: less_Suc_eq numeral_2_eq_2)

lemmas gpio_addrs = gpio_set0_def gpio_clr0_def gpio_lev0_def GPIO_EDS0_def GPIO_FEN0_def GPIO_BASE_def

lemma set_on:
  assumes "stable S" "rest (spi n) R" "wired n"
  shows "io_ok (on (spi n) S R) (gpio_set_on hw (ce_pin (config n)))
    (\<lambda>_. on (spi n) (\<lambda>c'. \<exists>c. S c \<and> c' = c\<lparr>ce := True\<rparr>) R)"
proof -
  have w: "spi n < 2" "ce_pin (config n) = ce_of (spi n)" "ce_of (spi n) < 32"
    using assms(3) by (auto simp: wired_def)
  have o: "gpio_effect (ce_of j) (int_of j) gpio_set0 (2 ^ ce_of (spi n)) c = c" if "j < 2" "j \<noteq> spi n" for j c
    using other_pin [OF that(1) w(1) that(2)] bit_pin [OF w(3)] by (auto simp: gpio_effect_def gpio_addrs)
  have s: "gpio_effect (ce_of (spi n)) (int_of (spi n)) gpio_set0 (2 ^ ce_of (spi n)) c = c\<lparr>ce := True\<rparr>" for c
    using bit_pin [OF w(3)] by (simp add: gpio_effect_def)
  show ?thesis
    using put32 [OF assms(1,2) w(1) o] w(2,3) by (simp add: gpio_set_on_def bad_pin_def s)
qed

lemma set_off:
  assumes "stable S" "rest (spi n) R" "wired n"
  shows "io_ok (on (spi n) S R) (gpio_set_off hw (ce_pin (config n)))
    (\<lambda>_. on (spi n) (\<lambda>c'. \<exists>c. S c \<and> c' = c\<lparr>ce := False\<rparr>) R)"
proof -
  have w: "spi n < 2" "ce_pin (config n) = ce_of (spi n)" "ce_of (spi n) < 32"
    using assms(3) by (auto simp: wired_def)
  have o: "gpio_effect (ce_of j) (int_of j) gpio_clr0 (2 ^ ce_of (spi n)) c = c" if "j < 2" "j \<noteq> spi n" for j c
    using other_pin [OF that(1) w(1) that(2)] bit_pin [OF w(3)] by (auto simp: gpio_effect_def gpio_addrs)
  have s: "gpio_effect (ce_of (spi n)) (int_of (spi n)) gpio_clr0 (2 ^ ce_of (spi n)) c = c\<lparr>ce := False\<rparr>" for c
    using bit_pin [OF w(3)] by (simp add: gpio_effect_def gpio_addrs)
  show ?thesis
    using put32 [OF assms(1,2) w(1) o] w(2,3) by (simp add: gpio_set_off_def bad_pin_def s)
qed

text \<open>The same rules where nothing can happen on the air and the chip is known exactly.\<close>

lemma exact: "(\<lambda>c'. \<exists>c0. c = c0 \<and> c' = f c0) = (=) (f c)"
  by auto

lemma put_reg_at:
  assumes "frozen c" "one_byte r" "rest (spi n) R"
  shows "io_ok (on (spi n) ((=) c) R) (put_reg hw n r v) (\<lambda>_. on (spi n) ((=) (edge c (chip_write c r [v]))) R)"
  using put_reg_rule [OF frozen_stable [OF assms(1)] assms(2,3), of v] unfolding exact .

lemma get8_at:
  assumes "frozen c" "one_byte r" "rest (spi n) R"
  shows "io_ok (on (spi n) ((=) c) R) (nrf_get8 hw n r) (\<lambda>x d. x = reg_val c r \<and> on (spi n) ((=) c) R d)"
  by (rule io_ok_post [OF get8 [OF frozen_stable [OF assms(1)] assms(2,3)]]) (auto simp: on_def)

lemma isset_at:
  assumes "frozen c" "one_byte r" "rest (spi n) R" "b < 8"
  shows "io_ok (on (spi n) ((=) c) R) (nrf_bit_isset hw n r b)
    (\<lambda>v d. v = bit (reg_val c r) b \<and> on (spi n) ((=) c) R d)"
  by (rule io_ok_post [OF bit_isset [OF frozen_stable [OF assms(1)] assms(2-4)]]) (auto simp: on_def)

lemma set_on_at:
  assumes "frozen c" "rest (spi n) R" "wired n"
  shows "io_ok (on (spi n) ((=) c) R) (gpio_set_on hw (ce_pin (config n)))
    (\<lambda>_. on (spi n) ((=) (c\<lparr>ce := True\<rparr>)) R)"
  using set_on [OF frozen_stable [OF assms(1)] assms(2,3)] unfolding exact .

lemma set_off_at:
  assumes "frozen c" "rest (spi n) R" "wired n"
  shows "io_ok (on (spi n) ((=) c) R) (gpio_set_off hw (ce_pin (config n)))
    (\<lambda>_. on (spi n) ((=) (c\<lparr>ce := False\<rparr>)) R)"
  using set_off [OF frozen_stable [OF assms(1)] assms(2,3)] unfolding exact .

lemma delay_at:
  assumes "frozen c" "timeless k R" "unat us < 1048576"
  shows "io_ok (on k ((=) c) R) (delay_us hw us) (\<lambda>_. on k ((=) c) R)"
  by (rule delay [OF frozen_stable [OF assms(1)] assms(2,3)])

lemma put8_chk_at:
  assumes "frozen c" "one_byte r" "rest (spi n) R" "frozen (edge c (chip_write c r [v]))"
    "reg_val (edge c (chip_write c r [v])) r = v"
  shows "io_ok (on (spi n) ((=) c) R) (nrf_put8_chk hw n r v)
    (\<lambda>_. on (spi n) ((=) (edge c (chip_write c r [v]))) R)"
  unfolding nrf_put8_chk_def
proof (rule io_ok_bind)
  let ?c = "edge c (chip_write c r [v])"
  show "io_ok (on (spi n) ((=) c) R) (nrf_put8 hw n r v) (\<lambda>_. on (spi n) ((=) ?c) R)"
    using put8 [OF frozen_stable [OF assms(1)] assms(2,3), of v] unfolding exact .
  show "io_ok (on (spi n) ((=) ?c) R) (io_bind (nrf_get8 hw n r) (\<lambda>x.
      if x \<noteq> v then io_res (Inl (Panic ''reg: got, expected'')) else io_ret st)) (\<lambda>_. on (spi n) ((=) ?c) R)" for st :: u8
    by (rule io_ok_bind [OF get8_at [OF assms(4,2,3)]], rule io_ok_fact)
       (simp add: assms(5) io_ok_ret)
qed

lemma is_pwrup_at:
  assumes "frozen c" "rest (spi n) R"
  shows "io_ok (on (spi n) ((=) c) R) (nrf_is_pwrup hw n)
    (\<lambda>b d. b = bit (regs c NRF_CONFIG) 1 \<and> on (spi n) ((=) c) R d)"
  unfolding nrf_is_pwrup_def
  by (rule io_ok_bind [OF get8_at [OF assms(1) _ assms(2)]], simp, rule io_ok_fact)
     (auto simp: io_ok_def io_bind_def io_res_def io_ret_def bit_simps)

lemma pwrup_off_at:
  assumes "frozen c" "rest (spi n) R"
  shows "io_ok (on (spi n) ((=) c) R) (nrf_set_pwrup_off hw n) (\<lambda>_. on (spi n) ((=) (pwr False c)) R)"
proof -
  let ?x = "regs c NRF_CONFIG AND - 3"
  have p: "edge c (chip_write c NRF_CONFIG [?x]) = pwr False c" by (simp add: pwr_def)
  have off: "\<not> bit (regs (pwr False c) NRF_CONFIG) 1" by (simp add: pwr_def bit_simps)
  then have fr: "frozen (pwr False c)" by (simp add: frozen_def receiving_def sending_def)
  have chk: "io_ok (on (spi n) ((=) c) R) (nrf_put8_chk hw n NRF_CONFIG ?x) (\<lambda>_. on (spi n) ((=) (pwr False c)) R)"
    using put8_chk_at [OF assms(1) _ assms(2), of NRF_CONFIG ?x] fr unfolding p by (simp add: pwr_def)
  have "io_ok (on (spi n) ((=) c) R) (nrf_bit_clr hw n NRF_CONFIG 1) (\<lambda>_. on (spi n) ((=) (pwr False c)) R)"
    unfolding nrf_bit_clr_def
    by (rule io_ok_bind [OF io_ok_res], simp, rule io_ok_bind, rule io_ok_fact, rule get8_at [OF assms(1) _ assms(2)], simp,
        rule io_ok_bind [OF io_ok_res], simp add: bit_clr_def, rule io_ok_fact)
       (auto simp: u8_power intro!: io_ok_fact io_ok_skip chk)
  then show ?thesis unfolding nrf_set_pwrup_off_def
    by (rule io_ok_bind) (use off in \<open>auto intro!: io_ok_assert io_ok_not io_ok_post [OF is_pwrup_at [OF fr assms(2)]]\<close>)
qed

lemma pwrup_on_at:
  assumes "frozen c" "rest (spi n) R" "\<not> ce c"
  shows "io_ok (on (spi n) ((=) c) R) (nrf_set_pwrup_on hw n) (\<lambda>_. on (spi n) ((=) (pwr True c)) R)"
proof -
  let ?x = "regs c NRF_CONFIG OR 2"
  have p: "edge c (chip_write c NRF_CONFIG [?x]) = pwr True c" by (simp add: pwr_def)
  have "bit (2 :: u8) 1" by simp
  then have on: "bit (regs (pwr True c) NRF_CONFIG) 1" by (simp add: pwr_def bit_or_iff)
  have fr: "frozen (pwr True c)" using assms(3) by (simp add: frozen_def receiving_def sending_def pwr_def)
  have chk: "io_ok (on (spi n) ((=) c) R) (nrf_put8_chk hw n NRF_CONFIG ?x) (\<lambda>_. on (spi n) ((=) (pwr True c)) R)"
    using put8_chk_at [OF assms(1) _ assms(2), of NRF_CONFIG ?x] fr unfolding p by (simp add: pwr_def)
  have "io_ok (on (spi n) ((=) c) R) (nrf_bit_set hw n NRF_CONFIG 1) (\<lambda>_. on (spi n) ((=) (pwr True c)) R)"
    unfolding nrf_bit_set_def
    by (rule io_ok_bind [OF io_ok_res], simp, rule io_ok_bind, rule io_ok_fact, rule get8_at [OF assms(1) _ assms(2)], simp,
        rule io_ok_bind [OF io_ok_res], simp add: bit_set_def, rule io_ok_fact)
       (auto simp: u8_power intro!: io_ok_fact io_ok_skip chk)
  then show ?thesis unfolding nrf_set_pwrup_on_def
    by (rule io_ok_bind) (use on in \<open>auto intro!: io_ok_assert io_ok_post [OF is_pwrup_at [OF fr assms(2)]]\<close>)
qed

lemma xfer_at:
  assumes "frozen c" "documented c tx" "rest (spi n) R"
  shows "io_ok (on (spi n) ((=) c) R) (wrap_spi_n_transfer hw n tx)
    (\<lambda>rx d. answers c tx rx \<and> on (spi n) ((=) (chip_next c tx)) R d)"
  by (rule io_ok_post [OF xfer [OF frozen_stable [OF assms(1)] _ assms(3)]]) (use assms(2) in \<open>auto simp: on_def\<close>)

lemma putn_at:
  assumes "frozen c" "documented c (cmd # bs)" "rest (spi n) R" "0 < length bs" "length bs < 64"
  shows "io_ok (on (spi n) ((=) c) R) (nrf_putn hw n cmd bs)
    (\<lambda>st d. st = chip_status c \<and> on (spi n) ((=) (chip_next c (cmd # bs))) R d)"
  unfolding nrf_putn_def
proof (rule io_ok_bind [OF io_ok_res [where x = "()"]])
  show "fits_buffer (length bs) = Inr ()" using assms(4,5) by (simp add: fits_buffer_def)
  show "io_ok (\<lambda>d. x = () \<and> on (spi n) ((=) c) R d) (io_bind (wrap_spi_n_transfer hw n (cmd # bs)) (\<lambda>rx. io_ret (rx ! 0)))
      (\<lambda>st d. st = chip_status c \<and> on (spi n) ((=) (chip_next c (cmd # bs))) R d)" for x
    by (rule io_ok_fact, rule io_ok_bind [OF xfer_at [OF assms(1-3)]])
       (auto simp: answers_def intro!: io_ok_ret)
qed

lemma getn_at:
  assumes "frozen c" "documented c (cmd # replicate m NRF_NOP)" "rest (spi n) R" "0 < m" "m < 64"
    "chip_data c (cmd # replicate m NRF_NOP) = Some bs"
  shows "io_ok (on (spi n) ((=) c) R) (nrf_getn hw n cmd m)
    (\<lambda>r d. r = (chip_status c, bs) \<and> on (spi n) ((=) (chip_next c (cmd # replicate m NRF_NOP))) R d)"
  unfolding nrf_getn_def
proof (rule io_ok_bind [OF io_ok_res [where x = "()"]])
  show "fits_buffer m = Inr ()" using assms(4,5) by (simp add: fits_buffer_def)
  show "io_ok (\<lambda>d. x = () \<and> on (spi n) ((=) c) R d)
      (io_bind (wrap_spi_n_transfer hw n (cmd # replicate m NRF_NOP)) (\<lambda>rx. io_ret (rx ! 0, take m (drop 1 rx))))
      (\<lambda>r d. r = (chip_status c, bs) \<and> on (spi n) ((=) (chip_next c (cmd # replicate m NRF_NOP))) R d)" for x
    by (rule io_ok_fact, rule io_ok_bind [OF xfer_at [OF assms(1-3)]])
       (auto simp: answers_def assms(6) drop_Suc intro!: io_ok_ret)
qed

text \<open>Addresses have three bytes, the lowest first.\<close>

definition with_adr :: "chip \<Rightarrow> u8 \<Rightarrow> u32 \<Rightarrow> chip" where
  "with_adr c r a = c\<lparr>adr := (adr c)(r := take 3 (le32_bytes a) @ drop 3 (adr c r))\<rparr>"

lemma set_addr_at:
  assumes "frozen c" "is_adr r" "rest (spi n) R" "length (adr c r) = 5" "unat a < 16777216"
  shows "io_ok (on (spi n) ((=) c) R) (nrf_set_addr hw n r a nrf_default_addr_nbytes)
    (\<lambda>_. on (spi n) ((=) (with_adr c r a)) R)"
proof -
  let ?c = "with_adr c r a"
  have nx: "chip_next c ((r OR NRF_WR_REG) # take 3 (le32_bytes a)) = ?c"
    using is_adr_small [OF assms(2)] chip_next_put [of r c "take 3 (le32_bytes a)"] assms(2)
    by (simp add: or.commute chip_write_def put_at_def edge_id with_adr_def)
  have fr: "frozen ?c" using assms(1) by (auto simp: frozen_def receiving_def sending_def with_adr_def)
  have dat: "chip_data ?c (r # replicate 3 NRF_NOP) = Some (take 3 (le32_bytes a))"
    using is_adr_small [OF assms(2)] assms(2) by (simp add: chip_data_def with_adr_def)
  have nx2: "chip_next ?c (r # replicate 3 NRF_NOP) = ?c"
    using is_adr_small [OF assms(2)] by (simp add: chip_next_get)
  have put: "io_ok (on (spi n) ((=) c) R) (nrf_putn hw n (r OR NRF_WR_REG) (take 3 (le32_bytes a)))
      (\<lambda>_. on (spi n) ((=) ?c) R)"
    by (rule io_ok_post [OF putn_at [OF assms(1) documented_put_adr [OF assms(2)] assms(3)]]) (auto simp: nx)
  have get: "io_ok (on (spi n) ((=) ?c) R) (nrf_get_addr hw n r 3) (\<lambda>x d. x = a \<and> on (spi n) ((=) ?c) R d)"
    unfolding nrf_get_addr_def
    by (rule io_ok_bind [OF io_ok_res], simp, rule io_ok_fact,
        rule io_ok_bind [OF getn_at [OF fr documented_get_adr [OF assms(2)] assms(3) _ _ dat]])
       (auto simp: nx2 le24_join [OF assms(5), simplified] intro!: io_ok_ret)
  show ?thesis unfolding nrf_set_addr_def nrf_default_addr_nbytes_def
    by (rule io_ok_bind [OF io_ok_res], simp, rule io_ok_fact, rule io_ok_bind [OF put], rule io_ok_opt_assert)
       (auto intro!: io_ok_bind [OF get] io_ok_ret)
qed

end

end
