(* ===== verification/Nrf_Send.thy ===== *)
theory Nrf_Send
  imports Nrf_Rules
begin

text \<open>
  The state in which the radio waits for packets, and the unacknowledged send: it transmits exactly
  the message to the address, whatever arrives meanwhile, and goes back to waiting.
\<close>

section \<open>Flags\<close>

lemma bit_fifo_status [simp]:
  "bit (fifo_status c) 0 = (rx_fifo c = [])" "bit (fifo_status c) (Suc 0) = (3 \<le> length (rx_fifo c))"
  "bit (fifo_status c) 4 = (tx_fifo c = [])" "bit (fifo_status c) 5 = (3 \<le> length (tx_fifo c))"
  by (simp_all add: fifo_status_def bit_simps)

lemma reg_val_fifo [simp]: "reg_val c NRF_FIFO_STATUS = fifo_status c"
  and reg_val_status [simp]: "reg_val c NRF_STATUS = chip_status c"
  by (simp_all add: reg_val_def nrf_regs)

lemma bit_chip_status:
  assumes "unat (pipe_no c) < 8"
  shows "bit (chip_status c) 6 = rx_dr c" "bit (chip_status c) 5 = tx_ds c" "bit (chip_status c) 4 = max_rt c"
    "take_bit 3 (drop_bit 1 (chip_status c)) = pipe_no c"
proof -
  have "take_bit 3 (pipe_no c) = pipe_no c"
    using assms by (simp add: unat_eq_iff unsigned_take_bit_eq take_bit_nat_eq_self)
  then have p: "bit (pipe_no c) i \<Longrightarrow> i < 3" for i using bit_take_bit_iff [of 3 "pipe_no c" i] by simp
  have q: "bit (pipe_no c * 2) i \<longleftrightarrow> i \<noteq> 0 \<and> i < 8 \<and> bit (pipe_no c) (i - 1)" for i
    using bit_double_iff [of "pipe_no c" i] by (auto simp: mult.commute)
  show "bit (chip_status c) 6 = rx_dr c" "bit (chip_status c) 5 = tx_ds c" "bit (chip_status c) 4 = max_rt c"
    using p [of 5] p [of 4] p [of 3] q by (auto simp: chip_status_def bit_simps)
  show "take_bit 3 (drop_bit 1 (chip_status c)) = pipe_no c"
    by (rule bit_word_eqI) (auto simp: chip_status_def bit_simps q dest: p)
qed

section \<open>A radio that waits for packets\<close>

text \<open>
  \<open>dn\<close> are the payloads that were taken out of the receive FIFO, \<open>l\<close> the transmissions so far and \<open>N\<close>
  the number of payloads that enter the FIFO in all; \<open>g\<close> are payloads known to have entered it, the
  first ones of its log. A radio at rest has the receive flag set exactly
  while a payload waits in its FIFO, and the interrupt is then pending.
\<close>

definition ready_rx :: "nat \<Rightarrow> u8 list list \<Rightarrow> (u8 list \<times> u8 list) list \<Rightarrow> nat \<Rightarrow> u8 list list \<Rightarrow> chip \<Rightarrow> bool" where
  "ready_rx nb dn l N g c \<longleftrightarrow>
     regs c NRF_CONFIG = rx_config \<and> regs c NRF_EN_RXADDR = 2 \<and> regs c NRF_SETUP_AW = 1 \<and>
     regs c NRF_RX_PW_P1 = of_nat nb \<and> ce c \<and> tx_fifo c = [] \<and> \<not> tx_ds c \<and> \<not> max_rt c \<and> fen c \<and>
     length (rx_fifo c) \<le> 3 \<and> (\<forall>(p, pl) \<in> set (rx_fifo c). p = 1 \<and> length pl = nb) \<and>
     length (adr c NRF_TX_ADDR) = 5 \<and> rx_log c = dn @ map snd (rx_fifo c) \<and> tx_log c = l \<and>
     length (rx_log c) + incoming c = N \<and> take (length g) (rx_log c) = g"

definition idle :: "nat \<Rightarrow> u8 list list \<Rightarrow> (u8 list \<times> u8 list) list \<Rightarrow> nat \<Rightarrow> u8 list list \<Rightarrow> chip \<Rightarrow> bool" where
  "idle nb dn l N g c \<longleftrightarrow> ready_rx nb dn l N g c \<and> (rx_dr c \<longleftrightarrow> rx_fifo c \<noteq> []) \<and> (rx_dr c \<longrightarrow> event c)"

lemmas config_defs = rx_config_def tx_config_def USE_TX_INTERRUPT_def USE_RX_INTERRUPT_def

lemma config_bits [simp]:
  "bit rx_config 0" "bit rx_config (Suc 0)" "\<not> bit rx_config 6" "bit rx_config 5" "bit rx_config 4"
  "\<not> bit tx_config 0" "bit tx_config (Suc 0)" "\<not> bit tx_config 6" "bit tx_config 5" "bit tx_config 4"
  by (simp_all add: config_defs)

lemma idle_receiving: "idle nb dn l N g c \<Longrightarrow> receiving c \<and> \<not> sending c"
  by (simp add: ready_rx_def idle_def receiving_def sending_def)

lemma idle_irq: "idle nb dn l N g c \<Longrightarrow> irq_low c = rx_dr c"
  by (simp add: ready_rx_def idle_def irq_low_def)

lemma bit_2_iff: "bit (2 :: u8) i \<longleftrightarrow> i = Suc 0"
  using bit_exp_iff [where 'a = u8, of 1 i] by auto

lemma ready_rx_arrive:
  assumes "nb \<le> 32" "ready_rx nb dn l N g c" "evolve c c'"
  shows "ready_rx nb dn l N g c' \<and> rx_dr c' \<and> rx_fifo c' \<noteq> [] \<and> (rx_dr c \<longrightarrow> event c' = event c) \<and>
    (\<not> rx_dr c \<longrightarrow> event c')"
  using assms(3)
proof cases
  case (arrive p pl)
  have p: "p = 1" using arrive(5) assms(2) unfolding ready_rx_def by (metis bit_2_iff One_nat_def)
  have "NRF_RX_PW_P0 + of_nat p = NRF_RX_PW_P1" by (simp add: p nrf_regs)
  then have "length pl = nb" using arrive(6) assms(1,2)
    by (simp add: ready_rx_def unat_of_nat take_bit_nat_eq_self)
  moreover have "take (length g) (rx_log c @ [pl]) = g"
    using assms(2) unfolding ready_rx_def by (metis append_take_drop_id append_eq_conv_conj append.assoc)
  ultimately show ?thesis using assms(2) arrive(3,8) p unfolding arrive(1)
    by (auto simp: ready_rx_def edge_def irq_low_def)
qed (use assms(2) in \<open>auto simp: ready_rx_def sending_def\<close>)

lemma idle_stable: "nb \<le> 32 \<Longrightarrow> stable (idle nb dn l N g)"
  unfolding stable_def idle_def using ready_rx_arrive by meson

text \<open>The same with the unacknowledged send enabled.\<close>

definition idle_tx :: "nat \<Rightarrow> u8 list list \<Rightarrow> (u8 list \<times> u8 list) list \<Rightarrow> nat \<Rightarrow> u8 list list \<Rightarrow> chip \<Rightarrow> bool" where
  "idle_tx nb dn l N g c \<longleftrightarrow> idle nb dn l N g c \<and> noack_enabled c"

lemma evolve_regs: "evolve c c' \<Longrightarrow> regs c' = regs c"
  by (auto simp: edge_def elim!: evolve.cases)

lemma idle_tx_stable: "nb \<le> 32 \<Longrightarrow> stable (idle_tx nb dn l N g)"
  using idle_stable unfolding stable_def idle_tx_def noack_enabled_def by (metis evolve_regs)

section \<open>Waiting for the end of a transmission\<close>

lemma bit_isset_unfold:
  "b < 8 \<Longrightarrow> nrf_bit_isset hw n r b d =
     Inr (bit (fst (spi_n_transfer hw (spi n) [r, NRF_NOP] d) ! 1) b, snd (spi_n_transfer hw (spi n) [r, NRF_NOP] d))"
  by (simp add: nrf_bit_isset_def nrf_get8_def wrap_spi_n_transfer_def io_bind_def io_res_def io_ret_def
      split_beta bit_simps)

text \<open>A chip with a payload to transmit, and the same chip when it is out.\<close>

definition transmitted :: "chip \<Rightarrow> chip" where
  "transmitted c = c\<lparr>tx_fifo := [], tx_ds := True,
     tx_log := tx_log c @ [(take (unat (regs c NRF_SETUP_AW) + 2) (adr c NRF_TX_ADDR), snd (hd (tx_fifo c)))]\<rparr>"

definition one_out :: "chip \<Rightarrow> u8 list \<Rightarrow> bool" where
  "one_out c msg \<longleftrightarrow> tx_fifo c = [(False, msg)] \<and> \<not> max_rt c \<and> regs c NRF_CONFIG = tx_config"

lemma transmitted_frozen: "one_out c msg \<Longrightarrow> frozen (transmitted c)"
  by (simp add: frozen_def transmitted_def receiving_def sending_def one_out_def)

lemma one_out_stable: "one_out c msg \<Longrightarrow> stable (\<lambda>x. x = c \<or> x = transmitted c)"
  unfolding stable_def
proof (intro allI impI)
  fix x c' assume o: "one_out c msg" and "x = c \<or> x = transmitted c" and e: "evolve x c'"
  from e show "c' = c \<or> c' = transmitted c"
  proof cases
    case (transmit a pl ts)
    then have "x = c" using \<open>x = c \<or> x = transmitted c\<close> by (auto simp: transmitted_def)
    moreover have "irq_low (transmitted c) = irq_low c" using o
      by (simp add: transmitted_def irq_low_def one_out_def)
    ultimately show ?thesis using transmit o
      by (simp add: one_out_def) (simp add: transmitted_def edge_id)
  next
    case (arrive p pl)
    then show ?thesis using o \<open>x = c \<or> x = transmitted c\<close>
      by (auto simp: one_out_def receiving_def transmitted_def)
  next
    case (give_up pl ts)
    then show ?thesis using o \<open>x = c \<or> x = transmitted c\<close>
      by (auto simp: one_out_def transmitted_def)
  qed
qed

context nrf_radio
begin

lemma wait_tx:
  assumes "one_out c msg" "ce c" "rest (spi n) R"
  shows "on (spi n) (\<lambda>x. x = c \<or> x = transmitted c) R d \<Longrightarrow> lag d (spi n) < fuel \<Longrightarrow>
    \<exists>d'. wait_tx_empty hw n fuel d = Inr ((), d') \<and> on (spi n) ((=) (transmitted c)) R d'"
proof (induction fuel arbitrary: d)
  case (Suc fuel)
  note st = one_out_stable [OF assms(1)]
  obtain v d' where r: "nrf_tx_fifo_empty hw n d = Inr (v, d')" "R d'"
      "chips d' (spi n) = c \<or> chips d' (spi n) = transmitted c"
      "v = (tx_fifo (chips d' (spi n)) = [])"
    using io_okD [OF bit_isset [OF st _ assms(3), of NRF_FIFO_STATUS 4] Suc.prems(1)]
    by (auto simp: nrf_tx_fifo_empty_def on_def)
  have tx: "spi_n_transfer hw (spi n) [NRF_FIFO_STATUS, NRF_NOP] d =
      (fst (spi_n_transfer hw (spi n) [NRF_FIFO_STATUS, NRF_NOP] d), d')"
    using r(1) by (simp add: nrf_tx_fifo_empty_def bit_isset_unfold prod_eq_iff)
  have snd_c: "sending c" using assms(1,2) by (simp add: sending_def one_out_def)
  show ?case
  proof (cases "chips d' (spi n) = c")
    case False
    then have "v" "chips d' (spi n) = transmitted c" using r by (auto simp: transmitted_def)
    then show ?thesis using r by (auto simp: io_bind_def io_ret_def on_def)
  next
    case True
    have "chips d (spi n) = c"
    proof (rule ccontr)
      assume "chips d (spi n) \<noteq> c"
      then have "chips d (spi n) = transmitted c" using Suc.prems(1) by (auto simp: on_def)
      then obtain c0 where c0: "evolves (transmitted c) c0"
          "chips d' (spi n) = chip_next c0 [NRF_FIFO_STATUS, NRF_NOP]"
        using spi_step [OF tx] documented_get [of NRF_FIFO_STATUS] by auto
      have "c0 = transmitted c"
        using stable_evolves [OF frozen_stable [OF transmitted_frozen [OF assms(1)]] refl c0(1)] by simp
      then have "chips d' (spi n) = transmitted c"
        using c0(2) by (simp add: chip_next_get NRF_FIFO_STATUS_def)
      with True have "tx_fifo c = tx_fifo (transmitted c)" by simp
      then have "tx_fifo c = []" by (simp add: transmitted_def)
      with assms(1) show False by (simp add: one_out_def)
    qed
    then have "lag d' (spi n) < lag d (spi n)"
      using spi_lag [OF tx] True snd_c by (simp add: NRF_FIFO_STATUS_def)
    moreover have "\<not> v" using r(4) True assms(1) by (simp add: one_out_def)
    ultimately show ?thesis using Suc.IH [of d'] Suc.prems r by (auto simp: io_bind_def on_def)
  qed
qed simp

lemma tx_intr_clr_at:
  assumes "frozen c" "rest (spi n) R" "bit (regs c NRF_CONFIG) 5"
  shows "io_ok (on (spi n) ((=) c) R) (nrf_tx_intr_clr hw n) (\<lambda>_. on (spi n) ((=) (c\<lparr>tx_ds := False\<rparr>)) R)"
proof -
  have "chip_write c NRF_STATUS [push_bit 5 1] = c\<lparr>tx_ds := False\<rparr>"
    by (simp add: chip_write_def is_adr_def nrf_regs)
  moreover have "edge c (c\<lparr>tx_ds := False\<rparr>) = c\<lparr>tx_ds := False\<rparr>"
    using assms(3) by (intro edge_id) (simp add: irq_low_def)
  ultimately show ?thesis
    using put_reg_at [OF assms(1) one_byte_regs(8) assms(2), of "push_bit 5 1"]
    unfolding nrf_tx_intr_clr_def put_reg_def by simp
qed

text \<open>The first half of the send, up to the payload in the transmit FIFO.\<close>

definition loaded :: "chip \<Rightarrow> u32 \<Rightarrow> u8 list \<Rightarrow> chip" where
  "loaded c a msg = (with_adr (c\<lparr>regs := (regs c)(NRF_CONFIG := tx_config)\<rparr>) NRF_TX_ADDR a)\<lparr>tx_fifo := [(False, msg)]\<rparr>"

lemma send_load:
  assumes "idle_tx nb dn l N g c" "wired n" "timeless (spi n) R" "unat a < 16777216" "0 < length msg" "length msg \<le> 32"
  shows "io_ok (on (spi n) ((=) (c\<lparr>ce := False\<rparr>)) R)
    (io_seq [put_reg hw n NRF_CONFIG tx_config, gpio_set_on hw (ce_pin (config n)), delay_ms hw 2,
        nrf_set_addr hw n NRF_TX_ADDR a nrf_default_addr_nbytes,
        io_skip (nrf_putn hw n W_TX_PAYLOAD_NO_ACK msg)])
    (\<lambda>_. on (spi n) ((=) (loaded c a msg)) R)"
proof -
  note R = timeless_rest [OF assms(3)]
  let ?c2 = "c\<lparr>ce := False, regs := (regs c)(NRF_CONFIG := tx_config)\<rparr>"
  let ?c3 = "c\<lparr>regs := (regs c)(NRF_CONFIG := tx_config)\<rparr>"
  have c: "regs c NRF_CONFIG = rx_config" "ce c" "tx_fifo c = []" "length (adr c NRF_TX_ADDR) = 5"
    using assms(1) by (simp_all add: ready_rx_def idle_def idle_tx_def)
  have fr: "frozen (c\<lparr>ce := False\<rparr>)" "frozen ?c2" "frozen ?c3" "frozen (with_adr ?c3 NRF_TX_ADDR a)"
    using c by (simp_all add: frozen_def receiving_def sending_def with_adr_def)
  have e: "edge (c\<lparr>ce := False\<rparr>) ?c2 = ?c2" "?c2\<lparr>ce := True\<rparr> = ?c3" using c
    by (simp_all add: edge_id irq_low_def)
  have dc: "documented (with_adr ?c3 NRF_TX_ADDR a) (W_TX_PAYLOAD_NO_ACK # msg)"
    using assms(1,5,6)
    by (auto simp: documented_def nrf_cmds Suc_le_eq idle_tx_def noack_enabled_def with_adr_def nrf_regs)
  have nx: "chip_next (with_adr ?c3 NRF_TX_ADDR a) (W_TX_PAYLOAD_NO_ACK # msg) = loaded c a msg"
    using c by (simp add: chip_next_def nrf_cmds loaded_def with_adr_def)
  have 1: "io_ok (on (spi n) ((=) (c\<lparr>ce := False\<rparr>)) R) (put_reg hw n NRF_CONFIG tx_config) (\<lambda>_. on (spi n) ((=) ?c2) R)"
    using put_reg_at [OF fr(1) one_byte_regs(1) R, of tx_config] e by simp
  have 2: "io_ok (on (spi n) ((=) ?c2) R) (gpio_set_on hw (ce_pin (config n))) (\<lambda>_. on (spi n) ((=) ?c3) R)"
    using set_on_at [OF fr(2) R assms(2)] e by simp
  have 3: "io_ok (on (spi n) ((=) ?c3) R) (delay_ms hw 2) (\<lambda>_. on (spi n) ((=) ?c3) R)"
    unfolding delay_ms_def by (rule delay_at [OF fr(3) assms(3)]) simp
  have 4: "io_ok (on (spi n) ((=) ?c3) R) (nrf_set_addr hw n NRF_TX_ADDR a nrf_default_addr_nbytes)
      (\<lambda>_. on (spi n) ((=) (with_adr ?c3 NRF_TX_ADDR a)) R)"
    by (rule set_addr_at [OF fr(3) _ R _ assms(4)]) (simp_all add: c)
  have 5: "io_ok (on (spi n) ((=) (with_adr ?c3 NRF_TX_ADDR a)) R) (io_skip (nrf_putn hw n W_TX_PAYLOAD_NO_ACK msg))
      (\<lambda>_. on (spi n) ((=) (loaded c a msg)) R)"
    by (rule io_ok_skip, rule io_ok_post [OF putn_at [OF fr(4) dc R]]) (use assms(5,6) nx in auto)
  show ?thesis
    by (rule io_ok_seq_Cons [OF 1] io_ok_seq_Cons [OF 2] io_ok_seq_Cons [OF 3] io_ok_seq_Cons [OF 4]
        io_ok_seq_Cons [OF 5] io_ok_seq_Nil)+
qed

lemma send_wait:
  assumes "one_out c msg" "ce c" "rest (spi n) R" "wired n"
  shows "io_ok (on (spi n) ((=) c) R)
    (io_seq [gpio_set_off hw (ce_pin (config n)), gpio_set_on hw (ce_pin (config n)), wait_tx_empty hw n (hw_polls hw)])
    (\<lambda>_. on (spi n) ((=) (transmitted c)) R)"
proof -
  let ?S = "\<lambda>x. x = c \<or> x = transmitted c"
  let ?O = "\<lambda>x. \<exists>y. ?S y \<and> x = y\<lparr>ce := False\<rparr>"
  have ce: "ce (transmitted c)" using assms(2) by (simp add: transmitted_def)
  have "stable ?O" by (auto simp: stable_def receiving_def sending_def elim!: evolve.cases)
  then have on: "io_ok (on (spi n) ?O R) (gpio_set_on hw (ce_pin (config n))) (\<lambda>_. on (spi n) ?S R)"
    by (rule io_ok_post [OF set_on [OF _ assms(3,4)]]) (use assms(2) ce in \<open>auto simp: on_def\<close>)
  have off: "io_ok (on (spi n) ((=) c) R) (gpio_set_off hw (ce_pin (config n))) (\<lambda>_. on (spi n) ?O R)"
    by (rule io_ok_pre [OF set_off [OF one_out_stable [OF assms(1)] assms(3,4)]]) (simp add: on_def)
  have w: "io_ok (on (spi n) ?S R) (wait_tx_empty hw n (hw_polls hw)) (\<lambda>_. on (spi n) ((=) (transmitted c)) R)"
    using wait_tx [OF assms(1-3) _ lag_bound] by (intro io_okI) blast
  show ?thesis
    by (rule io_ok_seq_Cons [OF off] io_ok_seq_Cons [OF on] io_ok_seq_Cons [OF w] io_ok_seq_Nil)+
qed

lemma pwr_simps:
  "regs c NRF_CONFIG = tx_config \<Longrightarrow> pwr False c = c\<lparr>regs := (regs c)(NRF_CONFIG := 0x3c)\<rparr>"
  "regs c NRF_CONFIG = 0x3c \<Longrightarrow> pwr True c = c\<lparr>regs := (regs c)(NRF_CONFIG := tx_config)\<rparr>"
  unfolding pwr_def by (auto simp: config_defs irq_low_def intro!: edge_id)

text \<open>The second half: back to the state that waits for packets.\<close>

lemma send_back:
  assumes "regs c NRF_CONFIG = tx_config" "tx_fifo c = []" "ce c" "unat (pipe_no c) < 8"
    "idle_tx nb dn l N g (c\<lparr>tx_ds := False, regs := (regs c)(NRF_CONFIG := rx_config)\<rparr>)" "nb \<le> 32"
    "wired n" "timeless (spi n) R"
  shows "io_ok (on (spi n) ((=) c) R)
    (io_seq [nrf_tx_intr_clr hw n, nrf_opt_assert (io_not (nrf_has_tx_intr hw n)),
        nrf_set_pwrup_off hw n, gpio_set_off hw (ce_pin (config n)), nrf_set_pwrup_on hw n, delay_us hw 500,
        put_reg hw n NRF_CONFIG rx_config, gpio_set_on hw (ce_pin (config n)), delay_us hw 500])
    (\<lambda>_. on (spi n) (idle_tx nb dn l N g) R)"
proof -
  note R = timeless_rest [OF assms(8)]
  let ?c0 = "c\<lparr>tx_ds := False\<rparr>"
  let ?c1 = "c\<lparr>tx_ds := False, regs := (regs c)(NRF_CONFIG := 0x3c)\<rparr>"
  let ?c2 = "c\<lparr>tx_ds := False, regs := (regs c)(NRF_CONFIG := 0x3c), ce := False\<rparr>"
  let ?c3 = "c\<lparr>tx_ds := False, ce := False\<rparr>"
  let ?c4 = "c\<lparr>tx_ds := False, regs := (regs c)(NRF_CONFIG := rx_config), ce := False\<rparr>"
  let ?c5 = "c\<lparr>tx_ds := False, regs := (regs c)(NRF_CONFIG := rx_config)\<rparr>"
  have fr: "frozen c" "frozen ?c0" "frozen ?c1" "frozen ?c2" "frozen ?c3" "frozen ?c4"
    using assms(1-3) by (simp_all add: frozen_def receiving_def sending_def)
  have st: "unat (pipe_no ?c0) < 8" using assms(4) by (simp add: pipe_no_def)
  have reg: "(regs c)(NRF_CONFIG := tx_config) = regs c" using assms(1) by auto
  have p: "pwr False ?c0 = ?c1" "pwr True ?c2 = ?c3" using assms(1)
    by (simp_all add: pwr_simps reg)
  have e: "edge ?c3 (chip_write ?c3 NRF_CONFIG [rx_config]) = ?c4"
    using assms(1) by (simp add: irq_low_def edge_id)
  have 1: "io_ok (on (spi n) ((=) c) R) (nrf_tx_intr_clr hw n) (\<lambda>_. on (spi n) ((=) ?c0) R)"
    by (rule tx_intr_clr_at [OF fr(1) R]) (simp add: assms(1))
  have 2: "io_ok (on (spi n) ((=) ?c0) R) (nrf_opt_assert (io_not (nrf_has_tx_intr hw n))) (\<lambda>_. on (spi n) ((=) ?c0) R)"
    unfolding nrf_has_tx_intr_def
    by (rule io_ok_opt_assert, rule io_ok_not, rule io_ok_post [OF isset_at [OF fr(2) _ R]])
       (simp_all add: bit_chip_status [OF st])
  have 3: "io_ok (on (spi n) ((=) ?c0) R) (nrf_set_pwrup_off hw n) (\<lambda>_. on (spi n) ((=) ?c1) R)"
    using pwrup_off_at [OF fr(2) R] by (simp add: p)
  have 4: "io_ok (on (spi n) ((=) ?c1) R) (gpio_set_off hw (ce_pin (config n))) (\<lambda>_. on (spi n) ((=) ?c2) R)"
    by (rule set_off_at [OF fr(3) R assms(7)])
  have 5: "io_ok (on (spi n) ((=) ?c2) R) (nrf_set_pwrup_on hw n) (\<lambda>_. on (spi n) ((=) ?c3) R)"
    using pwrup_on_at [OF fr(4) R] by (simp add: p)
  have 6: "io_ok (on (spi n) ((=) ?c3) R) (delay_us hw 500) (\<lambda>_. on (spi n) ((=) ?c3) R)"
    by (rule delay_at [OF fr(5) assms(8)]) simp
  have 7: "io_ok (on (spi n) ((=) ?c3) R) (put_reg hw n NRF_CONFIG rx_config) (\<lambda>_. on (spi n) ((=) ?c4) R)"
    using put_reg_at [OF fr(5) one_byte_regs(1) R, of rx_config] unfolding e .
  have "?c4\<lparr>ce := True\<rparr> = ?c5" using assms(3) by simp
  then have 8: "io_ok (on (spi n) ((=) ?c4) R) (gpio_set_on hw (ce_pin (config n))) (\<lambda>_. on (spi n) (idle_tx nb dn l N g) R)"
    using assms(5) by (intro io_ok_post [OF set_on_at [OF fr(6) R assms(7)]]) (auto simp: on_def)
  have 9: "io_ok (on (spi n) (idle_tx nb dn l N g) R) (delay_us hw 500) (\<lambda>_. on (spi n) (idle_tx nb dn l N g) R)"
    by (rule delay [OF idle_tx_stable [OF assms(6)] assms(8)]) simp
  show ?thesis
    by (rule io_ok_seq_Cons [OF 1] io_ok_seq_Cons [OF 2] io_ok_seq_Cons [OF 3] io_ok_seq_Cons [OF 4]
        io_ok_seq_Cons [OF 5] io_ok_seq_Cons [OF 6] io_ok_seq_Cons [OF 7] io_ok_seq_Cons [OF 8]
        io_ok_seq_Cons [OF 9] io_ok_seq_Nil)+
qed

lemma loaded_back:
  assumes "idle_tx nb dn l N g c" "unat a < 16777216"
  shows "idle_tx nb dn (l @ [(take 3 (le32_bytes a), msg)]) N g
    ((transmitted (loaded c a msg))\<lparr>tx_ds := False, regs := (regs (transmitted (loaded c a msg)))(NRF_CONFIG := rx_config)\<rparr>)"
  using assms by (auto simp: ready_rx_def idle_def idle_tx_def noack_enabled_def transmitted_def loaded_def with_adr_def nrf_regs numeral_3_eq_3)

lemma on_cases:
  "(\<And>c. S c \<Longrightarrow> io_ok (on k ((=) (f c)) R) m Q) \<Longrightarrow> io_ok (on k (\<lambda>c'. \<exists>c. S c \<and> c' = f c) R) m Q"
  unfolding io_ok_def on_def by (metis (no_types, lifting))

lemma idle_pipe: "idle_tx nb dn l N g c \<Longrightarrow> unat (pipe_no c) < 8"
  by (cases "rx_fifo c") (auto simp: ready_rx_def idle_def idle_tx_def noack_enabled_def pipe_no_def)

lemma send_handler:
  assumes "nb \<le> 32" "wired n" "timeless (spi n) R" "unat a < 16777216" "0 < length msg" "length msg \<le> 32"
  shows "io_ok (on (spi n) (idle_tx nb dn l N g) R) (spi_transfer_syscall_handler hw n a msg)
    (\<lambda>_. on (spi n) (idle_tx nb dn (l @ [(take 3 (le32_bytes a), msg)]) N g) R)"
proof -
  note R = timeless_rest [OF assms(3)]
  have off: "io_ok (on (spi n) (idle_tx nb dn l N g) R) (gpio_set_off hw (ce_pin (config n)))
      (\<lambda>_. on (spi n) (\<lambda>c'. \<exists>c. idle_tx nb dn l N g c \<and> c' = c\<lparr>ce := False\<rparr>) R)"
    by (rule set_off [OF idle_tx_stable [OF assms(1)] R assms(2)])
  have "io_ok (on (spi n) ((=) (c\<lparr>ce := False\<rparr>)) R) (io_seq (tl (
      [gpio_set_off hw (ce_pin (config n)), put_reg hw n NRF_CONFIG tx_config, gpio_set_on hw (ce_pin (config n)),
        delay_ms hw 2, nrf_set_addr hw n NRF_TX_ADDR a nrf_default_addr_nbytes,
        io_skip (nrf_putn hw n W_TX_PAYLOAD_NO_ACK msg)]
      @ [gpio_set_off hw (ce_pin (config n)), gpio_set_on hw (ce_pin (config n)), wait_tx_empty hw n (hw_polls hw)]
      @ [nrf_tx_intr_clr hw n, nrf_opt_assert (io_not (nrf_has_tx_intr hw n)),
        nrf_set_pwrup_off hw n, gpio_set_off hw (ce_pin (config n)), nrf_set_pwrup_on hw n, delay_us hw 500,
        put_reg hw n NRF_CONFIG rx_config, gpio_set_on hw (ce_pin (config n)), delay_us hw 500])))
      (\<lambda>_. on (spi n) (idle_tx nb dn (l @ [(take 3 (le32_bytes a), msg)]) N g) R)" if c: "idle_tx nb dn l N g c" for c
  proof -
    have o: "one_out (loaded c a msg) msg" "ce (loaded c a msg)"
      using c by (simp_all add: one_out_def loaded_def with_adr_def ready_rx_def idle_def idle_tx_def noack_enabled_def)
    have t: "regs (transmitted (loaded c a msg)) NRF_CONFIG = tx_config" "tx_fifo (transmitted (loaded c a msg)) = []"
        "ce (transmitted (loaded c a msg))" "unat (pipe_no (transmitted (loaded c a msg))) < 8"
      using c idle_pipe [OF c] by (simp_all add: transmitted_def loaded_def with_adr_def ready_rx_def idle_def idle_tx_def noack_enabled_def pipe_no_def)
    show ?thesis unfolding list.sel append_Cons append_Nil
      using io_ok_seq_append [OF send_load [OF c assms(2-6)] io_ok_seq_append [OF send_wait [OF o R assms(2)]
          send_back [OF t loaded_back [OF c assms(4)] assms(1,2,3)]]]
      unfolding append_Cons append_Nil .
  qed
  then show ?thesis
    unfolding spi_transfer_syscall_handler_def Let_def
    by (intro io_ok_seq_Cons [OF off] on_cases) simp
qed

lemma idle_rx_config: "idle_tx nb dn l N g c \<Longrightarrow> regs c NRF_CONFIG = rx_config"
    and idle_tx_empty: "idle_tx nb dn l N g c \<Longrightarrow> tx_fifo c = []"
  by (simp_all add: idle_def idle_tx_def ready_rx_def)

lemma config_is_rx_idle:
  assumes "nb \<le> 32" "rest (spi n) R"
  shows "io_ok (on (spi n) (idle_tx nb dn l N g) R) (config_is_rx hw n) (\<lambda>_. on (spi n) (idle_tx nb dn l N g) R)"
  unfolding config_is_rx_def
  by (rule io_ok_opt_assert, rule io_ok_bind [OF get8 [OF idle_tx_stable [OF assms(1)] one_byte_regs(1) assms(2)]])
     (auto simp: on_def idle_rx_config intro!: io_ok_ret)

lemma send_noack:
  assumes "nb \<le> 32" "wired n" "timeless (spi n) R" "unat a < 16777216" "0 < length msg" "length msg \<le> 32"
  shows "io_ok (on (spi n) (idle_tx nb dn l N g) R) (nrf_tx_send_noack hw n a msg)
    (\<lambda>r d. r = int (length msg) \<and> on (spi n) (idle_tx nb dn (l @ [(take 3 (le32_bytes a), msg)]) N g) R d)"
proof -
  note R = timeless_rest [OF assms(3)] and st = idle_tx_stable [OF assms(1)]
  have en2: "reg_val c NRF_EN_RXADDR = 2" if "idle_tx nb dn l N g c" for c
    using that by (simp add: idle_def idle_tx_def ready_rx_def reg_val_def nrf_regs)
  have en: "io_ok (on (spi n) (idle_tx nb dn l N g) R) (nrf_opt_assert (nrf_pipe_is_enabled hw n 1)) (\<lambda>_. on (spi n) (idle_tx nb dn l N g) R)"
    unfolding nrf_pipe_is_enabled_def
    by (rule io_ok_opt_assert, rule io_ok_bind [OF get8 [OF st one_byte_regs(3) R]])
       (auto simp: on_def en2 io_ok_def io_bind_def io_res_def io_ret_def)
  have em: "io_ok (on (spi n) (idle_tx nb dn l N g) R) (nrf_opt_assert (nrf_tx_fifo_empty hw n)) (\<lambda>_. on (spi n) (idle_tx nb dn l N g) R)"
    unfolding nrf_tx_fifo_empty_def
    by (rule io_ok_opt_assert, rule io_ok_post [OF bit_isset [OF st _ R]]) (auto simp: on_def idle_tx_empty)
  show ?thesis unfolding nrf_tx_send_noack_def
    by (rule io_ok_bind, (rule io_ok_seq_Cons [OF config_is_rx_idle [OF assms(1) R]] io_ok_seq_Cons [OF en]
        io_ok_seq_Cons [OF em] io_ok_seq_Cons [OF send_handler [OF assms]] io_ok_seq_Nil)+)
       (auto intro: io_ok_ret)
qed

end

end
