(* ===== verification/Nrf_Recv.thy ===== *)
theory Nrf_Recv
  imports Nrf_Send
begin

text \<open>
  Receiving: the interrupt handler moves every payload of the chip into the ring of the radio, in the
  order of arrival, and leaves no payload behind without a pending interrupt; a read takes the next
  packet out of the ring or, when the time is up, reports that there is none.
\<close>

text \<open>The bytes of a ring after the packets \<open>ps\<close>: a packet that does not fit is dropped as a whole.\<close>

definition deliver :: "u8 list \<Rightarrow> u8 list list \<Rightarrow> u8 list" where
  "deliver xs ps = foldl (\<lambda>xs p. if length xs + length p \<le> 8191 then xs @ p else xs) xs ps"

lemma deliver_simps [simp]:
  "deliver xs [] = xs"
  "deliver xs (p # ps) = deliver (if length xs + length p \<le> 8191 then xs @ p else xs) ps"
  "deliver xs (ps @ qs) = deliver (deliver xs ps) qs"
  by (simp_all add: deliver_def)

lemma deliver_room: "length xs + length (concat ps) \<le> 8191 \<Longrightarrow> deliver xs ps = xs @ concat ps"
  by (induction ps arbitrary: xs) auto

lemma cq_push_deliver:
  assumes "cq_inv q" "p \<noteq> []"
  shows "\<exists>ok q'. cq_push_n q p = Inr (ok, q') \<and> cq_inv q' \<and> cq_list q' = deliver (cq_list q) [p]"
proof (cases "length (cq_list q) + length p \<le> 8191")
  case True
  then show ?thesis using cq_push_n_ok [OF assms True] by auto
next
  case False
  then show ?thesis using cq_push_n_full [OF assms(2), of q] assms(1) by auto
qed

lemma late_word:
  assumes "s \<le> t" "t - s < 18446744073709551616"
  shows "(of_nat (t - s) \<ge> (ucast (u :: u32) :: 64 word)) = (s + unat u \<le> t)"
proof -
  have "unat u < 2 ^ 64" by (rule less_trans [OF unat_u32_less]) simp
  then have u: "unat (ucast u :: 64 word) = unat u" by (simp add: unsigned_ucast_eq take_bit_nat_eq_self)
  have t: "unat (of_nat (t - s) :: 64 word) = t - s"
    unfolding unat_of_nat using assms(2) by (simp add: take_bit_eq_mod del: of_nat_diff)
  show ?thesis unfolding word_le_nat_alt u t using assms(1) by arith
qed

section \<open>The interrupt handler\<close>

definition draining :: "nat \<Rightarrow> u8 list list \<Rightarrow> (u8 list \<times> u8 list) list \<Rightarrow> nat \<Rightarrow> u8 list list \<Rightarrow> chip \<Rightarrow> bool" where
  "draining nb dn l N g c \<longleftrightarrow> ready_rx nb dn l N g c \<and> (rx_fifo c = [] \<longrightarrow> \<not> rx_dr c)"

definition packet_waits :: "nat \<Rightarrow> u8 list list \<Rightarrow> (u8 list \<times> u8 list) list \<Rightarrow> nat \<Rightarrow> u8 list list \<Rightarrow> chip \<Rightarrow> bool" where
  "packet_waits nb dn l N g c \<longleftrightarrow> ready_rx nb dn l N g c \<and> rx_fifo c \<noteq> []"

lemma rx_stable:
  assumes "nb \<le> 32"
  shows "stable (ready_rx nb dn l N g)" "stable (draining nb dn l N g)" "stable (packet_waits nb dn l N g)"
  using ready_rx_arrive [OF assms] unfolding stable_def draining_def packet_waits_def by meson+

lemma ready_pipe: "ready_rx nb dn l N g c \<Longrightarrow> unat (pipe_no c) < 8"
  by (cases "rx_fifo c") (auto simp: ready_rx_def pipe_no_def)

lemma packet_waits_head:
  assumes "packet_waits nb dn l N g c"
  obtains pl rest where "rx_fifo c = (1, pl) # rest" "length pl = nb"
  using assms by (cases "rx_fifo c") (auto simp: packet_waits_def ready_rx_def)

lemma payload_next:
  assumes "packet_waits nb dn l N g c" "rx_fifo c = (1, pl) # rs"
  shows "ready_rx nb (dn @ [pl]) l N g (chip_next c (NRF_R_RX_PAYLOAD # xs))"
proof -
  have "chip_next c (NRF_R_RX_PAYLOAD # xs) = c\<lparr>rx_fifo := rs\<rparr>"
    using assms(2) by (simp add: chip_next_def nrf_cmds)
  then show ?thesis using assms by (auto simp: packet_waits_def ready_rx_def)
qed

lemma payload_doc:
  assumes "packet_waits nb dn l N g c"
  shows "documented c (NRF_R_RX_PAYLOAD # replicate nb NRF_NOP)"
proof -
  obtain pl rs where "rx_fifo c = (1, pl) # rs" "length pl = nb" using packet_waits_head [OF assms] by blast
  then show ?thesis by (simp add: documented_def nrf_cmds)
qed

lemma pipeid_get_ok: "pipeid_get s = Inr (ucast (take_bit 3 (drop_bit 1 s)))"
proof -
  have "take_bit 3 (drop_bit 1 (ucast s :: u32)) = ucast (take_bit 3 (drop_bit 1 s))"
    by (rule bit_word_eqI) (auto simp: bit_simps)
  then show ?thesis by (simp add: pipeid_get_def bits_get_ok)
qed

text \<open>
  A read of \<open>m\<close> bytes: it returns the first \<open>m\<close> bytes of the ring as soon as the ring has them, or
  nothing after \<open>usec\<close> microseconds since the time \<open>s\<close>, in which no packet that arrived is lost.
\<close>

definition read_out :: "nat \<Rightarrow> nat \<Rightarrow> u8 list \<Rightarrow> u8 list option \<Rightarrow> u8 list \<Rightarrow> nat \<Rightarrow> bool" where
  "read_out m late ring r ring' t \<longleftrightarrow>
     (case r of Some bs \<Rightarrow> m \<le> length ring \<and> bs = take m ring \<and> ring' = drop m ring
      | None \<Rightarrow> length ring < m \<and> ring' = ring \<and> late \<le> t)"

context nrf_radio
begin

lemma pipeid_ok:
  assumes "nb \<le> 32" "rest (spi n) R"
  shows "io_ok (on (spi n) (packet_waits nb dn l N g) R)
    (io_assert (io_bind (nrf_rx_get_pipeid hw n) (\<lambda>p. io_ret (p = 1)))) (\<lambda>_. on (spi n) (packet_waits nb dn l N g) R)"
proof (rule io_ok_assert, unfold nrf_rx_get_pipeid_def, rule io_ok_bind, rule io_ok_bind)
  show "io_ok (on (spi n) (packet_waits nb dn l N g) R) (nrf_get8 hw n NRF_STATUS)
      (\<lambda>s. on (spi n) (\<lambda>c. packet_waits nb dn l N g c \<and> s = reg_val c NRF_STATUS) R)"
    by (rule get8 [OF rx_stable(3) [OF assms(1)] _ assms(2)]) simp
  have one: "pipeid_get (reg_val c NRF_STATUS) = Inr 1" if c: "packet_waits nb dn l N g c" for c
  proof -
    obtain pl rs where "rx_fifo c = (1, pl) # rs" using packet_waits_head [OF c] by blast
    then have "pipe_no c = 1" by (simp add: pipe_no_def)
    then have "take_bit 3 (drop_bit 1 (chip_status c)) = 1" using bit_chip_status(4) [of c] by simp
    then show ?thesis unfolding pipeid_get_ok reg_val_status by simp
  qed
  show "io_ok (on (spi n) (\<lambda>c. packet_waits nb dn l N g c \<and> s = reg_val c NRF_STATUS) R) (io_res (pipeid_get s))
      (\<lambda>p d. p = 1 \<and> on (spi n) (packet_waits nb dn l N g) R d)" for s
    unfolding io_ok_def io_res_def on_def using one by fastforce
  show "io_ok (\<lambda>d. p = 1 \<and> on (spi n) (packet_waits nb dn l N g) R d) (io_ret (p = 1))
      (\<lambda>b d. b = True \<and> on (spi n) (packet_waits nb dn l N g) R d)" for p :: u32
    by (auto intro: io_ok_ret)
qed

lemma payload_ok:
  assumes "0 < nb" "nb \<le> 32" "rest (spi n) R"
  shows "io_ok (on (spi n) (packet_waits nb dn l N g) R) (nrf_getn hw n NRF_R_RX_PAYLOAD nb)
    (\<lambda>r d. length (snd r) = nb \<and> on (spi n) (ready_rx nb (dn @ [snd r]) l N g) R d)"
proof -
  let ?tx = "NRF_R_RX_PAYLOAD # replicate nb NRF_NOP"
  have ret: "io_ok (on (spi n) (\<lambda>c'. \<exists>c. packet_waits nb dn l N g c \<and> c' = chip_next c ?tx \<and> answers c ?tx rx) R)
      (io_ret (rx ! 0, take nb (drop 1 rx)))
      (\<lambda>r d. length (snd r) = nb \<and> on (spi n) (ready_rx nb (dn @ [snd r]) l N g) R d)" for rx
  proof (rule io_ok_ret, unfold on_def snd_conv, elim conjE exE)
    fix d c assume c: "packet_waits nb dn l N g c" and d: "chips d (spi n) = chip_next c ?tx"
      and a: "answers c ?tx rx" and R: "R d"
    obtain pl rs where f: "rx_fifo c = (1, pl) # rs" "length pl = nb" using packet_waits_head [OF c] by blast
    have "chip_data c ?tx = Some pl" using f(1) by (simp add: chip_data_def nrf_cmds)
    then have "tl rx = pl" using a unfolding answers_def by blast
    then have pl: "take nb (drop 1 rx) = pl" using f(2) by (simp add: drop_Suc)
    show "length (take nb (drop 1 rx)) = nb \<and> ready_rx nb (dn @ [take nb (drop 1 rx)]) l N g (chips d (spi n)) \<and> R d"
      unfolding pl d using f(2) payload_next [OF c f(1)] R by blast
  qed
  have fits: "fits_buffer nb = Inr ()" using assms(1,2) by (simp add: fits_buffer_def)
  show ?thesis unfolding nrf_getn_def fits
    by (rule io_ok_bind [OF io_ok_res [OF refl]], rule io_ok_fact,
        rule io_ok_bind [OF xfer [OF rx_stable(3) [OF assms(2)] payload_doc assms(3)] ret])
qed

lemma clr_ok:
  assumes "nb \<le> 32" "rest (spi n) R"
  shows "io_ok (on (spi n) (ready_rx nb dn l N g) R) (nrf_rx_intr_clr hw n) (\<lambda>_. on (spi n) (draining nb dn l N g) R)"
proof -
  have w: "chip_write c NRF_STATUS [push_bit 6 1] = c\<lparr>rx_dr := False\<rparr>" for c
    by (simp add: chip_write_def is_adr_def nrf_regs)
  have "draining nb dn l N g (edge c (chip_write c NRF_STATUS [push_bit 6 1]))" if c: "ready_rx nb dn l N g c" for c
  proof -
    have "edge c (c\<lparr>rx_dr := False\<rparr>) = c\<lparr>rx_dr := False\<rparr>"
      using c by (simp add: edge_def irq_low_def ready_rx_def)
    with c show ?thesis unfolding w by (auto simp: draining_def ready_rx_def)
  qed
  then show ?thesis unfolding nrf_rx_intr_clr_def
    by (intro io_ok_skip io_ok_post [OF put8 [OF rx_stable(1) [OF assms(1)] one_byte_regs(8) assms(2)]])
       (auto simp only: on_def)
qed

lemma io_ok_from: "(\<And>d. P d \<Longrightarrow> F) \<Longrightarrow> (F \<Longrightarrow> io_ok P m Q) \<Longrightarrow> io_ok P m Q"
  unfolding io_ok_def by blast

text \<open>
  What a run of the handler gives: the packets \<open>ps\<close> are in the ring, among them all that were in the
  chip before.
\<close>

definition received ::
  "nrf \<Rightarrow> nat \<Rightarrow> u8 list list \<Rightarrow> (u8 list \<times> u8 list) list \<Rightarrow> nat \<Rightarrow> u8 list list \<Rightarrow> ('d \<Rightarrow> bool) \<Rightarrow> nrf \<Rightarrow> 'd \<Rightarrow> bool" where
  "received n nb dn l N g R n' d \<longleftrightarrow> (\<exists>ps q t. n' = n\<lparr>recvq := q\<rparr> \<and> cq_inv q \<and>
     cq_list q = deliver (cq_list (recvq n)) ps \<and> (\<forall>p \<in> set ps. length p = nb) \<and> dn @ ps = g @ t \<and>
     on (spi n) (idle nb (dn @ ps) l N g) R d)"

lemma received_none:
  assumes "cq_inv (recvq n)" "idle nb dn l N g (chips d (spi n))" "rx_fifo (chips d (spi n)) = []" "R d"
  shows "received n nb dn l N g R n d"
proof -
  have "take (length g) dn = g" using assms(2,3) by (auto simp: idle_def ready_rx_def)
  then obtain t where "dn = g @ t" by (metis append_take_drop_id)
  then show ?thesis unfolding received_def using assms
    by (intro exI [of _ "[]"] exI [of _ "recvq n"] exI [of _ t]) (simp add: on_def)
qed

lemma received_more:
  assumes "received (n\<lparr>recvq := q\<rparr>) nb (dn @ [p]) l N g R n' d" "cq_list q = deliver (cq_list (recvq n)) [p]"
    "length p = nb"
  shows "received n nb dn l N g R n' d"
proof -
  obtain ps q' t where r: "n' = n\<lparr>recvq := q'\<rparr>" "cq_inv q'" "cq_list q' = deliver (cq_list q) ps"
      "\<forall>p \<in> set ps. length p = nb" "dn @ p # ps = g @ t" "on (spi n) (idle nb (dn @ p # ps) l N g) R d"
    using assms(1) by (auto simp: received_def)
  then show ?thesis unfolding received_def using assms(2,3)
    by (intro exI [of _ "p # ps"] exI [of _ q'] exI [of _ t]) simp
qed

lemma drain:
  assumes "0 < nb" "nb \<le> 32" "rest (spi n) R"
  shows "cq_inv (recvq n) \<Longrightarrow> conf_nbytes (config n) = nb \<Longrightarrow> N - length dn < fuel \<Longrightarrow>
    io_ok (on (spi n) (draining nb dn l N g) R) (rx_drain hw n fuel) (received n nb dn l N g R)"
  using assms(3)
proof (induction fuel arbitrary: dn n)
  case (Suc fuel)
  note R = Suc.prems(4) and nb = Suc.prems(2)
  have chk: "io_ok (on (spi n) (draining nb dn l N g) R) (nrf_rx_fifo_empty hw n)
      (\<lambda>e. on (spi n) (\<lambda>c. draining nb dn l N g c \<and> e = (rx_fifo c = [])) R)"
    using bit_isset [OF rx_stable(2) [OF assms(2)] one_byte_regs(14) R, of 0] by (simp add: nrf_rx_fifo_empty_def)
  have stop: "io_ok (on (spi n) (\<lambda>c. draining nb dn l N g c \<and> e = (rx_fifo c = [])) R) (io_ret n) (received n nb dn l N g R)"
    if e for e
    using that Suc.prems(1)
    by (intro io_ok_ret received_none) (auto simp: on_def draining_def idle_def)
  have push: "io_ok (\<lambda>d. length bs = nb \<and> on (spi n) (ready_rx nb (dn @ [bs]) l N g) R d) (io_res (cq_push_n (recvq n) bs))
      (\<lambda>r d. cq_inv (snd r) \<and> cq_list (snd r) = deliver (cq_list (recvq n)) [bs] \<and> length bs = nb \<and>
             on (spi n) (ready_rx nb (dn @ [bs]) l N g) R d)" for bs
    using cq_push_deliver [OF Suc.prems(1), of bs] assms(1) by (auto simp: io_ok_def io_res_def)
  have less: "N - length (dn @ [bs]) < fuel" if "on (spi n) (ready_rx nb (dn @ [bs]) l N g) R d" for bs d
    using that Suc.prems(3) by (auto simp: on_def ready_rx_def)
  have loop: "io_ok (on (spi n) (draining nb (dn @ [bs]) l N g) R) (rx_drain hw (n\<lparr>recvq := q\<rparr>) fuel) (received n nb dn l N g R)"
    if "cq_inv q" "cq_list q = deliver (cq_list (recvq n)) [bs]" "length bs = nb" "N - length (dn @ [bs]) < fuel" for bs q
  proof -
    have "io_ok (on (spi n) (draining nb (dn @ [bs]) l N g) R) (rx_drain hw (n\<lparr>recvq := q\<rparr>) fuel)
        (received (n\<lparr>recvq := q\<rparr>) nb (dn @ [bs]) l N g R)"
      using Suc.IH [of "n\<lparr>recvq := q\<rparr>" "dn @ [bs]"] that R nb by simp
    then show ?thesis by (rule io_ok_post) (rule received_more [OF _ that(2,3)])
  qed
  show ?case unfolding rx_drain.simps nb
  proof (rule io_ok_bind [OF chk])
    fix e
    let ?rest = "io_bind (io_assert (io_bind (nrf_rx_get_pipeid hw n) (\<lambda>p. io_ret (p = 1)))) (\<lambda>_.
         io_bind (nrf_getn hw n NRF_R_RX_PAYLOAD nb) (\<lambda>(st, bytes).
         io_bind (io_res (cq_push_n (recvq n) bytes)) (\<lambda>(ok, q).
         io_bind (nrf_rx_intr_clr hw n) (\<lambda>_. rx_drain hw (n\<lparr>recvq := q\<rparr>) fuel))))"
    have "io_ok (on (spi n) (packet_waits nb dn l N g) R) ?rest (received n nb dn l N g R)"
    proof (rule io_ok_bind [OF pipeid_ok [OF assms(2) R]], rule io_ok_bind [OF payload_ok [OF assms(1,2) R]], unfold split_beta,
        rule io_ok_bind [OF push], intro io_ok_fact)
      fix r :: "u8 \<times> u8 list" and okq :: "bool \<times> cq"
      assume q: "cq_inv (snd okq)" "cq_list (snd okq) = deliver (cq_list (recvq n)) [snd r]" "length (snd r) = nb"
      show "io_ok (on (spi n) (ready_rx nb (dn @ [snd r]) l N g) R)
          (io_bind (nrf_rx_intr_clr hw n) (\<lambda>_. rx_drain hw (n\<lparr>recvq := snd okq\<rparr>) fuel)) (received n nb dn l N g R)"
        by (rule io_ok_from [OF less], assumption, rule io_ok_bind [OF clr_ok [OF assms(2) R]], rule loop [OF q])
    qed
    then show "io_ok (on (spi n) (\<lambda>c. draining nb dn l N g c \<and> e = (rx_fifo c = [])) R)
        (if e then io_ret n else ?rest) (received n nb dn l N g R)"
      using stop [of e] by (cases e) (auto intro: io_ok_pre simp: on_def draining_def packet_waits_def)
  qed
qed simp

text \<open>With the flag set and a packet waiting, the handler empties the chip and returns to rest.\<close>

definition pending :: "nat \<Rightarrow> u8 list list \<Rightarrow> (u8 list \<times> u8 list) list \<Rightarrow> nat \<Rightarrow> u8 list list \<Rightarrow> chip \<Rightarrow> bool" where
  "pending nb dn l N g c \<longleftrightarrow> packet_waits nb dn l N g c \<and> rx_dr c"

lemma pending_stable: "nb \<le> 32 \<Longrightarrow> stable (pending nb dn l N g)"
  using ready_rx_arrive unfolding stable_def pending_def packet_waits_def by meson

lemma flag_pending:
  assumes "nb \<le> 32" "rest (spi n) R"
  shows "io_ok (on (spi n) (pending nb dn l N g) R) (nrf_has_max_rt_intr hw n)
      (\<lambda>b d. b = False \<and> on (spi n) (pending nb dn l N g) R d)"
    "io_ok (on (spi n) (pending nb dn l N g) R) (nrf_has_rx_intr hw n)
      (\<lambda>b d. b = True \<and> on (spi n) (pending nb dn l N g) R d)"
proof -
  have f: "bit (chip_status c) 4 = False" "bit (chip_status c) 6 = True" if "pending nb dn l N g c" for c
    using that bit_chip_status [OF ready_pipe, of nb dn l N g c]
    by (auto simp: pending_def packet_waits_def ready_rx_def)
  show "io_ok (on (spi n) (pending nb dn l N g) R) (nrf_has_max_rt_intr hw n)
      (\<lambda>b d. b = False \<and> on (spi n) (pending nb dn l N g) R d)"
    unfolding nrf_has_max_rt_intr_def
    by (rule io_ok_post [OF bit_isset [OF pending_stable [OF assms(1)] one_byte_regs(8) assms(2)]]) (auto simp: on_def f)
  show "io_ok (on (spi n) (pending nb dn l N g) R) (nrf_has_rx_intr hw n)
      (\<lambda>b d. b = True \<and> on (spi n) (pending nb dn l N g) R d)"
    unfolding nrf_has_rx_intr_def
    by (rule io_ok_post [OF bit_isset [OF pending_stable [OF assms(1)] one_byte_regs(8) assms(2)]]) (auto simp: on_def f)
qed

lemma no_tx_flag:
  assumes "nb \<le> 32" "rest (spi n) R"
  shows "io_ok (on (spi n) (idle nb dn l N g) R) (nrf_has_tx_intr hw n) (\<lambda>b d. b = False \<and> on (spi n) (idle nb dn l N g) R d)"
proof -
  have "bit (chip_status c) 5 = False" if "idle nb dn l N g c" for c
    using that bit_chip_status(2) [OF ready_pipe, of nb dn l N g c] by (auto simp: idle_def ready_rx_def)
  then show ?thesis unfolding nrf_has_tx_intr_def
    by (intro io_ok_post [OF bit_isset [OF idle_stable [OF assms(1)] one_byte_regs(8) assms(2)]]) (auto simp: on_def)
qed

lemma received_then_tx:
  assumes "nb \<le> 32" "rest (spi n) R"
  shows "io_ok (received n nb dn l N g R n') (io_bind (nrf_has_tx_intr hw n') (\<lambda>tx. if tx then nrf_handle_tx hw n' else io_ret n'))
    (received n nb dn l N g R)"
proof (rule io_okI)
  fix d assume "received n nb dn l N g R n' d"
  then obtain ps q t where r: "n' = n\<lparr>recvq := q\<rparr>" "cq_inv q" "cq_list q = deliver (cq_list (recvq n)) ps"
      "\<forall>p \<in> set ps. length p = nb" "dn @ ps = g @ t" "on (spi n) (idle nb (dn @ ps) l N g) R d"
    by (auto simp: received_def)
  have "rest (spi n') R" "spi n' = spi n" using assms(2) r(1) by simp_all
  then obtain d' where d': "nrf_has_tx_intr hw n' d = Inr (False, d')" "on (spi n) (idle nb (dn @ ps) l N g) R d'"
    using io_okD [OF no_tx_flag [OF assms(1), of n'], of R "dn @ ps" l N g d] r(6) by auto
  have "received n nb dn l N g R n' d'" unfolding received_def using r(1-5) d'(2) by blast
  with d'(1) show "\<exists>x d'. io_bind (nrf_has_tx_intr hw n') (\<lambda>tx. if tx then nrf_handle_tx hw n' else io_ret n') d = Inr (x, d') \<and>
      received n nb dn l N g R x d'"
    by (simp add: io_bind_def io_ret_def)
qed

lemma handle_intr:
  assumes "0 < nb" "nb \<le> 32" "rest (spi n) R" "cq_inv (recvq n)" "conf_nbytes (config n) = nb" "N - length dn < hw_polls hw"
  shows "io_ok (on (spi n) (pending nb dn l N g) R) (nrf_handle_intr hw n) (received n nb dn l N g R)"
proof -
  have d: "io_ok (on (spi n) (pending nb dn l N g) R) (rx_drain hw n (hw_polls hw)) (received n nb dn l N g R)"
    by (rule io_ok_pre [OF drain [OF assms(1-6)]]) (auto simp: on_def pending_def packet_waits_def draining_def)
  show ?thesis unfolding nrf_handle_intr_def
    apply (rule io_ok_bind [OF flag_pending(1) [OF assms(2,3)]], rule io_ok_fact, simp only: if_False)
    apply (rule io_ok_bind [OF io_ok_ret [where Q = "\<lambda>_. on (spi n) (pending nb dn l N g) R"]], assumption)
    apply (rule io_ok_bind [OF flag_pending(2) [OF assms(2,3)]], rule io_ok_fact, simp only: if_True)
    apply (rule io_ok_bind [OF io_ok_bind [OF io_ok_res [where x = "()"]]], simp add: USE_RX_INTERRUPT_def)
     apply (rule io_ok_fact, rule d)
    by (rule received_then_tx [OF assms(2,3)])
qed

section \<open>The interrupt pin\<close>

lemma bit_drop_and: "(drop_bit p (x :: u32) AND 1 \<noteq> 0) = bit x p"
  by (simp add: and_one_eq bit_iff_odd_drop_bit odd_iff_mod_2_eq_one)

lemma event_clear_ok:
  assumes "stable S" "rest (spi n) R" "wired n"
  shows "io_ok (on (spi n) S R) (gpio_event_clear hw (int_pin (config n)))
    (\<lambda>_. on (spi n) (\<lambda>c'. \<exists>c. S c \<and> c' = c\<lparr>event := False\<rparr>) R)"
proof -
  have w: "spi n < 2" "int_pin (config n) = int_of (spi n)" "int_of (spi n) < 32"
    using assms(3) by (auto simp: wired_def)
  have o: "gpio_effect (ce_of j) (int_of j) GPIO_EDS0 (2 ^ int_of (spi n)) c = c" if "j < 2" "j \<noteq> spi n" for j c
    using other_pin [OF that(1) w(1) that(2)] bit_pin [OF w(3)] by (auto simp: gpio_effect_def gpio_addrs)
  have s: "gpio_effect (ce_of (spi n)) (int_of (spi n)) GPIO_EDS0 (2 ^ int_of (spi n)) c = c\<lparr>event := False\<rparr>" for c
    using bit_pin [OF w(3)] by (simp add: gpio_effect_def gpio_addrs)
  show ?thesis
    using put32 [OF assms(1,2) w(1) o] w(2,3) by (simp add: gpio_event_clear_def s)
qed

lemma test_pin:
  assumes "nb \<le> 32" "rest (spi n) R" "wired n"
  shows "io_ok (on (spi n) (idle nb dn l N g) R) (nrf_test_pin hw (int_pin (config n)))
    (\<lambda>b d. if b then on (spi n) (pending nb dn l N g) R d
           else on (spi n) (idle nb dn l N g) R d \<and> take (length g) dn = g)"
proof -
  note st = idle_stable [OF assms(1)]
  have w: "int_pin (config n) = int_of (spi n)" "int_of (spi n) < 32" "spi n < 2"
    using assms(3) by (auto simp: wired_def)
  let ?Q = "\<lambda>b d. if b then on (spi n) (pending nb dn l N g) R d
           else on (spi n) (idle nb dn l N g) R d \<and> take (length g) dn = g"
  have none: "take (length g) dn = g" if "idle nb dn l N g c" "\<not> rx_dr c" for c
    using that by (auto simp: idle_def ready_rx_def)
  have a: "GPIO_EDS0 \<noteq> timer_addr" "gpio_lev0 \<noteq> timer_addr" "gpio_lev0 \<noteq> GPIO_EDS0"
    by (simp_all add: timer_addr_def gpio_addrs)
  have g: "io_ok (on (spi n) (idle nb dn l N g) R) (io_get32 hw GPIO_EDS0)
      (\<lambda>v. on (spi n) (\<lambda>c. idle nb dn l N g c \<and> bit v (int_of (spi n)) = event c) R)"
    "io_ok (on (spi n) (idle nb dn l N g) R) (io_get32 hw gpio_lev0)
      (\<lambda>v. on (spi n) (\<lambda>c. idle nb dn l N g c \<and> bit v (int_of (spi n)) = (\<not> rx_dr c)) R)"
    by (rule io_ok_post [OF get32 [OF st assms(2) a(1)]], simp add: on_def w(3))
       (rule io_ok_post [OF get32 [OF st assms(2) a(2)]], auto simp: on_def idle_irq w(3))
  have ev: "io_ok (on (spi n) (idle nb dn l N g) R) (gpio_event_detected hw (int_pin (config n)))
      (\<lambda>e. on (spi n) (\<lambda>c. idle nb dn l N g c \<and> e = event c) R)"
    unfolding gpio_event_detected_def w bit_drop_and using w(2)
    by (auto simp: on_def intro!: io_ok_bind [OF g(1)] io_ok_ret)
  have lev: "io_ok (on (spi n) (idle nb dn l N g) R) (gpio_read hw (int_pin (config n)))
      (\<lambda>v. on (spi n) (\<lambda>c. idle nb dn l N g c \<and> v = (if rx_dr c then 0 else 1)) R)"
    unfolding gpio_read_def w bit_iff_and_push_bit_not_eq_0 [symmetric] using w(2)
    by (auto simp: on_def bad_pin_def intro!: io_ok_bind [OF g(2)] io_ok_ret)
  have pst: "stable (\<lambda>c. idle nb dn l N g c \<and> rx_dr c)"
    using ready_rx_arrive [OF assms(1)] unfolding stable_def idle_def by meson
  have clr: "io_ok (on (spi n) (\<lambda>c. idle nb dn l N g c \<and> rx_dr c) R) (gpio_event_clear hw (int_pin (config n)))
      (\<lambda>_. on (spi n) (pending nb dn l N g) R)"
    by (rule io_ok_post [OF event_clear_ok [OF pst assms(2,3)]])
       (auto simp: on_def idle_def pending_def packet_waits_def ready_rx_def)
  have low: "io_ok (on (spi n) (\<lambda>c. idle nb dn l N g c \<and> v = (if rx_dr c then 0 else 1)) R)
      (if v = 0 then io_bind (gpio_event_clear hw (int_pin (config n))) (\<lambda>_. io_ret True) else io_ret False) ?Q" for v :: int
  proof (cases "v = 0")
    case True
    then show ?thesis
      by (auto simp: on_def intro!: io_ok_pre [OF io_ok_bind [OF clr io_ok_ret]] split: if_splits)
  next
    case False
    then show ?thesis by (auto simp: on_def none intro!: io_ok_ret split: if_splits)
  qed
  show ?thesis unfolding nrf_test_pin_def
  proof (rule io_ok_bind [OF ev])
    fix e
    show "io_ok (on (spi n) (\<lambda>c. idle nb dn l N g c \<and> e = event c) R)
      (if e then io_bind (gpio_read hw (int_pin (config n))) (\<lambda>v.
         if v = 0 then io_bind (gpio_event_clear hw (int_pin (config n))) (\<lambda>_. io_ret True) else io_ret False)
       else io_ret False) ?Q"
    proof (cases e)
      case True
      have "io_ok (on (spi n) (\<lambda>c. idle nb dn l N g c \<and> e = event c) R) (io_bind (gpio_read hw (int_pin (config n))) (\<lambda>v.
         if v = 0 then io_bind (gpio_event_clear hw (int_pin (config n))) (\<lambda>_. io_ret True) else io_ret False)) ?Q"
        by (rule io_ok_pre [OF io_ok_bind [OF lev low]]) (simp add: on_def)
      with True show ?thesis by simp
    next
      case False
      then show ?thesis by (auto simp: on_def idle_def intro!: io_ok_ret none)
    qed
  qed
qed

lemma irq:
  assumes "0 < nb" "nb \<le> 32" "rest (spi n) R" "wired n" "cq_inv (recvq n)" "conf_nbytes (config n) = nb"
    "N - length dn < hw_polls hw"
  shows "io_ok (on (spi n) (idle nb dn l N g) R) (nrf_irq hw n) (received n nb dn l N g R)"
  unfolding nrf_irq_def
proof (rule io_ok_bind [OF test_pin [OF assms(2-4)]])
  fix b
  show "io_ok (\<lambda>d. if b then on (spi n) (pending nb dn l N g) R d
           else on (spi n) (idle nb dn l N g) R d \<and> take (length g) dn = g)
      (if b then nrf_handle_intr hw n else io_ret n) (received n nb dn l N g R)"
  proof (cases b)
    case True
    then show ?thesis using handle_intr [OF assms(1-3,5-7)] by simp
  next
    case False
    have "received n nb dn l N g R n d" if d: "on (spi n) (idle nb dn l N g) R d" "take (length g) dn = g" for d
    proof -
      have "dn @ [] = g @ drop (length g) dn" using append_take_drop_id [of "length g" dn] d(2) by simp
      then show ?thesis unfolding received_def using d(1) assms(5)
        by (intro exI [of _ "[]"] exI [of _ "recvq n"] exI [of _ "drop (length g) dn"]) simp
    qed
    with False show ?thesis by (auto intro: io_ok_ret)
  qed
qed

section \<open>Reading a packet\<close>

lemma read_noblk:
  assumes "cq_inv (recvq n)" "0 < unat m" "unat m \<le> 8191"
  shows "\<exists>q. nrf_read_exact_noblk hw n m d =
      Inr (if length (cq_list (recvq n)) < unat m then (None, n)
           else (Some (take (unat m) (cq_list (recvq n))), n\<lparr>recvq := q\<rparr>), d) \<and> cq_inv q \<and>
      (unat m \<le> length (cq_list (recvq n)) \<longrightarrow> cq_list q = drop (unat m) (cq_list (recvq n)))"
proof -
  obtain k where k: "hw_polls hw = Suc k" using many_polls by (cases "hw_polls hw") auto
  have av: "nrf_nbytes_avail hw n d = Inr ((cq_nelem (recvq n), n), d)"
    by (simp add: nrf_nbytes_avail_def k nrf_get_pkts_def USE_RX_INTERRUPT_def io_bind_def io_ret_def)
  have m: "m > 0" using assms(2) by (simp add: word_less_nat_alt)
  show ?thesis
  proof (cases "length (cq_list (recvq n)) < unat m")
    case True
    then show ?thesis using assms(1) m
      by (intro exI [of _ "recvq n"])
         (simp add: nrf_read_exact_noblk_def av word_less_iff_length io_bind_def io_res_def io_ret_def)
  next
    case False
    then obtain q where "cq_pop_n True [] (recvq n) (unat m) = Inr (take (unat m) (cq_list (recvq n)), [], q)"
        "cq_inv q" "cq_list q = drop (unat m) (cq_list (recvq n))"
      using cq_pop_n_ok [OF assms(1), of "unat m" True "[]"] by auto
    moreover have "cq_nelem (recvq n) \<noteq> 0" using False assms(2) by (auto simp: length_cq_list)
    ultimately show ?thesis using False m
      by (intro exI [of _ q])
         (simp add: nrf_read_exact_noblk_def av word_less_iff_length io_bind_def io_res_def io_ret_def)
  qed
qed

definition read_done ::
  "nrf \<Rightarrow> nat \<Rightarrow> nat \<Rightarrow> nat \<Rightarrow> u8 list list \<Rightarrow> (u8 list \<times> u8 list) list \<Rightarrow> nat \<Rightarrow> u8 list list \<Rightarrow> ('d \<Rightarrow> bool) \<Rightarrow>
   u8 list option \<times> nrf \<Rightarrow> 'd \<Rightarrow> bool" where
  "read_done n nb m late dn l N g R rn d \<longleftrightarrow> (\<exists>ps q t. snd rn = n\<lparr>recvq := q\<rparr> \<and> cq_inv q \<and>
     (\<forall>p \<in> set ps. length p = nb) \<and> dn @ ps = g @ t \<and> on (spi n) (idle nb (dn @ ps) l N g) R d \<and>
     read_out m late (deliver (cq_list (recvq n)) ps) (fst rn) (cq_list q) (now d))"

lemma read_done_more:
  assumes "read_done (n\<lparr>recvq := q\<rparr>) nb m late (dn @ ps) l N g R rn d"
    "cq_list q = deliver (cq_list (recvq n)) ps" "\<forall>p \<in> set ps. length p = nb"
  shows "read_done n nb m late dn l N g R rn d"
proof -
  obtain ps' q' t where r: "snd rn = (n\<lparr>recvq := q\<rparr>)\<lparr>recvq := q'\<rparr>" "cq_inv q'" "\<forall>p \<in> set ps'. length p = nb"
      "(dn @ ps) @ ps' = g @ t" "on (spi n) (idle nb ((dn @ ps) @ ps') l N g) R d"
      "read_out m late (deliver (cq_list q) ps') (fst rn) (cq_list q') (now d)"
    using assms(1) unfolding read_done_def by auto
  have "dn @ ps @ ps' = g @ t" using r(4) by simp
  moreover have "on (spi n) (idle nb (dn @ ps @ ps') l N g) R d" using r(5) by (simp only: append_assoc)
  moreover have "snd rn = n\<lparr>recvq := q'\<rparr>" using r(1) by simp
  moreover have "\<forall>p \<in> set (ps @ ps'). length p = nb" using assms(3) r(3) by auto
  moreover have "read_out m late (deliver (cq_list (recvq n)) (ps @ ps')) (fst rn) (cq_list q') (now d)"
    using r(6) by (simp add: assms(2))
  ultimately show ?thesis unfolding read_done_def using r(2) by blast
qed

lemma timeless_now: "timeless k R \<Longrightarrow> rest k (\<lambda>d. R d \<and> now d = T)"
  unfolding timeless_def rest_def by metis

lemma read_loop:
  assumes "0 < nb" "nb \<le> 32" "timeless (spi n) R" "0 < unat m" "unat m \<le> 8191" "N < hw_polls hw"
  shows "wired n \<Longrightarrow> cq_inv (recvq n) \<Longrightarrow> conf_nbytes (config n) = nb \<Longrightarrow> tracks t s T \<Longrightarrow> T \<le> s + unat usec \<Longrightarrow>
    s + unat usec - T < fuel \<Longrightarrow> on (spi n) (idle nb dn l N g) (\<lambda>d. R d \<and> now d = T) d \<Longrightarrow>
    \<exists>rn d'. read_timeout_loop hw n m usec t fuel d = Inr (rn, d') \<and>
      read_done n nb (unat m) (s + unat usec) dn l N g R rn d'"
  using assms(3)
proof (induction fuel arbitrary: n dn t T d)
  case (Suc fuel)
  note w = Suc.prems(1) and R = Suc.prems(8)
  let ?late = "s + unat usec"
  obtain n1 d1 where i: "nrf_irq hw n d = Inr (n1, d1)" "received n nb dn l N g (\<lambda>d. R d \<and> now d = T) n1 d1"
    using io_okD [OF irq [OF assms(1,2) timeless_now [OF R] w Suc.prems(2,3)] Suc.prems(7)] assms(6) by fastforce
  obtain ps q t0 where r: "n1 = n\<lparr>recvq := q\<rparr>" "cq_inv q" "cq_list q = deliver (cq_list (recvq n)) ps"
      "\<forall>p \<in> set ps. length p = nb" "dn @ ps = g @ t0" "on (spi n) (idle nb (dn @ ps) l N g) (\<lambda>d. R d \<and> now d = T) d1"
    using i(2) unfolding received_def by blast
  have idl: "idle nb (dn @ ps) l N g (chips d1 (spi n))" "R d1" "now d1 = T" using r(6) by (auto simp: on_def)
  have q1: "recvq n1 = q" by (simp add: r(1))
  obtain q1 where nb1: "nrf_read_exact_noblk hw n1 m d1 =
      Inr (if length (cq_list q) < unat m then (None, n1) else (Some (take (unat m) (cq_list q)), n1\<lparr>recvq := q1\<rparr>), d1)"
      "cq_inv q1" "unat m \<le> length (cq_list q) \<longrightarrow> cq_list q1 = drop (unat m) (cq_list q)"
    using read_noblk [of n1 m d1, unfolded q1, OF r(2) assms(4,5)] by blast
  show ?case
  proof (cases "length (cq_list q) < unat m")
    case False
    let ?rn = "(Some (take (unat m) (cq_list q)), n1\<lparr>recvq := q1\<rparr>)"
    have "read_out (unat m) ?late (deliver (cq_list (recvq n)) ps) (fst ?rn) (cq_list q1) (now d1)"
      using False nb1(3) r(3) by (simp add: read_out_def)
    moreover have "on (spi n) (idle nb (dn @ ps) l N g) R d1" using idl by (simp add: on_def)
    moreover have "snd ?rn = n\<lparr>recvq := q1\<rparr>" using r(1) by simp
    ultimately have "read_done n nb (unat m) ?late dn l N g R ?rn d1"
      unfolding read_done_def using nb1(2) r(4,5) by blast
    then show ?thesis using i(1) nb1(1) False by (simp add: io_bind_def io_ret_def)
  next
    case True
    have T1: "T \<le> now d1" "now d1 < T + 2147483648" using idl by auto
    obtain t' d2 where u: "timeout_usec hw t (ucast usec) d1 = Inr ((of_nat (now d2 - s) \<ge> (ucast usec :: 64 word), t'), d2)"
        "tracks t' s (now d2)" "\<forall>k. evolves (chips d1 k) (chips d2 k)" "now d1 < now d2" "now d2 < now d1 + 2147483648"
      using clk.timeout_usec_run [OF Suc.prems(4) T1] by blast
    have on2: "on (spi n) (idle nb (dn @ ps) l N g) R d2"
      using stable_evolves [OF idle_stable [OF assms(2)] idl(1)] u(3) R idl(2) unfolding on_def timeless_def by blast
    have "s \<le> T" using Suc.prems(4) by (simp add: tracks_def)
    then have "s \<le> now d2" "now d2 - s < 18446744073709551616"
      using Suc.prems(5) u(4,5) idl(3) unat_u32_less [of usec] by linarith+
    note late = late_word [OF this, of usec]
    have step: "read_timeout_loop hw n m usec t (Suc fuel) d =
        (if ?late \<le> now d2 then Inr ((None, n1), d2) else read_timeout_loop hw n1 m usec t' fuel d2)"
      using i(1) nb1(1) True u(1) unfolding late by (simp add: io_bind_def io_ret_def)
    show ?thesis
    proof (cases "?late \<le> now d2")
      case lt: True
      have "read_out (unat m) ?late (deliver (cq_list (recvq n)) ps) (fst (None, n1)) (cq_list q) (now d2)"
        using True lt r(3) by (simp add: read_out_def)
      then have "read_done n nb (unat m) ?late dn l N g R (None, n1) d2"
        unfolding read_done_def snd_conv using r(1,2,4,5) on2 by blast
      then show ?thesis unfolding step using lt by (simp only: if_True) blast
    next
      case False
      have "on (spi n1) (idle nb (dn @ ps) l N g) (\<lambda>d. R d \<and> now d = now d2) d2"
        using on2 r(1) by (simp add: on_def)
      moreover have "s + unat usec - now d2 < fuel" using Suc.prems(6) False u(4) idl(3) by linarith
      moreover have "wired n1" "cq_inv (recvq n1)" "conf_nbytes (config n1) = nb" "timeless (spi n1) R"
        using w r(1,2) Suc.prems(3) R by (simp_all add: wired_def)
      ultimately obtain rn d' where x: "read_timeout_loop hw n1 m usec t' fuel d2 = Inr (rn, d')"
          "read_done n1 nb (unat m) ?late (dn @ ps) l N g R rn d'"
        using Suc.IH [of n1 t' "now d2" "dn @ ps" d2] u(2) False by fastforce
      have "read_done n nb (unat m) ?late dn l N g R rn d'"
        by (rule read_done_more [OF x(2) [unfolded r(1)] r(3,4)])
      then show ?thesis unfolding step using False x(1) by (simp only: if_False) blast
    qed
  qed
qed simp

lemma read_exact_timeout:
  assumes "0 < nb" "nb \<le> 32" "timeless (spi n) R" "0 < unat m" "unat m \<le> 8191" "N < hw_polls hw"
    "wired n" "cq_inv (recvq n)" "conf_nbytes (config n) = nb" "on (spi n) (idle nb dn l N g) R d"
  shows "\<exists>rn d'. nrf_read_exact_timeout hw n m usec d = Inr (rn, d') \<and>
    read_done n nb (unat m) (now d + unat usec) dn l N g R rn d'"
proof -
  obtain t d1 where t: "timeout_start hw d = Inr (t, d1)" "tracks t (now d1) (now d1)"
      "\<forall>k. evolves (chips d k) (chips d1 k)" "now d < now d1"
    using clk.timeout_start_run by blast
  have "on (spi n) (idle nb dn l N g) (\<lambda>x. R x \<and> now x = now d1) d1"
    using assms(3,10) t(3) stable_evolves [OF idle_stable [OF assms(2)]] unfolding on_def timeless_def by blast
  then obtain rn d' where r: "read_timeout_loop hw n m usec t (unat usec + 2) d1 = Inr (rn, d')"
      "read_done n nb (unat m) (now d1 + unat usec) dn l N g R rn d'"
    using read_loop [OF assms(1-9) t(2), of usec "unat usec + 2" dn l g d1] by auto
  have "read_out m late' ring x ring' T" if "read_out m late ring x ring' T" "late' \<le> late" for m late late' ring x ring' T
    using that by (auto simp: read_out_def split: option.splits)
  then have "read_done n nb (unat m) (now d + unat usec) dn l N g R rn d'"
    using r(2) t(4) unfolding read_done_def by (meson add_le_mono1 less_imp_le)
  with r(1) t(1) show ?thesis by (auto simp: nrf_read_exact_timeout_def io_bind_def)
qed

end

end
