(* ===== verification/Nrf_Start.thy ===== *)
theory Nrf_Start
  imports Nrf_Recv
begin

text \<open>
  The start of a radio by \<open>dfs_nrf_init\<close>: it brings a chip in its power-on state into the state that
  waits for packets. The chip listens before its FIFO is flushed and checked, so a packet that arrives
  in between ends the start in an assertion; the radio never starts with a packet left behind.
\<close>

section \<open>A chip that is not yet listening\<close>

text \<open>The reset values of the data sheet that the start relies on.\<close>

definition power_on :: "chip \<Rightarrow> bool" where
  "power_on c \<longleftrightarrow> regs c NRF_CONFIG = 8 \<and> rx_fifo c = [] \<and> tx_fifo c = [] \<and> \<not> rx_dr c \<and> \<not> tx_ds c \<and> \<not> max_rt c \<and>
     length (adr c NRF_TX_ADDR) = 5 \<and> length (adr c NRF_RX_ADDR_P1) = 5"

text \<open>
  A chip whose CE pin is low, with the registers \<open>M\<close> written so far; if \<open>q\<close>, nobody sends to it.
\<close>

definition prepared :: "(u8 \<rightharpoonup> u8) \<Rightarrow> (u8 list \<times> u8 list) list \<Rightarrow> nat \<Rightarrow> bool \<Rightarrow> chip \<Rightarrow> bool" where
  "prepared M l N q c \<longleftrightarrow> \<not> ce c \<and> (\<forall>r v. M r = Some v \<longrightarrow> regs c r = v) \<and>
     rx_fifo c = [] \<and> tx_fifo c = [] \<and> \<not> rx_dr c \<and> \<not> tx_ds c \<and> \<not> max_rt c \<and>
     length (adr c NRF_TX_ADDR) = 5 \<and> length (adr c NRF_RX_ADDR_P1) = 5 \<and>
     tx_log c = l \<and> length (rx_log c) + incoming c = N \<and> (q \<longrightarrow> incoming c = 0)"

lemma prepared_frozen: "prepared M l N q c \<Longrightarrow> frozen c"
  by (auto simp: prepared_def frozen_def receiving_def sending_def)

lemma power_on_frozen: "power_on c \<Longrightarrow> frozen c"
  by (simp add: power_on_def frozen_def receiving_def sending_def)

lemma power_on_prepared:
  "power_on c \<Longrightarrow> prepared Map.empty (tx_log c) (length (rx_log c) + incoming c) (incoming c = 0) (c\<lparr>ce := False\<rparr>)"
  by (simp add: power_on_def prepared_def)

text \<open>The registers that hold what was written to them.\<close>

definition plain :: "u8 \<Rightarrow> bool" where
  "plain r \<longleftrightarrow> one_byte r \<and> r \<noteq> NRF_STATUS \<and> r \<noteq> NRF_FIFO_STATUS"

lemma plain_byte: "plain r \<Longrightarrow> one_byte r"
  by (simp add: plain_def)

lemma plain_regs [simp]:
  "plain NRF_CONFIG" "plain NRF_EN_AA" "plain NRF_EN_RXADDR" "plain NRF_SETUP_AW" "plain NRF_SETUP_RETR"
  "plain NRF_RF_CH" "plain NRF_RF_SETUP" "plain NRF_RX_PW_P1" "plain NRF_RX_PW_P2" "plain NRF_RX_PW_P3"
  "plain NRF_RX_PW_P4" "plain NRF_RX_PW_P5"
  unfolding plain_def by (simp_all, simp_all add: nrf_regs)

section \<open>A chip that listens\<close>

text \<open>As a radio at rest, but its interrupt pin need not be watched yet.\<close>

definition listening :: "nat \<Rightarrow> u8 list list \<Rightarrow> (u8 list \<times> u8 list) list \<Rightarrow> nat \<Rightarrow> chip \<Rightarrow> bool" where
  "listening nb dn l N c \<longleftrightarrow> ready_rx nb dn l N [] (c\<lparr>fen := True\<rparr>)"

lemma listening_upd [simp]:
  "listening nb dn l N (c\<lparr>event := e\<rparr>) = listening nb dn l N c"
  "listening nb dn l N (c\<lparr>rx_dr := b\<rparr>) = listening nb dn l N c"
  "listening nb dn l N (c\<lparr>fen := b\<rparr>) = listening nb dn l N c"
  by (simp_all add: listening_def ready_rx_def)

lemma evolve_fen: "evolve c c' \<Longrightarrow> \<exists>e. evolve (c\<lparr>fen := True\<rparr>) (c'\<lparr>fen := True, event := e\<rparr>)"
proof (induction rule: evolve.induct)
  case (arrive c p pl)
  let ?c = "c\<lparr>fen := True\<rparr>"
  have "evolve ?c (edge ?c (?c\<lparr>rx_fifo := rx_fifo ?c @ [(p, pl)], rx_dr := True, rx_log := rx_log ?c @ [pl],
      incoming := incoming ?c - 1\<rparr>))"
    by (rule evolve.arrive) (use arrive in \<open>simp_all add: receiving_def\<close>)
  then show ?case by (cases c) (auto simp: edge_def)
next
  case (transmit c a pl ts)
  let ?c = "c\<lparr>fen := True\<rparr>"
  have "evolve ?c (edge ?c (?c\<lparr>tx_fifo := ts, tx_ds := True, tx_log := tx_log ?c @
      [(take (unat (regs ?c NRF_SETUP_AW) + 2) (adr ?c NRF_TX_ADDR), pl)]\<rparr>))"
    by (rule evolve.transmit) (use transmit in \<open>simp_all add: sending_def\<close>)
  then show ?case by (cases c) (auto simp: edge_def)
next
  case (give_up c pl ts)
  let ?c = "c\<lparr>fen := True\<rparr>"
  have "evolve ?c (edge ?c (?c\<lparr>max_rt := True\<rparr>))"
    by (rule evolve.give_up) (use give_up in \<open>simp_all add: sending_def\<close>)
  then show ?case by (cases c) (auto simp: edge_def)
qed

lemma listening_arrive:
  assumes "nb \<le> 32" "listening nb dn l N c" "evolve c c'"
  shows "listening nb dn l N c' \<and> rx_dr c' \<and> rx_fifo c' \<noteq> []"
proof -
  obtain e where e: "evolve (c\<lparr>fen := True\<rparr>) (c'\<lparr>fen := True, event := e\<rparr>)" using evolve_fen [OF assms(3)] by blast
  have "ready_rx nb dn l N [] (c'\<lparr>fen := True, event := e\<rparr>) \<Longrightarrow> ready_rx nb dn l N [] (c'\<lparr>fen := True\<rparr>)"
    by (auto simp: ready_rx_def)
  with ready_rx_arrive [OF assms(1) assms(2) [unfolded listening_def] e] show ?thesis
    by (auto simp: listening_def)
qed

definition flag_ok :: "chip \<Rightarrow> bool" where
  "flag_ok c \<longleftrightarrow> (rx_fifo c = [] \<longrightarrow> \<not> rx_dr c)"

definition listens :: "nat \<Rightarrow> (u8 list \<times> u8 list) list \<Rightarrow> nat \<Rightarrow> bool \<Rightarrow> chip \<Rightarrow> bool" where
  "listens nb l N q c \<longleftrightarrow> (\<exists>dn. listening nb dn l N c) \<and> (q \<longrightarrow> incoming c = 0 \<and> rx_fifo c = [])"

lemma listens_stable:
  assumes "nb \<le> 32"
  shows "stable (listens nb l N q)" "stable (\<lambda>c. listens nb l N q c \<and> flag_ok c)"
    "stable (\<lambda>c. listens nb l N q c \<and> flag_ok c \<and> fen c)"
proof -
  have f: "evolve c c' \<Longrightarrow> fen c' = fen c" for c c' by (induction rule: evolve.induct) (simp_all add: edge_def)
  have z: "\<not> (incoming c = 0 \<and> rx_fifo c = [])" if "listening nb dn l N c" "evolve c c'" for dn c c'
    using that(2,1) by (cases rule: evolve.cases) (auto simp: listening_def ready_rx_def sending_def)
  show "stable (listens nb l N q)" "stable (\<lambda>c. listens nb l N q c \<and> flag_ok c)"
      "stable (\<lambda>c. listens nb l N q c \<and> flag_ok c \<and> fen c)"
    unfolding stable_def listens_def flag_ok_def using listening_arrive [OF assms] f z by blast+
qed

lemma evolves_fen: "evolves c c' \<Longrightarrow> fen c' = fen c"
proof (induction rule: rtranclp_induct)
  case (step c' c'')
  from step(2,3) show ?case by (induction rule: evolve.induct) (simp_all add: edge_def)
qed simp

lemma listening_idle:
  "listening nb dn l N c \<Longrightarrow> fen c \<Longrightarrow> flag_ok c \<Longrightarrow> rx_fifo c = [] \<Longrightarrow> idle nb dn l N [] c"
proof -
  assume a: "listening nb dn l N c" "fen c" "flag_ok c" "rx_fifo c = []"
  then have "c\<lparr>fen := True\<rparr> = c" by simp
  with a show "idle nb dn l N [] c" by (simp add: listening_def idle_def flag_ok_def)
qed

text \<open>A chip set up for receiving, with its CE pin set.\<close>

definition rx_regs :: "nat \<Rightarrow> (u8 \<rightharpoonup> u8) \<Rightarrow> bool" where
  "rx_regs nb M \<longleftrightarrow> M NRF_CONFIG = Some rx_config \<and> M NRF_EN_RXADDR = Some 2 \<and> M NRF_SETUP_AW = Some 1 \<and>
     M NRF_RX_PW_P1 = Some (of_nat nb)"

lemma prepared_listens: "prepared M l N q c \<Longrightarrow> rx_regs nb M \<Longrightarrow> listens nb l N q (c\<lparr>ce := True\<rparr>)"
  unfolding listens_def listening_def
  by (intro conjI exI [of _ "rx_log c"]) (simp_all add: prepared_def rx_regs_def ready_rx_def)

section \<open>The steps of the start\<close>

lemma io_may_fact: "(F \<Longrightarrow> io_may E P m Q) \<Longrightarrow> io_may E (\<lambda>d. F \<and> P d) m Q"
  unfolding io_may_def by blast

context nrf_radio
begin

lemma on_split: "(\<And>c. S c \<Longrightarrow> io_ok (on k ((=) c) R) m Q) \<Longrightarrow> io_ok (on k S R) m Q"
  unfolding io_ok_def on_def by blast

lemma prepared_step:
  assumes "\<And>c. prepared M l N q c \<Longrightarrow> io_ok (on k ((=) c) R) m (\<lambda>_. on k ((=) (f c)) R)"
    "\<And>c. prepared M l N q c \<Longrightarrow> prepared M' l N q (f c)"
  shows "io_ok (on k (prepared M l N q) R) m (\<lambda>_. on k (prepared M' l N q) R)"
  using assms unfolding io_ok_def on_def by metis

lemma put_prepared:
  assumes "rest (spi n) R" "plain r"
  shows "io_ok (on (spi n) (prepared M l N q) R) (put_reg hw n r v) (\<lambda>_. on (spi n) (prepared (M(r \<mapsto> v)) l N q) R)"
proof (rule prepared_step [OF put_reg_at [OF prepared_frozen plain_byte [OF assms(2)] assms(1)]])
  fix c assume c: "prepared M l N q c"
  have w: "chip_write c r [v] = c\<lparr>regs := (regs c)(r := v)\<rparr>"
    using one_byte_small [OF plain_byte [OF assms(2)]] assms(2) by (simp add: chip_write_def plain_def)
  show "prepared (M(r \<mapsto> v)) l N q (edge c (chip_write c r [v]))"
    unfolding w using c by (simp add: prepared_def edge_def)
qed

text \<open>The FIFO\_STATUS register cannot be written.\<close>

lemma put_fifo_prepared:
  assumes "rest (spi n) R"
  shows "io_ok (on (spi n) (prepared M l N q) R) (put_reg hw n NRF_FIFO_STATUS v) (\<lambda>_. on (spi n) (prepared M l N q) R)"
proof (rule prepared_step [OF put_reg_at [OF prepared_frozen one_byte_regs(14) assms]])
  fix c assume c: "prepared M l N q c"
  have "edge c (chip_write c NRF_FIFO_STATUS [v]) = c"
    by (simp add: chip_write_def is_adr_def nrf_regs edge_def)
  with c show "prepared M l N q (edge c (chip_write c NRF_FIFO_STATUS [v]))" by simp
qed

lemma set_addr_prepared:
  assumes "rest (spi n) R" "r = NRF_TX_ADDR \<or> r = NRF_RX_ADDR_P1" "unat a < 16777216"
  shows "io_ok (on (spi n) (prepared M l N q) R) (nrf_set_addr hw n r a nrf_default_addr_nbytes)
    (\<lambda>_. on (spi n) (prepared M l N q) R)"
proof (rule prepared_step)
  fix c assume c: "prepared M l N q c"
  have len: "length (adr c r) = 5" "is_adr r" using c assms(2) by (auto simp: prepared_def)
  show "io_ok (on (spi n) ((=) c) R) (nrf_set_addr hw n r a nrf_default_addr_nbytes)
      (\<lambda>_. on (spi n) ((=) (with_adr c r a)) R)"
    by (rule set_addr_at [OF prepared_frozen [OF c] len(2) assms(1) len(1) assms(3)])
  show "prepared M l N q (with_adr c r a)" using c len(1) by (auto simp: prepared_def with_adr_def)
qed

lemma pwr_prepared:
  assumes "rest (spi n) R"
  shows "io_ok (on (spi n) (prepared M l N q) R) (nrf_set_pwrup_off hw n)
      (\<lambda>_. on (spi n) (prepared (M(NRF_CONFIG := None)) l N q) R)"
    "io_ok (on (spi n) (prepared M l N q) R) (nrf_set_pwrup_on hw n)
      (\<lambda>_. on (spi n) (prepared (M(NRF_CONFIG := None)) l N q) R)"
proof -
  have p: "prepared (M(NRF_CONFIG := None)) l N q (pwr b c)" if "prepared M l N q c" for b c
    using that unfolding prepared_def pwr_def by (simp add: edge_def)
  have n: "\<not> ce c" if "prepared M l N q c" for c using that by (simp add: prepared_def)
  show "io_ok (on (spi n) (prepared M l N q) R) (nrf_set_pwrup_off hw n)
      (\<lambda>_. on (spi n) (prepared (M(NRF_CONFIG := None)) l N q) R)"
    by (rule prepared_step [where f = "pwr False"], erule pwrup_off_at [OF prepared_frozen assms], erule p)
  show "io_ok (on (spi n) (prepared M l N q) R) (nrf_set_pwrup_on hw n)
      (\<lambda>_. on (spi n) (prepared (M(NRF_CONFIG := None)) l N q) R)"
    by (rule prepared_step [where f = "pwr True"], rule pwrup_on_at [OF prepared_frozen assms n], assumption+, erule p)
qed

lemma delay_prepared:
  assumes "timeless k R" "unat us < 1048576"
  shows "io_ok (on k (prepared M l N q) R) (delay_us hw us) (\<lambda>_. on k (prepared M l N q) R)"
  by (rule prepared_step [OF delay_at [OF prepared_frozen assms]])

text \<open>A write to a register that the chips do not see.\<close>

lemma put32_other:
  assumes "stable S" "rest k R" "k < 2" "a \<notin> {gpio_set0, gpio_clr0, GPIO_EDS0, GPIO_FEN0}"
  shows "io_ok (on k S R) (io_put32 hw a v) (\<lambda>_. on k S R)"
proof -
  have e: "gpio_effect p q a v c = c" for p q c using assms(4) by (simp add: gpio_effect_def)
  show ?thesis using put32 [OF assms(1-3) e] by (simp add: e)
qed

lemma set_function:
  assumes "stable S" "rest k R" "k < 2" "pin < 32"
  shows "io_ok (on k S R) (gpio_set_function hw pin func) (\<lambda>_. on k S R)"
proof -
  define a where "a = GPIO_BASE + of_nat (pin div 10) * 4"
  have "pin div 10 \<in> {0, 1, 2, 3}" using assms(4) by auto
  then have a: "a \<notin> {gpio_set0, gpio_clr0, GPIO_EDS0, GPIO_FEN0}" "a \<noteq> timer_addr"
    by (auto simp: a_def gpio_addrs timer_addr_def)
  have g: "io_ok (on k S R) (io_get32 hw a) (\<lambda>_. on k S R)"
    by (rule io_ok_post [OF get32 [OF assms(1,2) a(2)]]) (simp add: on_def)
  show ?thesis unfolding gpio_set_function_def a_def [symmetric] Let_def
    using io_ok_bind [OF g put32_other [OF assms(1-3) a(1)]] by (auto intro: io_ok_ret)
qed

lemma spi_init_ok:
  assumes "stable S" "rest k R"
  shows "io_ok (on k S R) (\<lambda>d. Inr (spi_n_init hw j q d)) (\<lambda>s d. s = j \<and> on k S R d)"
proof (rule io_okI)
  fix d assume d: "on k S R d"
  obtain s d' where t: "spi_n_init hw j q d = (s, d')" by fastforce
  note i = init_step [OF t]
  have "R d'" using assms(2) d i unfolding rest_def on_def by blast
  moreover have "S (chips d' k)" using stable_evolves [OF assms(1)] d i unfolding on_def by blast
  ultimately show "\<exists>s d'. Inr (spi_n_init hw j q d) = (Inr (s, d') :: (nat \<times> 'd) res) \<and> s = j \<and> on k S R d'"
    using i t by (auto simp: on_def)
qed

lemma pulldown_ok:
  assumes "stable S" "rest k R"
  shows "io_ok (on k S R) (gpio_set_pulldown hw p) (\<lambda>_. on k S R)"
proof (rule io_okI)
  fix d assume d: "on k S R d"
  have i: "evolves (chips d j) (chips (pulldown hw p d) j) \<and> now (pulldown hw p d) = now d" for j by (rule pull_step)
  have "R (pulldown hw p d)" using assms(2) d i unfolding rest_def on_def by blast
  moreover have "S (chips (pulldown hw p d) k)" using stable_evolves [OF assms(1)] d i unfolding on_def by blast
  ultimately show "\<exists>x d'. gpio_set_pulldown hw p d = Inr (x, d') \<and> on k S R d'"
    by (auto simp: gpio_set_pulldown_def on_def)
qed

lemma timer_ok:
  assumes "stable S" "timeless k R"
  shows "io_ok (on k S R) (timer_get_usec hw) (\<lambda>_. on k S R)"
proof (rule io_okI)
  fix d assume d: "on k S R d"
  obtain d' where d': "timer_get_usec hw d = Inr (of_nat (now d'), d')" "\<forall>k. evolves (chips d k) (chips d' k)"
    using clk.usec_run by blast
  have "R d'" using assms(2) d d'(2) unfolding timeless_def on_def by blast
  moreover have "S (chips d' k)" using stable_evolves [OF assms(1)] d d'(2) unfolding on_def by blast
  ultimately show "\<exists>x d'. timer_get_usec hw d = Inr (x, d') \<and> on k S R d'" using d'(1) by (auto simp: on_def)
qed

lemma first_off:
  assumes "rest k R" "k < 2" "ce_of k < 32" "frozen c"
  shows "io_ok (on k ((=) c) R) (gpio_set_off hw (ce_of k)) (\<lambda>_. on k ((=) (c\<lparr>ce := False\<rparr>)) R)"
proof -
  have o: "gpio_effect (ce_of j) (int_of j) gpio_clr0 (2 ^ ce_of k) x = x" if "j < 2" "j \<noteq> k" for j x
    using other_pin [OF that(1) assms(2) that(2)] bit_pin [OF assms(3)] by (auto simp: gpio_effect_def gpio_addrs)
  have s: "gpio_effect (ce_of k) (int_of k) gpio_clr0 (2 ^ ce_of k) x = x\<lparr>ce := False\<rparr>" for x
    using bit_pin [OF assms(3)] by (simp add: gpio_effect_def gpio_addrs)
  have "io_ok (on k ((=) c) R) (io_put32 hw gpio_clr0 (2 ^ ce_of k)) (\<lambda>_. on k ((=) (c\<lparr>ce := False\<rparr>)) R)"
    using put32 [OF frozen_stable [OF assms(4)] assms(1,2) o] unfolding s exact .
  then show ?thesis using assms(3) by (simp add: gpio_set_off_def bad_pin_def)
qed

lemma pin_init_ok:
  assumes "timeless k R" "k < 2" "ce_of k < 32" "frozen c"
  shows "io_ok (on k ((=) c) R) (pin_init hw (ce_of k) k) (\<lambda>s d. s = k \<and> on k ((=) (c\<lparr>ce := False\<rparr>)) R d)"
proof -
  note R = timeless_rest [OF assms(1)] and st = frozen_stable [OF assms(4)]
  let ?P = "on k ((=) c) R" and ?Q = "on k ((=) (c\<lparr>ce := False\<rparr>)) R"
  have k: "assert_r (k = 0 \<or> k = 1) = Inr ()" using assms(2) by (simp add: assert_r_def less_2_cases)
  have dl: "io_ok ?P (delay_ms hw 100) (\<lambda>_. ?P)"
    unfolding delay_ms_def by (rule delay_at [OF assms(4,1)]) simp
  have out: "io_ok ?P (gpio_set_output hw (ce_of k)) (\<lambda>_. ?P)"
    unfolding gpio_set_output_def by (rule set_function [OF st R assms(2,3)])
  have seq: "io_ok ?P (io_seq [delay_ms hw 100, gpio_set_output hw (ce_of k), gpio_set_pulldown hw (ce_of k),
      gpio_set_off hw (ce_of k)]) (\<lambda>_. ?Q)"
    by (rule io_ok_seq_Cons [OF dl] io_ok_seq_Cons [OF out] io_ok_seq_Cons [OF pulldown_ok [OF st R]]
        io_ok_seq_Cons [OF first_off [OF R assms(2-4)]] io_ok_seq_Nil)+
  show ?thesis unfolding pin_init_def
    apply (rule io_ok_bind [OF dl], rule io_ok_bind [OF io_ok_res [OF k]])
    apply (rule io_ok_fact, rule io_ok_bind [OF spi_init_ok [OF st R]], rule io_ok_fact)
    apply (rule io_ok_bind [OF io_ok_res [where x = "()"]], simp, rule io_ok_fact)
    by (rule io_ok_bind [OF seq]) (auto intro: io_ok_ret)
qed

lemma new_ok:
  assumes "timeless k R" "k < 2" "ce_of k < 32" "spi_chip cf = k" "ce_pin cf = ce_of k" "power_on c"
  shows "io_ok (on k ((=) c) R) (nrf_new hw cf)
    (\<lambda>n d. (\<exists>u. n = nrf_kmalloc\<lparr>config := cf, start_usec := u, spi := k\<rparr>) \<and>
       on k (prepared Map.empty (tx_log c) (length (rx_log c) + incoming c) (incoming c = 0)) R d)"
proof -
  note fr = power_on_frozen [OF assms(6)]
  let ?N = "\<lambda>n. \<exists>u. n = nrf_kmalloc\<lparr>config := cf, start_usec := u\<rparr>"
  have st: "io_ok (on k ((=) c) R) (nrf_stat_start hw (nrf_kmalloc\<lparr>config := cf\<rparr>)) (\<lambda>n d. ?N n \<and> on k ((=) c) R d)"
    unfolding nrf_stat_start_def
    by (rule io_ok_bind [OF timer_ok [OF frozen_stable [OF fr] assms(1)]], rule io_ok_ret)
       (auto simp: nrf_kmalloc_def)
  have "io_ok (on k ((=) c) R) (io_bind (pin_init hw (ce_pin cf) (spi_chip cf)) (\<lambda>s. io_ret (n\<lparr>spi := s\<rparr>)))
      (\<lambda>n d. (\<exists>u. n = nrf_kmalloc\<lparr>config := cf, start_usec := u, spi := k\<rparr>) \<and>
         on k (prepared Map.empty (tx_log c) (length (rx_log c) + incoming c) (incoming c = 0)) R d)" if "?N n" for n
    unfolding assms(4,5)
    by (rule io_ok_bind [OF pin_init_ok [OF assms(1-3) fr]], rule io_ok_ret)
       (use that power_on_prepared [OF assms(6)] in \<open>auto simp: on_def\<close>)
  then show ?thesis unfolding nrf_new_def by (intro io_ok_bind [OF st] io_ok_fact)
qed

lemma on_regs:
  "on k (prepared M l N q) R d \<Longrightarrow> rx_regs nb M \<Longrightarrow> on k (\<lambda>c. \<exists>M. rx_regs nb M \<and> prepared M l N q c) R d"
  unfolding on_def by blast

lemma on_image:
  "on k (\<lambda>c'. \<exists>c. S c \<and> c' = f c) R d \<Longrightarrow> (\<And>c. S c \<Longrightarrow> S' (f c)) \<Longrightarrow> on k S' R d"
  unfolding on_def by metis

text \<open>The registers are written while the CE pin is low.\<close>

lemma config_ok:
  assumes "timeless (spi n) R" "unat a < 16777216"
  shows "io_ok (on (spi n) (prepared Map.empty l N q) R) (io_seq (dfs_nrf_regs hw n a))
    (\<lambda>_. on (spi n) (\<lambda>c. \<exists>M. rx_regs (conf_nbytes (config n)) M \<and> prepared M l N q c) R)"
  unfolding dfs_nrf_regs_def nrf_settings_def append_Cons append_Nil delay_ms_def
  apply (rule io_ok_post)
   apply ((rule io_ok_seq_Cons,
      rule pwr_prepared [OF timeless_rest [OF assms(1)]] set_addr_prepared [OF timeless_rest [OF assms(1)]]
         put_fifo_prepared [OF timeless_rest [OF assms(1)]] delay_prepared [OF assms(1)]
         put_prepared [OF timeless_rest [OF assms(1)]]; (simp add: assms(2); fail)?)+)
   apply (rule io_ok_seq_Nil)
  by (erule on_regs) (simp add: rx_regs_def nrf_regs nrf_default_addr_nbytes_def)

section \<open>From listening to waiting\<close>

lemma listen_on:
  assumes "rest (spi n) R" "wired n"
  shows "io_ok (on (spi n) (\<lambda>c. \<exists>M. rx_regs nb M \<and> prepared M l N q c) R) (gpio_set_on hw (ce_pin (config n)))
    (\<lambda>_. on (spi n) (listens nb l N q) R)"
  by (rule on_split, elim exE conjE, rule io_ok_post [OF set_on_at [OF prepared_frozen assms]])
     (auto simp: on_def dest!: sym [of "_\<lparr>ce := True\<rparr>"] intro: prepared_listens)

lemma flush_ok:
  assumes "nb \<le> 32" "rest (spi n) R"
  shows "io_ok (on (spi n) (listens nb l N q) R) (io_skip (nrf_rx_flush hw n)) (\<lambda>_. on (spi n) (listens nb l N q) R)"
    "io_ok (on (spi n) (listens nb l N q) R) (io_skip (nrf_tx_flush hw n)) (\<lambda>_. on (spi n) (listens nb l N q) R)"
proof -
  have rx: "listens nb l N q (chip_next c [FLUSH_RX])" if "listens nb l N q c" for c
  proof -
    have "chip_next c [FLUSH_RX] = c\<lparr>rx_fifo := []\<rparr>" by (simp add: chip_next_def nrf_cmds)
    moreover have "listening nb (rx_log c) l N (c\<lparr>rx_fifo := []\<rparr>)"
      using that unfolding listens_def listening_def by (elim exE conjE) (clarsimp simp: ready_rx_def)
    ultimately show ?thesis using that by (auto simp: listens_def)
  qed
  have tx: "listens nb l N q (chip_next c [FLUSH_TX])" if "listens nb l N q c" for c
  proof -
    have "tx_fifo c = []" using that by (auto simp: listens_def listening_def ready_rx_def)
    then have "chip_next c [FLUSH_TX] = c" by (simp add: chip_next_def nrf_cmds)
    with that show ?thesis by simp
  qed
  have d: "documented c [FLUSH_RX]" "documented c [FLUSH_TX]" for c by (simp_all add: documented_def nrf_cmds)
  show "io_ok (on (spi n) (listens nb l N q) R) (io_skip (nrf_rx_flush hw n)) (\<lambda>_. on (spi n) (listens nb l N q) R)"
    unfolding nrf_rx_flush_def
    by (rule io_ok_skip, rule io_ok_bind [OF xfer [OF listens_stable(1) [OF assms(1)] d(1) assms(2)]], rule io_ok_ret)
       (auto simp: on_def rx)
  show "io_ok (on (spi n) (listens nb l N q) R) (io_skip (nrf_tx_flush hw n)) (\<lambda>_. on (spi n) (listens nb l N q) R)"
    unfolding nrf_tx_flush_def
    by (rule io_ok_skip, rule io_ok_bind [OF xfer [OF listens_stable(1) [OF assms(1)] d(2) assms(2)]], rule io_ok_ret)
       (auto simp: on_def tx)
qed

lemma flag_clear:
  assumes "nb \<le> 32" "rest (spi n) R"
  shows "io_ok (on (spi n) (listens nb l N q) R) (nrf_rx_intr_clr hw n)
    (\<lambda>_. on (spi n) (\<lambda>c. listens nb l N q c \<and> flag_ok c) R)"
proof -
  have w: "chip_write c NRF_STATUS [push_bit 6 1] = c\<lparr>rx_dr := False\<rparr>" for c
    by (simp add: chip_write_def is_adr_def nrf_regs)
  show ?thesis unfolding nrf_rx_intr_clr_def
    by (rule io_ok_skip, rule io_ok_post [OF put8 [OF listens_stable(1) [OF assms(1)] one_byte_regs(8) assms(2)]],
        erule on_image) (simp only: w, simp add: edge_def flag_ok_def listens_def)
qed

text \<open>The falling edge of the interrupt pin is watched from here on; the bits of the other pins stay.\<close>

lemma watch_ok:
  assumes "stable S" "rest k R" "k < 2" "int_of k < 32" "\<And>c. S c \<Longrightarrow> S (c\<lparr>fen := True\<rparr>)"
  shows "io_ok (on k S R) (io_bind (io_get32 hw GPIO_FEN0) (\<lambda>x. io_put32 hw GPIO_FEN0 (x OR push_bit (int_of k) 1)))
    (\<lambda>_. on k (\<lambda>c. S c \<and> fen c) R)"
proof (rule io_okI)
  fix d assume d: "on k S R d"
  obtain x d1 where g: "GET32 hw GPIO_FEN0 d = (x, d1)" by fastforce
  have g1: "evolves (chips d j) (chips d1 j)" "j < 2 \<Longrightarrow> bit x (int_of j) = fen (chips d1 j)" "now d1 = now d" for j
    using get_step [OF g, of j] by (auto simp: gpio_addrs timer_addr_def)
  define v where "v = x OR push_bit (int_of k) 1"
  let ?d = "PUT32 hw GPIO_FEN0 v d1"
  have p: "\<exists>c. evolves (chips d1 j) c \<and> chips ?d j = c\<lparr>fen := bit v (int_of j)\<rparr> \<and> now ?d = now d1" for j
    using put_step [of d1 j GPIO_FEN0 v] by (auto simp: gpio_effect_def gpio_addrs)
  have "evolves (chips d j) (chips ?d j)" if "j < 2" "j \<noteq> k" for j
  proof -
    obtain c where c: "evolves (chips d1 j) c" "chips ?d j = c\<lparr>fen := bit v (int_of j)\<rparr>" using p by blast
    have "bit v (int_of j) = fen c"
      using other_pin [OF that(1) assms(3) that(2)] g1(2) [OF that(1)] evolves_fen [OF c(1)] bit_pin [OF assms(4)]
      by (simp add: v_def bit_or_iff)
    then have "chips ?d j = c" using c(2) by simp
    with g1(1) [of j] c(1) show ?thesis by simp
  qed
  moreover have "now ?d = now d" using p g1(3) by metis
  ultimately have R: "R ?d" using assms(2) d unfolding rest_def on_def by blast
  obtain c where c: "evolves (chips d1 k) c" "chips ?d k = c\<lparr>fen := bit v (int_of k)\<rparr>" using p by blast
  have "bit v (int_of k)" using bit_pin [OF assms(4)] by (simp add: v_def bit_or_iff)
  moreover have "S c" using stable_evolves [OF assms(1)] d g1(1) c(1) unfolding on_def by (meson rtranclp_trans)
  ultimately have "S (chips ?d k) \<and> fen (chips ?d k)" using c(2) assms(5) by simp
  with R show "\<exists>u d'. io_bind (io_get32 hw GPIO_FEN0) (\<lambda>x. io_put32 hw GPIO_FEN0 (x OR push_bit (int_of k) 1)) d = Inr (u, d') \<and>
      on k (\<lambda>c. S c \<and> fen c) R d'"
    by (auto simp: io_bind_def io_get32_def io_put32_def g on_def v_def)
qed

lemma interrupt_init_ok:
  assumes "nb \<le> 32" "rest (spi n) R" "wired n"
  shows "io_ok (on (spi n) (\<lambda>c. listens nb l N q c \<and> flag_ok c) R) (nrf_interrupt_init hw (int_pin (config n)))
    (\<lambda>_. on (spi n) (\<lambda>c. listens nb l N q c \<and> flag_ok c \<and> fen c) R)"
proof -
  have w: "spi n < 2" "int_pin (config n) = int_of (spi n)" "int_of (spi n) < 32"
    using assms(3) by (auto simp: wired_def)
  let ?S = "\<lambda>c. listens nb l N q c \<and> flag_ok c"
  note st = listens_stable(2) [OF assms(1)]
  have "gpio_effect (ce_of j) (int_of j) gpio_set0 (2 ^ int_of (spi n)) c = c" if "j < 2" for j c
    using pins(3) [OF that w(1)] bit_pin [OF w(3)] by (auto simp: gpio_effect_def gpio_addrs)
  then have on: "io_ok (on (spi n) ?S R) (gpio_write hw (int_of (spi n)) True) (\<lambda>_. on (spi n) ?S R)"
    using put32 [OF st assms(2) w(1), of gpio_set0 "2 ^ int_of (spi n)"] w
    by (simp add: gpio_write_def gpio_set_on_def bad_pin_def)
  have up: "listens nb l N q (c\<lparr>fen := True\<rparr>) \<and> flag_ok (c\<lparr>fen := True\<rparr>)" if "listens nb l N q c \<and> flag_ok c" for c
    using that by (simp add: listens_def flag_ok_def)
  have irq2: "io_ok (on (spi n) (\<lambda>c. ?S c \<and> fen c) R) (io_put32 hw IRQ_ENABLE_2 0x20000) (\<lambda>_. on (spi n) (\<lambda>c. ?S c \<and> fen c) R)"
    by (rule put32_other [OF _ assms(2) w(1)])
       (use listens_stable(3) [OF assms(1)] in \<open>simp_all add: gpio_addrs IRQ_ENABLE_2_def\<close>)
  have "io_ok (on (spi n) ?S R) (io_bind (io_bind (io_get32 hw GPIO_FEN0)
      (\<lambda>x. io_put32 hw GPIO_FEN0 (x OR push_bit (int_of (spi n)) 1))) (\<lambda>_. io_put32 hw IRQ_ENABLE_2 0x20000))
      (\<lambda>_. on (spi n) (\<lambda>c. ?S c \<and> fen c) R)"
    by (rule io_ok_bind [OF watch_ok [OF st assms(2) w(1,3) up] irq2])
  then have last: "io_ok (on (spi n) ?S R) (io_bind (io_get32 hw GPIO_FEN0)
      (\<lambda>x. io_bind (io_put32 hw GPIO_FEN0 (x OR push_bit (int_of (spi n)) 1)) (\<lambda>_. io_put32 hw IRQ_ENABLE_2 0x20000)))
      (\<lambda>_. on (spi n) (\<lambda>c. listens nb l N q c \<and> flag_ok c \<and> fen c) R)"
    by (simp add: io_bind_assoc)
  have inp: "io_ok (on (spi n) ?S R) (gpio_set_input hw (int_of (spi n))) (\<lambda>_. on (spi n) ?S R)"
    unfolding gpio_set_input_def by (rule set_function [OF st assms(2) w(1,3)])
  show ?thesis unfolding nrf_interrupt_init_def w(2) using w(3)
    by (intro io_ok_bind [OF inp] io_ok_bind [OF on]) (simp add: last del: push_bit_of_1)
qed

section \<open>The start as a whole\<close>

text \<open>A check of the FIFOs holds for sure if nobody sends to the radio, and may fail otherwise.\<close>

abbreviation race :: "bool \<Rightarrow> fault set" where
  "race q \<equiv> (if q then {} else {AssertFail})"

lemma may_assert:
  assumes "io_ok P m (\<lambda>b d. (b \<longrightarrow> Q d) \<and> (q \<longrightarrow> b))"
  shows "io_may (race q) P (io_assert m) (\<lambda>_. Q)"
  unfolding io_assert_def
  by (rule io_may_bind [OF io_may_ok [OF assms]]) (auto simp: io_may_def io_res_def assert_r_def)

lemma fifos_ok:
  assumes "nb \<le> 32" "rest (spi n) R"
  shows "io_may (race q) (on (spi n) (\<lambda>c. listens nb l N q c \<and> flag_ok c \<and> fen c) R) (fifos_reset hw n)
    (\<lambda>_. on (spi n) (\<lambda>c. \<exists>dn. idle nb dn l N [] c) R)"
proof -
  let ?S = "\<lambda>c. listens nb l N q c \<and> flag_ok c \<and> fen c"
  note st = listens_stable(3) [OF assms(1)]
  note bt = bit_isset [OF st one_byte_regs(14) assms(2)]
  have tx: "tx_fifo c = []" if "?S c" for c using that by (auto simp: listens_def listening_def ready_rx_def)
  have rx: "q \<Longrightarrow> rx_fifo c = []" if "?S c" for c using that by (auto simp: listens_def)
  have 1: "io_may (race q) (on (spi n) ?S R) (io_assert (io_not (nrf_tx_fifo_full hw n))) (\<lambda>_. on (spi n) ?S R)"
    unfolding nrf_tx_fifo_full_def io_not_def
    by (rule may_assert, rule io_ok_bind [OF bt], simp, rule io_ok_ret) (use tx in \<open>auto simp: on_def\<close>)
  have 2: "io_may (race q) (on (spi n) ?S R) (io_assert (nrf_tx_fifo_empty hw n)) (\<lambda>_. on (spi n) ?S R)"
    unfolding nrf_tx_fifo_empty_def
    by (rule may_assert, rule io_ok_post [OF bt]) (use tx in \<open>auto simp: on_def\<close>)
  have 3: "io_may (race q) (on (spi n) ?S R) (io_assert (io_not (nrf_rx_fifo_full hw n))) (\<lambda>_. on (spi n) ?S R)"
    unfolding nrf_rx_fifo_full_def io_not_def
    by (rule may_assert, rule io_ok_bind [OF bt], simp, rule io_ok_ret) (use rx in \<open>auto simp: on_def\<close>)
  have idl: "\<exists>dn. idle nb dn l N [] c" if "?S c" "rx_fifo c = []" for c
    using that listening_idle unfolding listens_def by blast
  have 4: "io_may (race q) (on (spi n) ?S R) (io_assert (nrf_rx_fifo_empty hw n))
      (\<lambda>_. on (spi n) (\<lambda>c. \<exists>dn. idle nb dn l N [] c) R)"
    unfolding nrf_rx_fifo_empty_def
    by (rule may_assert, rule io_ok_post [OF bt], simp) (use rx idl in \<open>auto simp: on_def\<close>)
  show ?thesis unfolding fifos_reset_def
    by (rule io_may_seq_Cons [OF 1] io_may_seq_Cons [OF 2] io_may_seq_Cons [OF 3] io_may_seq_Cons [OF 4] io_may_seq_Nil)+
qed

lemma listen_seq:
  assumes "nb \<le> 32" "timeless (spi n) R" "wired n" "nrf_id n < 2"
  shows "io_may (race q) (on (spi n) (\<lambda>c. \<exists>M. rx_regs nb M \<and> prepared M l N q c) R) (io_seq (dfs_nrf_listen hw n))
    (\<lambda>_. on (spi n) (\<lambda>c. \<exists>dn. idle nb dn l N [] c) R)"
proof -
  note R = timeless_rest [OF assms(2)]
  have nop: "io_ok (on (spi n) S R) (io_ret ()) (\<lambda>_. on (spi n) S R)" for S by (rule io_ok_ret)
  have d1: "io_ok (on (spi n) (listens nb l N q) R) (delay_ms hw 2) (\<lambda>_. on (spi n) (listens nb l N q) R)"
    unfolding delay_ms_def by (rule delay [OF listens_stable(1) [OF assms(1)] assms(2)]) simp
  have d2: "io_ok (on (spi n) (\<lambda>c. listens nb l N q c \<and> flag_ok c \<and> fen c) R) (delay_ms hw 2)
      (\<lambda>_. on (spi n) (\<lambda>c. listens nb l N q c \<and> flag_ok c \<and> fen c) R)"
    unfolding delay_ms_def by (rule delay [OF listens_stable(3) [OF assms(1)] assms(2)]) simp
  have cl: "io_ok (on (spi n) (listens nb l N q) R) (clear_flags hw n)
      (\<lambda>_. on (spi n) (\<lambda>c. listens nb l N q c \<and> flag_ok c \<and> fen c) R)"
    unfolding clear_flags_def USE_TX_INTERRUPT_def USE_RX_INTERRUPT_def if_True if_False simp_thms
    by (rule io_ok_seq_Cons [OF nop] io_ok_seq_Cons [OF flag_clear [OF assms(1) R]]
        io_ok_seq_Cons [OF interrupt_init_ok [OF assms(1) R assms(3)]] io_ok_seq_Nil)+
  have id: "io_ok (on (spi n) S R) (io_res (assert_r (nrf_id n = 0 \<or> nrf_id n = 1))) (\<lambda>_. on (spi n) S R)" for S
    using assms(4) by (auto simp: io_ok_def io_res_def assert_r_def less_2_cases)
  show ?thesis unfolding dfs_nrf_listen_def
    by (rule io_may_seq_Cons [OF io_may_ok [OF listen_on [OF R assms(3)]]] io_may_seq_Cons [OF io_may_ok [OF d1]]
        io_may_seq_Cons [OF io_may_ok [OF flush_ok(1) [OF assms(1) R]]]
        io_may_seq_Cons [OF io_may_ok [OF flush_ok(2) [OF assms(1) R]]]
        io_may_seq_Cons [OF io_may_ok [OF cl]] io_may_seq_Cons [OF io_may_ok [OF d2]]
        io_may_seq_Cons [OF fifos_ok [OF assms(1) R]] io_may_seq_Cons [OF io_may_ok [OF id]] io_may_seq_Nil)+
qed

lemma start_ok:
  assumes "timeless k R" "k < 2" "ce_of k < 32" "int_of k < 32" "spi_chip cf = k" "ce_pin cf = ce_of k" "int_pin cf = int_of k"
    "conf_nbytes cf \<le> 32" "conf_id cf < 2" "unat a < 16777216" "fst (dfs_nrf_claim g)" "power_on c"
  shows "io_may (race (incoming c = 0)) (on k ((=) c) R) (dfs_nrf_init hw g cf a)
    (\<lambda>r d. snd r = snd (dfs_nrf_claim g) \<and> (\<exists>n. fst r = Some n \<and> spi n = k \<and> config n = cf \<and> wired n \<and>
       cq_inv (recvq n) \<and> cq_list (recvq n) = [] \<and>
       on k (\<lambda>c'. \<exists>dn. idle (conf_nbytes cf) dn (tx_log c) (length (rx_log c) + incoming c) [] c') R d))"
proof -
  let ?q = "incoming c = 0" and ?l = "tx_log c" and ?N = "length (rx_log c) + incoming c" and ?nb = "conf_nbytes cf"
  let ?I = "on k (\<lambda>c'. \<exists>dn. idle ?nb dn ?l ?N [] c') R"
  obtain g' where g': "dfs_nrf_claim g = (True, g')" using assms(11) by (cases "dfs_nrf_claim g") auto
  have run: "io_may (race ?q) (on k (prepared Map.empty ?l ?N ?q) R) (io_seq (dfs_nrf_regs hw n a @ dfs_nrf_listen hw n))
      (\<lambda>_. ?I)" if n: "wired n" "spi n = k" "config n = cf" "nrf_id n < 2" for n
    using io_may_seq_append [OF config_ok [of n R a ?l ?N ?q] listen_seq [of "conf_nbytes (config n)" n R ?q ?l ?N]]
      assms(1,8,10) n by simp
  have whole: "io_may (race ?q) (on k (prepared Map.empty ?l ?N ?q) R)
      (io_bind (io_seq (dfs_nrf_regs hw n a @ dfs_nrf_listen hw n)) (\<lambda>_. io_ret (Some n, g')))
      (\<lambda>r d. snd r = g' \<and> (\<exists>n. fst r = Some n \<and> spi n = k \<and> config n = cf \<and> wired n \<and>
         cq_inv (recvq n) \<and> cq_list (recvq n) = [] \<and> ?I d))"
    if n: "n = nrf_kmalloc\<lparr>config := cf, start_usec := u, spi := k, nrf_id := conf_id cf, tx_sent := 0, rxaddr := x\<rparr>" for n u x
  proof (rule io_may_bind [OF run])
    show "wired n" "spi n = k" "config n = cf" "nrf_id n < 2" using n assms by (simp_all add: wired_def)
    moreover have "cq_inv (recvq n)" using n by (simp add: nrf_kmalloc_def cq_inv_def)
    moreover have "cq_list (recvq n) = []"
      using n by (simp add: nrf_kmalloc_def cq_list_def cq_nelem_def ring_list_def)
    ultimately show "io_may (race ?q) ?I (io_ret (Some n, g')) (\<lambda>r d. snd r = g' \<and> (\<exists>n. fst r = Some n \<and> spi n = k \<and>
         config n = cf \<and> wired n \<and> cq_inv (recvq n) \<and> cq_list (recvq n) = [] \<and> ?I d))"
      by (intro io_may_ok io_ok_ret) simp
  qed
  show ?thesis unfolding dfs_nrf_init_def g' prod.case if_False not_True_eq_False snd_conv Let_def
    apply (rule io_may_bind [OF io_may_ok [OF new_ok [OF assms(1-3,5,6,12)]]])
    apply (rule io_may_fact, erule exE)
    apply (rule whole, simp)
    done
qed

end

end
