(* ===== verification/Nrf_Board.thy ===== *)
theory Nrf_Board
  imports Nrf_Start
begin

text \<open>
  A board that keeps the contract of the radio: two chips wired as \<open>nrf-test.h\<close> wires them (the left one
  with CE on pin 6 and its interrupt on pin 22, the right one on 5 and 23), a timer that moves at every
  look, and a script of what is on the air at which time. It shows that the laws of \<open>nrf_radio\<close> can hold
  together, and the properties of the driver are applied to it.
\<close>

section \<open>A board of two chips\<close>

record board =
  raw :: "nat \<Rightarrow> chip"
  clock :: nat
  air :: "nat \<Rightarrow> nat \<Rightarrow> (nat \<times> u8 list) option"

definition five :: "u8 list \<Rightarrow> u8 list" where
  "five xs = take 5 (xs @ replicate 5 0)"

definition board_chip :: "board \<Rightarrow> nat \<Rightarrow> chip" where
  "board_chip b k = (raw b k)\<lparr>adr := \<lambda>r. five (adr (raw b k) r)\<rparr>"

definition board_ce :: "nat \<Rightarrow> nat" where
  "board_ce k = (if k = 0 then 6 else 5)"

definition board_int :: "nat \<Rightarrow> nat" where
  "board_int k = (if k = 0 then 22 else 23)"

definition transmit1 :: "chip \<Rightarrow> chip" where
  "transmit1 c = (case tx_fifo c of [] \<Rightarrow> c
     | (_, pl) # ts \<Rightarrow> edge c (c\<lparr>tx_fifo := ts, tx_ds := True,
         tx_log := tx_log c @ [(take (unat (regs c NRF_SETUP_AW) + 2) (adr c NRF_TX_ADDR), pl)]\<rparr>))"

fun settle :: "nat \<Rightarrow> chip \<Rightarrow> chip" where
  "settle 0 c = c"
| "settle (Suc m) c = (if sending c then settle m (transmit1 c) else c)"

definition hear :: "chip \<Rightarrow> nat \<times> u8 list \<Rightarrow> chip" where
  "hear c x = (case x of (p, pl) \<Rightarrow>
     if receiving c \<and> length (rx_fifo c) < 3 \<and> p < 6 \<and> bit (regs c NRF_EN_RXADDR) p \<and>
        length pl = unat (regs c (NRF_RX_PW_P0 + of_nat p)) \<and> pl \<noteq> [] \<and> incoming c > 0
     then edge c (c\<lparr>rx_fifo := rx_fifo c @ [(p, pl)], rx_dr := True, rx_log := rx_log c @ [pl],
                    incoming := incoming c - 1\<rparr>)
     else c)"

definition board_spi :: "nat \<Rightarrow> u8 list \<Rightarrow> board \<Rightarrow> u8 list \<times> board" where
  "board_spi k tx b =
     (let c = settle (length (tx_fifo (board_chip b k))) (board_chip b k) in
      (chip_status c # (case chip_data c tx of Some bs \<Rightarrow> bs | None \<Rightarrow> replicate (length (tl tx)) 0),
       b\<lparr>raw := (raw b)(k := if documented c tx then chip_next c tx else c)\<rparr>))"

definition pin_word :: "(chip \<Rightarrow> bool) \<Rightarrow> board \<Rightarrow> u32" where
  "pin_word f b = push_bit 22 (of_bool (f (board_chip b 0))) OR push_bit 23 (of_bool (f (board_chip b 1)))"

definition board_tick :: "board \<Rightarrow> board" where
  "board_tick b = b\<lparr>clock := clock b + 1, raw := \<lambda>k. case air b (clock b + 1) k of
     None \<Rightarrow> board_chip b k | Some x \<Rightarrow> hear (board_chip b k) x\<rparr>"

definition board_get :: "u32 \<Rightarrow> board \<Rightarrow> u32 \<times> board" where
  "board_get a b =
     (if a = timer_addr then (of_nat (clock b + 1), board_tick b)
      else if a = GPIO_EDS0 then (pin_word event b, b)
      else if a = gpio_lev0 then (pin_word (\<lambda>c. \<not> irq_low c) b, b)
      else if a = GPIO_FEN0 then (pin_word fen b, b)
      else (0, b))"

definition board_put :: "u32 \<Rightarrow> u32 \<Rightarrow> board \<Rightarrow> board" where
  "board_put a v b = b\<lparr>raw := \<lambda>k. gpio_effect (board_ce k) (board_int k) a v (board_chip b k)\<rparr>"

definition board_hw :: "board hw" where
  "board_hw = \<lparr>spi_n_transfer = board_spi, spi_n_init = (\<lambda>k q b. (k, b)), pulldown = (\<lambda>p b. b),
     GET32 = board_get, PUT32 = board_put, hw_polls = 1048576\<rparr>"

section \<open>It keeps the contract\<close>

definition full :: "chip \<Rightarrow> bool" where
  "full c \<longleftrightarrow> (\<forall>r. length (adr c r) = 5)"

lemma five_id [simp]: "length xs = 5 \<Longrightarrow> five xs = xs"
  by (simp add: five_def)

lemma full_board_chip [simp]: "full (board_chip b k)"
  by (auto simp: full_def board_chip_def five_def min_def)

lemma board_chip_full: "full (raw b k) \<Longrightarrow> board_chip b k = raw b k"
  by (cases "raw b k") (auto simp: full_def board_chip_def)

lemma full_steps [simp]:
  "full (edge c c') = full c'" "full c \<Longrightarrow> full (transmit1 c)" "full c \<Longrightarrow> full (hear c x)"
  "full c \<Longrightarrow> full (gpio_effect p i a v c)"
  by (auto simp: full_def transmit1_def hear_def gpio_effect_def split: list.splits prod.splits)

lemma full_settle [simp]: "full c \<Longrightarrow> full (settle m c)"
  by (induction m arbitrary: c) auto

lemma full_chip_next:
  assumes "full c" "documented c tx"
  shows "full (chip_next c tx)"
proof -
  have "length (put_at (adr c r) 0 (tl tx)) = 5" if "length (tl tx) \<le> 5" for r
    using assms(1) that by (simp add: full_def put_at_def)
  moreover have "length (tl tx) \<le> 5" if "0x20 \<le> hd tx" "is_adr (hd tx - 0x20)" "hd tx < 0x40"
    using assms(2) that by (auto simp: documented_def Let_def one_byte_def is_adr_def nrf_regs)
  ultimately show ?thesis using assms(1)
    by (auto simp: chip_next_def chip_write_def Let_def full_def not_less)
qed

lemma transmit1_evolve: "sending c \<Longrightarrow> evolve c (transmit1 c)"
  using evolve.transmit [of c] by (cases "tx_fifo c") (auto simp: transmit1_def sending_def)

lemma settle_evolves: "evolves c (settle m c)"
proof (induction m arbitrary: c)
  case (Suc m)
  then show ?case using transmit1_evolve [of c] by (auto intro: converse_rtranclp_into_rtranclp)
qed simp

lemma settle_quiet: "length (tx_fifo c) \<le> m \<Longrightarrow> \<not> sending (settle m c)"
proof (induction m arbitrary: c)
  case (Suc m)
  have "length (tx_fifo (transmit1 c)) \<le> m"
    using Suc.prems by (auto simp: transmit1_def edge_def split: list.splits)
  then show ?case using Suc.IH by simp
qed (simp add: sending_def)

lemma hear_evolves: "evolves c (hear c x)"
  using evolve.arrive [of c] by (auto simp: hear_def split: prod.splits)

lemma answer_length:
  "full c \<Longrightarrow> documented c tx \<Longrightarrow> chip_data c tx = Some bs \<Longrightarrow> length bs = length (tl tx)"
  by (auto simp: documented_def chip_data_def full_def Let_def one_byte_def is_adr_def nrf_regs split: if_splits)

lemma board_answers:
  assumes "full c" "documented c tx"
  shows "answers c tx (chip_status c # (case chip_data c tx of Some bs \<Rightarrow> bs | None \<Rightarrow> replicate (length (tl tx)) 0))"
  using assms answer_length [OF assms] by (auto simp: answers_def documented_def split: option.splits)

lemma pin_word_bit:
  "k < 2 \<Longrightarrow> bit (pin_word f b) (board_int k) = f (board_chip b k)"
  by (auto simp: pin_word_def board_int_def bit_or_iff bit_push_bit_iff less_2_cases_iff)

lemma distinct_addrs:
  "timer_addr \<noteq> GPIO_EDS0" "timer_addr \<noteq> gpio_lev0" "timer_addr \<noteq> GPIO_FEN0" "GPIO_EDS0 \<noteq> gpio_lev0"
  "GPIO_EDS0 \<noteq> GPIO_FEN0" "gpio_lev0 \<noteq> GPIO_FEN0"
  by (simp_all add: timer_addr_def gpio_lev0_def GPIO_EDS0_def GPIO_FEN0_def GPIO_BASE_def)

interpretation board: nrf_radio board_hw board_chip clock board_ce board_int "\<lambda>_ _. 0"
proof (unfold_locales, goal_cases)
  case (1 k tx d rx d')
  let ?c = "settle (length (tx_fifo (board_chip d k))) (board_chip d k)"
  have "evolves (board_chip d k) ?c" by (rule settle_evolves)
  moreover have "documented ?c tx \<longrightarrow> board_chip d' k = chip_next ?c tx \<and> answers ?c tx rx"
    using 1 board_answers [of ?c tx] full_chip_next [of ?c tx]
    by (auto simp: board_hw_def board_spi_def Let_def board_chip_full)
  moreover have "board_chip d' j = board_chip d j" if "j \<noteq> k" for j
    using 1 that by (auto simp: board_hw_def board_spi_def Let_def board_chip_def)
  moreover have "clock d' = clock d" using 1 by (auto simp: board_hw_def board_spi_def Let_def)
  ultimately show ?case by (intro conjI exI [of _ ?c]) auto
next
  case (2 k tx d rx d')
  let ?c = "settle (length (tx_fifo (board_chip d k))) (board_chip d k)"
  have "board_chip d' k = ?c" using 2 by (auto simp: board_hw_def board_spi_def Let_def chip_next_def board_chip_full)
  then show ?case using 2(4) settle_quiet [of "board_chip d k"] by auto
next
  case (4 d k a v)
  then show ?case by (auto simp: board_hw_def board_put_def board_chip_full)
next
  case (5 a d v d' k)
  have "evolves (board_chip d k) (board_chip (board_tick d) k)"
    using hear_evolves by (auto simp: board_tick_def board_chip_full split: option.splits)
  with 5 show ?case
    by (auto simp: board_hw_def board_get_def pin_word_bit distinct_addrs split: if_splits)
qed (auto simp: board_hw_def board_get_def board_tick_def timer_addr_def board_ce_def board_int_def)

section \<open>Boards to start from\<close>

text \<open>The left radio as the server configures it.\<close>

definition left_conf :: nrf_conf where
  "left_conf = \<lparr>spi_chip = 0, ce_pin = 6, int_pin = 22, conf_nbytes = 32, conf_channel = 113, conf_id = 0\<rparr>"

lemma server_conf_left: "server_conf 32 = Inr left_conf"
  by (simp add: server_conf_def parthiv_left_def nrf_conf_mk_def nrf_legal_Mhz_def nrf_legal_nbytes_def assert_r_def
      nrf_default_channel_def left_conf_def)

definition reset_chip :: chip where
  "reset_chip = \<lparr>regs = (\<lambda>_. 0)(NRF_CONFIG := 8), adr = (\<lambda>_. replicate 5 0xe7), rx_fifo = [], tx_fifo = [],
     rx_dr = False, tx_ds = False, max_rt = False, ce = False, fen = False, event = False, rx_log = [], tx_log = [],
     incoming = 0\<rparr>"

text \<open>A chip at rest with the packets \<open>ps\<close> in its FIFO.\<close>

definition rest_chip :: "u8 list list \<Rightarrow> chip" where
  "rest_chip ps = reset_chip
     \<lparr>regs := (\<lambda>_. 0)(NRF_CONFIG := rx_config, NRF_EN_RXADDR := 2, NRF_SETUP_AW := 1, NRF_RX_PW_P1 := 32),
      rx_fifo := map (Pair 1) ps, rx_dr := ps \<noteq> [], ce := True, fen := True, event := ps \<noteq> [], rx_log := ps\<rparr>"

text \<open>The same with the unacknowledged send enabled.\<close>

definition noack_chip :: "u8 list list \<Rightarrow> chip" where
  "noack_chip ps = (rest_chip ps)\<lparr>regs := (regs (rest_chip ps))(NRF_FEATURE := 1)\<rparr>"

definition board_of :: "chip \<Rightarrow> board" where
  "board_of c = \<lparr>raw = \<lambda>_. c, clock = 0, air = \<lambda>_ _. None\<rparr>"

definition left_nrf :: nrf where
  "left_nrf = nrf_kmalloc\<lparr>config := left_conf\<rparr>"

lemma full_rest: "full reset_chip" "full (rest_chip ps)" "full (noack_chip ps)"
  by (simp_all add: full_def noack_chip_def rest_chip_def reset_chip_def)

lemma board_chip_of: "full c \<Longrightarrow> board_chip (board_of c) k = c"
  by (simp add: board_chip_full board_of_def)

lemma reset_power_on: "power_on reset_chip"
  by (simp add: power_on_def reset_chip_def)

lemma rest_idle:
  "length ps \<le> 3 \<Longrightarrow> (\<forall>p \<in> set ps. length p = 32) \<Longrightarrow> idle 32 [] [] (length ps) [] (rest_chip ps)"
  by (auto simp: idle_def ready_rx_def rest_chip_def reset_chip_def nrf_regs comp_def)

lemma left_nrf_ring: "cq_inv (recvq left_nrf)" "cq_list (recvq left_nrf) = []"
  by (simp_all add: left_nrf_def nrf_kmalloc_def cq_inv_def cq_list_def cq_nelem_def ring_list_def)

end
