(* ===== verification/Nrf_Props.thy ===== *)
theory Nrf_Props
  imports Nrf_Board
begin

text \<open>
  What the radio driver promises to the programs above it, over any devices that keep the contract
  \<open>nrf_radio\<close>: starting, sending and reading. The instance is the board of \<open>Nrf_Board\<close>.
\<close>

text \<open>
  A radio at rest: the chip listens with packets of \<open>nb\<close> bytes, nothing waits to be sent, \<open>dn\<close> are the
  packets that were already taken from it, and every packet in its FIFO is announced by a pending event.
\<close>

definition at_rest :: "nat \<Rightarrow> u8 list list \<Rightarrow> chip \<Rightarrow> bool" where
  "at_rest nb dn c \<longleftrightarrow> idle nb dn (tx_log c) (length (rx_log c) + incoming c) [] c"

definition wired_to :: "(nat \<Rightarrow> nat) \<Rightarrow> (nat \<Rightarrow> nat) \<Rightarrow> nat \<Rightarrow> nrf_conf \<Rightarrow> bool" where
  "wired_to ce_of int_of k cf \<longleftrightarrow> k < 2 \<and> ce_pin cf = ce_of k \<and> int_pin cf = int_of k \<and> ce_of k < 32 \<and> int_of k < 32"

text \<open>The other radio sees nothing of it: it is as the air has left it.\<close>

definition others_evolve :: "('d \<Rightarrow> nat \<Rightarrow> chip) \<Rightarrow> nat \<Rightarrow> 'd \<Rightarrow> 'd \<Rightarrow> bool" where
  "others_evolve chips k d d' \<longleftrightarrow> (\<forall>j < 2. j \<noteq> k \<longrightarrow> evolves (chips d j) (chips d' j))"

lemma idle_at_rest:
  assumes "idle nb dn l N g c"
  shows "at_rest nb dn c" "tx_log c = l" "length (rx_log c) + incoming c = N"
  using assms by (auto simp: at_rest_def idle_def ready_rx_def)

lemma at_rest_idle:
  "at_rest nb dn c \<Longrightarrow> idle nb dn (tx_log c) (length (rx_log c) + incoming c) (rx_log c) c"
  by (simp add: at_rest_def idle_def ready_rx_def)

context nrf_radio
begin

lemma wired_wired_to: "wired n = wired_to ce_of int_of (spi n) (config n)"
  by (auto simp: wired_def wired_to_def)

lemma timeless_others: "timeless k (others_evolve chips k d)"
  unfolding timeless_def others_evolve_def by (meson rtranclp_trans)

lemma others_refl: "others_evolve chips k d d"
  by (simp add: others_evolve_def)

lemma start_run:
  assumes "wired_to ce_of int_of (spi_chip cf) cf" "conf_nbytes cf \<le> 32" "conf_id cf < 2" "unat a < 16777216"
    "fst (dfs_nrf_claim g)" "power_on (chips d (spi_chip cf))"
  shows "incoming (chips d (spi_chip cf)) > 0 \<and> dfs_nrf_init hw g cf a d = Inl AssertFail \<or>
    (\<exists>n dn d'. dfs_nrf_init hw g cf a d = Inr ((Some n, snd (dfs_nrf_claim g)), d') \<and>
       spi n = spi_chip cf \<and> config n = cf \<and> cq_inv (recvq n) \<and> cq_list (recvq n) = [] \<and>
       at_rest (conf_nbytes cf) dn (chips d' (spi_chip cf)) \<and>
       tx_log (chips d' (spi_chip cf)) = tx_log (chips d (spi_chip cf)) \<and>
       others_evolve chips (spi_chip cf) d d')"
proof -
  let ?k = "spi_chip cf" let ?c = "chips d (spi_chip cf)"
  have w: "?k < 2" "ce_of ?k < 32" "int_of ?k < 32" "ce_pin cf = ce_of ?k" "int_pin cf = int_of ?k"
    using assms(1) by (auto simp: wired_to_def)
  have d: "on ?k ((=) ?c) (others_evolve chips ?k d) d" by (simp add: on_def others_refl)
  note s = start_ok [OF timeless_others w(1-3) refl w(4,5) assms(2-6), of d, unfolded io_may_def, rule_format, OF d]
  then show ?thesis
  proof
    assume "\<exists>e\<in>race (incoming ?c = 0). dfs_nrf_init hw g cf a d = Inl e"
    then show ?thesis by (auto split: if_splits)
  next
    assume "\<exists>x d'. dfs_nrf_init hw g cf a d = Inr (x, d') \<and> snd x = snd (dfs_nrf_claim g) \<and> (\<exists>n. fst x = Some n \<and> spi n = ?k \<and>
       config n = cf \<and> wired n \<and> cq_inv (recvq n) \<and> cq_list (recvq n) = [] \<and>
       on ?k (\<lambda>c'. \<exists>dn. idle (conf_nbytes cf) dn (tx_log ?c) (length (rx_log ?c) + incoming ?c) [] c') (others_evolve chips ?k d) d')"
    then show ?thesis unfolding on_def using idle_at_rest(1,2) by (metis prod.collapse)
  qed
qed

lemma send_run:
  assumes "wired_to ce_of int_of (spi n) (config n)" "nb \<le> 32" "unat a < 16777216" "0 < length msg" "length msg \<le> 32"
    "at_rest nb dn (chips d (spi n))" "noack_enabled (chips d (spi n))"
  shows "\<exists>d'. nrf_tx_send_noack hw n a msg d = Inr (int (length msg), d') \<and> at_rest nb dn (chips d' (spi n)) \<and>
    noack_enabled (chips d' (spi n)) \<and> tx_log (chips d' (spi n)) = tx_log (chips d (spi n)) @ [(take 3 (le32_bytes a), msg)] \<and>
    length (rx_log (chips d' (spi n))) + incoming (chips d' (spi n)) =
      length (rx_log (chips d (spi n))) + incoming (chips d (spi n)) \<and>
    others_evolve chips (spi n) d d'"
proof -
  let ?c = "chips d (spi n)"
  have w: "wired n" using assms(1) by (simp add: wired_wired_to)
  have d: "on (spi n) (idle_tx nb dn (tx_log ?c) (length (rx_log ?c) + incoming ?c) (rx_log ?c)) (others_evolve chips (spi n) d) d"
    using at_rest_idle [OF assms(6)] assms(7) by (simp add: on_def others_refl idle_tx_def)
  show ?thesis
    using send_noack [OF assms(2) w timeless_others assms(3-5), unfolded io_ok_def, rule_format, OF d]
      idle_at_rest unfolding on_def idle_tx_def by blast
qed

lemma read_run:
  assumes "wired_to ce_of int_of (spi n) (config n)" "0 < nb" "nb \<le> 32" "conf_nbytes (config n) = nb"
    "cq_inv (recvq n)" "0 < unat m" "unat m \<le> 8191" "at_rest nb dn (chips d (spi n))"
    "length (rx_log (chips d (spi n))) + incoming (chips d (spi n)) < hw_polls hw"
  shows "\<exists>r q d' ps t. nrf_read_exact_timeout hw n m usec d = Inr ((r, n\<lparr>recvq := q\<rparr>), d') \<and> cq_inv q \<and>
    at_rest nb (dn @ ps) (chips d' (spi n)) \<and> tx_log (chips d' (spi n)) = tx_log (chips d (spi n)) \<and>
    dn @ ps = rx_log (chips d (spi n)) @ t \<and> list_all (\<lambda>p. length p = nb) ps \<and>
    read_out (unat m) (now d + unat usec) (deliver (cq_list (recvq n)) ps) r (cq_list q) (now d') \<and>
    others_evolve chips (spi n) d d'"
proof -
  let ?c = "chips d (spi n)"
  have w: "wired n" using assms(1) by (simp add: wired_wired_to)
  have d: "on (spi n) (idle nb dn (tx_log ?c) (length (rx_log ?c) + incoming ?c) (rx_log ?c)) (others_evolve chips (spi n) d) d"
    using at_rest_idle [OF assms(8)] by (simp add: on_def others_refl)
  obtain rn d' ps q t where r: "nrf_read_exact_timeout hw n m usec d = Inr (rn, d')"
      "snd rn = n\<lparr>recvq := q\<rparr>" "cq_inv q" "\<forall>p \<in> set ps. length p = nb" "dn @ ps = rx_log ?c @ t"
      "idle nb (dn @ ps) (tx_log ?c) (length (rx_log ?c) + incoming ?c) (rx_log ?c) (chips d' (spi n))"
      "others_evolve chips (spi n) d d'"
      "read_out (unat m) (now d + unat usec) (deliver (cq_list (recvq n)) ps) (fst rn) (cq_list q) (now d')"
    using read_exact_timeout [OF assms(2,3) timeless_others assms(6,7,9) w assms(5,4) d, of usec]
    unfolding read_done_def on_def by blast
  have "rn = (fst rn, n\<lparr>recvq := q\<rparr>)" using r(2) by (metis prod.collapse)
  then show ?thesis using r idle_at_rest(1,2) [OF r(6)]
    by (intro exI [of _ "fst rn"] exI [of _ q] exI [of _ d'] exI [of _ ps] exI [of _ t]) (simp add: list_all_iff)
qed

end

lemma board_wired: "wired_to board_ce board_int 0 left_conf"
  by (simp add: wired_to_def board_ce_def board_int_def left_conf_def)

lemma deliver_prefix: "\<exists>ys. deliver xs ps = xs @ ys"
proof (induction ps arbitrary: xs)
  case (Cons p ps)
  then show ?case by simp (metis append_assoc)
qed simp

lemma rest_board:
  assumes "length ps \<le> 3" "\<forall>p \<in> set ps. length p = 32"
  shows "at_rest 32 [] (board_chip (board_of (rest_chip ps)) k)"
    "rx_log (board_chip (board_of (rest_chip ps)) k) = ps"
    "incoming (board_chip (board_of (rest_chip ps)) k) = 0"
    "tx_log (board_chip (board_of (rest_chip ps)) k) = []"
  using idle_at_rest(1) [OF rest_idle [OF assms]]
  by (simp_all add: board_chip_of full_rest) (simp_all add: rest_chip_def reset_chip_def)

text \<open>C17: Starting a radio with \<open>dfs_nrf_init\<close> (\<open>dfs-common.c\<close>) on a chip in its power-on state either returns a
  handle for the configured chip whose ring is empty and whose chip is at rest, listening, having sent
  nothing, or, only when somebody was sending to it, ends in the assertion that the receive FIFO is
  empty: the chip listens before the FIFO is checked. The other radio is not touched.
\<close>

theorem radio_starts:
  assumes "nrf_radio hw chips now ce_of int_of lag"
    "wired_to ce_of int_of (spi_chip cf) cf" "conf_nbytes cf \<le> 32" "conf_id cf < 2" "unat a < 16777216"
    "fst (dfs_nrf_claim g)" "power_on (chips d (spi_chip cf))"
  shows "incoming (chips d (spi_chip cf)) > 0 \<and> dfs_nrf_init hw g cf a d = Inl AssertFail \<or>
    (\<exists>n dn d'. dfs_nrf_init hw g cf a d = Inr ((Some n, snd (dfs_nrf_claim g)), d') \<and>
       spi n = spi_chip cf \<and> config n = cf \<and> cq_inv (recvq n) \<and> cq_list (recvq n) = [] \<and>
       at_rest (conf_nbytes cf) dn (chips d' (spi_chip cf)) \<and>
       tx_log (chips d' (spi_chip cf)) = tx_log (chips d (spi_chip cf)) \<and>
       others_evolve chips (spi_chip cf) d d')"
  by (rule nrf_radio.start_run [OF assms])

theorem radio_starts_witness:
  "\<exists>n dn d'. dfs_nrf_init board_hw boot_flags left_conf 0x010203 (board_of reset_chip) = Inr ((Some n, snd (dfs_nrf_claim boot_flags)), d') \<and>
     spi n = 0 \<and> cq_list (recvq n) = [] \<and> at_rest 32 dn (board_chip d' 0)"
proof -
  let ?b = "board_of reset_chip"
  have c: "board_chip ?b k = reset_chip" for k by (rule board_chip_of [OF full_rest(1)])
  have l: "spi_chip left_conf = 0" "conf_nbytes left_conf = 32" "conf_id left_conf = 0" by (simp_all add: left_conf_def)
  have "fst (dfs_nrf_claim boot_flags)" by (simp add: dfs_nrf_claim_def boot_flags_def set_nrf1_ready_def)
  then show ?thesis
    using radio_starts [OF board.nrf_radio_axioms, of left_conf "0x010203" boot_flags ?b] board_wired reset_power_on
    by (auto simp: c l) (auto simp: reset_chip_def)
qed

text \<open>C15: Sending a packet without acknowledgement (\<open>nrf_tx_send_noack\<close>) with a radio at rest on which the command for it is
  enabled (bit \<open>EN_DYN_ACK\<close> of the \<open>FEATURE\<close> register) returns the number of bytes; exactly this packet went out, to the
  given address, and the radio is at rest again with the command enabled: it listens, and no packet that arrived meanwhile is
  lost. The transfers are not interrupted by another user of the bus. \<open>dfs_nrf_init\<close> does not set the bit (the write is
  commented out), so for radios that it starts the data sheet does not promise this.
\<close>

theorem radio_sends:
  assumes "nrf_radio hw chips now ce_of int_of lag"
    "wired_to ce_of int_of (spi n) (config n)" "nb \<le> 32" "unat a < 16777216" "0 < length msg" "length msg \<le> 32"
    "at_rest nb dn (chips d (spi n))" "noack_enabled (chips d (spi n))"
  shows "\<exists>d'. nrf_tx_send_noack hw n a msg d = Inr (int (length msg), d') \<and> at_rest nb dn (chips d' (spi n)) \<and>
    noack_enabled (chips d' (spi n)) \<and> tx_log (chips d' (spi n)) = tx_log (chips d (spi n)) @ [(take 3 (le32_bytes a), msg)] \<and>
    length (rx_log (chips d' (spi n))) + incoming (chips d' (spi n)) =
      length (rx_log (chips d (spi n))) + incoming (chips d (spi n)) \<and>
    others_evolve chips (spi n) d d'"
  by (rule nrf_radio.send_run [OF assms])

theorem radio_sends_witness:
  "\<exists>d'. nrf_tx_send_noack board_hw left_nrf 0x010203 [1, 2, 3, 4] (board_of (noack_chip [])) = Inr (4, d') \<and>
     at_rest 32 [] (board_chip d' 0) \<and> tx_log (board_chip d' 0) = [([3, 2, 1], [1, 2, 3, 4])]"
proof -
  have n: "spi left_nrf = 0" "config left_nrf = left_conf" by (simp_all add: left_nrf_def nrf_kmalloc_def)
  have c: "at_rest 32 [] (noack_chip [])" "noack_enabled (noack_chip [])" "tx_log (noack_chip []) = []"
    by (simp_all add: at_rest_def idle_def ready_rx_def noack_enabled_def noack_chip_def rest_chip_def reset_chip_def nrf_regs)
  show ?thesis
    using radio_sends [OF board.nrf_radio_axioms, of left_nrf 32 "0x010203" "[1, 2, 3, 4]" "[]" "board_of (noack_chip [])"]
      board_wired c board_chip_of [OF full_rest(3), of "[]" 0]
    by (auto simp: n le32_bytes_def)
qed

text \<open>C16: Reading \<open>m\<close> bytes with a deadline (\<open>nrf_read_exact_timeout\<close>) always returns. Every packet that had
  arrived before the call is moved into the ring behind its bytes, in the order of arrival (a packet the
  full ring has no room for is dropped); the result is the first \<open>m\<close> bytes of the ring, which leave
  it, or, only when the ring has fewer and the deadline has passed, nothing, with the ring kept. The
  radio is at rest again.
\<close>

theorem radio_reads:
  assumes "nrf_radio hw chips now ce_of int_of lag"
    "wired_to ce_of int_of (spi n) (config n)" "0 < nb" "nb \<le> 32" "conf_nbytes (config n) = nb"
    "cq_inv (recvq n)" "0 < unat m" "unat m \<le> 8191" "at_rest nb dn (chips d (spi n))"
    "length (rx_log (chips d (spi n))) + incoming (chips d (spi n)) < hw_polls hw"
  shows "\<exists>r q d' ps t. nrf_read_exact_timeout hw n m usec d = Inr ((r, n\<lparr>recvq := q\<rparr>), d') \<and> cq_inv q \<and>
    at_rest nb (dn @ ps) (chips d' (spi n)) \<and> tx_log (chips d' (spi n)) = tx_log (chips d (spi n)) \<and>
    dn @ ps = rx_log (chips d (spi n)) @ t \<and> list_all (\<lambda>p. length p = nb) ps \<and>
    read_out (unat m) (now d + unat usec) (deliver (cq_list (recvq n)) ps) r (cq_list q) (now d') \<and>
    others_evolve chips (spi n) d d'"
  by (rule nrf_radio.read_run [OF assms])

theorem radio_reads_witness:
  "\<exists>q d'. nrf_read_exact_timeout board_hw left_nrf 32 1000 (board_of (rest_chip [replicate 32 7, replicate 32 8])) =
     Inr ((Some (replicate 32 7), left_nrf\<lparr>recvq := q\<rparr>), d') \<and> (\<exists>xs. cq_list q = replicate 32 8 @ xs)"
proof -
  let ?ps = "[replicate 32 7, replicate 32 8] :: u8 list list" let ?b = "board_of (rest_chip ?ps)"
  have n: "spi left_nrf = 0" "config left_nrf = left_conf" "conf_nbytes left_conf = 32"
    by (simp_all add: left_nrf_def nrf_kmalloc_def left_conf_def)
  note rb = rest_board [of ?ps 0, simplified]
  obtain r q d' t where r: "nrf_read_exact_timeout board_hw left_nrf 32 1000 ?b = Inr ((r, left_nrf\<lparr>recvq := q\<rparr>), d')"
      "read_out 32 (clock ?b + 1000) (deliver [] (?ps @ t)) r (cq_list q) (clock d')"
    using radio_reads [OF board.nrf_radio_axioms, of left_nrf 32 32 "[]" ?b 1000] board_wired rb left_nrf_ring n
    by (auto simp: board_hw_def)
  obtain ys where "deliver [] (?ps @ t) = concat ?ps @ ys"
    using deliver_prefix [of "concat ?ps" t] by auto
  with r show ?thesis by (cases r) (auto simp: read_out_def)
qed

end
