(* ===== verification/Nrf_Router.thy ===== *)
theory Nrf_Router
  imports Nrf_Driver
begin

text \<open>
  The registration of nodes with a router, \<open>network/nrf-router.c\<close> and \<open>nrf-router.h\<close>: the packets, the
  table of the addresses of the nodes, the start of the three kinds of radios and both sides of the
  registration. Messages to the console are left out.
\<close>

section \<open>Packets\<close>

definition router_ptx_addr :: u32 where "router_ptx_addr = 0x7d7d7d"
definition node_init_addr :: u32 where "node_init_addr = 0xd7d7d7"

definition NRF_RT_OPEN :: u32 where "NRF_RT_OPEN = 0x12121212"
definition NRF_RT_REG :: u32 where "NRF_RT_REG = 0x23232323"
definition NRF_RT_ACP :: u32 where "NRF_RT_ACP = 0x34343434"
definition NRF_RT_REJ :: u32 where "NRF_RT_REJ = 0x45454545"

lemmas rt_codes = NRF_RT_OPEN_def NRF_RT_REG_def NRF_RT_ACP_def NRF_RT_REJ_def

text \<open>
  The structure occupies 12 bytes: two words, the node number and 3 bytes that no code sets, \<open>pad\<close>.
\<close>

definition nrf_rt_get_pkt_bytes :: nat where "nrf_rt_get_pkt_bytes = 12"

definition nrf_rt_pkt :: "u8 list \<Rightarrow> u32 \<Rightarrow> u32 \<Rightarrow> u8 \<Rightarrow> u8 list" where
  "nrf_rt_pkt pad code val node_id = le32_bytes code @ le32_bytes val @ [node_id] @ pad"

definition rt_op :: "u8 list \<Rightarrow> u32" where "rt_op data = le32_at data 0"
definition rt_payload :: "u8 list \<Rightarrow> u32" where "rt_payload data = le32_at data 4"

definition router_prx_addr :: "u32 list" where
  "router_prx_addr = [0xa1a1a1, 0xb2b2b2, 0xc3c3c3, 0xd4d4d4, 0xe5e5e5, 0xf6f6f6]"

section \<open>Start\<close>

definition nrf_rt_init_global :: "'d hw \<Rightarrow> nrf \<Rightarrow> ('d, unit) io" where
  "nrf_rt_init_global hw n =
     io_seq (nrf_settings hw n @
       [io_skip (nrf_rx_flush hw n), io_skip (nrf_tx_flush hw n),
        nrf_set_pwrup_on hw n, delay_ms hw 2, put_reg hw n NRF_CONFIG rx_config,
        gpio_set_on hw (ce_pin (config n)), delay_ms hw 2, fifos_reset hw n])"

definition nrf_init_router_ptx :: "'d hw \<Rightarrow> ('d, nrf) io" where
  "nrf_init_router_ptx hw =
     io_bind (io_res (server_conf nrf_rt_get_pkt_bytes)) (\<lambda>c.
     io_bind (nrf_new hw c) (\<lambda>n0.
     let n = n0\<lparr>rxaddr := (rxaddr n0)[1 := router_ptx_addr]\<rparr> in
     io_bind (io_seq
       [nrf_set_pwrup_off hw n,
        put_reg hw n NRF_EN_RXADDR 3, put_reg hw n NRF_EN_AA 0x3f,
        put_reg hw n NRF_DYNPD 0x3f, put_reg hw n NRF_FEATURE 5,
        nrf_set_addr hw n NRF_RX_ADDR_P1 router_ptx_addr nrf_default_addr_nbytes,
        put_reg hw n NRF_RX_PW_P1 (of_nat (conf_nbytes c)),
        nrf_enable_rx hw n 1,
        nrf_rt_init_global hw n]) (\<lambda>_. io_ret n)))"

definition set_pipe :: "'d hw \<Rightarrow> nrf \<Rightarrow> nat \<Rightarrow> ('d, unit) io list" where
  "set_pipe hw n i =
     [nrf_set_addr hw n (NRF_RX_ADDR_P0 + of_nat i) (router_prx_addr ! i) nrf_default_addr_nbytes,
      put_reg hw n (NRF_RX_PW_P0 + of_nat i) (of_nat (conf_nbytes (config n)))]"

definition nrf_init_router_prx :: "'d hw \<Rightarrow> ('d, nrf) io" where
  "nrf_init_router_prx hw =
     io_bind (io_res (client_conf nrf_rt_get_pkt_bytes)) (\<lambda>c.
     io_bind (nrf_new hw c) (\<lambda>n0.
     let n = n0\<lparr>rxaddr := router_prx_addr\<rparr> in
     io_bind (io_seq
       ([nrf_set_pwrup_off hw n] @ concat (map (set_pipe hw n) [0..<6]) @
        [put_reg hw n NRF_EN_AA 0x3f, nrf_rt_init_global hw n])) (\<lambda>_. io_ret n)))"

definition nrf_init_node :: "'d hw \<Rightarrow> nrf_conf \<Rightarrow> ('d, nrf) io" where
  "nrf_init_node hw c =
     io_bind (nrf_new hw c) (\<lambda>n0.
     let n = n0\<lparr>rxaddr := (rxaddr n0)[1 := node_init_addr]\<rparr> in
     io_bind (io_seq
       [nrf_set_pwrup_off hw n,
        put_reg hw n NRF_EN_RXADDR 3, put_reg hw n NRF_EN_AA 3,
        nrf_set_addr hw n NRF_RX_ADDR_P1 node_init_addr nrf_default_addr_nbytes,
        put_reg hw n NRF_RX_PW_P1 (of_nat (conf_nbytes c)),
        nrf_rt_init_global hw n]) (\<lambda>_. io_ret n))"

section \<open>The table of the nodes\<close>

text \<open>
  \<open>assign_scan\<close> is the loop of \<open>try_assignment\<close> over the addresses from number \<open>i\<close> on: \<open>Inl\<close> the slot that
  already has the address, or \<open>Inr\<close> the slot that is taken as idle.
\<close>

fun assign_scan :: "u32 list \<Rightarrow> u32 \<Rightarrow> nat \<Rightarrow> nat \<Rightarrow> nat + nat" where
  "assign_scan [] chosen i first_idle = Inr first_idle"
| "assign_scan (a # as) chosen i first_idle =
     (if a = chosen then Inl i
      else assign_scan as chosen (Suc i) (if first_idle = 0 then i else first_idle))"

definition switch_pipe :: "'d hw \<Rightarrow> nrf \<Rightarrow> ('d, unit) io \<Rightarrow> ('d, unit) io" where
  "switch_pipe hw prx change =
     io_seq [gpio_set_off hw (ce_pin (config prx)), change, gpio_set_on hw (ce_pin (config prx)), delay_us hw 130]"

definition try_assignment :: "'d hw \<Rightarrow> nrf \<Rightarrow> u32 list \<Rightarrow> u32 \<Rightarrow> ('d, int \<times> nrf \<times> u32 list) io" where
  "try_assignment hw prx node_addr chosen =
     (if n_conns prx = 6 then io_ret (- 1, prx, node_addr)
      else case assign_scan (drop 1 node_addr) chosen 1 0 of
        Inl i \<Rightarrow> io_bind (switch_pipe hw prx (nrf_disable_rx hw prx i)) (\<lambda>_.
                   io_ret (- 1, prx\<lparr>n_conns := n_conns prx - 1\<rparr>, node_addr[i := 0]))
      | Inr i \<Rightarrow> io_bind (switch_pipe hw prx (nrf_enable_rx hw prx i)) (\<lambda>_.
                   io_ret (int i, prx\<lparr>n_conns := n_conns prx + 1\<rparr>, node_addr[i := chosen])))"

definition cancel_assignment :: "'d hw \<Rightarrow> nrf \<Rightarrow> u32 list \<Rightarrow> nat \<Rightarrow> ('d, nrf \<times> u32 list) io" where
  "cancel_assignment hw prx node_addr node_id =
     (if node_id \<ge> length node_addr then io_res (Inl OutOfBounds)
      else if node_addr ! node_id = 0 then io_ret (prx, node_addr)
      else io_bind (switch_pipe hw prx (nrf_disable_rx hw prx node_id)) (\<lambda>_.
             io_ret (prx\<lparr>n_conns := n_conns prx - 1\<rparr>, node_addr[node_id := 0])))"

section \<open>Registration\<close>

text \<open>
  The answer of the router to a registration. \<open>pad\<close> stands for the bytes of the packets that are never
  set, for an open packet with the node number.
\<close>

definition rt_answer :: "'d hw \<Rightarrow> u8 list \<Rightarrow> nrf \<Rightarrow> nrf \<Rightarrow> u32 list \<Rightarrow> u8 list \<Rightarrow> ('d, nrf \<times> u32 list) io" where
  "rt_answer hw pad ptx prx node_addr data =
     io_bind (try_assignment hw prx node_addr (rt_payload data)) (\<lambda>(node_id, prx, node_addr).
       if node_id \<ge> 0
       then io_bind (nrf_send_ack_io hw ptx (rt_payload data)
                      (nrf_rt_pkt pad NRF_RT_ACP (rxaddr prx ! nat node_id) (of_int node_id))) (\<lambda>ret.
            if ret \<noteq> int nrf_rt_get_pkt_bytes then cancel_assignment hw prx node_addr (nat node_id)
            else io_ret (prx, node_addr))
       else io_bind (nrf_send_ack_io hw ptx (rt_payload data) (nrf_rt_pkt pad NRF_RT_REJ 0 0)) (\<lambda>_.
              io_ret (prx, node_addr)))"

text \<open>
  The loop of the router runs while the window is open \<^emph>\<open>or\<close> all slots are taken, so it need not end; the
  last argument bounds its rounds.
\<close>

fun registration_loop ::
  "'d hw \<Rightarrow> u8 list \<Rightarrow> u8 \<Rightarrow> nrf \<Rightarrow> nrf \<Rightarrow> u32 list \<Rightarrow> nat \<Rightarrow> nat \<Rightarrow> ('d, nrf \<times> nrf \<times> u32 list) io" where
  "registration_loop hw pad nid ptx prx node_addr i 0 = io_res (Inl Diverges)"
| "registration_loop hw pad nid ptx prx node_addr i (Suc fuel) =
     (if i < 100 \<or> n_conns prx = 6
      then
        io_bind (nrf_send_noack_io hw ptx node_init_addr (nrf_rt_pkt pad NRF_RT_OPEN (rxaddr ptx ! 1) nid)) (\<lambda>_.
        io_bind (nrf_read_exact_timeout hw ptx (of_nat nrf_rt_get_pkt_bytes) 1000000) (\<lambda>(r, ptx).
          case r of
            None \<Rightarrow> registration_loop hw pad nid ptx prx node_addr (Suc i) fuel
          | Some data \<Rightarrow>
              if rt_op data \<noteq> NRF_RT_REG then registration_loop hw pad nid ptx prx node_addr (Suc i) fuel
              else io_bind (rt_answer hw pad ptx prx node_addr data) (\<lambda>(prx, node_addr).
                     registration_loop hw pad nid ptx prx node_addr (Suc i) fuel)))
      else io_ret (ptx, prx, node_addr))"

definition nrf_rt_open_registration ::
  "'d hw \<Rightarrow> u8 list \<Rightarrow> u8 \<Rightarrow> nrf \<Rightarrow> nrf \<Rightarrow> u32 list \<Rightarrow> ('d, u32 \<times> nrf \<times> nrf \<times> u32 list) io" where
  "nrf_rt_open_registration hw pad nid ptx prx node_addr =
     io_bind (registration_loop hw pad nid ptx prx node_addr 0 (hw_polls hw)) (\<lambda>(ptx, prx, node_addr).
       io_ret (n_conns prx, ptx, prx, node_addr))"

text \<open>
  The node: a read that ends without a packet leaves the buffer as it was, and the loop looks at what
  the last packet has left there.
\<close>

fun node_wait :: "'d hw \<Rightarrow> nrf \<Rightarrow> u8 list \<Rightarrow> nat \<Rightarrow> ('d, int \<times> nrf) io" where
  "node_wait hw node data 0 = io_ret (- 1, node)"
| "node_wait hw node data (Suc k) =
     io_bind (nrf_read_exact_timeout hw node (of_nat nrf_rt_get_pkt_bytes) 10000000) (\<lambda>(r, node).
     let data = (case r of Some bs \<Rightarrow> bs | None \<Rightarrow> data); pin = ce_pin (config node) in
     if rt_op data = NRF_RT_ACP
     then io_bind (io_seq
            [gpio_set_off hw pin,
             nrf_set_addr hw node NRF_TX_ADDR (rt_payload data) nrf_default_addr_nbytes,
             nrf_set_addr hw node NRF_RX_ADDR_P0 (rt_payload data) nrf_default_addr_nbytes,
             put_reg hw node NRF_EN_RXADDR 3, put_reg hw node NRF_EN_AA 3,
             gpio_set_on hw pin, delay_us hw 130]) (\<lambda>_. io_ret (0, node))
     else if rt_op data \<noteq> NRF_RT_OPEN then io_ret (- 1, node)
     else node_wait hw node data k)"

definition node_register :: "'d hw \<Rightarrow> u8 list \<Rightarrow> nrf \<Rightarrow> u32 \<Rightarrow> ('d, nrf) io" where
  "node_register hw pad node chosen =
     (let pin = ce_pin (config node); node' = node\<lparr>rxaddr := (rxaddr node)[1 := chosen]\<rparr> in
      io_bind (io_seq
        [gpio_set_off hw pin, io_skip (nrf_rx_flush hw node),
         nrf_set_addr hw node NRF_RX_ADDR_P1 chosen nrf_default_addr_nbytes,
         gpio_set_on hw pin, delay_us hw 130, io_skip (nrf_rx_flush hw node),
         io_skip (nrf_send_ack_io hw node' router_ptx_addr (nrf_rt_pkt pad NRF_RT_REG chosen 0))]) (\<lambda>_.
        io_ret node'))"

definition nrf_rt_try_register :: "'d hw \<Rightarrow> u8 list \<Rightarrow> nrf \<Rightarrow> u32 \<Rightarrow> ('d, int \<times> nrf) io" where
  "nrf_rt_try_register hw pad node chosen =
     io_bind (nrf_read_exact_timeout hw node (of_nat nrf_rt_get_pkt_bytes) 10000000) (\<lambda>(r, node).
       case r of
         None \<Rightarrow> io_ret (- 1, node)
       | Some data \<Rightarrow>
           io_bind (if rt_op data = NRF_RT_OPEN then node_register hw pad node chosen else io_ret node) (\<lambda>node.
             node_wait hw node data 100))"

section \<open>What they do\<close>

lemma rt_pkt_fields:
  "length pad = 3 \<Longrightarrow> length (nrf_rt_pkt pad p x i) = nrf_rt_get_pkt_bytes"
  "rt_op (nrf_rt_pkt pad p x i) = p" "rt_payload (nrf_rt_pkt pad p x i) = x"
  using le32_join [of p] le32_join [of x]
  by (simp_all add: nrf_rt_pkt_def nrf_rt_get_pkt_bytes_def rt_op_def rt_payload_def le32_at_def le32_bytes_def nth_append)

text \<open>The scan finds a slot with the same address if there is one.\<close>

lemma assign_scan_clash:
  "assign_scan as chosen i f = Inl j \<Longrightarrow> i \<le> j \<and> j < i + length as \<and> as ! (j - i) = chosen"
  by (induction as chosen i f rule: assign_scan.induct) (fastforce split: if_splits simp: nth_Cons')+

lemma assign_scan_none: "(\<exists>j. assign_scan as chosen i f = Inl j) = (chosen \<in> set as)"
  by (induction as chosen i f rule: assign_scan.induct) auto

lemma assign_scan_kept: "chosen \<notin> set as \<Longrightarrow> f \<noteq> 0 \<Longrightarrow> assign_scan as chosen i f = Inr f"
  by (induction as chosen i f rule: assign_scan.induct) auto

text \<open>
  Without a clash the slot taken is always number 1, idle or not: whether the slot is free is never
  looked at, so every registration takes over the slot of the one before.
\<close>

lemma assign_scan_slot_1:
  "chosen \<notin> set as \<Longrightarrow> as \<noteq> [] \<Longrightarrow> assign_scan as chosen 1 0 = Inr 1"
  by (cases as) (auto simp: assign_scan_kept)

lemma second_node_takes_slot:
  assumes "length node_addr = 6" "chosen \<notin> set (drop 1 node_addr)" "n_conns prx \<noteq> 6"
  shows "try_assignment hw prx node_addr chosen =
    io_bind (switch_pipe hw prx (nrf_enable_rx hw prx 1)) (\<lambda>_.
      io_ret (1, prx\<lparr>n_conns := n_conns prx + 1\<rparr>, node_addr[1 := chosen]))"
  using assms assign_scan_slot_1 [of chosen "drop 1 node_addr"] by (simp add: try_assignment_def)

end
