(* ===== verification/Vm_Mmu.thy ===== *)
theory Vm_Mmu
  imports Prelude
begin

text \<open>
  Virtual memory with sections of one megabyte: the descriptors of \<open>vm/armv6-vm.h\<close>, the page tables of
  \<open>vm/mmu.c\<close> and \<open>mmu-helpers.c\<close>, the co-processor sequences of \<open>your-vm-asm.S\<close>, the exception vector base
  of \<open>vector-base.h\<close> and the identity mapping of \<open>vm-ident.c\<close>. The machine holds the page tables by their
  addresses, the co-processor registers the code writes and the TLB; cache and barrier instructions have
  no effect on this state. The printing of descriptors is left out, the checks it makes are kept.
\<close>

section \<open>Descriptors\<close>

record fld =
  fld_tag :: "2 word"
  fld_B :: "1 word"
  fld_C :: "1 word"
  fld_XN :: "1 word"
  fld_domain :: "4 word"
  fld_IMP :: "1 word"
  fld_AP :: "2 word"
  fld_TEX :: "3 word"
  fld_APX :: "1 word"
  fld_S :: "1 word"
  fld_nG :: "1 word"
  fld_super :: "1 word"
  fld_sbz1 :: "1 word"
  fld_base :: "12 word"

definition fld_zero :: fld where
  "fld_zero = \<lparr>fld_tag = 0, fld_B = 0, fld_C = 0, fld_XN = 0, fld_domain = 0, fld_IMP = 0, fld_AP = 0, fld_TEX = 0,
     fld_APX = 0, fld_S = 0, fld_nG = 0, fld_super = 0, fld_sbz1 = 0, fld_base = 0\<rparr>"

definition fld_mk :: fld where
  "fld_mk = fld_zero\<lparr>fld_tag := 2\<rparr>"

text \<open>The word that the compiler stores for the bit fields, the first one in the lowest bits.\<close>

definition fld_word :: "fld \<Rightarrow> u32" where
  "fld_word f = ucast (fld_tag f) OR push_bit 2 (ucast (fld_B f)) OR push_bit 3 (ucast (fld_C f)) OR
     push_bit 4 (ucast (fld_XN f)) OR push_bit 5 (ucast (fld_domain f)) OR push_bit 9 (ucast (fld_IMP f)) OR
     push_bit 10 (ucast (fld_AP f)) OR push_bit 12 (ucast (fld_TEX f)) OR push_bit 15 (ucast (fld_APX f)) OR
     push_bit 16 (ucast (fld_S f)) OR push_bit 17 (ucast (fld_nG f)) OR push_bit 18 (ucast (fld_super f)) OR
     push_bit 19 (ucast (fld_sbz1 f)) OR push_bit 20 (ucast (fld_base f))"

definition fld_check_valid :: "fld \<Rightarrow> unit res" where
  "fld_check_valid f = assert_r (fld_sbz1 f = 0 \<and> fld_tag f = 2 \<and> fld_S f = 0 \<and> fld_IMP f = 0 \<and> fld_TEX f = 0 \<and>
     fld_C f = 0 \<and> fld_B f = 0 \<and> fld_super f = 0)"

text \<open>\<open>one\<close> and \<open>ones\<close> are the words of the structures whose field is 1 and has all bits set.\<close>

definition check_bitfield :: "u32 \<Rightarrow> u32 \<Rightarrow> nat \<Rightarrow> nat \<Rightarrow> unit res" where
  "check_bitfield one ones off nbits =
     bind_r (demand_r (one = push_bit off 1) ''offset wrong'') (\<lambda>_.
     let shift = 32 - nbits; set_all = drop_bit shift (push_bit shift (- 1)) in
     demand_r (ones = push_bit off set_all) ''width wrong'')"

fun all_r :: "unit res list \<Rightarrow> unit res" where
  "all_r [] = Inr ()"
| "all_r (m # ms) = bind_r m (\<lambda>_. all_r ms)"

definition fld_check_offsets :: "unit res" where
  "fld_check_offsets = all_r
    [fld_check_valid fld_mk,
     check_bitfield (fld_word (fld_zero\<lparr>fld_tag := 1\<rparr>)) (fld_word (fld_zero\<lparr>fld_tag := - 1\<rparr>)) 0 2,
     check_bitfield (fld_word (fld_zero\<lparr>fld_B := 1\<rparr>)) (fld_word (fld_zero\<lparr>fld_B := - 1\<rparr>)) 2 1,
     check_bitfield (fld_word (fld_zero\<lparr>fld_C := 1\<rparr>)) (fld_word (fld_zero\<lparr>fld_C := - 1\<rparr>)) 3 1,
     check_bitfield (fld_word (fld_zero\<lparr>fld_XN := 1\<rparr>)) (fld_word (fld_zero\<lparr>fld_XN := - 1\<rparr>)) 4 1,
     check_bitfield (fld_word (fld_zero\<lparr>fld_domain := 1\<rparr>)) (fld_word (fld_zero\<lparr>fld_domain := - 1\<rparr>)) 5 4,
     check_bitfield (fld_word (fld_zero\<lparr>fld_IMP := 1\<rparr>)) (fld_word (fld_zero\<lparr>fld_IMP := - 1\<rparr>)) 9 1,
     check_bitfield (fld_word (fld_zero\<lparr>fld_AP := 1\<rparr>)) (fld_word (fld_zero\<lparr>fld_AP := - 1\<rparr>)) 10 2,
     check_bitfield (fld_word (fld_zero\<lparr>fld_TEX := 1\<rparr>)) (fld_word (fld_zero\<lparr>fld_TEX := - 1\<rparr>)) 12 3,
     check_bitfield (fld_word (fld_zero\<lparr>fld_APX := 1\<rparr>)) (fld_word (fld_zero\<lparr>fld_APX := - 1\<rparr>)) 15 1,
     check_bitfield (fld_word (fld_zero\<lparr>fld_S := 1\<rparr>)) (fld_word (fld_zero\<lparr>fld_S := - 1\<rparr>)) 16 1,
     check_bitfield (fld_word (fld_zero\<lparr>fld_nG := 1\<rparr>)) (fld_word (fld_zero\<lparr>fld_nG := - 1\<rparr>)) 17 1,
     check_bitfield (fld_word (fld_zero\<lparr>fld_super := 1\<rparr>)) (fld_word (fld_zero\<lparr>fld_super := - 1\<rparr>)) 18 1,
     check_bitfield (fld_word (fld_zero\<lparr>fld_base := 1\<rparr>)) (fld_word (fld_zero\<lparr>fld_base := - 1\<rparr>)) 20 12]"

lemma ones_mask: "LENGTH('a::len) \<le> 32 \<Longrightarrow> (ucast (- 1 :: 'a word) :: u32) = mask LENGTH('a)"
  by (rule bit_word_eqI) (auto simp: bit_simps)

lemma top_mask: "drop_bit k (NOT (mask k) :: u32) = mask (32 - k)"
  by (rule bit_word_eqI) (auto simp: bit_simps)

lemma fld_check_offsets_ok: "fld_check_offsets = Inr ()"
  by (simp add: ones_mask top_mask fld_check_offsets_def fld_check_valid_def check_bitfield_def fld_mk_def fld_zero_def fld_word_def Let_def)

section \<open>The machine\<close>

record vm =
  tables :: "u32 \<Rightarrow> fld list"
  ctrl1 :: u32
  dac :: u32
  ttbr0 :: u32
  ttbr1 :: u32
  ttbcr :: u32
  context_id :: u32
  vector_base :: u32
  tlb :: "nat \<Rightarrow> fld option"
  quiet_p :: bool

definition set_table :: "u32 \<Rightarrow> fld list \<Rightarrow> vm \<Rightarrow> vm" where
  "set_table pt t m = m\<lparr>tables := (tables m)(pt := t)\<rparr>"

lemma set_table_simps [simp]:
  "tables (set_table pt t m) = (tables m)(pt := t)" "ctrl1 (set_table pt t m) = ctrl1 m" "dac (set_table pt t m) = dac m"
  "ttbr0 (set_table pt t m) = ttbr0 m" "vector_base (set_table pt t m) = vector_base m" "tlb (set_table pt t m) = tlb m"
  "quiet_p (set_table pt t m) = quiet_p m" "set_table pt t' (set_table pt t m) = set_table pt t' m"
  "set_table pt (tables m pt) m = m"
  by (simp_all add: set_table_def)

text \<open>Bits of control register 1.\<close>

definition MMU_enabled :: nat where "MMU_enabled = 0"
definition C_unified_enable :: nat where "C_unified_enable = 2"
definition XP_pt :: nat where "XP_pt = 23"

definition mmu_is_enabled :: "vm \<Rightarrow> bool" where
  "mmu_is_enabled m = bit (ctrl1 m) MMU_enabled"

subsection \<open>Assembly sequences\<close>

definition mmu_reset :: "vm \<Rightarrow> vm" where
  "mmu_reset m = m\<lparr>tlb := Map.empty\<rparr>"

definition mmu_sync_pte_mods :: "vm \<Rightarrow> vm" where
  "mmu_sync_pte_mods m = m\<lparr>tlb := Map.empty\<rparr>"

definition cp15_domain_ctrl_wr :: "u32 \<Rightarrow> vm \<Rightarrow> vm" where
  "cp15_domain_ctrl_wr r m = m\<lparr>dac := r\<rparr>"

definition mmu_disable_set_asm :: "u32 \<Rightarrow> vm \<Rightarrow> vm" where
  "mmu_disable_set_asm c m = (m\<lparr>tlb := Map.empty\<rparr>)\<lparr>ctrl1 := c\<rparr>"

text \<open>The instruction cache is switched off first, bit 12.\<close>

definition mmu_enable_set_asm :: "u32 \<Rightarrow> vm \<Rightarrow> vm" where
  "mmu_enable_set_asm c m = (m\<lparr>ctrl1 := ctrl1 m AND NOT 0x1000\<rparr>)\<lparr>ctrl1 := c\<rparr>"

definition cp15_set_procid_ttbr0 :: "u32 \<Rightarrow> u32 \<Rightarrow> vm \<Rightarrow> vm" where
  "cp15_set_procid_ttbr0 proc_and_asid pt m =
     (m\<lparr>context_id := 0, ttbr0 := pt, ttbr1 := 0, ttbcr := 0\<rparr>)\<lparr>context_id := proc_and_asid\<rparr>"

definition mmu_on_first_time :: "u32 \<Rightarrow> u32 \<Rightarrow> vm \<Rightarrow> vm" where
  "mmu_on_first_time asid pt m =
     m\<lparr>context_id := asid, ttbr0 := pt, ttbr1 := 0, tlb := Map.empty, ctrl1 := ctrl1 m OR 1\<rparr>"

subsection \<open>The exception vector\<close>

definition vector_base_chk :: "u32 \<Rightarrow> bool" where
  "vector_base_chk v \<longleftrightarrow> v \<noteq> 0 \<and> v mod 8 = 0"

definition vector_base_set :: "u32 \<Rightarrow> vm \<Rightarrow> vm res" where
  "vector_base_set vec m =
     bind_r (demand_r (vector_base_chk vec) ''illegal vector base'') (\<lambda>_.
     bind_r (demand_r (vector_base m = 0) ''vector base register already set'') (\<lambda>_.
       Inr (m\<lparr>vector_base := vec\<rparr>)))"

definition vector_base_reset :: "u32 \<Rightarrow> vm \<Rightarrow> (u32 \<times> vm) res" where
  "vector_base_reset vec m =
     bind_r (demand_r (vector_base_chk vec) ''illegal vector base'') (\<lambda>_.
       Inr (vector_base m, m\<lparr>vector_base := vec\<rparr>))"

section \<open>Page tables\<close>

definition mod_pow2 :: "u32 \<Rightarrow> nat \<Rightarrow> unit res" where
  "mod_pow2 x n =
     bind_r (assert_r (n < 32)) (\<lambda>_. demand_r (x mod 2 ^ n = 0) ''cannot divide by 2^n'')"

definition mmu_pt_init :: "u32 \<Rightarrow> u32 \<Rightarrow> vm \<Rightarrow> (u32 \<times> vm) res" where
  "mmu_pt_init addr nbytes m =
     bind_r (mod_pow2 addr 14) (\<lambda>_.
     bind_r (demand_r (nbytes = 4096 * 4) ''only handing full allocation'') (\<lambda>_.
       Inr (addr, set_table addr (replicate 4096 fld_zero) m)))"

text \<open>\<open>addr\<close> is the block that \<open>kmalloc_aligned\<close> returns.\<close>

definition mmu_pt_alloc :: "u32 \<Rightarrow> u32 \<Rightarrow> vm \<Rightarrow> (u32 \<times> vm) res" where
  "mmu_pt_alloc addr n m =
     bind_r (demand_r (n = 4096) ''we only handling a fully-populated page table right now'') (\<lambda>_.
     bind_r (demand_r (addr mod 2 ^ 14 = 0) ''must be 14-bit aligned!'') (\<lambda>_.
       mmu_pt_init addr (4096 * 4) m))"

definition fld_set_base_addr :: "fld \<Rightarrow> u32 \<Rightarrow> fld res" where
  "fld_set_base_addr f addr =
     bind_r (mod_pow2 addr 20) (\<lambda>_.
     let f' = f\<lparr>fld_base := ucast (drop_bit 20 addr)\<rparr> in
     bind_r (assert_r (push_bit 20 (ucast (fld_base f')) = addr)) (\<lambda>_. Inr f'))"

definition fld_print :: "fld \<Rightarrow> vm \<Rightarrow> unit res" where
  "fld_print f m = (if quiet_p m then Inr () else fld_check_valid f)"

text \<open>A pointer to an entry is its number in the table.\<close>

definition mmu_map_section :: "u32 \<Rightarrow> u32 \<Rightarrow> u32 \<Rightarrow> u32 \<Rightarrow> vm \<Rightarrow> (nat \<times> vm) res" where
  "mmu_map_section pt va pa dm m =
     bind_r (assert_r (dm < 16)) (\<lambda>_.
     bind_r (mod_pow2 va 20) (\<lambda>_.
     bind_r (mod_pow2 pa 20) (\<lambda>_.
     let i = unat (drop_bit 20 va) in
     bind_r (arr_get (tables m pt) i) (\<lambda>f.
     bind_r (fld_set_base_addr f pa) (\<lambda>f1.
     let f2 = f1\<lparr>fld_nG := 0, fld_APX := 0, fld_AP := 3, fld_domain := ucast dm, fld_TEX := 0, fld_XN := 0,
                 fld_tag := 2, fld_B := 0, fld_C := 0, fld_IMP := 0, fld_super := 0, fld_sbz1 := 0, fld_S := 0\<rparr> in
     bind_r (arr_set (tables m pt) i f2) (\<lambda>t.
     bind_r (fld_print f2 m) (\<lambda>_.
       Inr (i, set_table pt t m))))))))"

fun map_loop :: "nat \<Rightarrow> u32 \<Rightarrow> u32 \<Rightarrow> u32 \<Rightarrow> u32 \<Rightarrow> vm \<Rightarrow> vm res" where
  "map_loop 0 pt va pa dm m = Inr m"
| "map_loop (Suc n) pt va pa dm m =
     bind_r (mmu_map_section pt va pa dm m) (\<lambda>(_, m'). map_loop n pt (va + 0x100000) (pa + 0x100000) dm m')"

definition mmu_map_sections :: "u32 \<Rightarrow> u32 \<Rightarrow> u32 \<Rightarrow> u32 \<Rightarrow> u32 \<Rightarrow> vm \<Rightarrow> vm res" where
  "mmu_map_sections pt va pa nsec dm m =
     bind_r (assert_r (dm < 16)) (\<lambda>_.
     bind_r (mod_pow2 va 20) (\<lambda>_.
     bind_r (mod_pow2 pa 20) (\<lambda>_.
       map_loop (unat nsec) pt va pa dm m)))"

definition mmu_lookup_section :: "u32 \<Rightarrow> u32 \<Rightarrow> vm \<Rightarrow> nat res" where
  "mmu_lookup_section pt va m =
     bind_r (mod_pow2 va 20) (\<lambda>_.
     let i = unat (drop_bit 20 va) in
     bind_r (arr_get (tables m pt) i) (\<lambda>f.
     bind_r (demand_r (fld_tag f \<noteq> 0) ''invalid section'') (\<lambda>_. Inr i)))"

fun protect_loop :: "nat \<Rightarrow> nat \<Rightarrow> 2 word \<Rightarrow> fld list \<Rightarrow> fld list res" where
  "protect_loop i 0 perm t = Inr t"
| "protect_loop i (Suc n) perm t =
     bind_r (arr_get t i) (\<lambda>f.
     bind_r (arr_set t i (f\<lparr>fld_AP := perm\<rparr>)) (\<lambda>t'. protect_loop (Suc i) n perm t'))"

definition mmu_mprotect :: "u32 \<Rightarrow> u32 \<Rightarrow> u32 \<Rightarrow> u32 \<Rightarrow> vm \<Rightarrow> vm res" where
  "mmu_mprotect pt va nsec perm m =
     bind_r (demand_r (perm \<le> 3) ''invalid permission'') (\<lambda>_.
     bind_r (mmu_lookup_section pt (va AND NOT 0xfffff) m) (\<lambda>i.
     bind_r (protect_loop i (unat nsec) (ucast perm) (tables m pt)) (\<lambda>t.
       Inr (mmu_sync_pte_mods (set_table pt t m)))))"

definition mmu_mark_sec_no_access :: "u32 \<Rightarrow> u32 \<Rightarrow> u32 \<Rightarrow> vm \<Rightarrow> vm res" where
  "mmu_mark_sec_no_access pt va nsec m = mmu_mprotect pt va nsec 0 m"

definition mmu_mark_sec_readonly :: "u32 \<Rightarrow> u32 \<Rightarrow> u32 \<Rightarrow> vm \<Rightarrow> vm res" where
  "mmu_mark_sec_readonly pt va nsec m = mmu_mprotect pt va nsec 2 m"

definition mmu_mark_sec_rw :: "u32 \<Rightarrow> u32 \<Rightarrow> u32 \<Rightarrow> vm \<Rightarrow> vm res" where
  "mmu_mark_sec_rw pt va nsec m = mmu_mprotect pt va nsec 3 m"

section \<open>Switching it on and off\<close>

definition mmu_init :: "vm \<Rightarrow> vm res" where
  "mmu_init m =
     (let m1 = mmu_reset m; m2 = m1\<lparr>ctrl1 := ctrl1 m1 OR push_bit XP_pt 1\<rparr> in
      bind_r (assert_r (bit (ctrl1 m2) XP_pt)) (\<lambda>_.
      bind_r (assert_r (\<not> bit (ctrl1 m2) MMU_enabled)) (\<lambda>_. Inr m2)))"

definition mmu_disable_set :: "u32 \<Rightarrow> vm \<Rightarrow> vm res" where
  "mmu_disable_set c m =
     bind_r (assert_r (\<not> bit c MMU_enabled)) (\<lambda>_.
     bind_r (assert_r (\<not> bit c C_unified_enable)) (\<lambda>_. Inr (mmu_disable_set_asm c m)))"

definition mmu_disable :: "vm \<Rightarrow> vm res" where
  "mmu_disable m =
     bind_r (assert_r (bit (ctrl1 m) MMU_enabled)) (\<lambda>_. mmu_disable_set (ctrl1 m AND NOT (push_bit MMU_enabled 1)) m)"

definition mmu_enable_set :: "u32 \<Rightarrow> vm \<Rightarrow> vm res" where
  "mmu_enable_set c m = bind_r (assert_r (bit c MMU_enabled)) (\<lambda>_. Inr (mmu_enable_set_asm c m))"

definition mmu_enable :: "vm \<Rightarrow> vm res" where
  "mmu_enable m =
     bind_r (assert_r (\<not> bit (ctrl1 m) MMU_enabled)) (\<lambda>_. mmu_enable_set (ctrl1 m OR push_bit MMU_enabled 1) m)"

definition set_procid_ttbr0 :: "u32 \<Rightarrow> u32 \<Rightarrow> u32 \<Rightarrow> vm \<Rightarrow> vm res" where
  "set_procid_ttbr0 pid asid pt m =
     bind_r (assert_r (drop_bit 24 pid = 0)) (\<lambda>_.
     bind_r (assert_r (pid > 64)) (\<lambda>_.
     bind_r (assert_r (asid < 64 \<and> asid \<noteq> 0)) (\<lambda>_.
       Inr (cp15_set_procid_ttbr0 (push_bit 8 pid OR asid) pt m))))"

definition domain_access_ctrl_get :: "vm \<Rightarrow> u32" where
  "domain_access_ctrl_get m = dac m"

definition domain_access_ctrl_set :: "u32 \<Rightarrow> vm \<Rightarrow> vm" where
  "domain_access_ctrl_set r m = cp15_domain_ctrl_wr r m"

section \<open>The identity mapping\<close>

definition dom_id :: u32 where "dom_id = 1"
definition STACK_ADDR :: u32 where "STACK_ADDR = 0x8000000"
definition INT_STACK_ADDR :: u32 where "INT_STACK_ADDR = 0x9000000"

definition vm_ident_mmu_on :: "u32 \<Rightarrow> vm \<Rightarrow> vm res" where
  "vm_ident_mmu_on pt m =
     bind_r (set_procid_ttbr0 0x140e dom_id pt m) (\<lambda>m1.
     bind_r (mmu_enable m1) (\<lambda>m2.
     bind_r (assert_r (mmu_is_enabled m2)) (\<lambda>_. Inr m2)))"

definition vm_ident_mmu_off :: "vm \<Rightarrow> vm res" where
  "vm_ident_mmu_off m =
     bind_r (mmu_disable m) (\<lambda>m1. bind_r (assert_r (\<not> mmu_is_enabled m1)) (\<lambda>_. Inr m1))"

definition ident :: "u32 \<Rightarrow> u32 \<Rightarrow> vm \<Rightarrow> vm res" where
  "ident pt a m = bind_r (mmu_map_section pt a a dom_id m) (\<lambda>(_, m'). Inr m')"

definition vm_ident_mmu_init :: "u32 \<Rightarrow> bool \<Rightarrow> u32 \<Rightarrow> vm \<Rightarrow> (u32 \<times> vm) res" where
  "vm_ident_mmu_init addr start_p int_vec m =
     bind_r (mmu_init m) (\<lambda>m.
     bind_r (assert_r (\<not> mmu_is_enabled m)) (\<lambda>_.
     bind_r (mmu_pt_alloc addr 4096 m) (\<lambda>(pt, m).
     bind_r (assert_r (pt = 0x100000)) (\<lambda>_.
     bind_r (ident pt 0 m) (\<lambda>m.
     bind_r (ident pt 0x100000 m) (\<lambda>m.
     bind_r (ident pt 0x20000000 m) (\<lambda>m.
     bind_r (ident pt 0x20100000 m) (\<lambda>m.
     bind_r (ident pt 0x20200000 m) (\<lambda>m.
     bind_r (ident pt (STACK_ADDR - 0x100000) m) (\<lambda>m.
     bind_r (ident pt (INT_STACK_ADDR - 0x100000) m) (\<lambda>m.
     bind_r (vector_base_reset int_vec m) (\<lambda>(_, m).
     let m = domain_access_ctrl_set (push_bit (unat dom_id * 2) 1) m in
     if start_p then bind_r (vm_ident_mmu_on pt m) (\<lambda>m. Inr (pt, m)) else Inr (pt, m)))))))))))))"

end
