(* ===== verification/Vm_Props.thy ===== *)
theory Vm_Props
  imports Vm_Mmu
begin

text \<open>
  What the page tables mean to the processor: the walk of a first-level table of sections, as the
  comment of \<open>vm/armv6-vm.h\<close> describes it, with a TLB that may hold older entries, and the correctness of
  the identity mapping and of a change of permissions.
\<close>

section \<open>The walk of the processor\<close>

definition sec_of :: "u32 \<Rightarrow> nat" where
  "sec_of va = unat (drop_bit 20 va)"

definition entry_of :: "vm \<Rightarrow> nat \<Rightarrow> fld" where
  "entry_of m s = (case tlb m s of Some f \<Rightarrow> f | None \<Rightarrow> tables m (ttbr0 m) ! s)"

text \<open>The table of permissions for APX = 0; \<open>priv\<close> is a privileged access.\<close>

definition ap_allows :: "2 word \<Rightarrow> bool \<Rightarrow> bool \<Rightarrow> bool" where
  "ap_allows ap priv wr \<longleftrightarrow> ap \<noteq> 0 \<and> (priv \<or> ap = 3 \<or> ap = 2 \<and> \<not> wr)"

text \<open>The physical address of an access, or \<open>None\<close> for a fault.\<close>

definition mmu_translate :: "vm \<Rightarrow> bool \<Rightarrow> bool \<Rightarrow> u32 \<Rightarrow> u32 option" where
  "mmu_translate m priv wr va =
     (if \<not> mmu_is_enabled m then Some va
      else let f = entry_of m (sec_of va);
               rights = drop_bit (2 * unat (fld_domain f)) (dac m) AND 3;
               pa = push_bit 20 (ucast (fld_base f)) OR (va AND 0xfffff)
           in if fld_tag f \<noteq> 2 \<or> fld_super f \<noteq> 0 \<or> fld_APX f \<noteq> 0 then None
              else if rights = 3 then Some pa
              else if rights = 1 \<and> ap_allows (fld_AP f) priv wr then Some pa
              else None)"

text \<open>While the MMU is on, the TLB may take over entries of the table at any time.\<close>

definition tlb_fills :: "vm \<Rightarrow> vm \<Rightarrow> bool" where
  "tlb_fills m m' \<longleftrightarrow> (\<exists>t. m' = m\<lparr>tlb := t\<rparr> \<and>
     (\<forall>s f. t s = Some f \<longrightarrow> tlb m s = Some f \<or> f = tables m (ttbr0 m) ! s))"

section \<open>Sections\<close>

definition section_fld :: "u32 \<Rightarrow> u32 \<Rightarrow> fld" where
  "section_fld pa dm = fld_zero\<lparr>fld_base := ucast (drop_bit 20 pa), fld_AP := 3, fld_domain := ucast dm, fld_tag := 2\<rparr>"

lemma sec_of_less: "sec_of va < 4096"
proof -
  have "drop_bit 20 va = va div 1048576" by (simp add: drop_bit_eq_div)
  moreover have "unat va < 4096 * 1048576" by (rule order_less_le_trans [OF unsigned_less]) simp
  ultimately show ?thesis by (simp add: sec_of_def unat_div less_mult_imp_div_less)
qed

lemma aligned_next: "(x :: u32) mod 2 ^ 20 = 0 \<Longrightarrow> (x + 0x100000) mod 2 ^ 20 = 0"
proof -
  assume "x mod 2 ^ 20 = 0"
  then have "unat (x mod 0x100000) = 0" by simp
  then have "unat x mod 1048576 = 0" by (simp add: unat_mod)
  moreover have "unat (x + 0x100000) mod 1048576 = (unat x + 1048576) mod 1048576"
    by (simp add: unat_word_ariths(1) mod_mod_cancel)
  ultimately have "unat ((x + 0x100000) mod 0x100000) = 0" by (simp add: unat_mod)
  then show ?thesis by (simp add: unat_eq_0)
qed

lemma base_back: "va mod 2 ^ 20 = 0 \<Longrightarrow> push_bit 20 (ucast (ucast (drop_bit 20 va) :: 12 word)) = (va :: u32)"
proof (rule bit_word_eqI)
  fix n assume a: "va mod 2 ^ 20 = 0" and n: "n < LENGTH(32)"
  have "\<not> bit va n" if "n < 20"
    using a that bit_take_bit_iff [of 20 va n] by (simp add: take_bit_eq_mod)
  then show "bit (push_bit 20 (ucast (ucast (drop_bit 20 va) :: 12 word)) :: u32) n = bit va n"
    using n by (cases "n < 20") (auto simp: bit_simps)
qed

lemma base_join: "push_bit 20 (ucast (ucast (drop_bit 20 va) :: 12 word)) OR (va AND 0xfffff) = (va :: u32)"
proof -
  have m: "(0xfffff :: u32) = mask 20" by (simp add: mask_eq_exp_minus_1)
  show ?thesis unfolding m by (rule bit_word_eqI) (auto simp: bit_simps)
qed

lemma fld_parts:
  "f\<lparr>fld_base := b, fld_nG := 0, fld_APX := 0, fld_AP := 3, fld_domain := d, fld_TEX := 0, fld_XN := 0,
     fld_tag := 2, fld_B := 0, fld_C := 0, fld_IMP := 0, fld_super := 0, fld_sbz1 := 0, fld_S := 0\<rparr> =
   fld_zero\<lparr>fld_base := b, fld_AP := 3, fld_domain := d, fld_tag := 2\<rparr>"
  by (cases f) (simp add: fld_zero_def)

lemma map_section_ok:
  assumes "va mod 2 ^ 20 = 0" "pa mod 2 ^ 20 = 0" "dm < 16" "length (tables m pt) = 4096"
  shows "mmu_map_section pt va pa dm m = Inr (sec_of va,
    set_table pt ((tables m pt)[sec_of va := section_fld pa dm]) m)"
proof -
  have s: "unat (drop_bit 20 va) < length (tables m pt)" using sec_of_less [of va] assms(4) by (simp add: sec_of_def)
  have v: "fld_check_valid (fld_zero\<lparr>fld_base := b, fld_AP := 3, fld_domain := d, fld_tag := 2\<rparr>) = Inr ()" for b d
    by (simp add: fld_check_valid_def fld_zero_def)
  show ?thesis using s assms base_back [OF assms(2)] v
    by (simp add: mmu_map_section_def mod_pow2_def fld_set_base_addr_def Let_def fld_parts fld_print_def sec_of_def section_fld_def)
qed

text \<open>A mapping of \<open>n\<close> sections sets exactly their entries.\<close>

lemma map_loop_ok:
  assumes "va mod 2 ^ 20 = 0" "pa mod 2 ^ 20 = 0" "dm < 16" "length (tables m pt) = 4096" "sec_of va + n \<le> 4096"
  shows "\<exists>t. map_loop n pt va pa dm m = Inr (set_table pt t m) \<and> length t = 4096 \<and>
    (\<forall>s < 4096. t ! s = (if sec_of va \<le> s \<and> s < sec_of va + n
       then section_fld (pa + of_nat (s - sec_of va) * 0x100000) dm else tables m pt ! s))"
  using assms
proof (induction n arbitrary: va pa m)
  case 0
  then show ?case by (intro exI [of _ "tables m pt"]) auto
next
  case (Suc n)
  let ?m = "set_table pt ((tables m pt)[sec_of va := section_fld pa dm]) m"
  have al: "(x + 0x100000) mod 2 ^ 20 = 0" if "x mod 2 ^ 20 = 0" for x :: u32
    using that by (rule aligned_next)
  have sc: "sec_of (va + 0x100000) = Suc (sec_of va)" if "n \<noteq> 0"
  proof -
    have "unat va div 1048576 + 1 < 4096" using Suc.prems(5) that by (simp add: sec_of_def drop_bit_eq_div unat_div)
    then have "unat va + 1048576 < 2 ^ 32" by simp
    then have "unat (va + 0x100000) = unat va + 1048576" by (simp add: unat_plus_if_size word_size)
    then show ?thesis by (simp add: sec_of_def drop_bit_eq_div unat_div)
  qed
  show ?case
  proof (cases "n = 0")
    case True
    then show ?thesis using map_section_ok [OF Suc.prems(1-4)] Suc.prems(4)
      by (intro exI [of _ "(tables m pt)[sec_of va := section_fld pa dm]"]) (auto simp: nth_list_update)
  next
    case False
    have len: "length (tables ?m pt) = 4096" using Suc.prems(4) by simp
    have le: "sec_of (va + 0x100000) + n \<le> 4096" using sc [OF False] Suc.prems(5) by simp
    obtain t where t: "map_loop n pt (va + 0x100000) (pa + 0x100000) dm ?m = Inr (set_table pt t ?m)"
        "length t = 4096" "\<forall>s < 4096. t ! s = (if sec_of (va + 0x100000) \<le> s \<and> s < sec_of (va + 0x100000) + n
          then section_fld (pa + 0x100000 + of_nat (s - sec_of (va + 0x100000)) * 0x100000) dm else tables ?m pt ! s)"
      using Suc.IH [OF al [OF Suc.prems(1)] al [OF Suc.prems(2)] Suc.prems(3) len le] by blast
    have "pa + 0x100000 + of_nat (s - Suc (sec_of va)) * 0x100000 = pa + of_nat (s - sec_of va) * 0x100000"
      if "Suc (sec_of va) \<le> s" for s
    proof -
      have "s - sec_of va = Suc (s - Suc (sec_of va))" using that by simp
      then show ?thesis by (simp add: algebra_simps)
    qed
    moreover have eq: "\<not> Suc (sec_of va) \<le> s \<Longrightarrow> sec_of va \<le> s \<Longrightarrow> s = sec_of va" for s by simp
    ultimately show ?thesis using t sc [OF False] map_section_ok [OF Suc.prems(1-4)] Suc.prems(4)
      by (intro exI [of _ t]) (auto simp: nth_list_update dest!: eq)
  qed
qed

section \<open>Permissions\<close>

lemma protect_loop_ok:
  "i + n \<le> length t \<Longrightarrow> \<exists>t'. protect_loop i n perm t = Inr t' \<and> length t' = length t \<and>
    (\<forall>s < length t. t' ! s = (if i \<le> s \<and> s < i + n then (t ! s)\<lparr>fld_AP := perm\<rparr> else t ! s))"
proof (induction n arbitrary: i t)
  case (Suc n)
  let ?t = "t[i := (t ! i)\<lparr>fld_AP := perm\<rparr>]"
  obtain t' where t': "protect_loop (Suc i) n perm ?t = Inr t'" "length t' = length ?t"
      "\<forall>s < length ?t. t' ! s = (if Suc i \<le> s \<and> s < Suc i + n then (?t ! s)\<lparr>fld_AP := perm\<rparr> else ?t ! s)"
    using Suc.IH [of "Suc i" ?t] Suc.prems by auto
  then show ?case using Suc.prems by (intro exI [of _ t']) (auto simp: nth_list_update)
qed auto

lemma masked_section: "sec_of (va AND NOT 0xfffff) = sec_of va" "(va AND NOT 0xfffff) mod 2 ^ 20 = (0 :: u32)"
proof -
  have m: "(0xfffff :: u32) = mask 20" by (simp add: mask_eq_exp_minus_1)
  have "drop_bit 20 (va AND NOT (mask 20)) = drop_bit 20 va"
    by (rule bit_word_eqI) (auto simp: bit_simps dest: bit_imp_le_length)
  then show "sec_of (va AND NOT 0xfffff) = sec_of va" by (simp add: sec_of_def m)
  have "take_bit 20 (va AND NOT (mask 20)) = 0" by (rule bit_word_eqI) (auto simp: bit_simps)
  then show "(va AND NOT 0xfffff) mod 2 ^ 20 = 0" unfolding m by (simp add: take_bit_eq_mod)
qed

text \<open>
  A change of permissions sets exactly the permissions of the \<open>n\<close> sections from that of \<open>va\<close> on, and the
  TLB forgets the old ones.
\<close>

lemma mprotect_ok:
  assumes "length (tables m pt) = 4096" "perm \<le> 3" "sec_of va + unat n \<le> 4096" "fld_tag (tables m pt ! sec_of va) \<noteq> 0"
  shows "\<exists>t. mmu_mprotect pt va n perm m = Inr ((set_table pt t m)\<lparr>tlb := Map.empty\<rparr>) \<and> length t = 4096 \<and>
    (\<forall>s < 4096. t ! s = (if sec_of va \<le> s \<and> s < sec_of va + unat n
       then (tables m pt ! s)\<lparr>fld_AP := ucast perm\<rparr> else tables m pt ! s))"
proof -
  let ?v = "va AND NOT 0xfffff"
  have s: "unat (drop_bit 20 ?v) = sec_of va" using masked_section(1) [of va] by (simp add: sec_of_def)
  have "mmu_lookup_section pt ?v m = Inr (sec_of va)"
    using masked_section(2) [of va] assms(1,4) sec_of_less [of va] s
    by (simp add: mmu_lookup_section_def mod_pow2_def Let_def)
  then show ?thesis
    using protect_loop_ok [of "sec_of va" "unat n" "tables m pt" "ucast perm"] assms
    by (auto simp: mmu_mprotect_def mmu_sync_pte_mods_def)
qed

section \<open>The identity mapping\<close>

definition ident_secs :: "nat list" where
  "ident_secs = [0, 1, 0x200, 0x201, 0x202, 0x7f, 0x8f]"

definition ident_fld :: "nat \<Rightarrow> fld" where
  "ident_fld s = (if s \<in> set ident_secs then section_fld (push_bit 20 (of_nat s)) dom_id else fld_zero)"

lemma ident_ok:
  assumes "a mod 2 ^ 20 = 0" "length (tables m pt) = 4096"
  shows "ident pt a m = Inr (set_table pt ((tables m pt)[sec_of a := section_fld a dom_id]) m)"
  using map_section_ok [OF assms(1,1) _ assms(2), of dom_id] by (simp add: ident_def dom_id_def)

lemma pt_alloc_ok: "mmu_pt_alloc 0x100000 4096 m = Inr (0x100000, set_table 0x100000 (replicate 4096 fld_zero) m)"
  by (simp add: mmu_pt_alloc_def mmu_pt_init_def mod_pow2_def)

lemma mmu_on_ok:
  assumes "\<not> mmu_is_enabled m"
  shows "\<exists>m'. vm_ident_mmu_on pt m = Inr m' \<and> ctrl1 m' = ctrl1 m OR 1 \<and> dac m' = dac m \<and> ttbr0 m' = pt \<and> tables m' = tables m \<and>
    tlb m' = tlb m \<and> vector_base m' = vector_base m"
  using assms
  by (simp add: vm_ident_mmu_on_def set_procid_ttbr0_def cp15_set_procid_ttbr0_def mmu_enable_def mmu_enable_set_def
      mmu_enable_set_asm_def mmu_is_enabled_def MMU_enabled_def dom_id_def bit_simps)

lemma ident_init:
  assumes "\<not> mmu_is_enabled m" "vector_base_chk vec"
  shows "\<exists>m'. vm_ident_mmu_init 0x100000 True vec m = Inr (0x100000, m') \<and> ctrl1 m' = (ctrl1 m OR 0x800000) OR 1 \<and>
    dac m' = 4 \<and> ttbr0 m' = 0x100000 \<and> tlb m' = Map.empty \<and> vector_base m' = vec \<and>
    length (tables m' 0x100000) = 4096 \<and> (\<forall>s < 4096. tables m' 0x100000 ! s = ident_fld s)"
proof -
  let ?m = "m\<lparr>tlb := Map.empty, ctrl1 := ctrl1 m OR push_bit XP_pt 1\<rparr>"
  define t where "t = (replicate 4096 fld_zero)[0 := section_fld 0 dom_id, 1 := section_fld 0x100000 dom_id,
    0x200 := section_fld 0x20000000 dom_id, 0x201 := section_fld 0x20100000 dom_id, 0x202 := section_fld 0x20200000 dom_id,
    0x7f := section_fld 0x7f00000 dom_id, 0x8f := section_fld 0x8f00000 dom_id]"
  let ?n = "domain_access_ctrl_set 4 ((set_table 0x100000 t ?m)\<lparr>vector_base := vec\<rparr>)"
  have i: "mmu_init m = Inr ?m" using assms(1)
    by (simp add: mmu_init_def mmu_reset_def Let_def mmu_is_enabled_def MMU_enabled_def XP_pt_def bit_simps)
  have e: "\<not> mmu_is_enabled ?m" "\<not> mmu_is_enabled ?n" using assms(1)
    by (simp_all add: mmu_is_enabled_def MMU_enabled_def XP_pt_def bit_simps domain_access_ctrl_set_def cp15_domain_ctrl_wr_def)
  have t: "\<forall>s < 4096. t ! s = ident_fld s" "length t = 4096"
    by (simp_all add: t_def ident_fld_def ident_secs_def nth_list_update)
  have "vm_ident_mmu_init 0x100000 True vec m = bind_r (vm_ident_mmu_on 0x100000 ?n) (\<lambda>m. Inr (0x100000, m))"
    using assms(2) e(1)
    by (simp add: vm_ident_mmu_init_def i pt_alloc_ok ident_ok STACK_ADDR_def INT_STACK_ADDR_def vector_base_reset_def
        dom_id_def [THEN arg_cong, of unat] sec_of_def t_def Let_def)
  then show ?thesis using mmu_on_ok [OF e(2), of "0x100000"] t
    by (auto simp: domain_access_ctrl_set_def cp15_domain_ctrl_wr_def XP_pt_def)
qed

lemma ident_walk:
  assumes "mmu_is_enabled m" "dac m = 4" "entry_of m (sec_of va) = (section_fld va dom_id)\<lparr>fld_AP := ap\<rparr>"
  shows "mmu_translate m priv wr va = (if ap_allows ap priv wr then Some va else None)"
  using assms base_join [of va]
  by (simp add: mmu_translate_def section_fld_def fld_zero_def dom_id_def Let_def)

lemma zero_walk: "mmu_is_enabled m \<Longrightarrow> entry_of m (sec_of va) = fld_zero \<Longrightarrow> mmu_translate m priv wr va = None"
  by (simp add: mmu_translate_def fld_zero_def)

lemma section_fld_sec: "section_fld (push_bit 20 (of_nat (sec_of va))) dm = section_fld va dm"
proof -
  have "drop_bit 20 (push_bit 20 (drop_bit 20 va)) = drop_bit 20 va"
    by (rule bit_word_eqI) (auto simp: bit_simps dest: bit_imp_le_length)
  then show ?thesis by (simp add: section_fld_def sec_of_def)
qed

lemma ident_entry:
  "ident_fld (sec_of va) = (if sec_of va \<in> set ident_secs then (section_fld va dom_id)\<lparr>fld_AP := 3\<rparr> else fld_zero)"
  by (simp add: ident_fld_def section_fld_sec) (simp add: section_fld_def)

text \<open>A machine that runs on the identity mapping; its TLB holds whatever it took over.\<close>

definition ident_state :: "vm \<Rightarrow> bool" where
  "ident_state m \<longleftrightarrow> mmu_is_enabled m \<and> dac m = 4 \<and> ttbr0 m = 0x100000 \<and> length (tables m 0x100000) = 4096 \<and>
     (\<forall>s < 4096. tables m 0x100000 ! s = ident_fld s)"

lemma fills_ident_state: "ident_state m \<Longrightarrow> tlb_fills m m' \<Longrightarrow> ident_state m'"
  by (auto simp: ident_state_def tlb_fills_def mmu_is_enabled_def)

lemma ident_state_walk:
  assumes "ident_state m" "tlb m = Map.empty"
  shows "mmu_translate m priv wr va = (if sec_of va \<in> set ident_secs then Some va else None)"
proof -
  have "entry_of m (sec_of va) = ident_fld (sec_of va)"
    using assms sec_of_less [of va] by (simp add: entry_of_def ident_state_def)
  then show ?thesis using assms(1) ident_walk [of m va 3 priv wr] zero_walk [of m va]
    by (auto simp: ident_entry ident_state_def ap_allows_def)
qed

lemma ident_protect:
  assumes "ident_state m" "sec_of a \<in> set ident_secs"
  shows "\<exists>m'. mmu_mark_sec_no_access 0x100000 a 1 m = Inr m' \<and> (\<forall>priv wr va. mmu_translate m' priv wr va =
    (if sec_of va \<in> set ident_secs \<and> sec_of va \<noteq> sec_of a then Some va else None))"
proof -
  have m: "mmu_is_enabled m" "dac m = 4" "ttbr0 m = 0x100000" "length (tables m 0x100000) = 4096"
      "\<forall>s < 4096. tables m 0x100000 ! s = ident_fld s" using assms(1) by (auto simp: ident_state_def)
  have tag: "fld_tag (tables m 0x100000 ! sec_of a) \<noteq> 0"
    using m(5) sec_of_less [of a] assms(2) by (simp add: ident_fld_def section_fld_def)
  have le: "sec_of a + unat (1 :: u32) \<le> 4096" "(0 :: u32) \<le> 3" using sec_of_less [of a] by simp_all
  obtain t where t: "mmu_mprotect 0x100000 a 1 0 m = Inr ((set_table 0x100000 t m)\<lparr>tlb := Map.empty\<rparr>)" "length t = 4096"
      "\<forall>s < 4096. t ! s = (if sec_of a \<le> s \<and> s < sec_of a + unat (1 :: u32)
        then (tables m 0x100000 ! s)\<lparr>fld_AP := ucast (0 :: u32)\<rparr> else tables m 0x100000 ! s)"
    using mprotect_ok [OF m(4) le(2,1) tag] by blast
  let ?m = "(set_table 0x100000 t m)\<lparr>tlb := Map.empty\<rparr>"
  have on: "mmu_is_enabled ?m" "dac ?m = 4" using m(1,2) by (simp_all add: mmu_is_enabled_def)
  have "mmu_translate ?m priv wr va = (if sec_of va \<in> set ident_secs \<and> sec_of va \<noteq> sec_of a then Some va else None)" for priv wr va
  proof (cases "sec_of va = sec_of a")
    case True
    then have "entry_of ?m (sec_of va) = (section_fld va dom_id)\<lparr>fld_AP := 0\<rparr>"
      using t(3) m(3,5) sec_of_less [of va] assms(2) section_fld_sec [of va dom_id]
      by (simp add: entry_of_def ident_fld_def)
    then show ?thesis using ident_walk [OF on] True by (simp add: ap_allows_def)
  next
    case False
    then have "entry_of ?m (sec_of va) = ident_fld (sec_of va)"
      using t(3) m(3,5) sec_of_less [of va] by (auto simp: entry_of_def)
    then show ?thesis using ident_walk [OF on, of va 3] zero_walk [OF on(1)] False
      by (auto simp: ident_entry ap_allows_def)
  qed
  then show ?thesis using t(1) by (auto simp: mmu_mark_sec_no_access_def)
qed

text \<open>C18: \<open>vm_ident_mmu_init\<close> switches the MMU on with every address of the seven mapped sections (code, heap and page
  table, the devices, the two stacks) at itself, readable and writable in every mode, and every other
  address faulting. However many entries the TLB has taken over since, marking a mapped section as not accessible
  with \<open>mmu_mprotect\<close> makes every access to it fault at once and changes nothing for the others.\<close>

theorem identity_map:
  assumes "\<not> mmu_is_enabled m" "vector_base_chk vec"
  shows "\<exists>m1. vm_ident_mmu_init 0x100000 True vec m = Inr (0x100000, m1) \<and>
    (\<forall>priv wr va. mmu_translate m1 priv wr va = (if sec_of va \<in> set ident_secs then Some va else None)) \<and>
    (\<forall>m2 a. tlb_fills m1 m2 \<longrightarrow> sec_of a \<in> set ident_secs \<longrightarrow>
      (\<exists>m3. mmu_mark_sec_no_access 0x100000 a 1 m2 = Inr m3 \<and>
        (\<forall>priv wr va. mmu_translate m3 priv wr va =
           (if sec_of va \<in> set ident_secs \<and> sec_of va \<noteq> sec_of a then Some va else None))))"
proof -
  obtain m1 where m1: "vm_ident_mmu_init 0x100000 True vec m = Inr (0x100000, m1)" "ctrl1 m1 = (ctrl1 m OR 0x800000) OR 1"
      "dac m1 = 4" "ttbr0 m1 = 0x100000" "tlb m1 = Map.empty" "length (tables m1 0x100000) = 4096"
      "\<forall>s < 4096. tables m1 0x100000 ! s = ident_fld s"
    using ident_init [OF assms] by blast
  then have "ident_state m1" by (simp add: ident_state_def mmu_is_enabled_def MMU_enabled_def bit_simps)
  then show ?thesis using m1(1,5) ident_state_walk ident_protect [OF fills_ident_state] by blast
qed

text \<open>A machine as it comes out of reset.\<close>

definition vm_reset :: vm where
  "vm_reset = \<lparr>tables = (\<lambda>_. []), ctrl1 = 0x50078, dac = 0, ttbr0 = 0, ttbr1 = 0, ttbcr = 0, context_id = 0, vector_base = 0,
     tlb = Map.empty, quiet_p = False\<rparr>"

theorem identity_map_witness:
  "\<exists>m1. vm_ident_mmu_init 0x100000 True 0x8000 vm_reset = Inr (0x100000, m1) \<and> mmu_translate m1 True True 0x20200034 = Some 0x20200034 \<and>
     mmu_translate m1 True False 0x300000 = None \<and>
     (\<exists>m3. mmu_mark_sec_no_access 0x100000 0x123456 1 m1 = Inr m3 \<and> mmu_translate m3 True False 0x100000 = None)"
proof -
  have off: "\<not> mmu_is_enabled vm_reset" "vector_base_chk 0x8000"
    by (simp_all add: mmu_is_enabled_def vm_reset_def MMU_enabled_def vector_base_chk_def)
  have s: "sec_of 0x20200034 = 0x202" "sec_of 0x300000 = 3" "sec_of 0x123456 = 1" "sec_of 0x100000 = 1"
    by (simp_all add: sec_of_def)
  obtain m1 where m1: "vm_ident_mmu_init 0x100000 True 0x8000 vm_reset = Inr (0x100000, m1)"
      "\<And>priv wr va. mmu_translate m1 priv wr va = (if sec_of va \<in> set ident_secs then Some va else None)"
      "\<And>m2 a. tlb_fills m1 m2 \<Longrightarrow> sec_of a \<in> set ident_secs \<Longrightarrow> \<exists>m3. mmu_mark_sec_no_access 0x100000 a 1 m2 = Inr m3 \<and>
        (\<forall>priv wr va. mmu_translate m3 priv wr va = (if sec_of va \<in> set ident_secs \<and> sec_of va \<noteq> sec_of a then Some va else None))"
    using identity_map [OF off] by blast
  have "tlb_fills m1 m1" by (auto simp: tlb_fills_def intro: exI [of _ "tlb m1"])
  from m1(3) [OF this, of "0x123456"] obtain m3 where "mmu_mark_sec_no_access 0x100000 0x123456 1 m1 = Inr m3"
      "mmu_translate m3 True False 0x100000 = None" by (auto simp: s ident_secs_def)
  then show ?thesis using m1(1) by (simp add: m1(2) s ident_secs_def)
qed

end
