(* ===== verification/Libc_Mem.thy ===== *)
theory Libc_Mem
  imports Prelude
begin

text \<open>
  The memory and string functions of \<open>libpi/libc\<close>: \<open>memcpy\<close>, \<open>memmove\<close>, \<open>memset\<close>, \<open>memcmp\<close>, \<open>strlen\<close>, \<open>strcmp\<close>,
  \<open>strncmp\<close>, \<open>strcpy\<close> and \<open>strcat\<close>. They work on one memory of bytes, so that the blocks may overlap; an
  address is a natural number, since no object of a C program reaches across the end of the memory.
  A \<open>char\<close> is unsigned on ARM. The loops that look for the end of a string stop after \<open>2 ^ 32\<close> steps: a
  memory without that byte is a run that never ends. The main result is that the copying functions move a block
  as a whole, also when source and target overlap.
\<close>

type_synonym mem = "nat \<Rightarrow> u8"

section \<open>Blocks\<close>

fun copy_up :: "nat \<Rightarrow> nat \<Rightarrow> nat \<Rightarrow> mem \<Rightarrow> mem" where
  "copy_up a b 0 m = m"
| "copy_up a b (Suc n) m = copy_up (a + 1) (b + 1) n (m(a := m b))"

fun copy_down :: "nat \<Rightarrow> nat \<Rightarrow> nat \<Rightarrow> mem \<Rightarrow> mem" where
  "copy_down a b 0 m = m"
| "copy_down a b (Suc n) m = copy_down (a - 1) (b - 1) n (m(a := m b))"

text \<open>The result is the pointer that the function returns, with the memory.\<close>

definition memcpy :: "nat \<Rightarrow> nat \<Rightarrow> nat \<Rightarrow> mem \<Rightarrow> nat \<times> mem" where
  "memcpy dst src nbytes m = (dst, copy_up dst src nbytes m)"

definition memmove :: "nat \<Rightarrow> nat \<Rightarrow> nat \<Rightarrow> mem \<Rightarrow> nat \<times> mem" where
  "memmove dst src count m =
     (if src = dst then (dst, m)
      else if src > dst then (dst, copy_up dst src count m)
      else (dst, copy_down (dst + count - 1) (src + count - 1) count m))"

text \<open>\<open>store_zeros w\<close> is a store of a word of \<open>w\<close> bytes.\<close>

definition store_zeros :: "nat \<Rightarrow> nat \<Rightarrow> mem \<Rightarrow> mem" where
  "store_zeros w p m = (\<lambda>a. if p \<le> a \<and> a < p + w then 0 else m a)"

fun zero_words :: "nat \<Rightarrow> nat \<Rightarrow> nat \<Rightarrow> mem \<Rightarrow> nat \<times> mem" where
  "zero_words w p 0 m = (p, m)"
| "zero_words w p (Suc n) m = zero_words w (p + w) n (store_zeros w p m)"

fun fill_bytes :: "nat \<Rightarrow> nat \<Rightarrow> u8 \<Rightarrow> mem \<Rightarrow> nat \<times> mem" where
  "fill_bytes p 0 c m = (p, m)"
| "fill_bytes p (Suc n) c m = fill_bytes (p + 1) n c (m(p := c))"

definition memset :: "nat \<Rightarrow> u32 \<Rightarrow> nat \<Rightarrow> mem \<Rightarrow> (nat \<times> mem) res" where
  "memset dst c n m =
     bind_r (assert_r (n \<noteq> 0)) (\<lambda>_.
       if c = 0 \<and> dst mod 8 = 0 \<and> n mod 8 = 0 then Inr (zero_words 8 dst (n div 8) m)
       else if c = 0 \<and> dst mod 4 = 0 \<and> n mod 4 = 0 then Inr (zero_words 4 dst (n div 4) m)
       else Inr (fill_bytes dst n (ucast c) m))"

fun memcmp :: "nat \<Rightarrow> nat \<Rightarrow> nat \<Rightarrow> mem \<Rightarrow> int" where
  "memcmp a b 0 m = 0"
| "memcmp a b (Suc n) m =
     (let v = uint (m a) - uint (m b) in if v \<noteq> 0 then v else memcmp (a + 1) (b + 1) n m)"

section \<open>Strings\<close>

definition str_fuel :: nat where "str_fuel = 4294967296"

fun strlen_loop :: "nat \<Rightarrow> nat \<Rightarrow> nat \<Rightarrow> mem \<Rightarrow> nat res" where
  "strlen_loop p ret 0 m = Inl Diverges"
| "strlen_loop p ret (Suc k) m = (if m (p + ret) = 0 then Inr ret else strlen_loop p (ret + 1) k m)"

definition strlen :: "nat \<Rightarrow> mem \<Rightarrow> nat res" where
  "strlen p m = strlen_loop p 0 str_fuel m"

fun strcmp_loop :: "nat \<Rightarrow> nat \<Rightarrow> nat \<Rightarrow> mem \<Rightarrow> int res" where
  "strcmp_loop a b 0 m = Inl Diverges"
| "strcmp_loop a b (Suc k) m =
     (if m a \<noteq> 0 \<and> m a = m b then strcmp_loop (a + 1) (b + 1) k m else Inr (uint (m a) - uint (m b)))"

definition strcmp :: "nat \<Rightarrow> nat \<Rightarrow> mem \<Rightarrow> int res" where
  "strcmp a b m = strcmp_loop a b str_fuel m"

text \<open>Unlike the function of the C library it does not stop at the end of the strings.\<close>

fun strncmp :: "nat \<Rightarrow> nat \<Rightarrow> nat \<Rightarrow> mem \<Rightarrow> int" where
  "strncmp a b 0 m = 0"
| "strncmp a b (Suc n) m =
     (if m a \<noteq> m b then uint (m a) - uint (m b) else strncmp (a + 1) (b + 1) n m)"

fun strcpy_loop :: "nat \<Rightarrow> nat \<Rightarrow> nat \<Rightarrow> mem \<Rightarrow> mem res" where
  "strcpy_loop s s2 0 m = Inl Diverges"
| "strcpy_loop s s2 (Suc k) m =
     (let m' = m(s := m s2) in if m s2 \<noteq> 0 then strcpy_loop (s + 1) (s2 + 1) k m' else Inr m')"

definition strcpy :: "nat \<Rightarrow> nat \<Rightarrow> mem \<Rightarrow> (nat \<times> mem) res" where
  "strcpy s1 s2 m = bind_r (strcpy_loop s1 s2 str_fuel m) (\<lambda>m'. Inr (s1, m'))"

text \<open>The second loop of \<open>strcat\<close> starts at the terminator the first one found.\<close>

definition strcat :: "nat \<Rightarrow> nat \<Rightarrow> mem \<Rightarrow> (nat \<times> mem) res" where
  "strcat dest src m =
     bind_r (strlen_loop dest 0 str_fuel m) (\<lambda>k.
     bind_r (strcpy_loop (dest + k) src str_fuel m) (\<lambda>m'. Inr (dest, m')))"

section \<open>What they do\<close>

text \<open>The block of \<open>n\<close> bytes at \<open>dst\<close> replaced by what the block at \<open>src\<close> held before.\<close>

definition moved :: "nat \<Rightarrow> nat \<Rightarrow> nat \<Rightarrow> mem \<Rightarrow> mem" where
  "moved dst src n m = (\<lambda>a. if dst \<le> a \<and> a < dst + n then m (src + (a - dst)) else m a)"

definition filled :: "nat \<Rightarrow> nat \<Rightarrow> u8 \<Rightarrow> mem \<Rightarrow> mem" where
  "filled p n c m = (\<lambda>a. if p \<le> a \<and> a < p + n then c else m a)"

lemma nothing_moved [simp]: "moved dst src 0 m = m" "filled p 0 c m = m"
  by (auto simp: moved_def filled_def fun_eq_iff)

lemma moved_first:
  "dst \<le> src \<or> src + Suc n \<le> dst \<Longrightarrow> moved (dst + 1) (src + 1) n (m(dst := m src)) = moved dst src (Suc n) m"
proof (rule ext)
  fix x
  assume a: "dst \<le> src \<or> src + Suc n \<le> dst"
  have "src + 1 + (x - (dst + 1)) = src + (x - dst)" if "dst < x" using that by simp
  with a show "moved (dst + 1) (src + 1) n (m(dst := m src)) x = moved dst src (Suc n) m x"
    by (auto simp: moved_def Suc_le_eq)
qed

lemma moved_last: "src \<le> dst \<Longrightarrow> moved dst src n (m(dst + n := m (src + n))) = moved dst src (Suc n) m"
  by (rule ext) (auto simp: moved_def less_Suc_eq)

lemma filled_first: "filled (p + 1) n c (m(p := c)) = filled p (Suc n) c m"
  by (rule ext) (auto simp: filled_def)

lemma copy_up_moved: "dst \<le> src \<or> src + n \<le> dst \<Longrightarrow> copy_up dst src n m = moved dst src n m"
proof (induction dst src n m rule: copy_up.induct)
  case (2 a b n m)
  then show ?case using moved_first [of a b n m] by (auto simp del: fun_upd_apply)
qed simp

lemma copy_down_moved:
  "src \<le> dst \<Longrightarrow> copy_down (dst + n - 1) (src + n - 1) n m = moved dst src n m"
proof (induction n arbitrary: m)
  case (Suc n)
  then show ?case using moved_last [of src dst n m] by simp
qed simp

text \<open>\<open>memmove\<close> copies blocks that overlap in any way, \<open>memcpy\<close> those where the target does not start inside the source.\<close>

lemma memmove_ok: "memmove dst src n m = (dst, moved dst src n m)"
  using copy_up_moved [of dst src n m] copy_down_moved [of src dst n m]
  by (auto simp: memmove_def moved_def fun_eq_iff)

lemma memcpy_ok: "dst \<le> src \<or> src + n \<le> dst \<Longrightarrow> memcpy dst src n m = (dst, moved dst src n m)"
  by (simp add: memcpy_def copy_up_moved)

lemma zero_words_ok: "zero_words w p n m = (p + w * n, filled p (w * n) 0 m)"
proof (induction w p n m rule: zero_words.induct)
  case (2 w p n m)
  have "filled (p + w) (w * n) 0 (store_zeros w p m) = filled p (w * Suc n) 0 m"
    by (rule ext) (auto simp: filled_def store_zeros_def)
  with 2 show ?case by (simp add: algebra_simps)
qed simp

lemma fill_bytes_ok: "fill_bytes p n c m = (p + n, filled p n c m)"
  by (induction p n c m rule: fill_bytes.induct) (simp_all add: filled_first [simplified] del: fun_upd_apply)

text \<open>Whichever stores \<open>memset\<close> uses, it sets exactly the bytes of the block; it returns the end of the block.\<close>

lemma memset_ok: "n \<noteq> 0 \<Longrightarrow> memset dst c n m = Inr (dst + n, filled dst n (ucast c) m)"
  by (auto simp: memset_def zero_words_ok fill_bytes_ok)

lemma memcmp_zero: "memcmp a b n m = 0 \<longleftrightarrow> (\<forall>i < n. m (a + i) = m (b + i))"
proof (induction a b n m rule: memcmp.induct)
  case (2 a b n m)
  have "(\<forall>i < Suc n. m (a + i) = m (b + i)) \<longleftrightarrow> m a = m b \<and> (\<forall>i < n. m (a + 1 + i) = m (b + 1 + i))"
    by (simp only: All_less_Suc2) simp
  with 2 show ?case by (auto simp: Let_def word_uint_eq_iff)
qed simp

subsection \<open>Strings in memory\<close>

definition cstr_at :: "mem \<Rightarrow> nat \<Rightarrow> u8 list \<Rightarrow> bool" where
  "cstr_at m p s \<longleftrightarrow> 0 \<notin> set s \<and> (\<forall>i < length s. m (p + i) = s ! i) \<and> m (p + length s) = 0"

lemma cstr_at_Nil: "cstr_at m p [] \<longleftrightarrow> m p = 0"
  by (simp add: cstr_at_def)

lemma cstr_at_Cons: "cstr_at m p (c # s) \<longleftrightarrow> c \<noteq> 0 \<and> m p = c \<and> cstr_at m (p + 1) s"
  by (auto simp: cstr_at_def All_less_Suc2)

lemmas cstr_at_simps = cstr_at_Nil cstr_at_Cons

lemma strlen_loop_ok: "cstr_at m (p + r) s \<Longrightarrow> length s < k \<Longrightarrow> strlen_loop p r k m = Inr (r + length s)"
proof (induction s arbitrary: r k)
  case Nil
  then show ?case by (cases k) (auto simp: cstr_at_simps)
next
  case (Cons c s)
  then show ?case by (cases k) (auto simp: cstr_at_simps)
qed

lemma strlen_ok: "cstr_at m p s \<Longrightarrow> length s < str_fuel \<Longrightarrow> strlen p m = Inr (length s)"
  using strlen_loop_ok [of m p 0 s str_fuel] by (simp add: strlen_def)

lemma strcmp_loop_ok:
  "cstr_at m a s \<Longrightarrow> cstr_at m b t \<Longrightarrow> length s < k \<Longrightarrow> \<exists>v. strcmp_loop a b k m = Inr v \<and> (v = 0 \<longleftrightarrow> s = t)"
proof (induction s arbitrary: a b t k)
  case Nil
  then show ?case by (cases k; cases t) (auto simp: cstr_at_simps unsigned_eq_0_iff)
next
  case (Cons c s)
  show ?case
  proof (cases k)
    case (Suc j)
    show ?thesis
    proof (cases t)
      case (Cons d u)
      then show ?thesis using Cons.IH [of "a + 1" "b + 1" u j] Cons.prems Suc Cons
        by (auto simp: cstr_at_simps word_uint_eq_iff)
    qed (use Cons.prems Suc in \<open>auto simp: cstr_at_simps unsigned_eq_0_iff\<close>)
  qed (use Cons.prems in auto)
qed

lemma strcpy_loop_ok:
  "cstr_at m b s \<Longrightarrow> length s < k \<Longrightarrow> a + length s < b \<or> b + length s < a \<Longrightarrow>
   strcpy_loop a b k m = Inr (moved a b (length s + 1) m)"
proof (induction s arbitrary: a b k m)
  case Nil
  then show ?case by (cases k) (auto simp: cstr_at_simps moved_def)
next
  case (Cons c s)
  obtain j where k: "k = Suc j" using Cons.prems by (cases k) auto
  have "cstr_at (m(a := c)) (b + 1) s" using Cons.prems by (auto simp: cstr_at_def)
  then have "strcpy_loop (a + 1) (b + 1) j (m(a := c)) = Inr (moved (a + 1) (b + 1) (length s + 1) (m(a := c)))"
    using Cons.IH [of "m(a := c)" "b + 1" j "a + 1"] Cons.prems k by (auto simp del: fun_upd_apply)
  moreover have "moved (a + 1) (b + 1) (length s + 1) (m(a := c)) = moved a b (length (c # s) + 1) m"
    using Cons.prems moved_first [of a b "length s + 1" m] by (auto simp: cstr_at_simps simp del: fun_upd_apply)
  ultimately show ?case using Cons.prems k by (simp add: cstr_at_simps Let_def)
qed

text \<open>\<open>strcat\<close> of two strings that do not overlap is their concatenation.\<close>

lemma strcat_ok:
  assumes "cstr_at m d s" "cstr_at m e t" "length s < str_fuel" "length t < str_fuel"
    "d + length s + length t < e \<or> e + length t < d"
  shows "\<exists>m'. strcat d e m = Inr (d, m') \<and> cstr_at m' d (s @ t) \<and>
    (\<forall>a. a < d + length s \<or> d + length s + length t < a \<longrightarrow> m' a = m a)"
proof -
  let ?m = "moved (d + length s) e (length t + 1) m"
  have apart: "d + length s + length t < e \<or> e + length t < d + length s" using assms(5) by linarith
  have "strlen_loop d 0 str_fuel m = Inr (length s)" using strlen_loop_ok [of m d 0 s str_fuel] assms(1,3) by simp
  moreover have "strcpy_loop (d + length s) e str_fuel m = Inr ?m" using strcpy_loop_ok [OF assms(2,4) apart] .
  ultimately have c: "strcat d e m = Inr (d, ?m)" by (simp add: strcat_def)
  have low: "?m (d + i) = s ! i" if "i < length s" for i
    using that assms(1) by (simp add: moved_def cstr_at_def)
  have high: "?m (d + (length s + j)) = m (e + j)" if "j \<le> length t" for j
    using that by (simp add: moved_def)
  have "?m (d + i) = (s @ t) ! i" if "i < length (s @ t)" for i
  proof (cases "i < length s")
    case False
    define j where "j = i - length s"
    have j: "i = length s + j" "j < length t" using that False by (simp_all add: j_def)
    then show ?thesis using high [of j] assms(2) by (simp add: nth_append cstr_at_def)
  qed (use low in \<open>simp add: nth_append\<close>)
  moreover have "?m (d + length (s @ t)) = 0" using high [of "length t"] assms(2) by (simp add: cstr_at_def)
  ultimately have "cstr_at ?m d (s @ t)" using assms(1,2) by (simp add: cstr_at_def)
  moreover have "\<forall>a. a < d + length s \<or> d + length s + length t < a \<longrightarrow> ?m a = m a" by (auto simp: moved_def)
  ultimately show ?thesis using c by blast
qed

section \<open>The blocks\<close>

text \<open>C33: \<open>memmove\<close> copies a block to a block that overlaps it in any way, \<open>memcpy\<close> to a block apart from it,
  \<open>memset\<close> fills exactly the bytes of its block whichever width of store it chooses, and comparing the
  two blocks with \<open>memcmp\<close> after a copy between separate blocks finds them equal. All other bytes stay as they were.\<close>

theorem blocks_copied:
  assumes "n \<noteq> 0" and apart: "dst + n \<le> src \<or> src + n \<le> dst"
  shows "memmove d s k m = (d, moved d s k m) \<and>
    memcpy dst src n m = (dst, moved dst src n m) \<and> memcmp dst src n (moved dst src n m) = 0 \<and>
    memset dst c n m = Inr (dst + n, filled dst n (ucast c) m)"
proof -
  have "memcmp dst src n (moved dst src n m) = 0" using apart by (auto simp: memcmp_zero moved_def)
  then show ?thesis using assms memmove_ok memcpy_ok [of dst src n m] memset_ok by auto
qed

theorem blocks_copied_witness:
  "map (snd (memmove 12 10 4 (\<lambda>a. of_nat a))) [10..<17] = [10, 11, 10, 11, 12, 13, 16] \<and>
   map (snd (memcpy 20 10 4 (\<lambda>a. of_nat a))) [19..<25] = [19, 10, 11, 12, 13, 24]"
  using blocks_copied [of 4 20 10 12 10 4 "\<lambda>a. of_nat a" 0] by (simp add: moved_def upt_rec)

end
