(* ===== verification/Fat32_Lfn.thy ===== *)
theory Fat32_Lfn
  imports Fat32_Layout
begin

text \<open>
  Long file names: the UTF-8 coding of \<open>external-code/unicode-utf8.c\<close> and the reading of the entries of a
  long name by \<open>fat32/fat32-lfn-helpers.c\<close>. A shift by a negative count, which C does not define, counts
  as an access out of bounds. The main result is that a code point is decoded from its coding.
\<close>

section \<open>UTF-8\<close>

record utf =
  utf_mask :: u8
  utf_lead :: u8
  utf_beg :: u32
  utf_end :: u32
  bits_stored :: nat

text \<open>The last entry is meant to end the table, but the loops stop at a null pointer, which it is not.\<close>

definition utf_tab :: "utf list" where
  "utf_tab =
    [\<lparr>utf_mask = 0x3f, utf_lead = 0x80, utf_beg = 0, utf_end = 0, bits_stored = 6\<rparr>,
     \<lparr>utf_mask = 0x7f, utf_lead = 0x00, utf_beg = 0, utf_end = 0x7f, bits_stored = 7\<rparr>,
     \<lparr>utf_mask = 0x1f, utf_lead = 0xc0, utf_beg = 0x80, utf_end = 0x7ff, bits_stored = 5\<rparr>,
     \<lparr>utf_mask = 0x0f, utf_lead = 0xe0, utf_beg = 0x800, utf_end = 0xffff, bits_stored = 4\<rparr>,
     \<lparr>utf_mask = 0x07, utf_lead = 0xf0, utf_beg = 0x10000, utf_end = 0x10ffff, bits_stored = 3\<rparr>,
     \<lparr>utf_mask = 0, utf_lead = 0, utf_beg = 0, utf_end = 0, bits_stored = 0\<rparr>]"

fun codepoint_loop :: "utf list \<Rightarrow> u32 \<Rightarrow> int \<Rightarrow> int res" where
  "codepoint_loop [] cp len = Inl OutOfBounds"
| "codepoint_loop (u # us) cp len =
     (if cp \<ge> utf_beg u \<and> cp \<le> utf_end u then Inr (if len > 4 then - 1 else len)
      else codepoint_loop us cp (len + 1))"

definition codepoint_len :: "u32 \<Rightarrow> int res" where
  "codepoint_len cp = codepoint_loop utf_tab cp 0"

fun utf8_loop :: "utf list \<Rightarrow> u8 \<Rightarrow> int \<Rightarrow> int res" where
  "utf8_loop [] ch len = Inl OutOfBounds"
| "utf8_loop (u # us) ch len =
     (if ch AND NOT (utf_mask u) = utf_lead u then Inr (if len > 4 then - 1 else len)
      else utf8_loop us ch (len + 1))"

definition utf8_len :: "u8 \<Rightarrow> int res" where
  "utf8_len ch = utf8_loop utf_tab ch 0"

text \<open>One byte: the bits of the code point from \<open>shift\<close> on under a mask, with the lead bits.\<close>

definition utf_byte :: "utf \<Rightarrow> u32 \<Rightarrow> nat \<Rightarrow> u8" where
  "utf_byte u cp shift = (ucast (drop_bit shift cp) AND utf_mask u) OR utf_lead u"

fun utf_rest :: "u32 \<Rightarrow> nat \<Rightarrow> u8 list" where
  "utf_rest cp 0 = []"
| "utf_rest cp (Suc n) = utf_byte (utf_tab ! 0) cp (6 * n) # utf_rest cp n"

text \<open>The bytes in the buffer up to the terminator; \<open>None\<close> is a null pointer.\<close>

definition to_utf8 :: "u32 \<Rightarrow> u8 list option res" where
  "to_utf8 cp =
     bind_r (codepoint_len cp) (\<lambda>bytes.
       if bytes < 0 then Inr None
       else if bytes = 0 then Inl OutOfBounds
       else let n = nat bytes - 1
            in Inr (Some (utf_byte (utf_tab ! nat bytes) cp (6 * n) # utf_rest cp n)))"

fun cp_rest :: "u8 list \<Rightarrow> nat \<Rightarrow> u32 \<Rightarrow> u32 res" where
  "cp_rest bs 0 codep = Inr codep"
| "cp_rest [] (Suc n) codep = Inl OutOfBounds"
| "cp_rest (b # bs) (Suc n) codep =
     cp_rest bs n (codep OR push_bit (6 * n) (ucast (b AND utf_mask (utf_tab ! 0))))"

definition to_cp :: "u8 list \<Rightarrow> u32 res" where
  "to_cp chr =
     bind_r (arr_get chr 0) (\<lambda>b.
     bind_r (utf8_len b) (\<lambda>bytes.
       if bytes < 0 then Inr 0
       else if bytes = 0 then Inl OutOfBounds
       else let n = nat bytes - 1
            in cp_rest (tl chr) n (push_bit (6 * n) (ucast (b AND utf_mask (utf_tab ! nat bytes))))))"

section \<open>Long names\<close>

record lfn_dir =
  seqno :: u8
  name1_5 :: "u8 list"
  lfn_attr :: u8
  lfn_cksum :: u8
  name6_11 :: "u8 list"
  name12_13 :: "u8 list"

text \<open>An entry of the directory read as an entry of a long name.\<close>

definition lfn_of :: "fat32_dirent \<Rightarrow> lfn_dir" where
  "lfn_of d = (let b = dirent_bytes d in
     \<lparr>seqno = b ! 0, name1_5 = take 10 (drop 1 b), lfn_attr = b ! 11, lfn_cksum = b ! 13,
      name6_11 = take 12 (drop 14 b), name12_13 = take 4 (drop 28 b)\<rparr>)"

definition lfn_is_last :: "u8 \<Rightarrow> bool" where
  "lfn_is_last n \<longleftrightarrow> n AND push_bit 6 1 \<noteq> 0"

definition lfn_is_first :: "u8 \<Rightarrow> bool" where
  "lfn_is_first n \<longleftrightarrow> n AND NOT (push_bit 6 1) = 1"

definition fat32_dirent_is_deleted_lfn :: "fat32_dirent \<Rightarrow> bool res" where
  "fat32_dirent_is_deleted_lfn d =
     bind_r (assert_r (d_attr d = 0x0f)) (\<lambda>_. Inr (lfn_is_deleted (seqno (lfn_of d))))"

definition lfn_checksum :: "u8 list \<Rightarrow> u8 res" where
  "lfn_checksum name =
     (if length name < 11 then Inl OutOfBounds
      else Inr (foldl (\<lambda>sum b. push_bit 7 (sum AND 1) + drop_bit 1 sum + b) 0 (take 11 name)))"

definition lfn_terminator :: "u8 \<Rightarrow> u8 \<Rightarrow> bool" where
  "lfn_terminator x y \<longleftrightarrow> x = 0 \<and> y = 0 \<or> x = 0xff \<and> y = 0xff"

text \<open>
  The characters of one part of an entry; \<open>buf\<close> is what the name has so far and the buffer has 512 bytes.
\<close>

fun append_loop :: "u8 list \<Rightarrow> u8 list \<Rightarrow> u8 list res" where
  "append_loop buf (x # y # us) =
     (if lfn_terminator x y then Inr buf
      else bind_r (to_utf8 (ucast x OR push_bit 8 (ucast y))) (\<lambda>r.
        case r of None \<Rightarrow> Inl OutOfBounds
        | Some bs \<Rightarrow> if length (buf @ bs) < 512 then append_loop (buf @ bs) us else Inl OutOfBounds))"
| "append_loop buf [] = Inr buf"
| "append_loop buf [x] = Inl OutOfBounds"

definition utf8_append :: "u8 list \<Rightarrow> u8 list \<Rightarrow> u8 list res" where
  "utf8_append buf us = bind_r (assert_r (length us mod 2 = 0)) (\<lambda>_. append_loop buf us)"

definition lfn_part :: "lfn_dir \<Rightarrow> u8 list \<Rightarrow> u8 list res" where
  "lfn_part l buf =
     bind_r (assert_r (lfn_attr l = 0x0f)) (\<lambda>_.
     bind_r (utf8_append buf (name1_5 l)) (\<lambda>b1.
     bind_r (utf8_append b1 (name6_11 l)) (\<lambda>b2.
       utf8_append b2 (name12_13 l))))"

text \<open>The entries come with the last part of the name first.\<close>

fun lfn_parts :: "lfn_dir list \<Rightarrow> u8 list \<Rightarrow> u8 list res" where
  "lfn_parts [] buf = Inr buf"
| "lfn_parts (l # ls) buf = bind_r (lfn_part l buf) (lfn_parts ls)"

definition lfn_get_name :: "lfn_dir list \<Rightarrow> u8 list res" where
  "lfn_get_name s = lfn_parts (rev s) []"

fun lfn_count :: "fat32_dirent list \<Rightarrow> nat" where
  "lfn_count [] = 0"
| "lfn_count (d # ds) = (if d_attr d = 0x0f then Suc (lfn_count ds) else 0)"

text \<open>The checks of the printing functions, which stop the kernel at entries that do not form one name.\<close>

fun lfn_check :: "u8 \<Rightarrow> lfn_dir list \<Rightarrow> unit res" where
  "lfn_check cksum [] = Inr ()"
| "lfn_check cksum (l # ls) =
     bind_r (assert_r (\<not> lfn_is_deleted (seqno l))) (\<lambda>_.
     bind_r (assert_r (lfn_cksum l = cksum)) (\<lambda>_. lfn_check cksum ls))"

definition lfn_print :: "lfn_dir list \<Rightarrow> u8 \<Rightarrow> unit res" where
  "lfn_print s cksum =
     bind_r (assert_r (s \<noteq> [])) (\<lambda>_.
     bind_r (demand_r (length s < 3) ''weird for cs140e if larger!'') (\<lambda>_.
     bind_r (lfn_check cksum s) (\<lambda>_.
     bind_r (assert_r (lfn_is_last (seqno (hd s)))) (\<lambda>_.
       assert_r (lfn_is_first (seqno (last s)))))))"

text \<open>The number of entries to advance.\<close>

definition fat32_lfn_print :: "fat32_dirent list \<Rightarrow> nat res" where
  "fat32_lfn_print ds =
     (case ds of [] \<Rightarrow> Inl OutOfBounds
      | d # _ \<Rightarrow>
        if d_attr d \<noteq> 0x0f then Inr 1
        else let cnt = lfn_count ds in
             bind_r (assert_r (cnt < length ds)) (\<lambda>_.
             let y = ucast (d_attr (ds ! cnt)) in
             bind_r (assert_r (fat32_is_attr y 0x10 \<or> fat32_is_attr y 0x20)) (\<lambda>_.
             bind_r (lfn_checksum (filename (ds ! cnt))) (\<lambda>cksum.
             bind_r (lfn_print (map lfn_of (take cnt ds)) cksum) (\<lambda>_.
             bind_r (lfn_get_name (map lfn_of (take cnt ds))) (\<lambda>_. Inr (cnt + 1)))))))"

definition lower :: "bool \<Rightarrow> u8 \<Rightarrow> u8" where
  "lower p c = (if p \<and> 65 \<le> c \<and> c \<le> 90 then c + 32 else c)"

definition short_name :: "fat32_dirent \<Rightarrow> u8 list" where
  "short_name d =
     (let p = reserved0 d = 0x18 in
      map (lower p) (filter (\<lambda>c. c \<noteq> 32) (take 8 (filename d))) @ [46] @ map (lower p) (take 3 (drop 8 (filename d))))"

text \<open>
  The name that starts at the first entry of \<open>ds\<close>, the entries up to the end of the directory, and the
  number of entries to the one that describes the file.
\<close>

definition fat32_dir_filename :: "fat32_dirent list \<Rightarrow> (u8 list \<times> nat) res" where
  "fat32_dir_filename ds =
     (case ds of [] \<Rightarrow> Inl OutOfBounds
      | d # _ \<Rightarrow>
        bind_r (assert_r (\<not> fat32_dirent_free d)) (\<lambda>_.
        let x = ucast (d_attr d) in
        if x = 0x0f
        then let cnt = lfn_count ds in
             bind_r (assert_r (cnt < length ds)) (\<lambda>_.
             let y = ucast (d_attr (ds ! cnt)) in
             bind_r (assert_r (fat32_is_attr y 0x10 \<or> fat32_is_attr y 0x20)) (\<lambda>_.
             bind_r (lfn_get_name (map lfn_of (take cnt ds))) (\<lambda>name. Inr (name, cnt))))
        else bind_r (assert_r (fat32_is_attr x 0x10 \<or> fat32_is_attr x 0x20 \<or> fat32_is_attr x 0x08)) (\<lambda>_.
             Inr (short_name d, 0))))"

section \<open>The coding can be undone\<close>

lemma high_bits_clear: "unat (cp :: u32) < 2 ^ k \<Longrightarrow> k \<le> n \<Longrightarrow> \<not> bit cp n"
proof -
  assume a: "unat cp < 2 ^ k" "k \<le> n"
  have "unat cp < 2 ^ n" using a by (meson order_less_le_trans one_le_numeral power_increasing)
  then have "\<not> bit (unat cp) n" by (simp add: bit_iff_odd)
  then show "\<not> bit cp n" by (auto simp: bit_unsigned_iff dest: bit_imp_le_length)
qed

lemma u8_eq: "(x :: u8) = y \<longleftrightarrow> (\<forall>n < 8. bit x n = bit y n)"
  by (auto intro: bit_word_eqI)

lemma u32_eq: "(x :: u32) = y \<longleftrightarrow> (\<forall>n < 32. bit x n = bit y n)"
  by (auto intro: bit_word_eqI)

lemma utf8_len_lead:
  "utf8_len (x AND 0x7f) = Inr 1" "utf8_len ((x AND 0x1f) OR 0xc0) = Inr 2"
  "utf8_len ((x AND 0x0f) OR 0xe0) = Inr 3" "utf8_len ((x AND 0x07) OR 0xf0) = Inr 4"
  by (simp_all add: utf8_len_def utf_tab_def u8_eq All_less_Suc bit_simps numeral_eq_Suc)

lemma codepoint_len_range:
  "1 \<le> cp \<Longrightarrow> cp \<le> 0x7f \<Longrightarrow> codepoint_len cp = Inr 1"
  "0x80 \<le> cp \<Longrightarrow> cp \<le> 0x7ff \<Longrightarrow> codepoint_len cp = Inr 2"
  "0x800 \<le> cp \<Longrightarrow> cp \<le> 0xffff \<Longrightarrow> codepoint_len cp = Inr 3"
  "0x10000 \<le> cp \<Longrightarrow> cp \<le> 0x10ffff \<Longrightarrow> codepoint_len cp = Inr 4"
  by (auto simp: codepoint_len_def utf_tab_def word_le_nat_alt)

lemma utf_masks: "(0x7f :: u8) = mask 7" "(0x3f :: u8) = mask 6" "(0x1f :: u8) = mask 5" "(0x0f :: u8) = mask 4" "(0x07 :: u8) = mask 3"
  by (simp_all add: mask_eq_exp_minus_1)

text \<open>The bits of a code point, cut out in groups and put together again.\<close>

lemma group_bits:
  "k \<le> 7 \<Longrightarrow> push_bit s (ucast ((ucast (drop_bit s cp) :: u8) AND mask k)) = (push_bit s (take_bit k (drop_bit s cp)) :: u32)"
  by (rule bit_word_eqI) (auto simp: bit_simps)

lemma take_split: "push_bit s (take_bit k (drop_bit s cp)) OR take_bit s cp = (take_bit (s + k) cp :: u32)"
  by (rule bit_word_eqI) (auto simp: bit_simps)

lemma take_all: "unat (cp :: u32) < 2 ^ k \<Longrightarrow> take_bit k cp = cp"
proof (rule bit_word_eqI)
  fix n assume "unat cp < 2 ^ k"
  then show "bit (take_bit k cp) n = bit cp n" using high_bits_clear [of cp k n] by (cases "k \<le> n") (auto simp: bit_simps)
qed

text \<open>What the decoder keeps of a byte is the group the coder put there.\<close>

lemma lead_dropped:
  "((x AND 0x1f) OR 0xc0) AND 0x1f = (x AND 0x1f :: u8)" "((x AND 0x0f) OR 0xe0) AND 0x0f = (x AND 0x0f :: u8)"
  "((x AND 0x07) OR 0xf0) AND 0x07 = (x AND 0x07 :: u8)" "((x AND 0x3f) OR 0x80) AND 0x3f = (x AND 0x3f :: u8)"
  "(x AND 0x7f) AND 0x7f = (x AND 0x7f :: u8)"
  by (simp_all add: u8_eq All_less_Suc bit_simps numeral_eq_Suc)

lemmas lead_gone = lead_dropped [unfolded utf_masks]

lemma lead_not_zero: "(x OR 0xc0 :: u8) \<noteq> 0" "(x OR 0xe0 :: u8) \<noteq> 0" "(x OR 0xf0 :: u8) \<noteq> 0" "(x OR 0x80 :: u8) \<noteq> 0"
  by (simp_all add: u8_eq All_less_Suc Ex_less_Suc bit_simps numeral_eq_Suc)

text \<open>The continuation bytes give the low bits back.\<close>

lemma cp_rest_ok: "cp_rest (utf_rest cp n) n c = Inr (c OR take_bit (6 * n) cp)"
proof (induction n arbitrary: c)
  case (Suc n)
  have "push_bit (6 * n) (ucast (utf_byte (utf_tab ! 0) cp (6 * n) AND utf_mask (utf_tab ! 0))) OR take_bit (6 * n) cp
      = take_bit (6 * n + 6) cp"
    by (simp add: utf_byte_def utf_tab_def utf_masks lead_gone group_bits take_split)
  then show ?case by (simp add: Suc.IH or.assoc add.commute)
qed simp

lemma utf_rest_shape: "length (utf_rest cp n) = n \<and> 0 \<notin> set (utf_rest cp n)"
  by (induction n) (auto simp: utf_byte_def utf_tab_def lead_not_zero [symmetric] dest!: sym [of 0])

lemma put_together: "s + k = m \<Longrightarrow> unat cp < 2 ^ m \<Longrightarrow> push_bit s (take_bit k (drop_bit s cp)) OR take_bit s cp = (cp :: u32)"
  using take_split take_all by metis

text \<open>The round trip for a code point of \<open>Suc n\<close> bytes, from what the entry of that length in the table has.\<close>

lemma coded:
  assumes len: "codepoint_len cp = Inr (int (Suc n))" and u: "utf_tab ! Suc n = u"
    and mask: "utf_mask u = mask k" "k \<le> 7"
    and lead: "\<And>x. utf8_len ((x AND utf_mask u) OR utf_lead u) = Inr (int (Suc n))"
      "\<And>x. ((x AND utf_mask u) OR utf_lead u) AND utf_mask u = x AND utf_mask u"
    and fits: "unat cp < 2 ^ (6 * n + k)" and nz: "utf_byte u cp (6 * n) \<noteq> 0"
  shows "\<exists>bs. to_utf8 cp = Inr (Some bs) \<and> to_cp bs = Inr cp \<and> 0 \<notin> set bs \<and> length bs = n + 1"
proof -
  have [simp]: "nat (1 + int n) = Suc n" by simp
  have "to_utf8 cp = Inr (Some (utf_byte u cp (6 * n) # utf_rest cp n))"
    using len u by (simp add: to_utf8_def res_simps)
  moreover have "to_cp (utf_byte u cp (6 * n) # utf_rest cp n) = Inr cp"
    using u mask lead put_together [OF refl fits] group_bits [OF mask(2), of "6 * n" cp]
    by (simp add: to_cp_def arr_get_def utf_byte_def cp_rest_ok res_simps)
  ultimately show ?thesis using utf_rest_shape [of cp n] nz by auto
qed

text \<open>C34: Every Unicode code point but zero has a UTF-8 coding of one to four bytes, free of the terminator, and
  decoding it gives the code point back; the length is the one the standard gives to its range.\<close>

theorem utf8_roundtrip:
  assumes "1 \<le> cp" "cp \<le> 0x10ffff"
  shows "\<exists>bs. to_utf8 cp = Inr (Some bs) \<and> to_cp bs = Inr cp \<and> 0 \<notin> set bs
    \<and> length bs = (if cp < 0x80 then 1 else if cp < 0x800 then 2 else if cp < 0x10000 then 3 else 4)"
proof -
  note facts = codepoint_len_range utf8_len_lead lead_dropped utf_tab_def utf_byte_def lead_not_zero word_le_nat_alt
  have "cp \<le> 0x7f \<or> 0x80 \<le> cp \<and> cp \<le> 0x7ff \<or> 0x800 \<le> cp \<and> cp \<le> 0xffff \<or> 0x10000 \<le> cp"
    by (simp add: word_le_nat_alt) linarith
  then consider "cp \<le> 0x7f" | "0x80 \<le> cp" "cp \<le> 0x7ff" | "0x800 \<le> cp" "cp \<le> 0xffff" | "0x10000 \<le> cp"
    by blast
  then show ?thesis
  proof cases
    case 1
    then have "unat cp < 2 ^ 7" by (simp add: word_le_nat_alt)
    then have "ucast ((ucast cp :: u8) AND 0x7f) = cp"
      using put_together [of 0 7 7 cp] group_bits [of 7 0 cp] by (simp add: utf_masks)
    then have nz: "ucast cp AND (0x7f :: u8) \<noteq> 0" using assms(1) by auto
    show ?thesis using 1 assms nz coded [of cp 0 "utf_tab ! 1" 7]
      by (simp add: facts mask_eq_exp_minus_1 word_less_nat_alt flip: numeral_2_eq_2)
  next
    case 2
    then show ?thesis using coded [of cp 1 "utf_tab ! 2" 5]
      by (simp add: facts mask_eq_exp_minus_1 word_less_nat_alt flip: numeral_2_eq_2)
  next
    case 3
    then show ?thesis using coded [of cp 2 "utf_tab ! 3" 4]
      by (simp add: facts mask_eq_exp_minus_1 word_less_nat_alt flip: numeral_2_eq_2)
  next
    case 4
    then show ?thesis using assms coded [of cp 3 "utf_tab ! 4" 3]
      by (simp add: facts mask_eq_exp_minus_1 word_less_nat_alt flip: numeral_2_eq_2)
  qed
qed

theorem utf8_roundtrip_witness:
  "to_utf8 0x20ac = Inr (Some [0xe2, 0x82, 0xac]) \<and> to_cp [0xe2, 0x82, 0xac] = Inr 0x20ac"
proof -
  have "to_utf8 0x20ac = Inr (Some [0xe2, 0x82, 0xac])" by code_simp
  then show ?thesis using utf8_roundtrip [of "0x20ac"] by (auto simp: word_le_nat_alt)
qed

end
