(* ===== verification/Emmc.thy ===== *)
theory Emmc
  imports Device_Io
begin

text \<open>
  The driver of the SD host controller, \<open>external-code/emmc.c\<close> and \<open>emmc.h\<close>: clock, commands, transfers,
  the identification of the card and the reads and writes of blocks. The static variable \<open>device\<close> is passed
  along as the record \<open>emmc_device\<close>; its field \<open>buffer\<close> holds the words of the memory that the pointer of
  the source names. Messages are left out, \<open>EMMC_DEBUG\<close> is 0 in the sources.
\<close>

section \<open>Registers\<close>

definition EMMC_BASE :: u32 where "EMMC_BASE = 0x20300000"
definition BLKSIZECNT :: u32 where "BLKSIZECNT = EMMC_BASE + 0x04"
definition ARG1 :: u32 where "ARG1 = EMMC_BASE + 0x08"
definition CMDTM :: u32 where "CMDTM = EMMC_BASE + 0x0c"
definition RESP0 :: u32 where "RESP0 = EMMC_BASE + 0x10"
definition DATA :: u32 where "DATA = EMMC_BASE + 0x20"
definition CONTROL1 :: u32 where "CONTROL1 = EMMC_BASE + 0x2c"
definition INT_FLAGS :: u32 where "INT_FLAGS = EMMC_BASE + 0x30"
definition INT_MASK :: u32 where "INT_MASK = EMMC_BASE + 0x34"
definition INT_ENABLE :: u32 where "INT_ENABLE = EMMC_BASE + 0x38"
definition CONTROL2 :: u32 where "CONTROL2 = EMMC_BASE + 0x3c"

lemmas emmc_regs = EMMC_BASE_def BLKSIZECNT_def ARG1_def CMDTM_def RESP0_def DATA_def CONTROL1_def INT_FLAGS_def
  INT_MASK_def INT_ENABLE_def CONTROL2_def

fun wait_loop :: "'d hw \<Rightarrow> u32 \<Rightarrow> u32 \<Rightarrow> bool \<Rightarrow> nat \<Rightarrow> ('d, bool) io" where
  "wait_loop hw reg bits on 0 = io_ret False"
| "wait_loop hw reg bits on (Suc n) =
     io_bind (io_get32 hw reg) (\<lambda>v.
       if (v AND bits \<noteq> 0) = on then io_ret True
       else io_bind (delay_us hw 100) (\<lambda>_. wait_loop hw reg bits on n))"

definition wait_reg_mask :: "'d hw \<Rightarrow> u32 \<Rightarrow> u32 \<Rightarrow> bool \<Rightarrow> u32 \<Rightarrow> ('d, bool) io" where
  "wait_reg_mask hw reg bits on timeout = wait_loop hw reg bits on (unat (timeout * 10) + 1)"

section \<open>Clock\<close>

definition SD_CLOCK_HIGH :: u32 where "SD_CLOCK_HIGH = 50000000"

fun high_bit :: "u32 \<Rightarrow> nat \<Rightarrow> nat option" where
  "high_bit t 0 = None"
| "high_bit t (Suc fb) = (if bit t fb then Some fb else high_bit t fb)"

definition get_clock_divider :: "u32 \<Rightarrow> u32" where
  "get_clock_divider base_clock =
     (let target_div = (if SD_CLOCK_HIGH \<le> base_clock
                        then if base_clock mod SD_CLOCK_HIGH \<noteq> 0 then 0 else base_clock div SD_CLOCK_HIGH
                        else 1);
          d0 = (case high_bit target_div 32 of
                  None \<Rightarrow> 31
                | Some fb \<Rightarrow> if target_div AND NOT (push_bit fb 1) \<noteq> 0 then fb + 1 else fb);
          d1 = (if d0 \<ge> 32 then 31 else d0);
          d2 = (if d1 \<noteq> 0 then push_bit (d1 - 1) 1 else 0 :: u32);
          d3 = (if d2 \<ge> 0x400 then 0x3FF else d2)
      in push_bit 8 (d3 AND 0xff) OR push_bit 6 (drop_bit 8 d3 AND 3))"

definition emmc_setup_clock :: "'d hw \<Rightarrow> ('d, bool) io" where
  "emmc_setup_clock hw =
     io_bind (io_put32 hw CONTROL2 0) (\<lambda>_.
     io_bind (io_get32 hw CONTROL1) (\<lambda>n.
     io_bind (io_put32 hw CONTROL1
       ((((n OR 1) OR get_clock_divider 250000000) AND NOT (push_bit 16 0xf)) OR push_bit 16 11)) (\<lambda>_.
     io_bind (wait_reg_mask hw CONTROL1 2 True 2000) (\<lambda>ok.
       if \<not> ok then io_ret False
       else
         io_bind (delay_ms hw 30) (\<lambda>_.
         io_bind (io_get32 hw CONTROL1) (\<lambda>c.
         io_bind (io_put32 hw CONTROL1 (c OR 4)) (\<lambda>_.
         io_bind (delay_ms hw 30) (\<lambda>_. io_ret True))))))))"

section \<open>Commands\<close>

record emmc_cmd =
  resp_a :: "1 word"
  block_count :: "1 word"
  auto_command :: "2 word"
  direction :: "1 word"
  multiblock :: "1 word"
  resp_b :: "10 word"
  response_type :: "2 word"
  cmd_res0 :: "1 word"
  crc_enable :: "1 word"
  idx_enable :: "1 word"
  is_data :: "1 word"
  cmd_type :: "2 word"
  cmd_index :: "6 word"
  cmd_res1 :: "2 word"

text \<open>The word of the bit fields, the first one in the lowest bit.\<close>

definition TO_REG :: "emmc_cmd \<Rightarrow> u32" where
  "TO_REG c = ucast (resp_a c) OR push_bit 1 (ucast (block_count c)) OR push_bit 2 (ucast (auto_command c)) OR
     push_bit 4 (ucast (direction c)) OR push_bit 5 (ucast (multiblock c)) OR push_bit 6 (ucast (resp_b c)) OR
     push_bit 16 (ucast (response_type c)) OR push_bit 18 (ucast (cmd_res0 c)) OR push_bit 19 (ucast (crc_enable c)) OR
     push_bit 20 (ucast (idx_enable c)) OR push_bit 21 (ucast (is_data c)) OR push_bit 22 (ucast (cmd_type c)) OR
     push_bit 24 (ucast (cmd_index c)) OR push_bit 30 (ucast (cmd_res1 c))"

definition RT136 :: "2 word" where "RT136 = 1"
definition RT48 :: "2 word" where "RT48 = 2"
definition RT48Busy :: "2 word" where "RT48Busy = 3"

definition INVALID_CMD :: emmc_cmd where
  "INVALID_CMD = \<lparr>resp_a = 1, block_count = 1, auto_command = 3, direction = 1, multiblock = 1, resp_b = 0xF, response_type = 3,
     cmd_res0 = 1, crc_enable = 1, idx_enable = 1, is_data = 1, cmd_type = 3, cmd_index = 0xF, cmd_res1 = 3\<rparr>"

text \<open>A row of the table: response, CRC check and index; the data commands add direction and blocks.\<close>

definition plain_cmd :: "2 word \<Rightarrow> 1 word \<Rightarrow> 6 word \<Rightarrow> emmc_cmd" where
  "plain_cmd rt crc i = \<lparr>resp_a = 0, block_count = 0, auto_command = 0, direction = 0, multiblock = 0, resp_b = 0, response_type = rt,
     cmd_res0 = 0, crc_enable = crc, idx_enable = 0, is_data = 0, cmd_type = 0, cmd_index = i, cmd_res1 = 0\<rparr>"

definition data_cmd :: "1 word \<Rightarrow> 6 word \<Rightarrow> emmc_cmd" where
  "data_cmd dir i = (plain_cmd RT48 1 i)\<lparr>direction := dir, is_data := 1\<rparr>"

definition multi_cmd :: "1 word \<Rightarrow> 6 word \<Rightarrow> emmc_cmd" where
  "multi_cmd dir i = (data_cmd dir i)\<lparr>block_count := 1, auto_command := 1, multiblock := 1\<rparr>"

definition commands :: "emmc_cmd list" where
  "commands =
    [plain_cmd 0 0 0, INVALID_CMD, plain_cmd RT136 1 2, plain_cmd RT48 1 3, plain_cmd 0 0 4, plain_cmd RT136 0 5,
     plain_cmd RT48 1 6, plain_cmd RT48Busy 1 7, plain_cmd RT48 1 8, plain_cmd RT136 1 9] @
    replicate 6 INVALID_CMD @
    [plain_cmd RT48 1 16, data_cmd 1 17, multi_cmd 1 18] @
    replicate 5 INVALID_CMD @
    [data_cmd 0 24, multi_cmd 0 25] @
    replicate 15 INVALID_CMD @
    [plain_cmd RT48 0 41] @
    replicate 9 INVALID_CMD @
    [data_cmd 1 51] @
    replicate 3 INVALID_CMD @
    [plain_cmd RT48 1 55]"

record emmc_device =
  last_success :: bool
  transfer_blocks :: u32
  last_command :: emmc_cmd
  last_command_value :: u32
  block_size :: u32
  last_response :: "u32 list"
  sdhc :: bool
  ocr :: u16
  rca :: u32
  buffer :: "u32 list"
  base_clock :: u32
  last_error :: u32
  last_interrupt :: u32
  scr :: "u32 list"
  scr_version :: u32

definition sd_error_mask :: "nat \<Rightarrow> u32" where
  "sd_error_mask err = push_bit (16 + err) 1"

definition set_last_error :: "u32 \<Rightarrow> emmc_device \<Rightarrow> emmc_device" where
  "set_last_error intr_val dev = dev\<lparr>last_error := intr_val AND 0xFFFF0000, last_interrupt := intr_val\<rparr>"

subsection \<open>Transfer of data\<close>

fun send_words :: "'d hw \<Rightarrow> u32 list \<Rightarrow> nat \<Rightarrow> nat \<Rightarrow> ('d, unit) io" where
  "send_words hw buf i 0 = io_ret ()"
| "send_words hw buf i (Suc n) =
     io_bind (io_res (arr_get buf i)) (\<lambda>w.
     io_bind (io_put32 hw DATA w) (\<lambda>_. send_words hw buf (Suc i) n))"

fun recv_words :: "'d hw \<Rightarrow> u32 list \<Rightarrow> nat \<Rightarrow> nat \<Rightarrow> ('d, u32 list) io" where
  "recv_words hw buf i 0 = io_ret buf"
| "recv_words hw buf i (Suc n) =
     io_bind (io_get32 hw DATA) (\<lambda>w.
     io_bind (io_res (arr_set buf i w)) (\<lambda>buf'. recv_words hw buf' (Suc i) n))"

text \<open>
  A block whose length is not a multiple of four would let the unsigned counter run below zero and the
  loop beyond the buffer.
\<close>

definition xfer_block :: "'d hw \<Rightarrow> bool \<Rightarrow> nat \<Rightarrow> emmc_device \<Rightarrow> ('d, emmc_device) io" where
  "xfer_block hw wr i dev =
     (let n = unat (block_size dev) div 4 in
      if unat (block_size dev) mod 4 \<noteq> 0 then io_res (Inl OutOfBounds)
      else if wr then io_bind (send_words hw (buffer dev) i n) (\<lambda>_. io_ret dev)
      else io_bind (recv_words hw (buffer dev) i n) (\<lambda>buf. io_ret (dev\<lparr>buffer := buf\<rparr>)))"

fun transfer_loop :: "'d hw \<Rightarrow> u32 \<Rightarrow> bool \<Rightarrow> nat \<Rightarrow> nat \<Rightarrow> emmc_device \<Rightarrow> ('d, bool \<times> emmc_device) io" where
  "transfer_loop hw wrIrpt wr i 0 dev = io_ret (True, dev)"
| "transfer_loop hw wrIrpt wr i (Suc n) dev =
     io_bind (wait_reg_mask hw INT_FLAGS (wrIrpt OR 0x8000) True 2000) (\<lambda>_.
     io_bind (io_get32 hw INT_FLAGS) (\<lambda>intr_val.
     io_bind (io_put32 hw INT_FLAGS (wrIrpt OR 0x8000)) (\<lambda>_.
       if intr_val AND (0xffff0000 OR wrIrpt) \<noteq> wrIrpt then io_ret (False, set_last_error intr_val dev)
       else io_bind (xfer_block hw wr i dev) (\<lambda>dev'.
            transfer_loop hw wrIrpt wr (i + unat (block_size dev) div 4) n dev'))))"

definition do_data_transfer :: "'d hw \<Rightarrow> emmc_cmd \<Rightarrow> emmc_device \<Rightarrow> ('d, bool \<times> emmc_device) io" where
  "do_data_transfer hw cmd dev =
     (if direction cmd \<noteq> 0 then transfer_loop hw 0x20 False 0 (unat (transfer_blocks dev)) dev
      else transfer_loop hw 0x10 True 0 (unat (transfer_blocks dev)) dev)"

subsection \<open>Issuing a command\<close>

fun cmd_wait :: "'d hw \<Rightarrow> nat \<Rightarrow> ('d, bool) io" where
  "cmd_wait hw 0 = io_ret False"
| "cmd_wait hw (Suc n) =
     io_bind (io_get32 hw INT_FLAGS) (\<lambda>reg.
       if reg AND 0x8001 \<noteq> 0 then io_ret True
       else io_bind (delay_ms hw 1) (\<lambda>_. cmd_wait hw n))"

definition read_response :: "'d hw \<Rightarrow> emmc_cmd \<Rightarrow> emmc_device \<Rightarrow> ('d, emmc_device) io" where
  "read_response hw cmd dev =
     (if response_type cmd = RT48 \<or> response_type cmd = RT48Busy
      then io_bind (io_get32 hw RESP0) (\<lambda>r. io_ret (dev\<lparr>last_response := (last_response dev)[0 := r]\<rparr>))
      else if response_type cmd = RT136
      then io_bind (io_get32 hw RESP0) (\<lambda>r0.
           io_bind (io_get32 hw (RESP0 + 4)) (\<lambda>r1.
           io_bind (io_get32 hw (RESP0 + 8)) (\<lambda>r2.
           io_bind (io_get32 hw (RESP0 + 12)) (\<lambda>r3.
           io_ret (dev\<lparr>last_response := [r0, r1, r2, r3]\<rparr>)))))
      else io_ret dev)"

text \<open>The result of \<open>do_data_transfer\<close> is not looked at.\<close>

definition finish_command :: "'d hw \<Rightarrow> emmc_cmd \<Rightarrow> emmc_device \<Rightarrow> ('d, bool \<times> emmc_device) io" where
  "finish_command hw cmd dev =
     io_bind (if is_data cmd \<noteq> 0 then io_bind (do_data_transfer hw cmd dev) (\<lambda>(_, dev'). io_ret dev') else io_ret dev) (\<lambda>dev.
       if response_type cmd = RT48Busy \<or> is_data cmd \<noteq> 0
       then io_bind (wait_reg_mask hw INT_FLAGS 0x8002 True 2000) (\<lambda>_.
            io_bind (io_get32 hw INT_FLAGS) (\<lambda>intr_val.
            io_bind (io_put32 hw INT_FLAGS 0xFFFF0002) (\<lambda>_.
              if intr_val AND 0xFFFF0002 \<noteq> 2 \<and> intr_val AND 0xFFFF0002 \<noteq> 0x100002
              then io_ret (False, set_last_error intr_val dev)
              else io_bind (io_put32 hw INT_FLAGS 0xFFFF0002) (\<lambda>_. io_ret (True, dev\<lparr>last_success := True\<rparr>)))))
       else io_ret (True, dev\<lparr>last_success := True\<rparr>))"

definition emmc_issue_command :: "'d hw \<Rightarrow> emmc_cmd \<Rightarrow> u32 \<Rightarrow> u32 \<Rightarrow> emmc_device \<Rightarrow> ('d, bool \<times> emmc_device) io" where
  "emmc_issue_command hw cmd arg timeout dev0 =
     (let dev = dev0\<lparr>last_command_value := TO_REG cmd\<rparr> in
      if transfer_blocks dev > 0xFFFF then io_ret (False, dev)
      else
        io_bind (io_put32 hw BLKSIZECNT (block_size dev OR push_bit 16 (transfer_blocks dev))) (\<lambda>_.
        io_bind (io_put32 hw ARG1 arg) (\<lambda>_.
        io_bind (io_put32 hw CMDTM (TO_REG cmd)) (\<lambda>_.
        io_bind (cmd_wait hw (unat timeout)) (\<lambda>ok.
          if \<not> ok then io_ret (False, dev\<lparr>last_success := False\<rparr>)
          else
            io_bind (io_get32 hw INT_FLAGS) (\<lambda>intr_val.
            io_bind (io_put32 hw INT_FLAGS 0xFFFF0001) (\<lambda>_.
              if intr_val AND 0xFFFF0001 \<noteq> 1
              then io_ret (False, (set_last_error intr_val dev)\<lparr>last_success := False\<rparr>)
              else io_bind (read_response hw cmd dev) (finish_command hw cmd))))))))"

definition emmc_command :: "'d hw \<Rightarrow> u32 \<Rightarrow> u32 \<Rightarrow> u32 \<Rightarrow> emmc_device \<Rightarrow> ('d, bool \<times> emmc_device) io" where
  "emmc_command hw command arg timeout dev =
     (if command AND 0x80000000 \<noteq> 0 then io_ret (False, dev)
      else io_bind (io_res (arr_get commands (unat command))) (\<lambda>cmd.
           let dev' = dev\<lparr>last_command := cmd\<rparr> in
           if TO_REG cmd = TO_REG INVALID_CMD then io_ret (False, dev')
           else emmc_issue_command hw cmd arg timeout dev'))"

fun reset_loop :: "'d hw \<Rightarrow> nat \<Rightarrow> ('d, bool) io" where
  "reset_loop hw 0 = io_bind (io_get32 hw CONTROL1) (\<lambda>_. io_ret False)"
| "reset_loop hw (Suc n) =
     io_bind (io_get32 hw CONTROL1) (\<lambda>c.
       if c AND 0x2000000 = 0 then io_ret True else io_bind (delay_ms hw 1) (\<lambda>_. reset_loop hw n))"

definition reset_command :: "'d hw \<Rightarrow> ('d, bool) io" where
  "reset_command hw =
     io_bind (io_get32 hw CONTROL1) (\<lambda>c.
     io_bind (io_put32 hw CONTROL1 (c OR 0x2000000)) (\<lambda>_. reset_loop hw 10000))"

text \<open>The timeout of the caller is not used.\<close>

definition emmc_app_command :: "'d hw \<Rightarrow> u32 \<Rightarrow> u32 \<Rightarrow> u32 \<Rightarrow> emmc_device \<Rightarrow> ('d, bool \<times> emmc_device) io" where
  "emmc_app_command hw command arg timeout dev =
     io_bind (io_res (arr_get commands (unat command))) (\<lambda>cmd.
       if cmd_index cmd \<ge> 60 then io_ret (False, dev)
       else
         io_bind (io_res (arr_get commands 55)) (\<lambda>app.
         io_bind (emmc_issue_command hw app (if rca dev \<noteq> 0 then push_bit 16 (rca dev) else 0) 2000 (dev\<lparr>last_command := app\<rparr>)) (\<lambda>(ok, dev').
           if ok then emmc_issue_command hw cmd arg 2000 (dev'\<lparr>last_command := cmd\<rparr>) else io_ret (False, dev'))))"

section \<open>Identification of the card\<close>

text \<open>What the two checks do after a failed command: \<open>None\<close> goes on, \<open>Some b\<close> returns \<open>b\<close>.\<close>

definition command_failed :: "'d hw \<Rightarrow> emmc_device \<Rightarrow> ('d, bool option) io" where
  "command_failed hw dev =
     (if last_error dev = 0 then io_ret None
      else if last_error dev AND 0x10000 \<noteq> 0
      then io_bind (reset_command hw) (\<lambda>ok.
           if \<not> ok then io_ret (Some False)
           else io_bind (io_put32 hw INT_FLAGS (sd_error_mask 0)) (\<lambda>_. io_ret None))
      else io_ret (Some False))"

definition check_v2_card :: "'d hw \<Rightarrow> emmc_device \<Rightarrow> ('d, bool \<times> emmc_device) io" where
  "check_v2_card hw dev =
     io_bind (emmc_command hw 8 0x1AA 200 dev) (\<lambda>(ok, dev').
       if \<not> ok then io_bind (command_failed hw dev') (\<lambda>r. io_ret (False, dev'))
       else if (last_response dev' ! 0) AND 0xFFF \<noteq> 0x1AA then io_ret (False, dev')
       else io_ret (True, dev'))"

definition check_usable_card :: "'d hw \<Rightarrow> emmc_device \<Rightarrow> ('d, bool \<times> emmc_device) io" where
  "check_usable_card hw dev =
     io_bind (emmc_command hw 5 0 1000 dev) (\<lambda>(ok, dev').
       if \<not> ok
       then io_bind (command_failed hw dev') (\<lambda>r. io_ret (case r of None \<Rightarrow> True | Some b \<Rightarrow> b, dev'))
       else io_ret (True, dev'))"

text \<open>The loop has no bound in the source: a card that stays busy is waited for without end.\<close>

fun sdhc_loop :: "'d hw \<Rightarrow> u32 \<Rightarrow> nat \<Rightarrow> emmc_device \<Rightarrow> ('d, bool \<times> emmc_device) io" where
  "sdhc_loop hw v2_flags 0 dev = io_res (Inl Diverges)"
| "sdhc_loop hw v2_flags (Suc n) dev =
     io_bind (emmc_app_command hw 41 (0x00FF8000 OR v2_flags) 2000 dev) (\<lambda>(ok, dev').
       if \<not> ok then io_ret (False, dev')
       else let r = last_response dev' ! 0 in
            if drop_bit 31 r AND 1 \<noteq> 0
            then io_ret (True, dev'\<lparr>ocr := ucast (drop_bit 8 r AND 0xFFFF), sdhc := (drop_bit 30 r AND 1 \<noteq> 0)\<rparr>)
            else io_bind (delay_ms hw 500) (\<lambda>_. sdhc_loop hw v2_flags n dev'))"

definition check_sdhc_support :: "'d hw \<Rightarrow> bool \<Rightarrow> emmc_device \<Rightarrow> ('d, bool \<times> emmc_device) io" where
  "check_sdhc_support hw v2_card dev = sdhc_loop hw (if v2_card then push_bit 30 1 else 0) (hw_polls hw) dev"

text \<open>The five rounds of the source end after the first one, with a break or a return.\<close>

definition check_ocr :: "'d hw \<Rightarrow> emmc_device \<Rightarrow> ('d, bool \<times> emmc_device) io" where
  "check_ocr hw dev =
     io_bind (emmc_app_command hw 41 0 2000 dev) (\<lambda>(ok, dev').
       if \<not> ok then io_ret (False, dev')
       else io_ret (True, dev'\<lparr>ocr := ucast (drop_bit 8 (last_response dev' ! 0) AND 0xFFFF)\<rparr>))"

definition check_rca :: "'d hw \<Rightarrow> emmc_device \<Rightarrow> ('d, bool \<times> emmc_device) io" where
  "check_rca hw dev =
     io_bind (emmc_command hw 2 0 2000 dev) (\<lambda>(ok, dev1).
       if \<not> ok then io_ret (False, dev1)
       else io_bind (emmc_command hw 3 0 2000 dev1) (\<lambda>(ok, dev2).
         if \<not> ok then io_ret (False, dev2)
         else let r = last_response dev2 ! 0;
                  dev3 = dev2\<lparr>rca := drop_bit 16 r AND 0xFFFF\<rparr>
              in io_ret (drop_bit 8 r AND 1 \<noteq> 0, dev3)))"

definition select_card :: "'d hw \<Rightarrow> emmc_device \<Rightarrow> ('d, bool \<times> emmc_device) io" where
  "select_card hw dev =
     io_bind (emmc_command hw 7 (push_bit 16 (rca dev)) 2000 dev) (\<lambda>(ok, dev').
       if \<not> ok then io_ret (False, dev')
       else let status = drop_bit 9 (last_response dev' ! 0) AND 0xF
            in io_ret (status = 3 \<or> status = 4, dev'))"

definition BSWAP32 :: "u32 \<Rightarrow> u32" where
  "BSWAP32 x = (push_bit 24 x AND 0xff000000) OR (push_bit 8 x AND 0x00ff0000) OR
     (drop_bit 8 x AND 0x0000ff00) OR (drop_bit 24 x AND 0x000000ff)"

definition scr_ver :: "u32 \<Rightarrow> u32" where
  "scr_ver w =
     (let scr0 = BSWAP32 w;
          spec = drop_bit 24 scr0 AND 0xf; spec3 = drop_bit 15 scr0 AND 1; spec4 = drop_bit 10 scr0 AND 1
      in if spec = 0 then 1
         else if spec = 1 then 11
         else if spec = 2 then (if spec3 = 0 then 2 else if spec4 = 0 then 3 else 4)
         else 0xFFFFFFFF)"

text \<open>The buffer of the transfer is the field \<open>scr\<close> itself.\<close>

definition set_scr :: "'d hw \<Rightarrow> emmc_device \<Rightarrow> ('d, bool \<times> emmc_device) io" where
  "set_scr hw dev0 =
     io_bind (if sdhc dev0 then io_ret (True, dev0) else emmc_command hw 16 512 2000 dev0) (\<lambda>(ok, dev).
       if \<not> ok then io_ret (False, dev)
       else
         io_bind (io_get32 hw BLKSIZECNT) (\<lambda>bsc.
         io_bind (io_put32 hw BLKSIZECNT ((bsc AND NOT 0xFFF) OR 0x200)) (\<lambda>_.
         io_bind (emmc_app_command hw 51 0 30000 (dev\<lparr>buffer := scr dev, block_size := 8, transfer_blocks := 1\<rparr>)) (\<lambda>(ok, dev1).
           let dev2 = dev1\<lparr>scr := buffer dev1\<rparr> in
           if \<not> ok then io_ret (False, dev2)
           else io_ret (True, dev2\<lparr>block_size := 512, scr_version := scr_ver (scr dev2 ! 0)\<rparr>)))))"

text \<open>A check that returns false ends the reset.\<close>

definition io_and :: "('d, bool \<times> 's) io \<Rightarrow> ('s \<Rightarrow> ('d, bool \<times> 's) io) \<Rightarrow> ('d, bool \<times> 's) io" where
  "io_and m f = io_bind m (\<lambda>(ok, s). if ok then f s else io_ret (False, s))"

definition emmc_identify :: "'d hw \<Rightarrow> emmc_device \<Rightarrow> ('d, bool \<times> emmc_device) io" where
  "emmc_identify hw dev =
     io_and (emmc_command hw 0 0 2000 dev) (\<lambda>dev.
     io_bind (check_v2_card hw dev) (\<lambda>(v2_card, dev).
     io_and (check_usable_card hw dev) (\<lambda>dev.
     io_and (check_ocr hw dev) (\<lambda>dev.
     io_and (check_sdhc_support hw v2_card dev) (\<lambda>dev.
     io_bind (delay_ms hw 10) (\<lambda>_.
     io_and (check_rca hw dev) (\<lambda>dev.
     io_and (select_card hw dev) (\<lambda>dev.
     io_and (set_scr hw dev) (\<lambda>dev.
     io_bind (io_put32 hw INT_FLAGS 0xFFFFFFFF) (\<lambda>_. io_ret (True, dev)))))))))))"

definition emmc_card_reset :: "'d hw \<Rightarrow> emmc_device \<Rightarrow> ('d, bool \<times> emmc_device) io" where
  "emmc_card_reset hw dev =
     io_bind (io_put32 hw CONTROL1 0x1000000) (\<lambda>_.
     io_bind (wait_reg_mask hw CONTROL1 0x7000000 False 2000) (\<lambda>ok.
       if \<not> ok then io_ret (False, dev)
       else io_bind (emmc_setup_clock hw) (\<lambda>ok.
         if \<not> ok then io_ret (False, dev)
         else
           io_bind (io_seq [io_put32 hw INT_ENABLE 0, io_put32 hw INT_FLAGS 0xFFFFFFFF, io_put32 hw INT_MASK 0xFFFFFFFF,
             delay_ms hw 203]) (\<lambda>_.
           emmc_identify hw (dev\<lparr>transfer_blocks := 0, last_command_value := 0, last_success := False, block_size := 0\<rparr>)))))"

fun init_loop :: "'d hw \<Rightarrow> nat \<Rightarrow> emmc_device \<Rightarrow> ('d, bool \<times> emmc_device) io" where
  "init_loop hw 0 dev = io_ret (False, dev)"
| "init_loop hw (Suc n) dev =
     io_bind (emmc_card_reset hw dev) (\<lambda>(ok, dev').
       if ok then io_ret (True, dev') else io_bind (delay_ms hw 100) (\<lambda>_. init_loop hw n dev'))"

definition emmc_init :: "'d hw \<Rightarrow> emmc_device \<Rightarrow> ('d, bool \<times> emmc_device) io" where
  "emmc_init hw dev =
     io_bind (io_seq (map (\<lambda>pin. gpio_set_function hw pin 0) [34..<40] @ map (\<lambda>pin. gpio_set_function hw pin 7) [48..<53])) (\<lambda>_.
       init_loop hw 10 (dev\<lparr>transfer_blocks := 0, last_command_value := 0, last_success := False, block_size := 0,
         sdhc := False, ocr := 0, rca := 0, base_clock := 0\<rparr>))"

section \<open>Reading and writing blocks\<close>

fun retry_loop :: "'d hw \<Rightarrow> u32 \<Rightarrow> u32 \<Rightarrow> nat \<Rightarrow> emmc_device \<Rightarrow> ('d, bool \<times> emmc_device) io" where
  "retry_loop hw command block_no 0 dev = io_ret (False, dev)"
| "retry_loop hw command block_no (Suc n) dev =
     io_bind (emmc_command hw command block_no 5000 dev) (\<lambda>(ok, dev').
       if ok then io_ret (True, dev') else retry_loop hw command block_no n dev')"

definition do_data_command :: "'d hw \<Rightarrow> bool \<Rightarrow> u32 list \<Rightarrow> u32 \<Rightarrow> u32 \<Rightarrow> emmc_device \<Rightarrow> ('d, bool \<times> emmc_device) io" where
  "do_data_command hw wr b bsize block_no dev =
     (let no = (if sdhc dev then block_no else block_no * 512) in
      if bsize < block_size dev then io_ret (False, dev)
      else
        io_bind (io_res (assert_r (block_size dev = 512))) (\<lambda>_.
        let dev1 = dev\<lparr>transfer_blocks := bsize div 512\<rparr> in
        if bsize AND 0x1ff \<noteq> 0 then io_ret (False, dev1)
        else
          let command = (if wr then if transfer_blocks dev1 > 1 then 25 else 24
                         else if transfer_blocks dev1 > 1 then 18 else 17)
          in retry_loop hw command no 3 (dev1\<lparr>buffer := b\<rparr>)))"

text \<open>
  The result is the size or -1; the words of the caller's memory are those of the field \<open>buffer\<close> afterwards.
\<close>

definition emmc_read_io :: "'d hw \<Rightarrow> u32 \<Rightarrow> u32 list \<Rightarrow> u32 \<Rightarrow> emmc_device \<Rightarrow> ('d, u32 \<times> emmc_device) io" where
  "emmc_read_io hw sector buf nbytes dev =
     io_bind (io_res (assert_r (nbytes mod 512 = 0))) (\<lambda>_.
     io_bind (do_data_command hw False buf nbytes sector dev) (\<lambda>(ok, dev').
       io_ret (if ok then nbytes else - 1, dev')))"

definition emmc_write_io :: "'d hw \<Rightarrow> u32 \<Rightarrow> u32 list \<Rightarrow> u32 \<Rightarrow> emmc_device \<Rightarrow> ('d, u32 \<times> emmc_device) io" where
  "emmc_write_io hw sector buf nbytes dev =
     io_bind (io_res (assert_r (nbytes mod 512 = 0))) (\<lambda>_.
     io_bind (do_data_command hw True buf nbytes sector dev) (\<lambda>(ok, dev').
       io_ret (if ok then nbytes else - 1, dev')))"

end
