(* ===== verification/Emmc_Host.thy ===== *)
theory Emmc_Host
  imports Emmc
begin

text \<open>
  What the driver relies on of the SD host controller and the card behind it, as their manuals document it
  (the SD host controller and physical layer specifications and the peripherals manual of the board).
  The record \<open>sd_host\<close> is the state of both; \<open>host_get\<close> and \<open>host_put\<close> say what a load or a store of a
  register does to it. What the controller reports happens some time after its cause: an event is pending
  first and shows in the interrupt flags later, at most 100 milliseconds after. The locale
  \<open>sd_controller\<close> is the contract: every access to the device finds such a state.
\<close>

section \<open>The controller and the card\<close>

datatype stage = Idle | Ready | Ident | Stby | Tran

record sd_host =
  h_blk :: u32
  h_arg :: u32
  h_resp :: u32
  h_ctl1 :: u32
  h_flags :: u32
  h_pend :: u32
  h_settling :: bool
  h_stage :: stage
  h_app :: bool
  h_busy :: nat
  h_left :: nat
  h_pos :: nat
  h_words :: "u32 list"
  h_card :: "nat \<Rightarrow> u32 list"
  h_hc :: bool
  h_scr :: "u32 list"
  h_rca :: u32

text \<open>The bits of one word among those of another.\<close>

definition sub :: "u32 \<Rightarrow> u32 \<Rightarrow> bool" where
  "sub a b \<longleftrightarrow> (\<forall>n. bit a n \<longrightarrow> bit b n)"

lemma sub_refl [simp]: "sub a a" and sub_trans: "sub a b \<Longrightarrow> sub b c \<Longrightarrow> sub a c" and sub_0 [simp]: "sub 0 a"
  by (auto simp: sub_def)

lemma sub_zero: "sub a 0 \<longleftrightarrow> a = 0"
  by (auto simp: sub_def intro: bit_word_eqI)

lemma sub_iff: "sub a b \<longleftrightarrow> a AND NOT b = 0"
proof
  show "sub a b \<Longrightarrow> a AND NOT b = 0" by (auto simp: sub_def bit_simps intro!: bit_word_eqI)
  assume "a AND NOT b = 0"
  then have "\<not> (bit a n \<and> \<not> bit b n)" for n
    by (metis bit_0_eq bit_and_iff bit_imp_le_length bit_not_iff_eq bot_apply bot_bool_def exp_eq_zero_iff not_le)
  then show "sub a b" by (simp add: sub_def)
qed

lemma between_mask:
  assumes "sub s v" "sub v u" "s AND m = u AND m"
  shows "v AND m = u AND (m :: u32)"
proof (rule bit_word_eqI)
  fix n
  have "bit (s AND m) n = bit (u AND m) n" using assms(3) by simp
  then show "bit (v AND m) n = bit (u AND m) n" using assms(1,2) by (auto simp: sub_def bit_simps)
qed

lemma meets_sub: "sub a b \<Longrightarrow> a AND m \<noteq> 0 \<Longrightarrow> b AND m \<noteq> (0 :: u32)"
  by (auto simp: sub_def bit_eq_iff bit_simps)

text \<open>
  Pending events may show and a reset may end while time passes; \<open>ev\<close> are the events that the driver has
  not taken note of, shown or not, and \<open>core\<close> is the state without them.
\<close>

definition ev :: "sd_host \<Rightarrow> u32" where
  "ev h = h_flags h OR h_pend h"

definition core :: "sd_host \<Rightarrow> sd_host" where
  "core h = h\<lparr>h_flags := 0, h_pend := 0, h_settling := False\<rparr>"

definition later :: "sd_host \<Rightarrow> sd_host \<Rightarrow> bool" where
  "later h h' \<longleftrightarrow> core h' = core h \<and> ev h' = ev h \<and> sub (h_flags h) (h_flags h') \<and> h_flags h' AND h_pend h' = 0 \<and>
     (h_settling h' \<longrightarrow> h_settling h)"

lemma later_refl: "h_flags h AND h_pend h = 0 \<Longrightarrow> later h h"
  by (simp add: later_def)

lemma later_trans: "later h h' \<Longrightarrow> later h' h'' \<Longrightarrow> later h h''"
  by (auto simp: later_def intro: sub_trans)

definition raise_ev :: "u32 \<Rightarrow> sd_host \<Rightarrow> sd_host" where
  "raise_ev e h = h\<lparr>h_pend := (h_pend h OR e) AND NOT (h_flags h)\<rparr>"

subsection \<open>Commands\<close>

text \<open>
  The events: command done (bit 0), transfer done (bit 1), ready for the words of a block to write (bit 4) or
  to read (bit 5), no answer to a command (bit 16).
\<close>

definition start_read :: "u32 list \<Rightarrow> nat \<Rightarrow> nat \<Rightarrow> sd_host \<Rightarrow> sd_host" where
  "start_read ws n pos h = raise_ev 0x21 (h\<lparr>h_resp := 0x900, h_app := False, h_left := n, h_pos := pos, h_words := ws\<rparr>)"

definition start_write :: "nat \<Rightarrow> nat \<Rightarrow> sd_host \<Rightarrow> sd_host" where
  "start_write n pos h = raise_ev 0x11 (h\<lparr>h_resp := 0x900, h_app := False, h_left := n, h_pos := pos, h_words := []\<rparr>)"

definition answer :: "u32 \<Rightarrow> stage \<Rightarrow> sd_host \<Rightarrow> sd_host" where
  "answer r st h = raise_ev 1 (h\<lparr>h_resp := r, h_app := False, h_stage := st\<rparr>)"

definition block_of :: "sd_host \<Rightarrow> nat" where
  "block_of h = (if h_hc h then unat (h_arg h) else unat (h_arg h) div 512)"

text \<open>
  \<open>ACMD41\<close>: with argument 0 the card only tells its voltages; otherwise it goes on with its initialisation,
  says that it is busy for \<open>h_busy\<close> rounds and then that it is ready and whether it has a high capacity.
\<close>

definition op_cond :: "sd_host \<Rightarrow> sd_host" where
  "op_cond h =
     (if h_arg h = 0 then answer 0x00FF8000 Idle h
      else if h_hc h \<and> \<not> bit (h_arg h) 30 then answer 0x00FF8000 Idle h
      else if h_busy h > 0 then (answer 0x00FF8000 Idle h)\<lparr>h_busy := h_busy h - 1\<rparr>
      else answer (if h_hc h then 0xC0FF8000 else 0x80FF8000) Ready h)"

definition host_cmd :: "u32 \<Rightarrow> sd_host \<Rightarrow> sd_host" where
  "host_cmd w h =
     (let i = unat (drop_bit 24 w AND 0x3f); n = unat (drop_bit 16 (h_blk h)) in
      if i = 17 then start_read (h_card h (block_of h)) 1 (block_of h) h
      else if i = 18 then start_read (h_card h (block_of h)) n (block_of h) h
      else if i = 24 then start_write 1 (block_of h) h
      else if i = 25 then start_write n (block_of h) h
      else if i = 51 then start_read (h_scr h) 1 0 h
      else if i = 55 then (answer 0x120 (h_stage h) h)\<lparr>h_app := True\<rparr>
      else if i = 41 then op_cond h
      else if i = 0 then answer (h_resp h) Idle h
      else if i = 8 then answer (h_arg h AND 0xFFF) Idle h
      else if i = 5 then raise_ev 0x10000 (h\<lparr>h_app := False\<rparr>)
      else if i = 2 then answer (h_resp h) Ident h
      else if i = 3 then answer (push_bit 16 (h_rca h) OR 0x500) Stby h
      else if i = 7 then raise_ev 3 (h\<lparr>h_resp := 0x700, h_app := False, h_stage := Tran\<rparr>)
      else answer 0x900 (h_stage h) h)"

text \<open>Which commands the contract speaks about: in the stages where the specification allows them.\<close>

definition cmd_ok :: "u32 \<Rightarrow> sd_host \<Rightarrow> bool" where
  "cmd_ok w h =
     (let i = unat (drop_bit 24 w AND 0x3f); n = unat (drop_bit 16 (h_blk h)); sz = unat (h_blk h AND 0x3FF) in
      ev h = 0 \<and> h_left h = 0 \<and> \<not> h_settling h \<and>
      (if i = 17 \<or> i = 24 then h_stage h = Tran \<and> \<not> h_app h \<and> sz = 512
       else if i = 18 \<or> i = 25 then h_stage h = Tran \<and> \<not> h_app h \<and> sz = 512 \<and> n > 0
       else if i = 51 then h_stage h = Tran \<and> h_app h \<and> sz = 8 \<and> n = 1
       else if i = 55 then h_arg h = (case h_stage h of Idle \<Rightarrow> 0 | _ \<Rightarrow> push_bit 16 (h_rca h))
       else if i = 41 then h_stage h = Idle \<and> h_app h
       else if i = 0 then True
       else if i = 8 \<or> i = 5 then h_stage h = Idle
       else if i = 2 then h_stage h = Ready
       else if i = 3 then h_stage h = Ident
       else if i = 7 then h_stage h = Stby \<and> h_arg h = push_bit 16 (h_rca h)
       else i = 16 \<and> h_stage h = Tran \<and> h_arg h = 512))"

subsection \<open>Registers\<close>

definition block_read :: "sd_host \<Rightarrow> sd_host" where
  "block_read h =
     (if h_left h \<le> 1 then raise_ev 2 (h\<lparr>h_words := [], h_left := 0\<rparr>)
      else raise_ev 0x20 (h\<lparr>h_words := h_card h (h_pos h + 1), h_left := h_left h - 1, h_pos := h_pos h + 1\<rparr>))"

definition block_written :: "u32 list \<Rightarrow> sd_host \<Rightarrow> sd_host" where
  "block_written ws h =
     (let h' = h\<lparr>h_card := (h_card h)(h_pos h := ws), h_words := []\<rparr> in
      if h_left h \<le> 1 then raise_ev 2 (h'\<lparr>h_left := 0\<rparr>)
      else raise_ev 0x10 (h'\<lparr>h_left := h_left h - 1, h_pos := h_pos h + 1\<rparr>))"

text \<open>The flags with the summary of the errors in bit 15.\<close>

definition shown :: "u32 \<Rightarrow> u32" where
  "shown f = (if f AND 0xFFFF0000 = 0 then f else f OR 0x8000)"

definition host_get :: "u32 \<Rightarrow> sd_host \<Rightarrow> u32 \<times> sd_host" where
  "host_get a h =
     (if a = DATA then
        (case h_words h of [] \<Rightarrow> (0, h)
         | w # ws \<Rightarrow> (w, if ws = [] then block_read h else h\<lparr>h_words := ws\<rparr>))
      else if a = INT_FLAGS then (shown (h_flags h), h)
      else if a = RESP0 then (h_resp h, h)
      else if a = BLKSIZECNT then (h_blk h, h)
      else if a = CONTROL1 then
        (if h_settling h then h_ctl1 h AND NOT 2
         else (h_ctl1 h AND NOT 0x7000002) OR (if bit (h_ctl1 h) 0 then 2 else 0), h)
      else (0, h))"

definition host_put :: "u32 \<Rightarrow> u32 \<Rightarrow> sd_host \<Rightarrow> sd_host" where
  "host_put a v h =
     (if a = DATA then
        (let ws = h_words h @ [v] in if length ws = 128 then block_written ws h else h\<lparr>h_words := ws\<rparr>)
      else if a = INT_FLAGS then h\<lparr>h_flags := h_flags h AND NOT v\<rparr>
      else if a = BLKSIZECNT then h\<lparr>h_blk := v\<rparr>
      else if a = ARG1 then h\<lparr>h_arg := v\<rparr>
      else if a = CMDTM then host_cmd v h
      else if a = CONTROL1 then
        (if bit v 24 then h\<lparr>h_ctl1 := v, h_settling := True, h_flags := 0, h_pend := 0, h_left := 0, h_words := []\<rparr>
         else h\<lparr>h_ctl1 := v, h_settling := True\<rparr>)
      else h)"

text \<open>Data moves only after the event that announces it.\<close>

definition get_ok :: "u32 \<Rightarrow> sd_host \<Rightarrow> bool" where
  "get_ok a h \<longleftrightarrow> (if a = DATA then h_left h > 0 \<and> h_words h \<noteq> [] \<and> \<not> bit (h_pend h) 5
     else a \<in> {INT_FLAGS, RESP0, RESP0 + 4, RESP0 + 8, RESP0 + 12, BLKSIZECNT, CONTROL1})"

definition put_ok :: "u32 \<Rightarrow> u32 \<Rightarrow> sd_host \<Rightarrow> bool" where
  "put_ok a v h \<longleftrightarrow> (if a = DATA then h_left h > 0 \<and> \<not> bit (h_pend h) 4
     else if a = CMDTM then cmd_ok v h
     else a \<in> {INT_FLAGS, BLKSIZECNT, ARG1, CONTROL1, CONTROL2, INT_MASK, INT_ENABLE})"

section \<open>The contract\<close>

text \<open>\<open>due\<close> is the time by which everything pending has shown.\<close>

definition passes :: "('d \<Rightarrow> sd_host) \<Rightarrow> ('d \<Rightarrow> nat) \<Rightarrow> ('d \<Rightarrow> nat) \<Rightarrow> 'd \<Rightarrow> 'd \<Rightarrow> bool" where
  "passes host now due d d' \<longleftrightarrow> later (host d) (host d') \<and> now d \<le> now d' \<and> due d' \<le> due d"

locale sd_controller =
  fixes hw :: "'d hw" and host :: "'d \<Rightarrow> sd_host" and now :: "'d \<Rightarrow> nat" and due :: "'d \<Rightarrow> nat"
  assumes fires: "h_pend (host d) \<noteq> 0 \<or> h_settling (host d) \<Longrightarrow> now d < due d"
    and soon: "due d \<le> now d + 100000"
    and apart: "h_flags (host d) AND h_pend (host d) = 0"
    and tick: "GET32 hw timer_addr d = (v, d') \<Longrightarrow>
      v = of_nat (now d') \<and> now d < now d' \<and> now d' < now d + 2147483648 \<and> passes host now due d d'"
    and get: "get_ok a (host d) \<Longrightarrow> GET32 hw a d = (v, d') \<Longrightarrow>
      \<exists>h. later (host d) h \<and> host_get a h = (v, host d') \<and> now d \<le> now d' \<and> (a \<noteq> DATA \<longrightarrow> due d' \<le> due d)"
    and put: "put_ok a v (host d) \<Longrightarrow>
      \<exists>h. later (host d) h \<and> host (PUT32 hw a v d) = host_put a v h \<and> now d \<le> now (PUT32 hw a v d) \<and>
        (a \<notin> {DATA, CMDTM, CONTROL1} \<longrightarrow> due (PUT32 hw a v d) \<le> due d)"
    and many: "1048576 \<le> hw_polls hw"

sublocale sd_controller \<subseteq> clk: usec_clock hw now "passes host now due"
proof
  fix d d' d'' :: 'd and v :: u32
  show "passes host now due d d" by (simp add: passes_def later_refl apart)
  show "passes host now due d d' \<Longrightarrow> passes host now due d' d'' \<Longrightarrow> passes host now due d d''"
    by (auto simp: passes_def intro: later_trans)
  show "GET32 hw timer_addr d = (v, d') \<Longrightarrow>
      v = of_nat (now d') \<and> now d < now d' \<and> now d' < now d + 2147483648 \<and> passes host now due d d'" by (rule tick)
  show "1048576 \<le> hw_polls hw" by (rule many)
qed

end
