(* ===== verification/Emmc_Rules.thy ===== *)
theory Emmc_Rules
  imports Emmc_Host
begin

text \<open>
  Rules for the accesses to the controller: what a load, a store, a delay and a wait of the driver do to the
  state of \<open>sd_controller\<close>, as triples over \<open>stands\<close>.
\<close>

section \<open>What is known of the controller\<close>

text \<open>
  The state but for the events is \<open>c\<close>, the events not yet taken note of are \<open>u\<close>, and those of \<open>s\<close> show already.
\<close>

definition stands :: "('d \<Rightarrow> sd_host) \<Rightarrow> sd_host \<Rightarrow> u32 \<Rightarrow> u32 \<Rightarrow> 'd \<Rightarrow> bool" where
  "stands host c u s d \<longleftrightarrow> core (host d) = c \<and> ev (host d) = u \<and> sub s (h_flags (host d)) \<and> \<not> h_settling (host d)"

lemma later_stands:
  "stands host c u s d \<Longrightarrow> later (host d) (host d') \<Longrightarrow> stands host c u s d'"
  by (auto simp: stands_def later_def intro: sub_trans)

lemma stands_sub: "stands host c u s d \<Longrightarrow> sub s' s \<Longrightarrow> stands host c u s' d"
  by (auto simp: stands_def intro: sub_trans)

lemma ev_flags: "sub (h_flags h) (ev h)"
  by (simp add: ev_def sub_def bit_simps)

lemma stands_flags: "stands host c u s d \<Longrightarrow> stands host c u (h_flags (host d)) d"
  by (simp add: stands_def)

text \<open>Both waiting loops of the driver poll a register.\<close>

fun poll :: "'d hw \<Rightarrow> u32 \<Rightarrow> (u32 \<Rightarrow> bool) \<Rightarrow> u32 \<Rightarrow> nat \<Rightarrow> ('d, bool) io" where
  "poll hw reg hit us 0 = io_ret False"
| "poll hw reg hit us (Suc n) =
     io_bind (io_get32 hw reg) (\<lambda>v. if hit v then io_ret True else io_bind (delay_us hw us) (\<lambda>_. poll hw reg hit us n))"

lemma wait_is_poll: "wait_loop hw reg bits on n = poll hw reg (\<lambda>v. (v AND bits \<noteq> 0) = on) 100 n"
  by (induction n) (simp_all cong: if_cong)

lemma cmd_wait_is_poll: "cmd_wait hw n = poll hw INT_FLAGS (\<lambda>v. v AND 0x8001 \<noteq> 0) 1000 n"
  by (induction n) (simp_all add: delay_ms_def cong: if_cong)

lemma shown_fine: "f AND 0xFFFF0000 = 0 \<Longrightarrow> shown f = f"
  by (simp add: shown_def)

lemma sub_mask_0: "sub f u \<Longrightarrow> u AND m = 0 \<Longrightarrow> f AND m = (0 :: u32)"
  using meets_sub by blast

context sd_controller
begin

lemma flags_pass:
  assumes "passes host now due d d'"
  shows "stands host c u s d \<Longrightarrow> stands host c u s d'"
  using assms by (auto simp: passes_def intro: later_stands)

lemma st_delay:
  assumes "unat us < 1048576"
  shows "io_ok (stands host c u s) (delay_us hw us) (\<lambda>_. stands host c u s)"
  using clk.delay_run [OF assms] flags_pass by (fastforce intro: io_okI)

lemma calm_flags: "h_pend (host d) = 0 \<Longrightarrow> h_flags (host d) = ev (host d)"
  by (simp add: ev_def)

lemma get_same:
  assumes "a \<in> {INT_FLAGS, RESP0, RESP0 + 4, RESP0 + 8, RESP0 + 12, BLKSIZECNT, CONTROL1}"
  shows "\<exists>d'. io_get32 hw a d = Inr (fst (host_get a (host d')), d') \<and> passes host now due d d'"
proof (cases "GET32 hw a d")
  case (Pair v d')
  have a: "a \<noteq> DATA" using assms by (auto simp: emmc_regs)
  obtain h where h: "later (host d) h" "host_get a h = (v, host d')" "now d \<le> now d'" "due d' \<le> due d"
    using get [of a d v d'] assms a Pair by (auto simp: get_ok_def)
  have "host d' = h" using h(2) a by (auto simp: host_get_def split: if_splits)
  then show ?thesis using h Pair by (auto simp: io_get32_def passes_def intro!: exI [of _ d'])
qed

lemma poll_run:
  assumes a: "a \<in> {INT_FLAGS, RESP0, RESP0 + 4, RESP0 + 8, RESP0 + 12, BLKSIZECNT, CONTROL1}"
    and P: "\<And>d d'. P d \<Longrightarrow> passes host now due d d' \<Longrightarrow> P d'"
    and hit: "\<And>d. P d \<Longrightarrow> h_pend (host d) = 0 \<Longrightarrow> \<not> h_settling (host d) \<Longrightarrow> hit (fst (host_get a (host d)))"
    and us: "0 < us" "us < 1048576"
  shows "P d \<Longrightarrow> due d \<le> now d + unat us * n \<Longrightarrow>
    \<exists>d'. poll hw a hit us (Suc n) d = Inr (True, d') \<and> P d' \<and> passes host now due d d' \<and> hit (fst (host_get a (host d')))"
proof (induction n arbitrary: d)
  case 0
  obtain d1 where d1: "io_get32 hw a d = Inr (fst (host_get a (host d1)), d1)" "passes host now due d d1"
    using get_same [OF a] by blast
  have "\<not> now d1 < due d1" using 0 d1(2) by (auto simp: passes_def)
  then have "hit (fst (host_get a (host d1)))" using fires [of d1] hit P 0(1) d1(2) by blast
  then show ?case using d1 P 0(1) by (auto simp: io_bind_def io_ret_def)
next
  case (Suc n)
  obtain d1 where d1: "io_get32 hw a d = Inr (fst (host_get a (host d1)), d1)" "passes host now due d d1"
    using get_same [OF a] by blast
  show ?case
  proof (cases "hit (fst (host_get a (host d1)))")
    case True
    then show ?thesis using d1 P Suc.prems(1) by (auto simp: io_bind_def io_ret_def)
  next
    case False
    have "unat us < 1048576" using us(2) by (simp add: word_less_nat_alt)
    then obtain d2 where d2: "delay_us hw us d1 = Inr ((), d2)" "passes host now due d1 d2" "now d1 + unat us \<le> now d2"
      using clk.delay_run [of us d1] by blast
    have p2: "passes host now due d d2" using d1(2) d2(2) by (auto simp: passes_def intro: later_trans)
    then have "due d2 \<le> now d2 + unat us * n" using Suc.prems(2) d1(2) d2(3) by (auto simp: passes_def)
    then obtain d' where "poll hw a hit us (Suc n) d2 = Inr (True, d')" "P d'" "passes host now due d2 d'"
        "hit (fst (host_get a (host d')))" using Suc.IH [of d2] P Suc.prems(1) p2 by blast
    moreover from this(3) have "passes host now due d d'" using p2 by (auto simp: passes_def intro: later_trans)
    ultimately show ?thesis using d1(1) d2(1) False
      by (simp only: poll.simps(2) [of hw a hit us "Suc n"] io_bind_def bind_r_Inr split if_False) auto
  qed
qed

text \<open>The rules of the accesses.\<close>

lemma st_flags:
  assumes "u AND 0xFFFF0000 = 0"
  shows "io_ok (stands host c u s) (io_get32 hw INT_FLAGS) (\<lambda>v d. sub s v \<and> sub v u \<and> stands host c u v d)"
proof (rule io_okI)
  fix d assume st: "stands host c u s d"
  obtain d' where d': "io_get32 hw INT_FLAGS d = Inr (fst (host_get INT_FLAGS (host d')), d')" "passes host now due d d'"
    using get_same [of INT_FLAGS] by blast
  have st': "stands host c u s d'" using flags_pass [OF d'(2) st] .
  then have "sub (h_flags (host d')) u" using ev_flags [of "host d'"] by (simp add: stands_def)
  then have "fst (host_get INT_FLAGS (host d')) = h_flags (host d')"
    using sub_mask_0 [OF _ assms] shown_fine by (simp add: host_get_def emmc_regs)
  then show "\<exists>v d'. io_get32 hw INT_FLAGS d = Inr (v, d') \<and> sub s v \<and> sub v u \<and> stands host c u v d'"
    using d'(1) st' stands_flags [OF st'] ev_flags [of "host d'"] by (auto simp: stands_def)
qed

lemma st_clear:
  assumes "sub (v AND u) s"
  shows "io_ok (stands host c u s) (io_put32 hw INT_FLAGS v) (\<lambda>_. stands host c (u AND NOT v) (s AND NOT v))"
proof (rule io_okI)
  fix d assume st: "stands host c u s d"
  let ?d = "PUT32 hw INT_FLAGS v d"
  obtain h where h: "later (host d) h" "host ?d = host_put INT_FLAGS v h"
    using put [of INT_FLAGS v d] by (auto simp: put_ok_def emmc_regs)
  have e: "host ?d = h\<lparr>h_flags := h_flags h AND NOT v\<rparr>" using h(2) by (simp add: host_put_def emmc_regs)
  have s: "sub s (h_flags h)" "ev h = u" "core h = c" "\<not> h_settling h"
    using st h(1) by (auto simp: stands_def later_def intro: sub_trans)
  have "ev (host ?d) = u AND NOT v"
  proof (rule bit_word_eqI)
    fix n assume n: "n < LENGTH(32)"
    have "\<not> bit (h_flags h AND h_pend h) n" using h(1) by (simp add: later_def)
    then have "bit (h_pend h) n \<Longrightarrow> \<not> bit (v AND u) n" using assms s(1) by (auto simp: sub_def bit_simps)
    then show "bit (ev (host ?d)) n = bit (u AND NOT v) n"
      using n s(2) by (auto simp: e ev_def bit_simps)
  qed
  then show "\<exists>x d'. io_put32 hw INT_FLAGS v d = Inr (x, d') \<and> stands host c (u AND NOT v) (s AND NOT v) d'"
    using s e by (auto simp: io_put32_def stands_def core_def sub_def bit_simps)
qed

text \<open>A wait for one of \<open>bits\<close> ends, and the event \<open>e\<close> that alone can show them has come.\<close>

lemma st_poll:
  assumes hits: "shown u AND bits \<noteq> 0" and only: "\<And>f. sub f u \<Longrightarrow> shown f AND bits \<noteq> 0 \<Longrightarrow> sub e f"
    and us: "0 < us" "us < 1048576" and long: "100000 \<le> unat us * n"
  shows "io_ok (stands host c u s) (poll hw INT_FLAGS (\<lambda>v. v AND bits \<noteq> 0) us (Suc n))
    (\<lambda>ok d. ok = True \<and> stands host c u (s OR e) d)"
proof (rule io_okI)
  fix d assume st: "stands host c u s d"
  let ?hit = "\<lambda>v. v AND bits \<noteq> 0"
  have get: "fst (host_get INT_FLAGS h) = shown (h_flags h)" for h by (simp add: host_get_def emmc_regs)
  have "?hit (fst (host_get INT_FLAGS (host d')))" if "stands host c u s d'" "h_pend (host d') = 0" for d'
    using that hits calm_flags [of d'] by (simp add: stands_def get)
  moreover have "due d \<le> now d + unat us * n" using soon [of d] long by linarith
  ultimately obtain d' where d': "poll hw INT_FLAGS ?hit us (Suc n) d = Inr (True, d')" "stands host c u s d'"
      "?hit (fst (host_get INT_FLAGS (host d')))"
    using poll_run [of INT_FLAGS "stands host c u s" ?hit us d n] flags_pass us st by blast
  have "sub e (h_flags (host d'))" using only [of "h_flags (host d')"] d'(2,3) ev_flags [of "host d'"]
    by (simp add: stands_def get)
  then have "stands host c u (s OR e) d'" using d'(2) by (auto simp: stands_def sub_def bit_simps)
  then show "\<exists>ok d'. poll hw INT_FLAGS ?hit us (Suc n) d = Inr (ok, d') \<and> ok = True \<and> stands host c u (s OR e) d'"
    using d'(1) by blast
qed

lemma st_wait:
  assumes "shown u AND bits \<noteq> 0" "\<And>f. sub f u \<Longrightarrow> shown f AND bits \<noteq> 0 \<Longrightarrow> sub e f"
  shows "io_ok (stands host c u s) (wait_reg_mask hw INT_FLAGS bits True 2000) (\<lambda>ok d. ok = True \<and> stands host c u (s OR e) d)"
  using st_poll [OF assms, of 100 20000 c s] by (simp add: wait_reg_mask_def wait_is_poll)

lemma st_cmd_wait:
  assumes "shown u AND 0x8001 \<noteq> 0" "\<And>f. sub f u \<Longrightarrow> shown f AND 0x8001 \<noteq> 0 \<Longrightarrow> sub e f" and t: "100 < unat t"
  shows "io_ok (stands host c u s) (cmd_wait hw (unat t)) (\<lambda>ok d. ok = True \<and> stands host c u (s OR e) d)"
proof -
  obtain n where n: "unat t = Suc n" using t by (cases "unat t") auto
  then show ?thesis using st_poll [OF assms(1,2), of 1000 n c s] t by (simp add: cmd_wait_is_poll)
qed

text \<open>Stores to the registers that hold parameters.\<close>

lemma st_param:
  assumes "a = BLKSIZECNT \<and> F = (\<lambda>h. h\<lparr>h_blk := v\<rparr>) \<or> a = ARG1 \<and> F = (\<lambda>h. h\<lparr>h_arg := v\<rparr>)"
  shows "io_ok (stands host c u s) (io_put32 hw a v) (\<lambda>_. stands host (F c) u s)"
proof (rule io_okI)
  fix d assume st: "stands host c u s d"
  let ?d = "PUT32 hw a v d"
  obtain h where h: "later (host d) h" "host ?d = host_put a v h"
    using put [of a v d] assms by (auto simp: put_ok_def emmc_regs)
  have "host ?d = F h" using h(2) assms by (auto simp: host_put_def emmc_regs)
  moreover have "stands (\<lambda>_. h) c u s d" using st h(1) by (auto simp: stands_def later_def intro: sub_trans)
  ultimately show "\<exists>x d'. io_put32 hw a v d = Inr (x, d') \<and> stands host (F c) u s d'"
    using assms by (auto simp: io_put32_def stands_def core_def ev_def)
qed

lemma st_resp: "io_ok (stands host c u s) (io_get32 hw RESP0) (\<lambda>r d. r = h_resp c \<and> stands host c u s d)"
proof (rule io_okI)
  fix d assume st: "stands host c u s d"
  obtain d' where d': "io_get32 hw RESP0 d = Inr (fst (host_get RESP0 (host d')), d')" "passes host now due d d'"
    using get_same [of RESP0] by blast
  have st': "stands host c u s d'" using flags_pass [OF d'(2) st] .
  moreover from this have "fst (host_get RESP0 (host d')) = h_resp c" by (auto simp: stands_def core_def host_get_def emmc_regs)
  ultimately show "\<exists>r d'. io_get32 hw RESP0 d = Inr (r, d') \<and> r = h_resp c \<and> stands host c u s d'" using d'(1) by auto
qed

end

end
