(* ===== verification/Emmc_Data.thy ===== *)
theory Emmc_Data
  imports Emmc_Rules
begin

text \<open>
  The transfer of blocks: the commands that read and write them move exactly the words of the blocks between
  the buffer and the card.
\<close>

section \<open>Commands and words\<close>

lemma ev_raise: "h_flags h = 0 \<Longrightarrow> h_pend h = 0 \<Longrightarrow> ev (raise_ev e h) = e"
  by (simp add: ev_def raise_ev_def)

lemma core_raise: "core (raise_ev e h) = core h"
  by (simp add: core_def raise_ev_def)

lemma settling_raise [simp]: "h_settling (raise_ev e h) = h_settling h"
  by (simp add: raise_ev_def)

lemma settling_cmd [simp]: "h_settling (host_cmd w h) = h_settling h"
  by (simp add: host_cmd_def Let_def start_read_def start_write_def answer_def op_cond_def)

text \<open>Without events the state is known as it is.\<close>

lemma rest_host:
  assumes "stands host c 0 s d"
  shows "host d = c" "h_flags c = 0" "h_pend c = 0" "\<not> h_settling c"
proof -
  have "h_flags (host d) = 0" "h_pend (host d) = 0" using assms by (auto simp: stands_def ev_def or_eq_0_iff)
  then show "host d = c" "h_flags c = 0" "h_pend c = 0" "\<not> h_settling c" using assms by (auto simp: stands_def core_def)
qed

lemma rest_later:
  assumes "stands host c 0 s d" "later (host d) h"
  shows "h = c"
  using rest_host(1) [of "\<lambda>_. h" c s] assms by (auto simp: stands_def later_def intro: sub_trans)

definition known :: "('d \<Rightarrow> sd_host) \<Rightarrow> sd_host \<Rightarrow> 'd \<Rightarrow> bool" where
  "known host h d \<longleftrightarrow> stands host (core h) (ev h) 0 d"

lemma knownI: "host d = h \<Longrightarrow> \<not> h_settling h \<Longrightarrow> known host h d"
  by (simp add: known_def stands_def)

text \<open>A state in which nothing is pending.\<close>

definition calm :: "sd_host \<Rightarrow> bool" where
  "calm h \<longleftrightarrow> h_flags h = 0 \<and> h_pend h = 0 \<and> \<not> h_settling h"

lemma calm_core: "calm h \<Longrightarrow> core h = h" and calm_ev: "calm h \<Longrightarrow> ev h = 0"
  by (simp_all add: calm_def core_def ev_def)

lemma known_calm: "calm h \<Longrightarrow> known host h = stands host h 0 0"
  by (simp add: fun_eq_iff known_def calm_core calm_ev)

lemma calm_words [simp]: "calm (h\<lparr>h_words := ws\<rparr>) = calm h"
  by (simp add: calm_def)

lemma known_raise: "calm h \<Longrightarrow> known host (raise_ev e h) = stands host h e 0"
  by (simp add: fun_eq_iff known_def core_raise ev_raise calm_def calm_core)

text \<open>The words of \<open>n\<close> blocks from \<open>p\<close> on.\<close>

primrec run_words :: "(nat \<Rightarrow> u32 list) \<Rightarrow> nat \<Rightarrow> nat \<Rightarrow> u32 list" where
  "run_words f p 0 = []"
| "run_words f p (Suc n) = f p @ run_words f (p + 1) n"

text \<open>The blocks from \<open>p\<close> on replaced by the words of a buffer.\<close>

primrec put_blocks :: "(nat \<Rightarrow> u32 list) \<Rightarrow> nat \<Rightarrow> nat \<Rightarrow> u32 list \<Rightarrow> nat \<Rightarrow> u32 list" where
  "put_blocks f p 0 ws = f"
| "put_blocks f p (Suc n) ws = put_blocks (f(p := take 128 ws)) (p + 1) n (drop 128 ws)"

lemma block_written_words [simp]: "block_written ws (c\<lparr>h_words := vs\<rparr>) = block_written ws c"
  by (simp add: block_written_def Let_def)

text \<open>Words with one bit.\<close>

lemma bit_single: "bit (push_bit k 1 :: u32) n \<longleftrightarrow> n = k \<and> k < 32"
  by (auto simp: bit_push_bit_iff bit_1_iff simp del: push_bit_of_1)

lemma sub_single:
  assumes "sub f (push_bit k 1)"
  shows "f = 0 \<or> f = push_bit k 1"
proof -
  have k: "bit f n \<Longrightarrow> n = k" for n using assms unfolding sub_def bit_single by blast
  show ?thesis
  proof (cases "bit f k")
    case True
    have "bit f n = bit (push_bit k (1 :: u32)) n" if "n < 32" for n unfolding bit_single using k True that by metis
    then show ?thesis by (intro disjI2 bit_word_eqI) simp
  next
    case False
    then have "\<not> bit f n" for n using k by metis
    then show ?thesis by (intro disjI1 bit_word_eqI) simp
  qed
qed

lemma single_no_error: "k < 15 \<Longrightarrow> push_bit k 1 AND (0xFFFF0000 :: u32) = 0"
  by (auto simp: less_Suc_eq numeral_eq_Suc)

lemma sub_antisym: "sub a b \<Longrightarrow> sub b a \<Longrightarrow> a = b"
  by (rule bit_word_eqI) (auto simp: sub_def)

context sd_controller
begin

lemma st_cmd:
  assumes "cmd_ok w c"
  shows "io_ok (stands host c 0 s) (io_put32 hw CMDTM w) (\<lambda>_. known host (host_cmd w c))"
proof (rule io_okI)
  fix d assume st: "stands host c 0 s d"
  have "put_ok CMDTM w (host d)" using rest_host [OF st] assms by (simp add: put_ok_def emmc_regs)
  then obtain h where h: "later (host d) h" "host (PUT32 hw CMDTM w d) = host_put CMDTM w h" using put by blast
  then have "host (PUT32 hw CMDTM w d) = host_cmd w c" using rest_later [OF st] by (simp add: host_put_def emmc_regs)
  moreover have "\<not> h_settling (host_cmd w c)" using assms by (simp add: cmd_ok_def Let_def)
  ultimately show "\<exists>x d'. io_put32 hw CMDTM w d = Inr (x, d') \<and> known host (host_cmd w c) d'"
    by (auto simp: io_put32_def intro: knownI)
qed

lemma st_word_in:
  assumes "h_words c = w # ws" "0 < h_left c" "\<not> h_settling c"
  shows "io_ok (stands host c 0 s) (io_get32 hw DATA)
    (\<lambda>v d. v = w \<and> known host (if ws = [] then block_read c else c\<lparr>h_words := ws\<rparr>) d)"
proof (rule io_okI)
  fix d assume st: "stands host c 0 s d"
  obtain v d' where g: "GET32 hw DATA d = (v, d')" by fastforce
  have "get_ok DATA (host d)" using rest_host [OF st] assms by (simp add: get_ok_def)
  then obtain h where h: "later (host d) h" "host_get DATA h = (v, host d')" using get g by blast
  then have "v = w" "host d' = (if ws = [] then block_read c else c\<lparr>h_words := ws\<rparr>)"
    using rest_later [OF st] assms(1) by (auto simp: host_get_def emmc_regs)
  moreover have "\<not> h_settling (if ws = [] then block_read c else c\<lparr>h_words := ws\<rparr>)"
    using assms(3) by (simp add: block_read_def)
  ultimately show "\<exists>v d'. io_get32 hw DATA d = Inr (v, d') \<and> v = w \<and> known host (if ws = [] then block_read c else c\<lparr>h_words := ws\<rparr>) d'"
    using g by (auto simp: io_get32_def intro: knownI)
qed

text \<open>The words of a block into the buffer.\<close>

lemma block_read_words [simp]: "block_read (c\<lparr>h_words := ws\<rparr>) = block_read c"
  by (simp add: block_read_def)

lemma st_words_in:
  "h_words c = ws \<Longrightarrow> ws \<noteq> [] \<Longrightarrow> 0 < h_left c \<Longrightarrow> calm c \<Longrightarrow> i + length ws \<le> length buf \<Longrightarrow>
   io_ok (stands host c 0 0) (recv_words hw buf i (length ws))
     (\<lambda>b d. b = take i buf @ ws @ drop (i + length ws) buf \<and> known host (block_read c) d)"
proof (induction ws arbitrary: c i buf)
  case (Cons w ws)
  let ?buf = "buf[i := w]"
  have set: "arr_set buf i w = Inr ?buf" using Cons.prems by (simp add: arr_set_def)
  have split: "take (Suc i) ?buf @ ws @ drop (Suc i + length ws) ?buf = take i buf @ (w # ws) @ drop (i + length (w # ws)) buf"
    using Cons.prems(5) by (simp add: take_Suc_conv_app_nth)
  note get = st_word_in [OF Cons.prems(1,3), of 0]
  show ?case
  proof (cases "ws = []")
    case True
    have "io_ok (\<lambda>d. v = w \<and> known host (block_read c) d) (io_bind (io_res (arr_set buf i v)) (\<lambda>b. recv_words hw b (Suc i) 0))
        (\<lambda>b d. b = take i buf @ [w] @ drop (i + 1) buf \<and> known host (block_read c) d)" for v
      using set Cons.prems(5) True by (auto simp: io_ok_def io_bind_def io_res_def io_ret_def upd_conv_take_nth_drop)
    then show ?thesis using get Cons.prems(4) True by (auto simp: calm_def intro: io_ok_bind)
  next
    case False
    let ?c = "c\<lparr>h_words := ws\<rparr>"
    have IH: "io_ok (stands host ?c 0 0) (recv_words hw ?buf (Suc i) (length ws))
        (\<lambda>b d. b = take i buf @ (w # ws) @ drop (i + length (w # ws)) buf \<and> known host (block_read c) d)"
      using Cons.IH [of ?c "Suc i" ?buf] Cons.prems False split by simp
    have "io_ok (\<lambda>d. v = w \<and> known host ?c d) (io_bind (io_res (arr_set buf i v)) (\<lambda>b. recv_words hw b (Suc i) (length ws)))
        (\<lambda>b d. b = take i buf @ (w # ws) @ drop (i + length (w # ws)) buf \<and> known host (block_read c) d)" for v
      using IH set Cons.prems(4) by (auto simp: io_ok_def io_bind_def io_res_def known_calm)
    then show ?thesis using get Cons.prems(4) False by (auto simp: calm_def intro: io_ok_bind)
  qed
qed simp

text \<open>The driver waits for an event, reads the flags and clears it.\<close>

lemma st_take:
  assumes e: "e = push_bit k 1" "k < 15" and bits: "e AND bits = e" "e AND NOT clr = 0"
    and f: "io_ok (stands host c 0 0) (f e) Q"
  shows "io_ok (stands host c e 0) (io_bind (wait_reg_mask hw INT_FLAGS bits True 2000) (\<lambda>_.
    io_bind (io_get32 hw INT_FLAGS) (\<lambda>v. io_bind (io_put32 hw INT_FLAGS clr) (\<lambda>_. f v)))) Q"
proof -
  have nz: "e \<noteq> 0" using e by (simp add: push_bit_eq_mult)
  have err: "e AND 0xFFFF0000 = 0" using single_no_error e by simp
  have only: "sub e g" if "sub g e" "shown g AND bits \<noteq> 0" for g
    using that sub_single [of g k] e by (auto simp: shown_def)
  have "shown e AND bits \<noteq> 0" using bits nz err by (simp add: shown_fine)
  note wait = st_wait [OF this only, of c 0]
  have clear: "io_ok (stands host c e e) (io_put32 hw INT_FLAGS clr) (\<lambda>_. stands host c 0 0)"
    using st_clear [of clr e e c] bits(2) by (simp add: sub_def bit_simps)
  have "io_ok (\<lambda>d. sub e v \<and> sub v e \<and> stands host c e v d) (io_bind (io_put32 hw INT_FLAGS clr) (\<lambda>_. f v)) Q" for v
  proof (rule io_okI)
    fix d assume "sub e v \<and> sub v e \<and> stands host c e v d"
    then have "v = e" "stands host c e e d" using sub_antisym by auto
    then show "\<exists>x d'. io_bind (io_put32 hw INT_FLAGS clr) (\<lambda>_. f v) d = Inr (x, d') \<and> Q x d'"
      using io_okD [OF io_ok_bind [OF clear f]] by blast
  qed
  then have "io_ok (stands host c e e) (io_bind (io_get32 hw INT_FLAGS) (\<lambda>v. io_bind (io_put32 hw INT_FLAGS clr) (\<lambda>_. f v))) Q"
    by (rule io_ok_bind [OF st_flags [OF err]])
  then show ?thesis using wait by (intro io_ok_bind [OF wait]) (auto simp: io_ok_def)
qed

text \<open>Reading: the words of the blocks come into the buffer one block after the other.\<close>

lemma st_block_in:
  assumes "calm c" "0 < h_left c" "h_words c \<noteq> []" "unat (block_size dev) = 4 * length (h_words c)"
    "i + length (h_words c) \<le> length (buffer dev)"
    and rest: "io_ok (known host (block_read c)) (f (dev\<lparr>buffer := take i (buffer dev) @ h_words c @ drop (i + length (h_words c)) (buffer dev)\<rparr>)) Q"
  shows "io_ok (stands host c 0 0) (io_bind (xfer_block hw False i dev) f) Q"
proof -
  have "io_ok (stands host c 0 0) (xfer_block hw False i dev)
    (\<lambda>dev' d. dev' = dev\<lparr>buffer := take i (buffer dev) @ h_words c @ drop (i + length (h_words c)) (buffer dev)\<rparr> \<and> known host (block_read c) d)"
    using assms(4) unfolding xfer_block_def
    by (auto simp: Let_def intro!: io_ok_bind [OF st_words_in [OF refl assms(3,2,1,5)]] io_ok_ret)
  then show ?thesis using rest by (elim io_ok_bind) (auto simp: io_ok_def)
qed

lemma transfer_in:
  assumes m: "0 < m"
  shows "calm c \<Longrightarrow> h_left c = n \<Longrightarrow> 0 < n \<Longrightarrow> length (h_words c) = m \<Longrightarrow> (\<And>p. length (h_card c p) = m) \<Longrightarrow>
    unat (block_size dev) = 4 * m \<Longrightarrow> i + m * n \<le> length (buffer dev) \<Longrightarrow>
    io_ok (stands host c 0x20 0) (transfer_loop hw 0x20 False i n dev)
      (\<lambda>r d. r = (True, dev\<lparr>buffer := take i (buffer dev) @ (h_words c @ run_words (h_card c) (h_pos c + 1) (n - 1)) @
          drop (i + m * n) (buffer dev)\<rparr>) \<and>
        stands host (c\<lparr>h_words := [], h_left := 0, h_pos := h_pos c + n - 1\<rparr>) 2 0 d)"
proof (induction n arbitrary: c i dev)
  case (Suc n)
  let ?ws = "h_words c" and ?p = "h_pos c"
  define dev' where "dev' = dev\<lparr>buffer := take i (buffer dev) @ ?ws @ drop (i + m) (buffer dev)\<rparr>"
  have div: "unat (block_size dev) div 4 = m" using Suc.prems(6) by simp
  have len: "length ?ws = m" "i + m \<le> length (buffer dev)" using Suc.prems(4,7) by simp_all
  let ?Q = "\<lambda>r d. r = (True, dev\<lparr>buffer := take i (buffer dev) @ (?ws @ run_words (h_card c) (?p + 1) n) @
          drop (i + m * Suc n) (buffer dev)\<rparr>) \<and> stands host (c\<lparr>h_words := [], h_left := 0, h_pos := ?p + n\<rparr>) 2 0 d"
  have "io_ok (known host (block_read c)) (transfer_loop hw 0x20 False (i + m) n dev') ?Q"
  proof (cases n)
    case 0
    then show ?thesis using Suc.prems(1,2)
      by (auto simp: block_read_def known_raise calm_def dev'_def intro!: io_ok_ret)
  next
    case (Suc k)
    let ?c = "c\<lparr>h_words := h_card c (?p + 1), h_left := n, h_pos := ?p + 1\<rparr>"
    have kn: "known host (block_read c) = stands host ?c 0x20 0"
      using Suc Suc.prems(1,2) by (simp add: block_read_def known_raise calm_def)
    have "dev'\<lparr>buffer := take (i + m) (buffer dev') @ (h_words ?c @ run_words (h_card ?c) (h_pos ?c + 1) (n - 1)) @
          drop (i + m + m * n) (buffer dev')\<rparr>
      = dev\<lparr>buffer := take i (buffer dev) @ (?ws @ run_words (h_card c) (?p + 1) n) @ drop (i + m * Suc n) (buffer dev)\<rparr>"
      using len Suc by (simp add: dev'_def add_ac)
    moreover have "calm ?c" "h_left ?c = n" "0 < n" "length (h_words ?c) = m" "\<And>p. length (h_card ?c p) = m"
        "unat (block_size dev') = 4 * m" "i + m + m * n \<le> length (buffer dev')"
      using Suc Suc.prems len by (simp_all add: calm_def dev'_def)
    note Suc.IH [OF this]
    ultimately show ?thesis using kn by simp
  qed
  then have "io_ok (stands host c 0 0) (io_bind (xfer_block hw False i dev) (\<lambda>dev'. transfer_loop hw 0x20 False (i + unat (block_size dev) div 4) n dev')) ?Q"
    using Suc.prems m div len by (intro st_block_in) (auto simp: dev'_def)
  then show ?case unfolding transfer_loop.simps by (intro st_take [where k = 5]) simp_all
qed simp

text \<open>Writing: the words of the buffer go to the blocks of the card.\<close>

lemma st_word_out:
  assumes "0 < h_left c" "calm c"
  shows "io_ok (stands host c 0 s) (io_put32 hw DATA w)
    (\<lambda>_. known host (if length (h_words c) = 127 then block_written (h_words c @ [w]) c else c\<lparr>h_words := h_words c @ [w]\<rparr>))"
proof (rule io_okI)
  fix d assume st: "stands host c 0 s d"
  have "put_ok DATA w (host d)" using rest_host [OF st] assms by (simp add: put_ok_def)
  then obtain h where h: "later (host d) h" "host (PUT32 hw DATA w d) = host_put DATA w h" using put by blast
  then have "host (PUT32 hw DATA w d) = (if length (h_words c) = 127 then block_written (h_words c @ [w]) c else c\<lparr>h_words := h_words c @ [w]\<rparr>)"
    using rest_later [OF st] by (simp add: host_put_def emmc_regs Let_def)
  moreover have "\<not> h_settling (if length (h_words c) = 127 then block_written (h_words c @ [w]) c else c\<lparr>h_words := h_words c @ [w]\<rparr>)"
    using assms(2) by (simp add: block_written_def calm_def Let_def)
  ultimately show "\<exists>x d'. io_put32 hw DATA w d = Inr (x, d') \<and>
      known host (if length (h_words c) = 127 then block_written (h_words c @ [w]) c else c\<lparr>h_words := h_words c @ [w]\<rparr>) d'"
    by (auto simp: io_put32_def intro: knownI)
qed

lemma st_words_out:
  "0 < n \<Longrightarrow> 0 < h_left c \<Longrightarrow> calm c \<Longrightarrow> length (h_words c) + n = 128 \<Longrightarrow> i + n \<le> length buf \<Longrightarrow>
   io_ok (stands host c 0 0) (send_words hw buf i n) (\<lambda>_. known host (block_written (h_words c @ take n (drop i buf)) c))"
proof (induction n arbitrary: c i)
  case (Suc n)
  let ?w = "buf ! i"
  have get: "arr_get buf i = Inr ?w" using Suc.prems(5) by (simp add: arr_get_def)
  have tk: "take (Suc n) (drop i buf) = ?w # take n (drop (Suc i) buf)"
    using Suc.prems(5) by (simp add: Cons_nth_drop_Suc [symmetric])
  note out = st_word_out [OF Suc.prems(2,3), of 0 ?w]
  have "io_ok (stands host c 0 0) (io_bind (io_put32 hw DATA ?w) (\<lambda>_. send_words hw buf (Suc i) n))
      (\<lambda>_. known host (block_written (h_words c @ take (Suc n) (drop i buf)) c))"
  proof (cases n)
    case 0
    then show ?thesis using out Suc.prems(4) tk by (intro io_ok_bind [OF out]) (auto intro: io_ok_ret)
  next
    case (Suc k)
    let ?c = "c\<lparr>h_words := h_words c @ [?w]\<rparr>"
    have "io_ok (stands host ?c 0 0) (send_words hw buf (Suc i) n) (\<lambda>_. known host (block_written (h_words c @ take (Suc n) (drop i buf)) c))"
      using Suc.IH [of ?c "Suc i"] Suc Suc.prems tk by simp
    then show ?thesis using out Suc Suc.prems(3,4) by (intro io_ok_bind [OF out]) (simp add: known_calm)
  qed
  then show ?case using get by (simp add: io_bind_def io_res_def fun_eq_iff)
qed simp

lemma st_block_out:
  assumes "calm c" "0 < h_left c" "h_words c = []" "block_size dev = 512" "i + 128 \<le> length (buffer dev)"
    and rest: "io_ok (known host (block_written (take 128 (drop i (buffer dev))) c)) (f dev) Q"
  shows "io_ok (stands host c 0 0) (io_bind (xfer_block hw True i dev) f) Q"
proof -
  have "io_ok (stands host c 0 0) (send_words hw (buffer dev) i 128) (\<lambda>_. known host (block_written (take 128 (drop i (buffer dev))) c))"
    using st_words_out [of 128 c i "buffer dev"] assms by simp
  then have "io_ok (stands host c 0 0) (xfer_block hw True i dev)
    (\<lambda>dev' d. dev' = dev \<and> known host (block_written (take 128 (drop i (buffer dev))) c) d)"
    using assms(4) unfolding xfer_block_def by (auto simp: Let_def intro!: io_ok_bind io_ok_ret)
  then show ?thesis using rest by (elim io_ok_bind) (auto simp: io_ok_def)
qed

lemma transfer_out:
  "calm c \<Longrightarrow> h_left c = n \<Longrightarrow> 0 < n \<Longrightarrow> h_words c = [] \<Longrightarrow> block_size dev = 512 \<Longrightarrow> i + 128 * n \<le> length (buffer dev) \<Longrightarrow>
   io_ok (stands host c 0x10 0) (transfer_loop hw 0x10 True i n dev)
     (\<lambda>r d. r = (True, dev) \<and> stands host (c\<lparr>h_card := put_blocks (h_card c) (h_pos c) n (drop i (buffer dev)), h_words := [], h_left := 0,
        h_pos := h_pos c + n - 1\<rparr>) 2 0 d)"
proof (induction n arbitrary: c i)
  case (Suc n)
  let ?p = "h_pos c" and ?ws = "take 128 (drop i (buffer dev))"
  let ?Q = "\<lambda>r d. r = (True, dev) \<and> stands host (c\<lparr>h_card := put_blocks (h_card c) ?p (Suc n) (drop i (buffer dev)), h_words := [], h_left := 0,
        h_pos := ?p + n\<rparr>) 2 0 d"
  have "io_ok (known host (block_written ?ws c)) (transfer_loop hw 0x10 True (i + 128) n dev) ?Q"
  proof (cases n)
    case 0
    then show ?thesis using Suc.prems(1,2)
      by (auto simp: block_written_def known_raise calm_def Let_def intro!: io_ok_ret)
  next
    case (Suc k)
    let ?c = "c\<lparr>h_card := (h_card c)(?p := ?ws), h_words := [], h_left := n, h_pos := ?p + 1\<rparr>"
    have kn: "known host (block_written ?ws c) = stands host ?c 0x10 0"
      using Suc Suc.prems(1,2) by (simp add: block_written_def known_raise calm_def Let_def)
    moreover have "calm ?c" "h_left ?c = n" "0 < n" "h_words ?c = []" "i + 128 + 128 * n \<le> length (buffer dev)"
      using Suc Suc.prems by (simp_all add: calm_def)
    note Suc.IH [OF this(1-4) Suc.prems(5) this(5)]
    ultimately show ?thesis by (simp add: add.commute fun_upd_def)
  qed
  then have "io_ok (stands host c 0 0) (io_bind (xfer_block hw True i dev) (\<lambda>dev'. transfer_loop hw 0x10 True (i + unat (block_size dev) div 4) n dev')) ?Q"
    using Suc.prems by (intro st_block_out) auto
  then show ?case unfolding transfer_loop.simps by (intro st_take [where k = 4]) simp_all
qed simp

end

end
