(* ===== verification/Emmc_Issue.thy ===== *)
theory Emmc_Issue
  imports Emmc_Data
begin

text \<open>
  Issuing a command: what \<open>emmc_issue_command\<close> does when the card answers, and the reads and writes of blocks.
\<close>

section \<open>One command\<close>

definition responded :: "emmc_cmd \<Rightarrow> u32 \<Rightarrow> emmc_device \<Rightarrow> emmc_device \<Rightarrow> bool" where
  "responded cmd r dev dev' \<longleftrightarrow> (\<exists>rs. dev' = dev\<lparr>last_response := rs\<rparr> \<and>
     (length (last_response dev) = 4 \<longrightarrow> length rs = 4) \<and>
     (response_type cmd = RT48 \<or> response_type cmd = RT48Busy \<longrightarrow> rs = (last_response dev)[0 := r]))"

lemma only_done:
  assumes "u AND 0x8001 = (1 :: u32)" "u AND 0xFFFF0000 = 0" "sub f u" "shown f AND 0x8001 \<noteq> 0"
  shows "sub 1 f"
proof -
  have f: "shown f = f" using sub_mask_0 [OF assms(3,2)] by (rule shown_fine)
  obtain n where n: "bit (f AND 0x8001) n" using assms(4) unfolding f by (metis bit_eqI bit_0_eq bot_apply bot_bool_def)
  then have "bit (u AND 0x8001) n" using assms(3) by (simp add: sub_def bit_and_iff)
  then have "n = 0" unfolding assms(1) by (simp add: bit_1_iff)
  then have "bit f 0" using n by (simp add: bit_and_iff)
  then show ?thesis by (auto simp: sub_def bit_1_iff)
qed

context sd_controller
begin

lemma st_response:
  "io_ok (stands host c u 0) (read_response hw cmd dev) (\<lambda>dev' d. responded cmd (h_resp c) dev dev' \<and> stands host c u 0 d)"
proof -
  have any: "a \<in> {RESP0 + 4, RESP0 + 8, RESP0 + 12} \<Longrightarrow> io_ok (stands host c u 0) (io_get32 hw a) (\<lambda>_. stands host c u 0)" for a
    using get_same [of a] flags_pass by (fastforce simp: io_ok_def)
  note get = io_ok_bind [OF any]
  have long: "io_ok (stands host c u 0) (io_bind (io_get32 hw RESP0) (\<lambda>r0. io_bind (io_get32 hw (RESP0 + 4)) (\<lambda>r1.
      io_bind (io_get32 hw (RESP0 + 8)) (\<lambda>r2. io_bind (io_get32 hw (RESP0 + 12)) (\<lambda>r3. io_ret (dev\<lparr>last_response := [r0, r1, r2, r3]\<rparr>))))))
      (\<lambda>dev' d. (\<exists>rs. dev' = dev\<lparr>last_response := rs\<rparr> \<and> length rs = 4) \<and> stands host c u 0 d)"
    by (rule io_ok_bind [OF io_ok_post [OF st_resp, where Q = "\<lambda>_. stands host c u 0"]])
      (auto intro!: get io_ok_ret)
  show ?thesis
  proof (cases "response_type cmd = RT48 \<or> response_type cmd = RT48Busy")
    case True
    then show ?thesis unfolding read_response_def responded_def
      by (simp, intro io_ok_bind [OF st_resp]) (auto intro!: io_ok_ret)
  next
    case False
    show ?thesis
    proof (cases "response_type cmd = RT136")
      case True
      with False show ?thesis unfolding read_response_def responded_def by (simp, intro io_ok_post [OF long]) auto
    next
      case no: False
      with False show ?thesis unfolding read_response_def responded_def
        by (auto intro!: io_ok_ret exI [of _ "last_response dev"])
    qed
  qed
qed

text \<open>A command that is answered, with the event \<open>e\<close> after it, leads to its second part.\<close>

lemma st_issue:
  assumes blocks: "transfer_blocks dev \<le> 0xFFFF" and t: "100 < unat t"
    and c1: "c1 = c\<lparr>h_blk := block_size dev OR push_bit 16 (transfer_blocks dev), h_arg := arg\<rparr>" "cmd_ok (TO_REG cmd) c1"
    and c2: "known host (host_cmd (TO_REG cmd) c1) = stands host c2 (1 OR e) 0" and e: "e \<in> {0, 2, 0x10, 0x20}"
    and rest: "\<And>dev'. responded cmd (h_resp c2) (dev\<lparr>last_command_value := TO_REG cmd\<rparr>) dev' \<Longrightarrow>
      io_ok (stands host c2 e 0) (finish_command hw cmd dev') Q"
  shows "io_ok (stands host c 0 0) (emmc_issue_command hw cmd arg t dev) Q"
proof -
  let ?u = "1 OR e" and ?dev = "dev\<lparr>last_command_value := TO_REG cmd\<rparr>"
  have u: "?u AND 0x8001 = 1" "?u AND 0xFFFF0000 = 0" "?u AND 0xFFFF0001 = 1" "?u AND NOT 0xFFFF0001 = e" "shown ?u AND 0x8001 \<noteq> 0"
    using e by (auto simp: shown_def)
  have fin: "io_ok (stands host c2 e 0) (io_bind (read_response hw cmd ?dev) (finish_command hw cmd)) Q"
    by (rule io_ok_bind [OF st_response]) (auto intro: io_ok_fact rest)
  have flags: "io_ok (stands host c2 ?u 1) (io_bind (io_get32 hw INT_FLAGS) (\<lambda>v. io_bind (io_put32 hw INT_FLAGS 0xFFFF0001) (\<lambda>_.
      if v AND 0xFFFF0001 \<noteq> 1 then io_ret (False, (set_last_error v ?dev)\<lparr>last_success := False\<rparr>)
      else io_bind (read_response hw cmd ?dev) (finish_command hw cmd)))) Q"
  proof (rule io_ok_bind [OF st_flags [OF u(2)]], rule io_okI)
    fix v d assume v: "sub 1 v \<and> sub v ?u \<and> stands host c2 ?u v d"
    have "1 AND 0xFFFF0001 = ?u AND 0xFFFF0001" using u(3) by simp
    then have one: "v AND 0xFFFF0001 = 1" using between_mask [of 1 v ?u "0xFFFF0001"] v u(3) by simp
    have "sub (0xFFFF0001 AND ?u) v" using v u(3) by (simp add: and.commute)
    note cl = st_clear [OF this, of c2]
    have "io_ok (stands host c2 ?u v) (io_put32 hw INT_FLAGS 0xFFFF0001) (\<lambda>_. stands host c2 e 0)"
      by (rule io_ok_post [OF cl]) (simp only: u(4), erule stands_sub, simp)
    note io_okD [OF io_ok_bind [OF this fin], of d]
    then show "\<exists>x d'. io_bind (io_put32 hw INT_FLAGS 0xFFFF0001) (\<lambda>_.
      if v AND 0xFFFF0001 \<noteq> 1 then io_ret (False, (set_last_error v ?dev)\<lparr>last_success := False\<rparr>)
      else io_bind (read_response hw cmd ?dev) (finish_command hw cmd)) d = Inr (x, d') \<and> Q x d'"
      using v one by simp
  qed
  have wait: "io_ok (stands host c2 ?u 0) (cmd_wait hw (unat t)) (\<lambda>ok d. ok = True \<and> stands host c2 ?u 1 d)"
    using st_cmd_wait [OF u(5) only_done [OF u(1,2)] t, of c2 0] by simp
  have cmd: "io_ok (stands host c1 0 0) (io_put32 hw CMDTM (TO_REG cmd)) (\<lambda>_. stands host c2 ?u 0)"
    using st_cmd [OF c1(2), of 0] by (simp add: c2)
  have go: "io_ok (stands host c1 0 0) (io_bind (io_put32 hw CMDTM (TO_REG cmd)) (\<lambda>_. io_bind (cmd_wait hw (unat t)) (\<lambda>ok.
      if \<not> ok then io_ret (False, ?dev\<lparr>last_success := False\<rparr>)
      else io_bind (io_get32 hw INT_FLAGS) (\<lambda>v. io_bind (io_put32 hw INT_FLAGS 0xFFFF0001) (\<lambda>_.
        if v AND 0xFFFF0001 \<noteq> 1 then io_ret (False, (set_last_error v ?dev)\<lparr>last_success := False\<rparr>)
        else io_bind (read_response hw cmd ?dev) (finish_command hw cmd)))))) Q"
    using flags by (intro io_ok_bind [OF cmd] io_ok_bind [OF wait] io_ok_fact) simp
  have par: "io_ok (stands host c 0 0) (io_put32 hw BLKSIZECNT (block_size dev OR push_bit 16 (transfer_blocks dev)))
      (\<lambda>_. stands host (c\<lparr>h_blk := block_size dev OR push_bit 16 (transfer_blocks dev)\<rparr>) 0 0)"
    "io_ok (stands host (c\<lparr>h_blk := block_size dev OR push_bit 16 (transfer_blocks dev)\<rparr>) 0 0) (io_put32 hw ARG1 arg) (\<lambda>_. stands host c1 0 0)"
    using st_param [of BLKSIZECNT "\<lambda>h. h\<lparr>h_blk := block_size dev OR push_bit 16 (transfer_blocks dev)\<rparr>"]
      st_param [of ARG1 "\<lambda>h. h\<lparr>h_arg := arg\<rparr>"] c1(1) by auto
  have "\<not> 0xFFFF < transfer_blocks dev" using blocks by simp
  then show ?thesis
    using io_ok_bind [OF par(1) io_ok_bind [OF par(2) go]] by (simp add: emmc_issue_command_def Let_def)
qed

text \<open>The second part of a command that ends with the event \<open>transfer done\<close>.\<close>

lemma st_finish:
  assumes kind: "is_data cmd \<noteq> 0 \<or> response_type cmd = RT48Busy"
    and data: "is_data cmd \<noteq> 0 \<Longrightarrow> io_ok P (do_data_transfer hw cmd dev) (\<lambda>r d. r = (True, dev') \<and> stands host c 2 0 d)"
    and no: "is_data cmd = 0 \<Longrightarrow> P = stands host c 2 0 \<and> dev' = dev"
  shows "io_ok P (finish_command hw cmd dev) (\<lambda>r d. r = (True, dev'\<lparr>last_success := True\<rparr>) \<and> stands host c 0 0 d)"
proof -
  have clear: "io_ok (stands host c 0 0) (io_put32 hw INT_FLAGS 0xFFFF0002) (\<lambda>_. stands host c 0 0)"
    using st_clear [of "0xFFFF0002" 0 0 c] by simp
  have fin: "io_ok (stands host c 2 0) (io_bind (wait_reg_mask hw INT_FLAGS 0x8002 True 2000) (\<lambda>_.
            io_bind (io_get32 hw INT_FLAGS) (\<lambda>intr_val.
            io_bind (io_put32 hw INT_FLAGS 0xFFFF0002) (\<lambda>_.
              if intr_val AND 0xFFFF0002 \<noteq> 2 \<and> intr_val AND 0xFFFF0002 \<noteq> 0x100002
              then io_ret (False, set_last_error intr_val dev')
              else io_bind (io_put32 hw INT_FLAGS 0xFFFF0002) (\<lambda>_. io_ret (True, dev'\<lparr>last_success := True\<rparr>))))))
      (\<lambda>r d. r = (True, dev'\<lparr>last_success := True\<rparr>) \<and> stands host c 0 0 d)"
    by (rule st_take [where k = 1]) (auto intro!: io_ok_bind [OF clear] io_ok_ret)
  have first: "io_ok P (if is_data cmd \<noteq> 0 then io_bind (do_data_transfer hw cmd dev) (\<lambda>(_, dev'). io_ret dev') else io_ret dev)
      (\<lambda>x d. x = dev' \<and> stands host c 2 0 d)"
    using no by (auto intro!: io_ok_ret io_ok_bind [OF data])
  show ?thesis unfolding finish_command_def using kind fin
    by (intro io_ok_bind [OF first] io_ok_fact, hypsubst) (simp add: disj_commute)
qed

end

section \<open>Reading and writing blocks\<close>

text \<open>
  The controller waits for commands: the card is selected, nothing is in transfer, no event is left, and all
  blocks have 128 words.
\<close>

definition card_ready :: "emmc_device \<Rightarrow> sd_host \<Rightarrow> bool" where
  "card_ready dev h \<longleftrightarrow> calm h \<and> h_stage h = Tran \<and> \<not> h_app h \<and> h_left h = 0 \<and> (\<forall>p. length (h_card h p) = 128) \<and>
     block_size dev = 512 \<and> sdhc dev = h_hc h"

text \<open>The commands of the table.\<close>

lemma command_rows:
  "arr_get commands 0 = Inr (plain_cmd 0 0 0)" "arr_get commands 2 = Inr (plain_cmd RT136 1 2)"
  "arr_get commands 3 = Inr (plain_cmd RT48 1 3)" "arr_get commands 5 = Inr (plain_cmd RT136 0 5)"
  "arr_get commands 7 = Inr (plain_cmd RT48Busy 1 7)" "arr_get commands 8 = Inr (plain_cmd RT48 1 8)"
  "arr_get commands 16 = Inr (plain_cmd RT48 1 16)" "arr_get commands 17 = Inr (data_cmd 1 17)"
  "arr_get commands 18 = Inr (multi_cmd 1 18)" "arr_get commands 24 = Inr (data_cmd 0 24)"
  "arr_get commands 25 = Inr (multi_cmd 0 25)" "arr_get commands 41 = Inr (plain_cmd RT48 0 41)"
  "arr_get commands 51 = Inr (data_cmd 1 51)" "arr_get commands 55 = Inr (plain_cmd RT48 1 55)"
  by (simp_all add: arr_get_def commands_def nth_append)

lemmas row_defs = multi_cmd_def data_cmd_def plain_cmd_def RT48_def RT48Busy_def RT136_def INVALID_CMD_def

lemma row_index:
  "unat (drop_bit 24 (TO_REG (data_cmd 1 17)) AND 0x3f) = 17" "unat (drop_bit 24 (TO_REG (multi_cmd 1 18)) AND 0x3f) = 18"
  "unat (drop_bit 24 (TO_REG (data_cmd 0 24)) AND 0x3f) = 24" "unat (drop_bit 24 (TO_REG (multi_cmd 0 25)) AND 0x3f) = 25"
  by (simp_all add: TO_REG_def row_defs)

lemma row_valid:
  "TO_REG (data_cmd 1 17) \<noteq> TO_REG INVALID_CMD" "TO_REG (multi_cmd 1 18) \<noteq> TO_REG INVALID_CMD"
  "TO_REG (data_cmd 0 24) \<noteq> TO_REG INVALID_CMD" "TO_REG (multi_cmd 0 25) \<noteq> TO_REG INVALID_CMD"
  by (simp_all add: TO_REG_def row_defs)

lemma blk_fields:
  assumes "tb \<le> (0xFFFF :: u32)"
  shows "(512 OR push_bit 16 tb) AND 0x3FF = 512" "drop_bit 16 (512 OR push_bit 16 tb) = tb"
proof -
  have small: "n < 16" if "bit tb n" for n
  proof (rule ccontr)
    assume "\<not> n < 16"
    have "unat tb < 2 ^ 16" using assms by (simp add: word_le_nat_alt)
    then have "unat tb < 2 ^ n" using \<open>\<not> n < 16\<close> by (meson order_less_le_trans one_le_numeral power_increasing not_less)
    then have "\<not> bit (unat tb) n" by (simp add: bit_iff_odd)
    then show False using that by (auto simp: bit_unsigned_iff dest: bit_imp_le_length)
  qed
  have nums: "(0x3FF :: u32) = mask 10" "(512 :: u32) = push_bit 9 1" by (simp_all add: mask_eq_exp_minus_1)
  show "(512 OR push_bit 16 tb) AND 0x3FF = 512"
    unfolding nums by (rule bit_word_eqI) (auto simp: bit_simps bit_single simp del: push_bit_of_1)
  show "drop_bit 16 (512 OR push_bit 16 tb) = tb"
    unfolding nums using small by (intro bit_word_eqI) (auto simp: bit_simps bit_single simp del: push_bit_of_1)
qed

text \<open>What a command for \<open>n\<close> blocks leaves: the buffer \<open>b\<close>, the card \<open>k\<close>, and the controller ready again.\<close>

definition ended :: "('d \<Rightarrow> sd_host) \<Rightarrow> bool \<Rightarrow> u32 list \<Rightarrow> (nat \<Rightarrow> u32 list) \<Rightarrow> bool \<times> emmc_device \<Rightarrow> 'd \<Rightarrow> bool" where
  "ended host hc b k r d \<longleftrightarrow> (\<exists>dev c. r = (True, dev) \<and> buffer dev = b \<and> stands host c 0 0 d \<and> card_ready dev c \<and>
     h_card c = k \<and> h_hc c = hc)"

lemma put_blocks_length:
  "(\<And>q. length (f q) = 128) \<Longrightarrow> 128 * n \<le> length ws \<Longrightarrow> length (put_blocks f p n ws q) = 128"
  by (induction n arbitrary: f p ws) auto

context sd_controller
begin

text \<open>
  A command for \<open>n\<close> blocks from \<open>p\<close> on, reading or writing, does what its transfer does. Both kinds of cards are
  covered: one of high capacity counts its blocks, the other one its bytes.
\<close>

lemma block_command:
  assumes r: "card_ready dev c" and n: "n = unat (transfer_blocks dev)" "0 < n" "transfer_blocks dev \<le> 0xFFFF"
    and p: "p = (if h_hc c then unat arg else unat arg div 512)"
    and cmd: "cmd = (if wr then if 1 < n then multi_cmd 0 25 else data_cmd 0 24 else if 1 < n then multi_cmd 1 18 else data_cmd 1 17)"
    and k: "\<And>q. length (k q) = 128"
    and step: "\<And>dev2 c2. block_size dev2 = 512 \<Longrightarrow> transfer_blocks dev2 = transfer_blocks dev \<Longrightarrow> buffer dev2 = buffer dev \<Longrightarrow>
        calm c2 \<Longrightarrow> h_left c2 = n \<Longrightarrow> h_pos c2 = p \<Longrightarrow> h_words c2 = (if wr then [] else h_card c p) \<Longrightarrow> h_card c2 = h_card c \<Longrightarrow>
      io_ok (stands host c2 (if wr then 0x10 else 0x20) 0) (do_data_transfer hw cmd dev2)
        (\<lambda>r d. r = (True, dev2\<lparr>buffer := b\<rparr>) \<and> stands host (c2\<lparr>h_card := k, h_words := [], h_left := 0, h_pos := p + n - 1\<rparr>) 2 0 d)"
  shows "io_ok (stands host c 0 0) (emmc_command hw (if wr then if 1 < n then 25 else 24 else if 1 < n then 18 else 17) arg 5000 dev)
    (ended host (h_hc c) b k)"
proof -
  define dev1 where "dev1 = dev\<lparr>last_command := cmd\<rparr>"
  define c1 where "c1 = c\<lparr>h_blk := block_size dev1 OR push_bit 16 (transfer_blocks dev1), h_arg := arg\<rparr>"
  define c2 where "c2 = c1\<lparr>h_resp := 0x900, h_app := False, h_left := n, h_pos := p, h_words := (if wr then [] else h_card c p)\<rparr>"
  define e :: u32 where "e = (if wr then 0x10 else 0x20)"
  have data: "is_data cmd = 1" by (simp add: cmd row_defs)
  have c: "calm c" "h_stage c = Tran" "\<not> h_app c" "h_left c = 0" "block_size dev = 512"
    using r by (auto simp: card_ready_def)
  have blk: "h_blk c1 AND 0x3FF = 512" "unat (drop_bit 16 (h_blk c1)) = n"
    using blk_fields [OF n(3)] c(5) n(1) by (simp_all add: c1_def dev1_def)
  have calm1: "calm c1" using c(1) by (simp add: c1_def calm_def)
  have ok: "cmd_ok (TO_REG cmd) c1"
    using c(2-4) n(2) blk calm1 calm_ev [OF calm1] by (simp add: cmd_ok_def cmd row_index c1_def calm_def)
  have "block_of c1 = p" "h_card c1 = h_card c" using p by (simp_all add: block_of_def c1_def)
  then have "host_cmd (TO_REG cmd) c1 = raise_ev (1 OR e) c2"
    using n(2) blk(2) by (cases "n = 1")
      (simp_all add: host_cmd_def cmd row_index start_read_def start_write_def c2_def e_def Let_def)
  moreover have calm2: "calm c2" using calm1 by (simp add: c2_def calm_def)
  ultimately have kn: "known host (host_cmd (TO_REG cmd) c1) = stands host c2 (1 OR e) 0" by (simp add: known_raise)
  have "io_ok (stands host c 0 0) (emmc_issue_command hw cmd arg 5000 dev1) (ended host (h_hc c) b k)"
  proof (rule st_issue [OF _ _ c1_def ok kn])
    fix dev2 assume "responded cmd (h_resp c2) (dev1\<lparr>last_command_value := TO_REG cmd\<rparr>) dev2"
    then obtain rs where dev2: "dev2 = dev1\<lparr>last_command_value := TO_REG cmd, last_response := rs\<rparr>" by (auto simp: responded_def)
    let ?c = "c2\<lparr>h_card := k, h_words := [], h_left := 0, h_pos := p + n - 1\<rparr>" and ?dev = "dev2\<lparr>buffer := b\<rparr>"
    have "io_ok (stands host c2 e 0) (do_data_transfer hw cmd dev2) (\<lambda>r d. r = (True, ?dev) \<and> stands host ?c 2 0 d)"
      unfolding e_def using calm2 c(5) by (intro step) (simp_all add: dev2 dev1_def c2_def c1_def)
    then have "io_ok (stands host c2 e 0) (finish_command hw cmd dev2)
        (\<lambda>r d. r = (True, ?dev\<lparr>last_success := True\<rparr>) \<and> stands host ?c 0 0 d)"
      by (intro st_finish) (simp_all add: data)
    moreover have "card_ready (?dev\<lparr>last_success := True\<rparr>) ?c"
      using r k by (simp add: card_ready_def calm_def dev2 dev1_def c2_def c1_def)
    ultimately show "io_ok (stands host c2 e 0) (finish_command hw cmd dev2) (ended host (h_hc c) b k)"
      by (elim io_ok_post) (auto simp: ended_def c2_def c1_def)
  qed (use n in \<open>simp_all add: dev1_def e_def\<close>)
  moreover have "TO_REG cmd \<noteq> TO_REG INVALID_CMD" using row_valid by (simp add: cmd)
  moreover have "arr_get commands (unat (if wr then if 1 < n then 25 else 24 else if 1 < n then 18 else 17 :: u32)) = Inr cmd"
    using command_rows by (simp add: cmd)
  ultimately show ?thesis by (simp add: emmc_command_def io_bind_def io_res_def dev1_def Let_def fun_eq_iff)
qed

lemma read_command:
  assumes "card_ready dev c" "n = unat (transfer_blocks dev)" "0 < n" "transfer_blocks dev \<le> 0xFFFF" "128 * n \<le> length (buffer dev)"
    and "p = (if h_hc c then unat arg else unat arg div 512)"
  shows "io_ok (stands host c 0 0) (emmc_command hw (if 1 < n then 18 else 17) arg 5000 dev)
    (ended host (h_hc c) (run_words (h_card c) p n @ drop (128 * n) (buffer dev)) (h_card c))"
proof -
  have "run_words (h_card c) p n = h_card c p @ run_words (h_card c) (p + 1) (n - 1)" using assms(3) by (cases n) auto
  have facts: "run_words (h_card c) p n = h_card c p @ run_words (h_card c) (p + 1) (n - 1)" "\<And>q. length (h_card c q) = 128"
    using assms(1,3) by (cases n; simp add: card_ready_def)+
  define cmd where "cmd = (if 1 < n then multi_cmd 1 18 else data_cmd 1 17)"
  have dir: "direction cmd = 1" by (simp add: cmd_def row_defs)
  have "io_ok (stands host c2 0x20 0) (do_data_transfer hw cmd dev2)
      (\<lambda>r d. r = (True, dev2\<lparr>buffer := run_words (h_card c) p n @ drop (128 * n) (buffer dev)\<rparr>) \<and>
        stands host (c2\<lparr>h_card := h_card c, h_words := [], h_left := 0, h_pos := p + n - 1\<rparr>) 2 0 d)"
    if "block_size dev2 = 512" "transfer_blocks dev2 = transfer_blocks dev" "buffer dev2 = buffer dev" "calm c2" "h_left c2 = n"
      "h_pos c2 = p" "h_words c2 = h_card c p" "h_card c2 = h_card c" for dev2 c2
  proof -
    have same: "c2\<lparr>h_card := h_card c, h_words := [], h_left := 0, h_pos := p + n - 1\<rparr> = c2\<lparr>h_words := [], h_left := 0, h_pos := p + n - 1\<rparr>"
      using that(8) by (metis sd_host.surjective sd_host.update_convs(14))
    show ?thesis unfolding same using transfer_in [of 128 c2 n dev2 0] that assms(2-5) facts dir by (simp add: do_data_transfer_def)
  qed
  then show ?thesis using block_command [OF assms(1-4,6), of cmd False "h_card c"] facts(2) by (simp add: cmd_def)
qed

lemma write_command:
  assumes "card_ready dev c" "n = unat (transfer_blocks dev)" "0 < n" "transfer_blocks dev \<le> 0xFFFF" "128 * n \<le> length (buffer dev)"
    and "p = (if h_hc c then unat arg else unat arg div 512)"
  shows "io_ok (stands host c 0 0) (emmc_command hw (if 1 < n then 25 else 24) arg 5000 dev)
    (ended host (h_hc c) (buffer dev) (put_blocks (h_card c) p n (buffer dev)))"
proof -
  define cmd where "cmd = (if 1 < n then multi_cmd 0 25 else data_cmd 0 24)"
  have dir: "direction cmd = 0" by (simp add: cmd_def row_defs)
  have len: "length (put_blocks (h_card c) p n (buffer dev) q) = 128" for q
    using assms(1,5) put_blocks_length [of "h_card c" n "buffer dev" p q] by (simp add: card_ready_def)
  have "io_ok (stands host c2 0x10 0) (do_data_transfer hw cmd dev2)
      (\<lambda>r d. r = (True, dev2\<lparr>buffer := buffer dev\<rparr>) \<and> stands host (c2\<lparr>h_card := put_blocks (h_card c) p n (buffer dev),
        h_words := [], h_left := 0, h_pos := p + n - 1\<rparr>) 2 0 d)"
    if "block_size dev2 = 512" "transfer_blocks dev2 = transfer_blocks dev" "buffer dev2 = buffer dev" "calm c2" "h_left c2 = n"
      "h_pos c2 = p" "h_words c2 = []" "h_card c2 = h_card c" for dev2 c2
  proof -
    have same: "dev2\<lparr>buffer := buffer dev\<rparr> = dev2" using that(3) by (metis emmc_device.surjective emmc_device.update_convs(10))
    show ?thesis unfolding same using transfer_out [of c2 n dev2 0] that assms(2-5) dir by (simp add: do_data_transfer_def)
  qed
  then show ?thesis using block_command [OF assms(1-4,6), of cmd True "put_blocks (h_card c) p n (buffer dev)"] len by (simp add: cmd_def)
qed

text \<open>The entry points of the driver succeed with the first try.\<close>

lemma st_first_try:
  assumes "io_ok P (emmc_command hw command no 5000 dev) (ended host hc b k)"
  shows "io_ok P (retry_loop hw command no 3 dev) (ended host hc b k)"
proof -
  have "io_ok (ended host hc b k x) (case x of (ok, dev') \<Rightarrow> if ok then io_ret (True, dev') else retry_loop hw command no 2 dev') (ended host hc b k)"
    for x by (auto simp: io_ok_def io_ret_def ended_def)
  note io_ok_bind [OF assms this]
  moreover have "(3 :: nat) = Suc 2" by simp
  ultimately show ?thesis by (simp only: retry_loop.simps)
qed

lemma data_command:
  assumes r: "card_ready dev c" and n: "n = unat (nbytes div 512)" "0 < n" "n \<le> 0xFFFF" "nbytes mod 512 = 0" "128 * n \<le> length buf"
    and sector: "h_hc c \<or> unat sector < 8388608"
  shows "io_ok (stands host c 0 0) (do_data_command hw wr buf nbytes sector dev)
    (ended host (h_hc c) (if wr then buf else run_words (h_card c) (unat sector) n @ drop (128 * n) buf)
      (if wr then put_blocks (h_card c) (unat sector) n buf else h_card c))"
proof -
  define dev1 where "dev1 = dev\<lparr>transfer_blocks := nbytes div 512, buffer := buf\<rparr>"
  define no where "no = (if sdhc dev then sector else sector * 512)"
  have ready: "card_ready dev1 c" "block_size dev = 512" "sdhc dev = h_hc c" using r by (simp_all add: card_ready_def dev1_def)
  have p: "unat sector = (if h_hc c then unat no else unat no div 512)"
  proof (cases "h_hc c")
    case False
    then have "unat (sector * 512) = unat sector * 512" using sector by (subst unat_mult_small) auto
    then show ?thesis using False ready(3) by (simp add: no_def)
  qed (simp add: no_def ready(3))
  have small: "transfer_blocks dev1 \<le> 0xFFFF" using n(1,3) by (simp add: dev1_def word_le_nat_alt)
  have "\<not> nbytes < 512" using n(1,2) by (simp add: word_less_nat_alt unat_div)
  moreover have "nbytes AND 0x1ff = 0"
    using n(4) take_bit_eq_mod [of 9 nbytes] by (simp add: take_bit_eq_mask mask_eq_exp_minus_1)
  moreover have b: "transfer_blocks dev1 = nbytes div 512" "buffer dev1 = buf" "(1 < nbytes div 512) = (1 < n)"
    using n(1) by (simp_all add: dev1_def word_less_nat_alt)
  moreover have "io_ok (stands host c 0 0) (retry_loop hw (if wr then if 1 < n then 25 else 24 else if 1 < n then 18 else 17) no 3 dev1)
    (ended host (h_hc c) (if wr then buf else run_words (h_card c) (unat sector) n @ drop (128 * n) buf)
      (if wr then put_blocks (h_card c) (unat sector) n buf else h_card c))"
    using read_command [OF ready(1), of n "unat sector" no] write_command [OF ready(1), of n "unat sector" no] n small p b
    by (cases wr) (auto intro: st_first_try)
  ultimately show ?thesis using ready(2) n(4)
    by (simp add: do_data_command_def no_def dev1_def Let_def io_bind_def io_res_def cong: if_cong)
qed

end

end
