(* ===== verification/Emmc_Board.thy ===== *)
theory Emmc_Board
  imports Emmc_Issue
begin

text \<open>
  A controller with a card that keeps the contract: its clock moves with every look at the timer, and an event
  shows 50 microseconds after its cause. The properties of the driver are applied to it.
\<close>

section \<open>The device\<close>

record sd_board =
  b_host :: sd_host
  b_clock :: nat
  b_due :: nat

definition board_due :: "sd_board \<Rightarrow> nat" where
  "board_due b = min (b_due b) (b_clock b + 100000)"

definition settled :: "sd_host \<Rightarrow> sd_host" where
  "settled h = h\<lparr>h_flags := ev h, h_pend := 0, h_settling := False\<rparr>"

definition board_host :: "sd_board \<Rightarrow> sd_host" where
  "board_host b = (let h = b_host b in
     if b_clock b < board_due b then h\<lparr>h_pend := h_pend h AND NOT (h_flags h)\<rparr> else settled h)"

definition sd_get :: "u32 \<Rightarrow> sd_board \<Rightarrow> u32 \<times> sd_board" where
  "sd_get a b =
     (if a = timer_addr
      then (of_nat (b_clock b + 1), \<lparr>b_host = board_host b, b_clock = b_clock b + 1, b_due = board_due b\<rparr>)
      else (fst (host_get a (board_host b)),
        \<lparr>b_host = snd (host_get a (board_host b)), b_clock = b_clock b, b_due = if a = DATA then b_clock b + 50 else board_due b\<rparr>))"

definition sd_put :: "u32 \<Rightarrow> u32 \<Rightarrow> sd_board \<Rightarrow> sd_board" where
  "sd_put a v b = \<lparr>b_host = host_put a v (board_host b), b_clock = b_clock b,
     b_due = if a \<in> {DATA, CMDTM, CONTROL1} then b_clock b + 50 else board_due b\<rparr>"

definition sd_hw :: "sd_board hw" where
  "sd_hw = \<lparr>spi_n_transfer = (\<lambda>k tx b. (tx, b)), spi_n_init = (\<lambda>k q b. (k, b)), pulldown = (\<lambda>p b. b),
     GET32 = sd_get, PUT32 = sd_put, hw_polls = 1048576\<rparr>"

section \<open>It keeps the contract\<close>

definition clean :: "sd_host \<Rightarrow> bool" where
  "clean h \<longleftrightarrow> h_flags h AND h_pend h = 0"

lemma clean_norm: "clean h \<Longrightarrow> h\<lparr>h_pend := h_pend h AND NOT (h_flags h)\<rparr> = h"
proof -
  assume c: "clean h"
  have "h_pend h AND NOT (h_flags h) = h_pend h"
  proof (rule bit_word_eqI)
    fix n assume "n < LENGTH(32)"
    moreover have "\<not> bit (h_flags h AND h_pend h) n" using c by (simp add: clean_def)
    ultimately show "bit (h_pend h AND NOT (h_flags h)) n = bit (h_pend h) n" by (auto simp: bit_simps)
  qed
  then show ?thesis by simp
qed

lemma clean_raise [simp]: "clean (raise_ev e h)"
  by (auto simp: clean_def raise_ev_def bit_simps intro!: bit_word_eqI)

lemma clean_board [simp]: "clean (board_host b)"
  by (auto simp: clean_def board_host_def settled_def Let_def bit_simps intro!: bit_word_eqI)

lemma settled_clean [simp]: "clean (settled h)" "settled (settled h) = settled h"
  by (simp_all add: clean_def settled_def ev_def)

lemma settled_calm: "h_pend h = 0 \<Longrightarrow> \<not> h_settling h \<Longrightarrow> settled h = h"
  by (simp add: settled_def ev_def)

lemma board_calm: "\<not> b_clock b < board_due b \<Longrightarrow> h_pend (board_host b) = 0 \<and> \<not> h_settling (board_host b)"
  by (simp add: board_host_def settled_def Let_def)

lemma later_settled: "clean h \<Longrightarrow> later h (settled h)"
  by (auto simp: later_def settled_def ev_def core_def sub_def bit_simps)

lemma board_due_le: "board_due b \<le> b_clock b + 100000"
  by (simp add: board_due_def)

text \<open>A board that holds a clean state at the same time.\<close>

lemma board_host_now:
  assumes "clean h" "t < u \<or> h_pend h = 0 \<and> \<not> h_settling h" "u \<le> t + 100000"
  shows "board_host \<lparr>b_host = h, b_clock = t, b_due = u\<rparr> = h"
  using assms clean_norm settled_calm by (auto simp: board_host_def board_due_def Let_def)

lemma board_kept: "board_host \<lparr>b_host = board_host b, b_clock = b_clock b, b_due = board_due b\<rparr> = board_host b"
  using board_calm [of b] board_due_le by (intro board_host_now) auto

lemma board_tick: "later (board_host b) (board_host \<lparr>b_host = board_host b, b_clock = b_clock b + 1, b_due = board_due b\<rparr>)"
proof (cases "b_clock b + 1 < board_due b")
  case True
  then show ?thesis using clean_norm [OF clean_board, of b] board_due_le [of b]
    by (auto simp: board_host_def [of "\<lparr>b_host = _, b_clock = _, b_due = _\<rparr>"] board_due_def [of "\<lparr>b_host = _, b_clock = _, b_due = _\<rparr>"]
      Let_def later_refl clean_def [symmetric])
next
  case False
  then show ?thesis using later_settled [OF clean_board, of b]
    by (auto simp: board_host_def [of "\<lparr>b_host = _, b_clock = _, b_due = _\<rparr>"] board_due_def [of "\<lparr>b_host = _, b_clock = _, b_due = _\<rparr>"] Let_def)
qed

lemma clean_get: "clean h \<Longrightarrow> clean (snd (host_get a h))"
  by (auto simp: host_get_def block_read_def clean_def [of "_\<lparr>h_words := _\<rparr>"] split: list.split) (simp_all add: clean_def)

lemma clean_cmd: "clean (host_cmd w h)"
  by (auto simp: host_cmd_def Let_def start_read_def start_write_def answer_def op_cond_def)
    (auto simp: clean_def raise_ev_def bit_simps intro!: bit_word_eqI)

lemma clean_put: "clean h \<Longrightarrow> clean (host_put a v h)"
  by (auto simp: host_put_def block_written_def clean_cmd Let_def)
    (auto simp: clean_def bit_simps and.assoc and.left_commute)

text \<open>The registers that do not start anything leave the device as calm as it was.\<close>

lemma calm_get: "a \<noteq> DATA \<Longrightarrow> snd (host_get a h) = h"
  by (simp add: host_get_def)

lemma calm_put:
  "a \<notin> {DATA, CMDTM, CONTROL1} \<Longrightarrow> h_pend (host_put a v h) = h_pend h \<and> h_settling (host_put a v h) = h_settling h"
  by (simp add: host_put_def)

lemma timer_apart: "get_ok a h \<Longrightarrow> a \<noteq> timer_addr"
  by (auto simp: get_ok_def emmc_regs timer_addr_def split: if_splits)

lemma sd_get_law:
  assumes "get_ok a (board_host b)" "sd_get a b = (v, b')"
  shows "\<exists>h. later (board_host b) h \<and> host_get a h = (v, board_host b') \<and> b_clock b \<le> b_clock b' \<and>
    (a \<noteq> DATA \<longrightarrow> board_due b' \<le> board_due b)"
proof -
  have b': "b' = \<lparr>b_host = snd (host_get a (board_host b)), b_clock = b_clock b, b_due = if a = DATA then b_clock b + 50 else board_due b\<rparr>"
    and v: "v = fst (host_get a (board_host b))"
    using assms(2) timer_apart [OF assms(1)] by (auto simp: sd_get_def)
  have "board_host b' = snd (host_get a (board_host b))"
  proof (cases "a = DATA")
    case True
    then show ?thesis unfolding b' by (intro board_host_now) (auto simp: clean_get)
  next
    case False
    then show ?thesis unfolding b' using board_kept by (simp add: calm_get)
  qed
  then show ?thesis using v by (intro exI [of _ "board_host b"]) (auto simp: b' later_refl clean_def [symmetric] board_due_def)
qed

lemma sd_put_law:
  "\<exists>h. later (board_host b) h \<and> board_host (sd_put a v b) = host_put a v h \<and> b_clock b \<le> b_clock (sd_put a v b) \<and>
    (a \<notin> {DATA, CMDTM, CONTROL1} \<longrightarrow> board_due (sd_put a v b) \<le> board_due b)"
proof -
  have "board_host (sd_put a v b) = host_put a v (board_host b)"
    unfolding sd_put_def using board_calm [of b] calm_put [of a v "board_host b"] board_due_le [of b]
    by (intro board_host_now) (auto simp: clean_put)
  then show ?thesis by (intro exI [of _ "board_host b"]) (auto simp: sd_put_def later_refl clean_def [symmetric] board_due_def)
qed

interpretation sdb: sd_controller sd_hw board_host b_clock board_due
proof
  fix b b' :: sd_board and a v :: u32
  show "h_pend (board_host b) \<noteq> 0 \<or> h_settling (board_host b) \<Longrightarrow> b_clock b < board_due b" using board_calm [of b] by blast
  show "board_due b \<le> b_clock b + 100000" by (rule board_due_le)
  show "h_flags (board_host b) AND h_pend (board_host b) = 0" using clean_board by (simp add: clean_def)
  show "GET32 sd_hw timer_addr b = (v, b') \<Longrightarrow>
      v = of_nat (b_clock b') \<and> b_clock b < b_clock b' \<and> b_clock b' < b_clock b + 2147483648 \<and> passes board_host b_clock board_due b b'"
    using board_tick [of b] by (auto simp: sd_hw_def sd_get_def passes_def board_due_def)
  show "get_ok a (board_host b) \<Longrightarrow> GET32 sd_hw a b = (v, b') \<Longrightarrow>
      \<exists>h. later (board_host b) h \<and> host_get a h = (v, board_host b') \<and> b_clock b \<le> b_clock b' \<and> (a \<noteq> DATA \<longrightarrow> board_due b' \<le> board_due b)"
    using sd_get_law by (simp add: sd_hw_def)
  show "put_ok a v (board_host b) \<Longrightarrow>
      \<exists>h. later (board_host b) h \<and> board_host (PUT32 sd_hw a v b) = host_put a v h \<and> b_clock b \<le> b_clock (PUT32 sd_hw a v b) \<and>
        (a \<notin> {DATA, CMDTM, CONTROL1} \<longrightarrow> board_due (PUT32 sd_hw a v b) \<le> board_due b)"
    using sd_put_law by (simp add: sd_hw_def)
  show "1048576 \<le> hw_polls sd_hw" by (simp add: sd_hw_def)
qed

end
