(* ===== verification/Emmc_Props.thy ===== *)
theory Emmc_Props
  imports Emmc_Board SdCard
begin

text \<open>
  The driver of the SD controller implements the card that the block layer of \<open>SdCard\<close> works on.
\<close>

section \<open>Words and bytes\<close>

definition bytes_of_words :: "u32 list \<Rightarrow> u8 list" where
  "bytes_of_words ws = concat (map le32_bytes ws)"

lemma bytes_append [simp]: "bytes_of_words (ws @ vs) = bytes_of_words ws @ bytes_of_words vs"
  by (simp add: bytes_of_words_def)

lemma length_bytes [simp]: "length (bytes_of_words ws) = 4 * length ws"
  by (induction ws) (simp_all add: bytes_of_words_def)

lemma take_bytes: "bytes_of_words (take n ws) = take (4 * n) (bytes_of_words ws)"
  and drop_bytes: "bytes_of_words (drop n ws) = drop (4 * n) (bytes_of_words ws)"
proof -
  have "bytes_of_words ws = bytes_of_words (take n ws) @ bytes_of_words (drop n ws)"
    unfolding bytes_append [symmetric] by simp
  moreover have "length (bytes_of_words (take n ws)) = min (4 * n) (4 * length ws)" by simp
  ultimately show "bytes_of_words (take n ws) = take (4 * n) (bytes_of_words ws)"
    "bytes_of_words (drop n ws) = drop (4 * n) (bytes_of_words ws)"
    by (simp_all add: min_def split: if_splits)
qed

text \<open>The blocks of the controller's card are the sectors of the abstract card.\<close>

definition holds :: "sd_host \<Rightarrow> sd \<Rightarrow> bool" where
  "holds h s \<longleftrightarrow> (\<forall>i. sectors s i = bytes_of_words (h_card h (unat i)))"

lemma run_is_read:
  assumes "holds h s" "unat a + n \<le> 4294967296"
  shows "concat (map (\<lambda>i. sectors s (a + of_nat i)) [0..<n]) = bytes_of_words (run_words (h_card h) (unat a) n)"
  using assms(2)
proof (induction n)
  case (Suc n)
  have run: "run_words f p (Suc n) = run_words f p n @ f (p + n)" for f p by (induction n arbitrary: p) simp_all
  have "unat (a + of_nat n) = unat a + n" using Suc.prems by (simp add: unat_word_ariths unat_of_nat)
  then show ?case using Suc assms(1) by (simp add: run holds_def bytes_of_words_def del: run_words.simps)
qed (simp add: bytes_of_words_def)

lemma put_blocks_nth:
  "put_blocks f p n ws q = (if p \<le> q \<and> q < p + n then take 128 (drop (128 * (q - p)) ws) else f q)"
proof (induction n arbitrary: f p ws)
  case (Suc n)
  note IH = Suc.IH [of "f(p := take 128 ws)" "p + 1" "drop 128 ws"]
  show ?case
  proof (cases "p < q")
    case True
    then obtain j where q: "q = p + 1 + j" using less_imp_Suc_add by auto
    have "drop (128 * j) (drop 128 ws) = drop (128 * (j + 1)) ws" by (simp add: add.commute)
    then show ?thesis unfolding put_blocks.simps IH unfolding q by simp
  next
    case False
    then show ?thesis unfolding put_blocks.simps IH by (cases "q = p") simp_all
  qed
qed auto

lemma block_bytes:
  assumes "512 * k + 512 \<le> length bs"
  shows "map ((!) bs) [512 * k..<512 * k + 512] = take 512 (drop (512 * k) bs)"
  using assms by (intro nth_equalityI) (auto simp: add.commute)

lemma write_holds:
  assumes "holds h s" "unat a + n \<le> 4294967296" "128 * n \<le> length ws" "h_card h' = put_blocks (h_card h) (unat a) n ws"
  shows "holds h' (s\<lparr>sectors := \<lambda>i. let k = unat (i - a) in
    if k < n then map ((!) (bytes_of_words ws)) [512 * k..<512 * k + 512] else sectors s i\<rparr>)"
  unfolding holds_def
proof
  fix i :: u32
  let ?k = "unat (i - a)"
  have far: "n \<le> ?k" if "unat i < unat a"
  proof -
    have "?k = unat i + 4294967296 - unat a" using that by (simp add: unat_sub_if_size word_size)
    then show ?thesis using assms(2) by simp
  qed
  have near: "?k = unat i - unat a" if "unat a \<le> unat i" using that by (simp add: unat_sub word_le_nat_alt)
  show "sectors (s\<lparr>sectors := \<lambda>i. let k = unat (i - a) in
      if k < n then map ((!) (bytes_of_words ws)) [512 * k..<512 * k + 512] else sectors s i\<rparr>) i
    = bytes_of_words (h_card h' (unat i))"
  proof (cases "?k < n")
    case True
    then have "unat a \<le> unat i" "unat i < unat a + n" using far near by (force intro: leI)+
    moreover have "512 * ?k + 512 \<le> length (bytes_of_words ws)" using True assms(3) by simp
    ultimately show ?thesis using True near by (simp add: assms(4) put_blocks_nth block_bytes take_bytes drop_bytes)
  next
    case False
    then have "\<not> (unat a \<le> unat i \<and> unat i < unat a + n)" using near by auto
    then show ?thesis using False assms(1) by (auto simp: assms(4) put_blocks_nth holds_def)
  qed
qed

section \<open>Refinement\<close>

lemma whole_blocks:
  assumes "nbytes mod 512 = (0 :: u32)" "512 \<le> nbytes" "nbytes div 512 \<le> 0xFFFF"
  shows "unat nbytes = 512 * unat (nbytes div 512)" "0 < unat (nbytes div 512)" "unat (nbytes div 512) \<le> 0xFFFF"
proof -
  have "unat nbytes mod 512 = 0" using arg_cong [OF assms(1), of unat] by (simp add: unat_mod)
  then show *: "unat nbytes = 512 * unat (nbytes div 512)" by (auto simp: unat_div mod_eq_0_iff_dvd)
  show "0 < unat (nbytes div 512)" using assms(2) * by (auto simp: word_le_nat_alt)
  show "unat (nbytes div 512) \<le> 0xFFFF" using assms(3) by (simp add: word_le_nat_alt)
qed

context sd_controller
begin

lemma data_run:
  assumes r: "card_ready dev (host d)" and n: "n = unat (nbytes div 512)" "0 < n" "n \<le> 0xFFFF" "nbytes mod 512 = 0" "128 * n \<le> length buf"
    and a: "h_hc (host d) \<or> unat a < 8388608"
  obtains dev' d' where "do_data_command hw wr buf nbytes a dev d = Inr ((True, dev'), d')" "card_ready dev' (host d')"
    "buffer dev' = (if wr then buf else run_words (h_card (host d)) (unat a) n @ drop (128 * n) buf)"
    "h_card (host d') = (if wr then put_blocks (h_card (host d)) (unat a) n buf else h_card (host d))"
    "h_hc (host d') = h_hc (host d)"
proof -
  have "stands host (host d) 0 0 d" using r by (simp add: card_ready_def stands_def calm_core calm_ev) (simp add: calm_def)
  from io_okD [OF data_command [OF r n a] this] obtain x d' where x: "do_data_command hw wr buf nbytes a dev d = Inr (x, d')"
    and e: "ended host (h_hc (host d)) (if wr then buf else run_words (h_card (host d)) (unat a) n @ drop (128 * n) buf)
      (if wr then put_blocks (h_card (host d)) (unat a) n buf else h_card (host d)) x d'" by blast
  from e obtain dev' c where c: "x = (True, dev')" "stands host c 0 0 d'" "card_ready dev' c"
    "buffer dev' = (if wr then buf else run_words (h_card (host d)) (unat a) n @ drop (128 * n) buf)"
    "h_card c = (if wr then put_blocks (h_card (host d)) (unat a) n buf else h_card (host d))" "h_hc c = h_hc (host d)"
    unfolding ended_def by blast
  have "host d' = c" using rest_host(1) [OF c(2)] .
  then show thesis using that x c by blast
qed

lemma read_io_spec:
  assumes r: "card_ready dev (host d)" and h: "holds (host d) s"
    and n: "nbytes mod 512 = 0" "512 \<le> nbytes" "nbytes div 512 \<le> 0xFFFF" "unat nbytes \<le> 4 * length buf"
    and a: "unat a + unat (nbytes div 512) \<le> (if h_hc (host d) then 4294967296 else 8388608)" "\<not> sd_bad s a"
  shows "\<exists>dev' d'. emmc_read_io hw a buf nbytes dev d = Inr ((nbytes, dev'), d') \<and>
    emmc_read s a nbytes = Inr (nbytes, take (unat nbytes) (bytes_of_words (buffer dev'))) \<and>
    drop (unat nbytes) (bytes_of_words (buffer dev')) = drop (unat nbytes) (bytes_of_words buf) \<and>
    card_ready dev' (host d') \<and> holds (host d') s \<and> h_hc (host d') = h_hc (host d)"
proof -
  let ?n = "unat (nbytes div 512)" and ?run = "run_words (h_card (host d)) (unat a) (unat (nbytes div 512))"
  note nb = whole_blocks [OF n(1-3)]
  have buf: "128 * ?n \<le> length buf" using nb(1) n(4) by simp
  have near: "h_hc (host d) \<or> unat a < 8388608" using a(1) nb(2) by (auto split: if_splits)
  obtain dev' d' where run: "do_data_command hw False buf nbytes a dev d = Inr ((True, dev'), d')" "card_ready dev' (host d')"
    "buffer dev' = ?run @ drop (128 * ?n) buf" "h_card (host d') = h_card (host d)" "h_hc (host d') = h_hc (host d)"
    using data_run [OF r refl nb(2,3) n(1) buf near, of False] by auto
  have bytes: "concat (map (\<lambda>i. sectors s (a + of_nat i)) [0..<?n]) = bytes_of_words ?run"
    using a(1) by (intro run_is_read [OF h]) (simp split: if_splits)
  have "length (run_words f p m) = 128 * m" if "\<And>p. length (f p) = 128" for f p m
    using that by (induction m arbitrary: p) auto
  then have len: "length (bytes_of_words ?run) = unat nbytes" using r nb(1) by (simp add: card_ready_def)
  have "emmc_read_io hw a buf nbytes dev d = Inr ((nbytes, dev'), d')"
    using run(1) n(1) by (simp add: emmc_read_io_def io_bind_def io_res_def io_ret_def)
  moreover have "emmc_read s a nbytes = Inr (nbytes, take (unat nbytes) (bytes_of_words (buffer dev')))"
    using n(1-3) a(2) len by (simp add: emmc_read_def bytes run(3) not_less [symmetric])
  moreover have "drop (unat nbytes) (bytes_of_words (buffer dev')) = drop (unat nbytes) (bytes_of_words buf)"
    using len nb(1) by (simp add: run(3) drop_bytes)
  ultimately show ?thesis using run(2,4,5) h by (auto simp: holds_def)
qed

lemma write_io_spec:
  assumes r: "card_ready dev (host d)" and h: "holds (host d) s"
    and n: "nbytes mod 512 = 0" "512 \<le> nbytes" "nbytes div 512 \<le> 0xFFFF" "unat nbytes \<le> 4 * length buf"
    and a: "unat a + unat (nbytes div 512) \<le> (if h_hc (host d) then 4294967296 else 8388608)" "\<not> sd_bad s a"
  shows "\<exists>dev' d' s'. emmc_write_io hw a buf nbytes dev d = Inr ((nbytes, dev'), d') \<and>
    emmc_write s a ((!) (bytes_of_words buf)) nbytes = Inr (nbytes, s') \<and>
    card_ready dev' (host d') \<and> holds (host d') s' \<and> h_hc (host d') = h_hc (host d)"
proof -
  let ?n = "unat (nbytes div 512)"
  note nb = whole_blocks [OF n(1-3)]
  have buf: "128 * ?n \<le> length buf" using nb(1) n(4) by simp
  have near: "h_hc (host d) \<or> unat a < 8388608" using a(1) nb(2) by (auto split: if_splits)
  obtain dev' d' where run: "do_data_command hw True buf nbytes a dev d = Inr ((True, dev'), d')" "card_ready dev' (host d')"
    "h_card (host d') = put_blocks (h_card (host d)) (unat a) ?n buf" "h_hc (host d') = h_hc (host d)"
    using data_run [OF r refl nb(2,3) n(1) buf near, of True] unfolding if_True by blast
  have io: "emmc_write_io hw a buf nbytes dev d = Inr ((nbytes, dev'), d')"
    using run(1) n(1) by (simp add: emmc_write_io_def io_bind_def io_res_def io_ret_def)
  have "unat a + ?n \<le> 4294967296" using a(1) by (simp split: if_splits)
  note w = write_holds [OF h this buf run(3)]
  show ?thesis using io run(2,4) w n(1-3) a(2) by (auto simp: emmc_write_def not_less [symmetric])
qed

end

section \<open>Property\<close>

text \<open>C6: The driver implements the card of the block layer. On every controller that keeps its documented contract, from
  a state in which the card is selected and idle and its blocks are the sectors of the abstract card, \<open>emmc_read\<close>
  returns the size, fills the front of the caller's memory with the bytes that the abstract read returns, leaves the rest of it
  and the card alone; \<open>emmc_write\<close> returns the size and leaves on the card what the abstract write leaves. In both
  cases the driver is ready for the next request. This covers one block and many, cards addressed by block and by byte.\<close>

theorem emmc_refines_card:
  assumes "sd_controller hw host now due" and "card_ready dev (host d)" and "holds (host d) s"
    and "nbytes mod 512 = 0" and "512 \<le> nbytes" and "nbytes div 512 \<le> 0xFFFF" and "unat nbytes \<le> 4 * length buf"
    and "unat a + unat (nbytes div 512) \<le> (if h_hc (host d) then 4294967296 else 8388608)" and "\<not> sd_bad s a"
  shows "(\<exists>dev' d'. emmc_read_io hw a buf nbytes dev d = Inr ((nbytes, dev'), d') \<and>
      emmc_read s a nbytes = Inr (nbytes, take (unat nbytes) (bytes_of_words (buffer dev'))) \<and>
      drop (unat nbytes) (bytes_of_words (buffer dev')) = drop (unat nbytes) (bytes_of_words buf) \<and>
      card_ready dev' (host d') \<and> holds (host d') s \<and> h_hc (host d') = h_hc (host d)) \<and>
    (\<exists>dev' d' s'. emmc_write_io hw a buf nbytes dev d = Inr ((nbytes, dev'), d') \<and>
      emmc_write s a ((!) (bytes_of_words buf)) nbytes = Inr (nbytes, s') \<and>
      card_ready dev' (host d') \<and> holds (host d') s' \<and> h_hc (host d') = h_hc (host d))"
  using sd_controller.read_io_spec [OF assms] sd_controller.write_io_spec [OF assms] by (rule conjI)

definition demo_host :: sd_host where
  "demo_host = \<lparr>h_blk = 0, h_arg = 0, h_resp = 0, h_ctl1 = 0, h_flags = 0, h_pend = 0, h_settling = False, h_stage = Tran, h_app = False,
     h_busy = 0, h_left = 0, h_pos = 0, h_words = [], h_card = (\<lambda>p. replicate 128 (of_nat p)), h_hc = True, h_scr = [0, 0], h_rca = 1\<rparr>"

definition demo_board :: sd_board where
  "demo_board = \<lparr>b_host = demo_host, b_clock = 0, b_due = 0\<rparr>"

definition demo_dev :: emmc_device where
  "demo_dev = \<lparr>last_success = True, transfer_blocks = 0, last_command = INVALID_CMD, last_command_value = 0, block_size = 512,
     last_response = [0, 0, 0, 0], sdhc = True, ocr = 0, rca = 1, buffer = [], base_clock = 0, last_error = 0, last_interrupt = 0,
     scr = [0, 0], scr_version = 0\<rparr>"

definition demo_sd :: sd where
  "demo_sd = \<lparr>sectors = (\<lambda>i. bytes_of_words (replicate 128 i)), sd_dead = False, sd_bad = (\<lambda>_. False), sd_init_p = True, sd_trace_p = False\<rparr>"

lemma demo_facts:
  "board_host demo_board = demo_host" "card_ready demo_dev demo_host" "holds demo_host demo_sd" "\<not> sd_bad demo_sd a"
  by (simp_all add: board_host_def board_due_def settled_def ev_def demo_board_def demo_host_def demo_dev_def card_ready_def calm_def
    holds_def demo_sd_def)

theorem emmc_refines_card_witness:
  "(\<exists>dev' d'. emmc_read_io sd_hw 7 (replicate 300 5) 1024 demo_dev demo_board = Inr ((1024, dev'), d') \<and>
      emmc_read demo_sd 7 1024 = Inr (1024, take 1024 (bytes_of_words (buffer dev')))) \<and>
   (\<exists>dev' d' s'. emmc_write_io sd_hw 7 (replicate 300 5) 1024 demo_dev demo_board = Inr ((1024, dev'), d') \<and>
      emmc_write demo_sd 7 ((!) (bytes_of_words (replicate 300 5))) 1024 = Inr (1024, s') \<and> holds (board_host d') s')"
proof -
  have "h_hc demo_host" by (simp add: demo_host_def)
  then show ?thesis
    using emmc_refines_card [OF sdb.sd_controller_axioms, of demo_dev demo_board demo_sd 1024 "replicate 300 5" 7] demo_facts
    by auto
qed

end
