(* ===== verification/Spec2Isabelle.thy ===== *)
theory Spec2Isabelle
  imports Queue_Props Fat32_Props Fs_Props Dfs_Props Thread_Props Libc_Props Nrf_Props Nrf_Router Vm_Props Libc_Mem Fat32_Lfn Emmc_Props
begin

text \<open>
  A verification library for a distributed file system on Raspberry Pi kernels: a master that knows where the
  chunks of a file are, chunk servers that keep them on FAT32 volumes, a client with a shell, radios between
  them, and below them the small kernel with its threads, console, virtual memory and C library.

  \<^bold>\<open>Style.\<close> The programs are translated function by function into HOL functions. A function that can fail
  returns \<open>fault + 'a\<close> (theory \<open>Prelude\<close>): panics, failed assertions, accesses out of bounds, divisions by
  zero and loops that never end are values. Integers keep their width (\<open>u8\<close>, \<open>u16\<close>, \<open>u32\<close>). State is
  passed along in records with the fields of the C structures. Code that talks to devices is a program of
  type \<open>('d, 'a) io\<close> over an abstract device state (\<open>Device_Io\<close>); what it relies on of the device is a
  locale, and a concrete device shows that its laws can hold together. Output for debugging is left out.

  \<^bold>\<open>Data structures.\<close> \<open>Fifo\<close> is the contract of a queue, a locale; \<open>Circular\<close> (\<open>libpi/libc/circular.h\<close>)
  and \<open>LinkedQ\<close> (\<open>libpi/libc/Q.h\<close>) interpret it, \<open>Queue_Props\<close> states that both behave as lists under all
  sequences of operations. \<open>Bit_Support\<close> is \<open>bit-support.h\<close>.

  \<^bold>\<open>C library.\<close> \<open>Printk\<close> is formatted output and input, \<open>Libc_Crc\<close> the checksum, equal to the bitwise
  CRC-32, \<open>Libc_Random\<close> the random numbers, equal to the additive feedback sequence, \<open>Libc_Mem\<close> the memory
  and string functions over one memory, \<open>Global\<close> the one-shot flags. The properties are in \<open>Libc_Props\<close>,
  \<open>Libc_Mem\<close> and, for numbers printed and read back, \<open>Fs_Props\<close>.

  \<^bold>\<open>FAT32.\<close> \<open>SdCard\<close> is the block layer \<open>fat32/pi-sd.c\<close> over an abstract card, \<open>Emmc\<close> the driver of the
  controller (\<open>external-code/emmc.c\<close>) over its registers; \<open>Emmc_Host\<close> is the contract of the controller,
  \<open>Emmc_Rules\<close>, \<open>Emmc_Data\<close> and \<open>Emmc_Issue\<close> are proved from it, \<open>Emmc_Board\<close> is a controller that keeps it, and
  \<open>Emmc_Props\<close> shows that the reads and writes of the driver are those of the abstract card. \<open>Mbr\<close> is the partition table, \<open>Fat32_Layout\<close> the
  structures and helpers, \<open>Fat32_Lfn\<close> long names with their UTF-8 coding, \<open>Fat32\<close> every function of
  \<open>fat32/fat32.c\<close>. \<open>Fat32_Chain\<close> to \<open>Fat32_Store\<close> hold the lemmas: chains and their walks, the geometry of
  a volume, writing, reading, creating, deleting, and the refinement of a directory to a map from names to
  contents. \<open>Fat32_Props\<close> has the properties on the volume of \<open>Fat32_Sample\<close>: round trip and frame of a
  write, directory invariants, correct search and allocation, and three errors of the driver (a write of
  two new clusters, a write that needs fewer clusters than the file has, a read of an absent name). \<open>Fs_Apis\<close> is \<open>fat32/fs-apis.c\<close>; \<open>Fs_Store\<close> is its contract
  for the servers and \<open>Fs_Props\<close> the refinement.

  \<^bold>\<open>Distributed file system.\<close> \<open>Dfs_Packet\<close> has the packets and the radio as the servers see it (a log of
  what is sent, a list of what arrives), \<open>Dfs_Conn\<close> the table of connections, \<open>Dfs_Chunk_Fat\<close> and
  \<open>Dfs_Chunkserver\<close> a chunk server, \<open>Dfs_Master_Fat\<close> and \<open>Dfs_Master\<close> the master with its heartbeats,
  \<open>Dfs_Client\<close> and \<open>Dfs_Shell\<close> the client. \<open>Dfs_System\<close> puts them together: what one sends the other
  receives. \<open>Dfs_Props\<close> states the round trip from \<open>echo\<close> to \<open>cat\<close> through all of them, the splitting into
  packets, invariants, heartbeats, and the errors that the model shows.

  \<^bold>\<open>Threads and console.\<close> \<open>Thread_Core\<close> has what both packages share, \<open>Rpi_Thread\<close> the cooperative threads
  with the context switch of \<open>threads/thread-asm.S\<close>, \<open>Uart_Io\<close> the console with its interrupts,
  \<open>Pre_Thread\<close> the preemptive threads, \<open>Pre_Sched\<close> and \<open>Pre_Steps\<close> their invariant and step relation.
  \<open>Thread_Props\<close>: no thread is lost, the console lock is exclusive, the timer is fair, the cooperative
  threads refine an abstract machine. The step relation runs \<open>pre_fork\<close> without an interrupt inside it, which
  the source does not ensure; \<open>Pre_Race\<close> shows that a timer interrupt there loses the new thread. Fairness is
  stated for threads that do not wait for the console, between turns in which the threads only compute.

  \<^bold>\<open>Radio.\<close> \<open>Nrf_Hw\<close> has registers and configuration, \<open>Nrf_Driver\<close> the driver with its interrupt handler,
  \<open>Nrf_Router\<close> the registration of nodes. \<open>Nrf_Chip\<close> is the contract of the chip, \<open>Nrf_Rules\<close>, \<open>Nrf_Send\<close>,
  \<open>Nrf_Recv\<close> and \<open>Nrf_Start\<close> are proved from it, \<open>Nrf_Board\<close> is a board that keeps it. \<open>Nrf_Props\<close>: a radio
  starts, sends exactly what it is asked to, and reads what arrived in its order, without loss. The send is
  proved for a chip on which the command for it is enabled, as the data sheet asks; the initialisations of the
  source leave it disabled. A transfer over the bus is one step, not interrupted by another user of the bus.

  \<^bold>\<open>Virtual memory.\<close> \<open>Vm_Mmu\<close> is \<open>vm/\<close> with its assembly sequences over a machine of page tables,
  co-processor registers and TLB; \<open>Vm_Props\<close> adds the walk of the hardware and shows that the identity
  mapping is one and that a change of the protection takes effect at once.

  \<^bold>\<open>Bounds.\<close> A loop without a bound in the source has fuel; running out of it is the fault \<open>Diverges\<close>, and the
  theorems show that it does not happen or happens exactly when the loop never ends. The walks of the FAT
  get one round per entry and one more, which is exact (\<open>chain_walk_fuel_exact\<close>); the loops over strings
  get \<open>2 ^ 32\<close> rounds, the size of the memory; those that poll a device get \<open>hw_polls\<close>, at least \<open>2 ^ 20\<close>,
  more than the microseconds of every delay; those that wait for packets end with the list of arrivals.

  \<^bold>\<open>Map.\<close> Constants, and loops and small helpers that stand inside a mapped function, belong to the lines of
  that function and have no entry of their own.

  \<^bold>\<open>Not modelled.\<close>
  \<^item> Boot code, exception vectors and other assembly than the two context switches and the sequences of the
    MMU: their effect is the state in which the model starts, or the step that runs a handler.
  \<^item> Caches and barriers: no effect on the modelled state.
  \<^item> \<open>kmalloc\<close>, the SPI bus and other routines that the repository has as object files only: parameters, with
    what their headers document.
  \<^item> The mailbox to the firmware and the SD driver \<open>bzt-sd.c\<close>, which nothing calls; the software UART, which
    is bit timing by cycle counts; the timer's device registers, whose interrupts are steps of the scheduler.
  \<^item> The variants of the radio driver for transmit interrupts, which the configuration of the sources turns off.
  \<^item> Texts written for debugging, the host tools of \<open>libunix\<close>, tests, and the empty shell.
\<close>

end
